(* ===== verification/Etl_Prelude.thy ===== *)
theory Etl_Prelude
  imports Main "HOL-Library.AList" "HOL-Library.List_Lexorder" "HOL-Library.Char_ord"
    "HOL-Library.Product_Lexorder"
begin

text \<open>
  The shared vocabulary of the development.

  Python dictionaries keep insertion order and the control plane relies on that order when it
  scans them, so a dictionary is an association list with Python's update rule (a known key keeps
  its position, a new key goes to the end).  Instants are integers counting microseconds, the
  resolution of Python's \<open>datetime\<close>.  An operation of a store is a function from the store to a
  result paired with the store it leaves behind, so that an exception raised after a partial
  update is visible.
\<close>

subsection \<open>Proof-method collections\<close>

named_theorems step_simps \<open>unfolding of store operations\<close>
named_theorems frame_simps \<open>what an operation leaves alone\<close>

subsection \<open>Insertion-ordered dictionaries\<close>

type_synonym ('k, 'v) pydict = "('k \<times> 'v) list"

definition dget :: "('k, 'v) pydict \<Rightarrow> 'k \<Rightarrow> 'v option" where
  "dget d k = map_of d k"

definition dput :: "'k \<Rightarrow> 'v \<Rightarrow> ('k, 'v) pydict \<Rightarrow> ('k, 'v) pydict" where
  "dput k v d = AList.update k v d"

definition dpop :: "'k \<Rightarrow> ('k, 'v) pydict \<Rightarrow> ('k, 'v) pydict" where
  "dpop k d = AList.delete k d"

text \<open>Replacing the value of every row, which is what a loop that reassigns existing keys does.\<close>

definition dmap :: "('k \<Rightarrow> 'v \<Rightarrow> 'v) \<Rightarrow> ('k, 'v) pydict \<Rightarrow> ('k, 'v) pydict" where
  "dmap f d = map (\<lambda>(k, v). (k, f k v)) d"

lemma dget_Nil [simp]: "dget [] k = None"
  by (simp add: dget_def)

lemma dget_Cons [simp]: "dget ((k, v) # d) k' = (if k = k' then Some v else dget d k')"
  by (simp add: dget_def)

lemma dget_dput [simp]: "dget (dput k v d) k' = (if k' = k then Some v else dget d k')"
  by (simp add: dget_def dput_def update_conv')

lemma dget_dpop [simp]: "dget (dpop k d) k' = (if k' = k then None else dget d k')"
  by (simp add: dget_def dpop_def delete_conv')

lemma dget_dmap [simp]: "dget (dmap f d) k = map_option (f k) (dget d k)"
  by (induction d) (auto simp: dget_def dmap_def)

lemma dput_Nil [simp]: "dput k v [] = [(k, v)]"
  by (simp add: dput_def)

lemma dput_Cons [simp]:
  "dput k v ((k', v') # d) = (if k' = k then (k, v) # d else (k', v') # dput k v d)"
  by (simp add: dput_def)

lemma dpop_Nil [simp]: "dpop k [] = []"
  by (simp add: dpop_def)

lemma dpop_Cons [simp]:
  "dpop k ((k', v') # d) = (if k' = k then dpop k d else (k', v') # dpop k d)"
  by (simp add: dpop_def)

lemma dmap_Nil [simp]: "dmap f [] = []"
  by (simp add: dmap_def)

lemma dmap_Cons [simp]: "dmap f ((k, v) # d) = (k, f k v) # dmap f d"
  by (simp add: dmap_def)

lemma dget_in_set: "dget d k = Some v \<Longrightarrow> (k, v) \<in> set d"
  by (simp add: dget_def map_of_SomeD)

lemma dget_None_iff: "dget d k = None \<longleftrightarrow> k \<notin> fst ` set d"
  by (simp add: dget_def map_of_eq_None_iff)

lemma dget_in_keys: "dget d k = Some v \<Longrightarrow> k \<in> fst ` set d"
  by (metis dget_in_set fst_conv image_eqI)

lemma distinct_dput: "distinct (map fst d) \<Longrightarrow> distinct (map fst (dput k v d))"
  by (simp add: dput_def distinct_update)

lemma distinct_dpop: "distinct (map fst d) \<Longrightarrow> distinct (map fst (dpop k d))"
  by (simp add: dpop_def distinct_delete)

lemma distinct_dmap [simp]: "distinct (map fst (dmap f d)) = distinct (map fst d)"
  by (simp add: dmap_def comp_def case_prod_unfold)

lemma dget_eq_iff_mem:
  "distinct (map fst d) \<Longrightarrow> dget d k = Some v \<longleftrightarrow> (k, v) \<in> set d"
  by (simp add: dget_def)

lemma set_dput_subset: "set (dput k v d) \<subseteq> insert (k, v) (set d)"
  by (induction d) (auto split: if_splits)

lemma dput_same: "dget d k = Some v \<Longrightarrow> dput k v d = d"
  by (induction d) (auto split: if_splits)

lemma filter_dput:
  "(\<And>v. \<not> P (k, v)) \<Longrightarrow> filter P (dput k v d) = filter P d"
  by (induction d) auto

lemma filter_dpop:
  "(\<And>v. \<not> P (k, v)) \<Longrightarrow> filter P (dpop k d) = filter P d"
  by (induction d) auto

text \<open>Counting the rows that satisfy a predicate, as the admission checks do.\<close>

definition dcount :: "('k \<Rightarrow> 'v \<Rightarrow> bool) \<Rightarrow> ('k, 'v) pydict \<Rightarrow> nat" where
  "dcount P d = length (filter (\<lambda>(k, v). P k v) d)"

lemma dcount_Nil [simp]: "dcount P [] = 0"
  by (simp add: dcount_def)

lemma dcount_Cons [simp]:
  "dcount P ((k, v) # d) = (if P k v then Suc (dcount P d) else dcount P d)"
  by (simp add: dcount_def)

lemma dcount_dput_new:
  "dget d k = None \<Longrightarrow> dcount P (dput k v d) = dcount P d + (if P k v then 1 else 0)"
  by (induction d) (auto split: if_splits)

lemma dcount_dput_replace:
  "dget d k = Some old \<Longrightarrow>
   dcount P (dput k v d) + (if P k old then 1 else 0) = dcount P d + (if P k v then 1 else 0)"
  by (induction d) (auto split: if_splits)

lemma dcount_dput_le:
  "dget d k = Some old \<Longrightarrow> (P k v \<Longrightarrow> P k old) \<Longrightarrow> dcount P (dput k v d) \<le> dcount P d"
  using dcount_dput_replace[of d k old P v] by (auto split: if_splits)

lemma dcount_zero_iff:
  "dcount P d = 0 \<longleftrightarrow> (\<forall>(k, v) \<in> set d. \<not> P k v)"
  by (auto simp: dcount_def filter_empty_conv)

lemma dcount_mono:
  "(\<And>k v. (k, v) \<in> set d \<Longrightarrow> P k v \<Longrightarrow> Q k v) \<Longrightarrow> dcount P d \<le> dcount Q d"
proof (induction d)
  case (Cons p d)
  obtain k v where "p = (k, v)" by (cases p)
  with Cons show ?case by (auto intro: le_SucI)
qed simp

lemma dcount_card:
  "distinct (map fst d) \<Longrightarrow> dcount P d = card {k. \<exists>v. dget d k = Some v \<and> P k v}"
proof (induction d)
  case (Cons p d)
  obtain k v where p: "p = (k, v)" by (cases p)
  let ?S = "{k. \<exists>v. dget d k = Some v \<and> P k v}"
  have "?S \<subseteq> fst ` set d" by (auto dest: dget_in_keys)
  then have fin: "finite ?S" by (rule finite_subset) simp
  have none: "dget d k = None" using Cons.prems p by (simp add: dget_None_iff)
  then have "{k'. \<exists>v'. dget (p # d) k' = Some v' \<and> P k' v'} = (if P k v then insert k ?S else ?S)"
    by (auto simp: p split: if_splits)
  moreover have "k \<notin> ?S" using none by simp
  ultimately show ?case using Cons fin p by simp
qed simp

lemma dcount_le_rows:
  assumes "distinct (map fst d)" "distinct (map fst d')"
    and "\<And>k v'. dget d' k = Some v' \<Longrightarrow> P k v' \<Longrightarrow> \<exists>v. dget d k = Some v \<and> P k v"
  shows "dcount P d' \<le> dcount P d"
proof -
  have "{k. \<exists>v. dget d k = Some v \<and> P k v} \<subseteq> fst ` set d" by (auto dest: dget_in_keys)
  then have "finite {k. \<exists>v. dget d k = Some v \<and> P k v}" by (rule finite_subset) simp
  then show ?thesis using assms by (simp add: dcount_card) (rule card_mono, auto)
qed

subsection \<open>Results\<close>

text \<open>
  The exceptions of the control plane: \<open>ControlPlaneError\<close> with its constructors
  (\<open>not_found\<close>, \<open>forbidden\<close>, \<open>conflict\<close> and an explicit code), \<open>ValueError\<close> and the
  \<open>KeyError\<close> of a failed subscript.  Details are the source's messages without the structured
  extensions.
\<close>

datatype cp_error =
    Not_found string
  | Forbidden string
  | Conflict string
  | Cp_error string nat string
  | Value_error string
  | Key_error

type_synonym 'a res = "cp_error + 'a"
type_synonym ('s, 'a) outcome = "'a res \<times> 's"

subsection \<open>Instants\<close>

type_synonym instant = int

abbreviation usec :: "int \<Rightarrow> int" where
  "usec seconds \<equiv> seconds * 1000000"

text \<open>
  Stored timestamps are ISO-8601 strings and several scans sort rows by that string.
  \<open>datetime.isoformat\<close> prints no fraction when the microseconds are zero, and then the
  character after the seconds is \<open>Z\<close>, which sorts after the \<open>.\<close> that starts a fraction.
  \<open>iso_key\<close> is a key whose order is the order of those strings.
\<close>

definition iso_key :: "instant \<Rightarrow> int \<times> int" where
  "iso_key t = (t div 1000000, if t mod 1000000 = 0 then 1000000 else t mod 1000000)"

lemma iso_key_inj: "iso_key a = iso_key b \<Longrightarrow> a = b"
proof -
  assume "iso_key a = iso_key b"
  then have d: "a div 1000000 = b div 1000000"
    and m: "(if a mod 1000000 = 0 then 1000000 else a mod 1000000)
          = (if b mod 1000000 = 0 then 1000000 else b mod 1000000)"
    by (simp_all add: iso_key_def)
  have "a mod 1000000 < 1000000" "b mod 1000000 < 1000000" by simp_all
  with m have "a mod 1000000 = b mod 1000000" by (auto split: if_splits)
  with d show "a = b" by (metis div_mult_mod_eq)
qed

subsection \<open>Strings\<close>

text \<open>
  Strings range over Latin-1.  \<open>str.strip\<close> leaves nothing exactly when every character is white
  space; \<open>is_token_char\<close> is \<open>islower() or isdigit() or == '_'\<close>.
\<close>

definition is_space :: "char \<Rightarrow> bool" where
  "is_space c \<longleftrightarrow> (let n = of_char c :: nat in n = 32 \<or> (9 \<le> n \<and> n \<le> 13) \<or> (28 \<le> n \<and> n \<le> 31)
                        \<or> n = 133 \<or> n = 160)"

definition blank :: "string \<Rightarrow> bool" where
  "blank s \<longleftrightarrow> list_all is_space s"

definition is_token_char :: "char \<Rightarrow> bool" where
  "is_token_char c \<longleftrightarrow> (let n = of_char c :: nat in
     (97 \<le> n \<and> n \<le> 122) \<or> n = 170 \<or> n = 181 \<or> n = 186 \<or> (223 \<le> n \<and> n \<le> 255 \<and> n \<noteq> 247)
     \<or> (48 \<le> n \<and> n \<le> 57) \<or> n = 178 \<or> n = 179 \<or> n = 185 \<or> n = 95)"

text \<open>The bytes of the UTF-8 encoding of a string whose characters are Latin-1.\<close>

definition utf8_length :: "string \<Rightarrow> int" where
  "utf8_length s = sum_list (map (\<lambda>c. if (of_char c :: int) < 128 then 1 else 2) s)"

definition starts_with :: "string \<Rightarrow> string \<Rightarrow> bool" where
  "starts_with p s \<longleftrightarrow> take (length p) s = p"

text \<open>\<open>str.lower\<close> on a character, and the substring test \<open>in\<close>.\<close>

definition lower_char :: "char \<Rightarrow> char" where
  "lower_char c = (let n = of_char c :: int in
     if (65 \<le> n \<and> n \<le> 90) \<or> (192 \<le> n \<and> n \<le> 222 \<and> n \<noteq> 215) then char_of (n + 32) else c)"

definition contains :: "string \<Rightarrow> string \<Rightarrow> bool" where
  "contains needle s = list_ex (\<lambda>i. starts_with needle (drop i s)) [0..<Suc (length s)]"

subsection \<open>Guards\<close>

text \<open>A sequence of guard clauses: the first condition that holds raises its error.\<close>

fun first_error :: "(bool \<times> cp_error) list \<Rightarrow> cp_error option" where
  "first_error [] = None"
| "first_error ((b, e) # gs) = (if b then Some e else first_error gs)"

lemma first_error_None: "first_error gs = None \<longleftrightarrow> (\<forall>(b, e) \<in> set gs. \<not> b)"
  by (induction gs rule: first_error.induct) auto

abbreviation raise_in :: "'s \<Rightarrow> cp_error \<Rightarrow> ('s, 'a) outcome" where
  "raise_in s e \<equiv> (Inl e, s)"

abbreviation return_in :: "'s \<Rightarrow> 'a \<Rightarrow> ('s, 'a) outcome" where
  "return_in s x \<equiv> (Inr x, s)"

definition of_opt :: "string option \<Rightarrow> string" where
  "of_opt v = (case v of None \<Rightarrow> [] | Some x \<Rightarrow> x)"

text \<open>Python's \<open>a or b\<close> on optional strings: the empty string is false.\<close>

definition or_opt :: "string option \<Rightarrow> string option \<Rightarrow> string option" where
  "or_opt a b = (if a = None \<or> a = Some [] then b else a)"

text \<open>The slice \<open>[-n:]\<close>.\<close>

definition last_n :: "nat \<Rightarrow> 'a list \<Rightarrow> 'a list" where
  "last_n n xs = drop (length xs - n) xs"

lemma length_last_n [simp]: "length (last_n n xs) = min n (length xs)"
  by (simp add: last_n_def)

fun join_bar :: "string list \<Rightarrow> string" where
  "join_bar [] = []"
| "join_bar [x] = x"
| "join_bar (x # y # xs) = x @ ''|'' @ join_bar (y # xs)"

end
