(* ===== verification/Durable_Records.thy ===== *)
theory Durable_Records
  imports Etl_Prelude
begin

text \<open>
  The records of the durable work store (\<open>control_plane/durable_models.py\<close>,
  \<open>control_plane/models.py\<close>) and the store itself (the dictionaries of
  \<open>MemoryDurableWorkStore\<close> in \<open>control_plane/durable_memory.py\<close>).  Timestamps are the
  instants that the stored ISO strings denote.  The fields \<open>metadata\<close> that no operation reads,
  and the deprecated twin \<open>prefect_flow_run_id\<close> that every operation sets equal to
  \<open>remote_run_id\<close>, are left out.
\<close>

subsection \<open>Request scope\<close>

type_synonym scope = "string \<times> string"
type_synonym key = "string \<times> string \<times> string"
type_synonym pub_key = "string \<times> string \<times> string \<times> string"

datatype principal_kind = Human | Workload | Service

record principal =
  pr_subject :: string
  pr_issuer :: "string option"
  pr_kind :: principal_kind

record ctx =
  cx_principal :: principal
  cx_tenant :: string
  cx_workspace :: string
  cx_environment :: string
  cx_domain :: string
  cx_owner :: "string option"

definition scope_of :: "ctx \<Rightarrow> scope" where
  "scope_of c = (cx_tenant c, cx_workspace c)"

lemma scope_of_eq: "scope_of c = (t, w) \<longleftrightarrow> cx_tenant c = t \<and> cx_workspace c = w"
  by (simp add: scope_of_def)

definition mk_key :: "scope \<Rightarrow> string \<Rightarrow> key" where
  "mk_key sc i = (fst sc, snd sc, i)"

definition key_scope :: "key \<Rightarrow> scope" where
  "key_scope k = (fst k, fst (snd k))"

definition key_id :: "key \<Rightarrow> string" where
  "key_id k = snd (snd k)"

lemma key_scope_mk_key [simp]: "key_scope (mk_key sc i) = sc"
  by (simp add: key_scope_def mk_key_def)

lemma key_id_mk_key [simp]: "key_id (mk_key sc i) = i"
  by (simp add: key_id_def mk_key_def)

lemma mk_key_inject [simp]: "mk_key sc i = mk_key sc' i' \<longleftrightarrow> sc = sc' \<and> i = i'"
  by (cases sc; cases sc') (auto simp: mk_key_def)

lemma mk_key_collapse [simp]: "mk_key (key_scope k) (key_id k) = k"
  by (simp add: key_scope_def key_id_def mk_key_def)

lemma mk_key_eq_iff: "mk_key sc i = k \<longleftrightarrow> sc = key_scope k \<and> i = key_id k"
  by auto

subsection \<open>Statuses\<close>

datatype submission_status =
  Accepted | Dispatched | Cancel_requested | Cancelled | Completed | Failed

definition non_terminal :: "submission_status \<Rightarrow> bool" where
  "non_terminal st \<longleftrightarrow> st = Accepted \<or> st = Dispatched \<or> st = Cancel_requested"

definition is_terminal :: "submission_status \<Rightarrow> bool" where
  "is_terminal st \<longleftrightarrow> st = Cancelled \<or> st = Completed \<or> st = Failed"

lemma non_terminal_iff: "non_terminal st \<longleftrightarrow> \<not> is_terminal st"
  by (cases st) (auto simp: non_terminal_def is_terminal_def)

datatype attempt_status = A_running | A_cancelled | A_completed | A_failed | A_lost

datatype effect_status =
  E_none | E_pending | E_committed | E_not_committed | E_failed | E_unknown

datatype dispatch_status =
  D_pending | D_leased | D_uncertain | D_dispatched | D_cancelled | D_reconciliation_required

datatype route_status = R_active | R_draining | R_retired | R_cleanup_pending | R_cleaned

datatype action_status =
  J_queued | J_running | J_cancel_requested | J_succeeded | J_failed | J_timed_out | J_cancelled

subsection \<open>Rows\<close>

record submission =
  su_id :: string
  su_tenant :: string
  su_workspace :: string
  su_subject :: string
  su_operation :: string
  su_idempotency_key :: string
  su_created_at :: instant
  su_plan_fingerprint :: string
  su_revision_id :: "string option"
  su_plugin_fingerprint :: "string option"
  su_policy_fingerprint :: "string option"
  su_input_snapshot :: "string option"
  su_issuer :: "string option"
  su_kind :: principal_kind
  su_status :: submission_status
  su_schema_observation :: "string option"
  su_schema_baseline :: "string option"
  su_environment :: "string option"
  su_domain :: "string option"
  su_owner :: "string option"
  su_run_id :: "string option"
  su_route :: string

record outbox =
  ob_id :: string
  ob_submission :: string
  ob_created_at :: instant
  ob_payload :: string
  ob_published_at :: "instant option"
  ob_deliveries :: nat

record lease =
  le_submission :: string
  le_owner :: string
  le_token :: nat
  le_acquired_at :: instant
  le_expires_at :: instant
  le_heartbeat_at :: instant

record attempt =
  at_id :: string
  at_submission :: string
  at_tenant :: string
  at_workspace :: string
  at_owner :: string
  at_token :: nat
  at_started_at :: instant
  at_status :: attempt_status
  at_completed_at :: "instant option"
  at_context :: "(string, string option) pydict"

record publication =
  pb_submission :: string
  pb_attempt :: string
  pb_run :: string
  pb_tenant :: string
  pb_workspace :: string
  pb_report :: string
  pb_sha256 :: string
  pb_created_at :: instant
  pb_published_at :: "instant option"

record checkpoint =
  ck_id :: string
  ck_version :: nat
  ck_value :: string
  ck_updated_at :: instant
  ck_submission :: "string option"
  ck_attempt :: "string option"
  ck_baseline :: "string option"

record effect =
  ef_id :: string
  ef_submission :: string
  ef_tenant :: string
  ef_workspace :: string
  ef_status :: effect_status
  ef_recorded_at :: instant
  ef_idempotency_evidence :: "string option"
  ef_reconciliation_evidence :: "string option"
  ef_publication_evidence :: "string option"
  ef_compensation_evidence :: "string option"
  ef_authoritative :: bool

record preview =
  pv_id :: string
  pv_tenant :: string
  pv_workspace :: string
  pv_base_revision :: string
  pv_candidate_revision :: string
  pv_created_at :: instant
  pv_expires_at :: instant
  pv_quota :: int
  pv_code_fingerprint :: string
  pv_plan_fingerprint :: string
  pv_policy_fingerprint :: "string option"
  pv_environment_fingerprint :: "string option"
  pv_commit_ref :: "string option"
  pv_pull_request_ref :: "string option"
  pv_cleaned_at :: "instant option"
  pv_stale :: bool
  pv_stale_reason :: "string option"

record shadow =
  sh_id :: string
  sh_preview :: string
  sh_submission :: string
  sh_tenant :: string
  sh_workspace :: string
  sh_authorized_by :: string
  sh_created_at :: instant
  sh_effects :: "string list"
  sh_production :: bool

record preview_diff =
  df_id :: string
  df_preview :: string
  df_tenant :: string
  df_workspace :: string
  df_created_at :: instant
  df_fingerprints :: "string option list"

record baseline =
  bl_ack_id :: string
  bl_baseline :: string
  bl_observation :: string
  bl_version :: nat
  bl_created_at :: instant
  bl_submission :: "string option"

datatype diagnostic_kind = G_corruption | G_migration | G_conflict

record diagnostic =
  dg_id :: string
  dg_tenant :: string
  dg_workspace :: string
  dg_checkpoint :: string
  dg_kind :: diagnostic_kind
  dg_detail :: string
  dg_created_at :: instant
  dg_recoverable :: bool

record reconciliation =
  rc_from :: nat
  rc_to :: nat
  rc_remote_run :: string
  rc_authorized_at :: instant
  rc_subject :: string
  rc_issuer :: "string option"
  rc_evidence :: string

record dispatch =
  di_submission :: string
  di_route :: string
  di_binding :: string
  di_plan_fingerprint :: string
  di_envelope_sha :: string
  di_generation :: nat
  di_creation_key :: string
  di_created_at :: instant
  di_updated_at :: instant
  di_status :: dispatch_status
  di_attempts :: nat
  di_owner :: "string option"
  di_token :: nat
  di_expires_at :: "instant option"
  di_retry_after :: "instant option"
  di_remote_run :: "string option"
  di_error :: "string option"
  di_history :: "reconciliation list"

record route_transition =
  rt_revision :: nat
  rt_from :: route_status
  rt_to :: route_status
  rt_changed_at :: instant
  rt_subject :: string
  rt_issuer :: "string option"

record route =
  ro_route :: string
  ro_status :: route_status
  ro_revision :: nat
  ro_changed_at :: "instant option"
  ro_history :: "route_transition list"

record action_job =
  aj_id :: string
  aj_owner :: string
  aj_subject :: string
  aj_issuer :: "string option"
  aj_kind :: principal_kind
  aj_environment :: string
  aj_domain :: string
  aj_action :: string
  aj_idempotency_key :: string
  aj_fingerprint :: string
  aj_request :: string
  aj_created_at :: instant
  aj_deadline_at :: instant
  aj_status :: action_status
  aj_phase :: string
  aj_attempt :: nat
  aj_token :: nat
  aj_worker :: "string option"
  aj_expires_at :: "instant option"
  aj_started_at :: "instant option"
  aj_completed_at :: "instant option"
  aj_result :: "string option"
  aj_result_expires_at :: "instant option"
  aj_error :: "string option"

subsection \<open>The store\<close>

text \<open>
  The submission idempotency key: scope, issuer, kind, subject, operation, caller key.  The
  action key also carries the security domain, environment and owner; the legacy form of a
  snapshot lacks them.
\<close>

type_synonym idem_key = "scope \<times> string \<times> principal_kind \<times> string \<times> string \<times> string"

datatype action_key =
    Action_key scope string string string string principal_kind string string string
  | Legacy_key scope string principal_kind string string string

record store =
  admission_limit :: "nat option"
  submissions :: "(key, submission) pydict"
  idempotency :: "(idem_key, string) pydict"
  outboxes :: "(key, outbox) pydict"
  dispatches :: "(key, dispatch) pydict"
  leases :: "(key, lease) pydict"
  attempts :: "(key, attempt) pydict"
  publications :: "(pub_key, publication) pydict"
  checkpoints :: "(key, checkpoint) pydict"
  effects :: "(key, effect) pydict"
  previews :: "(key, preview) pydict"
  diffs :: "(key, preview_diff) pydict"
  shadows :: "(key, shadow) pydict"
  baselines :: "(key, baseline) pydict"
  action_jobs :: "(key, action_job) pydict"
  action_idempotency :: "(action_key, string) pydict"
  diagnostics :: "diagnostic list"
  routes :: "(string, route) pydict"
  route_refs :: "(string, string list) pydict"

definition empty_store :: "nat option \<Rightarrow> store" where
  "empty_store lim = \<lparr>admission_limit = lim, submissions = [], idempotency = [], outboxes = [],
     dispatches = [], leases = [], attempts = [], publications = [], checkpoints = [],
     effects = [], previews = [], diffs = [], shadows = [], baselines = [], action_jobs = [],
     action_idempotency = [], diagnostics = [], routes = [], route_refs = []\<rparr>"

subsection \<open>Code outside the model\<close>

text \<open>
  What the store calls and the model takes as given: SHA-256 and \<open>json\<close> (standard library), the
  regular-expression redactor of \<open>runtime/logging.py\<close>, and the envelope parser of
  \<open>control_plane/execution_envelope.py\<close> (its plan fingerprint and plan schema, or nothing when
  parsing raises).  Every theorem holds for all choices of these functions.

  \<^item> \<open>ex_report\<close>: \<open>json.loads\<close> on a run report: no JSON, JSON that is no object, or the object's
    \<open>schema\<close> and \<open>run_id\<close>;
  \<^item> \<open>ex_creation_identity\<close>, \<open>ex_principal_identity\<close>, \<open>ex_action_identity\<close>: the canonical JSON texts
    that are hashed into a dispatch creation key, a principal key and an action fingerprint;
  \<^item> \<open>ex_redact_request\<close>, \<open>ex_redact_result\<close>: the canonical JSON of a redacted action request or result.
\<close>

record externals =
  ex_sha256 :: "string \<Rightarrow> string"
  ex_redact_text :: "string \<Rightarrow> string"
  ex_redact_context :: "(string, string option) pydict \<Rightarrow> (string, string option) pydict"
  ex_redact_envelope :: "string option \<Rightarrow> string option"
  ex_parse_envelope :: "string \<Rightarrow> (string \<times> string option) option"
  ex_report :: "string \<Rightarrow> (string option \<times> string option) option option"
  ex_creation_identity :: "key \<Rightarrow> string \<Rightarrow> nat \<Rightarrow> string"
  ex_principal_identity :: "principal \<Rightarrow> string"
  ex_action_identity :: "string \<Rightarrow> string \<Rightarrow> string"
  ex_redact_request :: "string \<Rightarrow> string"
  ex_redact_result :: "string option \<Rightarrow> string"

text \<open>The dictionary default \<open>ExecutionRouteRecord(route)\<close>: an active route at revision zero.\<close>

definition default_route :: "string \<Rightarrow> route" where
  "default_route r = \<lparr>ro_route = r, ro_status = R_active, ro_revision = 0, ro_changed_at = None,
     ro_history = []\<rparr>"

definition route_state :: "store \<Rightarrow> string \<Rightarrow> route" where
  "route_state s r = (case dget (routes s) r of None \<Rightarrow> default_route r | Some x \<Rightarrow> x)"

definition route_ref_list :: "store \<Rightarrow> string \<Rightarrow> string list" where
  "route_ref_list s r = (case dget (route_refs s) r of None \<Rightarrow> [] | Some x \<Rightarrow> x)"

text \<open>The pattern \<open>local\<close> or \<open>prefect:\<close> with a lowercase SHA-256 digest.\<close>

definition hex_digit :: "char \<Rightarrow> bool" where
  "hex_digit c \<longleftrightarrow> (let n = of_char c :: nat in (48 \<le> n \<and> n \<le> 57) \<or> (97 \<le> n \<and> n \<le> 102))"

definition valid_route :: "string \<Rightarrow> bool" where
  "valid_route r \<longleftrightarrow>
     r = ''local'' \<or>
     (starts_with ''prefect:'' r \<and> length r = 72 \<and> list_all hex_digit (drop 8 r))"

abbreviation bad_route :: cp_error where
  "bad_route \<equiv> Value_error ''execution_route must be local or prefect:sha256''"

definition prefect_route :: "string \<Rightarrow> bool" where
  "prefect_route r \<longleftrightarrow> starts_with ''prefect:'' r"

end
