(* ===== verification/Durable_Submissions.thy ===== *)
theory Durable_Submissions
  imports Durable_Records
begin

text \<open>
  Admission, the transactional outbox and cancellation
  (\<open>control_plane/durable_memory.py\<close>: \<open>accept\<close> to \<open>get_submission_by_idempotency\<close>,
  \<open>mark_published\<close>, \<open>cancel_submission\<close>).  Each operation reads the clock once: \<open>now\<close>.
  The identifiers that \<open>uuid4\<close> generates are arguments.
\<close>

subsection \<open>Admission\<close>

record accept_request =
  rq_idempotency_key :: string
  rq_operation :: string
  rq_plan :: string
  rq_revision :: "string option"
  rq_plugin :: "string option"
  rq_policy :: "string option"
  rq_input :: "string option"
  rq_observation :: "string option"
  rq_baseline :: "string option"
  rq_submission_id :: "string option"
  rq_run_id :: "string option"
  rq_route :: string

definition idem_of :: "ctx \<Rightarrow> string \<Rightarrow> string \<Rightarrow> idem_key" where
  "idem_of c operation idem =
     (scope_of c, of_opt (pr_issuer (cx_principal c)), pr_kind (cx_principal c),
      pr_subject (cx_principal c), operation, idem)"

definition requested_inputs :: "externals \<Rightarrow> ctx \<Rightarrow> accept_request \<Rightarrow> string option list" where
  "requested_inputs ex c rq =
     [Some (rq_plan rq), rq_revision rq, rq_plugin rq, rq_policy rq,
      ex_redact_envelope ex (rq_input rq), rq_observation rq, rq_baseline rq,
      Some (cx_environment c), Some (cx_domain c), cx_owner c, Some (rq_route rq)]"

definition recorded_inputs :: "submission \<Rightarrow> string option list" where
  "recorded_inputs su =
     [Some (su_plan_fingerprint su), su_revision_id su, su_plugin_fingerprint su,
      su_policy_fingerprint su, su_input_snapshot su, su_schema_observation su,
      su_schema_baseline su, su_environment su, su_domain su, su_owner su, Some (su_route su)]"

definition new_submission ::
  "externals \<Rightarrow> ctx \<Rightarrow> accept_request \<Rightarrow> string \<Rightarrow> instant \<Rightarrow> submission" where
  "new_submission ex c rq sid now =
     \<lparr>su_id = sid, su_tenant = cx_tenant c, su_workspace = cx_workspace c,
      su_subject = pr_subject (cx_principal c), su_operation = rq_operation rq,
      su_idempotency_key = rq_idempotency_key rq, su_created_at = now,
      su_plan_fingerprint = rq_plan rq, su_revision_id = rq_revision rq,
      su_plugin_fingerprint = rq_plugin rq, su_policy_fingerprint = rq_policy rq,
      su_input_snapshot = ex_redact_envelope ex (rq_input rq),
      su_issuer = pr_issuer (cx_principal c), su_kind = pr_kind (cx_principal c),
      su_status = Accepted, su_schema_observation = rq_observation rq,
      su_schema_baseline = rq_baseline rq, su_environment = Some (cx_environment c),
      su_domain = Some (cx_domain c), su_owner = cx_owner c, su_run_id = rq_run_id rq,
      su_route = rq_route rq\<rparr>"

definition accept_guards :: "accept_request \<Rightarrow> cp_error option" where
  "accept_guards rq = first_error
     [(blank (rq_idempotency_key rq), Value_error ''idempotency_key must not be empty''),
      (blank (rq_operation rq), Value_error ''operation must not be empty''),
      (blank (rq_plan rq), Value_error ''plan_fingerprint must not be empty''),
      ((case rq_submission_id rq of None \<Rightarrow> False | Some i \<Rightarrow> blank i),
        Value_error ''submission_id must not be empty''),
      ((case rq_run_id rq of None \<Rightarrow> False | Some i \<Rightarrow> blank i),
        Value_error ''run_id must not be empty''),
      (\<not> valid_route (rq_route rq),
        bad_route)]"

definition in_flight :: "store \<Rightarrow> string \<Rightarrow> nat" where
  "in_flight s tenant =
     dcount (\<lambda>k row. fst k = tenant \<and> non_terminal (su_status row)) (submissions s)"

definition accept_replay ::
  "externals \<Rightarrow> ctx \<Rightarrow> accept_request \<Rightarrow> string \<Rightarrow> store \<Rightarrow> (store, submission \<times> bool) outcome" where
  "accept_replay ex c rq existing s =
     (case dget (submissions s) (mk_key (scope_of c) existing) of
        None \<Rightarrow> raise_in s Key_error
      | Some prior \<Rightarrow>
          (if recorded_inputs prior \<noteq> requested_inputs ex c rq
           then raise_in s (Conflict ''Idempotency key reuse with different immutable inputs'')
           else if rq_submission_id rq \<noteq> None \<and> rq_submission_id rq \<noteq> Some existing
           then raise_in s (Conflict ''Idempotency key reuse with different submission_id'')
           else if rq_run_id rq \<noteq> None \<and> su_run_id prior \<noteq> None \<and> rq_run_id rq \<noteq> su_run_id prior
           then raise_in s (Conflict ''Idempotency key reuse with different run_id'')
           else return_in s (prior, False)))"

definition accept_store ::
  "externals \<Rightarrow> ctx \<Rightarrow> accept_request \<Rightarrow> string \<Rightarrow> string \<Rightarrow> instant \<Rightarrow> store \<Rightarrow> store" where
  "accept_store ex c rq sid oid now s =
     s\<lparr>submissions := dput (mk_key (scope_of c) sid) (new_submission ex c rq sid now) (submissions s),
       outboxes := dput (mk_key (scope_of c) oid)
         \<lparr>ob_id = oid, ob_submission = sid, ob_created_at = now,
          ob_payload = ex_sha256 ex (join_bar (map of_opt (requested_inputs ex c rq))),
          ob_published_at = None, ob_deliveries = 0\<rparr> (outboxes s),
       idempotency := dput (idem_of c (rq_operation rq) (rq_idempotency_key rq)) sid (idempotency s)\<rparr>"

definition accept_new ::
  "externals \<Rightarrow> ctx \<Rightarrow> accept_request \<Rightarrow> string \<Rightarrow> string \<Rightarrow> instant \<Rightarrow> store \<Rightarrow>
   (store, submission \<times> bool) outcome" where
  "accept_new ex c rq uuid_sub uuid_out now s =
     (if ro_status (route_state s (rq_route rq)) \<noteq> R_active
      then raise_in s (Conflict ''Execution route is not accepting new submissions'')
      else if (case admission_limit s of None \<Rightarrow> False | Some lim \<Rightarrow> lim \<le> in_flight s (cx_tenant c))
      then raise_in s (Conflict ''Per-tenant admission limit exceeded'')
      else case rq_submission_id rq of
        None \<Rightarrow>
          return_in (accept_store ex c rq uuid_sub uuid_out now s)
            (new_submission ex c rq uuid_sub now, True)
      | Some sid \<Rightarrow>
          (if dget (submissions s) (mk_key (scope_of c) sid) \<noteq> None
           then raise_in s (Conflict ''submission_id already exists for a different accept'')
           else return_in (accept_store ex c rq sid uuid_out now s)
                  (new_submission ex c rq sid now, True)))"

definition accept ::
  "externals \<Rightarrow> ctx \<Rightarrow> accept_request \<Rightarrow> string \<Rightarrow> string \<Rightarrow> instant \<Rightarrow> store \<Rightarrow>
   (store, submission \<times> bool) outcome" where
  "accept ex c rq uuid_sub uuid_out now s =
     (case accept_guards rq of
        Some e \<Rightarrow> raise_in s e
      | None \<Rightarrow>
          (case dget (idempotency s) (idem_of c (rq_operation rq) (rq_idempotency_key rq)) of
             Some existing \<Rightarrow> accept_replay ex c rq existing s
           | None \<Rightarrow> accept_new ex c rq uuid_sub uuid_out now s))"

subsection \<open>Reads\<close>

definition get_submission :: "ctx \<Rightarrow> string \<Rightarrow> store \<Rightarrow> submission res" where
  "get_submission c sid s =
     (case dget (submissions s) (mk_key (scope_of c) sid) of
        None \<Rightarrow> Inl (Not_found ''Submission not found'')
      | Some row \<Rightarrow> Inr row)"

definition get_submission_by_idempotency ::
  "ctx \<Rightarrow> string \<Rightarrow> string \<Rightarrow> store \<Rightarrow> submission option" where
  "get_submission_by_idempotency c idem operation s =
     (case dget (idempotency s) (idem_of c operation idem) of
        None \<Rightarrow> None
      | Some sid \<Rightarrow> dget (submissions s) (mk_key (scope_of c) sid))"

definition submission_status_of :: "ctx \<Rightarrow> string \<Rightarrow> store \<Rightarrow> submission_status option" where
  "submission_status_of c sid s =
     map_option su_status (dget (submissions s) (mk_key (scope_of c) sid))"

subsection \<open>The outbox\<close>

definition pending_outbox ::
  "ctx \<Rightarrow> int \<Rightarrow> bool \<Rightarrow> bool \<Rightarrow> string option \<Rightarrow> string option \<Rightarrow> store \<Rightarrow> outbox list res" where
  "pending_outbox c limit include_terminal terminal_only sid route s =
     (if (case route of None \<Rightarrow> False | Some r \<Rightarrow> \<not> valid_route r)
      then Inl (bad_route)
      else Inr (take (nat limit) (map snd (filter
        (\<lambda>(k, row). key_scope k = scope_of c
           \<and> (case sid of None \<Rightarrow> True | Some i \<Rightarrow> ob_submission row = i)
           \<and> ob_published_at row = None
           \<and> (case dget (submissions s) (mk_key (key_scope k) (ob_submission row)) of
                None \<Rightarrow> False
              | Some su \<Rightarrow>
                  (case route of None \<Rightarrow> True | Some r \<Rightarrow> su_route su = r)
                  \<and> (if terminal_only then is_terminal (su_status su)
                     else include_terminal \<or> \<not> is_terminal (su_status su))))
        (outboxes s)))))"

definition publish_row :: "instant \<Rightarrow> outbox \<Rightarrow> outbox" where
  "publish_row now row = row\<lparr>ob_published_at := Some now, ob_deliveries := Suc (ob_deliveries row)\<rparr>"

text \<open>
  \<open>mark_published\<close> stores the acknowledged row before it subscripts the submissions, so a
  missing submission raises \<open>KeyError\<close> with the acknowledgement already recorded.
\<close>

definition mark_published :: "ctx \<Rightarrow> string \<Rightarrow> instant \<Rightarrow> store \<Rightarrow> (store, outbox) outcome" where
  "mark_published c oid now s =
     (case dget (outboxes s) (mk_key (scope_of c) oid) of
        None \<Rightarrow> raise_in s (Not_found ''Outbox record not found'')
      | Some row \<Rightarrow>
          (if ob_published_at row \<noteq> None then return_in s row
           else let row' = publish_row now row;
                    s' = s\<lparr>outboxes := dput (mk_key (scope_of c) oid) row' (outboxes s)\<rparr>;
                    sk = mk_key (scope_of c) (ob_submission row)
                in case dget (submissions s) sk of
                     None \<Rightarrow> raise_in s' Key_error
                   | Some su \<Rightarrow>
                       return_in
                         (if su_status su = Accepted
                          then s'\<lparr>submissions := dput sk (su\<lparr>su_status := Dispatched\<rparr>) (submissions s)\<rparr>
                          else s')
                         row'))"

fun reconcile_terminal_loop ::
  "scope \<Rightarrow> instant \<Rightarrow> int \<Rightarrow> (key \<times> outbox) list \<Rightarrow> outbox list \<Rightarrow> store \<Rightarrow> outbox list \<times> store" where
  "reconcile_terminal_loop sc now limit [] acc s = (acc, s)"
| "reconcile_terminal_loop sc now limit ((k, row) # rest) acc s =
     (if max 0 limit \<le> int (length acc) then (acc, s)
      else case dget (submissions s) (mk_key sc (ob_submission row)) of
        None \<Rightarrow> reconcile_terminal_loop sc now limit rest acc s
      | Some su \<Rightarrow>
          (if \<not> is_terminal (su_status su)
           then reconcile_terminal_loop sc now limit rest acc s
           else reconcile_terminal_loop sc now limit rest (acc @ [publish_row now row])
                  (s\<lparr>outboxes := dput k (publish_row now row) (outboxes s)\<rparr>)))"

definition reconcile_terminal_outbox ::
  "ctx \<Rightarrow> int \<Rightarrow> instant \<Rightarrow> store \<Rightarrow> (store, outbox list) outcome" where
  "reconcile_terminal_outbox c limit now s =
     (let candidates = sort_key (\<lambda>(k, row). (iso_key (ob_created_at row), ob_id row))
            (filter (\<lambda>(k, row). key_scope k = scope_of c \<and> ob_published_at row = None) (outboxes s));
          (acc, s') = reconcile_terminal_loop (scope_of c) now limit candidates [] s
      in return_in s' acc)"

subsection \<open>Cancellation\<close>

definition running_for :: "scope \<Rightarrow> string \<Rightarrow> key \<Rightarrow> attempt \<Rightarrow> bool" where
  "running_for sc sid k a \<longleftrightarrow>
     key_scope k = sc \<and> at_submission a = sid \<and> at_status a = A_running"

definition has_running :: "scope \<Rightarrow> string \<Rightarrow> store \<Rightarrow> bool" where
  "has_running sc sid s \<longleftrightarrow> list_ex (\<lambda>(k, a). running_for sc sid k a) (attempts s)"

definition lose_running :: "scope \<Rightarrow> string \<Rightarrow> instant \<Rightarrow> store \<Rightarrow> store" where
  "lose_running sc sid now s =
     s\<lparr>attempts := dmap (\<lambda>k a. if running_for sc sid k a
          then a\<lparr>at_status := A_lost, at_completed_at := Some now\<rparr> else a) (attempts s)\<rparr>"

definition execution_effect_id :: "string \<Rightarrow> string" where
  "execution_effect_id sid = sid @ '':execution''"

definition record_unknown_effect :: "ctx \<Rightarrow> string \<Rightarrow> instant \<Rightarrow> store \<Rightarrow> store" where
  "record_unknown_effect c sid now s =
     (let k = mk_key (scope_of c) (execution_effect_id sid)
      in case dget (effects s) k of
           Some e \<Rightarrow> if ef_status e = E_committed then s
                    else s\<lparr>effects := dput k
                      \<lparr>ef_id = execution_effect_id sid, ef_submission = sid, ef_tenant = cx_tenant c,
                       ef_workspace = cx_workspace c, ef_status = E_unknown, ef_recorded_at = now,
                       ef_idempotency_evidence = None, ef_reconciliation_evidence = None,
                       ef_publication_evidence = None, ef_compensation_evidence = None,
                       ef_authoritative = True\<rparr> (effects s)\<rparr>
         | None \<Rightarrow> s\<lparr>effects := dput k
                      \<lparr>ef_id = execution_effect_id sid, ef_submission = sid, ef_tenant = cx_tenant c,
                       ef_workspace = cx_workspace c, ef_status = E_unknown, ef_recorded_at = now,
                       ef_idempotency_evidence = None, ef_reconciliation_evidence = None,
                       ef_publication_evidence = None, ef_compensation_evidence = None,
                       ef_authoritative = True\<rparr> (effects s)\<rparr>)"

definition ack_submission_outbox :: "ctx \<Rightarrow> string \<Rightarrow> instant \<Rightarrow> store \<Rightarrow> store" where
  "ack_submission_outbox c sid now s =
     s\<lparr>outboxes := dmap (\<lambda>k row. if key_scope k = scope_of c \<and> ob_submission row = sid
            \<and> ob_published_at row = None then publish_row now row else row) (outboxes s)\<rparr>"

definition lease_live :: "lease option \<Rightarrow> instant \<Rightarrow> bool" where
  "lease_live l now \<longleftrightarrow> (case l of None \<Rightarrow> False | Some x \<Rightarrow> now < le_expires_at x)"

definition cancel_submission :: "ctx \<Rightarrow> string \<Rightarrow> instant \<Rightarrow> store \<Rightarrow> (store, submission) outcome" where
  "cancel_submission c sid now s =
     (let k = mk_key (scope_of c) sid in
      case dget (submissions s) k of
        None \<Rightarrow> raise_in s (Not_found ''Submission not found'')
      | Some su \<Rightarrow>
          (if is_terminal (su_status su)
           then raise_in s (Conflict ''Terminal submission cannot be cancelled'')
           else
             let su' = su\<lparr>su_status := Cancel_requested\<rparr>;
                 s1 = (if su_status su \<noteq> Cancel_requested
                       then s\<lparr>submissions := dput k su' (submissions s)\<rparr> else s)
             in return_in
                  (case dget (leases s) k of
                     None \<Rightarrow> s1
                   | Some l \<Rightarrow>
                       (if lease_live (Some l) now \<and> \<not> has_running (scope_of c) sid s
                        then s1\<lparr>leases := dput k (l\<lparr>le_expires_at := now - usec 1,
                                               le_heartbeat_at := now\<rparr>) (leases s)\<rparr>
                        else s1))
                  su'))"

text \<open>One submission of \<open>reconcile_cancelled_submissions\<close>: skipped, or finalised.\<close>

definition cancel_skipped :: "instant \<Rightarrow> key \<Rightarrow> store \<Rightarrow> bool" where
  "cancel_skipped now k s \<longleftrightarrow>
     lease_live (dget (leases s) k) now \<or>
     (case dget (dispatches s) k of
        None \<Rightarrow> False
      | Some d \<Rightarrow> di_status d = D_uncertain \<and> di_remote_run d = None)"

definition cancel_dispatch_row :: "instant \<Rightarrow> key \<Rightarrow> store \<Rightarrow> store" where
  "cancel_dispatch_row now k s =
     (case dget (dispatches s) k of
        None \<Rightarrow> s
      | Some d \<Rightarrow>
          (if di_status d = D_pending \<or> di_status d = D_reconciliation_required
           then s\<lparr>dispatches := dput k (d\<lparr>di_status := D_cancelled, di_retry_after := None,
                    di_error := Some (if di_status d = D_pending then ''cancelled_before_dispatch''
                                      else ''cancelled_after_dispatch_exhaustion''),
                    di_updated_at := now\<rparr>) (dispatches s)\<rparr>
           else s))"

definition finalize_cancel ::
  "ctx \<Rightarrow> instant \<Rightarrow> bool \<Rightarrow> key \<Rightarrow> submission \<Rightarrow> store \<Rightarrow> store" where
  "finalize_cancel c now acknowledge k su s =
     (let s1 = lose_running (scope_of c) (su_id su) now s;
          s2 = (if has_running (scope_of c) (su_id su) s
                then record_unknown_effect c (su_id su) now s1 else s1);
          s3 = s2\<lparr>submissions := dput k (su\<lparr>su_status := Cancelled\<rparr>) (submissions s2)\<rparr>;
          s4 = cancel_dispatch_row now k s3
      in if acknowledge then ack_submission_outbox c (su_id su) now s4 else s4)"

fun reconcile_cancelled_loop ::
  "ctx \<Rightarrow> instant \<Rightarrow> int \<Rightarrow> bool \<Rightarrow> (key \<times> submission) list \<Rightarrow> submission list \<Rightarrow> store \<Rightarrow>
   submission list \<times> store" where
  "reconcile_cancelled_loop c now limit ack [] acc s = (acc, s)"
| "reconcile_cancelled_loop c now limit ack ((k, su) # rest) acc s =
     (if max 0 limit \<le> int (length acc) then (acc, s)
      else if cancel_skipped now k s
      then reconcile_cancelled_loop c now limit ack rest acc s
      else reconcile_cancelled_loop c now limit ack rest (acc @ [su\<lparr>su_status := Cancelled\<rparr>])
             (finalize_cancel c now ack k su s))"

definition reconcile_cancelled_submissions ::
  "ctx \<Rightarrow> int \<Rightarrow> bool \<Rightarrow> string option \<Rightarrow> string option \<Rightarrow> instant \<Rightarrow> store \<Rightarrow>
   (store, submission list) outcome" where
  "reconcile_cancelled_submissions c limit ack sid route now s =
     (if (case sid of None \<Rightarrow> False | Some i \<Rightarrow> blank i)
      then raise_in s (Value_error ''submission_id must be a non-empty identifier'')
      else if (case route of None \<Rightarrow> False | Some r \<Rightarrow> \<not> valid_route r)
      then raise_in s (bad_route)
      else
        let candidates = sort_key (\<lambda>(k, su). (iso_key (su_created_at su), su_id su))
              (filter (\<lambda>(k, su). key_scope k = scope_of c \<and> su_status su = Cancel_requested
                   \<and> (case sid of None \<Rightarrow> True | Some i \<Rightarrow> su_id su = i)
                   \<and> (case route of None \<Rightarrow> True | Some r \<Rightarrow> su_route su = r)) (submissions s));
            (acc, s') = reconcile_cancelled_loop c now limit ack candidates [] s
        in return_in s' acc)"

end
