(* ===== verification/Durable_Execution.thy ===== *)
theory Durable_Execution
  imports Durable_Submissions
begin

text \<open>
  Execution under a lease (\<open>control_plane/durable_memory.py\<close>: \<open>acquire_lease\<close> to \<open>replay\<close>): fenced
  leases, attempts, result publications, versioned checkpoints, external effects, baseline
  acknowledgements and the read-only recovery plans.
\<close>

subsection \<open>Leases\<close>

definition not_executable :: "submission_status \<Rightarrow> bool" where
  "not_executable st \<longleftrightarrow> st = Cancel_requested \<or> is_terminal st"

definition acquire_lease ::
  "ctx \<Rightarrow> string \<Rightarrow> string \<Rightarrow> int \<Rightarrow> instant \<Rightarrow> store \<Rightarrow> (store, lease) outcome" where
  "acquire_lease c sid owner ttl now s =
     (if ttl \<le> 0 then raise_in s (Value_error ''ttl_seconds must be positive'')
      else let k = mk_key (scope_of c) sid in
      case dget (submissions s) k of
        None \<Rightarrow> raise_in s (Not_found ''Submission not found'')
      | Some su \<Rightarrow>
          (if not_executable (su_status su)
           then raise_in s (Conflict ''Submission is not eligible for execution'')
           else
             let old = dget (leases s) k in
             if lease_live old now \<and> map_option le_owner old \<noteq> Some owner
             then raise_in s (Conflict ''Submission is leased by another execution host'')
             else
               let token = (case old of
                              None \<Rightarrow> 1
                            | Some l \<Rightarrow> if le_owner l = owner \<and> now < le_expires_at l
                                       then le_token l else le_token l + 1);
                   new = \<lparr>le_submission = sid, le_owner = owner, le_token = token,
                          le_acquired_at = now, le_expires_at = now + usec ttl,
                          le_heartbeat_at = now\<rparr>
               in return_in (s\<lparr>leases := dput k new (leases s)\<rparr>) new))"

definition require_lease :: "key \<Rightarrow> string \<Rightarrow> nat \<Rightarrow> instant \<Rightarrow> store \<Rightarrow> lease res" where
  "require_lease k owner token now s =
     (case dget (leases s) k of
        None \<Rightarrow> Inl (Conflict ''Stale or invalid execution lease'')
      | Some l \<Rightarrow>
          (if le_owner l \<noteq> owner \<or> le_token l \<noteq> token \<or> le_expires_at l \<le> now
           then Inl (Conflict ''Stale or invalid execution lease'')
           else Inr l))"

definition heartbeat ::
  "ctx \<Rightarrow> string \<Rightarrow> string \<Rightarrow> nat \<Rightarrow> int \<Rightarrow> instant \<Rightarrow> store \<Rightarrow> (store, lease) outcome" where
  "heartbeat c sid owner token ttl now s =
     (if ttl \<le> 0 then raise_in s (Value_error ''ttl_seconds must be positive'')
      else let k = mk_key (scope_of c) sid in
      case dget (submissions s) k of
        None \<Rightarrow> raise_in s (Not_found ''Submission not found'')
      | Some su \<Rightarrow>
          (if not_executable (su_status su)
           then raise_in s (Conflict ''Submission is not eligible for heartbeat'')
           else case require_lease k owner token now s of
             Inl e \<Rightarrow> raise_in s e
           | Inr old \<Rightarrow>
               let new = old\<lparr>le_heartbeat_at := now, le_expires_at := now + usec ttl\<rparr>
               in return_in (s\<lparr>leases := dput k new (leases s)\<rparr>) new))"

definition release_lease ::
  "ctx \<Rightarrow> string \<Rightarrow> string \<Rightarrow> nat \<Rightarrow> instant \<Rightarrow> store \<Rightarrow> (store, unit) outcome" where
  "release_lease c sid owner token now s =
     (let k = mk_key (scope_of c) sid in
      case require_lease k owner token now s of
        Inl e \<Rightarrow> raise_in s e
      | Inr old \<Rightarrow>
          return_in (s\<lparr>leases := dput k (old\<lparr>le_expires_at := now - usec 1,
                                           le_heartbeat_at := now\<rparr>) (leases s)\<rparr>) ())"

subsection \<open>Attempts\<close>

text \<open>
  The loop that supersedes earlier attempts walks a snapshot of the rows and stops with an
  exception at the first running attempt whose token is not older; rows it has already passed
  stay marked lost.
\<close>

fun supersede_loop ::
  "scope \<Rightarrow> string \<Rightarrow> nat \<Rightarrow> instant \<Rightarrow> (key \<times> attempt) list \<Rightarrow> (key, attempt) pydict \<Rightarrow>
   cp_error option \<times> (key, attempt) pydict" where
  "supersede_loop sc sid token now [] d = (None, d)"
| "supersede_loop sc sid token now ((k, a) # rest) d =
     (if running_for sc sid k a
      then if token \<le> at_token a
           then (Some (Conflict
             ''Submission already has a running attempt with the current fencing token''), d)
           else supersede_loop sc sid token now rest
                  (dput k (a\<lparr>at_status := A_lost, at_completed_at := Some now\<rparr>) d)
      else supersede_loop sc sid token now rest d)"

definition attempt_context ::
  "externals \<Rightarrow> submission \<Rightarrow> (string, string option) pydict \<Rightarrow> (string, string option) pydict" where
  "attempt_context ex su context =
     ex_redact_context ex
       (dput ''schema_observation_fingerprint'' (su_schema_observation su)
       (dput ''schema_baseline_id'' (su_schema_baseline su)
       (dput ''revision_id'' (su_revision_id su)
       (dput ''plan_fingerprint'' (Some (su_plan_fingerprint su)) context))))"

definition start_attempt ::
  "externals \<Rightarrow> ctx \<Rightarrow> string \<Rightarrow> string \<Rightarrow> nat \<Rightarrow> (string, string option) pydict \<Rightarrow> string \<Rightarrow>
   instant \<Rightarrow> store \<Rightarrow> (store, attempt) outcome" where
  "start_attempt ex c sid owner token context uuid now s =
     (let k = mk_key (scope_of c) sid in
      case require_lease k owner token now s of
        Inl e \<Rightarrow> raise_in s e
      | Inr _ \<Rightarrow>
          (case dget (submissions s) k of
             None \<Rightarrow> raise_in s Key_error
           | Some su \<Rightarrow>
               (if su_status su = Cancel_requested
                then raise_in s (Conflict ''Cancelled submission cannot start an attempt'')
                else if is_terminal (su_status su)
                then raise_in s (Conflict ''Terminal submission cannot start an attempt'')
                else case supersede_loop (scope_of c) sid token now (attempts s) (attempts s) of
                  (Some e, d) \<Rightarrow> raise_in (s\<lparr>attempts := d\<rparr>) e
                | (None, d) \<Rightarrow>
                    let new = \<lparr>at_id = uuid, at_submission = sid, at_tenant = cx_tenant c,
                               at_workspace = cx_workspace c, at_owner = owner, at_token = token,
                               at_started_at = now, at_status = A_running, at_completed_at = None,
                               at_context = attempt_context ex su context\<rparr>
                    in return_in (s\<lparr>attempts := dput (mk_key (scope_of c) uuid) new d\<rparr>) new)))"

definition attempt_fence ::
  "submission \<Rightarrow> key \<Rightarrow> string \<Rightarrow> nat \<Rightarrow> instant \<Rightarrow> store \<Rightarrow> lease res" where
  "attempt_fence su k owner token now s =
     (if su_status su = Cancel_requested
      then (case dget (leases s) k of
              None \<Rightarrow> Inl (Conflict ''Stale or invalid execution lease'')
            | Some l \<Rightarrow>
                (if le_owner l \<noteq> owner \<or> le_token l \<noteq> token
                 then Inl (Conflict ''Stale or invalid execution lease'') else Inr l))
      else require_lease k owner token now s)"

definition finish_attempt ::
  "ctx \<Rightarrow> string \<Rightarrow> string \<Rightarrow> nat \<Rightarrow> attempt_status \<Rightarrow> instant \<Rightarrow> store \<Rightarrow> (store, attempt) outcome" where
  "finish_attempt c aid owner token status now s =
     (if status = A_running then raise_in s (Value_error ''attempt status must be terminal'')
      else let k = mk_key (scope_of c) aid in
      case dget (attempts s) k of
        None \<Rightarrow> raise_in s (Not_found ''Attempt not found'')
      | Some a \<Rightarrow>
          (let sk = mk_key (scope_of c) (at_submission a) in
           case dget (submissions s) sk of
             None \<Rightarrow> raise_in s Key_error
           | Some su \<Rightarrow>
               (case attempt_fence su sk owner token now s of
                  Inl e \<Rightarrow> raise_in s e
                | Inr _ \<Rightarrow>
                    (if at_status a \<noteq> A_running then return_in s a
                     else
                       let cancelled = (status = A_cancelled \<or> su_status su = Cancel_requested);
                           a' = a\<lparr>at_status := (if cancelled then A_cancelled else status),
                                  at_completed_at := Some now\<rparr>;
                           terminal = (if cancelled then Cancelled
                                       else if status = A_completed then Completed else Failed)
                       in return_in (s\<lparr>attempts := dput k a' (attempts s),
                                       submissions := dput sk (su\<lparr>su_status := terminal\<rparr>)
                                                        (submissions s)\<rparr>) a'))))"

definition list_attempts :: "ctx \<Rightarrow> string \<Rightarrow> store \<Rightarrow> attempt list res" where
  "list_attempts c sid s =
     (if dget (submissions s) (mk_key (scope_of c) sid) = None
      then Inl (Not_found ''Submission not found'')
      else Inr (sort_key (\<lambda>a. (iso_key (at_started_at a), at_id a))
             (map snd (filter (\<lambda>(k, a). key_scope k = scope_of c \<and> at_submission a = sid)
                (attempts s)))))"

subsection \<open>Result publications\<close>

definition max_report_bytes :: int where
  "max_report_bytes = 4 * 1024 * 1024"

definition publication_guards :: "externals \<Rightarrow> ctx \<Rightarrow> publication \<Rightarrow> cp_error option" where
  "publication_guards ex c r = first_error
     [((pb_tenant r, pb_workspace r) \<noteq> scope_of c,
        Forbidden ''Result publication must match the trusted scope''),
      (pb_submission r = [] \<or> pb_attempt r = [] \<or> pb_run r = [],
        Value_error ''result publication identities must be non-empty''),
      (max_report_bytes < utf8_length (pb_report r),
        Conflict ''Run report exceeds the durable recovery size limit''),
      (ex_sha256 ex (pb_report r) \<noteq> pb_sha256 r,
        Value_error ''result publication fingerprint does not match report''),
      (ex_report ex (pb_report r) = None,
        Value_error ''result publication report is invalid JSON''),
      (ex_report ex (pb_report r) \<noteq> Some (Some (Some ''etlantic.run_report/1'', Some (pb_run r))),
        Value_error ''result publication report identity is invalid'')]"

definition publication_key :: "scope \<Rightarrow> publication \<Rightarrow> pub_key" where
  "publication_key sc r = (fst sc, snd sc, pb_submission r, pb_attempt r)"

definition pub_scope :: "pub_key \<Rightarrow> scope" where
  "pub_scope k = (fst k, fst (snd k))"

definition merge_publication :: "publication option \<Rightarrow> publication \<Rightarrow> publication res" where
  "merge_publication prior r =
     (case prior of
        None \<Rightarrow> Inr r
      | Some p \<Rightarrow>
          (if pb_run p \<noteq> pb_run r then Inl (Conflict ''Result publication run identity changed'')
           else if pb_sha256 p \<noteq> pb_sha256 r
           then if pb_published_at p \<noteq> None then Inl (Conflict ''Published run result is immutable'')
                else Inr (r\<lparr>pb_created_at := pb_created_at p\<rparr>)
           else if pb_published_at p \<noteq> None then Inr (r\<lparr>pb_published_at := pb_published_at p\<rparr>)
           else Inr r))"

definition record_result_publication ::
  "externals \<Rightarrow> ctx \<Rightarrow> publication \<Rightarrow> string \<Rightarrow> nat \<Rightarrow> instant \<Rightarrow> store \<Rightarrow> (store, publication) outcome"
  where
  "record_result_publication ex c r owner token now s =
     (case publication_guards ex c r of
        Some e \<Rightarrow> raise_in s e
      | None \<Rightarrow>
          (case require_lease (mk_key (scope_of c) (pb_submission r)) owner token now s of
             Inl e \<Rightarrow> raise_in s e
           | Inr _ \<Rightarrow>
               (case dget (attempts s) (mk_key (scope_of c) (pb_attempt r)) of
                  None \<Rightarrow> raise_in s (Conflict
                    ''Result publication does not match the current attempt fence'')
                | Some a \<Rightarrow>
                    (if at_submission a \<noteq> pb_submission r \<or> at_owner a \<noteq> owner \<or> at_token a \<noteq> token
                     then raise_in s (Conflict
                       ''Result publication does not match the current attempt fence'')
                     else let pk = publication_key (scope_of c) r in
                       case merge_publication (dget (publications s) pk) r of
                         Inl e \<Rightarrow> raise_in s e
                       | Inr r' \<Rightarrow> return_in
                           (s\<lparr>publications := dput pk r' (publications s)\<rparr>) r'))))"

definition later_publication :: "publication \<Rightarrow> publication \<Rightarrow> publication" where
  "later_publication best r = (if pb_created_at best < pb_created_at r then r else best)"

definition get_latest_result_publication :: "ctx \<Rightarrow> string \<Rightarrow> store \<Rightarrow> publication option" where
  "get_latest_result_publication c sid s =
     (case map snd (filter (\<lambda>(k, r). pub_scope k = scope_of c \<and> fst (snd (snd k)) = sid)
             (publications s)) of
        [] \<Rightarrow> None
      | r # rs \<Rightarrow> Some (foldl later_publication r rs))"

definition pending_result_publications :: "ctx \<Rightarrow> int \<Rightarrow> store \<Rightarrow> publication list res" where
  "pending_result_publications c limit s =
     (if limit < 1 then Inl (Value_error ''limit must be a positive integer'')
      else Inr (take (nat limit) (sort_key (\<lambda>r. iso_key (pb_created_at r))
             (map snd (filter (\<lambda>(k, r). pub_scope k = scope_of c \<and> pb_published_at r = None)
                (publications s))))))"

definition mark_result_publication_published ::
  "ctx \<Rightarrow> string \<Rightarrow> string \<Rightarrow> string \<Rightarrow> instant \<Rightarrow> store \<Rightarrow> (store, publication) outcome" where
  "mark_result_publication_published c sid aid sha now s =
     (let pk = (cx_tenant c, cx_workspace c, sid, aid) in
      case dget (publications s) pk of
        None \<Rightarrow> raise_in s (Not_found ''Result publication not found'')
      | Some r \<Rightarrow>
          (if pb_sha256 r \<noteq> sha then raise_in s (Conflict ''Result publication fingerprint changed'')
           else if pb_published_at r = None
           then let r' = r\<lparr>pb_published_at := Some now\<rparr>
                in return_in (s\<lparr>publications := dput pk r' (publications s)\<rparr>) r'
           else return_in s r))"

subsection \<open>Checkpoints\<close>

definition state_namespaces :: "string list" where
  "state_namespaces = [''cursor:'', ''watermark:'', ''partition:'', ''snapshot:'', ''checkpoint:'']"

definition namespaced :: "string \<Rightarrow> bool" where
  "namespaced cid \<longleftrightarrow> list_ex (\<lambda>p. starts_with p cid) state_namespaces"

definition namespaced_checkpoint_id :: "string \<Rightarrow> string \<Rightarrow> string res" where
  "namespaced_checkpoint_id kind identity =
     (let prefix = (if kind \<noteq> [] \<and> last kind = CHR '':'' then kind else kind @ '':'');
          text = rev (dropWhile is_space (rev (dropWhile is_space identity)))
      in if prefix \<notin> set state_namespaces then Inl (Value_error (''unsupported state namespace: '' @ kind))
         else if text = [] then Inl (Value_error ''state identity must not be empty'')
         else Inr (prefix @ text))"

definition cas_guards ::
  "ctx \<Rightarrow> string \<Rightarrow> nat option \<Rightarrow> string \<Rightarrow> nat \<Rightarrow> instant \<Rightarrow> store \<Rightarrow> attempt res" where
  "cas_guards c cid expected aid token now s =
     (let prev = dget (checkpoints s) (mk_key (scope_of c) cid) in
      if map_option ck_version prev \<noteq> expected
      then Inl (Conflict ''Checkpoint compare-and-swap conflict'')
      else case dget (attempts s) (mk_key (scope_of c) aid) of
        None \<Rightarrow> Inl (Conflict ''Checkpoint requires a current running attempt and fencing token'')
      | Some a \<Rightarrow>
          (if at_status a \<noteq> A_running
           then Inl (Conflict ''Checkpoint requires a current running attempt and fencing token'')
           else
             let sk = mk_key (scope_of c) (at_submission a) in
             if (case dget (submissions s) sk of None \<Rightarrow> True | Some su \<Rightarrow> not_executable (su_status su))
             then Inl (Conflict ''Checkpoint CAS refused for cancelled or terminal submission'')
             else case require_lease sk (at_owner a) token now s of
               Inl e \<Rightarrow> Inl e
             | Inr _ \<Rightarrow>
                 (case prev of
                    None \<Rightarrow> Inr a
                  | Some p \<Rightarrow>
                      (if ck_submission p \<noteq> None \<and> ck_submission p \<noteq> Some (at_submission a)
                       then Inl (Conflict ''Checkpoint belongs to another submission'')
                       else Inr a))))"

definition compare_and_swap_checkpoint ::
  "ctx \<Rightarrow> string \<Rightarrow> nat option \<Rightarrow> string \<Rightarrow> string \<Rightarrow> nat \<Rightarrow> string option \<Rightarrow> instant \<Rightarrow> store \<Rightarrow>
   (store, checkpoint) outcome" where
  "compare_and_swap_checkpoint c cid expected val aid token base now s =
     (if \<not> namespaced cid then raise_in s (Value_error ''checkpoint_id must use a namespaced prefix'')
      else case cas_guards c cid expected aid token now s of
        Inl e \<Rightarrow> raise_in s e
      | Inr a \<Rightarrow>
          (let k = mk_key (scope_of c) cid;
               prev = dget (checkpoints s) k;
               new = \<lparr>ck_id = cid,
                      ck_version = (case prev of None \<Rightarrow> 1 | Some p \<Rightarrow> ck_version p + 1),
                      ck_value = val, ck_updated_at = now, ck_submission = Some (at_submission a),
                      ck_attempt = Some aid,
                      ck_baseline = or_opt base (case prev of None \<Rightarrow> None | Some p \<Rightarrow> ck_baseline p)\<rparr>
           in return_in (s\<lparr>checkpoints := dput k new (checkpoints s)\<rparr>) new))"

record transition_explanation =
  xp_current_version :: "nat option"
  xp_current_fingerprint :: "string option"
  xp_would_succeed :: bool

definition explain_transition ::
  "ctx \<Rightarrow> string \<Rightarrow> nat option \<Rightarrow> store \<Rightarrow> transition_explanation res" where
  "explain_transition c cid expected s =
     (if \<not> namespaced cid then Inl (Value_error ''checkpoint_id must use a namespaced prefix'')
      else let prev = dget (checkpoints s) (mk_key (scope_of c) cid) in
        Inr \<lparr>xp_current_version = map_option ck_version prev,
             xp_current_fingerprint = map_option ck_value prev,
             xp_would_succeed = (map_option ck_version prev = expected)\<rparr>)"

definition diagnostic_kind_name :: "diagnostic_kind \<Rightarrow> string" where
  "diagnostic_kind_name k = (case k of
     G_corruption \<Rightarrow> ''corruption'' | G_migration \<Rightarrow> ''migration'' | G_conflict \<Rightarrow> ''conflict'')"

definition diagnose_checkpoint ::
  "externals \<Rightarrow> ctx \<Rightarrow> string \<Rightarrow> diagnostic_kind \<Rightarrow> string \<Rightarrow> string \<Rightarrow> instant \<Rightarrow> store \<Rightarrow>
   (store, diagnostic) outcome" where
  "diagnose_checkpoint ex c cid kind detail uuid now s =
     (if \<not> namespaced cid then raise_in s (Value_error ''checkpoint_id must use a namespaced prefix'')
      else if dget (checkpoints s) (mk_key (scope_of c) cid) = None \<and> kind \<noteq> G_migration
      then raise_in s (Not_found ''Checkpoint not found'')
      else let d = \<lparr>dg_id = uuid, dg_tenant = cx_tenant c, dg_workspace = cx_workspace c,
                    dg_checkpoint = cid, dg_kind = kind,
                    dg_detail = (if ex_redact_text ex detail = [] then diagnostic_kind_name kind
                                 else ex_redact_text ex detail),
                    dg_created_at = now, dg_recoverable = (kind = G_migration)\<rparr>
           in return_in (s\<lparr>diagnostics := diagnostics s @ [d]\<rparr>) d)"

definition acknowledge_baseline ::
  "ctx \<Rightarrow> string \<Rightarrow> string \<Rightarrow> nat option \<Rightarrow> string option \<Rightarrow> string \<Rightarrow> instant \<Rightarrow> store \<Rightarrow>
   (store, baseline) outcome" where
  "acknowledge_baseline c bid observation expected sid uuid now s =
     (if blank bid then raise_in s (Value_error ''schema_baseline_id must not be empty'')
      else if blank observation
      then raise_in s (Value_error ''observation_fingerprint must not be empty'')
      else
        let k = mk_key (scope_of c) bid; prior = dget (baselines s) k in
        if map_option bl_version prior \<noteq> expected
        then raise_in s (Conflict ''Baseline acknowledgement compare-and-swap conflict'')
        else if (case sid of None \<Rightarrow> False
                 | Some i \<Rightarrow> i \<noteq> [] \<and> dget (submissions s) (mk_key (scope_of c) i) = None)
        then raise_in s (Not_found ''Submission not found'')
        else let new = \<lparr>bl_ack_id = uuid, bl_baseline = bid, bl_observation = observation,
                        bl_version = (case prior of None \<Rightarrow> 1 | Some p \<Rightarrow> bl_version p + 1),
                        bl_created_at = now, bl_submission = sid\<rparr>
             in return_in (s\<lparr>baselines := dput k new (baselines s)\<rparr>) new)"

subsection \<open>External effects\<close>

definition safe_effect :: "externals \<Rightarrow> effect \<Rightarrow> effect" where
  "safe_effect ex e = e\<lparr>
     ef_idempotency_evidence := map_option (ex_redact_text ex) (ef_idempotency_evidence e),
     ef_reconciliation_evidence := map_option (ex_redact_text ex) (ef_reconciliation_evidence e),
     ef_publication_evidence := map_option (ex_redact_text ex) (ef_publication_evidence e),
     ef_compensation_evidence := map_option (ex_redact_text ex) (ef_compensation_evidence e)\<rparr>"

definition proven :: "string option \<Rightarrow> bool" where
  "proven ev \<longleftrightarrow> \<not> blank (of_opt ev)"

definition effect_transition_error :: "effect \<Rightarrow> effect \<Rightarrow> cp_error option" where
  "effect_transition_error old new = first_error
     [(ef_submission old \<noteq> ef_submission new,
        Conflict ''External effect submission identity cannot be changed''),
      (ef_authoritative old \<noteq> ef_authoritative new,
        Conflict ''External effect authority cannot be changed''),
      (ef_status old = E_committed \<and> ef_status new \<noteq> E_committed,
        Conflict ''Committed external effect cannot be downgraded''),
      (ef_status old = E_unknown \<and>
        (ef_status new = E_pending
         \<or> (ef_status new \<in> {E_none, E_not_committed, E_failed}
            \<and> \<not> proven (ef_reconciliation_evidence new))
         \<or> (ef_status new = E_committed
            \<and> \<not> (proven (ef_reconciliation_evidence new) \<or> proven (ef_idempotency_evidence new)))),
        Conflict ''Unknown external effect requires reconciliation evidence'')]"

definition claim_error ::
  "scope \<Rightarrow> (string \<times> string \<times> nat) option \<Rightarrow> effect \<Rightarrow> submission \<Rightarrow> instant \<Rightarrow> store \<Rightarrow> cp_error option"
  where
  "claim_error sc claim e su now s =
     (case claim of
        None \<Rightarrow> None
      | Some (aid, owner, token) \<Rightarrow>
          (if (case dget (attempts s) (mk_key sc aid) of
                 None \<Rightarrow> True
               | Some a \<Rightarrow> at_submission a \<noteq> ef_submission e \<or> at_status a \<noteq> A_running
                          \<or> at_owner a \<noteq> owner \<or> at_token a \<noteq> token \<or> is_terminal (su_status su))
           then Some (Conflict ''Execution effect requires the current running attempt'')
           else case require_lease (mk_key sc (ef_submission e)) owner token now s of
             Inl err \<Rightarrow> Some err
           | Inr _ \<Rightarrow> None))"

definition record_effect_with ::
  "externals \<Rightarrow> ctx \<Rightarrow> effect \<Rightarrow> (string \<times> string \<times> nat) option \<Rightarrow> instant \<Rightarrow> store \<Rightarrow>
   (store, effect) outcome" where
  "record_effect_with ex c e claim now s =
     (if blank (ef_id e) then raise_in s (Value_error ''effect_id must not be empty'')
      else if blank (ef_submission e) then raise_in s (Value_error ''submission_id must not be empty'')
      else if (ef_tenant e, ef_workspace e) \<noteq> scope_of c
      then raise_in s (Not_found ''Effect not found'')
      else
        let e' = safe_effect ex e; k = mk_key (scope_of c) (ef_id e) in
        case dget (submissions s) (mk_key (scope_of c) (ef_submission e)) of
          None \<Rightarrow> raise_in s (Not_found ''Submission not found'')
        | Some su \<Rightarrow>
            (case claim_error (scope_of c) claim e' su now s of
               Some err \<Rightarrow> raise_in s err
             | None \<Rightarrow>
                 (case (case dget (effects s) k of
                          None \<Rightarrow> None | Some old \<Rightarrow> effect_transition_error old e') of
                    Some err \<Rightarrow> raise_in s err
                  | None \<Rightarrow> return_in (s\<lparr>effects := dput k e' (effects s)\<rparr>) e')))"

definition record_effect ::
  "externals \<Rightarrow> ctx \<Rightarrow> effect \<Rightarrow> instant \<Rightarrow> store \<Rightarrow> (store, effect) outcome" where
  "record_effect ex c e now s = record_effect_with ex c e None now s"

definition record_attempt_effect ::
  "externals \<Rightarrow> ctx \<Rightarrow> effect \<Rightarrow> string \<Rightarrow> string \<Rightarrow> nat \<Rightarrow> instant \<Rightarrow> store \<Rightarrow> (store, effect) outcome"
  where
  "record_attempt_effect ex c e aid owner token now s =
     record_effect_with ex c e (Some (aid, owner, token)) now s"

definition get_effect :: "ctx \<Rightarrow> string \<Rightarrow> store \<Rightarrow> effect res" where
  "get_effect c eid s =
     (case dget (effects s) (mk_key (scope_of c) eid) of
        None \<Rightarrow> Inl (Not_found ''Effect not found'') | Some e \<Rightarrow> Inr e)"

subsection \<open>Recovery plans\<close>

record replay_record =
  rp_source :: submission
  rp_checkpoint :: "string option"
  rp_differences :: "string list"

definition truthy :: "string option \<Rightarrow> bool" where
  "truthy x \<longleftrightarrow> x \<noteq> None \<and> x \<noteq> Some []"

definition baseline_differs :: "checkpoint \<Rightarrow> submission \<Rightarrow> bool" where
  "baseline_differs ck su \<longleftrightarrow> truthy (ck_baseline ck) \<and> truthy (su_schema_baseline su)
     \<and> ck_baseline ck \<noteq> su_schema_baseline su"

definition selected_checkpoint :: "scope \<Rightarrow> string \<Rightarrow> string option \<Rightarrow> store \<Rightarrow> checkpoint option res" where
  "selected_checkpoint sc sid cid s =
     (if \<not> truthy cid then Inr None
      else case dget (checkpoints s) (mk_key sc (of_opt cid)) of
        None \<Rightarrow> Inl (Not_found ''Checkpoint not found'')
      | Some ck \<Rightarrow>
          (if ck_submission ck \<noteq> None \<and> ck_submission ck \<noteq> Some sid
           then Inl (Conflict ''Checkpoint belongs to another submission'')
           else Inr (Some ck)))"

definition replay :: "ctx \<Rightarrow> string \<Rightarrow> string option \<Rightarrow> store \<Rightarrow> replay_record res" where
  "replay c sid cid s =
     (case dget (submissions s) (mk_key (scope_of c) sid) of
        None \<Rightarrow> Inl (Not_found ''Submission not found'')
      | Some su \<Rightarrow>
          (case selected_checkpoint (scope_of c) sid cid s of
             Inl e \<Rightarrow> Inl e
           | Inr ck \<Rightarrow> Inr \<lparr>rp_source = su, rp_checkpoint = cid,
               rp_differences = (case ck of
                  None \<Rightarrow> []
                | Some x \<Rightarrow> if baseline_differs x su then [''schema_baseline_id''] else [])\<rparr>))"

datatype repair_kind = Resume | Repair | Backfill

record repair_plan =
  rr_kind :: repair_kind
  rr_submission :: string
  rr_source_plan :: string
  rr_checkpoint :: "string option"
  rr_partitions :: "string list"
  rr_reusable :: "string list"
  rr_invalidated :: "string list"
  rr_closure :: "string list"
  rr_baseline :: "string option"
  rr_notes :: "string list"

definition make_repair_plan ::
  "ctx \<Rightarrow> string \<Rightarrow> repair_kind \<Rightarrow> string option \<Rightarrow> string list \<Rightarrow> string list \<Rightarrow> string list \<Rightarrow>
   string list \<Rightarrow> string \<Rightarrow> store \<Rightarrow> repair_plan res" where
  "make_repair_plan c sid kind cid parts reusable invalidated closure note s =
     (case dget (submissions s) (mk_key (scope_of c) sid) of
        None \<Rightarrow> Inl (Not_found ''Submission not found'')
      | Some su \<Rightarrow>
          (case selected_checkpoint (scope_of c) sid cid s of
             Inl e \<Rightarrow> Inl e
           | Inr ck \<Rightarrow> Inr \<lparr>rr_kind = kind, rr_submission = sid, rr_source_plan = su_plan_fingerprint su,
               rr_checkpoint = cid, rr_partitions = parts, rr_reusable = reusable,
               rr_invalidated = invalidated, rr_closure = closure,
               rr_baseline = su_schema_baseline su,
               rr_notes = note # (case ck of
                  None \<Rightarrow> []
                | Some x \<Rightarrow> if baseline_differs x su
                    then [''checkpoint schema baseline differs from source submission''] else [])\<rparr>))"

definition plan_resume :: "ctx \<Rightarrow> string \<Rightarrow> string option \<Rightarrow> store \<Rightarrow> repair_plan res" where
  "plan_resume c sid cid s =
     make_repair_plan c sid Resume cid [] [] [] [] ''resume from selected checkpoint'' s"

definition plan_repair ::
  "ctx \<Rightarrow> string \<Rightarrow> string option \<Rightarrow> string list \<Rightarrow> string list \<Rightarrow> store \<Rightarrow> repair_plan res" where
  "plan_repair c sid cid invalidated reusable s =
     make_repair_plan c sid Repair cid invalidated reusable invalidated invalidated
       ''minimum-safe repair closure over invalidated partitions'' s"

definition plan_backfill ::
  "ctx \<Rightarrow> string \<Rightarrow> string list \<Rightarrow> string option \<Rightarrow> store \<Rightarrow> repair_plan res" where
  "plan_backfill c sid parts cid s =
     (if parts = [] then Inl (Value_error ''backfill requires partition_ids'')
      else make_repair_plan c sid Backfill cid parts [] [] parts ''bounded partition backfill'' s)"

end
