(* ===== verification/Durable_Routes.thy ===== *)
theory Durable_Routes
  imports Durable_Execution
begin

text \<open>
  The lifecycle of an execution route (\<open>control_plane/durable_memory.py\<close>:
  \<open>get_execution_route_state\<close> to \<open>_execution_route_workload_unlocked\<close>): a revisioned state machine
  whose retirement is refused while the route still owns work, and the reservations that hold a
  route open for schedules.  A Python set of reservation identifiers is a list without duplicates.
\<close>

record workload =
  wl_submissions :: nat
  wl_attempts :: nat
  wl_dispatches :: nat
  wl_effects :: nat
  wl_publications :: nat
  wl_outboxes :: nat

definition drained :: "workload \<Rightarrow> bool" where
  "drained w \<longleftrightarrow> wl_submissions w = 0 \<and> wl_attempts w = 0 \<and> wl_dispatches w = 0 \<and> wl_effects w = 0
     \<and> wl_publications w = 0 \<and> wl_outboxes w = 0"

definition on_route :: "store \<Rightarrow> string \<Rightarrow> key \<Rightarrow> bool" where
  "on_route s r k \<longleftrightarrow> (case dget (submissions s) k of None \<Rightarrow> False | Some su \<Rightarrow> su_route su = r)"

definition route_workload :: "store \<Rightarrow> string \<Rightarrow> workload" where
  "route_workload s r =
     \<lparr>wl_submissions = dcount (\<lambda>k su. su_route su = r \<and> non_terminal (su_status su)) (submissions s),
      wl_attempts = dcount (\<lambda>k a. at_status a = A_running
         \<and> on_route s r (mk_key (key_scope k) (at_submission a))) (attempts s),
      wl_dispatches = dcount (\<lambda>k d. di_status d \<noteq> D_dispatched \<and> di_status d \<noteq> D_cancelled
         \<and> on_route s r k) (dispatches s),
      wl_effects = dcount (\<lambda>k e. (ef_status e = E_pending \<or> ef_status e = E_unknown)
         \<and> on_route s r (mk_key (key_scope k) (ef_submission e))) (effects s),
      wl_publications = dcount (\<lambda>k p. pb_published_at p = None
         \<and> on_route s r (mk_key (pub_scope k) (pb_submission p))) (publications s),
      wl_outboxes = dcount (\<lambda>k ob. ob_published_at ob = None
         \<and> on_route s r (mk_key (key_scope k) (ob_submission ob))) (outboxes s)\<rparr>"

record reference_counts =
  rf_submissions :: nat
  rf_reservations :: nat

definition route_reference_counts :: "store \<Rightarrow> string \<Rightarrow> reference_counts" where
  "route_reference_counts s r =
     \<lparr>rf_submissions = dcount (\<lambda>k su. su_route su = r) (submissions s),
      rf_reservations = length (route_ref_list s r)\<rparr>"

definition route_arg_error :: "string \<Rightarrow> cp_error option" where
  "route_arg_error r = first_error
     [(\<not> valid_route r, bad_route),
      (\<not> prefect_route r, Value_error ''route lifecycle applies only to Prefect routes'')]"

definition get_execution_route_state :: "string \<Rightarrow> store \<Rightarrow> route res" where
  "get_execution_route_state r s =
     (case route_arg_error r of Some e \<Rightarrow> Inl e | None \<Rightarrow> Inr (route_state s r))"

definition execution_route_workload :: "string \<Rightarrow> store \<Rightarrow> workload res" where
  "execution_route_workload r s =
     (case route_arg_error r of Some e \<Rightarrow> Inl e | None \<Rightarrow> Inr (route_workload s r))"

definition execution_route_reference_counts :: "string \<Rightarrow> store \<Rightarrow> reference_counts res" where
  "execution_route_reference_counts r s =
     (case route_arg_error r of Some e \<Rightarrow> Inl e | None \<Rightarrow> Inr (route_reference_counts s r))"

definition reference_arg_error :: "string \<Rightarrow> string \<Rightarrow> cp_error option" where
  "reference_arg_error r i = first_error
     [(\<not> valid_route r, bad_route),
      (\<not> prefect_route r, Value_error ''route references apply only to Prefect routes''),
      (blank i, Value_error ''reference_id must be a non-empty string'')]"

definition set_add :: "'a \<Rightarrow> 'a list \<Rightarrow> 'a list" where
  "set_add x xs = (if x \<in> set xs then xs else xs @ [x])"

definition reserve_execution_route_reference ::
  "string \<Rightarrow> string \<Rightarrow> store \<Rightarrow> (store, unit) outcome" where
  "reserve_execution_route_reference r i s =
     (case reference_arg_error r i of
        Some e \<Rightarrow> raise_in s e
      | None \<Rightarrow>
          (if ro_status (route_state s r) \<noteq> R_active
           then raise_in s (Conflict ''Execution route is not accepting new schedule references'')
           else return_in (s\<lparr>route_refs := dput r (set_add i (route_ref_list s r)) (route_refs s)\<rparr>) ()))"

definition drop_reference :: "string \<Rightarrow> string \<Rightarrow> (string, string list) pydict \<Rightarrow> (string, string list) pydict"
  where
  "drop_reference r i d =
     (case dget d r of
        None \<Rightarrow> d
      | Some refs \<Rightarrow>
          (let refs' = removeAll i refs in if refs' = [] then dpop r d else dput r refs' d))"

definition release_execution_route_reference ::
  "string \<Rightarrow> string \<Rightarrow> store \<Rightarrow> (store, unit) outcome" where
  "release_execution_route_reference r i s =
     (case reference_arg_error r i of
        Some e \<Rightarrow> raise_in s e
      | None \<Rightarrow> return_in (s\<lparr>route_refs := drop_reference r i (route_refs s)\<rparr>) ())"

definition release_execution_route_reference_id :: "string \<Rightarrow> store \<Rightarrow> (store, unit) outcome" where
  "release_execution_route_reference_id i s =
     (if blank i then raise_in s (Value_error ''reference_id must be a non-empty string'')
      else return_in
        (s\<lparr>route_refs := fold (\<lambda>r d. drop_reference r i d) (map fst (route_refs s)) (route_refs s)\<rparr>) ())"

definition route_allowed :: "route_status \<Rightarrow> route_status \<Rightarrow> bool" where
  "route_allowed a b \<longleftrightarrow> (a, b) \<in>
     {(R_active, R_draining), (R_draining, R_active), (R_draining, R_retired), (R_retired, R_active),
      (R_retired, R_cleanup_pending), (R_cleanup_pending, R_cleaned)}"

definition next_route :: "ctx \<Rightarrow> route \<Rightarrow> route_status \<Rightarrow> instant \<Rightarrow> route" where
  "next_route c prior st now =
     prior\<lparr>ro_status := st, ro_revision := ro_revision prior + 1, ro_changed_at := Some now,
       ro_history := last_n 64 (ro_history prior @
         [\<lparr>rt_revision = ro_revision prior + 1, rt_from = ro_status prior, rt_to = st,
           rt_changed_at = now, rt_subject = pr_subject (cx_principal c),
           rt_issuer = pr_issuer (cx_principal c)\<rparr>])\<rparr>"

definition transition_execution_route_state ::
  "ctx \<Rightarrow> string \<Rightarrow> int \<Rightarrow> route_status \<Rightarrow> instant \<Rightarrow> store \<Rightarrow> (store, route) outcome" where
  "transition_execution_route_state c r expected st now s =
     (case route_arg_error r of
        Some e \<Rightarrow> raise_in s e
      | None \<Rightarrow>
          (let prior = route_state s r; w = route_workload s r; refs = route_reference_counts s r in
           if expected < 0
           then raise_in s (Value_error ''expected_revision must be a non-negative integer'')
           else if int (ro_revision prior) \<noteq> expected
           then raise_in s (Conflict ''Execution route lifecycle revision is stale'')
           else if st = ro_status prior then return_in s prior
           else if \<not> route_allowed (ro_status prior) st
           then raise_in s (Conflict ''Execution route lifecycle transition is invalid'')
           else if st = R_retired \<and> \<not> drained w
           then raise_in s (Conflict
             ''Execution route still owns durable work or publication evidence'')
           else if st = R_retired \<and> rf_reservations refs \<noteq> 0
           then raise_in s (Conflict ''Execution route still has scheduled references'')
           else if st = R_cleanup_pending
                   \<and> (\<not> drained w \<or> rf_submissions refs \<noteq> 0 \<or> rf_reservations refs \<noteq> 0)
           then raise_in s (Conflict ''Execution route still has work or durable references'')
           else let new = next_route c prior st now
                in return_in (s\<lparr>routes := dput r new (routes s)\<rparr>) new))"

end
