(* ===== verification/Durable_Dispatch.thy ===== *)
theory Durable_Dispatch
  imports Durable_Routes
begin

text \<open>
  Remote dispatch of accepted work (\<open>control_plane/durable_memory.py\<close>: \<open>_select_remote_run_id\<close> and
  \<open>pending_dispatches\<close> to \<open>rearm_reconciliation_required_dispatch\<close>): a fenced, generation-numbered
  state machine around one remote create.
\<close>

definition select_remote_run_id :: "string option \<Rightarrow> string option \<Rightarrow> string res" where
  "select_remote_run_id remote legacy =
     (if remote \<noteq> None \<and> legacy \<noteq> None \<and> remote \<noteq> legacy
      then Inl (Value_error ''remote_run_id conflicts with prefect_flow_run_id'')
      else case (if remote = None then legacy else remote) of
        None \<Rightarrow> Inl (Value_error ''remote_run_id is required'')
      | Some r \<Rightarrow>
          (if blank r \<or> 256 < length r
           then Inl (Value_error ''remote_run_id must contain 1 to 256 characters'') else Inr r))"

definition max_dispatch_generations :: nat where
  "max_dispatch_generations = 3"

definition dispatch_creation_key :: "externals \<Rightarrow> key \<Rightarrow> string \<Rightarrow> nat \<Rightarrow> string" where
  "dispatch_creation_key ex k binding generation =
     ''etlantic-'' @ ex_sha256 ex (ex_creation_identity ex k binding generation)"

definition after :: "instant option \<Rightarrow> instant \<Rightarrow> bool" where
  "after t now \<longleftrightarrow> (case t of None \<Rightarrow> False | Some x \<Rightarrow> now < x)"

subsection \<open>Work lists\<close>

definition dispatch_limit_error :: "string \<Rightarrow> string \<Rightarrow> int \<Rightarrow> cp_error option" where
  "dispatch_limit_error what r limit = first_error
     [(\<not> valid_route r, bad_route),
      (\<not> prefect_route r, Value_error what),
      (limit < 1 \<or> 1000 < limit, Value_error ''limit must be between 1 and 1000'')]"

definition dispatch_ready :: "scope \<Rightarrow> string \<Rightarrow> instant \<Rightarrow> store \<Rightarrow> outbox \<Rightarrow> bool" where
  "dispatch_ready sc r now s row \<longleftrightarrow>
     (let k = mk_key sc (ob_submission row); d = dget (dispatches s) k in
      case dget (submissions s) k of
        None \<Rightarrow> False
      | Some su \<Rightarrow>
          su_route su = r \<and> su_status su \<noteq> Completed \<and> su_status su \<noteq> Failed
          \<and> (su_status su \<in> {Cancel_requested, Cancelled} \<longrightarrow> map_option di_status d = Some D_uncertain)
          \<and> (case d of
               None \<Rightarrow> True
             | Some x \<Rightarrow>
                 di_status x \<notin> {D_dispatched, D_cancelled, D_reconciliation_required}
                 \<and> \<not> after (di_retry_after x) now
                 \<and> \<not> (di_status x = D_leased \<and> after (di_expires_at x) now)))"

definition pending_dispatches :: "ctx \<Rightarrow> string \<Rightarrow> int \<Rightarrow> instant \<Rightarrow> store \<Rightarrow> outbox list res" where
  "pending_dispatches c r limit now s =
     (case dispatch_limit_error ''dispatch polling requires a Prefect execution route'' r limit of
        Some e \<Rightarrow> Inl e
      | None \<Rightarrow> Inr (take (nat limit) (filter (dispatch_ready (scope_of c) r now s)
          (sort_key (\<lambda>row. (iso_key (ob_created_at row), ob_id row))
            (map snd (filter (\<lambda>(k, row). key_scope k = scope_of c \<and> ob_published_at row = None)
               (outboxes s)))))))"

definition dispatched_for_reconciliation ::
  "ctx \<Rightarrow> string \<Rightarrow> int \<Rightarrow> string option \<Rightarrow> store \<Rightarrow> dispatch list res" where
  "dispatched_for_reconciliation c r limit cursor s =
     (case dispatch_limit_error ''dispatch reconciliation requires a Prefect route'' r limit of
        Some e \<Rightarrow> Inl e
      | None \<Rightarrow> Inr (take (nat limit) (sort_key di_submission (map snd (filter
          (\<lambda>(k, d). key_scope k = scope_of c \<and> di_route d = r \<and> di_status d = D_dispatched
             \<and> di_remote_run d \<noteq> None
             \<and> (case cursor of None \<Rightarrow> True | Some i \<Rightarrow> i < di_submission d)
             \<and> map_option su_status (dget (submissions s) k) = Some Accepted)
          (dispatches s))))))"

subsection \<open>The dispatch state machine\<close>

definition dispatch_identity_ok ::
  "externals \<Rightarrow> key \<Rightarrow> submission \<Rightarrow> string \<Rightarrow> dispatch \<Rightarrow> bool" where
  "dispatch_identity_ok ex k su digest d \<longleftrightarrow>
     di_route d = su_route su \<and> di_binding d = drop 8 (su_route su)
     \<and> di_plan_fingerprint d = su_plan_fingerprint su \<and> di_envelope_sha d = digest
     \<and> di_creation_key d = dispatch_creation_key ex k (drop 8 (su_route su)) (di_generation d)"

definition plan_schema :: string where
  "plan_schema = ''etlantic.plan/1''"

definition prepare_dispatch ::
  "externals \<Rightarrow> ctx \<Rightarrow> string \<Rightarrow> instant \<Rightarrow> store \<Rightarrow> (store, dispatch) outcome" where
  "prepare_dispatch ex c sid now s =
     (let k = mk_key (scope_of c) sid in
      case dget (submissions s) k of
        None \<Rightarrow> raise_in s (Not_found ''Submission not found'')
      | Some su \<Rightarrow>
          (if \<not> valid_route (su_route su) then raise_in s bad_route
           else if \<not> prefect_route (su_route su)
           then raise_in s (Conflict ''Submission is not assigned to a Prefect execution route'')
           else if \<not> truthy (su_input_snapshot su)
           then raise_in s (Conflict ''Prefect dispatch requires an immutable execution envelope'')
           else case ex_parse_envelope ex (of_opt (su_input_snapshot su)) of
             None \<Rightarrow> raise_in s (Value_error ''execution envelope is invalid'')
           | Some (fp, schema) \<Rightarrow>
               (if fp \<noteq> su_plan_fingerprint su \<or> schema \<noteq> Some plan_schema
                then raise_in s (Conflict
                  ''Submission envelope is unsupported for managed Prefect dispatch'')
                else
                  let digest = ex_sha256 ex (of_opt (su_input_snapshot su)) in
                  case dget (dispatches s) k of
                    Some d \<Rightarrow>
                      (if dispatch_identity_ok ex k su digest d then return_in s d
                       else raise_in s (Conflict
                         ''Accepted dispatch identity conflicts with its durable record''))
                  | None \<Rightarrow>
                      (let new = \<lparr>di_submission = sid, di_route = su_route su,
                         di_binding = drop 8 (su_route su),
                         di_plan_fingerprint = su_plan_fingerprint su, di_envelope_sha = digest,
                         di_generation = 1,
                         di_creation_key = dispatch_creation_key ex k (drop 8 (su_route su)) 1,
                         di_created_at = now, di_updated_at = now,
                         di_status = (if not_executable (su_status su) then D_cancelled else D_pending),
                         di_attempts = 0, di_owner = None, di_token = 0, di_expires_at = None,
                         di_retry_after = None, di_remote_run = None, di_error = None,
                         di_history = []\<rparr>
                       in return_in (s\<lparr>dispatches := dput k new (dispatches s)\<rparr>) new))))"

definition get_dispatch :: "ctx \<Rightarrow> string \<Rightarrow> store \<Rightarrow> dispatch res" where
  "get_dispatch c sid s =
     (case dget (dispatches s) (mk_key (scope_of c) sid) of
        None \<Rightarrow> Inl (Not_found ''Dispatch record not found'') | Some d \<Rightarrow> Inr d)"

definition claim_refused :: "dispatch \<Rightarrow> submission \<Rightarrow> instant \<Rightarrow> bool" where
  "claim_refused d su now \<longleftrightarrow>
     di_status d \<in> {D_dispatched, D_cancelled, D_reconciliation_required}
     \<or> after (di_retry_after d) now
     \<or> (not_executable (su_status su)
        \<and> \<not> (di_status d = D_uncertain \<and> su_status su \<in> {Cancel_requested, Cancelled}))
     \<or> (di_status d = D_leased \<and> after (di_expires_at d) now)"

definition claim_dispatch ::
  "ctx \<Rightarrow> string \<Rightarrow> string \<Rightarrow> int \<Rightarrow> instant \<Rightarrow> store \<Rightarrow> (store, dispatch option) outcome" where
  "claim_dispatch c sid owner seconds now s =
     (if blank owner \<or> 256 < length owner
      then raise_in s (Value_error ''owner_id must contain 1 to 256 characters'')
      else if seconds < 1 \<or> 600 < seconds
      then raise_in s (Value_error ''lease_seconds must be between 1 and 600'')
      else
        let k = mk_key (scope_of c) sid in
        case (dget (dispatches s) k, dget (submissions s) k) of
          (Some d, Some su) \<Rightarrow>
            (if claim_refused d su now then return_in s None
             else let d' = d\<lparr>di_status := D_leased, di_attempts := di_attempts d + 1,
                             di_owner := Some owner, di_token := di_token d + 1,
                             di_expires_at := Some (now + usec seconds), di_updated_at := now\<rparr>
                  in return_in (s\<lparr>dispatches := dput k d' (dispatches s)\<rparr>) (Some d'))
        | _ \<Rightarrow> raise_in s (Not_found ''Dispatch candidate not found''))"

definition link_dispatch ::
  "ctx \<Rightarrow> string \<Rightarrow> string \<Rightarrow> nat \<Rightarrow> string option \<Rightarrow> string option \<Rightarrow> instant \<Rightarrow> store \<Rightarrow>
   (store, dispatch) outcome" where
  "link_dispatch c sid owner token remote legacy now s =
     (case select_remote_run_id remote legacy of
        Inl e \<Rightarrow> raise_in s e
      | Inr run \<Rightarrow>
          (let k = mk_key (scope_of c) sid in
           case dget (dispatches s) k of
             None \<Rightarrow> raise_in s (Not_found ''Dispatch record not found'')
           | Some d \<Rightarrow>
               (if di_status d = D_dispatched
                then if di_remote_run d = Some run then return_in s d
                     else raise_in s (Conflict ''Dispatch is already linked to a different remote run'')
                else if di_status d \<noteq> D_leased \<or> di_owner d \<noteq> Some owner \<or> di_token d \<noteq> token
                        \<or> \<not> after (di_expires_at d) now
                then raise_in s (Conflict ''Dispatch lease was lost'')
                else let d' = d\<lparr>di_status := D_dispatched, di_remote_run := Some run,
                                di_owner := None, di_expires_at := None, di_retry_after := None,
                                di_error := None, di_updated_at := now\<rparr>
                     in return_in (s\<lparr>dispatches := dput k d' (dispatches s)\<rparr>) d')))"

text \<open>The retry delay: exponential in the number of attempts, at most five minutes.\<close>

definition backoff_seconds :: "nat \<Rightarrow> int" where
  "backoff_seconds n = min 300 (2 ^ min n 9)"

definition release_dispatch ::
  "ctx \<Rightarrow> string \<Rightarrow> string \<Rightarrow> nat \<Rightarrow> bool \<Rightarrow> bool \<Rightarrow> string option \<Rightarrow> instant \<Rightarrow> store \<Rightarrow>
   (store, dispatch) outcome" where
  "release_dispatch c sid owner token uncertain cancelled code now s =
     (if (case code of None \<Rightarrow> False | Some x \<Rightarrow> 64 < length x \<or> \<not> list_all is_token_char x)
      then raise_in s (Value_error ''error_code must be a bounded lowercase diagnostic token'')
      else
        let k = mk_key (scope_of c) sid in
        case dget (dispatches s) k of
          None \<Rightarrow> raise_in s (Not_found ''Dispatch record not found'')
        | Some d \<Rightarrow>
            (if di_status d = D_dispatched then return_in s d
             else if di_status d \<noteq> D_leased \<or> di_owner d \<noteq> Some owner \<or> di_token d \<noteq> token
             then raise_in s (Conflict ''Dispatch lease was lost'')
             else let d' = d\<lparr>di_status := (if cancelled then D_cancelled
                                          else if uncertain then D_uncertain else D_pending),
                             di_owner := None, di_expires_at := None,
                             di_retry_after := (if cancelled then None
                                else Some (now + usec (backoff_seconds (di_attempts d)))),
                             di_error := code, di_updated_at := now\<rparr>
                  in return_in (s\<lparr>dispatches := dput k d' (dispatches s)\<rparr>) d'))"

definition execution_started :: "scope \<Rightarrow> string \<Rightarrow> store \<Rightarrow> bool" where
  "execution_started sc sid s \<longleftrightarrow>
     list_ex (\<lambda>(k, a). at_submission a = sid \<and> (at_tenant a, at_workspace a) = sc) (attempts s)
     \<or> list_ex (\<lambda>(k, e). ef_submission e = sid \<and> (ef_tenant e, ef_workspace e) = sc) (effects s)
     \<or> list_ex (\<lambda>(k, p). pb_submission p = sid \<and> (pb_tenant p, pb_workspace p) = sc) (publications s)"

definition rearmed :: "externals \<Rightarrow> key \<Rightarrow> string \<Rightarrow> instant \<Rightarrow> dispatch \<Rightarrow> dispatch" where
  "rearmed ex k reason now d =
     d\<lparr>di_generation := di_generation d + 1,
       di_creation_key := dispatch_creation_key ex k (di_binding d) (di_generation d + 1),
       di_status := D_pending, di_remote_run := None, di_retry_after := None,
       di_error := Some reason, di_updated_at := now\<rparr>"

definition rearm_dispatch_if_unclaimed ::
  "externals \<Rightarrow> ctx \<Rightarrow> string \<Rightarrow> string option \<Rightarrow> string \<Rightarrow> int \<Rightarrow> instant \<Rightarrow> instant \<Rightarrow> store \<Rightarrow>
   (store, dispatch option) outcome" where
  "rearm_dispatch_if_unclaimed ex c sid remote reason min_age current wall s =
     (case select_remote_run_id remote None of
        Inl e \<Rightarrow> raise_in s e
      | Inr run \<Rightarrow>
          (let k = mk_key (scope_of c) sid in
           case (dget (dispatches s) k, dget (submissions s) k) of
             (Some d, Some su) \<Rightarrow>
               (if di_status d \<noteq> D_dispatched \<or> di_remote_run d \<noteq> Some run
                   \<or> su_status su \<noteq> Accepted
                   \<or> (0 < min_age \<and> current - usec min_age < di_updated_at d)
                   \<or> lease_live (dget (leases s) k) wall
                   \<or> execution_started (scope_of c) sid s
                then return_in s None
                else if max_dispatch_generations \<le> di_generation d
                then let d' = d\<lparr>di_status := D_reconciliation_required, di_retry_after := None,
                                di_error := Some ''dispatch_generation_exhausted'',
                                di_updated_at := current\<rparr>
                     in return_in (s\<lparr>dispatches := dput k d' (dispatches s)\<rparr>) (Some d')
                else let d' = rearmed ex k reason current d
                     in return_in (s\<lparr>dispatches := dput k d' (dispatches s)\<rparr>) (Some d'))
           | _ \<Rightarrow> return_in s None))"

definition rearm_dispatch_after_remote_failure ::
  "externals \<Rightarrow> ctx \<Rightarrow> string \<Rightarrow> string option \<Rightarrow> string option \<Rightarrow> instant \<Rightarrow> instant \<Rightarrow> store \<Rightarrow>
   (store, dispatch option) outcome" where
  "rearm_dispatch_after_remote_failure ex c sid remote legacy current wall s =
     (case select_remote_run_id remote legacy of
        Inl e \<Rightarrow> raise_in s e
      | Inr run \<Rightarrow> rearm_dispatch_if_unclaimed ex c sid (Some run) ''remote_failed_before_claim'' 0
                    current wall s)"

definition rearm_dispatch_after_remote_missing ::
  "externals \<Rightarrow> ctx \<Rightarrow> string \<Rightarrow> string option \<Rightarrow> string option \<Rightarrow> int \<Rightarrow> instant \<Rightarrow> instant \<Rightarrow> store \<Rightarrow>
   (store, dispatch option) outcome" where
  "rearm_dispatch_after_remote_missing ex c sid remote legacy min_age current wall s =
     (if min_age < 30 \<or> 86400 < min_age
      then raise_in s (Value_error ''minimum_age_seconds must be between 30 and 86400'')
      else case select_remote_run_id remote legacy of
        Inl e \<Rightarrow> raise_in s e
      | Inr run \<Rightarrow> rearm_dispatch_if_unclaimed ex c sid (Some run) ''remote_missing_before_claim''
                    min_age current wall s)"

definition sha_digest :: "string \<Rightarrow> bool" where
  "sha_digest x \<longleftrightarrow> length x = 64 \<and> list_all hex_digit x"

definition rearm_reconciliation_required_dispatch ::
  "externals \<Rightarrow> ctx \<Rightarrow> string \<Rightarrow> int \<Rightarrow> string option \<Rightarrow> string option \<Rightarrow> string \<Rightarrow> instant \<Rightarrow> store \<Rightarrow>
   (store, dispatch) outcome" where
  "rearm_reconciliation_required_dispatch ex c sid expected remote legacy evidence now s =
     (if expected < 1
      then raise_in s (Value_error ''expected_generation must be a positive integer'')
      else case select_remote_run_id remote legacy of
        Inl e \<Rightarrow> raise_in s e
      | Inr run \<Rightarrow>
          (if \<not> sha_digest evidence
           then raise_in s (Value_error ''evidence_sha256 must be a lowercase SHA-256 digest'')
           else
             let k = mk_key (scope_of c) sid in
             case (dget (dispatches s) k, dget (submissions s) k) of
               (Some d, Some su) \<Rightarrow>
                 (if di_status d \<noteq> D_reconciliation_required \<or> int (di_generation d) \<noteq> expected
                     \<or> di_remote_run d \<noteq> Some run \<or> su_status su \<noteq> Accepted
                  then raise_in s (Conflict ''Dispatch no longer matches the reconciled generation'')
                  else if ro_status (route_state s (di_route d)) \<noteq> R_active
                  then raise_in s (Conflict
                    ''Execution route must be active before dispatch reconciliation'')
                  else if lease_live (dget (leases s) k) now
                  then raise_in s (Conflict
                    ''Dispatch cannot be reconciled while an execution lease is active'')
                  else if execution_started (scope_of c) sid s
                  then raise_in s (Conflict
                    ''Dispatch cannot be reconciled after canonical execution began'')
                  else
                    let audit = \<lparr>rc_from = di_generation d, rc_to = di_generation d + 1,
                                 rc_remote_run = run, rc_authorized_at = now,
                                 rc_subject = pr_subject (cx_principal c),
                                 rc_issuer = pr_issuer (cx_principal c), rc_evidence = evidence\<rparr>;
                        d' = (rearmed ex k ''operator_reconciled_preclaim'' now d)
                               \<lparr>di_history := last_n 64 (di_history d @ [audit])\<rparr>
                    in return_in (s\<lparr>dispatches := dput k d' (dispatches s)\<rparr>) d')
             | _ \<Rightarrow> raise_in s (Not_found ''Dispatch record not found'')))"

end
