(* ===== verification/Action_Jobs.thy ===== *)
theory Action_Jobs
  imports Durable_Dispatch
begin

text \<open>
  Durable connector actions (\<open>control_plane/durable_memory.py\<close>: \<open>accept_action_job\<close> to
  \<open>cleanup_expired_action_results\<close>): idempotent acceptance, fenced claims with heartbeats,
  cooperative cancellation and completion under a deadline.
\<close>

subsection \<open>Identity\<close>

definition identity_key :: "externals \<Rightarrow> principal \<Rightarrow> string" where
  "identity_key ex p = ''principal:'' @ ex_sha256 ex (ex_principal_identity ex p)"

definition owner_of :: "externals \<Rightarrow> ctx \<Rightarrow> string" where
  "owner_of ex c = (if truthy (cx_owner c) then of_opt (cx_owner c)
                    else identity_key ex (cx_principal c))"

definition action_idem :: "externals \<Rightarrow> ctx \<Rightarrow> string \<Rightarrow> string \<Rightarrow> action_key" where
  "action_idem ex c action idem =
     Action_key (scope_of c) (cx_domain c) (cx_environment c) (owner_of ex c)
       (of_opt (pr_issuer (cx_principal c))) (pr_kind (cx_principal c))
       (pr_subject (cx_principal c)) action idem"

definition legacy_idem :: "ctx \<Rightarrow> string \<Rightarrow> string \<Rightarrow> action_key" where
  "legacy_idem c action idem =
     Legacy_key (scope_of c) (of_opt (pr_issuer (cx_principal c))) (pr_kind (cx_principal c))
       (pr_subject (cx_principal c)) action idem"

definition owned_by :: "externals \<Rightarrow> ctx \<Rightarrow> action_job \<Rightarrow> bool" where
  "owned_by ex c j \<longleftrightarrow>
     aj_owner j = owner_of ex c \<and> aj_domain j = cx_domain c \<and> aj_environment j = cx_environment c"

subsection \<open>Acceptance\<close>

definition max_action_request_bytes :: int where
  "max_action_request_bytes = 64 * 1024"

definition action_guards ::
  "externals \<Rightarrow> string \<Rightarrow> string \<Rightarrow> string \<Rightarrow> instant option \<Rightarrow> instant \<Rightarrow> cp_error option" where
  "action_guards ex action idem request deadline now = first_error
     [(blank action \<or> blank idem, Value_error ''action and idempotency_key must not be empty''),
      (deadline = None, Cp_error ''PMCP400'' 400
        ''Action deadline must be an ISO timestamp with a timezone''),
      (\<not> after deadline now, Conflict ''Action deadline has already elapsed''),
      (max_action_request_bytes < utf8_length (ex_redact_request ex request), Cp_error ''PMCP413'' 413
        ''Connector action request exceeds the configured byte limit'')]"

definition action_fingerprint :: "externals \<Rightarrow> string \<Rightarrow> string \<Rightarrow> string" where
  "action_fingerprint ex action request =
     ex_sha256 ex (ex_action_identity ex action (ex_redact_request ex request))"

definition prior_action :: "externals \<Rightarrow> ctx \<Rightarrow> string \<Rightarrow> string \<Rightarrow> store \<Rightarrow> string option" where
  "prior_action ex c action idem s =
     (case dget (action_idempotency s) (action_idem ex c action idem) of
        Some i \<Rightarrow> Some i
      | None \<Rightarrow>
          (case dget (action_idempotency s) (legacy_idem c action idem) of
             None \<Rightarrow> None
           | Some i \<Rightarrow>
               (case dget (action_jobs s) (mk_key (scope_of c) i) of
                  None \<Rightarrow> None
                | Some j \<Rightarrow> if owned_by ex c j then Some (aj_id j) else None)))"

text \<open>
  A failed or timed-out provisioning action with no recorded effect is queued again when the
  same key is submitted.
\<close>

definition recoverable :: "action_job \<Rightarrow> bool" where
  "recoverable j \<longleftrightarrow>
     aj_action j \<in> {''connector.provision'', ''connector.provision.cleanup''}
     \<and> aj_result j = None \<and> aj_status j \<in> {J_timed_out, J_failed}
     \<and> aj_error j \<in> {Some ''deadline_exceeded'', Some ''action_failed'', Some ''provider_timeout''}"

definition new_action_job ::
  "externals \<Rightarrow> ctx \<Rightarrow> string \<Rightarrow> string \<Rightarrow> string \<Rightarrow> instant \<Rightarrow> string \<Rightarrow> instant \<Rightarrow> action_job" where
  "new_action_job ex c action idem request deadline uuid now =
     \<lparr>aj_id = uuid, aj_owner = owner_of ex c, aj_subject = pr_subject (cx_principal c),
      aj_issuer = pr_issuer (cx_principal c), aj_kind = pr_kind (cx_principal c),
      aj_environment = cx_environment c, aj_domain = cx_domain c, aj_action = action,
      aj_idempotency_key = idem, aj_fingerprint = action_fingerprint ex action request,
      aj_request = ex_redact_request ex request, aj_created_at = now, aj_deadline_at = deadline,
      aj_status = J_queued, aj_phase = ''queued'', aj_attempt = 0, aj_token = 0, aj_worker = None,
      aj_expires_at = None, aj_started_at = None, aj_completed_at = None, aj_result = None,
      aj_result_expires_at = None, aj_error = None\<rparr>"

definition accept_action_job ::
  "externals \<Rightarrow> ctx \<Rightarrow> string \<Rightarrow> string \<Rightarrow> string \<Rightarrow> instant option \<Rightarrow> string \<Rightarrow> instant \<Rightarrow> store \<Rightarrow>
   (store, action_job) outcome" where
  "accept_action_job ex c action idem request deadline uuid now s =
     (case action_guards ex action idem request deadline now of
        Some e \<Rightarrow> raise_in s e
      | None \<Rightarrow>
          (case deadline of
             None \<Rightarrow> raise_in s Key_error
           | Some dl \<Rightarrow>
               (case prior_action ex c action idem s of
                  Some i \<Rightarrow>
                    (let k = mk_key (scope_of c) i in
                     case dget (action_jobs s) k of
                       None \<Rightarrow> raise_in s Key_error
                     | Some prior \<Rightarrow>
                         (if aj_fingerprint prior \<noteq> action_fingerprint ex action request
                          then raise_in s (Conflict
                            ''Action idempotency key reuse has different inputs'')
                          else if recoverable prior
                          then let j = prior\<lparr>aj_status := J_queued, aj_phase := ''queued'',
                                  aj_deadline_at := dl, aj_completed_at := None,
                                  aj_error := None\<rparr>
                               in return_in (s\<lparr>action_jobs := dput k j (action_jobs s)\<rparr>) j
                          else return_in s prior))
                | None \<Rightarrow>
                    (let j = new_action_job ex c action idem request dl uuid now in
                     return_in (s\<lparr>action_jobs := dput (mk_key (scope_of c) uuid) j (action_jobs s),
                                  action_idempotency := dput (action_idem ex c action idem) uuid
                                    (action_idempotency s)\<rparr>) j))))"

subsection \<open>Reads\<close>

definition get_action_job :: "externals \<Rightarrow> ctx \<Rightarrow> string \<Rightarrow> store \<Rightarrow> action_job res" where
  "get_action_job ex c aid s =
     (case dget (action_jobs s) (mk_key (scope_of c) aid) of
        None \<Rightarrow> Inl (Not_found ''Action job not found'')
      | Some j \<Rightarrow> if owned_by ex c j then Inr j else Inl (Not_found ''Action job not found''))"

definition get_action_job_by_idempotency ::
  "externals \<Rightarrow> ctx \<Rightarrow> string \<Rightarrow> string \<Rightarrow> store \<Rightarrow> action_job option" where
  "get_action_job_by_idempotency ex c action idem s =
     (case (case dget (action_idempotency s) (action_idem ex c action idem) of
              Some i \<Rightarrow> Some i
            | None \<Rightarrow> dget (action_idempotency s) (legacy_idem c action idem)) of
        None \<Rightarrow> None
      | Some i \<Rightarrow>
          (case dget (action_jobs s) (mk_key (scope_of c) i) of
             None \<Rightarrow> None
           | Some j \<Rightarrow> if owned_by ex c j then Some j else None))"

definition action_order :: "action_job \<Rightarrow> (int \<times> int) \<times> string" where
  "action_order j = (iso_key (aj_created_at j), aj_id j)"

definition list_action_jobs ::
  "externals \<Rightarrow> ctx \<Rightarrow> (instant \<times> string) option \<Rightarrow> int \<Rightarrow> store \<Rightarrow> action_job list res" where
  "list_action_jobs ex c cursor limit s =
     (if limit < 1 then Inl (Value_error ''limit must be a positive integer'')
      else
        let rows = sort_key action_order (map snd (filter
              (\<lambda>(k, j). key_scope k = scope_of c \<and> owned_by ex c j) (action_jobs s)));
            rows' = (case cursor of
                       None \<Rightarrow> rows
                     | Some (t, i) \<Rightarrow> filter (\<lambda>j. (iso_key t, i) < action_order j) rows)
        in Inr (take (nat limit) rows'))"

subsection \<open>Cancellation\<close>

definition cancel_action_job ::
  "externals \<Rightarrow> ctx \<Rightarrow> string \<Rightarrow> instant \<Rightarrow> store \<Rightarrow> (store, action_job) outcome" where
  "cancel_action_job ex c aid now s =
     (let k = mk_key (scope_of c) aid in
      case dget (action_jobs s) k of
        None \<Rightarrow> raise_in s (Not_found ''Preparation operation not found'')
      | Some j \<Rightarrow>
          (if \<not> owned_by ex c j then raise_in s (Not_found ''Preparation operation not found'')
           else if aj_action j \<noteq> ''run.prepare''
           then raise_in s (Not_found ''Preparation operation not found'')
           else if aj_status j = J_queued
           then let j' = j\<lparr>aj_status := J_cancelled, aj_phase := ''cancelled'',
                           aj_completed_at := Some now, aj_error := None\<rparr>
                in return_in (s\<lparr>action_jobs := dput k j' (action_jobs s)\<rparr>) j'
           else if aj_status j = J_running \<and> aj_phase j \<noteq> ''accepting''
           then let j' = j\<lparr>aj_status := J_cancel_requested\<rparr>
                in return_in (s\<lparr>action_jobs := dput k j' (action_jobs s)\<rparr>) j'
           else if aj_status j = J_cancel_requested then return_in s j
           else raise_in s (Conflict ''Preparation can no longer be cancelled'')))"

subsection \<open>Claiming\<close>

definition elapsed :: "instant option \<Rightarrow> instant \<Rightarrow> bool" where
  "elapsed t now \<longleftrightarrow> (case t of None \<Rightarrow> False | Some x \<Rightarrow> x \<le> now)"

definition expire_job :: "scope \<Rightarrow> instant \<Rightarrow> key \<Rightarrow> action_job \<Rightarrow> action_job" where
  "expire_job sc now k j =
     (if key_scope k = sc \<and> aj_status j \<in> {J_queued, J_running, J_cancel_requested}
      then if aj_status j = J_cancel_requested \<and> elapsed (aj_expires_at j) now
           then j\<lparr>aj_status := J_cancelled, aj_phase := ''cancelled'', aj_completed_at := Some now,
                  aj_worker := None, aj_expires_at := None\<rparr>
           else if aj_deadline_at j \<le> now
           then j\<lparr>aj_status := J_timed_out, aj_completed_at := Some now, aj_worker := None,
                  aj_expires_at := None, aj_error := Some ''deadline_exceeded''\<rparr>
           else j
      else j)"

definition claimable :: "scope \<Rightarrow> instant \<Rightarrow> key \<Rightarrow> action_job \<Rightarrow> bool" where
  "claimable sc now k j \<longleftrightarrow>
     key_scope k = sc \<and> aj_status j \<in> {J_queued, J_running} \<and> now < aj_deadline_at j
     \<and> (aj_status j = J_queued \<or> aj_expires_at j = None \<or> elapsed (aj_expires_at j) now)"

definition claim_job :: "string \<Rightarrow> int \<Rightarrow> instant \<Rightarrow> action_job \<Rightarrow> action_job" where
  "claim_job worker seconds now j =
     j\<lparr>aj_status := J_running, aj_attempt := aj_attempt j + 1, aj_token := aj_token j + 1,
       aj_worker := Some worker, aj_expires_at := Some (now + usec seconds),
       aj_started_at := (if aj_started_at j = None then Some now else aj_started_at j),
       aj_phase := (if aj_phase j = ''queued'' then ''preparing'' else aj_phase j)\<rparr>"

definition claim_action_job ::
  "ctx \<Rightarrow> string \<Rightarrow> int \<Rightarrow> instant \<Rightarrow> store \<Rightarrow> (store, action_job option) outcome" where
  "claim_action_job c worker seconds now s =
     (if blank worker \<or> seconds < 1
      then raise_in s (Value_error ''worker_id and a positive lease_seconds are required'')
      else
        let jobs = dmap (expire_job (scope_of c) now) (action_jobs s);
            candidates = sort_key (\<lambda>(k, j). action_order j)
              (filter (\<lambda>(k, j). claimable (scope_of c) now k j) jobs)
        in case candidates of
             [] \<Rightarrow> return_in (s\<lparr>action_jobs := jobs\<rparr>) None
           | (k, j) # _ \<Rightarrow>
               (let j' = claim_job worker seconds now j
                in return_in (s\<lparr>action_jobs := dput k j' jobs\<rparr>) (Some j')))"

definition job_lease_lost :: "string \<Rightarrow> nat \<Rightarrow> instant \<Rightarrow> action_job \<Rightarrow> bool" where
  "job_lease_lost worker token now j \<longleftrightarrow>
     aj_worker j \<noteq> Some worker \<or> aj_token j \<noteq> token \<or> \<not> after (aj_expires_at j) now"

definition heartbeat_action_job ::
  "ctx \<Rightarrow> string \<Rightarrow> string \<Rightarrow> nat \<Rightarrow> int \<Rightarrow> instant \<Rightarrow> store \<Rightarrow> (store, action_job) outcome" where
  "heartbeat_action_job c aid worker token seconds now s =
     (if blank worker \<or> seconds < 1
      then raise_in s (Value_error ''worker_id and a positive lease_seconds are required'')
      else
        let k = mk_key (scope_of c) aid in
        case dget (action_jobs s) k of
          None \<Rightarrow> raise_in s (Not_found ''Action job not found'')
        | Some j \<Rightarrow>
            (if aj_status j \<notin> {J_running, J_cancel_requested} \<or> job_lease_lost worker token now j
             then raise_in s (Conflict ''Action worker lease is stale'')
             else let j' = j\<lparr>aj_expires_at := Some (now + usec seconds)\<rparr>
                  in return_in (s\<lparr>action_jobs := dput k j' (action_jobs s)\<rparr>) j'))"

definition mark_action_job_accepting ::
  "ctx \<Rightarrow> string \<Rightarrow> string \<Rightarrow> nat \<Rightarrow> instant \<Rightarrow> store \<Rightarrow> (store, action_job) outcome" where
  "mark_action_job_accepting c aid worker token now s =
     (let k = mk_key (scope_of c) aid in
      case dget (action_jobs s) k of
        None \<Rightarrow> raise_in s (Not_found ''Action job not found'')
      | Some j \<Rightarrow>
          (if aj_status j = J_cancel_requested
           then raise_in s (Conflict ''Preparation was cancelled before acceptance'')
           else if aj_action j \<noteq> ''run.prepare'' \<or> aj_status j \<noteq> J_running
                   \<or> job_lease_lost worker token now j
           then raise_in s (Conflict ''Action worker lease is stale'')
           else if aj_phase j = ''accepting'' then return_in s j
           else let j' = j\<lparr>aj_phase := ''accepting''\<rparr>
                in return_in (s\<lparr>action_jobs := dput k j' (action_jobs s)\<rparr>) j'))"

subsection \<open>Completion\<close>

definition action_error_codes :: "string list" where
  "action_error_codes =
     [''action_failed'', ''authorization_denied'', ''deadline_exceeded'', ''handler_unavailable'',
      ''invalid_action_request'', ''invalid_effect_receipt'', ''provider_timeout'',
      ''provision_parent_unavailable'', ''result_limit_exceeded'']"

definition retains_effect :: "action_job \<Rightarrow> action_status \<Rightarrow> string option \<Rightarrow> int option \<Rightarrow> bool" where
  "retains_effect j status result ttl \<longleftrightarrow>
     aj_action j \<in> {''connector.provision'', ''connector.provision.cleanup'', ''run.prepare''}
     \<and> status = J_succeeded \<and> result \<noteq> None \<and> ttl = None"

definition min_preview_result_ttl :: int where
  "min_preview_result_ttl = 60"

definition max_preview_result_ttl :: int where
  "max_preview_result_ttl = 24 * 60 * 60"

text \<open>What the last branch checks before it stores a success or a failure.\<close>

definition retention_error :: "action_job \<Rightarrow> action_status \<Rightarrow> int option \<Rightarrow> cp_error option" where
  "retention_error j status ttl =
     (if status = J_succeeded
      then first_error
        [(aj_action j = ''connector.preview'' \<and> ttl = None,
           Value_error ''connector preview results require separate retention''),
         (aj_action j = ''connector.preview''
            \<and> (case ttl of None \<Rightarrow> False | Some x \<Rightarrow> \<not> (min_preview_result_ttl \<le> x \<and> x \<le> max_preview_result_ttl)),
           Value_error ''connector preview result TTL is out of range''),
         (aj_action j \<noteq> ''connector.preview'' \<and> ttl \<noteq> None,
           Value_error ''result TTL applies only to connector preview actions'')]
      else first_error
        [(ttl \<noteq> None, Value_error ''failed action jobs cannot retain result payloads'')])"

definition close_job :: "action_status \<Rightarrow> instant \<Rightarrow> action_job \<Rightarrow> action_job" where
  "close_job status now j =
     j\<lparr>aj_status := status, aj_completed_at := Some now, aj_worker := None, aj_expires_at := None\<rparr>"

definition finished_job ::
  "externals \<Rightarrow> action_status \<Rightarrow> string option \<Rightarrow> string option \<Rightarrow> int option \<Rightarrow>
   string option \<Rightarrow> instant \<Rightarrow> action_job \<Rightarrow> action_job res" where
  "finished_job ex status result code ttl effect_json now j =
     (if aj_status j = J_cancel_requested \<or> status = J_cancelled
      then Inr ((close_job J_cancelled now j)\<lparr>aj_phase := ''cancelled'', aj_result := effect_json,
                  aj_result_expires_at := None, aj_error := None\<rparr>)
      else if status = J_timed_out
      then if ttl \<noteq> None
           then Inl (Value_error ''timed-out action jobs cannot retain result payloads'')
           else if now < aj_deadline_at j then Inl (Conflict ''Action deadline has not elapsed'')
           else Inr ((close_job J_timed_out now j)\<lparr>aj_error := Some ''deadline_exceeded''\<rparr>)
      else if aj_deadline_at j \<le> now
      then Inr ((close_job J_timed_out now j)\<lparr>aj_error := Some ''deadline_exceeded'',
                  aj_result := effect_json\<rparr>)
      else case retention_error j status ttl of
        Some e \<Rightarrow> Inl e
      | None \<Rightarrow> Inr ((close_job status now j)
          \<lparr>aj_result := (if status = J_succeeded then Some (ex_redact_result ex result) else None),
           aj_result_expires_at := (if status = J_succeeded
              then map_option (\<lambda>x. now + usec x) ttl else None),
           aj_error := (if status = J_failed
              then if code \<in> Some ` set action_error_codes then code else Some ''action_failed''
              else None)\<rparr>))"

definition finish_action_job ::
  "externals \<Rightarrow> ctx \<Rightarrow> string \<Rightarrow> string \<Rightarrow> nat \<Rightarrow> action_status \<Rightarrow> string option \<Rightarrow>
   string option \<Rightarrow> int option \<Rightarrow> instant \<Rightarrow> store \<Rightarrow> (store, action_job) outcome" where
  "finish_action_job ex c aid worker token status result code ttl now s =
     (if status \<notin> {J_succeeded, J_failed, J_timed_out, J_cancelled}
      then raise_in s (Value_error ''action job completion status is invalid'')
      else if (case ttl of None \<Rightarrow> False | Some x \<Rightarrow> x < 1)
      then raise_in s (Value_error ''result_ttl_seconds must be a positive integer'')
      else
        let k = mk_key (scope_of c) aid in
        case dget (action_jobs s) k of
          None \<Rightarrow> raise_in s (Not_found ''Action job not found'')
        | Some j \<Rightarrow>
            (let retains = retains_effect j status result ttl;
                 effect_json = (if retains then Some (ex_redact_result ex result) else None)
             in if aj_status j \<in> {J_timed_out, J_cancelled} \<and> aj_token j = token
                   \<and> aj_started_at j \<noteq> None \<and> retains
                then if aj_result j \<noteq> None \<and> aj_result j \<noteq> effect_json
                     then raise_in s (Conflict ''Action effect receipt conflicts'')
                     else let j' = j\<lparr>aj_result := effect_json\<rparr>
                          in return_in (s\<lparr>action_jobs := dput k j' (action_jobs s)\<rparr>) j'
                else if aj_status j \<notin> {J_running, J_cancel_requested} \<or> job_lease_lost worker token now j
                then raise_in s (Conflict ''Action worker lease is stale'')
                else case finished_job ex status result code ttl effect_json now j of
                  Inl e \<Rightarrow> raise_in s e
                | Inr j' \<Rightarrow> return_in (s\<lparr>action_jobs := dput k j' (action_jobs s)\<rparr>) j'))"

definition result_expired :: "scope \<Rightarrow> instant \<Rightarrow> key \<times> action_job \<Rightarrow> bool" where
  "result_expired sc now kj \<longleftrightarrow>
     key_scope (fst kj) = sc \<and> aj_result (snd kj) \<noteq> None
     \<and> elapsed (aj_result_expires_at (snd kj)) now"

definition cleanup_expired_action_results ::
  "ctx \<Rightarrow> int \<Rightarrow> instant \<Rightarrow> store \<Rightarrow> (store, nat) outcome" where
  "cleanup_expired_action_results c limit now s =
     (if limit < 1 \<or> 1000 < limit
      then raise_in s (Value_error ''limit must be between 1 and 1000'')
      else
        let expired = take (nat limit) (sort_key
              (\<lambda>(k, j). (case aj_result_expires_at j of None \<Rightarrow> (0, 0) | Some t \<Rightarrow> iso_key t, aj_id j))
              (filter (result_expired (scope_of c) now) (action_jobs s)))
        in return_in (s\<lparr>action_jobs := fold (\<lambda>(k, j). dput k (j\<lparr>aj_result := None\<rparr>)) expired
                          (action_jobs s)\<rparr>) (length expired))"

end
