(* ===== verification/Durable_Previews.thy ===== *)
theory Durable_Previews
  imports Action_Jobs
begin

text \<open>
  Preview workspaces and shadow runs (\<open>control_plane/durable_memory.py\<close>: \<open>create_preview\<close> to
  \<open>cleanup_expired_previews\<close>): quota-bounded previews, staleness by fingerprint and shadow runs
  that may never hold production authority.
\<close>

definition active_previews :: "scope \<Rightarrow> store \<Rightarrow> nat" where
  "active_previews sc s = dcount (\<lambda>k p. key_scope k = sc \<and> pv_cleaned_at p = None) (previews s)"

definition create_preview :: "ctx \<Rightarrow> preview \<Rightarrow> instant \<Rightarrow> store \<Rightarrow> (store, preview) outcome" where
  "create_preview c p now s =
     (if (pv_tenant p, pv_workspace p) \<noteq> scope_of c \<or> pv_quota p < 1
      then raise_in s (Forbidden ''Preview must be scoped and have a positive quota'')
      else if pv_base_revision p = pv_candidate_revision p
      then raise_in s (Value_error ''Preview candidate must differ from base revision'')
      else if pv_expires_at p \<le> now
      then raise_in s (Value_error ''Preview expiry must be in the future'')
      else
        let k = mk_key (scope_of c) (pv_id p) in
        case dget (previews s) k of
          Some old \<Rightarrow>
            (if old = p then return_in s old
             else raise_in s (Conflict ''Preview id already exists with different inputs''))
        | None \<Rightarrow>
            (if pv_quota p \<le> int (active_previews (scope_of c) s)
             then raise_in s (Conflict ''Preview workspace quota exceeded'')
             else return_in (s\<lparr>previews := dput k p (previews s)\<rparr>) p))"

fun join_comma :: "string list \<Rightarrow> string" where
  "join_comma [] = []"
| "join_comma [x] = x"
| "join_comma (x # y # xs) = x @ '','' @ join_comma (y # xs)"

definition stale_reasons ::
  "string option \<Rightarrow> string option \<Rightarrow> string option \<Rightarrow> string option \<Rightarrow> preview \<Rightarrow> string list" where
  "stale_reasons code plan policy env p =
     (if code \<noteq> None \<and> code \<noteq> Some (pv_code_fingerprint p) then [''code_fingerprint''] else [])
     @ (if plan \<noteq> None \<and> plan \<noteq> Some (pv_plan_fingerprint p) then [''plan_fingerprint''] else [])
     @ (if policy \<noteq> None \<and> policy \<noteq> pv_policy_fingerprint p then [''policy_fingerprint''] else [])
     @ (if env \<noteq> None \<and> env \<noteq> pv_environment_fingerprint p
        then [''environment_fingerprint''] else [])"

definition mark_preview_stale ::
  "ctx \<Rightarrow> string \<Rightarrow> string option \<Rightarrow> string option \<Rightarrow> string option \<Rightarrow> string option \<Rightarrow> store \<Rightarrow>
   (store, preview) outcome" where
  "mark_preview_stale c pid code plan policy env s =
     (let k = mk_key (scope_of c) pid in
      case dget (previews s) k of
        None \<Rightarrow> raise_in s (Not_found ''Preview not found'')
      | Some p \<Rightarrow>
          (let reasons = stale_reasons code plan policy env p in
           if reasons = [] then return_in s p
           else let p' = p\<lparr>pv_stale := True, pv_stale_reason := Some (join_comma reasons)\<rparr>
                in return_in (s\<lparr>previews := dput k p' (previews s)\<rparr>) p'))"

definition record_preview_diff :: "ctx \<Rightarrow> preview_diff \<Rightarrow> store \<Rightarrow> (store, preview_diff) outcome" where
  "record_preview_diff c d s =
     (if (df_tenant d, df_workspace d) \<noteq> scope_of c then raise_in s (Not_found ''Diff not found'')
      else if dget (previews s) (mk_key (scope_of c) (df_preview d)) = None
      then raise_in s (Not_found ''Preview not found'')
      else return_in (s\<lparr>diffs := dput (mk_key (scope_of c) (df_id d)) d (diffs s)\<rparr>) d)"

fun shadow_effect_error :: "scope \<Rightarrow> string list \<Rightarrow> store \<Rightarrow> cp_error option" where
  "shadow_effect_error sc [] s = None"
| "shadow_effect_error sc (i # is) s =
     (case dget (effects s) (mk_key sc i) of
        None \<Rightarrow> Some (Not_found ''Effect not found'')
      | Some e \<Rightarrow>
          (if ef_authoritative e then Some (Forbidden ''Shadow effects must be non-authoritative'')
           else shadow_effect_error sc is s))"

definition authorize_shadow_run :: "ctx \<Rightarrow> shadow \<Rightarrow> store \<Rightarrow> (store, shadow) outcome" where
  "authorize_shadow_run c sh s =
     (if (sh_tenant sh, sh_workspace sh) \<noteq> scope_of c
      then raise_in s (Not_found ''Shadow run not found'')
      else if sh_production sh
      then raise_in s (Forbidden ''Shadow runs cannot claim production authority'')
      else if blank (sh_authorized_by sh)
      then raise_in s (Value_error ''shadow run requires authorized_by'')
      else case dget (previews s) (mk_key (scope_of c) (sh_preview sh)) of
        None \<Rightarrow> raise_in s (Not_found ''Preview not found'')
      | Some p \<Rightarrow>
          (if pv_stale p then raise_in s (Conflict ''Stale preview cannot authorize shadow'')
           else if dget (submissions s) (mk_key (scope_of c) (sh_submission sh)) = None
           then raise_in s (Not_found ''Submission not found'')
           else case shadow_effect_error (scope_of c) (sh_effects sh) s of
             Some e \<Rightarrow> raise_in s e
           | None \<Rightarrow> return_in
               (s\<lparr>shadows := dput (mk_key (scope_of c) (sh_id sh)) sh (shadows s)\<rparr>) sh))"

definition preview_expired :: "scope \<Rightarrow> instant \<Rightarrow> key \<Rightarrow> preview \<Rightarrow> bool" where
  "preview_expired sc now k p \<longleftrightarrow>
     key_scope k = sc \<and> pv_cleaned_at p = None \<and> pv_expires_at p \<le> now"

definition cleanup_expired_previews :: "ctx \<Rightarrow> instant \<Rightarrow> store \<Rightarrow> (store, preview list) outcome" where
  "cleanup_expired_previews c now s =
     return_in
       (s\<lparr>previews := dmap (\<lambda>k p. if preview_expired (scope_of c) now k p
            then p\<lparr>pv_cleaned_at := Some now\<rparr> else p) (previews s)\<rparr>)
       (map (\<lambda>(k, p). p\<lparr>pv_cleaned_at := Some now\<rparr>)
          (filter (\<lambda>(k, p). preview_expired (scope_of c) now k p) (previews s)))"

end
