(* ===== verification/Durable_System.thy ===== *)
theory Durable_System
  imports Durable_Previews
begin

text \<open>
  The durable work store as one labelled transition system.  A \<open>call\<close> names a mutating method of
  \<open>MemoryDurableWorkStore\<close> with its arguments, the clock readings and the generated identifiers;
  \<open>run\<close> executes it.  Each method holds the store's lock from its first read to its last write, so
  the interleavings of concurrent callers are the sequences of calls.
\<close>

datatype work_call =
    Accept accept_request string string instant
  | Mark_published string instant
  | Reconcile_terminal int instant
  | Cancel string instant
  | Reconcile_cancelled int bool "string option" "string option" instant

datatype lease_call =
    Acquire_lease string string int instant
  | Heartbeat string string nat int instant
  | Release_lease string string nat instant
  | Start_attempt string string nat "(string, string option) pydict" string instant
  | Finish_attempt string string nat attempt_status instant
  | Record_publication publication string nat instant
  | Publish_result string string string instant

datatype state_call =
    Cas_checkpoint string "nat option" string string nat "string option" instant
  | Diagnose string diagnostic_kind string string instant
  | Acknowledge_baseline string string "nat option" "string option" string instant
  | Record_effect effect instant
  | Record_attempt_effect effect string string nat instant

datatype route_call =
    Reserve_route string string
  | Release_route string string
  | Release_reference string
  | Transition_route string int route_status instant

datatype dispatch_call =
    Prepare_dispatch string instant
  | Claim_dispatch string string int instant
  | Link_dispatch string string nat "string option" "string option" instant
  | Release_dispatch string string nat bool bool "string option" instant
  | Rearm_failed string "string option" "string option" instant instant
  | Rearm_missing string "string option" "string option" int instant instant
  | Rearm_reconciled string int "string option" "string option" string instant

datatype action_call =
    Accept_action string string string "instant option" string instant
  | Cancel_action string instant
  | Claim_action string int instant
  | Heartbeat_action string string nat int instant
  | Mark_accepting string string nat instant
  | Finish_action string string nat action_status "string option" "string option" "int option" instant
  | Cleanup_actions int instant

datatype preview_call =
    Create_preview preview instant
  | Mark_stale string "string option" "string option" "string option" "string option"
  | Record_diff preview_diff
  | Authorize_shadow shadow
  | Cleanup_previews instant

datatype call =
    Work work_call
  | Execute lease_call
  | State state_call
  | Route route_call
  | Dispatch dispatch_call
  | Act action_call
  | Preview preview_call

text \<open>The caller sees a result; the transition system keeps whether a call raised, and what.\<close>

definition erase :: "(store, 'a) outcome \<Rightarrow> cp_error option \<times> store" where
  "erase o1 = (case fst o1 of Inl e \<Rightarrow> Some e | Inr _ \<Rightarrow> None, snd o1)"

lemma snd_erase [simp]: "snd (erase o1) = snd o1"
  by (simp add: erase_def)

lemma erase_simps [simp]:
  "erase (raise_in s e) = (Some e, s)"
  "erase (return_in s x) = (None, s)"
  by (simp_all add: erase_def)

fun run_work :: "externals \<Rightarrow> ctx \<Rightarrow> work_call \<Rightarrow> store \<Rightarrow> cp_error option \<times> store" where
  "run_work ex c (Accept rq us uo now) s = erase (accept ex c rq us uo now s)"
| "run_work ex c (Mark_published oid now) s = erase (mark_published c oid now s)"
| "run_work ex c (Reconcile_terminal limit now) s = erase (reconcile_terminal_outbox c limit now s)"
| "run_work ex c (Cancel sid now) s = erase (cancel_submission c sid now s)"
| "run_work ex c (Reconcile_cancelled limit ack sid r now) s =
     erase (reconcile_cancelled_submissions c limit ack sid r now s)"

fun run_lease :: "externals \<Rightarrow> ctx \<Rightarrow> lease_call \<Rightarrow> store \<Rightarrow> cp_error option \<times> store" where
  "run_lease ex c (Acquire_lease sid owner ttl now) s = erase (acquire_lease c sid owner ttl now s)"
| "run_lease ex c (Heartbeat sid owner token ttl now) s = erase (heartbeat c sid owner token ttl now s)"
| "run_lease ex c (Release_lease sid owner token now) s = erase (release_lease c sid owner token now s)"
| "run_lease ex c (Start_attempt sid owner token cx uuid now) s =
     erase (start_attempt ex c sid owner token cx uuid now s)"
| "run_lease ex c (Finish_attempt aid owner token st now) s =
     erase (finish_attempt c aid owner token st now s)"
| "run_lease ex c (Record_publication r owner token now) s =
     erase (record_result_publication ex c r owner token now s)"
| "run_lease ex c (Publish_result sid aid sha now) s =
     erase (mark_result_publication_published c sid aid sha now s)"

fun run_state :: "externals \<Rightarrow> ctx \<Rightarrow> state_call \<Rightarrow> store \<Rightarrow> cp_error option \<times> store" where
  "run_state ex c (Cas_checkpoint cid expected v aid token base now) s =
     erase (compare_and_swap_checkpoint c cid expected v aid token base now s)"
| "run_state ex c (Diagnose cid kind detail uuid now) s =
     erase (diagnose_checkpoint ex c cid kind detail uuid now s)"
| "run_state ex c (Acknowledge_baseline bid obs expected sid uuid now) s =
     erase (acknowledge_baseline c bid obs expected sid uuid now s)"
| "run_state ex c (Record_effect e now) s = erase (record_effect ex c e now s)"
| "run_state ex c (Record_attempt_effect e aid owner token now) s =
     erase (record_attempt_effect ex c e aid owner token now s)"

fun run_route :: "externals \<Rightarrow> ctx \<Rightarrow> route_call \<Rightarrow> store \<Rightarrow> cp_error option \<times> store" where
  "run_route ex c (Reserve_route r i) s = erase (reserve_execution_route_reference r i s)"
| "run_route ex c (Release_route r i) s = erase (release_execution_route_reference r i s)"
| "run_route ex c (Release_reference i) s = erase (release_execution_route_reference_id i s)"
| "run_route ex c (Transition_route r expected st now) s =
     erase (transition_execution_route_state c r expected st now s)"

fun run_dispatch :: "externals \<Rightarrow> ctx \<Rightarrow> dispatch_call \<Rightarrow> store \<Rightarrow> cp_error option \<times> store" where
  "run_dispatch ex c (Prepare_dispatch sid now) s = erase (prepare_dispatch ex c sid now s)"
| "run_dispatch ex c (Claim_dispatch sid owner secs now) s = erase (claim_dispatch c sid owner secs now s)"
| "run_dispatch ex c (Link_dispatch sid owner token rem leg now) s =
     erase (link_dispatch c sid owner token rem leg now s)"
| "run_dispatch ex c (Release_dispatch sid owner token unc can code now) s =
     erase (release_dispatch c sid owner token unc can code now s)"
| "run_dispatch ex c (Rearm_failed sid rem leg current wall) s =
     erase (rearm_dispatch_after_remote_failure ex c sid rem leg current wall s)"
| "run_dispatch ex c (Rearm_missing sid rem leg age current wall) s =
     erase (rearm_dispatch_after_remote_missing ex c sid rem leg age current wall s)"
| "run_dispatch ex c (Rearm_reconciled sid expected rem leg evidence now) s =
     erase (rearm_reconciliation_required_dispatch ex c sid expected rem leg evidence now s)"

fun run_action :: "externals \<Rightarrow> ctx \<Rightarrow> action_call \<Rightarrow> store \<Rightarrow> cp_error option \<times> store" where
  "run_action ex c (Accept_action action idem request deadline uuid now) s =
     erase (accept_action_job ex c action idem request deadline uuid now s)"
| "run_action ex c (Cancel_action aid now) s = erase (cancel_action_job ex c aid now s)"
| "run_action ex c (Claim_action worker secs now) s = erase (claim_action_job c worker secs now s)"
| "run_action ex c (Heartbeat_action aid worker token secs now) s =
     erase (heartbeat_action_job c aid worker token secs now s)"
| "run_action ex c (Mark_accepting aid worker token now) s =
     erase (mark_action_job_accepting c aid worker token now s)"
| "run_action ex c (Finish_action aid worker token st result code ttl now) s =
     erase (finish_action_job ex c aid worker token st result code ttl now s)"
| "run_action ex c (Cleanup_actions limit now) s = erase (cleanup_expired_action_results c limit now s)"

fun run_preview :: "externals \<Rightarrow> ctx \<Rightarrow> preview_call \<Rightarrow> store \<Rightarrow> cp_error option \<times> store" where
  "run_preview ex c (Create_preview p now) s = erase (create_preview c p now s)"
| "run_preview ex c (Mark_stale pid code plan policy env) s =
     erase (mark_preview_stale c pid code plan policy env s)"
| "run_preview ex c (Record_diff d) s = erase (record_preview_diff c d s)"
| "run_preview ex c (Authorize_shadow sh) s = erase (authorize_shadow_run c sh s)"
| "run_preview ex c (Cleanup_previews now) s = erase (cleanup_expired_previews c now s)"

fun run :: "externals \<Rightarrow> ctx \<Rightarrow> call \<Rightarrow> store \<Rightarrow> cp_error option \<times> store" where
  "run ex c (Work w) s = run_work ex c w s"
| "run ex c (Execute w) s = run_lease ex c w s"
| "run ex c (State w) s = run_state ex c w s"
| "run ex c (Route w) s = run_route ex c w s"
| "run ex c (Dispatch w) s = run_dispatch ex c w s"
| "run ex c (Act w) s = run_action ex c w s"
| "run ex c (Preview w) s = run_preview ex c w s"

text \<open>
  What \<open>uuid4\<close> is relied on for: a generated identifier is not one the scope already uses.
\<close>

definition fresh_ids :: "scope \<Rightarrow> call \<Rightarrow> store \<Rightarrow> bool" where
  "fresh_ids sc op s \<longleftrightarrow>
     (case op of
        Work (Accept rq us uo now) \<Rightarrow>
          dget (submissions s) (mk_key sc us) = None \<and> dget (outboxes s) (mk_key sc uo) = None
      | Execute (Start_attempt sid owner token cx uuid now) \<Rightarrow>
          dget (attempts s) (mk_key sc uuid) = None
      | Act (Accept_action action idem request deadline uuid now) \<Rightarrow>
          dget (action_jobs s) (mk_key sc uuid) = None
      | _ \<Rightarrow> True)"

inductive store_step :: "externals \<Rightarrow> ctx \<Rightarrow> call \<Rightarrow> store \<Rightarrow> cp_error option \<Rightarrow> store \<Rightarrow> bool"
  for ex :: externals where
  step: "fresh_ids (scope_of c) op s \<Longrightarrow> run ex c op s = (e, s') \<Longrightarrow> store_step ex c op s e s'"

inductive_cases store_stepE: "store_step ex c op s e s'"
inductive_simps store_step_iff: "store_step ex c op s e s'"

text \<open>Histories of the store: any calls by any principals, in any order.\<close>

inductive moves :: "externals \<Rightarrow> store \<Rightarrow> store \<Rightarrow> bool" for ex :: externals where
  stay: "moves ex s s"
| go: "moves ex s s' \<Longrightarrow> store_step ex c op s' e s'' \<Longrightarrow> moves ex s s''"

definition reachable :: "externals \<Rightarrow> store \<Rightarrow> bool" where
  "reachable ex s \<longleftrightarrow> (\<exists>lim. moves ex (empty_store lim) s)"

lemma moves_trans: "moves ex s' s'' \<Longrightarrow> moves ex s s' \<Longrightarrow> moves ex s s''"
  by (induction rule: moves.induct) (auto intro: moves.intros)

lemma reachable_moves: "reachable ex s \<Longrightarrow> moves ex s s' \<Longrightarrow> reachable ex s'"
  unfolding reachable_def by (blast intro: moves_trans)

lemma reachable_step: "reachable ex s \<Longrightarrow> store_step ex c op s e s' \<Longrightarrow> reachable ex s'"
  by (blast intro: reachable_moves moves.intros)

lemma reachable_induct [consumes 1, case_names empty step]:
  assumes "reachable ex s"
    and "\<And>lim. P (empty_store lim)"
    and "\<And>c op s e s'. reachable ex s \<Longrightarrow> P s \<Longrightarrow> store_step ex c op s e s' \<Longrightarrow> P s'"
  shows "P s"
proof -
  obtain lim where "moves ex (empty_store lim) s" using assms(1) by (auto simp: reachable_def)
  then have "P s \<and> reachable ex s"
  proof (induction "empty_store lim" s rule: moves.induct)
    case stay
    show ?case using assms(2) by (auto simp: reachable_def intro: moves.stay)
  next
    case (go s' c op e s'')
    then show ?case using assms(3) reachable_step by blast
  qed
  then show ?thesis by simp
qed

text \<open>Schedules, executed: the store a list of calls leaves, and whether its identifiers are fresh.\<close>

fun run_all :: "externals \<Rightarrow> (ctx \<times> call) list \<Rightarrow> store \<Rightarrow> store" where
  "run_all ex [] s = s"
| "run_all ex ((c, op) # ops) s = run_all ex ops (snd (run ex c op s))"

fun fresh_all :: "externals \<Rightarrow> (ctx \<times> call) list \<Rightarrow> store \<Rightarrow> bool" where
  "fresh_all ex [] s \<longleftrightarrow> True"
| "fresh_all ex ((c, op) # ops) s \<longleftrightarrow>
     fresh_ids (scope_of c) op s \<and> fresh_all ex ops (snd (run ex c op s))"

lemma run_all_moves: "fresh_all ex ops s \<Longrightarrow> moves ex s (run_all ex ops s)"
proof (induction ops arbitrary: s)
  case Nil
  show ?case by (simp add: moves.stay)
next
  case (Cons x ops)
  obtain c op where x: "x = (c, op)" by (cases x)
  let ?s = "snd (run ex c op s)"
  have "store_step ex c op s (fst (run ex c op s)) ?s"
    using Cons.prems by (intro store_step.step) (simp_all add: x)
  then have "moves ex s ?s" by (rule moves.go[OF moves.stay])
  moreover have "moves ex ?s (run_all ex ops ?s)" using Cons by (simp add: x)
  ultimately have "moves ex s (run_all ex ops ?s)" using moves_trans by blast
  then show ?case by (simp add: x)
qed

lemma run_all_reachable: "fresh_all ex ops (empty_store lim) \<Longrightarrow> reachable ex (run_all ex ops (empty_store lim))"
  unfolding reachable_def using run_all_moves by blast

end
