(* ===== verification/Etl_Evolution.thy ===== *)
theory Etl_Evolution
  imports Etl_Prelude
begin

text \<open>
  How a table may change.  \<open>evolves own New R d d'\<close> says that \<open>d'\<close> is a later state of the table
  \<open>d\<close>: no row disappears, a row that changed belongs to \<open>own\<close> and is related by \<open>R\<close> to what it
  was, a row that appeared belongs to \<open>own\<close> and satisfies \<open>New\<close>, and keys stay unique.  With a
  preorder \<open>R\<close> the relation is a preorder, so one lemma for each operation gives the history of
  every row.
\<close>

fun row_evolves ::
  "('k \<Rightarrow> bool) \<Rightarrow> ('k \<Rightarrow> 'v \<Rightarrow> bool) \<Rightarrow> ('v \<Rightarrow> 'v \<Rightarrow> bool) \<Rightarrow>
   'k \<Rightarrow> 'v option \<Rightarrow> 'v option \<Rightarrow> bool" where
  "row_evolves own New R k None None \<longleftrightarrow> True"
| "row_evolves own New R k None (Some v) \<longleftrightarrow> own k \<and> New k v"
| "row_evolves own New R k (Some v) None \<longleftrightarrow> False"
| "row_evolves own New R k (Some v) (Some v') \<longleftrightarrow> v' = v \<or> own k \<and> R v v'"

definition evolves ::
  "('k \<Rightarrow> bool) \<Rightarrow> ('k \<Rightarrow> 'v \<Rightarrow> bool) \<Rightarrow> ('v \<Rightarrow> 'v \<Rightarrow> bool) \<Rightarrow>
   ('k, 'v) pydict \<Rightarrow> ('k, 'v) pydict \<Rightarrow> bool" where
  "evolves own New R d d' \<longleftrightarrow>
     (\<forall>k. row_evolves own New R k (dget d k) (dget d' k))
     \<and> (distinct (map fst d) \<longrightarrow> distinct (map fst d'))"

lemma row_evolves_refl [simp]: "row_evolves own New R k x x"
  by (cases x) simp_all

lemma row_evolves_trans:
  "row_evolves own New R k x y \<Longrightarrow> row_evolves own New R k y z \<Longrightarrow>
   (\<And>a b c. R a b \<Longrightarrow> R b c \<Longrightarrow> R a c) \<Longrightarrow> (\<And>k a b. New k a \<Longrightarrow> R a b \<Longrightarrow> New k b) \<Longrightarrow>
   row_evolves own New R k x z"
  by (cases x; cases y; cases z) auto

lemma evolves_row: "evolves own New R d d' \<Longrightarrow> row_evolves own New R k (dget d k) (dget d' k)"
  by (simp add: evolves_def)

lemma evolves_distinct:
  "evolves own New R d d' \<Longrightarrow> distinct (map fst d) \<Longrightarrow> distinct (map fst d')"
  by (simp add: evolves_def)

lemma evolves_refl [simp, intro]: "evolves own New R d d"
  by (simp add: evolves_def)

lemma evolves_dput:
  assumes "dget d k = None \<Longrightarrow> own k \<and> New k v"
    and "\<And>old. dget d k = Some old \<Longrightarrow> v = old \<or> own k \<and> R old v"
  shows "evolves own New R d (dput k v d)"
  using assms by (cases "dget d k") (auto simp: evolves_def distinct_dput)

lemma evolves_put_new:
  "dget d k = None \<Longrightarrow> own k \<Longrightarrow> New k v \<Longrightarrow> evolves own New R d (dput k v d)"
  by (auto intro: evolves_dput)

lemma evolves_put_old:
  "dget d k = Some old \<Longrightarrow> own k \<Longrightarrow> R old v \<Longrightarrow> evolves own New R d (dput k v d)"
  by (auto intro: evolves_dput)

lemma evolves_dmap:
  assumes "\<And>k v. dget d k = Some v \<Longrightarrow> f k v = v \<or> own k \<and> R v (f k v)"
  shows "evolves own New R d (dmap f d)"
proof -
  have "row_evolves own New R k (dget d k) (dget (dmap f d) k)" for k
    using assms[of k] by (cases "dget d k") auto
  then show ?thesis by (simp add: evolves_def)
qed

lemma evolves_dmap_if:
  assumes "\<And>k v. dget d k = Some v \<Longrightarrow> P k v \<Longrightarrow> own k \<and> R v (f k v)"
  shows "evolves own New R d (dmap (\<lambda>k v. if P k v then f k v else v) d)"
  by (rule evolves_dmap) (use assms in auto)

lemma evolves_trans:
  assumes "evolves own New R d d'" "evolves own New R d' d''"
    and "\<And>a b c. R a b \<Longrightarrow> R b c \<Longrightarrow> R a c"
    and "\<And>k a b. New k a \<Longrightarrow> R a b \<Longrightarrow> New k b"
  shows "evolves own New R d d''"
proof -
  have "row_evolves own New R k (dget d k) (dget d'' k)" for k
    by (rule row_evolves_trans[OF evolves_row[OF assms(1)] evolves_row[OF assms(2)]]) (fact assms)+
  with assms(1,2) show ?thesis by (simp add: evolves_def)
qed

lemma evolves_old:
  assumes "evolves own New R d d'" "dget d k = Some v"
  shows "\<exists>v'. dget d' k = Some v' \<and> (v' = v \<or> own k \<and> R v v')"
  using evolves_row[OF assms(1), of k] assms(2) by (cases "dget d' k") auto

lemma evolves_cases:
  assumes "evolves own New R d d'" "dget d' k = Some v'"
  obtains (same) "dget d k = Some v'"
    | (changed) v where "dget d k = Some v" "own k" "R v v'"
    | (new) "dget d k = None" "own k" "New k v'"
  using evolves_row[OF assms(1), of k] assms(2) by (cases "dget d k") auto

lemma evolves_foreign:
  assumes "evolves own New R d d'" "\<not> own k"
  shows "dget d' k = dget d k"
  using evolves_row[OF assms(1), of k] assms(2) by (cases "dget d k"; cases "dget d' k") auto

lemma evolves_mono:
  assumes "evolves own New R d d'"
    and "\<And>k. own k \<Longrightarrow> own' k" "\<And>k v. New k v \<Longrightarrow> New' k v" "\<And>a b. R a b \<Longrightarrow> R' a b"
  shows "evolves own' New' R' d d'"
proof -
  have "row_evolves own' New' R' k (dget d k) (dget d' k)" for k
    using evolves_row[OF assms(1), of k] assms(2-4)
    by (cases "dget d k"; cases "dget d' k") auto
  with assms(1) show ?thesis by (simp add: evolves_def)
qed

lemma evolves_all:
  assumes "evolves own New R d d'"
    and "\<And>k v. dget d k = Some v \<Longrightarrow> P k v"
    and "\<And>k v. New k v \<Longrightarrow> own k \<Longrightarrow> P k v"
    and "\<And>k a b. P k a \<Longrightarrow> R a b \<Longrightarrow> own k \<Longrightarrow> P k b"
    and "dget d' k = Some v"
  shows "P k v"
  using assms(1,5) by (rule evolves_cases) (auto intro: assms(2-4))

text \<open>
  A fenced claim, as a token and a holder: it changes by growing the token or by losing the holder.
\<close>

definition fence_le :: "nat \<times> 'o option \<Rightarrow> nat \<times> 'o option \<Rightarrow> bool" where
  "fence_le a b \<longleftrightarrow> fst a < fst b \<or> fst a = fst b \<and> (snd b = snd a \<or> snd b = None)"

lemma fence_le_refl [simp]: "fence_le a a"
  by (simp add: fence_le_def)

lemma fence_le_trans: "fence_le a b \<Longrightarrow> fence_le b c \<Longrightarrow> fence_le a c"
  by (auto simp: fence_le_def)

end
