(* ===== verification/Durable_Evolution.thy ===== *)
theory Durable_Evolution
  imports Durable_System Etl_Evolution
begin

text \<open>
  The history of each kind of row: a preorder that says what may become of a row once it is
  stored, the preorder \<open>store_evolves\<close> of whole stores built from them, and the lemma of each
  operation that it moves the store along that preorder inside its own scope.
\<close>

subsection \<open>Progress of a submission\<close>

instantiation submission_status :: order
begin

definition less_eq_submission_status :: "submission_status \<Rightarrow> submission_status \<Rightarrow> bool" where
  "less_eq_submission_status a b \<longleftrightarrow>
     a = b \<or> a = Accepted \<or> (a = Dispatched \<and> b \<noteq> Accepted) \<or> (a = Cancel_requested \<and> b = Cancelled)"

definition less_submission_status :: "submission_status \<Rightarrow> submission_status \<Rightarrow> bool" where
  "less_submission_status a b \<longleftrightarrow> a \<noteq> b \<and> (a = Accepted \<or> (a = Dispatched \<and> b \<noteq> Accepted)
     \<or> (a = Cancel_requested \<and> b = Cancelled))"

instance
proof
  fix x y z :: submission_status
  show "x < y \<longleftrightarrow> x \<le> y \<and> \<not> y \<le> x"
    by (cases x; cases y) (simp_all add: less_eq_submission_status_def less_submission_status_def)
  show "x \<le> x" by (simp add: less_eq_submission_status_def)
  show "x \<le> y \<Longrightarrow> y \<le> z \<Longrightarrow> x \<le> z" by (auto simp: less_eq_submission_status_def)
  show "x \<le> y \<Longrightarrow> y \<le> x \<Longrightarrow> x = y" by (auto simp: less_eq_submission_status_def)
qed

end

lemmas status_order = less_eq_submission_status_def less_submission_status_def

lemma terminal_max: "is_terminal a \<Longrightarrow> a \<le> b \<Longrightarrow> b = a"
  by (auto simp: status_order is_terminal_def)

subsection \<open>Row preorders\<close>

definition sub_identity :: "submission \<Rightarrow> submission" where
  "sub_identity su = su\<lparr>su_status := Accepted\<rparr>"

definition sub_le :: "submission \<Rightarrow> submission \<Rightarrow> bool" where
  "sub_le a b \<longleftrightarrow> sub_identity b = sub_identity a \<and> su_status a \<le> su_status b"

definition out_le :: "outbox \<Rightarrow> outbox \<Rightarrow> bool" where
  "out_le a b \<longleftrightarrow> b = a \<or> ob_published_at a = None \<and> (\<exists>t. b = publish_row t a)"

definition lease_le :: "lease \<Rightarrow> lease \<Rightarrow> bool" where
  "lease_le a b \<longleftrightarrow> le_submission b = le_submission a
     \<and> fence_le (le_token a, Some (le_owner a)) (le_token b, Some (le_owner b))"

definition at_identity :: "attempt \<Rightarrow> attempt" where
  "at_identity a = a\<lparr>at_status := A_lost, at_completed_at := None\<rparr>"

definition att_le :: "attempt \<Rightarrow> attempt \<Rightarrow> bool" where
  "att_le a b \<longleftrightarrow> b = a \<or> at_status a = A_running \<and> at_status b \<noteq> A_running
     \<and> at_identity b = at_identity a"

definition pub_le :: "publication \<Rightarrow> publication \<Rightarrow> bool" where
  "pub_le a b \<longleftrightarrow> (pb_tenant b, pb_workspace b, pb_submission b, pb_attempt b, pb_run b)
       = (pb_tenant a, pb_workspace a, pb_submission a, pb_attempt a, pb_run a)
     \<and> (pb_published_at a \<noteq> None \<longrightarrow>
          pb_sha256 b = pb_sha256 a \<and> pb_published_at b = pb_published_at a)"

definition ck_le :: "checkpoint \<Rightarrow> checkpoint \<Rightarrow> bool" where
  "ck_le a b \<longleftrightarrow> b = a \<or> (ck_version a < ck_version b \<and> ck_id b = ck_id a
     \<and> (ck_submission a \<noteq> None \<longrightarrow> ck_submission b = ck_submission a))"

definition ef_le :: "effect \<Rightarrow> effect \<Rightarrow> bool" where
  "ef_le a b \<longleftrightarrow> (ef_id b, ef_tenant b, ef_workspace b) = (ef_id a, ef_tenant a, ef_workspace a)
     \<and> (ef_status a = E_committed \<longrightarrow> ef_status b = E_committed
          \<and> ef_submission b = ef_submission a \<and> ef_authoritative b = ef_authoritative a)"

definition pv_identity :: "preview \<Rightarrow> preview" where
  "pv_identity p = p\<lparr>pv_cleaned_at := None, pv_stale := False, pv_stale_reason := None\<rparr>"

definition pv_le :: "preview \<Rightarrow> preview \<Rightarrow> bool" where
  "pv_le a b \<longleftrightarrow>
     pv_identity b = pv_identity a
     \<and> (pv_stale a \<longrightarrow> pv_stale b) \<and> (pv_cleaned_at a \<noteq> None \<longrightarrow> pv_cleaned_at b = pv_cleaned_at a)"

definition bl_le :: "baseline \<Rightarrow> baseline \<Rightarrow> bool" where
  "bl_le a b \<longleftrightarrow> b = a \<or> (bl_version a < bl_version b \<and> bl_baseline b = bl_baseline a)"

definition di_identity :: "dispatch \<Rightarrow> string \<times> string \<times> string \<times> string \<times> string \<times> instant" where
  "di_identity d = (di_submission d, di_route d, di_binding d, di_plan_fingerprint d,
     di_envelope_sha d, di_created_at d)"

definition created_remotely :: "dispatch \<Rightarrow> bool" where
  "created_remotely d \<longleftrightarrow> di_status d \<in> {D_dispatched, D_reconciliation_required, D_cancelled}"

text \<open>A holder and a deadline exactly while leased; a remote run exactly once the create is known.\<close>

definition di_ok :: "dispatch \<Rightarrow> bool" where
  "di_ok d \<longleftrightarrow>
     (di_owner d \<noteq> None \<longleftrightarrow> di_status d = D_leased) \<and> (di_expires_at d \<noteq> None \<longleftrightarrow> di_status d = D_leased)
     \<and> (di_status d \<in> {D_dispatched, D_reconciliation_required} \<longrightarrow> di_remote_run d \<noteq> None)
     \<and> (di_status d \<in> {D_pending, D_leased, D_uncertain} \<longrightarrow> di_remote_run d = None)
     \<and> 1 \<le> di_generation d"

definition di_le :: "dispatch \<Rightarrow> dispatch \<Rightarrow> bool" where
  "di_le a b \<longleftrightarrow>
     di_identity b = di_identity a
     \<and> fence_le (di_token a, di_owner a) (di_token b, di_owner b)
     \<and> (di_status a = D_cancelled \<longrightarrow> b = a)
     \<and> (di_generation a < di_generation b
        \<or> di_generation a = di_generation b
          \<and> (created_remotely a \<longrightarrow> created_remotely b \<and> di_remote_run b = di_remote_run a))
     \<and> (di_ok a \<longrightarrow> di_ok b)"

definition aj_identity :: "action_job \<Rightarrow> (string \<times> string \<times> string \<times> string option \<times> principal_kind)
    \<times> string \<times> string \<times> string \<times> string \<times> string \<times> string \<times> instant" where
  "aj_identity j = ((aj_id j, aj_owner j, aj_subject j, aj_issuer j, aj_kind j), aj_environment j,
     aj_domain j, aj_action j, aj_idempotency_key j, aj_fingerprint j, aj_request j, aj_created_at j)"

lemma aj_identity_action: "aj_identity b = aj_identity a \<Longrightarrow> aj_action b = aj_action a"
  by (simp add: aj_identity_def)

text \<open>A job that is closed for good: only a failed or expired provisioning may be queued again.\<close>

definition aj_closed :: "action_job \<Rightarrow> bool" where
  "aj_closed j \<longleftrightarrow> aj_status j \<in> {J_succeeded, J_cancelled}
     \<or> aj_status j \<in> {J_failed, J_timed_out}
       \<and> aj_action j \<notin> {''connector.provision'', ''connector.provision.cleanup''}"

lemma aj_closed_cong:
  "aj_identity b = aj_identity a \<Longrightarrow> aj_status b = aj_status a \<Longrightarrow> aj_closed b = aj_closed a"
  using aj_identity_action[of b a] by (simp add: aj_closed_def)

text \<open>A worker and a deadline exactly while claimed; a completion time exactly once closed.\<close>

definition aj_ok :: "action_job \<Rightarrow> bool" where
  "aj_ok j \<longleftrightarrow>
     (aj_worker j \<noteq> None \<longleftrightarrow> aj_status j \<in> {J_running, J_cancel_requested})
     \<and> (aj_expires_at j \<noteq> None \<longleftrightarrow> aj_status j \<in> {J_running, J_cancel_requested})
     \<and> (aj_status j \<in> {J_running, J_cancel_requested} \<longrightarrow> aj_started_at j \<noteq> None)
     \<and> (aj_completed_at j = None \<longleftrightarrow> aj_status j \<in> {J_queued, J_running, J_cancel_requested})"

definition aj_le :: "action_job \<Rightarrow> action_job \<Rightarrow> bool" where
  "aj_le a b \<longleftrightarrow>
     aj_identity b = aj_identity a
     \<and> fence_le (aj_token a, aj_worker a) (aj_token b, aj_worker b) \<and> aj_attempt a \<le> aj_attempt b
     \<and> (aj_closed a \<longrightarrow> aj_status b = aj_status a) \<and> (aj_ok a \<longrightarrow> aj_ok b)"

definition rt_le :: "route \<Rightarrow> route \<Rightarrow> bool" where
  "rt_le a b \<longleftrightarrow> b = a \<or> (ro_revision a < ro_revision b \<and> ro_route b = ro_route a
     \<and> ro_status a \<noteq> R_cleaned \<and> (ro_status a = R_cleanup_pending \<longrightarrow> ro_status b = R_cleaned))"

lemma sub_le_trans: "sub_le a b \<Longrightarrow> sub_le b c \<Longrightarrow> sub_le a c"
  by (auto simp: sub_le_def)

lemma out_le_trans: "out_le a b \<Longrightarrow> out_le b c \<Longrightarrow> out_le a c"
  by (auto simp: out_le_def publish_row_def)

lemma lease_le_trans: "lease_le a b \<Longrightarrow> lease_le b c \<Longrightarrow> lease_le a c"
  by (auto simp: lease_le_def intro: fence_le_trans)

lemma att_le_trans: "att_le a b \<Longrightarrow> att_le b c \<Longrightarrow> att_le a c"
  by (auto simp: att_le_def)

lemma pub_le_trans: "pub_le a b \<Longrightarrow> pub_le b c \<Longrightarrow> pub_le a c"
  by (auto simp: pub_le_def)

lemma ck_le_trans: "ck_le a b \<Longrightarrow> ck_le b c \<Longrightarrow> ck_le a c"
  by (auto simp: ck_le_def)

lemma ef_le_trans: "ef_le a b \<Longrightarrow> ef_le b c \<Longrightarrow> ef_le a c"
  by (auto simp: ef_le_def)

lemma pv_le_trans: "pv_le a b \<Longrightarrow> pv_le b c \<Longrightarrow> pv_le a c"
  by (auto simp: pv_le_def)

lemma bl_le_trans: "bl_le a b \<Longrightarrow> bl_le b c \<Longrightarrow> bl_le a c"
  by (auto simp: bl_le_def)

lemma di_le_trans: "di_le a b \<Longrightarrow> di_le b c \<Longrightarrow> di_le a c"
  unfolding di_le_def by (elim conjE, intro conjI) (auto intro: fence_le_trans)

lemma aj_le_trans: "aj_le a b \<Longrightarrow> aj_le b c \<Longrightarrow> aj_le a c"
  unfolding aj_le_def
  by (elim conjE, intro conjI) (auto intro: fence_le_trans simp: aj_closed_cong[of b a])

lemma rt_le_trans: "rt_le a b \<Longrightarrow> rt_le b c \<Longrightarrow> rt_le a c"
  by (auto simp: rt_le_def)

subsection \<open>Keys of rows\<close>

definition keyed_submission :: "key \<Rightarrow> submission \<Rightarrow> bool" where
  "keyed_submission k su \<longleftrightarrow> k = mk_key (su_tenant su, su_workspace su) (su_id su)"

definition keyed_outbox :: "key \<Rightarrow> outbox \<Rightarrow> bool" where
  "keyed_outbox k ob \<longleftrightarrow> key_id k = ob_id ob
     \<and> ob_deliveries ob = (if ob_published_at ob = None then 0 else 1)"

definition keyed_dispatch :: "key \<Rightarrow> dispatch \<Rightarrow> bool" where
  "keyed_dispatch k d \<longleftrightarrow> key_id k = di_submission d \<and> di_ok d"

definition keyed_lease :: "key \<Rightarrow> lease \<Rightarrow> bool" where
  "keyed_lease k l \<longleftrightarrow> key_id k = le_submission l"

definition keyed_attempt :: "key \<Rightarrow> attempt \<Rightarrow> bool" where
  "keyed_attempt k a \<longleftrightarrow> k = mk_key (at_tenant a, at_workspace a) (at_id a)"

definition keyed_publication :: "pub_key \<Rightarrow> publication \<Rightarrow> bool" where
  "keyed_publication k p \<longleftrightarrow> k = (pb_tenant p, pb_workspace p, pb_submission p, pb_attempt p)"

definition keyed_checkpoint :: "key \<Rightarrow> checkpoint \<Rightarrow> bool" where
  "keyed_checkpoint k c \<longleftrightarrow> key_id k = ck_id c"

definition keyed_effect :: "key \<Rightarrow> effect \<Rightarrow> bool" where
  "keyed_effect k e \<longleftrightarrow> k = mk_key (ef_tenant e, ef_workspace e) (ef_id e)"

definition keyed_preview :: "key \<Rightarrow> preview \<Rightarrow> bool" where
  "keyed_preview k p \<longleftrightarrow> k = mk_key (pv_tenant p, pv_workspace p) (pv_id p)"

definition keyed_baseline :: "key \<Rightarrow> baseline \<Rightarrow> bool" where
  "keyed_baseline k b \<longleftrightarrow> key_id k = bl_baseline b"

definition keyed_action :: "key \<Rightarrow> action_job \<Rightarrow> bool" where
  "keyed_action k j \<longleftrightarrow> key_id k = aj_id j \<and> aj_ok j"

definition shadow_only :: "key \<Rightarrow> shadow \<Rightarrow> bool" where
  "shadow_only k sh \<longleftrightarrow> \<not> sh_production sh"

lemmas keyed_defs = keyed_submission_def keyed_outbox_def keyed_dispatch_def keyed_lease_def
  keyed_attempt_def keyed_publication_def keyed_checkpoint_def keyed_effect_def keyed_preview_def
  keyed_baseline_def keyed_action_def shadow_only_def

lemma sub_identityD:
  assumes "sub_identity b = sub_identity a"
  shows "(su_id b, su_tenant b, su_workspace b, su_subject b, su_operation b, su_idempotency_key b)
    = (su_id a, su_tenant a, su_workspace a, su_subject a, su_operation a, su_idempotency_key a)"
    and "recorded_inputs b = recorded_inputs a" "su_run_id b = su_run_id a" "su_route b = su_route a"
    and "(su_issuer b, su_kind b) = (su_issuer a, su_kind a)" "su_created_at b = su_created_at a"
proof -
  have "\<And>f. f (sub_identity b) = f (sub_identity a)" using assms by simp
  from this[of "\<lambda>x. (su_id x, su_tenant x, su_workspace x, su_subject x, su_operation x,
      su_idempotency_key x)"] this[of recorded_inputs] this[of su_run_id] this[of su_route]
    this[of "\<lambda>x. (su_issuer x, su_kind x)"] this[of su_created_at]
  show "(su_id b, su_tenant b, su_workspace b, su_subject b, su_operation b, su_idempotency_key b)
    = (su_id a, su_tenant a, su_workspace a, su_subject a, su_operation a, su_idempotency_key a)"
    and "recorded_inputs b = recorded_inputs a" "su_run_id b = su_run_id a" "su_route b = su_route a"
    and "(su_issuer b, su_kind b) = (su_issuer a, su_kind a)" "su_created_at b = su_created_at a"
    by (simp_all add: sub_identity_def recorded_inputs_def)
qed

lemma at_identityD:
  assumes "at_identity b = at_identity a"
  shows "(at_id b, at_submission b, at_tenant b, at_workspace b)
      = (at_id a, at_submission a, at_tenant a, at_workspace a)"
    and "(at_owner b, at_token b) = (at_owner a, at_token a)"
proof -
  have "\<And>f. f (at_identity b) = f (at_identity a)" using assms by simp
  from this[of "\<lambda>x. (at_id x, at_submission x, at_tenant x, at_workspace x)"]
    this[of "\<lambda>x. (at_owner x, at_token x)"]
  show "(at_id b, at_submission b, at_tenant b, at_workspace b)
      = (at_id a, at_submission a, at_tenant a, at_workspace a)"
    and "(at_owner b, at_token b) = (at_owner a, at_token a)"
    by (simp_all add: at_identity_def)
qed

lemma pv_identityD:
  assumes "pv_identity b = pv_identity a"
  shows "(pv_id b, pv_tenant b, pv_workspace b) = (pv_id a, pv_tenant a, pv_workspace a)"
proof -
  have "\<And>f. f (pv_identity b) = f (pv_identity a)" using assms by simp
  from this[of "\<lambda>x. (pv_id x, pv_tenant x, pv_workspace x)"]
  show ?thesis by (simp add: pv_identity_def)
qed

lemma keyed_submission_stable: "keyed_submission k a \<Longrightarrow> sub_le a b \<Longrightarrow> keyed_submission k b"
  using sub_identityD(1)[of b a] by (simp add: keyed_submission_def sub_le_def)

lemma keyed_outbox_stable: "keyed_outbox k a \<Longrightarrow> out_le a b \<Longrightarrow> keyed_outbox k b"
  by (auto simp: keyed_outbox_def out_le_def publish_row_def)

lemma keyed_dispatch_stable: "keyed_dispatch k a \<Longrightarrow> di_le a b \<Longrightarrow> keyed_dispatch k b"
  by (simp add: keyed_dispatch_def di_le_def di_identity_def)

lemma keyed_lease_stable: "keyed_lease k a \<Longrightarrow> lease_le a b \<Longrightarrow> keyed_lease k b"
  by (simp add: keyed_lease_def lease_le_def)

lemma keyed_attempt_stable: "keyed_attempt k a \<Longrightarrow> att_le a b \<Longrightarrow> keyed_attempt k b"
  using at_identityD(1)[of b a] by (auto simp: keyed_attempt_def att_le_def)

lemma keyed_publication_stable: "keyed_publication k a \<Longrightarrow> pub_le a b \<Longrightarrow> keyed_publication k b"
  by (simp add: keyed_publication_def pub_le_def)

lemma keyed_checkpoint_stable: "keyed_checkpoint k a \<Longrightarrow> ck_le a b \<Longrightarrow> keyed_checkpoint k b"
  by (auto simp: keyed_checkpoint_def ck_le_def)

lemma keyed_effect_stable: "keyed_effect k a \<Longrightarrow> ef_le a b \<Longrightarrow> keyed_effect k b"
  by (simp add: keyed_effect_def ef_le_def)

lemma keyed_preview_stable: "keyed_preview k a \<Longrightarrow> pv_le a b \<Longrightarrow> keyed_preview k b"
  using pv_identityD[of b a] by (simp add: keyed_preview_def pv_le_def)

lemma keyed_baseline_stable: "keyed_baseline k a \<Longrightarrow> bl_le a b \<Longrightarrow> keyed_baseline k b"
  by (auto simp: keyed_baseline_def bl_le_def)

lemma keyed_action_stable: "keyed_action k a \<Longrightarrow> aj_le a b \<Longrightarrow> keyed_action k b"
  by (simp add: keyed_action_def aj_le_def aj_identity_def)

subsection \<open>Evolution of the store\<close>

abbreviation only_new :: "'k \<Rightarrow> 'v \<Rightarrow> bool" where
  "only_new \<equiv> \<lambda>_ _. True"

abbreviation never :: "'v \<Rightarrow> 'v \<Rightarrow> bool" where
  "never \<equiv> \<lambda>_ _. False"

definition idem_scope :: "idem_key \<Rightarrow> scope" where
  "idem_scope k = fst k"

fun action_scope :: "action_key \<Rightarrow> scope" where
  "action_scope (Action_key sc d e ow i kn su ac ik) = sc"
| "action_scope (Legacy_key sc i kn su ac ik) = sc"

definition store_evolves :: "(scope \<Rightarrow> bool) \<Rightarrow> store \<Rightarrow> store \<Rightarrow> bool" where
  "store_evolves own s s' \<longleftrightarrow>
     admission_limit s' = admission_limit s
     \<and> evolves (own \<circ> key_scope) keyed_submission sub_le (submissions s) (submissions s')
     \<and> evolves (own \<circ> key_scope) keyed_outbox out_le (outboxes s) (outboxes s')
     \<and> evolves (own \<circ> key_scope) keyed_dispatch di_le (dispatches s) (dispatches s')
     \<and> evolves (own \<circ> key_scope) keyed_lease lease_le (leases s) (leases s')
     \<and> evolves (own \<circ> key_scope) keyed_attempt att_le (attempts s) (attempts s')
     \<and> evolves (own \<circ> pub_scope) keyed_publication pub_le (publications s) (publications s')
     \<and> evolves (own \<circ> key_scope) keyed_checkpoint ck_le (checkpoints s) (checkpoints s')
     \<and> evolves (own \<circ> key_scope) keyed_effect ef_le (effects s) (effects s')
     \<and> evolves (own \<circ> key_scope) keyed_preview pv_le (previews s) (previews s')
     \<and> evolves (own \<circ> key_scope) (\<lambda>_ _. True) (\<lambda>_ _. True) (diffs s) (diffs s')
     \<and> evolves (own \<circ> key_scope) shadow_only (\<lambda>_ b. \<not> sh_production b) (shadows s) (shadows s')
     \<and> evolves (own \<circ> key_scope) keyed_baseline bl_le (baselines s) (baselines s')
     \<and> evolves (own \<circ> key_scope) keyed_action aj_le (action_jobs s) (action_jobs s')
     \<and> evolves (own \<circ> idem_scope) only_new never (idempotency s) (idempotency s')
     \<and> evolves (own \<circ> action_scope) only_new never (action_idempotency s) (action_idempotency s')
     \<and> evolves (\<lambda>_. True) (\<lambda>r x. ro_route x = r) rt_le (routes s) (routes s')
     \<and> (\<exists>new. diagnostics s' = diagnostics s @ new
          \<and> (\<forall>d \<in> set new. own (dg_tenant d, dg_workspace d)))"

lemma store_evolves_refl [simp, intro]: "store_evolves own s s"
  by (simp add: store_evolves_def)

lemma evolves_route_trans:
  "evolves (\<lambda>_. True) (\<lambda>r x. ro_route x = r) rt_le d d' \<Longrightarrow>
   evolves (\<lambda>_. True) (\<lambda>r x. ro_route x = r) rt_le d' d'' \<Longrightarrow>
   evolves (\<lambda>_. True) (\<lambda>r x. ro_route x = r) rt_le d d''"
  by (erule (1) evolves_trans) (auto intro: rt_le_trans simp: rt_le_def)

lemma store_evolves_trans:
  assumes "store_evolves own s s'" "store_evolves own s' s''"
  shows "store_evolves own s s''"
  unfolding store_evolves_def
proof (intro conjI)
  note e = assms[unfolded store_evolves_def]
  show "admission_limit s'' = admission_limit s" using e by simp
  show "evolves (own \<circ> key_scope) keyed_submission sub_le (submissions s) (submissions s'')"
    using e by (elim conjE) (erule (1) evolves_trans[OF _ _ sub_le_trans keyed_submission_stable])
  show "evolves (own \<circ> key_scope) keyed_outbox out_le (outboxes s) (outboxes s'')"
    using e by (elim conjE) (erule (1) evolves_trans[OF _ _ out_le_trans keyed_outbox_stable])
  show "evolves (own \<circ> key_scope) keyed_dispatch di_le (dispatches s) (dispatches s'')"
    using e by (elim conjE) (erule (1) evolves_trans[OF _ _ di_le_trans keyed_dispatch_stable])
  show "evolves (own \<circ> key_scope) keyed_lease lease_le (leases s) (leases s'')"
    using e by (elim conjE) (erule (1) evolves_trans[OF _ _ lease_le_trans keyed_lease_stable])
  show "evolves (own \<circ> key_scope) keyed_attempt att_le (attempts s) (attempts s'')"
    using e by (elim conjE) (erule (1) evolves_trans[OF _ _ att_le_trans keyed_attempt_stable])
  show "evolves (own \<circ> pub_scope) keyed_publication pub_le (publications s) (publications s'')"
    using e by (elim conjE) (erule (1) evolves_trans[OF _ _ pub_le_trans keyed_publication_stable])
  show "evolves (own \<circ> key_scope) keyed_checkpoint ck_le (checkpoints s) (checkpoints s'')"
    using e by (elim conjE) (erule (1) evolves_trans[OF _ _ ck_le_trans keyed_checkpoint_stable])
  show "evolves (own \<circ> key_scope) keyed_effect ef_le (effects s) (effects s'')"
    using e by (elim conjE) (erule (1) evolves_trans[OF _ _ ef_le_trans keyed_effect_stable])
  show "evolves (own \<circ> key_scope) keyed_preview pv_le (previews s) (previews s'')"
    using e by (elim conjE) (erule (1) evolves_trans[OF _ _ pv_le_trans keyed_preview_stable])
  show "evolves (own \<circ> key_scope) (\<lambda>_ _. True) (\<lambda>_ _. True) (diffs s) (diffs s'')"
    using e by (elim conjE) (erule (1) evolves_trans; simp add: shadow_only_def)
  show "evolves (own \<circ> key_scope) shadow_only (\<lambda>_ b. \<not> sh_production b) (shadows s) (shadows s'')"
    using e by (elim conjE) (erule (1) evolves_trans; simp add: shadow_only_def)
  show "evolves (own \<circ> key_scope) keyed_baseline bl_le (baselines s) (baselines s'')"
    using e by (elim conjE) (erule (1) evolves_trans[OF _ _ bl_le_trans keyed_baseline_stable])
  show "evolves (own \<circ> key_scope) keyed_action aj_le (action_jobs s) (action_jobs s'')"
    using e by (elim conjE) (erule (1) evolves_trans[OF _ _ aj_le_trans keyed_action_stable])
  show "evolves (own \<circ> idem_scope) only_new never (idempotency s) (idempotency s'')"
    using e by (elim conjE) (erule (1) evolves_trans; simp add: shadow_only_def)
  show "evolves (own \<circ> action_scope) only_new never (action_idempotency s) (action_idempotency s'')"
    using e by (elim conjE) (erule (1) evolves_trans; simp add: shadow_only_def)
  show "evolves (\<lambda>_. True) (\<lambda>r x. ro_route x = r) rt_le (routes s) (routes s'')"
    using e by (elim conjE) (erule (1) evolves_route_trans)
  show "\<exists>new. diagnostics s'' = diagnostics s @ new
          \<and> (\<forall>d \<in> set new. own (dg_tenant d, dg_workspace d))" using e by auto
qed

lemma store_evolves_update:
  "evolves (own \<circ> key_scope) keyed_submission sub_le (submissions s) t_submissions \<Longrightarrow> store_evolves own s (s\<lparr>submissions := t_submissions\<rparr>)"
  "evolves (own \<circ> key_scope) keyed_outbox out_le (outboxes s) t_outboxes \<Longrightarrow> store_evolves own s (s\<lparr>outboxes := t_outboxes\<rparr>)"
  "evolves (own \<circ> key_scope) keyed_dispatch di_le (dispatches s) t_dispatches \<Longrightarrow> store_evolves own s (s\<lparr>dispatches := t_dispatches\<rparr>)"
  "evolves (own \<circ> key_scope) keyed_lease lease_le (leases s) t_leases \<Longrightarrow> store_evolves own s (s\<lparr>leases := t_leases\<rparr>)"
  "evolves (own \<circ> key_scope) keyed_attempt att_le (attempts s) t_attempts \<Longrightarrow> store_evolves own s (s\<lparr>attempts := t_attempts\<rparr>)"
  "evolves (own \<circ> pub_scope) keyed_publication pub_le (publications s) t_publications \<Longrightarrow> store_evolves own s (s\<lparr>publications := t_publications\<rparr>)"
  "evolves (own \<circ> key_scope) keyed_checkpoint ck_le (checkpoints s) t_checkpoints \<Longrightarrow> store_evolves own s (s\<lparr>checkpoints := t_checkpoints\<rparr>)"
  "evolves (own \<circ> key_scope) keyed_effect ef_le (effects s) t_effects \<Longrightarrow> store_evolves own s (s\<lparr>effects := t_effects\<rparr>)"
  "evolves (own \<circ> key_scope) keyed_preview pv_le (previews s) t_previews \<Longrightarrow> store_evolves own s (s\<lparr>previews := t_previews\<rparr>)"
  "evolves (own \<circ> key_scope) (\<lambda>_ _. True) (\<lambda>_ _. True) (diffs s) t_diffs \<Longrightarrow> store_evolves own s (s\<lparr>diffs := t_diffs\<rparr>)"
  "evolves (own \<circ> key_scope) shadow_only (\<lambda>_ b. \<not> sh_production b) (shadows s) t_shadows \<Longrightarrow> store_evolves own s (s\<lparr>shadows := t_shadows\<rparr>)"
  "evolves (own \<circ> key_scope) keyed_baseline bl_le (baselines s) t_baselines \<Longrightarrow> store_evolves own s (s\<lparr>baselines := t_baselines\<rparr>)"
  "evolves (own \<circ> key_scope) keyed_action aj_le (action_jobs s) t_action_jobs \<Longrightarrow> store_evolves own s (s\<lparr>action_jobs := t_action_jobs\<rparr>)"
  "evolves (own \<circ> idem_scope) only_new never (idempotency s) t_idempotency \<Longrightarrow> store_evolves own s (s\<lparr>idempotency := t_idempotency\<rparr>)"
  "evolves (own \<circ> action_scope) only_new never (action_idempotency s) t_action_idempotency \<Longrightarrow> store_evolves own s (s\<lparr>action_idempotency := t_action_idempotency\<rparr>)"
  "evolves (\<lambda>_. True) (\<lambda>r x. ro_route x = r) rt_le (routes s) t_routes \<Longrightarrow> store_evolves own s (s\<lparr>routes := t_routes\<rparr>)"
  "store_evolves own s (s\<lparr>route_refs := refs\<rparr>)"
  by (simp_all add: store_evolves_def)

text \<open>Keys are unique and agree with the rows they lead to.\<close>

definition table_ok :: "('k \<Rightarrow> 'v \<Rightarrow> bool) \<Rightarrow> ('k, 'v) pydict \<Rightarrow> bool" where
  "table_ok K d \<longleftrightarrow> distinct (map fst d) \<and> (\<forall>k v. dget d k = Some v \<longrightarrow> K k v)"

lemma table_ok_Nil [simp]: "table_ok K []"
  by (simp add: table_ok_def)

lemma table_okD: "table_ok K d \<Longrightarrow> dget d k = Some v \<Longrightarrow> K k v"
  by (simp add: table_ok_def)

lemma table_ok_mem: "table_ok K d \<Longrightarrow> dget d k = Some v \<longleftrightarrow> (k, v) \<in> set d"
  by (simp add: table_ok_def dget_eq_iff_mem)

lemma table_ok_evolves:
  assumes "evolves own K R d d'" "table_ok K d"
    and "\<And>k a b. K k a \<Longrightarrow> R a b \<Longrightarrow> K k b"
  shows "table_ok K d'"
proof -
  have "K k v" if "dget d' k = Some v" for k v
    by (rule evolves_all[OF assms(1) _ _ _ that])
      (use assms(2,3) in \<open>auto simp: table_ok_def\<close>)
  with assms(1,2) show ?thesis by (auto simp: table_ok_def dest: evolves_distinct)
qed

definition tables_ok :: "store \<Rightarrow> bool" where
  "tables_ok s \<longleftrightarrow>
     table_ok keyed_submission (submissions s) \<and> table_ok keyed_outbox (outboxes s)
     \<and> table_ok keyed_dispatch (dispatches s) \<and> table_ok keyed_lease (leases s)
     \<and> table_ok keyed_attempt (attempts s) \<and> table_ok keyed_publication (publications s)
     \<and> table_ok keyed_checkpoint (checkpoints s) \<and> table_ok keyed_effect (effects s)
     \<and> table_ok keyed_preview (previews s) \<and> table_ok keyed_baseline (baselines s)
     \<and> table_ok keyed_action (action_jobs s) \<and> table_ok shadow_only (shadows s)
     \<and> table_ok (\<lambda>r x. ro_route x = r) (routes s)"

lemma tables_ok_empty: "tables_ok (empty_store lim)"
  by (simp add: tables_ok_def empty_store_def)

lemma tables_ok_evolves:
  assumes "store_evolves own s s'" "tables_ok s"
  shows "tables_ok s'"
  unfolding tables_ok_def
proof (intro conjI)
  note e = assms[unfolded tables_ok_def store_evolves_def]
  show "table_ok keyed_submission (submissions s')"
    using e by (elim conjE) (erule (1) table_ok_evolves[OF _ _ keyed_submission_stable])
  show "table_ok keyed_outbox (outboxes s')"
    using e by (elim conjE) (erule (1) table_ok_evolves[OF _ _ keyed_outbox_stable])
  show "table_ok keyed_dispatch (dispatches s')"
    using e by (elim conjE) (erule (1) table_ok_evolves[OF _ _ keyed_dispatch_stable])
  show "table_ok keyed_lease (leases s')"
    using e by (elim conjE) (erule (1) table_ok_evolves[OF _ _ keyed_lease_stable])
  show "table_ok keyed_attempt (attempts s')"
    using e by (elim conjE) (erule (1) table_ok_evolves[OF _ _ keyed_attempt_stable])
  show "table_ok keyed_publication (publications s')"
    using e by (elim conjE) (erule (1) table_ok_evolves[OF _ _ keyed_publication_stable])
  show "table_ok keyed_checkpoint (checkpoints s')"
    using e by (elim conjE) (erule (1) table_ok_evolves[OF _ _ keyed_checkpoint_stable])
  show "table_ok keyed_effect (effects s')"
    using e by (elim conjE) (erule (1) table_ok_evolves[OF _ _ keyed_effect_stable])
  show "table_ok keyed_preview (previews s')"
    using e by (elim conjE) (erule (1) table_ok_evolves[OF _ _ keyed_preview_stable])
  show "table_ok keyed_baseline (baselines s')"
    using e by (elim conjE) (erule (1) table_ok_evolves[OF _ _ keyed_baseline_stable])
  show "table_ok keyed_action (action_jobs s')"
    using e by (elim conjE) (erule (1) table_ok_evolves[OF _ _ keyed_action_stable])
  show "table_ok shadow_only (shadows s')"
    using e by (elim conjE) (erule (1) table_ok_evolves, simp add: shadow_only_def)
  show "table_ok (\<lambda>r x. ro_route x = r) (routes s')"
    using e by (elim conjE) (erule (1) table_ok_evolves, auto simp: rt_le_def)
qed

end
