(* ===== verification/Durable_Histories.thy ===== *)
theory Durable_Histories
  imports Durable_Evolution
begin

text \<open>
  Every operation of the store moves it along \<open>store_evolves\<close>, inside the scope of its caller.
\<close>

abbreviation within :: "ctx \<Rightarrow> scope \<Rightarrow> bool" where
  "within c \<equiv> \<lambda>sc. sc = scope_of c"

text \<open>Unfolds an operation whose branches either keep the store or update one table.\<close>

lemmas one_update = store_evolves_update evolves_dput evolves_put_old

lemma evolves_branch:
  "(b \<Longrightarrow> store_evolves own s (snd x)) \<Longrightarrow> (\<not> b \<Longrightarrow> store_evolves own s (snd y)) \<Longrightarrow>
   store_evolves own s (snd (if b then x else y))"
  by simp

subsection \<open>Admission and the outbox\<close>

lemma accept_store_evolves:
  assumes "dget (submissions s) (mk_key (scope_of c) sid) = None"
    and "dget (outboxes s) (mk_key (scope_of c) oid) = None"
    and "dget (idempotency s) (idem_of c (rq_operation rq) (rq_idempotency_key rq)) = None"
  shows "store_evolves (within c) s (accept_store ex c rq sid oid now s)"
  using assms
  by (auto simp: store_evolves_def accept_store_def keyed_submission_def keyed_outbox_def
      new_submission_def scope_of_def idem_scope_def idem_of_def intro!: evolves_put_new)

lemma accept_evolves:
  assumes "dget (submissions s) (mk_key (scope_of c) us) = None"
    and "dget (outboxes s) (mk_key (scope_of c) uo) = None"
  shows "store_evolves (within c) s (snd (accept ex c rq us uo now s))"
  using assms
  by (auto simp: accept_def accept_replay_def accept_new_def intro!: accept_store_evolves
      split: option.splits)

lemma publish_row_le: "ob_published_at ob = None \<Longrightarrow> out_le ob (publish_row now ob)"
  by (auto simp: out_le_def)

lemma sub_le_status: "su_status su \<le> st \<Longrightarrow> sub_le su (su\<lparr>su_status := st\<rparr>)"
  by (simp add: sub_le_def sub_identity_def)

lemma mark_published_evolves: "store_evolves (within c) s (snd (mark_published c oid now s))"
  by (auto simp: mark_published_def Let_def store_evolves_def status_order split: option.splits
      intro!: evolves_put_old publish_row_le sub_le_status)

lemma cancel_order: "\<not> is_terminal st \<Longrightarrow> st \<le> Cancel_requested"
  by (cases st) (simp_all add: status_order is_terminal_def)

lemma cancelled_order: "st = Cancel_requested \<Longrightarrow> st \<le> Cancelled"
  by (simp add: status_order)

lemma cancel_submission_evolves: "store_evolves (within c) s (snd (cancel_submission c sid now s))"
  by (auto simp: cancel_submission_def Let_def store_evolves_def cancel_order
      lease_le_def split: option.splits intro!: evolves_put_old sub_le_status)

lemma scan_distinct:
  "distinct (map fst d) \<Longrightarrow> distinct (map fst (sort_key f (filter P d)))"
  by (auto simp: distinct_map inj_on_def)

lemma reconcile_terminal_loop_evolves:
  assumes "distinct (map fst rows)"
    and "\<And>k row. (k, row) \<in> set rows \<Longrightarrow> dget (outboxes s) k = Some row
           \<and> ob_published_at row = None \<and> key_scope k = scope_of c"
  shows "store_evolves (within c) s (snd (reconcile_terminal_loop (scope_of c) now limit rows acc s))"
  using assms
proof (induction rows arbitrary: acc s)
  case (Cons kr rows)
  obtain k row where kr: "kr = (k, row)" by (cases kr)
  let ?s = "s\<lparr>outboxes := dput k (publish_row now row) (outboxes s)\<rparr>"
  have row: "dget (outboxes s) k = Some row" "ob_published_at row = None" "key_scope k = scope_of c"
    using Cons.prems(2)[of k row] kr by simp_all
  have rest: "dget (outboxes s) k' = Some row' \<and> ob_published_at row' = None
      \<and> key_scope k' = scope_of c" if "(k', row') \<in> set rows" for k' row'
    using Cons.prems(2)[of k' row'] that by simp
  have keep: "store_evolves (within c) s (snd (reconcile_terminal_loop (scope_of c) now limit rows acc' s))"
    for acc' using Cons.prems(1) rest by (intro Cons.IH) simp_all
  have one: "store_evolves (within c) s ?s"
    using row by (auto intro!: store_evolves_update evolves_put_old publish_row_le)
  have "k \<noteq> k'" if "(k', row') \<in> set rows" for k' row'
    using Cons.prems(1) kr that by force
  then have "store_evolves (within c) ?s
      (snd (reconcile_terminal_loop (scope_of c) now limit rows acc' ?s))" for acc'
    using Cons.prems(1) rest by (intro Cons.IH) fastforce+
  then show ?case using keep store_evolves_trans[OF one] kr by (auto split: option.splits)
qed simp

lemma scan_rows:
  assumes "table_ok K d" "(k, row) \<in> set (sort_key f (filter P d))"
  shows "dget d k = Some row \<and> P (k, row) \<and> K k row"
  using assms table_ok_mem[OF assms(1)] table_okD[OF assms(1)] by auto

lemma reconcile_terminal_outbox_evolves:
  assumes "tables_ok s"
  shows "store_evolves (within c) s (snd (reconcile_terminal_outbox c limit now s))"
proof -
  let ?f = "\<lambda>(k, row). (iso_key (ob_created_at row), ob_id row)"
  let ?P = "\<lambda>(k, row). key_scope k = scope_of c \<and> ob_published_at row = None"
  have ok: "table_ok keyed_outbox (outboxes s)" using assms by (simp add: tables_ok_def)
  have "store_evolves (within c) s (snd (reconcile_terminal_loop (scope_of c) now limit
      (sort_key ?f (filter ?P (outboxes s))) [] s))"
  proof (rule reconcile_terminal_loop_evolves)
    show "distinct (map fst (sort_key ?f (filter ?P (outboxes s))))"
      using ok by (intro scan_distinct) (simp add: table_ok_def)
  next
    fix k row
    assume "(k, row) \<in> set (sort_key ?f (filter ?P (outboxes s)))"
    from scan_rows[OF ok this] show "dget (outboxes s) k = Some row \<and> ob_published_at row = None
        \<and> key_scope k = scope_of c" by simp
  qed
  then show ?thesis by (simp add: reconcile_terminal_outbox_def Let_def case_prod_unfold)
qed

subsection \<open>Cancellation\<close>

lemma lose_running_evolves: "sc = scope_of c \<Longrightarrow> store_evolves (within c) s (lose_running sc sid now s)"
  by (auto simp: lose_running_def running_for_def att_le_def at_identity_def
      intro!: store_evolves_update evolves_dmap_if)

lemma record_unknown_effect_evolves:
  assumes "tables_ok s"
  shows "store_evolves (within c) s (record_unknown_effect c sid now s)"
proof (cases "dget (effects s) (mk_key (scope_of c) (execution_effect_id sid))")
  case None
  then show ?thesis
    by (auto simp: record_unknown_effect_def Let_def keyed_effect_def scope_of_eq
        intro!: store_evolves_update evolves_put_new)
next
  case (Some e)
  have "keyed_effect (mk_key (scope_of c) (execution_effect_id sid)) e"
    using assms Some by (auto simp: tables_ok_def dest: table_okD)
  with Some show ?thesis
    by (auto simp: record_unknown_effect_def Let_def keyed_effect_def ef_le_def scope_of_eq
        intro!: store_evolves_update evolves_put_old)
qed

lemma ack_submission_outbox_evolves:
  "store_evolves (within c) s (ack_submission_outbox c sid now s)"
  by (auto simp: ack_submission_outbox_def publish_row_le intro!: store_evolves_update evolves_dmap_if)

lemma cancel_dispatch_row_evolves:
  "key_scope k = scope_of c \<Longrightarrow> store_evolves (within c) s (cancel_dispatch_row now k s)"
  by (auto simp: cancel_dispatch_row_def di_le_def di_identity_def created_remotely_def di_ok_def
      split: option.splits intro!: store_evolves_update evolves_put_old)

lemma cancel_frames [frame_simps]:
  "submissions (lose_running sc sid now s) = submissions s"
  "leases (lose_running sc sid now s) = leases s"
  "effects (lose_running sc sid now s) = effects s"
  "submissions (record_unknown_effect c sid now s) = submissions s"
  "leases (record_unknown_effect c sid now s) = leases s"
  "attempts (record_unknown_effect c sid now s) = attempts s"
  "submissions (cancel_dispatch_row now k s) = submissions s"
  "leases (cancel_dispatch_row now k s) = leases s"
  "attempts (cancel_dispatch_row now k s) = attempts s"
  "submissions (ack_submission_outbox c sid now s) = submissions s"
  "leases (ack_submission_outbox c sid now s) = leases s"
  "attempts (ack_submission_outbox c sid now s) = attempts s"
  by (simp_all add: lose_running_def record_unknown_effect_def cancel_dispatch_row_def
      ack_submission_outbox_def Let_def split: option.splits)

lemma finalize_cancel_submissions [frame_simps]:
  "submissions (finalize_cancel c now ack k su s)
     = dput k (su\<lparr>su_status := Cancelled\<rparr>) (submissions s)"
  by (simp add: finalize_cancel_def Let_def frame_simps)

lemma finalize_cancel_evolves:
  assumes "tables_ok s" "dget (submissions s) k = Some su" "key_scope k = scope_of c"
    and "su_status su = Cancel_requested"
  shows "store_evolves (within c) s (finalize_cancel c now ack k su s)"
proof -
  define s1 where "s1 = lose_running (scope_of c) (su_id su) now s"
  define s2 where "s2 = (if has_running (scope_of c) (su_id su) s
    then record_unknown_effect c (su_id su) now s1 else s1)"
  define s3 where "s3 = s2\<lparr>submissions := dput k (su\<lparr>su_status := Cancelled\<rparr>) (submissions s2)\<rparr>"
  define s4 where "s4 = cancel_dispatch_row now k s3"
  have 1: "store_evolves (within c) s s1" by (simp add: s1_def lose_running_evolves)
  then have "tables_ok s1" using assms(1) by (rule tables_ok_evolves)
  then have 2: "store_evolves (within c) s1 s2"
    by (simp add: s2_def record_unknown_effect_evolves)
  have "submissions s2 = submissions s" by (simp add: s2_def s1_def frame_simps)
  then have 3: "store_evolves (within c) s2 s3" using assms
    by (auto simp: s3_def status_order intro!: store_evolves_update evolves_put_old sub_le_status)
  have 4: "store_evolves (within c) s3 s4" by (simp add: s4_def cancel_dispatch_row_evolves assms)
  have "finalize_cancel c now ack k su s
      = (if ack then ack_submission_outbox c (su_id su) now s4 else s4)"
    by (simp add: finalize_cancel_def Let_def s1_def s2_def s3_def s4_def)
  moreover have "store_evolves (within c) s s4"
    using 1 2 3 4 store_evolves_trans by blast
  ultimately show ?thesis
    using store_evolves_trans ack_submission_outbox_evolves by auto
qed

text \<open>The candidates of a pass are current until the pass reaches them.\<close>

definition cancel_candidates :: "ctx \<Rightarrow> (key \<times> submission) list \<Rightarrow> store \<Rightarrow> bool" where
  "cancel_candidates c rows s \<longleftrightarrow> distinct (map fst rows)
     \<and> (\<forall>(k, su) \<in> set rows. dget (submissions s) k = Some su \<and> su_status su = Cancel_requested
          \<and> key_scope k = scope_of c)"

lemma cancel_candidates_Cons:
  assumes "cancel_candidates c ((k, su) # rest) s"
  shows "dget (submissions s) k = Some su" "su_status su = Cancel_requested" "key_scope k = scope_of c"
    and "cancel_candidates c rest s" "cancel_candidates c rest (finalize_cancel c now ack k su s)"
proof -
  have "k' \<noteq> k" if "(k', su') \<in> set rest" for k' su'
    using assms that by (force simp: cancel_candidates_def)
  then show "dget (submissions s) k = Some su" "su_status su = Cancel_requested" "key_scope k = scope_of c"
    and "cancel_candidates c rest s" "cancel_candidates c rest (finalize_cancel c now ack k su s)"
    using assms by (auto simp: cancel_candidates_def frame_simps)
qed

text \<open>What every finalisation keeps, the whole pass keeps.\<close>

lemma reconcile_cancelled_loop_induct:
  assumes "cancel_candidates c rows s" "P s"
    and "\<And>s k su. P s \<Longrightarrow> dget (submissions s) k = Some su \<Longrightarrow> su_status su = Cancel_requested \<Longrightarrow>
          key_scope k = scope_of c \<Longrightarrow> \<not> cancel_skipped now k s \<Longrightarrow> P (finalize_cancel c now ack k su s)"
  shows "P (snd (reconcile_cancelled_loop c now limit ack rows acc s))"
  using assms(1,2)
proof (induction rows arbitrary: acc s)
  case (Cons r rows)
  obtain k su where r: "r = (k, su)" by (cases r)
  note c = cancel_candidates_Cons[OF Cons.prems(1)[unfolded r]]
  show ?case
    using Cons.prems(2) c Cons.IH assms(3) by (simp add: r)
qed simp

lemma reconcile_cancelled_candidates:
  assumes "tables_ok s"
  shows "cancel_candidates c (sort_key f (filter (\<lambda>(k, su). key_scope k = scope_of c
      \<and> su_status su = Cancel_requested \<and> Q k su) (submissions s))) s"
proof -
  have "table_ok keyed_submission (submissions s)" using assms by (simp add: tables_ok_def)
  then show ?thesis
    using scan_distinct[of "submissions s" f]
    by (auto simp: cancel_candidates_def table_ok_mem) (simp add: table_ok_def)
qed

lemma reconcile_cancelled_induct:
  assumes "tables_ok s" "P s"
    and "\<And>s k su. P s \<Longrightarrow> dget (submissions s) k = Some su \<Longrightarrow> su_status su = Cancel_requested \<Longrightarrow>
          key_scope k = scope_of c \<Longrightarrow> \<not> cancel_skipped now k s \<Longrightarrow> P (finalize_cancel c now ack k su s)"
  shows "P (snd (reconcile_cancelled_submissions c limit ack sid r now s))"
proof -
  let ?f = "\<lambda>(k, su). (iso_key (su_created_at su), su_id su)"
  let ?Q = "\<lambda>k su. (case sid of None \<Rightarrow> True | Some i \<Rightarrow> su_id su = i)
      \<and> (case r of None \<Rightarrow> True | Some x \<Rightarrow> su_route su = x)"
  have "P (snd (reconcile_cancelled_loop c now limit ack (sort_key ?f (filter (\<lambda>(k, su).
      key_scope k = scope_of c \<and> su_status su = Cancel_requested \<and> ?Q k su) (submissions s))) [] s))"
    by (rule reconcile_cancelled_loop_induct[OF reconcile_cancelled_candidates])
      (use assms in auto)
  then show ?thesis
    using assms(2)
    by (simp add: reconcile_cancelled_submissions_def Let_def case_prod_unfold)
qed

lemma reconcile_cancelled_evolves:
  assumes "tables_ok s"
  shows "store_evolves (within c) s (snd (reconcile_cancelled_submissions c limit ack sid r now s))"
proof -
  have "store_evolves (within c) s s' \<and> tables_ok s'"
    if "s' = snd (reconcile_cancelled_submissions c limit ack sid r now s)" for s'
    unfolding that
    by (rule reconcile_cancelled_induct[OF assms])
      (use assms finalize_cancel_evolves store_evolves_trans tables_ok_evolves in blast)+
  then show ?thesis by blast
qed

subsection \<open>Leases and attempts\<close>

lemma fence_same: "fence_le (t, Some ow) (t', Some ow') \<longleftrightarrow> t < t' \<or> t = t' \<and> ow' = ow"
  by (auto simp: fence_le_def)

lemma acquire_lease_evolves:
  assumes "tables_ok s"
  shows "store_evolves (within c) s (snd (acquire_lease c sid owner ttl now s))"
proof -
  have "dget (leases s) (mk_key (scope_of c) sid) = Some l \<Longrightarrow> le_submission l = sid" for l
    using assms by (auto simp: tables_ok_def keyed_lease_def dest: table_okD)
  then show ?thesis
    by (auto simp: acquire_lease_def Let_def keyed_lease_def lease_le_def fence_same
        split: option.splits if_splits intro!: store_evolves_update evolves_dput)
qed

lemma require_leaseD:
  "require_lease k owner token now s = Inr l \<Longrightarrow>
   dget (leases s) k = Some l \<and> le_owner l = owner \<and> le_token l = token \<and> now < le_expires_at l"
  by (auto simp: require_lease_def split: option.splits if_splits)

lemma heartbeat_evolves: "store_evolves (within c) s (snd (heartbeat c sid owner token ttl now s))"
  by (auto simp: heartbeat_def Let_def lease_le_def split: option.splits sum.splits
      dest!: require_leaseD intro!: store_evolves_update evolves_put_old)

lemma release_lease_evolves: "store_evolves (within c) s (snd (release_lease c sid owner token now s))"
  by (auto simp: release_lease_def Let_def lease_le_def split: sum.splits
      dest!: require_leaseD intro!: store_evolves_update evolves_put_old)

definition lost :: "instant \<Rightarrow> attempt \<Rightarrow> attempt" where
  "lost now a = a\<lparr>at_status := A_lost, at_completed_at := Some now\<rparr>"

lemma lost_le: "at_status a = A_running \<Longrightarrow> att_le a (lost now a)"
  by (simp add: att_le_def at_identity_def lost_def)

lemma running_for_lost [simp]: "\<not> running_for sc sid k (lost now a)"
  by (simp add: running_for_def lost_def)

lemma supersede_loop_evolves:
  assumes "distinct (map fst rows)" "\<And>k a. (k, a) \<in> set rows \<Longrightarrow> dget d k = Some a"
  shows "evolves ((\<lambda>sc'. sc' = sc) \<circ> key_scope) (\<lambda>_ _. False) att_le d
    (snd (supersede_loop sc sid token now rows d))"
  using assms
proof (induction rows arbitrary: d)
  case (Cons r rows)
  obtain k a where r: "r = (k, a)" by (cases r)
  let ?E = "evolves ((\<lambda>sc'. sc' = sc) \<circ> key_scope) (\<lambda>_ _. False) att_le"
  have k: "dget d k = Some a" using Cons.prems(2)[of k a] r by simp
  have rest: "dget d k' = Some a'" if "(k', a') \<in> set rows" for k' a'
    using Cons.prems(2)[of k' a'] that by simp
  have "k' \<noteq> k" if "(k', a') \<in> set rows" for k' a' using Cons.prems(1) r that by force
  then have later: "?E (dput k (lost now a) d)
      (snd (supersede_loop sc sid token now rows (dput k (lost now a) d)))"
    using Cons.prems(1) rest by (intro Cons.IH) fastforce+
  show ?case
  proof (cases "running_for sc sid k a \<and> at_token a < token")
    case True
    then have "?E d (dput k (lost now a) d)"
      using k by (intro evolves_put_old) (auto simp: running_for_def lost_le)
    then have "?E d (snd (supersede_loop sc sid token now rows (dput k (lost now a) d)))"
      using later by (rule evolves_trans) (auto intro: att_le_trans)
    with True show ?thesis by (simp add: r lost_def comp_def)
  next
    case False
    then show ?thesis using Cons.IH[of d] Cons.prems(1) rest by (auto simp: r)
  qed
qed simp

text \<open>A supersession that completes has lost exactly the running attempts, all of them older.\<close>

lemma supersede_loop_older:
  "supersede_loop sc sid token now rows d = (None, d') \<Longrightarrow> (k, a) \<in> set rows \<Longrightarrow>
   running_for sc sid k a \<Longrightarrow> at_token a < token"
  by (induction rows arbitrary: d) (auto split: if_splits)

lemma supersede_loop_done:
  assumes "supersede_loop sc sid token now rows d = (None, d')"
    and "distinct (map fst rows)" "\<And>k a. (k, a) \<in> set rows \<Longrightarrow> dget d k = Some a"
  shows "dget d' k = map_option
    (\<lambda>a. if (k, a) \<in> set rows \<and> running_for sc sid k a then lost now a else a) (dget d k)"
  using assms
proof (induction rows arbitrary: d)
  case Nil
  then show ?case by (cases "dget d k") auto
next
  case (Cons r rows)
  obtain k0 a0 where r: "r = (k0, a0)" by (cases r)
  have other: "k' \<noteq> k0" if "(k', a') \<in> set rows" for k' a'
    using Cons.prems(2) r that by force
  have k0: "dget d k0 = Some a0" using Cons.prems(3)[of k0 a0] r by simp
  have rest: "dget d k' = Some a'" if "(k', a') \<in> set rows" for k' a'
    using Cons.prems(3)[of k' a'] that by simp
  have D: "distinct (map fst rows)" using Cons.prems(2) by simp
  show ?case
  proof (cases "running_for sc sid k0 a0")
    case True
    let ?d = "dput k0 (lost now a0) d"
    have "supersede_loop sc sid token now rows ?d = (None, d')"
      using True Cons.prems(1) by (simp add: r lost_def split: if_splits)
    moreover have "dget ?d k' = Some a'" if "(k', a') \<in> set rows" for k' a'
      using rest[OF that] other[OF that] by simp
    ultimately have "dget d' k = map_option (\<lambda>a. if (k, a) \<in> set rows \<and> running_for sc sid k a
        then lost now a else a) (dget ?d k)"
      using Cons.IH[OF _ D] by blast
    then show ?thesis using True k0 other by (cases "dget d k") (auto simp: r)
  next
    case False
    then have "supersede_loop sc sid token now rows d = (None, d')" using Cons.prems(1) by (simp add: r)
    from Cons.IH[OF this D rest] show ?thesis using False by (cases "dget d k") (auto simp: r)
  qed
qed

lemma supersede_none:
  assumes "\<And>k a. (k, a) \<in> set rows \<Longrightarrow> \<not> running_for sc sid k a"
  shows "supersede_loop sc sid token now rows d = (None, d)"
  using assms by (induction rows) force+

text \<open>With one running attempt at most, a supersession that is refused has changed nothing.\<close>

lemma supersede_loop_refused:
  assumes "supersede_loop sc sid token now rows d = (Some e, d')"
    and "distinct (map fst rows)"
    and "\<And>k a k' a'. (k, a) \<in> set rows \<Longrightarrow> (k', a') \<in> set rows \<Longrightarrow>
           running_for sc sid k a \<Longrightarrow> running_for sc sid k' a' \<Longrightarrow> k = k'"
  shows "d' = d"
  using assms
proof (induction rows)
  case (Cons r rows)
  obtain k a where r: "r = (k, a)" by (cases r)
  show ?case
  proof (cases "running_for sc sid k a")
    case True
    have "\<not> running_for sc sid k' a'" if m: "(k', a') \<in> set rows" for k' a'
    proof
      assume "running_for sc sid k' a'"
      then have "k = k'" using Cons.prems(3)[of k a k' a'] True m r by simp
      then show False using Cons.prems(2) m r by force
    qed
    then have "supersede_loop sc sid token now rows x = (None, x)" for x
      by (rule supersede_none)
    then show ?thesis using Cons.prems(1) True by (simp add: r split: if_splits)
  next
    case False
    have "k1 = k2" if "(k1, a1) \<in> set rows" "(k2, a2) \<in> set rows"
      "running_for sc sid k1 a1" "running_for sc sid k2 a2" for k1 a1 k2 a2
      using Cons.prems(3)[of k1 a1 k2 a2] that by simp
    then show ?thesis using Cons.IH Cons.prems(1,2) False by (simp add: r)
  qed
qed simp

lemma start_attempt_evolves:
  assumes "tables_ok s" "dget (attempts s) (mk_key (scope_of c) uuid) = None"
  shows "store_evolves (within c) s (snd (start_attempt ex c sid owner token cx uuid now s))"
proof -
  obtain r d where rd: "supersede_loop (scope_of c) sid token now (attempts s) (attempts s) = (r, d)"
    by (cases "supersede_loop (scope_of c) sid token now (attempts s) (attempts s)")
  have ok: "table_ok keyed_attempt (attempts s)" using assms by (simp add: tables_ok_def)
  have "evolves (within c \<circ> key_scope) (\<lambda>_ _. False) att_le (attempts s) d"
    using supersede_loop_evolves[of "attempts s" "attempts s" "scope_of c" sid token now] ok rd
    by (simp add: table_ok_def dget_eq_iff_mem)
  then have no: "evolves (within c \<circ> key_scope) (\<lambda>_ _. False) att_le (attempts s) d" .
  have "dget d (mk_key (scope_of c) uuid) = None"
    using evolves_row[OF no, of "mk_key (scope_of c) uuid"] assms(2)
    by (cases "dget d (mk_key (scope_of c) uuid)") simp_all
  then have 2: "keyed_attempt (mk_key (scope_of c) uuid) a \<Longrightarrow>
      evolves (within c \<circ> key_scope) keyed_attempt att_le d (dput (mk_key (scope_of c) uuid) a d)" for a
    by (intro evolves_put_new) simp_all
  have 1: "evolves (within c \<circ> key_scope) keyed_attempt att_le (attempts s) d"
    using no by (rule evolves_mono) simp_all
  have 3: "evolves (within c \<circ> key_scope) keyed_attempt att_le (attempts s)
        (dput (mk_key (scope_of c) uuid) a d)" if "keyed_attempt (mk_key (scope_of c) uuid) a" for a
    using 1 2[OF that] by (rule evolves_trans) (blast intro: att_le_trans keyed_attempt_stable)+
  show ?thesis
    using 1
    by (auto simp: start_attempt_def Let_def rd keyed_attempt_def scope_of_eq
        split: sum.splits option.splits intro!: store_evolves_update 3)
qed

lemma finish_attempt_evolves:
  assumes "\<And>a su. dget (attempts s) (mk_key (scope_of c) aid) = Some a \<Longrightarrow> at_status a = A_running \<Longrightarrow>
      dget (submissions s) (mk_key (scope_of c) (at_submission a)) = Some su \<Longrightarrow>
      \<not> is_terminal (su_status su)"
  shows "store_evolves (within c) s (snd (finish_attempt c aid owner token st now s))"
proof -
  have order: "\<not> is_terminal x \<Longrightarrow> x \<le> Cancelled"
    "\<not> is_terminal x \<Longrightarrow> x \<noteq> Cancel_requested \<Longrightarrow> x \<le> Completed \<and> x \<le> Failed" for x
    by (cases x; simp add: status_order is_terminal_def)+
  show ?thesis
    using assms order
    by (auto simp: finish_attempt_def Let_def store_evolves_def att_le_def at_identity_def
        split: option.splits sum.splits intro!: evolves_put_old sub_le_status)
qed

lemma merge_publication_le:
  assumes "merge_publication prior r = Inr r'"
  shows "(pb_tenant r', pb_workspace r', pb_submission r', pb_attempt r')
      = (pb_tenant r, pb_workspace r, pb_submission r, pb_attempt r)"
    and "prior = Some p \<Longrightarrow> (pb_tenant p, pb_workspace p, pb_submission p, pb_attempt p)
      = (pb_tenant r, pb_workspace r, pb_submission r, pb_attempt r) \<Longrightarrow> pub_le p r'"
  using assms by (auto simp: merge_publication_def pub_le_def split: option.splits if_splits)

lemma record_result_publication_evolves:
  assumes "tables_ok s"
  shows "store_evolves (within c) s (snd (record_result_publication ex c r owner token now s))"
proof (cases "(pb_tenant r, pb_workspace r) = scope_of c")
  case True
  let ?k = "publication_key (scope_of c) r"
  have k: "pub_scope ?k = scope_of c" "keyed_publication ?k r"
    using True by (auto simp: pub_scope_def publication_key_def keyed_publication_def scope_of_def)
  have old: "keyed_publication ?k p" if "dget (publications s) ?k = Some p" for p
    using assms that by (auto simp: tables_ok_def dest: table_okD)
  have "store_evolves (within c) s (s\<lparr>publications := dput ?k r' (publications s)\<rparr>)"
    if m: "merge_publication (dget (publications s) ?k) r = Inr r'" for r'
  proof (intro store_evolves_update evolves_dput)
    have "keyed_publication ?k r'"
      using k merge_publication_le(1)[OF m] by (simp add: keyed_publication_def)
    with k show "(within c \<circ> pub_scope) ?k \<and> keyed_publication ?k r'" by simp
    fix p assume p: "dget (publications s) ?k = Some p"
    then have "pub_le p r'"
      using merge_publication_le(2)[OF m p] old[OF p] k by (simp add: keyed_publication_def)
    with k show "r' = p \<or> (within c \<circ> pub_scope) ?k \<and> pub_le p r'" by simp
  qed
  then show ?thesis
    by (auto simp: record_result_publication_def Let_def split: option.splits sum.splits)
next
  case False
  then have "publication_guards ex c r \<noteq> None" by (simp add: publication_guards_def)
  then show ?thesis by (auto simp: record_result_publication_def)
qed

lemma mark_result_publication_evolves:
  "store_evolves (within c) s (snd (mark_result_publication_published c sid aid sha now s))"
  by (auto simp: mark_result_publication_published_def Let_def pub_le_def pub_scope_def scope_of_def
      split: option.splits intro!: store_evolves_update evolves_put_old)

subsection \<open>Checkpoints, baselines and effects\<close>

lemma compare_and_swap_evolves:
  assumes "tables_ok s"
  shows "store_evolves (within c) s
    (snd (compare_and_swap_checkpoint c cid expected v aid token base now s))"
proof -
  have "ck_id p = cid" if "dget (checkpoints s) (mk_key (scope_of c) cid) = Some p" for p
    using assms that by (auto simp: tables_ok_def keyed_checkpoint_def dest: table_okD)
  moreover have "ck_submission p \<noteq> None \<Longrightarrow> ck_submission p = Some (at_submission a)"
    if "cas_guards c cid expected aid token now s = Inr a"
      "dget (checkpoints s) (mk_key (scope_of c) cid) = Some p" for a p
    using that by (auto simp: cas_guards_def Let_def split: option.splits if_splits sum.splits)
  ultimately show ?thesis
    by (auto simp: compare_and_swap_checkpoint_def Let_def keyed_checkpoint_def ck_le_def
        split: sum.splits option.splits intro!: store_evolves_update evolves_dput)
qed

lemma diagnose_checkpoint_evolves:
  "store_evolves (within c) s (snd (diagnose_checkpoint ex c cid kind detail uuid now s))"
  by (auto simp: diagnose_checkpoint_def Let_def store_evolves_def scope_of_def)

lemma acknowledge_baseline_evolves:
  assumes "tables_ok s"
  shows "store_evolves (within c) s (snd (acknowledge_baseline c bid obs expected sid uuid now s))"
proof -
  have "bl_baseline p = bid" if "dget (baselines s) (mk_key (scope_of c) bid) = Some p" for p
    using assms that by (auto simp: tables_ok_def keyed_baseline_def dest: table_okD)
  then show ?thesis
    by (auto simp: acknowledge_baseline_def Let_def keyed_baseline_def bl_le_def
        split: option.splits intro!: store_evolves_update evolves_dput)
qed

lemma record_effect_with_evolves:
  assumes "tables_ok s"
  shows "store_evolves (within c) s (snd (record_effect_with ex c e claim now s))"
proof (cases "(ef_tenant e, ef_workspace e) = scope_of c")
  case True
  let ?k = "mk_key (scope_of c) (ef_id e)"
  let ?e = "safe_effect ex e"
  have k: "keyed_effect ?k ?e" using True by (auto simp: keyed_effect_def safe_effect_def)
  have "keyed_effect ?k old" if "dget (effects s) ?k = Some old" for old
    using assms that by (auto simp: tables_ok_def dest: table_okD)
  then have "ef_le old ?e"
    if "dget (effects s) ?k = Some old" "effect_transition_error old ?e = None" for old
    using that k by (fastforce simp: keyed_effect_def ef_le_def effect_transition_error_def
        split: if_splits)
  then have "store_evolves (within c) s (s\<lparr>effects := dput ?k ?e (effects s)\<rparr>)"
    if "(case dget (effects s) ?k of None \<Rightarrow> None | Some old \<Rightarrow> effect_transition_error old ?e) = None"
    using that k by (intro store_evolves_update evolves_dput) auto
  then show ?thesis
    by (auto simp: record_effect_with_def Let_def split: option.splits)
qed (simp add: record_effect_with_def)

subsection \<open>Routes\<close>

lemma reserve_route_evolves: "store_evolves own s (snd (reserve_execution_route_reference r i s))"
  by (auto simp: reserve_execution_route_reference_def split: option.splits intro!: store_evolves_update)

lemma release_route_evolves: "store_evolves own s (snd (release_execution_route_reference r i s))"
  by (auto simp: release_execution_route_reference_def split: option.splits intro!: store_evolves_update)

lemma release_reference_evolves:
  "store_evolves own s (snd (release_execution_route_reference_id i s))"
  by (auto simp: release_execution_route_reference_id_def intro!: store_evolves_update)

lemma transition_route_evolves:
  assumes "tables_ok s"
  shows "store_evolves own s (snd (transition_execution_route_state c r expected st now s))"
proof -
  have "ro_route x = r" if "dget (routes s) r = Some x" for x
    using assms that by (auto simp: tables_ok_def dest: table_okD)
  then have "evolves (\<lambda>_. True) (\<lambda>r x. ro_route x = r) rt_le (routes s)
      (dput r (next_route c (route_state s r) st now) (routes s))"
    if "route_allowed (ro_status (route_state s r)) st"
    using that
    by (intro evolves_dput)
      (auto simp: route_state_def default_route_def next_route_def rt_le_def route_allowed_def)
  then show ?thesis
    by (auto simp: transition_execution_route_state_def Let_def split: option.splits
        intro!: store_evolves_update)
qed

subsection \<open>Dispatches\<close>

lemma prepare_dispatch_evolves: "store_evolves (within c) s (snd (prepare_dispatch ex c sid now s))"
  by (auto simp: prepare_dispatch_def Let_def keyed_dispatch_def di_ok_def split: option.splits
      intro!: store_evolves_update evolves_put_new)

lemmas dispatch_row_simps = di_le_def di_identity_def created_remotely_def fence_le_def di_ok_def

lemma put_dispatch_evolves:
  "dget (dispatches s) k = Some d \<Longrightarrow> key_scope k = scope_of c \<Longrightarrow> di_le d d' \<Longrightarrow>
   store_evolves (within c) s (s\<lparr>dispatches := dput k d' (dispatches s)\<rparr>)"
  by (intro store_evolves_update evolves_put_old) simp_all

lemma claim_dispatch_evolves:
  "store_evolves (within c) s (snd (claim_dispatch c sid owner secs now s))"
proof (cases "dget (dispatches s) (mk_key (scope_of c) sid)")
  case None
  then show ?thesis by (simp add: claim_dispatch_def)
next
  case (Some d)
  note put = put_dispatch_evolves[OF Some key_scope_mk_key]
  have "di_le d (d\<lparr>di_status := D_leased, di_attempts := n, di_owner := Some ow,
      di_token := di_token d + 1, di_expires_at := Some x, di_updated_at := now\<rparr>)"
    if "\<not> claim_refused d su now" for su n ow x
    using that by (cases "di_status d") (simp_all add: claim_refused_def dispatch_row_simps)
  then show ?thesis
    using Some by (cases "dget (submissions s) (mk_key (scope_of c) sid)")
      (simp_all add: claim_dispatch_def Let_def put)
qed

lemma link_dispatch_evolves:
  "store_evolves (within c) s (snd (link_dispatch c sid owner token rem leg now s))"
  by (auto simp: link_dispatch_def Let_def dispatch_row_simps split: sum.splits option.splits
      intro!: store_evolves_update evolves_put_old)

lemma release_dispatch_evolves:
  "store_evolves (within c) s (snd (release_dispatch c sid owner token unc can code now s))"
  by (auto simp: release_dispatch_def Let_def dispatch_row_simps split: option.splits
      intro!: store_evolves_update evolves_put_old)

lemma rearmed_le: "di_status d = D_dispatched \<Longrightarrow> di_le d (rearmed ex k reason now d)"
  by (simp add: rearmed_def dispatch_row_simps)

lemma exhausted_le:
  "di_status d = D_dispatched \<Longrightarrow>
   di_le d (d\<lparr>di_status := D_reconciliation_required, di_retry_after := None,
     di_error := er, di_updated_at := now\<rparr>)"
  by (simp add: dispatch_row_simps)

lemma audited_le: "di_status d = D_reconciliation_required \<Longrightarrow>
   di_le d ((rearmed ex k reason now d)\<lparr>di_history := h\<rparr>)"
  by (simp add: rearmed_def dispatch_row_simps)

lemma rearm_if_unclaimed_evolves:
  "store_evolves (within c) s
    (snd (rearm_dispatch_if_unclaimed ex c sid rem reason age current wall s))"
proof (cases "dget (dispatches s) (mk_key (scope_of c) sid)")
  case None
  then show ?thesis by (simp add: rearm_dispatch_if_unclaimed_def split: sum.split)
next
  case (Some d)
  note put = put_dispatch_evolves[OF Some key_scope_mk_key]
  show ?thesis
    using Some
    by (cases "dget (submissions s) (mk_key (scope_of c) sid)")
      (simp_all add: rearm_dispatch_if_unclaimed_def Let_def put rearmed_le exhausted_le split: sum.split)
qed

lemma rearm_failure_evolves:
  "store_evolves (within c) s
    (snd (rearm_dispatch_after_remote_failure ex c sid rem leg current wall s))"
  by (auto simp: rearm_dispatch_after_remote_failure_def rearm_if_unclaimed_evolves split: sum.splits)

lemma rearm_missing_evolves:
  "store_evolves (within c) s
    (snd (rearm_dispatch_after_remote_missing ex c sid rem leg age current wall s))"
  by (auto simp: rearm_dispatch_after_remote_missing_def rearm_if_unclaimed_evolves split: sum.splits)

lemma rearm_reconciled_evolves:
  "store_evolves (within c) s
    (snd (rearm_reconciliation_required_dispatch ex c sid expected rem leg ev now s))"
proof (cases "dget (dispatches s) (mk_key (scope_of c) sid)")
  case None
  then show ?thesis by (simp add: rearm_reconciliation_required_dispatch_def split: sum.split)
next
  case (Some d)
  note put = put_dispatch_evolves[OF Some key_scope_mk_key]
  show ?thesis
    using Some
    by (cases "dget (submissions s) (mk_key (scope_of c) sid)")
      (simp_all add: rearm_reconciliation_required_dispatch_def Let_def put audited_le split: sum.split)
qed

subsection \<open>Action jobs\<close>

lemmas job_row_simps = aj_le_def aj_identity_def aj_closed_def fence_le_def aj_ok_def

lemma put_job_evolves:
  "dget (action_jobs s) k = Some j \<Longrightarrow> key_scope k = scope_of c \<Longrightarrow> aj_le j j' \<Longrightarrow>
   store_evolves (within c) s (s\<lparr>action_jobs := dput k j' (action_jobs s)\<rparr>)"
  by (intro store_evolves_update evolves_put_old) simp_all

lemma requeued_le: "recoverable j \<Longrightarrow>
  aj_le j (j\<lparr>aj_status := J_queued, aj_phase := ph, aj_deadline_at := dl, aj_completed_at := None,
    aj_error := er\<rparr>)"
  by (auto simp: recoverable_def job_row_simps)

lemma accept_action_evolves:
  assumes "dget (action_jobs s) (mk_key (scope_of c) uuid) = None"
  shows "store_evolves (within c) s
    (snd (accept_action_job ex c action idem request deadline uuid now s))"
proof -
  have new: "store_evolves (within c) s
      (s\<lparr>action_jobs := dput (mk_key (scope_of c) uuid) (new_action_job ex c action idem request dl uuid now)
            (action_jobs s),
         action_idempotency := dput (action_idem ex c action idem) uuid (action_idempotency s)\<rparr>)"
    if "prior_action ex c action idem s = None" for dl
    using assms that
    by (auto simp: store_evolves_def keyed_action_def aj_ok_def new_action_job_def action_idem_def
        prior_action_def
        split: option.splits intro!: evolves_put_new)
  note put = put_job_evolves[OF _ key_scope_mk_key]
  show ?thesis
    by (auto simp: accept_action_job_def Let_def new put requeued_le split: option.splits)
qed

lemma cancelled_job_le:
  "aj_status j = J_queued \<Longrightarrow>
   aj_le j (j\<lparr>aj_status := J_cancelled, aj_phase := ph, aj_completed_at := Some t, aj_error := er\<rparr>)"
  "aj_status j = J_running \<Longrightarrow> aj_le j (j\<lparr>aj_status := J_cancel_requested\<rparr>)"
  by (simp_all add: job_row_simps)

lemma cancel_action_evolves: "store_evolves (within c) s (snd (cancel_action_job ex c aid now s))"
  by (auto simp: cancel_action_job_def Let_def cancelled_job_le
      split: option.splits intro!: put_job_evolves)

lemma expire_job_le: "expire_job sc now k j = j \<or> key_scope k = sc \<and> aj_le j (expire_job sc now k j)"
proof (cases "key_scope k = sc \<and> aj_status j \<in> {J_queued, J_running, J_cancel_requested}")
  case True
  then have "\<not> aj_closed j" by (auto simp: aj_closed_def)
  with True have "aj_le j (expire_job sc now k j)"
    by (auto simp: expire_job_def aj_le_def aj_identity_def fence_le_def aj_ok_def)
  with True show ?thesis by simp
next
  case False
  then show ?thesis by (auto simp: expire_job_def)
qed

lemma expire_evolves:
  "evolves (within c \<circ> key_scope) keyed_action aj_le jobs
     (dmap (expire_job (scope_of c) now) jobs)"
  by (rule evolves_dmap) (use expire_job_le in auto)

lemma claim_job_le:
  "aj_status j \<in> {J_queued, J_running} \<Longrightarrow> aj_le j (claim_job worker secs now j)"
  by (auto simp: claim_job_def job_row_simps)

text \<open>The job a claim hands out: the first candidate in the order of the scan.\<close>

lemma claim_candidate:
  assumes "distinct (map fst jobs)"
    and "sort_key f (filter (\<lambda>(k, j). claimable sc now k j) jobs) = (k, j) # rest"
  shows "dget jobs k = Some j" "claimable sc now k j"
proof -
  have "(k, j) \<in> set (sort_key f (filter (\<lambda>(k, j). claimable sc now k j) jobs))"
    using assms(2) by simp
  then show "dget jobs k = Some j" "claimable sc now k j"
    using assms(1) by (auto simp: dget_eq_iff_mem)
qed

lemma claim_action_evolves:
  assumes "tables_ok s"
  shows "store_evolves (within c) s (snd (claim_action_job c worker secs now s))"
proof -
  let ?jobs = "dmap (expire_job (scope_of c) now) (action_jobs s)"
  have D: "distinct (map fst ?jobs)" using assms by (simp add: tables_ok_def table_ok_def)
  have 1: "evolves (within c \<circ> key_scope) keyed_action aj_le (action_jobs s) ?jobs"
    by (rule expire_evolves)
  have 2: "evolves (within c \<circ> key_scope) keyed_action aj_le (action_jobs s)
      (dput k (claim_job worker secs now j) ?jobs)"
    if "sort_key f (filter (\<lambda>(k, j). claimable (scope_of c) now k j) ?jobs) = (k, j) # rest"
    for k j rest and f :: "key \<times> action_job \<Rightarrow> (int \<times> int) \<times> string"
  proof -
    have "evolves (within c \<circ> key_scope) keyed_action aj_le ?jobs
        (dput k (claim_job worker secs now j) ?jobs)"
      using claim_candidate[OF D that]
      by (intro evolves_put_old) (auto simp: claimable_def intro: claim_job_le)
    with 1 show ?thesis
      by (rule evolves_trans) (blast intro: aj_le_trans keyed_action_stable)+
  qed
  show ?thesis
    using 1 2
    by (auto simp: claim_action_job_def Let_def split: list.splits intro!: store_evolves_update)
qed

lemma heartbeat_action_evolves:
  "store_evolves (within c) s (snd (heartbeat_action_job c aid worker token secs now s))"
proof -
  have "aj_le j (j\<lparr>aj_expires_at := Some t\<rparr>)" if "aj_status j \<in> {J_running, J_cancel_requested}" for j t
    using that by (auto simp: job_row_simps)
  then show ?thesis
    by (auto simp: heartbeat_action_job_def Let_def split: option.splits intro!: put_job_evolves)
qed

lemma mark_accepting_evolves:
  "store_evolves (within c) s (snd (mark_action_job_accepting c aid worker token now s))"
proof -
  have "aj_le j (j\<lparr>aj_phase := t\<rparr>)" for j t by (simp add: job_row_simps)
  then show ?thesis
    by (auto simp: mark_action_job_accepting_def Let_def split: option.splits intro!: put_job_evolves)
qed

lemma aj_le_payload [simp]:
  "aj_le j (j'\<lparr>aj_phase := a\<rparr>) = aj_le j j'"
  "aj_le j (j'\<lparr>aj_result := b\<rparr>) = aj_le j j'"
  "aj_le j (j'\<lparr>aj_result_expires_at := d\<rparr>) = aj_le j j'"
  "aj_le j (j'\<lparr>aj_error := b\<rparr>) = aj_le j j'"
  by (simp_all add: aj_le_def aj_identity_def aj_ok_def)

lemma aj_le_refl [simp]: "aj_le j j"
  by (simp add: aj_le_def)

lemma close_job_le:
  assumes "aj_status j \<in> {J_running, J_cancel_requested}"
    and "st \<in> {J_succeeded, J_failed, J_timed_out, J_cancelled}"
  shows "aj_le j (close_job st now j)"
proof -
  have "\<not> aj_closed j" using assms(1) by (auto simp: aj_closed_def)
  with assms(2) show ?thesis
    by (auto simp: close_job_def aj_le_def aj_identity_def fence_le_def aj_ok_def)
qed

definition le_result :: "action_job \<Rightarrow> action_job res \<Rightarrow> bool" where
  "le_result j r \<longleftrightarrow> (\<forall>j'. r = Inr j' \<longrightarrow> aj_le j j')"

lemma le_result_simps [simp]: "le_result j (Inl e)" "le_result j (Inr j') = aj_le j j'"
  by (simp_all add: le_result_def)

lemma le_result_branch:
  "(b \<Longrightarrow> le_result j x) \<Longrightarrow> (\<not> b \<Longrightarrow> le_result j y) \<Longrightarrow> le_result j (if b then x else y)"
  by simp

lemma finished_job_le:
  assumes "finished_job ex st result code ttl ej now j = Inr j'"
    and "aj_status j \<in> {J_running, J_cancel_requested}"
    and "st \<in> {J_succeeded, J_failed, J_timed_out, J_cancelled}"
  shows "aj_le j j'"
proof -
  have cl: "aj_le j (close_job st' now j)" if "st' \<in> {st, J_timed_out, J_cancelled}" for st'
    using close_job_le[OF assms(2)] assms(3) that by blast
  have "le_result j (finished_job ex st result code ttl ej now j)"
    unfolding finished_job_def
    by (intro le_result_branch) (simp_all add: cl split: option.split)
  with assms(1) show ?thesis by simp
qed

lemma finish_action_evolves:
  "store_evolves (within c) s (snd (finish_action_job ex c aid worker token st result code ttl now s))"
proof (cases "dget (action_jobs s) (mk_key (scope_of c) aid)")
  case None
  then show ?thesis by (simp add: finish_action_job_def)
next
  case (Some j)
  note put = put_job_evolves[OF Some key_scope_mk_key]
  have close: "store_evolves (within c) s (snd (case finished_job ex st' result code ttl ej now j of
        Inl e \<Rightarrow> raise_in s e
      | Inr j' \<Rightarrow> return_in
          (s\<lparr>action_jobs := dput (mk_key (scope_of c) aid) j' (action_jobs s)\<rparr>) j'))"
    if "aj_status j = J_running \<or> aj_status j = J_cancel_requested"
      "st' \<in> {J_succeeded, J_failed, J_timed_out, J_cancelled}" for st' ej
    using that by (cases "finished_job ex st' result code ttl ej now j") (auto intro: put finished_job_le)
  show ?thesis
    unfolding finish_action_job_def Let_def Some option.case
    by (intro evolves_branch) (auto intro: put close)
qed

lemma drop_results_evolves:
  assumes "distinct (map fst rows)"
    and "\<And>k j. (k, j) \<in> set rows \<Longrightarrow> dget d k = Some j \<and> key_scope k = scope_of c"
  shows "evolves (within c \<circ> key_scope) keyed_action aj_le d
    (fold (\<lambda>(k, j). dput k (j\<lparr>aj_result := None\<rparr>)) rows d)"
  using assms
proof (induction rows arbitrary: d)
  case (Cons r rows)
  obtain k j where r: "r = (k, j)" by (cases r)
  let ?d = "dput k (j\<lparr>aj_result := None\<rparr>) d"
  have k: "dget d k = Some j \<and> key_scope k = scope_of c" using Cons.prems(2)[of k j] r by simp
  then have 1: "evolves (within c \<circ> key_scope) keyed_action aj_le d ?d"
    by (intro evolves_put_old) (auto simp: job_row_simps)
  have "k' \<noteq> k" if "(k', j') \<in> set rows" for k' j' using Cons.prems(1) r that by force
  moreover have "dget d k' = Some j' \<and> key_scope k' = scope_of c" if "(k', j') \<in> set rows" for k' j'
    using Cons.prems(2)[of k' j'] that by simp
  ultimately have "evolves (within c \<circ> key_scope) keyed_action aj_le ?d
      (fold (\<lambda>(k, j). dput k (j\<lparr>aj_result := None\<rparr>)) rows ?d)"
    using Cons.prems(1) by (intro Cons.IH) fastforce+
  with 1 have "evolves (within c \<circ> key_scope) keyed_action aj_le d
      (fold (\<lambda>(k, j). dput k (j\<lparr>aj_result := None\<rparr>)) rows ?d)"
    by (rule evolves_trans) (blast intro: aj_le_trans keyed_action_stable)+
  then show ?case by (simp add: r comp_def)
qed simp

lemma cleanup_actions_evolves:
  assumes "tables_ok s"
  shows "store_evolves (within c) s (snd (cleanup_expired_action_results c limit now s))"
proof -
  have ok: "table_ok keyed_action (action_jobs s)" using assms by (simp add: tables_ok_def)
  have "evolves (within c \<circ> key_scope) keyed_action aj_le (action_jobs s)
      (fold (\<lambda>(k, j). dput k (j\<lparr>aj_result := None\<rparr>))
        (take n (sort_key f (filter (result_expired (scope_of c) now) (action_jobs s)))) (action_jobs s))"
    for n and f :: "key \<times> action_job \<Rightarrow> (int \<times> int) \<times> string"
  proof (rule drop_results_evolves)
    have "distinct (map fst (sort_key f (filter (result_expired (scope_of c) now) (action_jobs s))))"
      using ok by (intro scan_distinct) (simp add: table_ok_def)
    then show "distinct (map fst
        (take n (sort_key f (filter (result_expired (scope_of c) now) (action_jobs s)))))"
      by (simp add: take_map[symmetric])
  next
    fix k j
    assume "(k, j) \<in> set (take n (sort_key f (filter (result_expired (scope_of c) now) (action_jobs s))))"
    then have "(k, j) \<in> set (sort_key f (filter (result_expired (scope_of c) now) (action_jobs s)))"
      by (rule in_set_takeD)
    from scan_rows[OF ok this] show "dget (action_jobs s) k = Some j \<and> key_scope k = scope_of c"
      by (simp add: result_expired_def)
  qed
  then show ?thesis
    by (auto simp: cleanup_expired_action_results_def Let_def intro!: store_evolves_update)
qed

subsection \<open>Previews\<close>

lemma create_preview_evolves: "store_evolves (within c) s (snd (create_preview c p now s))"
  by (auto simp: create_preview_def Let_def keyed_preview_def split: option.splits
      intro!: store_evolves_update evolves_put_new)

lemma mark_stale_evolves: "store_evolves (within c) s (snd (mark_preview_stale c pid code plan policy env s))"
  by (auto simp: mark_preview_stale_def Let_def pv_le_def pv_identity_def split: option.splits
      intro!: store_evolves_update evolves_put_old)

lemma record_diff_evolves: "store_evolves (within c) s (snd (record_preview_diff c d s))"
  by (auto simp: record_preview_diff_def intro!: store_evolves_update evolves_dput)

lemma authorize_shadow_evolves: "store_evolves (within c) s (snd (authorize_shadow_run c sh s))"
  by (auto simp: authorize_shadow_run_def shadow_only_def split: option.splits
      intro!: store_evolves_update evolves_dput)

lemma cleanup_previews_evolves: "store_evolves (within c) s (snd (cleanup_expired_previews c now s))"
  by (auto simp: cleanup_expired_previews_def preview_expired_def pv_le_def pv_identity_def
      intro!: store_evolves_update evolves_dmap_if)

end
