(* ===== verification/Durable_Invariants.thy ===== *)
theory Durable_Invariants
  imports Durable_Histories
begin

text \<open>
  The invariants that tie the tables of the store together, and the lemma that every call keeps
  them: attempts run under a lease of a live submission, one at a time; the idempotency index is
  exact; every submission has one outbox row; admission stays within its limit.
\<close>

subsection \<open>Calls that leave the work tables alone\<close>

definition same_work :: "store \<Rightarrow> store \<Rightarrow> bool" where
  "same_work s s' \<longleftrightarrow> submissions s' = submissions s \<and> attempts s' = attempts s
     \<and> outboxes s' = outboxes s \<and> idempotency s' = idempotency s
     \<and> admission_limit s' = admission_limit s"

definition same_exec :: "store \<Rightarrow> store \<Rightarrow> bool" where
  "same_exec s s' \<longleftrightarrow> same_work s s' \<and> leases s' = leases s"

lemmas same_defs = same_exec_def same_work_def

lemma same_refl [simp]: "same_work s s" "same_exec s s"
  by (simp_all add: same_defs)

lemma same_exec_update [simp]:
  "same_exec s (s\<lparr>dispatches := d1\<rparr>)" "same_exec s (s\<lparr>publications := d2\<rparr>)"
  "same_exec s (s\<lparr>checkpoints := d3\<rparr>)" "same_exec s (s\<lparr>effects := d4\<rparr>)"
  "same_exec s (s\<lparr>previews := d5\<rparr>)" "same_exec s (s\<lparr>diffs := d6\<rparr>)"
  "same_exec s (s\<lparr>shadows := d7\<rparr>)" "same_exec s (s\<lparr>baselines := d8\<rparr>)"
  "same_exec s (s\<lparr>action_jobs := d9\<rparr>)" "same_exec s (s\<lparr>diagnostics := d10\<rparr>)"
  "same_exec s (s\<lparr>action_jobs := d9, action_idempotency := d11\<rparr>)"
  "same_exec s (s\<lparr>routes := d12\<rparr>)" "same_exec s (s\<lparr>route_refs := d13\<rparr>)"
  "same_work s (s\<lparr>leases := d14\<rparr>)"
  by (simp_all add: same_defs)

lemma lease_frames:
  "same_work s (snd (acquire_lease c sid owner ttl now s))"
  "same_work s (snd (heartbeat c sid owner token ttl now s))"
  "same_work s (snd (release_lease c sid owner token now s))"
  by (simp_all add: acquire_lease_def heartbeat_def release_lease_def Let_def
      split: option.split sum.split)

lemma publication_frames:
  "same_exec s (snd (record_result_publication ex c r owner token now s))"
  "same_exec s (snd (mark_result_publication_published c sid aid sha now s))"
  by (simp_all add: record_result_publication_def mark_result_publication_published_def Let_def
      split: option.split sum.split)

lemma state_frames: "same_exec s (snd (run_state ex c op s))"
  by (cases op)
    (simp_all add: compare_and_swap_checkpoint_def diagnose_checkpoint_def acknowledge_baseline_def
      record_effect_def record_attempt_effect_def record_effect_with_def Let_def
      split: option.split sum.split)

lemma route_frames: "same_exec s (snd (run_route ex c op s))"
  by (cases op)
    (simp_all add: reserve_execution_route_reference_def release_execution_route_reference_def
      release_execution_route_reference_id_def transition_execution_route_state_def Let_def
      split: option.split)

lemma branch_same_exec:
  "(b \<Longrightarrow> same_exec s (snd x)) \<Longrightarrow> (\<not> b \<Longrightarrow> same_exec s (snd y)) \<Longrightarrow>
   same_exec s (snd (if b then x else y))"
  by simp

lemma rearm_frame: "same_exec s (snd (rearm_dispatch_if_unclaimed ex c sid rem reason age current wall s))"
  unfolding rearm_dispatch_if_unclaimed_def Let_def
  by (cases "select_remote_run_id rem None"; cases "dget (dispatches s) (mk_key (scope_of c) sid)";
      cases "dget (submissions s) (mk_key (scope_of c) sid)") simp_all

lemma rearm_reconciled_frame:
  "same_exec s (snd (rearm_reconciliation_required_dispatch ex c sid expected rem leg ev now s))"
  unfolding rearm_reconciliation_required_dispatch_def Let_def
  by (cases "select_remote_run_id rem leg"; cases "dget (dispatches s) (mk_key (scope_of c) sid)";
      cases "dget (submissions s) (mk_key (scope_of c) sid)") simp_all

lemma claim_dispatch_frame: "same_exec s (snd (claim_dispatch c sid owner secs now s))"
  unfolding claim_dispatch_def Let_def
  by (cases "dget (dispatches s) (mk_key (scope_of c) sid)";
      cases "dget (submissions s) (mk_key (scope_of c) sid)") simp_all

lemma dispatch_frames: "same_exec s (snd (run_dispatch ex c op s))"
  by (cases op)
    (simp_all add: prepare_dispatch_def claim_dispatch_frame link_dispatch_def release_dispatch_def
      rearm_dispatch_after_remote_failure_def rearm_dispatch_after_remote_missing_def rearm_frame
      rearm_reconciled_frame Let_def split: option.split sum.split)

lemma finish_action_frame:
  "same_exec s (snd (finish_action_job ex c aid worker token st result code ttl now s))"
proof (cases "dget (action_jobs s) (mk_key (scope_of c) aid)")
  case None
  then show ?thesis by (simp add: finish_action_job_def)
next
  case (Some j)
  have "same_exec s (snd (case finished_job ex st result code ttl ej now j of
        Inl e \<Rightarrow> raise_in s e
      | Inr j' \<Rightarrow> return_in
          (s\<lparr>action_jobs := dput (mk_key (scope_of c) aid) j' (action_jobs s)\<rparr>) j'))" for ej
    by (cases "finished_job ex st result code ttl ej now j") simp_all
  then show ?thesis
    unfolding finish_action_job_def Let_def Some option.case by (intro branch_same_exec) simp_all
qed

lemma action_frames: "same_exec s (snd (run_action ex c op s))"
  by (cases op)
    (simp_all add: accept_action_job_def cancel_action_job_def claim_action_job_def
      heartbeat_action_job_def mark_action_job_accepting_def finish_action_frame
      cleanup_expired_action_results_def Let_def split: option.split list.split)

lemma preview_frames: "same_exec s (snd (run_preview ex c op s))"
  by (cases op)
    (simp_all add: create_preview_def mark_preview_stale_def record_preview_diff_def
      authorize_shadow_run_def cleanup_expired_previews_def Let_def split: option.split)

subsection \<open>Execution under leases\<close>

text \<open>From here on keys are atoms, not triples.\<close>

declare split_paired_All [simp del] split_paired_Ex [simp del]

definition attempt_ok :: "store \<Rightarrow> key \<Rightarrow> attempt \<Rightarrow> bool" where
  "attempt_ok s k a \<longleftrightarrow>
     (let sk = mk_key (key_scope k) (at_submission a) in
      (\<exists>l. dget (leases s) sk = Some l \<and> at_token a \<le> le_token l)
      \<and> (\<exists>su. dget (submissions s) sk = Some su
             \<and> (at_status a = A_running \<longrightarrow> \<not> is_terminal (su_status su))))"

definition one_running :: "store \<Rightarrow> bool" where
  "one_running s \<longleftrightarrow>
     (\<forall>k a k' a'. dget (attempts s) k = Some a \<longrightarrow> dget (attempts s) k' = Some a' \<longrightarrow>
        at_status a = A_running \<longrightarrow> at_status a' = A_running \<longrightarrow> key_scope k = key_scope k' \<longrightarrow>
        at_submission a = at_submission a' \<longrightarrow> k = k')"

definition exec_ok :: "store \<Rightarrow> bool" where
  "exec_ok s \<longleftrightarrow>
     (\<forall>k a. dget (attempts s) k = Some a \<longrightarrow> attempt_ok s k a) \<and> one_running s
     \<and> (\<forall>k. dget (leases s) k \<noteq> None \<longrightarrow> dget (submissions s) k \<noteq> None)"

lemma exec_ok_empty: "exec_ok (empty_store lim)"
  by (simp add: exec_ok_def one_running_def empty_store_def)

lemma attempt_row:
  assumes "exec_ok s" "dget (attempts s) k = Some a"
  obtains l su where "dget (leases s) (mk_key (key_scope k) (at_submission a)) = Some l"
    "at_token a \<le> le_token l"
    "dget (submissions s) (mk_key (key_scope k) (at_submission a)) = Some su"
    "at_status a = A_running \<Longrightarrow> \<not> is_terminal (su_status su)"
proof -
  have "attempt_ok s k a" using assms by (simp add: exec_ok_def)
  with that show thesis by (auto simp: attempt_ok_def Let_def)
qed

lemma exec_ok_nonterminal:
  assumes "exec_ok s" "dget (attempts s) (mk_key sc aid) = Some a" "at_status a = A_running"
    "dget (submissions s) (mk_key sc (at_submission a)) = Some su"
  shows "\<not> is_terminal (su_status su)"
  using assms(3,4) by (rule_tac attempt_row[OF assms(1,2)]) simp

lemma evolved_submission:
  assumes "store_evolves own s s'" "dget (submissions s) k = Some v"
  obtains v' where "dget (submissions s') k = Some v'" "v' = v \<or> sub_le v v'"
proof -
  have "evolves (own \<circ> key_scope) keyed_submission sub_le (submissions s) (submissions s')"
    using assms(1) by (simp add: store_evolves_def)
  from evolves_old[OF this assms(2)] that show ?thesis by blast
qed

lemma evolved_lease:
  assumes "store_evolves own s s'" "dget (leases s) k = Some v"
  obtains v' where "dget (leases s') k = Some v'" "v' = v \<or> lease_le v v'"
proof -
  have "evolves (own \<circ> key_scope) keyed_lease lease_le (leases s) (leases s')"
    using assms(1) by (simp add: store_evolves_def)
  from evolves_old[OF this assms(2)] that show ?thesis by blast
qed

lemma evolved_attempt:
  assumes "store_evolves own s s'" "dget (attempts s) k = Some v"
  obtains v' where "dget (attempts s') k = Some v'" "v' = v \<or> att_le v v'"
proof -
  have "evolves (own \<circ> key_scope) keyed_attempt att_le (attempts s) (attempts s')"
    using assms(1) by (simp add: store_evolves_def)
  from evolves_old[OF this assms(2)] that show ?thesis by blast
qed

lemma evolved_effect:
  assumes "store_evolves own s s'" "dget (effects s) k = Some v"
  obtains v' where "dget (effects s') k = Some v'" "v' = v \<or> ef_le v v'"
proof -
  have "evolves (own \<circ> key_scope) keyed_effect ef_le (effects s) (effects s')"
    using assms(1) by (simp add: store_evolves_def)
  from evolves_old[OF this assms(2)] that show ?thesis by blast
qed

lemma evolved_checkpoint:
  assumes "store_evolves own s s'" "dget (checkpoints s) k = Some v"
  obtains v' where "dget (checkpoints s') k = Some v'" "v' = v \<or> ck_le v v'"
proof -
  have "evolves (own \<circ> key_scope) keyed_checkpoint ck_le (checkpoints s) (checkpoints s')"
    using assms(1) by (simp add: store_evolves_def)
  from evolves_old[OF this assms(2)] that show ?thesis by blast
qed

lemma evolved_dispatch:
  assumes "store_evolves own s s'" "dget (dispatches s) k = Some v"
  obtains v' where "dget (dispatches s') k = Some v'" "v' = v \<or> di_le v v'"
proof -
  have "evolves (own \<circ> key_scope) keyed_dispatch di_le (dispatches s) (dispatches s')"
    using assms(1) by (simp add: store_evolves_def)
  from evolves_old[OF this assms(2)] that show ?thesis by blast
qed

lemma evolved_job:
  assumes "store_evolves own s s'" "dget (action_jobs s) k = Some v"
  obtains v' where "dget (action_jobs s') k = Some v'" "v' = v \<or> aj_le v v'"
proof -
  have "evolves (own \<circ> key_scope) keyed_action aj_le (action_jobs s) (action_jobs s')"
    using assms(1) by (simp add: store_evolves_def)
  from evolves_old[OF this assms(2)] that show ?thesis by blast
qed

lemma evolved_outbox:
  assumes "store_evolves own s s'" "dget (outboxes s) k = Some v"
  obtains v' where "dget (outboxes s') k = Some v'" "v' = v \<or> out_le v v'"
proof -
  have "evolves (own \<circ> key_scope) keyed_outbox out_le (outboxes s) (outboxes s')"
    using assms(1) by (simp add: store_evolves_def)
  from evolves_old[OF this assms(2)] that show ?thesis by blast
qed

lemma evolved_route:
  assumes "store_evolves own s s'" "dget (routes s) k = Some v"
  obtains v' where "dget (routes s') k = Some v'" "v' = v \<or> rt_le v v'"
proof -
  have "evolves (\<lambda>_. True) (\<lambda>r x. ro_route x = r) rt_le (routes s) (routes s')"
    using assms(1) by (simp add: store_evolves_def)
  from evolves_old[OF this assms(2)] that show ?thesis by blast
qed

lemma evolved_preview:
  assumes "store_evolves own s s'" "dget (previews s) k = Some v"
  obtains v' where "dget (previews s') k = Some v'" "v' = v \<or> pv_le v v'"
proof -
  have "evolves (own \<circ> key_scope) keyed_preview pv_le (previews s) (previews s')"
    using assms(1) by (simp add: store_evolves_def)
  from evolves_old[OF this assms(2)] that show ?thesis by blast
qed

text \<open>A call that starts no attempt keeps the invariant if the attempts it leaves running may run.\<close>

lemma exec_ok_keep:
  assumes "exec_ok s" and e: "store_evolves own s s'"
    and old: "\<And>k a. dget (attempts s') k = Some a \<Longrightarrow> dget (attempts s) k \<noteq> None"
    and run: "\<And>k a su. dget (attempts s') k = Some a \<Longrightarrow> at_status a = A_running \<Longrightarrow>
        dget (submissions s') (mk_key (key_scope k) (at_submission a)) = Some su \<Longrightarrow>
        \<not> is_terminal (su_status su)"
    and lease: "\<And>k. dget (leases s') k \<noteq> None \<Longrightarrow> dget (leases s) k = None \<Longrightarrow>
        dget (submissions s) k \<noteq> None"
  shows "exec_ok s'"
  unfolding exec_ok_def
proof (intro conjI allI impI)
  have origin: "\<exists>a0. dget (attempts s) k = Some a0 \<and> at_submission a0 = at_submission a
      \<and> at_token a0 = at_token a \<and> (at_status a = A_running \<longrightarrow> a0 = a)"
    if new: "dget (attempts s') k = Some a" for k a
  proof -
    obtain a0 where a0: "dget (attempts s) k = Some a0" using old[OF new] by auto
    then obtain a' where "dget (attempts s') k = Some a'" "a' = a0 \<or> att_le a0 a'"
      by (rule evolved_attempt[OF e])
    then have "a = a0 \<or> att_le a0 a" using new by simp
    then show ?thesis using a0 at_identityD[of a a0] by (auto simp: att_le_def)
  qed
  show "attempt_ok s' k a" if new: "dget (attempts s') k = Some a" for k a
  proof -
    obtain a0 where a0: "dget (attempts s) k = Some a0" "at_submission a0 = at_submission a"
      "at_token a0 = at_token a" using origin[OF new] by blast
    let ?sk = "mk_key (key_scope k) (at_submission a)"
    obtain l su where l: "dget (leases s) ?sk = Some l" "at_token a \<le> le_token l"
      and su: "dget (submissions s) ?sk = Some su"
      by (rule attempt_row[OF assms(1) a0(1)]) (use a0 in simp)
    obtain l' where l': "dget (leases s') ?sk = Some l'" "l' = l \<or> lease_le l l'"
      using l(1) by (rule evolved_lease[OF e])
    then have "le_token l \<le> le_token l'" by (auto simp: lease_le_def fence_le_def)
    moreover obtain su' where "dget (submissions s') ?sk = Some su'"
      using su by (rule evolved_submission[OF e])
    ultimately show ?thesis
      using l(2) l'(1) run[OF new] by (auto simp: attempt_ok_def Let_def)
  qed
  show "one_running s'"
    unfolding one_running_def
  proof (intro allI impI)
    fix k a k' a'
    assume "dget (attempts s') k = Some a" "dget (attempts s') k' = Some a'"
      "at_status a = A_running" "at_status a' = A_running" "key_scope k = key_scope k'"
      "at_submission a = at_submission a'"
    moreover from this have "dget (attempts s) k = Some a" "dget (attempts s) k' = Some a'"
      using origin by fastforce+
    ultimately show "k = k'" using assms(1) unfolding exec_ok_def one_running_def by blast
  qed
  show "dget (submissions s') k \<noteq> None" if "dget (leases s') k \<noteq> None" for k
  proof -
    have "dget (submissions s) k \<noteq> None"
      using that lease[of k] assms(1) by (cases "dget (leases s) k") (auto simp: exec_ok_def)
    then obtain su where "dget (submissions s) k = Some su" by blast
    then show ?thesis by (rule evolved_submission[OF e]) simp
  qed
qed

lemma exec_ok_same:
  assumes "exec_ok s" "same_exec s s'"
  shows "exec_ok s'"
  using assms by (simp add: exec_ok_def same_defs attempt_ok_def[abs_def] one_running_def)

text \<open>The special case of calls that leave every attempt and close no submission.\<close>

lemma exec_ok_open:
  assumes "exec_ok s" "store_evolves own s s'" "attempts s' = attempts s"
    and "\<And>k su su'. dget (submissions s) k = Some su \<Longrightarrow> dget (submissions s') k = Some su' \<Longrightarrow>
        is_terminal (su_status su') \<Longrightarrow> is_terminal (su_status su)"
    and "\<And>k. dget (leases s') k \<noteq> None \<Longrightarrow> dget (leases s) k = None \<Longrightarrow>
        dget (submissions s) k \<noteq> None"
  shows "exec_ok s'"
  using assms(1,2)
proof (rule exec_ok_keep)
  show "dget (attempts s') k = Some a \<Longrightarrow> dget (attempts s) k \<noteq> None" for k a
    using assms(3) by simp
  fix k a su'
  assume a: "dget (attempts s') k = Some a" "at_status a = A_running"
    and su': "dget (submissions s') (mk_key (key_scope k) (at_submission a)) = Some su'"
  have "dget (attempts s) k = Some a" using assms(3) a by simp
  then obtain su where "dget (submissions s) (mk_key (key_scope k) (at_submission a)) = Some su"
    "\<not> is_terminal (su_status su)"
    by (rule attempt_row[OF assms(1)]) (use a in simp)
  with assms(4) su' show "\<not> is_terminal (su_status su')" by blast
qed (use assms(5) in blast)

lemma accept_exec_ok:
  assumes "exec_ok s" "store_evolves own s (snd (accept ex c rq us uo now s))"
    and "dget (submissions s) (mk_key (scope_of c) us) = None"
  shows "exec_ok (snd (accept ex c rq us uo now s))"
  using assms(1,2)
  by (rule exec_ok_open)
    (use assms(3) in \<open>auto simp: accept_def accept_replay_def accept_new_def accept_store_def
      split: option.splits if_splits\<close>)

lemma mark_published_exec_ok:
  assumes "exec_ok s"
  shows "exec_ok (snd (mark_published c oid now s))"
  using assms mark_published_evolves
  by (rule exec_ok_open)
    (auto simp: mark_published_def Let_def is_terminal_def split: option.splits if_splits)

lemma reconcile_terminal_loop_frame:
  "submissions (snd (reconcile_terminal_loop sc now limit rows acc s)) = submissions s"
  "attempts (snd (reconcile_terminal_loop sc now limit rows acc s)) = attempts s"
  "leases (snd (reconcile_terminal_loop sc now limit rows acc s)) = leases s"
  "idempotency (snd (reconcile_terminal_loop sc now limit rows acc s)) = idempotency s"
  "admission_limit (snd (reconcile_terminal_loop sc now limit rows acc s)) = admission_limit s"
  by (induction sc now limit rows acc s rule: reconcile_terminal_loop.induct)
    (auto split: option.splits)

lemma reconcile_terminal_frame [frame_simps]:
  "submissions (snd (reconcile_terminal_outbox c limit now s)) = submissions s"
  "attempts (snd (reconcile_terminal_outbox c limit now s)) = attempts s"
  "leases (snd (reconcile_terminal_outbox c limit now s)) = leases s"
  "idempotency (snd (reconcile_terminal_outbox c limit now s)) = idempotency s"
  "admission_limit (snd (reconcile_terminal_outbox c limit now s)) = admission_limit s"
  by (simp_all add: reconcile_terminal_outbox_def Let_def case_prod_unfold
      reconcile_terminal_loop_frame[unfolded case_prod_unfold])

lemma reconcile_terminal_exec_ok:
  assumes "exec_ok s"
  shows "exec_ok (snd (reconcile_terminal_outbox c limit now s))"
  using assms by (simp add: exec_ok_def attempt_ok_def one_running_def frame_simps)

lemma cancel_submission_exec_ok:
  assumes "exec_ok s"
  shows "exec_ok (snd (cancel_submission c sid now s))"
  using assms cancel_submission_evolves
  by (rule exec_ok_open)
    (auto simp: cancel_submission_def Let_def is_terminal_def split: option.splits if_splits)

lemma lease_exec_ok:
  assumes "exec_ok s"
  shows "tables_ok s \<Longrightarrow> exec_ok (snd (acquire_lease c sid owner ttl now s))"
    and "exec_ok (snd (heartbeat c sid owner token ttl now s))"
    and "exec_ok (snd (release_lease c sid owner token now s))"
proof -
  have same: "same_work s s' \<Longrightarrow> attempts s' = attempts s \<and> submissions s' = submissions s" for s'
    by (simp add: same_defs)
  show "exec_ok (snd (acquire_lease c sid owner ttl now s))" if "tables_ok s"
    using assms acquire_lease_evolves[OF that]
    by (rule exec_ok_open)
      (use same[OF lease_frames(1)] in \<open>auto simp: acquire_lease_def Let_def split: if_splits option.splits\<close>)
  show "exec_ok (snd (heartbeat c sid owner token ttl now s))"
    using assms heartbeat_evolves
    by (rule exec_ok_open)
      (use same[OF lease_frames(2)] in \<open>auto simp: heartbeat_def Let_def dest!: require_leaseD
        split: if_splits option.splits sum.splits\<close>)
  show "exec_ok (snd (release_lease c sid owner token now s))"
    using assms release_lease_evolves
    by (rule exec_ok_open)
      (use same[OF lease_frames(3)] in \<open>auto simp: release_lease_def Let_def dest!: require_leaseD
        split: if_splits sum.splits\<close>)
qed

lemma one_running_eq:
  assumes "exec_ok s" "dget (attempts s) k = Some a" "dget (attempts s) k' = Some a'"
    and "at_status a = A_running" "at_status a' = A_running" "key_scope k = key_scope k'"
    and "at_submission a = at_submission a'"
  shows "k = k'"
  using assms unfolding exec_ok_def one_running_def by blast

lemma finish_attempt_evolves_ok:
  "exec_ok s \<Longrightarrow> store_evolves (within c) s (snd (finish_attempt c aid owner token st now s))"
  by (rule finish_attempt_evolves) (blast dest: exec_ok_nonterminal)

text \<open>The two outcomes of a completion: nothing changed, or one attempt and its submission closed.\<close>

lemma finish_attempt_cases:
  obtains (same) "snd (finish_attempt c aid owner token st now s) = s"
  | (closed) a a' su st' where
      "dget (attempts s) (mk_key (scope_of c) aid) = Some a" "at_status a = A_running"
      "dget (submissions s) (mk_key (scope_of c) (at_submission a)) = Some su"
      "at_status a' \<noteq> A_running" "is_terminal st'" "at_submission a' = at_submission a"
      "snd (finish_attempt c aid owner token st now s) =
         s\<lparr>attempts := dput (mk_key (scope_of c) aid) a' (attempts s),
           submissions := dput (mk_key (scope_of c) (at_submission a)) (su\<lparr>su_status := st'\<rparr>)
             (submissions s)\<rparr>"
proof -
  let ?r = "snd (finish_attempt c aid owner token st now s)"
  have "?r = s \<or> (\<exists>a a' su st'. dget (attempts s) (mk_key (scope_of c) aid) = Some a
      \<and> at_status a = A_running
      \<and> dget (submissions s) (mk_key (scope_of c) (at_submission a)) = Some su
      \<and> at_status a' \<noteq> A_running \<and> is_terminal st' \<and> at_submission a' = at_submission a
      \<and> ?r = s\<lparr>attempts := dput (mk_key (scope_of c) aid) a' (attempts s),
           submissions := dput (mk_key (scope_of c) (at_submission a)) (su\<lparr>su_status := st'\<rparr>)
             (submissions s)\<rparr>)"
  proof (cases "st \<noteq> A_running \<and> (\<exists>a su l. dget (attempts s) (mk_key (scope_of c) aid) = Some a
      \<and> dget (submissions s) (mk_key (scope_of c) (at_submission a)) = Some su
      \<and> attempt_fence su (mk_key (scope_of c) (at_submission a)) owner token now s = Inr l
      \<and> at_status a = A_running)")
    case True
    then obtain a su l where w: "st \<noteq> A_running" "dget (attempts s) (mk_key (scope_of c) aid) = Some a"
      "dget (submissions s) (mk_key (scope_of c) (at_submission a)) = Some su"
      "attempt_fence su (mk_key (scope_of c) (at_submission a)) owner token now s = Inr l"
      "at_status a = A_running" by blast
    define canc where "canc \<longleftrightarrow> st = A_cancelled \<or> su_status su = Cancel_requested"
    have "?r = s\<lparr>attempts := dput (mk_key (scope_of c) aid)
          (a\<lparr>at_status := (if canc then A_cancelled else st), at_completed_at := Some now\<rparr>) (attempts s),
        submissions := dput (mk_key (scope_of c) (at_submission a)) (su\<lparr>su_status :=
          (if canc then Cancelled else if st = A_completed then Completed else Failed)\<rparr>)
             (submissions s)\<rparr>"
      using w by (simp add: finish_attempt_def Let_def canc_def)
    moreover have "is_terminal (if canc then Cancelled else if st = A_completed then Completed else Failed)"
      by (simp add: is_terminal_def)
    moreover have "at_status (a\<lparr>at_status := (if canc then A_cancelled else st), at_completed_at := Some now\<rparr>)
        \<noteq> A_running"
      using w(1) by simp
    moreover have "at_submission (a\<lparr>at_status := (if canc then A_cancelled else st),
        at_completed_at := Some now\<rparr>) = at_submission a" by simp
    ultimately show ?thesis using w(2,3,5) by blast
  next
    case False
    then show ?thesis
      by (auto simp: finish_attempt_def Let_def split: option.split sum.split)
  qed
  with that show thesis by blast
qed

lemma finish_attempt_exec_ok:
  assumes ok: "exec_ok s"
  shows "exec_ok (snd (finish_attempt c aid owner token st now s))"
proof (cases rule: finish_attempt_cases[of c aid owner token st now s])
  case (closed a a' su st')
  let ?s = "snd (finish_attempt c aid owner token st now s)"
  let ?k = "mk_key (scope_of c) aid"
  show ?thesis
  proof (rule exec_ok_keep[OF ok finish_attempt_evolves_ok[OF ok]])
    show "dget (attempts s) k \<noteq> None" if "dget (attempts ?s) k = Some b" for k b
      using that closed(1) by (auto simp: closed(7) split: if_splits)
    show "\<not> is_terminal (su_status x)"
      if b: "dget (attempts ?s) k = Some b" "at_status b = A_running"
        and x: "dget (submissions ?s) (mk_key (key_scope k) (at_submission b)) = Some x" for k b x
    proof -
      have k: "k \<noteq> ?k" "dget (attempts s) k = Some b"
        using b closed(4) by (auto simp: closed(7) split: if_splits)
      then have "\<not> (key_scope k = scope_of c \<and> at_submission b = at_submission a)"
        using one_running_eq[OF ok k(2) closed(1) b(2) closed(2)] by auto
      then have "dget (submissions s) (mk_key (key_scope k) (at_submission b)) = Some x"
        using x by (auto simp: closed(7) split: if_splits)
      then show ?thesis
        using attempt_row[OF ok k(2)] b(2) by (metis option.inject)
    qed
    show "dget (submissions s) k \<noteq> None" if "dget (leases ?s) k \<noteq> None" "dget (leases s) k = None" for k
      using that by (simp add: closed(7))
  qed
qed (use ok in simp)

lemma lost_sel [simp]:
  "at_status (lost now a) = A_lost" "at_submission (lost now a) = at_submission a"
  "at_token (lost now a) = at_token a" "at_owner (lost now a) = at_owner a"
  by (simp_all add: lost_def)

lemma lost_neq [simp]:
  "at_status a = A_running \<Longrightarrow> lost now a \<noteq> a" "at_status a = A_running \<Longrightarrow> a \<noteq> lost now a"
  using lost_sel(1)[of now a] by (metis attempt_status.distinct(7))+

lemma lose_running_attempts:
  "dget (attempts (lose_running sc sid now s)) k
     = map_option (\<lambda>a. if running_for sc sid k a then lost now a else a) (dget (attempts s) k)"
  by (cases "dget (attempts s) k") (simp_all add: lose_running_def lost_def)

lemma finalize_cancel_attempts [frame_simps]:
  "attempts (finalize_cancel c now ack k su s) = attempts (lose_running (scope_of c) (su_id su) now s)"
  by (simp add: finalize_cancel_def Let_def frame_simps)

lemma finalize_cancel_leases [frame_simps]:
  "leases (finalize_cancel c now ack k su s) = leases s"
  by (simp add: finalize_cancel_def Let_def frame_simps)

lemma tables_okD:
  assumes "tables_ok s"
  shows "dget (submissions s) k = Some su \<Longrightarrow> k = mk_key (su_tenant su, su_workspace su) (su_id su)"
    and "dget (outboxes s) k = Some ob \<Longrightarrow> keyed_outbox k ob"
    and "dget (dispatches s) k = Some d \<Longrightarrow> key_id k = di_submission d \<and> di_ok d"
    and "dget (action_jobs s) k = Some j \<Longrightarrow> key_id k = aj_id j \<and> aj_ok j"
    and "dget (leases s) k = Some l \<Longrightarrow> key_id k = le_submission l"
  using assms table_okD[of keyed_submission "submissions s"] table_okD[of keyed_outbox "outboxes s"]
    table_okD[of keyed_dispatch "dispatches s"] table_okD[of keyed_action "action_jobs s"]
    table_okD[of keyed_lease "leases s"]
  by (simp_all add: tables_ok_def keyed_submission_def keyed_dispatch_def keyed_action_def
      keyed_lease_def)

lemma submission_key:
  "tables_ok s \<Longrightarrow> dget (submissions s) k = Some su \<Longrightarrow> key_scope k = sc \<Longrightarrow> k = mk_key sc (su_id su)"
  using tables_okD(1)[of s k su] by simp

lemma finalize_cancel_exec_ok:
  assumes ok: "exec_ok s" and t: "tables_ok s" and su: "dget (submissions s) k = Some su"
    and sc: "key_scope k = scope_of c" and cr: "su_status su = Cancel_requested"
  shows "exec_ok (finalize_cancel c now ack k su s)"
proof -
  let ?s = "finalize_cancel c now ack k su s"
  have k: "k = mk_key (scope_of c) (su_id su)"
    using t su sc by (rule submission_key)
  show ?thesis
  proof (rule exec_ok_keep[OF ok finalize_cancel_evolves[OF t su sc cr]])
    show "dget (attempts s) k' \<noteq> None" if "dget (attempts ?s) k' = Some b" for k' b
      using that by (auto simp: frame_simps lose_running_attempts)
    show "\<not> is_terminal (su_status x)"
      if b: "dget (attempts ?s) k' = Some b" "at_status b = A_running"
        and x: "dget (submissions ?s) (mk_key (key_scope k') (at_submission b)) = Some x" for k' b x
    proof -
      have b': "dget (attempts s) k' = Some b" "\<not> running_for (scope_of c) (su_id su) k' b"
        using b by (auto simp: frame_simps lose_running_attempts split: if_splits)
      then have "dget (submissions s) (mk_key (key_scope k') (at_submission b)) = Some x"
        using x b(2) by (auto simp: frame_simps k running_for_def split: if_splits)
      then show ?thesis
        using attempt_row[OF ok b'(1)] b(2) by (metis option.inject)
    qed
    show "dget (submissions s) k' \<noteq> None"
      if "dget (leases ?s) k' \<noteq> None" "dget (leases s) k' = None" for k'
      using that by (simp add: frame_simps)
  qed
qed

lemma reconcile_cancelled_exec_ok:
  assumes "exec_ok s" "tables_ok s"
  shows "exec_ok (snd (reconcile_cancelled_submissions c limit ack sid r now s))"
proof -
  have "exec_ok s' \<and> tables_ok s'"
    if "s' = snd (reconcile_cancelled_submissions c limit ack sid r now s)" for s'
    unfolding that
    by (rule reconcile_cancelled_induct[OF assms(2)])
      (use assms finalize_cancel_exec_ok finalize_cancel_evolves tables_ok_evolves in blast)+
  then show ?thesis by blast
qed

text \<open>Starting an attempt: refused without a trace, or the older ones lost and the new one running.\<close>

lemma start_attempt_cases:
  assumes ok: "exec_ok s" and t: "tables_ok s"
  obtains (refused) e where "start_attempt ex c sid owner token cx uuid now s = (Inl e, s)"
  | (started) new d su l where
      "start_attempt ex c sid owner token cx uuid now s
         = (Inr new, s\<lparr>attempts := dput (mk_key (scope_of c) uuid) new d\<rparr>)"
      "at_submission new = sid" "at_token new = token" "at_status new = A_running" "at_owner new = owner"
      "dget (submissions s) (mk_key (scope_of c) sid) = Some su" "\<not> not_executable (su_status su)"
      "dget (leases s) (mk_key (scope_of c) sid) = Some l" "le_owner l = owner" "le_token l = token"
      "now < le_expires_at l"
      "\<And>k. dget d k = map_option (\<lambda>a. if running_for (scope_of c) sid k a then lost now a else a)
         (dget (attempts s) k)"
      "\<And>k a. dget (attempts s) k = Some a \<Longrightarrow> running_for (scope_of c) sid k a \<Longrightarrow> at_token a < token"
proof (cases "\<exists>l su d. require_lease (mk_key (scope_of c) sid) owner token now s = Inr l
    \<and> dget (submissions s) (mk_key (scope_of c) sid) = Some su \<and> \<not> not_executable (su_status su)
    \<and> supersede_loop (scope_of c) sid token now (attempts s) (attempts s) = (None, d)")
  case True
  then obtain l su d where w: "require_lease (mk_key (scope_of c) sid) owner token now s = Inr l"
    "dget (submissions s) (mk_key (scope_of c) sid) = Some su" "\<not> not_executable (su_status su)"
    "supersede_loop (scope_of c) sid token now (attempts s) (attempts s) = (None, d)" by blast
  have tab: "table_ok keyed_attempt (attempts s)" using t by (simp add: tables_ok_def)
  have mem: "(k, a) \<in> set (attempts s) \<longleftrightarrow> dget (attempts s) k = Some a" for k a
    using table_ok_mem[OF tab] by simp
  have D: "distinct (map fst (attempts s))" using tab by (simp add: table_ok_def)
  have older: "at_token a < token"
    if "dget (attempts s) k = Some a" "running_for (scope_of c) sid k a" for k a
    using supersede_loop_older[OF w(4)] that mem by blast
  have d: "dget d k = map_option (\<lambda>a. if running_for (scope_of c) sid k a then lost now a else a)
      (dget (attempts s) k)" for k
    using supersede_loop_done[OF w(4) D, of k] mem by (cases "dget (attempts s) k") auto
  show thesis
    using started[OF _ _ _ _ _ w(2,3) _ _ _ _ d older] w require_leaseD[OF w(1)]
    by (simp add: start_attempt_def Let_def not_executable_def)
next
  case False
  have "d = attempts s" if "supersede_loop (scope_of c) sid token now (attempts s) (attempts s) = (Some e, d)"
    for e d
  proof (rule supersede_loop_refused[OF that])
    have tab: "table_ok keyed_attempt (attempts s)" using t by (simp add: tables_ok_def)
    then show "distinct (map fst (attempts s))" by (simp add: table_ok_def)
    show "k = k'" if "(k, a) \<in> set (attempts s)" "(k', a') \<in> set (attempts s)"
      "running_for (scope_of c) sid k a" "running_for (scope_of c) sid k' a'" for k a k' a'
      using that one_running_eq[OF ok, of k a k' a'] table_ok_mem[OF tab] by (auto simp: running_for_def)
  qed
  then have "\<exists>e. start_attempt ex c sid owner token cx uuid now s = (Inl e, s)"
    using False
    by (auto simp: start_attempt_def Let_def not_executable_def split: sum.split option.split prod.split)
  with refused show thesis by blast
qed

lemma start_attempt_exec_ok:
  assumes ok: "exec_ok s" and t: "tables_ok s"
    and fresh: "dget (attempts s) (mk_key (scope_of c) uuid) = None"
  shows "exec_ok (snd (start_attempt ex c sid owner token cx uuid now s))"
  using ok t
proof (cases rule: start_attempt_cases[where ex = ex and c = c and sid = sid and owner = owner
      and token = token and cx = cx and uuid = uuid and now = now])
  case (refused e)
  then show ?thesis using ok by simp
next
  case (started new d su l)
  let ?k = "mk_key (scope_of c) uuid"
  let ?s = "s\<lparr>attempts := dput ?k new d\<rparr>"
  have rows: "(k = ?k \<and> a = new) \<or> (k \<noteq> ?k \<and> (\<exists>a0. dget (attempts s) k = Some a0
      \<and> a = (if running_for (scope_of c) sid k a0 then lost now a0 else a0)))"
    if "dget (attempts ?s) k = Some a" for k a
    using that started(12)[of k] by (cases "dget (attempts s) k") (auto split: if_splits)
  have "attempt_ok ?s k a" if "dget (attempts ?s) k = Some a" for k a
    using rows[OF that]
  proof (elim disjE conjE exE)
    assume "k = ?k" "a = new"
    then show ?thesis using started(2-11) by (simp add: attempt_ok_def Let_def not_executable_def)
  next
    fix a0
    assume a0: "dget (attempts s) k = Some a0"
      "a = (if running_for (scope_of c) sid k a0 then lost now a0 else a0)"
    have "attempt_ok s k a0" using ok a0(1) by (simp add: exec_ok_def)
    then show ?thesis using a0(2) by (auto simp: attempt_ok_def Let_def)
  qed
  moreover have "one_running ?s"
    unfolding one_running_def
  proof (intro allI impI)
    fix k a k' a'
    assume r: "dget (attempts ?s) k = Some a" "dget (attempts ?s) k' = Some a'"
      "at_status a = A_running" "at_status a' = A_running" "key_scope k = key_scope k'"
      "at_submission a = at_submission a'"
    have keep: "dget (attempts s) x = Some b \<and> \<not> running_for (scope_of c) sid x b"
      if "dget (attempts ?s) x = Some b" "at_status b = A_running" "x \<noteq> ?k" for x b
      using rows[OF that(1)] that(2,3) by (auto split: if_splits)
    show "k = k'"
    proof (cases "k = ?k"; cases "k' = ?k")
      assume "k \<noteq> ?k" "k' \<noteq> ?k"
      then show ?thesis using keep r one_running_eq[OF ok] by blast
    next
      assume k: "k = ?k" "k' \<noteq> ?k"
      then have "a = new" using r(1) by simp
      then show ?thesis using keep[OF r(2,4) k(2)] k r(4-6) started(2) by (auto simp: running_for_def)
    next
      assume k: "k \<noteq> ?k" "k' = ?k"
      then have "a' = new" using r(2) by simp
      then show ?thesis using keep[OF r(1,3) k(1)] k r(3-6) started(2) by (auto simp: running_for_def)
    qed simp
  qed
  ultimately show ?thesis
    using ok started(1) by (simp add: exec_ok_def)
qed

subsection \<open>The idempotency index\<close>

definition idem_key_of :: "submission \<Rightarrow> idem_key" where
  "idem_key_of su = ((su_tenant su, su_workspace su), of_opt (su_issuer su), su_kind su,
     su_subject su, su_operation su, su_idempotency_key su)"

text \<open>The index and the submissions are two views of one bijection.\<close>

definition idem_ok :: "store \<Rightarrow> bool" where
  "idem_ok s \<longleftrightarrow>
     (\<forall>ik sid. dget (idempotency s) ik = Some sid \<longrightarrow>
        (\<exists>su. dget (submissions s) (mk_key (idem_scope ik) sid) = Some su \<and> idem_key_of su = ik))
     \<and> (\<forall>k su. dget (submissions s) k = Some su \<longrightarrow>
          dget (idempotency s) (idem_key_of su) = Some (su_id su))"

lemma idem_ok_empty: "idem_ok (empty_store lim)"
  by (simp add: idem_ok_def empty_store_def)

lemma idem_key_of_le: "sub_le a b \<Longrightarrow> idem_key_of b = idem_key_of a \<and> su_id b = su_id a"
  using sub_identityD[of b a] by (simp add: sub_le_def idem_key_of_def)

lemma idem_key_new:
  "idem_key_of (new_submission ex c rq sid now) = idem_of c (rq_operation rq) (rq_idempotency_key rq)"
  by (simp add: idem_key_of_def new_submission_def idem_of_def scope_of_def)

text \<open>Calls that admit nothing.\<close>

definition no_admission :: "store \<Rightarrow> store \<Rightarrow> bool" where
  "no_admission s s' \<longleftrightarrow> idempotency s' = idempotency s
     \<and> (\<forall>k. dget (submissions s') k \<noteq> None \<longrightarrow> dget (submissions s) k \<noteq> None)
     \<and> (\<forall>k. dget (outboxes s') k \<noteq> None \<longrightarrow> dget (outboxes s) k \<noteq> None)"

lemma no_admission_same: "same_work s s' \<Longrightarrow> no_admission s s'"
  by (simp add: no_admission_def same_defs)

lemma no_admission_trans: "no_admission s s' \<Longrightarrow> no_admission s' s'' \<Longrightarrow> no_admission s s''"
  by (simp add: no_admission_def)

lemma idem_ok_keep:
  assumes ok: "idem_ok s" and e: "store_evolves own s s'" and n: "no_admission s s'"
  shows "idem_ok s'"
  unfolding idem_ok_def
proof (intro conjI allI impI)
  fix ik sid assume "dget (idempotency s') ik = Some sid"
  then obtain su where su: "dget (submissions s) (mk_key (idem_scope ik) sid) = Some su"
    "idem_key_of su = ik"
    using ok n by (auto simp: idem_ok_def no_admission_def)
  obtain su' where "dget (submissions s') (mk_key (idem_scope ik) sid) = Some su'"
    "su' = su \<or> sub_le su su'"
    using su(1) by (rule evolved_submission[OF e])
  then show "\<exists>su. dget (submissions s') (mk_key (idem_scope ik) sid) = Some su \<and> idem_key_of su = ik"
    using su(2) idem_key_of_le by auto
next
  fix k su' assume su': "dget (submissions s') k = Some su'"
  then obtain su where su: "dget (submissions s) k = Some su" using n by (fastforce simp: no_admission_def)
  then obtain su2 where "dget (submissions s') k = Some su2" "su2 = su \<or> sub_le su su2"
    by (rule evolved_submission[OF e])
  then have "idem_key_of su' = idem_key_of su" "su_id su' = su_id su"
    using su' idem_key_of_le[of su su'] by auto
  then show "dget (idempotency s') (idem_key_of su') = Some (su_id su')"
    using ok n su by (simp add: idem_ok_def no_admission_def)
qed

lemma mark_published_no_admission: "no_admission s (snd (mark_published c oid now s))"
  by (auto simp: no_admission_def mark_published_def Let_def split: option.splits)

lemma reconcile_terminal_outbox_keys:
  "\<forall>(k, row) \<in> set rows. dget (outboxes s) k \<noteq> None \<Longrightarrow>
   dget (outboxes (snd (reconcile_terminal_loop sc now limit rows acc s))) k \<noteq> None \<Longrightarrow>
   dget (outboxes s) k \<noteq> None"
proof (induction sc now limit rows acc s rule: reconcile_terminal_loop.induct)
  case (2 sc now limit k0 row rest acc s)
  then show ?case by (fastforce split: option.splits if_splits)
qed simp

lemma reconcile_terminal_no_admission:
  assumes "tables_ok s"
  shows "no_admission s (snd (reconcile_terminal_outbox c limit now s))"
proof -
  have tab: "table_ok keyed_outbox (outboxes s)" using assms by (simp add: tables_ok_def)
  let ?rows = "sort_key (\<lambda>(k, row). (iso_key (ob_created_at row), ob_id row))
    (filter (\<lambda>(k, row). key_scope k = scope_of c \<and> ob_published_at row = None) (outboxes s))"
  have rows: "\<forall>(k, row) \<in> set ?rows. dget (outboxes s) k \<noteq> None"
  proof
    fix x assume m: "x \<in> set ?rows"
    obtain k row where x: "x = (k, row)" by (cases x)
    show "case x of (k, row) \<Rightarrow> dget (outboxes s) k \<noteq> None"
      using scan_rows[OF tab m[unfolded x]] by (simp add: x)
  qed
  have "dget (outboxes s) k \<noteq> None"
    if "dget (outboxes (snd (reconcile_terminal_outbox c limit now s))) k \<noteq> None" for k
    using reconcile_terminal_outbox_keys[OF rows, of "scope_of c" now limit "[]" k] that
    by (simp add: reconcile_terminal_outbox_def Let_def case_prod_unfold)
  then show ?thesis by (simp add: no_admission_def frame_simps)
qed

lemma cancel_no_admission: "no_admission s (snd (cancel_submission c sid now s))"
  by (auto simp: no_admission_def cancel_submission_def Let_def split: option.splits)

lemma finalize_cancel_idem [frame_simps]:
  "idempotency (finalize_cancel c now ack k su s) = idempotency s"
  "admission_limit (finalize_cancel c now ack k su s) = admission_limit s"
  by (simp_all add: finalize_cancel_def Let_def lose_running_def record_unknown_effect_def
      cancel_dispatch_row_def ack_submission_outbox_def split: option.split)

lemma finalize_cancel_outboxes:
  "dget (outboxes (finalize_cancel c now ack k su s)) k' = None \<longleftrightarrow> dget (outboxes s) k' = None"
  by (simp add: finalize_cancel_def Let_def lose_running_def record_unknown_effect_def
      cancel_dispatch_row_def ack_submission_outbox_def split: option.split)

lemma reconcile_cancelled_no_admission:
  assumes "tables_ok s"
  shows "no_admission s (snd (reconcile_cancelled_submissions c limit ack sid r now s))"
proof (rule reconcile_cancelled_induct[OF assms])
  show "no_admission s s" by (simp add: no_admission_def)
  fix s1 k su assume "no_admission s s1" "dget (submissions s1) k = Some su"
  then show "no_admission s (finalize_cancel c now ack k su s1)"
    by (auto simp: no_admission_def frame_simps finalize_cancel_outboxes)
qed

lemma finish_attempt_no_admission: "no_admission s (snd (finish_attempt c aid owner token st now s))"
  by (cases rule: finish_attempt_cases[of c aid owner token st now s])
    (auto simp: no_admission_def)

lemma start_attempt_no_admission:
  assumes "exec_ok s" "tables_ok s"
  shows "no_admission s (snd (start_attempt ex c sid owner token cx uuid now s))"
  using assms
  by (cases rule: start_attempt_cases[where ex = ex and c = c and sid = sid and owner = owner
      and token = token and cx = cx and uuid = uuid and now = now])
    (simp_all add: no_admission_def)

text \<open>The outcomes of an acceptance.\<close>

lemma accept_cases:
  obtains (refused) e where "accept ex c rq us uo now s = (Inl e, s)"
  | (replayed) sid0 prior where "accept ex c rq us uo now s = (Inr (prior, False), s)"
      "accept_guards rq = None"
      "dget (idempotency s) (idem_of c (rq_operation rq) (rq_idempotency_key rq)) = Some sid0"
      "dget (submissions s) (mk_key (scope_of c) sid0) = Some prior"
      "recorded_inputs prior = requested_inputs ex c rq"
  | (admitted) sid where "accept ex c rq us uo now s
        = (Inr (new_submission ex c rq sid now, True), accept_store ex c rq sid uo now s)"
      "accept_guards rq = None"
      "dget (idempotency s) (idem_of c (rq_operation rq) (rq_idempotency_key rq)) = None"
      "sid = (case rq_submission_id rq of None \<Rightarrow> us | Some i \<Rightarrow> i)"
      "rq_submission_id rq = None \<or> dget (submissions s) (mk_key (scope_of c) sid) = None"
      "ro_status (route_state s (rq_route rq)) = R_active"
      "\<And>lim. admission_limit s = Some lim \<Longrightarrow> in_flight s (cx_tenant c) < lim"
proof (cases "accept_guards rq")
  case (Some e)
  then show thesis using refused[of e] by (simp add: accept_def)
next
  case guards: None
  show thesis
  proof (cases "dget (idempotency s) (idem_of c (rq_operation rq) (rq_idempotency_key rq))")
    case (Some i)
    show thesis
    proof (cases "\<exists>prior. accept_replay ex c rq i s = (Inr (prior, False), s)
        \<and> dget (submissions s) (mk_key (scope_of c) i) = Some prior
        \<and> recorded_inputs prior = requested_inputs ex c rq")
      case True
      then show thesis using guards Some replayed[of _ i] by (auto simp: accept_def)
    next
      case False
      then have "\<exists>e. accept_replay ex c rq i s = (Inl e, s)"
        by (auto simp: accept_replay_def split: option.splits if_splits)
      then show thesis using guards Some refused by (auto simp: accept_def)
    qed
  next
    case None
    let ?sid = "case rq_submission_id rq of None \<Rightarrow> us | Some i \<Rightarrow> i"
    have run: "accept ex c rq us uo now s = accept_new ex c rq us uo now s"
      using guards None by (simp add: accept_def)
    show thesis
    proof (cases "ro_status (route_state s (rq_route rq)) = R_active
        \<and> (\<forall>lim. admission_limit s = Some lim \<longrightarrow> in_flight s (cx_tenant c) < lim)
        \<and> (rq_submission_id rq = None \<or> dget (submissions s) (mk_key (scope_of c) ?sid) = None)")
      case True
      then have "accept ex c rq us uo now s
          = (Inr (new_submission ex c rq ?sid now, True), accept_store ex c rq ?sid uo now s)"
        unfolding run accept_new_def by (auto split: option.split)
      then show thesis using admitted guards None True by blast
    next
      case False
      then have "\<exists>e. accept ex c rq us uo now s = (Inl e, s)"
        unfolding run accept_new_def by (auto split: option.split)
      then show thesis using refused by blast
    qed
  qed
qed

lemma accept_idem_ok:
  assumes ok: "idem_ok s" and t: "tables_ok s"
    and fresh: "dget (submissions s) (mk_key (scope_of c) us) = None"
  shows "idem_ok (snd (accept ex c rq us uo now s))"
proof (cases rule: accept_cases[of ex c rq us uo now s])
  case (admitted sid)
  have free: "dget (submissions s) (mk_key (scope_of c) sid) = None"
    using admitted(4,5) fresh by (cases "rq_submission_id rq") auto
  define ik where "ik = idem_of c (rq_operation rq) (rq_idempotency_key rq)"
  define su where "su = new_submission ex c rq sid now"
  have ik: "idem_key_of su = ik" "idem_scope ik = scope_of c" "su_id su = sid"
    by (simp_all add: ik_def su_def idem_key_new idem_scope_def idem_of_def)
      (simp add: new_submission_def)
  have none: "dget (idempotency s) ik = None" using admitted(3) by (simp add: ik_def)
  have s': "submissions (snd (accept ex c rq us uo now s)) = dput (mk_key (scope_of c) sid) su (submissions s)"
    "idempotency (snd (accept ex c rq us uo now s)) = dput ik sid (idempotency s)"
    by (simp_all add: admitted(1) accept_store_def ik_def su_def)
  have old: "\<exists>x. dget (submissions s) (mk_key (idem_scope i) j) = Some x \<and> idem_key_of x = i
      \<and> mk_key (idem_scope i) j \<noteq> mk_key (scope_of c) sid"
    if ij: "dget (idempotency s) i = Some j" for i j
  proof -
    obtain x where x: "dget (submissions s) (mk_key (idem_scope i) j) = Some x" "idem_key_of x = i"
      using ok ij unfolding idem_ok_def by blast
    moreover from x(1) free have "mk_key (idem_scope i) j \<noteq> mk_key (scope_of c) sid" by force
    ultimately show ?thesis by blast
  qed
  have new: "dget (idempotency s) (idem_key_of x) = Some (su_id x)"
    if "dget (submissions s) k = Some x" for k x
    using ok that unfolding idem_ok_def by blast
  show ?thesis
    unfolding idem_ok_def s'
  proof (intro conjI allI impI)
    fix i j assume ij: "dget (dput ik sid (idempotency s)) i = Some j"
    show "\<exists>x. dget (dput (mk_key (scope_of c) sid) su (submissions s)) (mk_key (idem_scope i) j) = Some x
        \<and> idem_key_of x = i"
    proof (cases "i = ik")
      case True
      with ij ik show ?thesis by simp
    next
      case False
      with ij have "dget (idempotency s) i = Some j" by simp
      from old[OF this] show ?thesis by auto
    qed
  next
    fix k x assume x: "dget (dput (mk_key (scope_of c) sid) su (submissions s)) k = Some x"
    show "dget (dput ik sid (idempotency s)) (idem_key_of x) = Some (su_id x)"
    proof (cases "k = mk_key (scope_of c) sid")
      case True
      with x ik show ?thesis by simp
    next
      case False
      with x have "dget (submissions s) k = Some x" by simp
      from new[OF this] none show ?thesis by force
    qed
  qed
qed (use ok in simp_all)

subsection \<open>One outbox row for every submission\<close>

definition outbox_keys :: "store \<Rightarrow> key \<Rightarrow> key set" where
  "outbox_keys s k = {x. key_scope x = key_scope k
     \<and> map_option ob_submission (dget (outboxes s) x) = Some (key_id k)}"

definition outbox_ok :: "store \<Rightarrow> bool" where
  "outbox_ok s \<longleftrightarrow> (\<forall>k. if dget (submissions s) k = None then outbox_keys s k = {}
     else (\<exists>x. outbox_keys s k = {x}))"

lemma outbox_ok_empty: "outbox_ok (empty_store lim)"
  by (simp add: outbox_ok_def empty_store_def outbox_keys_def)

lemma outbox_keys_keep:
  assumes "store_evolves own s s'" "no_admission s s'"
  shows "outbox_keys s' k = outbox_keys s k"
proof -
  have "map_option ob_submission (dget (outboxes s') x) = map_option ob_submission (dget (outboxes s) x)" for x
  proof (cases "dget (outboxes s) x")
    case None
    then show ?thesis using assms(2) by (fastforce simp: no_admission_def)
  next
    case (Some ob)
    then obtain ob' where "dget (outboxes s') x = Some ob'" "ob' = ob \<or> out_le ob ob'"
      by (rule evolved_outbox[OF assms(1)])
    then show ?thesis using Some by (auto simp: out_le_def publish_row_def)
  qed
  then show ?thesis by (simp add: outbox_keys_def)
qed

lemma submissions_keep:
  assumes "store_evolves own s s'" "no_admission s s'"
  shows "dget (submissions s') k = None \<longleftrightarrow> dget (submissions s) k = None"
proof (cases "dget (submissions s) k")
  case None
  then show ?thesis using assms(2) by (auto simp: no_admission_def)
next
  case (Some su)
  then show ?thesis by (rule evolved_submission[OF assms(1)]) (simp add: Some)
qed

lemma outbox_ok_keep:
  assumes "outbox_ok s" "store_evolves own s s'" "no_admission s s'"
  shows "outbox_ok s'"
  using assms(1) outbox_keys_keep[OF assms(2,3)] submissions_keep[OF assms(2,3)]
  by (simp add: outbox_ok_def)

lemma accept_outbox_ok:
  assumes ok: "outbox_ok s"
    and fresh: "dget (submissions s) (mk_key (scope_of c) us) = None"
      "dget (outboxes s) (mk_key (scope_of c) uo) = None"
  shows "outbox_ok (snd (accept ex c rq us uo now s))"
proof (cases rule: accept_cases[of ex c rq us uo now s])
  case (admitted sid)
  let ?s = "accept_store ex c rq sid uo now s"
  have free: "dget (submissions s) (mk_key (scope_of c) sid) = None"
    using admitted(4,5) fresh by (cases "rq_submission_id rq") auto
  have keys: "outbox_keys ?s k = outbox_keys s k
      \<union> (if k = mk_key (scope_of c) sid then {mk_key (scope_of c) uo} else {})" for k
    using fresh(2) by (auto simp: outbox_keys_def accept_store_def mk_key_eq_iff split: if_splits)
  have "if dget (submissions ?s) k = None then outbox_keys ?s k = {} else (\<exists>x. outbox_keys ?s k = {x})" for k
  proof (cases "k = mk_key (scope_of c) sid")
    case True
    then have "outbox_keys s k = {}" using ok free unfolding outbox_ok_def by metis
    then show ?thesis using True keys by (simp add: accept_store_def)
  next
    case False
    then show ?thesis using ok keys unfolding outbox_ok_def by (simp add: accept_store_def)
  qed
  then show ?thesis using admitted(1) by (simp add: outbox_ok_def)
qed (use ok in simp_all)

subsection \<open>The admission limit\<close>

definition admission_ok :: "store \<Rightarrow> bool" where
  "admission_ok s \<longleftrightarrow> (\<forall>lim t. admission_limit s = Some lim \<longrightarrow> in_flight s t \<le> lim)"

lemma admission_ok_empty: "admission_ok (empty_store lim)"
  by (simp add: admission_ok_def empty_store_def in_flight_def)

lemma in_flight_keep:
  assumes "store_evolves own s s'" "no_admission s s'" "tables_ok s"
  shows "in_flight s' t \<le> in_flight s t"
  unfolding in_flight_def
proof (rule dcount_le_rows)
  show "distinct (map fst (submissions s))" "distinct (map fst (submissions s'))"
    using assms(3) tables_ok_evolves[OF assms(1,3)] by (simp_all add: tables_ok_def table_ok_def)
  fix k su' assume su': "dget (submissions s') k = Some su'" "fst k = t \<and> non_terminal (su_status su')"
  then obtain su where su: "dget (submissions s) k = Some su"
    using assms(2) by (fastforce simp: no_admission_def)
  obtain x where "dget (submissions s') k = Some x" "x = su \<or> sub_le su x"
    using su by (rule evolved_submission[OF assms(1)])
  then have "su_status su \<le> su_status su'" using su' by (auto simp: sub_le_def)
  then have "non_terminal (su_status su)"
    using su'(2) terminal_max[of "su_status su" "su_status su'"] by (auto simp: non_terminal_iff)
  with su su' show "\<exists>v. dget (submissions s) k = Some v \<and> fst k = t \<and> non_terminal (su_status v)"
    by blast
qed

lemma admission_ok_keep:
  assumes "admission_ok s" "store_evolves own s s'" "no_admission s s'" "tables_ok s"
  shows "admission_ok s'"
proof -
  have "admission_limit s' = admission_limit s" using assms(2) by (simp add: store_evolves_def)
  then show ?thesis
    using assms(1) in_flight_keep[OF assms(2-4)] by (auto simp: admission_ok_def intro: le_trans)
qed

lemma accept_admission_ok:
  assumes ok: "admission_ok s" and fresh: "dget (submissions s) (mk_key (scope_of c) us) = None"
  shows "admission_ok (snd (accept ex c rq us uo now s))"
proof (cases rule: accept_cases[of ex c rq us uo now s])
  case (admitted sid)
  have "dget (submissions s) (mk_key (scope_of c) sid) = None"
    using admitted(4,5) fresh by (cases "rq_submission_id rq") auto
  then have "in_flight (accept_store ex c rq sid uo now s) t
      = in_flight s t + (if t = cx_tenant c then 1 else 0)" for t
    by (simp add: in_flight_def accept_store_def dcount_dput_new new_submission_def non_terminal_def
        mk_key_def scope_of_def)
  moreover have "admission_limit (accept_store ex c rq sid uo now s) = admission_limit s"
    by (simp add: accept_store_def)
  ultimately show ?thesis
    using ok admitted(7) unfolding admitted(1) by (auto simp: admission_ok_def Suc_leI)
qed (use ok in simp_all)

subsection \<open>Every call keeps the invariants\<close>

definition store_ok :: "store \<Rightarrow> bool" where
  "store_ok s \<longleftrightarrow> tables_ok s \<and> exec_ok s \<and> idem_ok s \<and> outbox_ok s \<and> admission_ok s"

lemma store_ok_empty: "store_ok (empty_store lim)"
  by (simp add: store_ok_def tables_ok_empty exec_ok_empty idem_ok_empty outbox_ok_empty
      admission_ok_empty)

lemma store_ok_keep:
  assumes "store_ok s" "store_evolves own s s'" "no_admission s s'" "exec_ok s'"
  shows "store_ok s'"
  using assms idem_ok_keep outbox_ok_keep admission_ok_keep tables_ok_evolves
  unfolding store_ok_def by blast

lemma accept_store_ok:
  assumes "store_ok s" "fresh_ids (scope_of c) (Work (Accept rq us uo now)) s"
  shows "store_ok (snd (accept ex c rq us uo now s))"
    and "store_evolves (within c) s (snd (accept ex c rq us uo now s))"
proof -
  have f: "dget (submissions s) (mk_key (scope_of c) us) = None"
    "dget (outboxes s) (mk_key (scope_of c) uo) = None"
    using assms(2) by (simp_all add: fresh_ids_def)
  show e: "store_evolves (within c) s (snd (accept ex c rq us uo now s))"
    using f by (rule accept_evolves)
  show "store_ok (snd (accept ex c rq us uo now s))"
    using assms(1) tables_ok_evolves[OF e] accept_exec_ok[OF _ e f(1)]
      accept_idem_ok[OF _ _ f(1)] accept_outbox_ok[OF _ f] accept_admission_ok[OF _ f(1)]
    by (simp add: store_ok_def)
qed

lemma work_call_ok:
  assumes ok: "store_ok s" and fresh: "fresh_ids (scope_of c) (Work op) s"
  shows "store_ok (snd (run_work ex c op s)) \<and> store_evolves (within c) s (snd (run_work ex c op s))"
proof -
  have t: "tables_ok s" and x: "exec_ok s" using ok by (simp_all add: store_ok_def)
  show ?thesis
  proof (cases op)
    case (Accept rq us uo now)
    then show ?thesis using accept_store_ok[OF ok] fresh by simp
  next
    case (Mark_published oid now)
    then show ?thesis
      using store_ok_keep[OF ok mark_published_evolves mark_published_no_admission
          mark_published_exec_ok[OF x]] mark_published_evolves by simp
  next
    case (Reconcile_terminal limit now)
    then show ?thesis
      using store_ok_keep[OF ok reconcile_terminal_outbox_evolves[OF t]
          reconcile_terminal_no_admission[OF t] reconcile_terminal_exec_ok[OF x]]
        reconcile_terminal_outbox_evolves[OF t] by simp
  next
    case (Cancel sid now)
    then show ?thesis
      using store_ok_keep[OF ok cancel_submission_evolves cancel_no_admission
          cancel_submission_exec_ok[OF x]] cancel_submission_evolves by simp
  next
    case (Reconcile_cancelled limit ack sid r now)
    then show ?thesis
      using store_ok_keep[OF ok reconcile_cancelled_evolves[OF t] reconcile_cancelled_no_admission[OF t]
          reconcile_cancelled_exec_ok[OF x t]] reconcile_cancelled_evolves[OF t] by simp
  qed
qed

lemma lease_call_ok:
  assumes ok: "store_ok s" and fresh: "fresh_ids (scope_of c) (Execute op) s"
  shows "store_ok (snd (run_lease ex c op s)) \<and> store_evolves (within c) s (snd (run_lease ex c op s))"
proof -
  have t: "tables_ok s" and x: "exec_ok s" using ok by (simp_all add: store_ok_def)
  note same = no_admission_same
  have pub: "store_ok s'" if "same_exec s s'" "store_evolves (within c) s s'" for s'
    using store_ok_keep[OF ok that(2) _ exec_ok_same[OF x that(1)]] that(1) same
    by (simp add: same_exec_def)
  show ?thesis
  proof (cases op)
    case (Acquire_lease sid owner ttl now)
    then show ?thesis
      using store_ok_keep[OF ok acquire_lease_evolves[OF t] same[OF lease_frames(1)]
          lease_exec_ok(1)[OF x t]] acquire_lease_evolves[OF t] by simp
  next
    case (Heartbeat sid owner token ttl now)
    then show ?thesis
      using store_ok_keep[OF ok heartbeat_evolves same[OF lease_frames(2)] lease_exec_ok(2)[OF x]]
        heartbeat_evolves by simp
  next
    case (Release_lease sid owner token now)
    then show ?thesis
      using store_ok_keep[OF ok release_lease_evolves same[OF lease_frames(3)] lease_exec_ok(3)[OF x]]
        release_lease_evolves by simp
  next
    case (Start_attempt sid owner token cx uuid now)
    then have f: "dget (attempts s) (mk_key (scope_of c) uuid) = None"
      using fresh by (simp add: fresh_ids_def)
    show ?thesis
      using store_ok_keep[OF ok start_attempt_evolves[OF t f] start_attempt_no_admission[OF x t]
          start_attempt_exec_ok[OF x t f]] start_attempt_evolves[OF t f] Start_attempt by simp
  next
    case (Finish_attempt aid owner token st now)
    then show ?thesis
      using store_ok_keep[OF ok finish_attempt_evolves_ok[OF x] finish_attempt_no_admission
          finish_attempt_exec_ok[OF x]] finish_attempt_evolves_ok[OF x] by simp
  next
    case (Record_publication r owner token now)
    then show ?thesis
      using pub[OF publication_frames(1) record_result_publication_evolves[OF t]]
        record_result_publication_evolves[OF t] by simp
  next
    case (Publish_result sid aid sha now)
    then show ?thesis
      using pub[OF publication_frames(2) mark_result_publication_evolves]
        mark_result_publication_evolves by simp
  qed
qed

lemma state_evolves:
  assumes "tables_ok s"
  shows "store_evolves (within c) s (snd (run_state ex c op s))"
  by (cases op)
    (simp_all add: compare_and_swap_evolves diagnose_checkpoint_evolves acknowledge_baseline_evolves
      record_effect_def record_attempt_effect_def record_effect_with_evolves assms)

lemma route_evolves:
  assumes "tables_ok s"
  shows "store_evolves (within c) s (snd (run_route ex c op s))"
  by (cases op)
    (simp_all add: reserve_route_evolves release_route_evolves release_reference_evolves
      transition_route_evolves assms)

lemma dispatch_evolves: "store_evolves (within c) s (snd (run_dispatch ex c op s))"
  by (cases op)
    (simp_all add: prepare_dispatch_evolves claim_dispatch_evolves link_dispatch_evolves
      release_dispatch_evolves rearm_failure_evolves rearm_missing_evolves rearm_reconciled_evolves)

lemma action_evolves:
  assumes "tables_ok s" "fresh_ids (scope_of c) (Act op) s"
  shows "store_evolves (within c) s (snd (run_action ex c op s))"
  using assms
  by (cases op)
    (simp_all add: accept_action_evolves cancel_action_evolves claim_action_evolves
      heartbeat_action_evolves mark_accepting_evolves finish_action_evolves cleanup_actions_evolves
      fresh_ids_def)

lemma preview_evolves: "store_evolves (within c) s (snd (run_preview ex c op s))"
  by (cases op)
    (simp_all add: create_preview_evolves mark_stale_evolves record_diff_evolves
      authorize_shadow_evolves cleanup_previews_evolves)

lemma run_ok:
  assumes ok: "store_ok s" and fresh: "fresh_ids (scope_of c) op s"
  shows "store_ok (snd (run ex c op s)) \<and> store_evolves (within c) s (snd (run ex c op s))"
proof -
  have t: "tables_ok s" and x: "exec_ok s" using ok by (simp_all add: store_ok_def)
  have frame: "store_ok s' \<and> store_evolves (within c) s s'"
    if "same_exec s s'" "store_evolves (within c) s s'" for s'
    using store_ok_keep[OF ok that(2) _ exec_ok_same[OF x that(1)]] that no_admission_same
    by (simp add: same_exec_def)
  show ?thesis
  proof (cases op)
    case (Work w) then show ?thesis using work_call_ok[OF ok] fresh by simp
  next
    case (Execute w) then show ?thesis using lease_call_ok[OF ok] fresh by simp
  next
    case (State w) then show ?thesis using frame[OF state_frames state_evolves[OF t]] by simp
  next
    case (Route w) then show ?thesis using frame[OF route_frames route_evolves[OF t]] by simp
  next
    case (Dispatch w) then show ?thesis using frame[OF dispatch_frames dispatch_evolves] by simp
  next
    case (Act w)
    then show ?thesis using frame[OF action_frames action_evolves[OF t]] fresh by simp
  next
    case (Preview w) then show ?thesis using frame[OF preview_frames preview_evolves] by simp
  qed
qed

lemma step_ok:
  assumes "store_step ex c op s e s'" "store_ok s"
  shows "store_ok s'" "store_evolves (within c) s s'"
proof -
  have "fresh_ids (scope_of c) op s" "run ex c op s = (e, s')"
    using assms(1) by (auto simp: store_step_iff)
  then show "store_ok s'" "store_evolves (within c) s s'"
    using run_ok[OF assms(2), of c op ex] by auto
qed

lemma reachable_ok: "reachable ex s \<Longrightarrow> store_ok s"
  by (induction rule: reachable_induct) (auto simp: store_ok_empty dest: step_ok)

lemma store_evolves_any: "store_evolves own s s' \<Longrightarrow> store_evolves (\<lambda>_. True) s s'"
  unfolding store_evolves_def by (elim conjE, intro conjI) (auto elim!: evolves_mono)

lemma moves_ok:
  assumes "moves ex s s'" "store_ok s"
  shows "store_ok s' \<and> store_evolves (\<lambda>_. True) s s'"
  using assms
proof (induction rule: moves.induct)
  case (go s s' c op e s'')
  then show ?case using step_ok store_evolves_any store_evolves_trans by blast
qed simp

end
