(* ===== verification/Durable_Contracts.thy ===== *)
theory Durable_Contracts
  imports Durable_Invariants
begin

text \<open>
  The contracts the components rely on, as locales, and the store's rows as their models: a fenced
  claim (execution leases, dispatch leases, action-job claims) and a versioned cell
  (checkpoints, baseline acknowledgements, route lifecycles).
\<close>

subsection \<open>Fenced claims\<close>

text \<open>
  A row carries a token and a holder.  \<open>admits r ow t now\<close> says that the row accepts a call from the
  holder \<open>ow\<close> with token \<open>t\<close>; \<open>later\<close> is how the row may change.
\<close>

locale fenced_claim =
  fixes fence :: "'r \<Rightarrow> nat \<times> string option"
    and admits :: "'r \<Rightarrow> string \<Rightarrow> nat \<Rightarrow> instant \<Rightarrow> bool"
    and later :: "'r \<Rightarrow> 'r \<Rightarrow> bool"
  assumes later_fence: "later a b \<Longrightarrow> fence_le (fence a) (fence b)"
    and admits_fence: "admits r ow t now \<Longrightarrow> fence r = (t, Some ow)"
begin

lemma exclusive: "admits r ow t now \<Longrightarrow> admits r ow' t' now' \<Longrightarrow> ow' = ow \<and> t' = t"
  by (auto dest!: admits_fence)

lemma lost_forever:
  assumes "admits a ow t now" "later a b" "fence b \<noteq> (t, Some ow)" "later b d"
  shows "\<not> admits d ow t now'"
proof
  assume "admits d ow t now'"
  then have "fence_le (fence b) (t, Some ow)" using later_fence[OF assms(4)] admits_fence by metis
  moreover have "fence_le (t, Some ow) (fence b)"
    using later_fence[OF assms(2)] admits_fence[OF assms(1)] by simp
  ultimately show False using assms(3) by (cases "fence b") (auto simp: fence_le_def)
qed

lemma superseded:
  assumes "admits a ow t now" "later a b" "admits b ow' t' now'" "(ow', t') \<noteq> (ow, t)" "later b d"
  shows "\<not> admits d ow t now''"
  by (rule lost_forever[OF assms(1,2) _ assms(5)]) (use admits_fence[OF assms(3)] assms(4) in auto)

lemma newer_token:
  assumes "admits a ow t now" "later a b" "admits b ow' t' now'" "ow' \<noteq> ow"
  shows "t < t'"
  using later_fence[OF assms(2)] admits_fence[OF assms(1)] admits_fence[OF assms(3)] assms(4)
  by (auto simp: fence_le_def)

end

definition lease_admits :: "lease \<Rightarrow> string \<Rightarrow> nat \<Rightarrow> instant \<Rightarrow> bool" where
  "lease_admits l ow t now \<longleftrightarrow> le_owner l = ow \<and> le_token l = t \<and> now < le_expires_at l"

definition dispatch_admits :: "dispatch \<Rightarrow> string \<Rightarrow> nat \<Rightarrow> instant \<Rightarrow> bool" where
  "dispatch_admits d ow t now \<longleftrightarrow>
     di_status d = D_leased \<and> di_owner d = Some ow \<and> di_token d = t"

definition job_admits :: "action_job \<Rightarrow> string \<Rightarrow> nat \<Rightarrow> instant \<Rightarrow> bool" where
  "job_admits j ow t now \<longleftrightarrow>
     aj_status j \<in> {J_running, J_cancel_requested} \<and> \<not> job_lease_lost ow t now j"

interpretation lease_claim: fenced_claim
  "\<lambda>l. (le_token l, Some (le_owner l))" lease_admits "\<lambda>a b. b = a \<or> lease_le a b"
  by unfold_locales (auto simp: lease_le_def lease_admits_def)

interpretation dispatch_claim: fenced_claim
  "\<lambda>d. (di_token d, di_owner d)" dispatch_admits "\<lambda>a b. b = a \<or> di_le a b"
  by unfold_locales (auto simp: di_le_def dispatch_admits_def)

interpretation job_claim: fenced_claim
  "\<lambda>j. (aj_token j, aj_worker j)" job_admits "\<lambda>a b. b = a \<or> aj_le a b"
  by unfold_locales (auto simp: aj_le_def job_admits_def job_lease_lost_def)

lemma require_lease_admits:
  "require_lease k ow t now s = Inr l \<longleftrightarrow> dget (leases s) k = Some l \<and> lease_admits l ow t now"
  by (auto simp: require_lease_def lease_admits_def split: option.split)

lemma require_lease_refuses:
  "(\<nexists>l. dget (leases s) k = Some l \<and> lease_admits l ow t now) \<Longrightarrow>
   require_lease k ow t now s = Inl (Conflict ''Stale or invalid execution lease'')"
  by (auto simp: require_lease_def lease_admits_def split: option.split)

subsection \<open>Versioned cells\<close>

text \<open>
  A cell of a state carries a version once it has been written.  \<open>swap e\<close> relates the states around
  a successful compare-and-swap that expected \<open>e\<close>; \<open>later\<close> is any history.
\<close>

fun version_le :: "nat option \<Rightarrow> nat option \<Rightarrow> bool" where
  "version_le None _ \<longleftrightarrow> True"
| "version_le (Some m) None \<longleftrightarrow> False"
| "version_le (Some m) (Some n) \<longleftrightarrow> m \<le> n"

lemma version_le_refl [simp]: "version_le v v"
  by (cases v) simp_all

locale versioned_cell =
  fixes version :: "'s \<Rightarrow> nat option"
    and swap :: "nat option \<Rightarrow> 's \<Rightarrow> 's \<Rightarrow> bool"
    and later :: "'s \<Rightarrow> 's \<Rightarrow> bool"
  assumes swap_version: "swap e s s' \<Longrightarrow>
      version s = e \<and> version s' = Some (case e of None \<Rightarrow> 1 | Some n \<Rightarrow> n + 1)"
    and later_version: "later s s' \<Longrightarrow> version_le (version s) (version s')"
begin

lemma stale:
  assumes "swap e s s1" "later s1 s2"
  shows "version s2 \<noteq> e"
  using swap_version[OF assms(1)] later_version[OF assms(2)]
  by (cases e; cases "version s2") auto

lemma swap_once: "swap e s s1 \<Longrightarrow> later s1 s2 \<Longrightarrow> \<not> swap e s2 s3"
  using stale swap_version by blast

lemma swap_grows:
  assumes "swap e s s1" "later s1 s2" "swap e' s2 s3"
  shows "\<exists>n. e' = Some n \<and> (case e of None \<Rightarrow> 1 | Some m \<Rightarrow> m + 1) \<le> n"
  using swap_version[OF assms(1)] later_version[OF assms(2)] swap_version[OF assms(3)]
  by (cases e') simp_all

end

text \<open>Histories that begin in a well-formed store.\<close>

definition history :: "externals \<Rightarrow> store \<Rightarrow> store \<Rightarrow> bool" where
  "history ex s s' \<longleftrightarrow> store_ok s \<and> moves ex s s'"

lemma history_evolves: "history ex s s' \<Longrightarrow> store_evolves (\<lambda>_. True) s s'"
  using moves_ok by (auto simp: history_def)

definition checkpoint_version :: "ctx \<Rightarrow> string \<Rightarrow> store \<Rightarrow> nat option" where
  "checkpoint_version c cid s = map_option ck_version (dget (checkpoints s) (mk_key (scope_of c) cid))"

definition checkpoint_swap :: "ctx \<Rightarrow> string \<Rightarrow> nat option \<Rightarrow> store \<Rightarrow> store \<Rightarrow> bool" where
  "checkpoint_swap c cid e s s' \<longleftrightarrow>
     (\<exists>v aid token base now new.
        compare_and_swap_checkpoint c cid e v aid token base now s = (Inr new, s'))"

lemma cas_succeeds:
  assumes "compare_and_swap_checkpoint c cid e v aid token base now s = (Inr new, s')"
  shows "namespaced cid" "checkpoint_version c cid s = e"
    "checkpoint_version c cid s' = Some (case e of None \<Rightarrow> 1 | Some n \<Rightarrow> n + 1)"
    "dget (checkpoints s') (mk_key (scope_of c) cid) = Some new" "ck_value new = v"
    "\<exists>a. cas_guards c cid e aid token now s = Inr a"
  using assms
  by (auto simp: compare_and_swap_checkpoint_def checkpoint_version_def cas_guards_def Let_def
      split: if_splits sum.splits option.splits)

interpretation checkpoint_cell: versioned_cell
  "checkpoint_version c cid" "checkpoint_swap c cid" "history ex" for c cid ex
proof
  show "checkpoint_version c cid s = e \<and>
      checkpoint_version c cid s' = Some (case e of None \<Rightarrow> 1 | Some n \<Rightarrow> n + 1)"
    if "checkpoint_swap c cid e s s'" for e s s'
    using that by (auto simp: checkpoint_swap_def dest: cas_succeeds(2,3))
  show "version_le (checkpoint_version c cid s) (checkpoint_version c cid s')"
    if h: "history ex s s'" for s s'
  proof (cases "dget (checkpoints s) (mk_key (scope_of c) cid)")
    case (Some ck)
    then show ?thesis
      by (rule evolved_checkpoint[OF history_evolves[OF h]])
        (auto simp: checkpoint_version_def Some ck_le_def)
  qed (simp add: checkpoint_version_def)
qed

definition baseline_version :: "ctx \<Rightarrow> string \<Rightarrow> store \<Rightarrow> nat option" where
  "baseline_version c bid s = map_option bl_version (dget (baselines s) (mk_key (scope_of c) bid))"

definition baseline_swap :: "ctx \<Rightarrow> string \<Rightarrow> nat option \<Rightarrow> store \<Rightarrow> store \<Rightarrow> bool" where
  "baseline_swap c bid e s s' \<longleftrightarrow>
     (\<exists>obs sid uuid now new. acknowledge_baseline c bid obs e sid uuid now s = (Inr new, s'))"

interpretation baseline_cell: versioned_cell
  "baseline_version c bid" "baseline_swap c bid" "history ex" for c bid ex
proof
  show "baseline_version c bid s = e \<and>
      baseline_version c bid s' = Some (case e of None \<Rightarrow> 1 | Some n \<Rightarrow> n + 1)"
    if "baseline_swap c bid e s s'" for e s s'
    using that
    by (auto simp: baseline_swap_def acknowledge_baseline_def baseline_version_def Let_def
        split: if_splits option.splits)
  show "version_le (baseline_version c bid s) (baseline_version c bid s')"
    if h: "history ex s s'" for s s'
  proof (cases "dget (baselines s) (mk_key (scope_of c) bid)")
    case (Some b)
    have "evolves ((\<lambda>_. True) \<circ> key_scope) keyed_baseline bl_le (baselines s) (baselines s')"
      using history_evolves[OF h] by (simp add: store_evolves_def)
    from evolves_old[OF this Some] show ?thesis
      by (auto simp: baseline_version_def Some bl_le_def)
  qed (simp add: baseline_version_def)
qed

end
