(* ===== verification/Durable_Samples.thy ===== *)
theory Durable_Samples
  imports Durable_Contracts
begin

text \<open>
  One small deployment that the witnesses evaluate: two callers, a local and a Prefect route, and
  stand-ins for the external functions.
\<close>

definition sample_ex :: externals where
  "sample_ex = \<lparr>ex_sha256 = (\<lambda>x. x), ex_redact_text = (\<lambda>x. x), ex_redact_context = (\<lambda>x. x),
     ex_redact_envelope = (\<lambda>x. x), ex_parse_envelope = (\<lambda>x. Some (''plan'', Some plan_schema)),
     ex_report = (\<lambda>x. Some (Some (Some ''etlantic.run_report/1'', Some ''run''))),
     ex_creation_identity = (\<lambda>k b g. key_id k @ replicate g CHR ''g''),
     ex_principal_identity = pr_subject, ex_action_identity = (\<lambda>a r. a @ r),
     ex_redact_request = (\<lambda>x. x), ex_redact_result = (\<lambda>x. of_opt x)\<rparr>"

definition alice :: ctx where
  "alice = \<lparr>cx_principal = \<lparr>pr_subject = ''alice'', pr_issuer = None, pr_kind = Human\<rparr>,
     cx_tenant = ''acme'', cx_workspace = ''main'', cx_environment = ''prod'', cx_domain = ''d'',
     cx_owner = None\<rparr>"

definition bob :: ctx where
  "bob = \<lparr>cx_principal = \<lparr>pr_subject = ''bob'', pr_issuer = None, pr_kind = Service\<rparr>,
     cx_tenant = ''acme'', cx_workspace = ''other'', cx_environment = ''prod'', cx_domain = ''d'',
     cx_owner = None\<rparr>"

definition sample_request :: "string \<Rightarrow> string \<Rightarrow> accept_request" where
  "sample_request idem r = \<lparr>rq_idempotency_key = idem, rq_operation = ''run'', rq_plan = ''plan'',
     rq_revision = None, rq_plugin = None, rq_policy = None, rq_input = Some ''envelope'',
     rq_observation = None, rq_baseline = None, rq_submission_id = None, rq_run_id = None,
     rq_route = r\<rparr>"

definition sample_route :: string where
  "sample_route = ''prefect:'' @ replicate 64 CHR ''a''"

text \<open>A submission accepted, leased by a host and running.\<close>

definition running_calls :: "(ctx \<times> call) list" where
  "running_calls =
     [(alice, Work (Accept (sample_request ''k'' ''local'') ''s1'' ''o1'' 0)),
      (alice, Work (Mark_published ''o1'' 1)),
      (alice, Execute (Acquire_lease ''s1'' ''host1'' 30 2)),
      (alice, Execute (Start_attempt ''s1'' ''host1'' 1 [] ''a1'' 3))]"

definition running_store :: store where
  "running_store = run_all sample_ex running_calls (empty_store (Some 5))"

lemma running_store_reachable: "reachable sample_ex running_store"
  unfolding running_store_def by (rule run_all_reachable) code_simp

end
