(* ===== verification/Durable_Recovery.thy ===== *)
theory Durable_Recovery
  imports Durable_Samples
begin

text \<open>
  Errors, takeover, cancellation and the versioned state of the durable work store.
\<close>

subsection \<open>A call that raises leaves no trace\<close>

definition atomic :: "store \<Rightarrow> (store, 'a) outcome \<Rightarrow> bool" where
  "atomic s r \<longleftrightarrow> (\<forall>e. fst r = Inl e \<longrightarrow> snd r = s)"

lemma atomic_simps [simp]: "atomic s (Inl e, s') \<longleftrightarrow> s' = s" "atomic s (Inr x, s')"
  by (simp_all add: atomic_def)

lemma atomic_branch: "(b \<Longrightarrow> atomic s x) \<Longrightarrow> (\<not> b \<Longrightarrow> atomic s y) \<Longrightarrow> atomic s (if b then x else y)"
  by simp

lemma atomic_erase: "atomic s r \<Longrightarrow> erase r = (Some e, s') \<Longrightarrow> s' = s"
  by (cases r) (auto simp: atomic_def erase_def split: sum.splits)

lemma accept_atomic: "atomic s (accept ex c rq us uo now s)"
  by (cases rule: accept_cases[of ex c rq us uo now s]) simp_all

lemma mark_published_atomic:
  assumes "outbox_ok s"
  shows "atomic s (mark_published c oid now s)"
proof -
  have "dget (submissions s) (mk_key (scope_of c) (ob_submission ob)) \<noteq> None"
    if ob: "dget (outboxes s) (mk_key (scope_of c) oid) = Some ob" for ob
  proof
    assume "dget (submissions s) (mk_key (scope_of c) (ob_submission ob)) = None"
    then have "outbox_keys s (mk_key (scope_of c) (ob_submission ob)) = {}"
      using assms unfolding outbox_ok_def by metis
    moreover have "mk_key (scope_of c) oid \<in> outbox_keys s (mk_key (scope_of c) (ob_submission ob))"
      using ob by (simp add: outbox_keys_def)
    ultimately show False by simp
  qed
  then show ?thesis
    by (auto simp: mark_published_def Let_def split: option.split)
qed

lemma work_atomic:
  assumes "store_ok s" "run_work ex c op s = (Some e, s')"
  shows "s' = s"
proof -
  have ok: "outbox_ok s" using assms(1) by (simp add: store_ok_def)
  show ?thesis
  proof (cases op)
    case (Accept rq us uo now)
    then show ?thesis using assms(2) atomic_erase[OF accept_atomic] by simp
  next
    case (Mark_published oid now)
    then show ?thesis using assms(2) atomic_erase[OF mark_published_atomic[OF ok]] by simp
  next
    case (Reconcile_terminal limit now)
    then show ?thesis
      using assms(2) by (simp add: reconcile_terminal_outbox_def Let_def case_prod_unfold)
  next
    case (Cancel sid now)
    have "atomic s (cancel_submission c sid now s)"
      by (auto simp: cancel_submission_def Let_def split: option.split)
    then show ?thesis using assms(2) Cancel atomic_erase by fastforce
  next
    case (Reconcile_cancelled limit ack sid r now)
    have "atomic s (reconcile_cancelled_submissions c limit ack sid r now s)"
      by (simp add: reconcile_cancelled_submissions_def Let_def case_prod_unfold)
    then show ?thesis using assms(2) Reconcile_cancelled atomic_erase by fastforce
  qed
qed

lemma lease_atomic:
  assumes "store_ok s" "run_lease ex c op s = (Some e, s')"
  shows "s' = s"
proof -
  have ok: "exec_ok s" "tables_ok s" using assms(1) by (simp_all add: store_ok_def)
  have start: "atomic s (start_attempt ex c sid owner token cx uuid now s)" for sid owner token cx uuid now
    using ok
    by (cases rule: start_attempt_cases[where ex = ex and c = c and sid = sid and owner = owner
        and token = token and cx = cx and uuid = uuid and now = now]) simp_all
  have rest:
    "atomic s (acquire_lease c sid owner ttl now s)" "atomic s (heartbeat c sid owner token ttl now s)"
    "atomic s (release_lease c sid owner token now s)"
    "atomic s (finish_attempt c aid owner token st now s)"
    "atomic s (record_result_publication ex c r owner token now s)"
    "atomic s (mark_result_publication_published c sid aid sha now s)"
    for sid owner ttl token now aid st r sha
    by (auto simp: acquire_lease_def heartbeat_def release_lease_def finish_attempt_def
        record_result_publication_def mark_result_publication_published_def Let_def
        split: option.split sum.split)
  show ?thesis
    using assms(2) by (cases op) (auto dest: atomic_erase[OF start] rest[THEN atomic_erase])
qed

lemma state_atomic:
  assumes "run_state ex c op s = (Some e, s')"
  shows "s' = s"
proof -
  have rest:
    "atomic s (compare_and_swap_checkpoint c cid expected v aid token base now s)"
    "atomic s (diagnose_checkpoint ex c cid kind detail uuid now s)"
    "atomic s (acknowledge_baseline c bid obs expected sid uuid now s)"
    "atomic s (record_effect_with ex c ef claim now s)"
    for cid expected v aid token base now kind detail uuid bid obs sid ef claim
    by (auto simp: compare_and_swap_checkpoint_def diagnose_checkpoint_def acknowledge_baseline_def
        record_effect_with_def Let_def split: option.split sum.split)
  show ?thesis
    using assms by (cases op) (auto simp: record_effect_def record_attempt_effect_def
        dest: rest[THEN atomic_erase])
qed

lemma route_atomic:
  assumes "run_route ex c op s = (Some e, s')"
  shows "s' = s"
proof -
  have rest:
    "atomic s (reserve_execution_route_reference r i s)"
    "atomic s (release_execution_route_reference r i s)"
    "atomic s (release_execution_route_reference_id i s)"
    "atomic s (transition_execution_route_state c r expected st now s)" for r i expected st now
    by (auto simp: reserve_execution_route_reference_def release_execution_route_reference_def
        release_execution_route_reference_id_def transition_execution_route_state_def Let_def
        split: option.split)
  show ?thesis using assms by (cases op) (auto dest: rest[THEN atomic_erase])
qed

lemma dispatch_atomic:
  assumes "run_dispatch ex c op s = (Some e, s')"
  shows "s' = s"
proof -
  have rearm: "atomic s (rearm_dispatch_if_unclaimed ex c sid rem reason age current wall s)"
    for sid rem reason age current wall
    unfolding rearm_dispatch_if_unclaimed_def Let_def
    by (cases "select_remote_run_id rem None"; cases "dget (dispatches s) (mk_key (scope_of c) sid)";
        cases "dget (submissions s) (mk_key (scope_of c) sid)") simp_all
  have reconcile: "atomic s (rearm_reconciliation_required_dispatch ex c sid expected rem leg ev now s)"
    for sid expected rem leg ev now
    unfolding rearm_reconciliation_required_dispatch_def Let_def
    by (cases "select_remote_run_id rem leg"; cases "dget (dispatches s) (mk_key (scope_of c) sid)";
        cases "dget (submissions s) (mk_key (scope_of c) sid)") simp_all
  have claim: "atomic s (claim_dispatch c sid owner secs now s)" for sid owner secs now
    unfolding claim_dispatch_def Let_def
    by (cases "dget (dispatches s) (mk_key (scope_of c) sid)";
        cases "dget (submissions s) (mk_key (scope_of c) sid)") simp_all
  have rest:
    "atomic s (prepare_dispatch ex c sid now s)"
    "atomic s (link_dispatch c sid owner token rem leg now s)"
    "atomic s (release_dispatch c sid owner token unc can code now s)"
    "atomic s (rearm_dispatch_after_remote_failure ex c sid rem leg current wall s)"
    "atomic s (rearm_dispatch_after_remote_missing ex c sid rem leg age current wall s)"
    for sid now owner token rem leg unc can code current wall age
    by (auto simp: prepare_dispatch_def link_dispatch_def release_dispatch_def
        rearm_dispatch_after_remote_failure_def rearm_dispatch_after_remote_missing_def rearm Let_def
        split: option.split sum.split)
  show ?thesis
    using assms by (cases op) (auto dest: rest[THEN atomic_erase] claim[THEN atomic_erase]
        reconcile[THEN atomic_erase])
qed

lemma preview_atomic:
  assumes "run_preview ex c op s = (Some e, s')"
  shows "s' = s"
proof -
  have rest:
    "atomic s (create_preview c p now s)" "atomic s (mark_preview_stale c pid code plan policy env s)"
    "atomic s (record_preview_diff c d s)" "atomic s (authorize_shadow_run c sh s)"
    "atomic s (cleanup_expired_previews c now s)" for p now pid code plan policy env d sh
    by (auto simp: create_preview_def mark_preview_stale_def record_preview_diff_def
        authorize_shadow_run_def cleanup_expired_previews_def Let_def split: option.split)
  show ?thesis using assms by (cases op) (auto dest: rest[THEN atomic_erase])
qed

lemma action_atomic:
  assumes "run_action ex c op s = (Some e, s')"
  shows "s' = s"
proof -
  have finish: "atomic s (finish_action_job ex c aid worker token st result code ttl now s)"
    for aid worker token st result code ttl now
  proof (cases "dget (action_jobs s) (mk_key (scope_of c) aid)")
    case None
    then show ?thesis by (simp add: finish_action_job_def)
  next
    case (Some j)
    have "atomic s (case finished_job ex st result code ttl ej now j of
          Inl e \<Rightarrow> raise_in s e
        | Inr j' \<Rightarrow> return_in
            (s\<lparr>action_jobs := dput (mk_key (scope_of c) aid) j' (action_jobs s)\<rparr>) j')" for ej
      by (cases "finished_job ex st result code ttl ej now j") simp_all
    then show ?thesis
      unfolding finish_action_job_def Let_def Some option.case by (intro atomic_branch) simp_all
  qed
  have rest:
    "atomic s (accept_action_job ex c action idem request deadline uuid now s)"
    "atomic s (cancel_action_job ex c aid now s)" "atomic s (claim_action_job c worker secs now s)"
    "atomic s (heartbeat_action_job c aid worker token secs now s)"
    "atomic s (mark_action_job_accepting c aid worker token now s)"
    "atomic s (cleanup_expired_action_results c limit now s)"
    for action idem request deadline uuid now aid worker secs token limit
    by (auto simp: accept_action_job_def cancel_action_job_def claim_action_job_def
        heartbeat_action_job_def mark_action_job_accepting_def cleanup_expired_action_results_def Let_def
        split: option.split list.split prod.split)
  show ?thesis
    using assms by (cases op) (auto dest: rest[THEN atomic_erase] finish[THEN atomic_erase])
qed

text \<open>
  C6: In a reachable store every call that raises, whatever the error, leaves the store exactly
  as it was; also the two operations that write before a check that can raise
  (\<open>mark_published\<close> and the supersession loop of \<open>start_attempt\<close>).
\<close>

lemma errors_leave_no_trace:
  assumes "reachable ex s" "store_step ex c op s (Some e) s'"
  shows "s' = s"
proof -
  have ok: "store_ok s" by (rule reachable_ok[OF assms(1)])
  have "run ex c op s = (Some e, s')" using assms(2) by (simp add: store_step_iff)
  then show ?thesis
    by (cases op) (auto dest: work_atomic[OF ok] lease_atomic[OF ok] state_atomic route_atomic
        dispatch_atomic action_atomic preview_atomic)
qed

lemma errors_leave_no_trace_witness:
  "snd (run sample_ex alice (Execute (Start_attempt ''s1'' ''host1'' 1 [] ''a2'' 4)) running_store)
     = running_store"
proof (rule errors_leave_no_trace[OF running_store_reachable])
  let ?op = "Execute (Start_attempt ''s1'' ''host1'' 1 [] ''a2'' 4)"
  have "fresh_ids (scope_of alice) ?op running_store" by code_simp
  moreover have "run sample_ex alice ?op running_store = (Some (Conflict
      ''Submission already has a running attempt with the current fencing token''),
      snd (run sample_ex alice ?op running_store))"
    by code_simp
  ultimately show "store_step sample_ex alice ?op running_store (Some (Conflict
      ''Submission already has a running attempt with the current fencing token''))
      (snd (run sample_ex alice ?op running_store))"
    by (rule store_step.step)
qed

subsection \<open>Versioned state and effects\<close>

lemma call_history:
  assumes "reachable ex s" "fresh_ids (scope_of c) op s"
  shows "history ex s (snd (run ex c op s))" "reachable ex (snd (run ex c op s))"
proof -
  have st: "store_step ex c op s (fst (run ex c op s)) (snd (run ex c op s))"
    using assms(2) by (rule store_step.step) (rule prod.collapse[symmetric])
  show "history ex s (snd (run ex c op s))"
    using reachable_ok[OF assms(1)] moves.go[OF moves.stay st] by (simp add: history_def)
  show "reachable ex (snd (run ex c op s))" by (rule reachable_step[OF assms(1) st])
qed

lemma version_mismatch_conflict:
  assumes "namespaced cid" "checkpoint_version c cid s \<noteq> e"
  shows "compare_and_swap_checkpoint c cid e v aid token base now s
    = (Inl (Conflict ''Checkpoint compare-and-swap conflict''), s)"
  using assms by (simp add: compare_and_swap_checkpoint_def cas_guards_def checkpoint_version_def Let_def)

text \<open>
  A checkpoint version is consumed once: after a compare-and-swap that expected version \<open>e\<close>
  (or no checkpoint) has succeeded, which stores exactly the next version, every later attempt to
  swap from \<open>e\<close>, by anyone in the scope and after any history, is refused as a conflict and
  changes nothing.
\<close>

lemma checkpoint_swapped_once:
  assumes "reachable ex s" "compare_and_swap_checkpoint c cid e v aid token base now s = (Inr new, s1)"
    and "moves ex s1 s2"
  shows "ck_version new = (case e of None \<Rightarrow> 1 | Some n \<Rightarrow> n + 1)
    \<and> compare_and_swap_checkpoint c cid e v' aid' token' base' now' s2
      = (Inl (Conflict ''Checkpoint compare-and-swap conflict''), s2)"
proof
  note cas = cas_succeeds[OF assms(2)]
  show "ck_version new = (case e of None \<Rightarrow> 1 | Some n \<Rightarrow> n + 1)"
    using cas(3,4) by (simp add: checkpoint_version_def)
  have "reachable ex (snd (run ex c (State (Cas_checkpoint cid e v aid token base now)) s))"
    by (rule call_history(2)[OF assms(1)]) (simp add: fresh_ids_def)
  then have "reachable ex s1" using assms(2) by simp
  then have h: "history ex s1 s2" using assms(3) reachable_ok by (simp add: history_def)
  have swap: "checkpoint_swap c cid e s s1" using assms(2) unfolding checkpoint_swap_def by blast
  have "checkpoint_version c cid s2 \<noteq> e" by (rule checkpoint_cell.stale[OF swap h])
  then show "compare_and_swap_checkpoint c cid e v' aid' token' base' now' s2
      = (Inl (Conflict ''Checkpoint compare-and-swap conflict''), s2)"
    using cas(1) by (rule version_mismatch_conflict[rotated])
qed

definition cursor_store :: store where
  "cursor_store = run_all sample_ex
     [(alice, State (Cas_checkpoint ''cursor:x'' None ''v1'' ''a1'' 1 None 4))] running_store"

lemma cursor_moves: "moves sample_ex running_store cursor_store"
  unfolding cursor_store_def by (rule run_all_moves) code_simp

lemma checkpoint_swapped_once_witness:
  "compare_and_swap_checkpoint alice ''cursor:x'' None ''v2'' ''a1'' 1 None 5 cursor_store
     = (Inl (Conflict ''Checkpoint compare-and-swap conflict''), cursor_store)"
proof -
  define new where "new = the (dget (checkpoints cursor_store) (mk_key (''acme'', ''main'') ''cursor:x''))"
  have "compare_and_swap_checkpoint alice ''cursor:x'' None ''v1'' ''a1'' 1 None 4 running_store
      = (Inr new, cursor_store)"
    unfolding new_def by code_simp
  from checkpoint_swapped_once[OF running_store_reachable this moves.stay] show ?thesis by blast
qed

text \<open>
  \<open>explain_transition\<close> never promises less than a compare-and-swap delivers: when it answers
  that the swap would not succeed the swap is refused as a version conflict, so every swap that
  succeeds had been explained as possible.
\<close>

lemma explanation_sound:
  assumes "explain_transition c cid e s = Inr x"
  shows "(\<not> xp_would_succeed x \<longrightarrow> compare_and_swap_checkpoint c cid e v aid token base now s
            = (Inl (Conflict ''Checkpoint compare-and-swap conflict''), s))
       \<and> (\<forall>new s'. compare_and_swap_checkpoint c cid e v aid token base now s = (Inr new, s') \<longrightarrow>
            xp_would_succeed x \<and> xp_current_version x = e
            \<and> ck_version new = (case xp_current_version x of None \<Rightarrow> 1 | Some n \<Rightarrow> n + 1))"
proof -
  have x: "namespaced cid" "xp_would_succeed x \<longleftrightarrow> checkpoint_version c cid s = e"
    "xp_current_version x = checkpoint_version c cid s"
    using assms by (auto simp: explain_transition_def checkpoint_version_def Let_def split: if_splits)
  have "xp_would_succeed x \<and> xp_current_version x = e
      \<and> ck_version new = (case xp_current_version x of None \<Rightarrow> 1 | Some n \<Rightarrow> n + 1)"
    if "compare_and_swap_checkpoint c cid e v aid token base now s = (Inr new, s')" for new s'
    using cas_succeeds[OF that] x by (simp add: checkpoint_version_def)
  then show ?thesis using x(2) version_mismatch_conflict[OF x(1)] by blast
qed

lemma explanation_sound_witness:
  "compare_and_swap_checkpoint alice ''cursor:x'' (Some 7) ''v2'' ''a1'' 1 None 5 cursor_store
     = (Inl (Conflict ''Checkpoint compare-and-swap conflict''), cursor_store)"
proof -
  define x where "x = (case explain_transition alice ''cursor:x'' (Some 7) cursor_store of Inr x \<Rightarrow> x)"
  have "explain_transition alice ''cursor:x'' (Some 7) cursor_store = Inr x" "\<not> xp_would_succeed x"
    unfolding x_def by code_simp+
  then show ?thesis using explanation_sound by blast
qed

text \<open>
  C7: A committed external effect is never downgraded: in every later store it is still committed,
  for the same submission and with the same authority, whether the caller records effects,
  finalises cancellations or does anything else.
\<close>

lemma committed_effect_stays:
  assumes "reachable ex s" "moves ex s s'" "dget (effects s) k = Some e" "ef_status e = E_committed"
  shows "\<exists>e'. dget (effects s') k = Some e' \<and> ef_status e' = E_committed
    \<and> ef_submission e' = ef_submission e \<and> ef_authoritative e' = ef_authoritative e"
proof -
  have "store_evolves (\<lambda>_. True) s s'" using moves_ok[OF assms(2) reachable_ok[OF assms(1)]] by blast
  from evolved_effect[OF this assms(3)] show ?thesis using assms(4) by (auto simp: ef_le_def)
qed

definition sample_effect :: "effect_status \<Rightarrow> string option \<Rightarrow> effect" where
  "sample_effect st ev = \<lparr>ef_id = ''s1:execution'', ef_submission = ''s1'', ef_tenant = ''acme'',
     ef_workspace = ''main'', ef_status = st, ef_recorded_at = 4, ef_idempotency_evidence = None,
     ef_reconciliation_evidence = ev, ef_publication_evidence = None,
     ef_compensation_evidence = None, ef_authoritative = True\<rparr>"

definition committed_calls :: "(ctx \<times> call) list" where
  "committed_calls = running_calls @ [(alice, State (Record_effect (sample_effect E_committed None) 4))]"

definition committed_store :: store where
  "committed_store = run_all sample_ex committed_calls (empty_store (Some 5))"

text \<open>The host dies, the submission is cancelled and the cancellation is finalised.\<close>

definition cancelled_store :: store where
  "cancelled_store = run_all sample_ex
     [(alice, Work (Cancel ''s1'' 5)),
      (alice, Work (Reconcile_cancelled 10 True None None 40000000))] committed_store"

lemma committed_store_reachable: "reachable sample_ex committed_store"
  unfolding committed_store_def by (rule run_all_reachable) code_simp

lemma cancelled_moves: "moves sample_ex committed_store cancelled_store"
  unfolding cancelled_store_def by (rule run_all_moves) code_simp

lemma committed_effect_stays_witness:
  "\<exists>e'. dget (effects cancelled_store) (mk_key (''acme'', ''main'') ''s1:execution'') = Some e'
     \<and> ef_status e' = E_committed \<and> ef_submission e' = ''s1'' \<and> ef_authoritative e' = True"
proof -
  have "dget (effects committed_store) (mk_key (''acme'', ''main'') ''s1:execution'')
      = Some (sample_effect E_committed None)"
    by code_simp
  from committed_effect_stays[OF committed_store_reachable cancelled_moves this]
  show ?thesis by (simp add: sample_effect_def)
qed

text \<open>
  An unknown effect is resolved only with evidence: when recording replaces an effect whose
  outcome is unknown by another outcome, the new outcome is not \<open>pending\<close>, it carries
  reconciliation evidence (for \<open>committed\<close>, idempotency evidence will do), and submission and
  authority are the old ones.
\<close>

lemma unknown_effect_needs_evidence:
  assumes "record_effect_with ex c e claim now s = (Inr e', s')"
    and "dget (effects s) (mk_key (scope_of c) (ef_id e)) = Some old"
    and "ef_status old = E_unknown" "ef_status e' \<noteq> E_unknown"
  shows "ef_status e' \<noteq> E_pending
    \<and> (proven (ef_reconciliation_evidence e')
       \<or> ef_status e' = E_committed \<and> proven (ef_idempotency_evidence e'))
    \<and> ef_submission e' = ef_submission old \<and> ef_authoritative e' = ef_authoritative old"
proof -
  have "e' = safe_effect ex e \<and> effect_transition_error old (safe_effect ex e) = None"
    using assms(1,2) by (auto simp: record_effect_with_def Let_def split: if_splits option.splits)
  then have "effect_transition_error old e' = None" by simp
  then show ?thesis
    using assms(3,4) by (cases "ef_status e'") (auto simp: effect_transition_error_def split: if_splits)
qed

definition unknown_store :: store where
  "unknown_store = run_all sample_ex
     (running_calls @ [(alice, State (Record_effect (sample_effect E_unknown None) 4))]) (empty_store None)"

lemma unknown_effect_needs_evidence_witness: "proven (Some ''receipt'') \<or> proven None"
proof -
  let ?e = "sample_effect E_failed (Some ''receipt'')"
  define s' where "s' = snd (record_effect_with sample_ex alice ?e None 5 unknown_store)"
  have "record_effect_with sample_ex alice ?e None 5 unknown_store = (Inr ?e, s')"
    "dget (effects unknown_store) (mk_key (scope_of alice) (ef_id ?e)) = Some (sample_effect E_unknown None)"
    unfolding s'_def by code_simp+
  moreover have "ef_status (sample_effect E_unknown None) = E_unknown" "ef_status ?e \<noteq> E_unknown"
    by (simp_all add: sample_effect_def)
  ultimately show ?thesis
    using unknown_effect_needs_evidence[of sample_ex alice ?e None 5 unknown_store ?e s']
    by (simp add: sample_effect_def)
qed

text \<open>
  A published run result is immutable: its fingerprint, its run and its publication time are
  the same in every later store.
\<close>

lemma published_result_stays:
  assumes "reachable ex s" "moves ex s s'" "dget (publications s) k = Some p" "pb_published_at p \<noteq> None"
  shows "\<exists>p'. dget (publications s') k = Some p' \<and> pb_sha256 p' = pb_sha256 p \<and> pb_run p' = pb_run p
    \<and> pb_published_at p' = pb_published_at p"
proof -
  have "store_evolves (\<lambda>_. True) s s'" using moves_ok[OF assms(2) reachable_ok[OF assms(1)]] by blast
  then have "evolves ((\<lambda>_. True) \<circ> pub_scope) keyed_publication pub_le (publications s) (publications s')"
    by (simp add: store_evolves_def)
  from evolves_old[OF this assms(3)] show ?thesis using assms(4) by (auto simp: pub_le_def)
qed

definition sample_publication :: "string \<Rightarrow> publication" where
  "sample_publication report = \<lparr>pb_submission = ''s1'', pb_attempt = ''a1'', pb_run = ''run'',
     pb_tenant = ''acme'', pb_workspace = ''main'', pb_report = report, pb_sha256 = report,
     pb_created_at = 4, pb_published_at = None\<rparr>"

definition published_store :: store where
  "published_store = run_all sample_ex
     (running_calls @ [(alice, Execute (Record_publication (sample_publication ''r1'') ''host1'' 1 4)),
       (alice, Execute (Publish_result ''s1'' ''a1'' ''r1'' 5))]) (empty_store None)"

definition republished_store :: store where
  "republished_store = run_all sample_ex
     [(alice, Execute (Record_publication (sample_publication ''r2'') ''host1'' 1 6))] published_store"

lemma published_result_stays_witness:
  "\<exists>p'. dget (publications republished_store) (''acme'', ''main'', ''s1'', ''a1'') = Some p'
     \<and> pb_sha256 p' = ''r1'' \<and> pb_run p' = ''run'' \<and> pb_published_at p' = Some 5"
proof -
  have r: "reachable sample_ex published_store"
    unfolding published_store_def by (rule run_all_reachable) code_simp
  have m: "moves sample_ex published_store republished_store"
    unfolding republished_store_def by (rule run_all_moves) code_simp
  have "dget (publications published_store) (''acme'', ''main'', ''s1'', ''a1'')
      = Some ((sample_publication ''r1'')\<lparr>pb_published_at := Some 5\<rparr>)" by code_simp
  from published_result_stays[OF r m this] show ?thesis by (simp add: sample_publication_def)
qed

end
