(* ===== verification/Durable_Safety.thy ===== *)
theory Durable_Safety
  imports Durable_Samples
begin

text \<open>
  What the durable work store guarantees about submissions, leases and attempts, over every
  history of calls by every caller.
\<close>

subsection \<open>Fencing\<close>

lemma lease_history:
  assumes "store_ok s" "moves ex s s'" "dget (leases s) k = Some l"
  obtains l' where "dget (leases s') k = Some l'" "l' = l \<or> lease_le l l'"
  using evolved_lease[OF _ assms(3)] moves_ok[OF assms(2,1)] by blast

text \<open>
  C1: A host whose execution lease has been taken over is fenced off for good: once any other
  claim (another host, or the same host with a newer token) is valid, the old host's calls with
  its old token fail the lease check in every later store, and the new token is larger.
\<close>

lemma lease_fencing:
  assumes "reachable ex s" "require_lease k ow t now s = Inr l"
    and "moves ex s s1" "require_lease k ow' t' now1 s1 = Inr l1" "(ow', t') \<noteq> (ow, t)"
    and "moves ex s1 s2"
  shows "t < t' \<and> require_lease k ow t now2 s2 = Inl (Conflict ''Stale or invalid execution lease'')"
proof
  have ok: "store_ok s" "store_ok s1"
    using reachable_ok[OF assms(1)] moves_ok[OF assms(3)] by blast+
  have l: "dget (leases s) k = Some l" "lease_admits l ow t now"
    and l1: "dget (leases s1) k = Some l1" "lease_admits l1 ow' t' now1"
    using assms(2,4) by (simp_all add: require_lease_admits)
  have up: "l1 = l \<or> lease_le l l1"
    by (rule lease_history[OF ok(1) assms(3) l(1)]) (use l1(1) in auto)
  obtain l2 where l2: "dget (leases s2) k = Some l2" "l2 = l1 \<or> lease_le l1 l2"
    using lease_history[OF ok(2) assms(6) l1(1)] by blast
  show "t < t'"
    using up l(2) l1(2) assms(5) by (auto simp: lease_le_def lease_admits_def fence_le_def)
  have "\<not> lease_admits l2 ow t now2"
    using lease_claim.superseded[OF l(2) up l1(2) assms(5) l2(2)] .
  with l2(1) show "require_lease k ow t now2 s2 = Inl (Conflict ''Stale or invalid execution lease'')"
    by (intro require_lease_refuses) simp
qed

definition taken_over_store :: store where
  "taken_over_store = run_all sample_ex
     [(alice, Execute (Acquire_lease ''s1'' ''host2'' 30 40000000))] running_store"

lemma taken_over_moves: "moves sample_ex running_store taken_over_store"
  unfolding taken_over_store_def by (rule run_all_moves) code_simp

lemma lease_fencing_witness:
  "(1::nat) < 2 \<and> require_lease (mk_key (''acme'', ''main'') ''s1'') ''host1'' 1 40000001 taken_over_store
     = Inl (Conflict ''Stale or invalid execution lease'')"
proof (rule lease_fencing[OF running_store_reachable _ taken_over_moves _ _ moves.stay])
  let ?k = "mk_key (''acme'', ''main'') ''s1''"
  show "require_lease ?k ''host1'' 1 4 running_store
      = Inr (the (dget (leases running_store) ?k))" by code_simp
  show "require_lease ?k ''host2'' 2 40000001 taken_over_store
      = Inr (the (dget (leases taken_over_store) ?k))" by code_simp
qed simp

text \<open>
  C2: In every reachable store a running attempt belongs to a live submission, holds a token no
  newer than the lease of that submission, and is the only running attempt of its submission.
\<close>

lemma running_attempts:
  assumes "reachable ex s" "dget (attempts s) (mk_key sc aid) = Some a" "at_status a = A_running"
  shows "(\<exists>su l. dget (submissions s) (mk_key sc (at_submission a)) = Some su
            \<and> non_terminal (su_status su)
            \<and> dget (leases s) (mk_key sc (at_submission a)) = Some l \<and> at_token a \<le> le_token l)
       \<and> (\<forall>aid' a'. dget (attempts s) (mk_key sc aid') = Some a' \<longrightarrow> at_status a' = A_running \<longrightarrow>
            at_submission a' = at_submission a \<longrightarrow> aid' = aid)"
proof
  have ok: "exec_ok s" using reachable_ok[OF assms(1)] by (simp add: store_ok_def)
  show "\<exists>su l. dget (submissions s) (mk_key sc (at_submission a)) = Some su
            \<and> non_terminal (su_status su)
            \<and> dget (leases s) (mk_key sc (at_submission a)) = Some l \<and> at_token a \<le> le_token l"
    by (rule attempt_row[OF ok assms(2)]) (use assms(3) in \<open>auto simp: non_terminal_iff\<close>)
  show "\<forall>aid' a'. dget (attempts s) (mk_key sc aid') = Some a' \<longrightarrow> at_status a' = A_running \<longrightarrow>
            at_submission a' = at_submission a \<longrightarrow> aid' = aid"
  proof (intro allI impI)
    fix aid' a' assume a': "dget (attempts s) (mk_key sc aid') = Some a'" "at_status a' = A_running"
      "at_submission a' = at_submission a"
    have "mk_key sc aid' = mk_key sc aid"
      by (rule one_running_eq[OF ok a'(1) assms(2) a'(2) assms(3) _ a'(3)]) simp
    then show "aid' = aid" by simp
  qed
qed

lemma running_attempts_witness:
  "\<exists>su l. dget (submissions running_store) (mk_key (''acme'', ''main'') ''s1'') = Some su
     \<and> non_terminal (su_status su)
     \<and> dget (leases running_store) (mk_key (''acme'', ''main'') ''s1'') = Some l \<and> 1 \<le> le_token l"
proof -
  define a where "a = the (dget (attempts running_store) (mk_key (''acme'', ''main'') ''a1''))"
  have "dget (attempts running_store) (mk_key (''acme'', ''main'') ''a1'') = Some a"
    "at_status a = A_running" "at_submission a = ''s1''" "at_token a = 1"
    unfolding a_def by code_simp+
  with running_attempts[OF running_store_reachable this(1,2)] show ?thesis by simp
qed

text \<open>
  C5: A submission keeps every field but its status for ever, its status only moves forward
  (accepted, dispatched, cancellation requested, then one terminal status), and a terminal
  submission never changes again.
\<close>

lemma submission_history:
  assumes "reachable ex s" "moves ex s s'" "dget (submissions s) k = Some su"
  shows "\<exists>su'. dget (submissions s') k = Some su' \<and> su' = su\<lparr>su_status := su_status su'\<rparr>
     \<and> su_status su \<le> su_status su' \<and> (is_terminal (su_status su) \<longrightarrow> su' = su)"
proof -
  have "store_evolves (\<lambda>_. True) s s'" using moves_ok[OF assms(2) reachable_ok[OF assms(1)]] by blast
  then obtain su' where su': "dget (submissions s') k = Some su'" "su' = su \<or> sub_le su su'"
    using assms(3) by (rule evolved_submission)
  have same: "su' = su\<lparr>su_status := su_status su'\<rparr>"
    using su'(2) by (cases su; cases su') (auto simp: sub_le_def sub_identity_def)
  moreover have "su_status su \<le> su_status su'" using su'(2) by (auto simp: sub_le_def)
  moreover have "su' = su" if "is_terminal (su_status su)"
    using terminal_max[OF that] calculation by (cases su; cases su') auto
  ultimately show ?thesis using su'(1) by blast
qed

definition completed_store :: store where
  "completed_store = run_all sample_ex
     [(alice, Execute (Finish_attempt ''a1'' ''host1'' 1 A_completed 5))] running_store"

lemma completed_moves: "moves sample_ex running_store completed_store"
  unfolding completed_store_def by (rule run_all_moves) code_simp

lemma submission_history_witness:
  "\<exists>su'. dget (submissions completed_store) (mk_key (''acme'', ''main'') ''s1'') = Some su'
     \<and> Dispatched \<le> su_status su'"
proof -
  define su where "su = the (dget (submissions running_store) (mk_key (''acme'', ''main'') ''s1''))"
  have "dget (submissions running_store) (mk_key (''acme'', ''main'') ''s1'') = Some su"
    "su_status su = Dispatched" unfolding su_def by code_simp+
  with submission_history[OF running_store_reachable completed_moves this(1)] show ?thesis by auto
qed

subsection \<open>Isolation and admission\<close>

lemma step_outside:
  assumes "store_ok s" "store_step ex c op s e s'"
  shows "store_evolves (within c) s s'"
  using step_ok(2)[OF assms(2,1)] .

text \<open>
  C4: A call changes nothing outside the tenant and workspace of its caller: every submission,
  outbox row, dispatch, lease, attempt, publication, checkpoint, effect, preview, diff, shadow
  run, baseline and action job of another scope is the same afterwards.
\<close>

lemma scope_isolation:
  assumes "reachable ex s" "store_step ex c op s e s'" "key_scope k \<noteq> scope_of c"
    and "pub_scope pk \<noteq> scope_of c"
  shows "dget (submissions s') k = dget (submissions s) k \<and> dget (outboxes s') k = dget (outboxes s) k
    \<and> dget (dispatches s') k = dget (dispatches s) k \<and> dget (leases s') k = dget (leases s) k
    \<and> dget (attempts s') k = dget (attempts s) k \<and> dget (publications s') pk = dget (publications s) pk
    \<and> dget (checkpoints s') k = dget (checkpoints s) k \<and> dget (effects s') k = dget (effects s) k
    \<and> dget (previews s') k = dget (previews s) k \<and> dget (diffs s') k = dget (diffs s) k
    \<and> dget (shadows s') k = dget (shadows s) k \<and> dget (baselines s') k = dget (baselines s) k
    \<and> dget (action_jobs s') k = dget (action_jobs s) k"
proof -
  note e = step_outside[OF reachable_ok[OF assms(1)] assms(2), unfolded store_evolves_def]
  have "\<not> (within c \<circ> key_scope) k" "\<not> (within c \<circ> pub_scope) pk" using assms(3,4) by simp_all
  note out = this
  show ?thesis
    using e by (elim conjE, intro conjI) (rule evolves_foreign, assumption, rule out)+
qed

lemma scope_isolation_witness:
  "dget (submissions (snd (run sample_ex bob (Work (Accept (sample_request ''k'' ''local'') ''s1'' ''o1'' 9))
       running_store))) (mk_key (''acme'', ''main'') ''s1'')
     = dget (submissions running_store) (mk_key (''acme'', ''main'') ''s1'')"
proof -
  let ?op = "Work (Accept (sample_request ''k'' ''local'') ''s1'' ''o1'' 9)"
  have "fresh_ids (scope_of bob) ?op running_store" by code_simp
  then have "store_step sample_ex bob ?op running_store (fst (run sample_ex bob ?op running_store))
      (snd (run sample_ex bob ?op running_store))"
    by (rule store_step.step) (rule prod.collapse[symmetric])
  moreover have "key_scope (mk_key (''acme'', ''main'') ''s1'') \<noteq> scope_of bob"
    "pub_scope (''acme'', ''main'', ''s1'', ''a1'') \<noteq> scope_of bob" by code_simp+
  ultimately show ?thesis using scope_isolation[OF running_store_reachable] by blast
qed

text \<open>The non-terminal submissions of a tenant never exceed the admission limit.\<close>

lemma admission_limit_holds:
  assumes "moves ex (empty_store (Some lim)) s"
  shows "in_flight s tenant \<le> lim"
proof -
  have "store_ok s" "admission_limit s = Some lim"
    using moves_ok[OF assms store_ok_empty] by (simp_all add: store_evolves_def empty_store_def)
  then show ?thesis by (simp add: store_ok_def admission_ok_def)
qed

lemma admission_limit_witness: "in_flight running_store ''acme'' \<le> 5"
proof (rule admission_limit_holds)
  show "moves sample_ex (empty_store (Some 5)) running_store"
    unfolding running_store_def by (rule run_all_moves) code_simp
qed

text \<open>
  C3: Acceptance is idempotent over every later history: when the first call created a
  submission, repeating the request in any later store returns that submission, with whatever
  status it has by then, reports that nothing was created and changes nothing.
\<close>

lemma accept_idempotent:
  assumes "reachable ex s" "accept ex c rq us uo now s = (Inr (su, True), s1)"
    and "fresh_ids (scope_of c) (Work (Accept rq us uo now)) s" "moves ex s1 s2"
  shows "\<exists>st. accept ex c rq us' uo' now' s2 = (Inr (su\<lparr>su_status := st\<rparr>, False), s2)"
proof (cases rule: accept_cases[of ex c rq us uo now s])
  case (admitted sid)
  have ok: "store_ok s" by (rule reachable_ok[OF assms(1)])
  have su: "su = new_submission ex c rq sid now" and s1: "s1 = accept_store ex c rq sid uo now s"
    using assms(2) admitted(1) by simp_all
  have "store_ok s1" using accept_store_ok(1)[OF ok assms(3)] assms(2) by (metis snd_conv)
  then have e: "store_evolves (\<lambda>_. True) s1 s2" using moves_ok[OF assms(4)] by blast
  have "dget (submissions s1) (mk_key (scope_of c) sid) = Some su"
    by (simp add: s1 su accept_store_def)
  then obtain su' where su': "dget (submissions s2) (mk_key (scope_of c) sid) = Some su'"
    "su' = su \<or> sub_le su su'" by (rule evolved_submission[OF e])
  have same: "su' = su\<lparr>su_status := su_status su'\<rparr>"
    using su'(2) by (cases su; cases su') (auto simp: sub_le_def sub_identity_def)
  have "evolves ((\<lambda>_. True) \<circ> idem_scope) only_new never (idempotency s1) (idempotency s2)"
    using e by (simp add: store_evolves_def)
  then have ik: "dget (idempotency s2) (idem_of c (rq_operation rq) (rq_idempotency_key rq)) = Some sid"
    using evolves_old[of _ _ _ "idempotency s1" "idempotency s2"] by (fastforce simp: s1 accept_store_def)
  have "recorded_inputs su' = requested_inputs ex c rq"
    by (subst same) (simp add: recorded_inputs_def requested_inputs_def su new_submission_def)
  moreover have "su_run_id su' = rq_run_id rq" by (subst same) (simp add: su new_submission_def)
  moreover have "rq_submission_id rq = None \<or> rq_submission_id rq = Some sid"
    using admitted(4) by (auto split: option.splits)
  ultimately have "accept ex c rq us' uo' now' s2 = (Inr (su', False), s2)"
    using admitted(2) ik su'(1) by (auto simp: accept_def accept_replay_def)
  then show ?thesis using same by metis
qed (use assms(2) in auto)

lemma accept_idempotent_witness:
  "\<exists>st. accept sample_ex alice (sample_request ''k'' ''local'') ''s2'' ''o2'' 99
      (snd (accept sample_ex alice (sample_request ''k'' ''local'') ''s1'' ''o1'' 0 (empty_store None)))
    = (Inr ((new_submission sample_ex alice (sample_request ''k'' ''local'') ''s1'' 0)\<lparr>su_status := st\<rparr>, False),
       snd (accept sample_ex alice (sample_request ''k'' ''local'') ''s1'' ''o1'' 0 (empty_store None)))"
proof (rule accept_idempotent)
  show "reachable sample_ex (empty_store None)" unfolding reachable_def by (blast intro: moves.stay)
  show "accept sample_ex alice (sample_request ''k'' ''local'') ''s1'' ''o1'' 0 (empty_store None)
      = (Inr (new_submission sample_ex alice (sample_request ''k'' ''local'') ''s1'' 0, True),
         snd (accept sample_ex alice (sample_request ''k'' ''local'') ''s1'' ''o1'' 0 (empty_store None)))"
    by code_simp
  show "fresh_ids (scope_of alice) (Work (Accept (sample_request ''k'' ''local'') ''s1'' ''o1'' 0))
      (empty_store None)" by code_simp
qed (rule moves.stay)

text \<open>
  In every reachable store each submission has exactly one outbox row in its scope, and a row
  counts one delivery exactly when it is published.
\<close>

lemma one_outbox_row:
  assumes "reachable ex s" "dget (submissions s) k = Some su"
  shows "\<exists>!x. key_scope x = key_scope k
           \<and> (\<exists>ob. dget (outboxes s) x = Some ob \<and> ob_submission ob = su_id su
                \<and> ob_deliveries ob = (if ob_published_at ob = None then 0 else 1))"
proof -
  have ok: "outbox_ok s" "tables_ok s" using reachable_ok[OF assms(1)] by (simp_all add: store_ok_def)
  have id: "key_id k = su_id su" using tables_okD(1)[OF ok(2) assms(2)] by (metis key_id_mk_key)
  obtain x where x: "outbox_keys s k = {x}" using ok(1) assms(2) unfolding outbox_ok_def by fastforce
  have row: "key_scope y = key_scope k \<and> (\<exists>ob. dget (outboxes s) y = Some ob \<and> ob_submission ob = su_id su
      \<and> ob_deliveries ob = (if ob_published_at ob = None then 0 else 1)) \<longleftrightarrow> y \<in> outbox_keys s k" for y
    using tables_okD(2)[OF ok(2), of y] by (auto simp: outbox_keys_def id keyed_outbox_def)
  show ?thesis unfolding row x by simp
qed

lemma one_outbox_row_witness:
  "\<exists>!x. key_scope x = (''acme'', ''main'')
     \<and> (\<exists>ob. dget (outboxes running_store) x = Some ob \<and> ob_submission ob = ''s1''
          \<and> ob_deliveries ob = (if ob_published_at ob = None then 0 else 1))"
proof -
  let ?k = "mk_key (''acme'', ''main'') ''s1''"
  define w where "w = the (dget (submissions running_store) ?k)"
  have su: "dget (submissions running_store) ?k = Some w" "su_id w = ''s1''" "key_scope ?k = (''acme'', ''main'')"
    unfolding w_def by code_simp+
  show ?thesis using one_outbox_row[OF running_store_reachable su(1)] unfolding su(2,3) .
qed

end
