(* ===== verification/Durable_Frames.thy ===== *)
theory Durable_Frames
  imports Durable_Invariants
begin

text \<open>
  Which calls touch the route tables and the dispatch table of the durable work store: every other
  call leaves them as they are.
\<close>

definition same_routes :: "store \<Rightarrow> store \<Rightarrow> bool" where
  "same_routes s s' \<longleftrightarrow> routes s' = routes s \<and> route_refs s' = route_refs s"

definition same_dispatches :: "store \<Rightarrow> store \<Rightarrow> bool" where
  "same_dispatches s s' \<longleftrightarrow> same_routes s s' \<and> dispatches s' = dispatches s"

lemmas same_route_defs = same_dispatches_def same_routes_def

lemma same_routes_refl [simp]: "same_routes s s" "same_dispatches s s"
  by (simp_all add: same_route_defs)

lemma same_dispatches_update [simp]:
  "same_dispatches s (s\<lparr>submissions := d1\<rparr>)" "same_dispatches s (s\<lparr>outboxes := d2\<rparr>)"
  "same_dispatches s (s\<lparr>leases := d3\<rparr>)" "same_dispatches s (s\<lparr>attempts := d4\<rparr>)"
  "same_dispatches s (s\<lparr>publications := d5\<rparr>)" "same_dispatches s (s\<lparr>checkpoints := d6\<rparr>)"
  "same_dispatches s (s\<lparr>effects := d7\<rparr>)" "same_dispatches s (s\<lparr>previews := d8\<rparr>)"
  "same_dispatches s (s\<lparr>diffs := d9\<rparr>)" "same_dispatches s (s\<lparr>shadows := d10\<rparr>)"
  "same_dispatches s (s\<lparr>baselines := d11\<rparr>)" "same_dispatches s (s\<lparr>action_jobs := d12\<rparr>)"
  "same_dispatches s (s\<lparr>action_jobs := d12, action_idempotency := d13\<rparr>)"
  "same_dispatches s (s\<lparr>diagnostics := d14\<rparr>)"
  "same_dispatches s (s\<lparr>outboxes := d2, submissions := d1\<rparr>)"
  "same_dispatches s (s\<lparr>submissions := d1, leases := d3\<rparr>)"
  "same_dispatches s (s\<lparr>attempts := d4, submissions := d1\<rparr>)"
  "same_dispatches s (s\<lparr>submissions := d1, outboxes := d2, idempotency := d15\<rparr>)"
  "same_routes s (s\<lparr>dispatches := d16\<rparr>)"
  by (simp_all add: same_route_defs)

lemma same_dispatches_branch:
  "(b \<Longrightarrow> same_dispatches s (snd x)) \<Longrightarrow> (\<not> b \<Longrightarrow> same_dispatches s (snd y)) \<Longrightarrow>
   same_dispatches s (snd (if b then x else y))"
  by simp

lemma same_dispatches_option:
  "(x = None \<Longrightarrow> same_dispatches s (snd a)) \<Longrightarrow> (\<And>y. x = Some y \<Longrightarrow> same_dispatches s (snd (f y))) \<Longrightarrow>
   same_dispatches s (snd (case x of None \<Rightarrow> a | Some y \<Rightarrow> f y))"
  by (cases x) simp_all

subsection \<open>Submissions\<close>

lemma accept_dispatches: "same_dispatches s (snd (accept ex c rq us uo now s))"
  by (cases rule: accept_cases[of ex c rq us uo now s]) (auto simp: accept_store_def)

lemma mark_published_dispatches: "same_dispatches s (snd (mark_published c oid now s))"
  by (auto simp: mark_published_def Let_def same_route_defs split: option.split)

lemma reconcile_terminal_dispatches:
  "same_dispatches s (snd (reconcile_terminal_outbox c limit now s))"
proof -
  have "same_dispatches s (snd (reconcile_terminal_loop sc now limit rows acc s))" for sc rows acc
    by (induction sc now limit rows acc s rule: reconcile_terminal_loop.induct)
      (auto simp: same_route_defs split: option.split)
  then show ?thesis by (simp add: reconcile_terminal_outbox_def Let_def case_prod_unfold)
qed

lemma cancel_dispatches: "same_dispatches s (snd (cancel_submission c sid now s))"
  by (auto simp: cancel_submission_def Let_def split: option.split)

text \<open>Finalising a cancellation may close dispatch rows and does nothing else to them.\<close>

definition dispatches_closed :: "store \<Rightarrow> store \<Rightarrow> bool" where
  "dispatches_closed s s' \<longleftrightarrow> same_routes s s' \<and>
     (\<forall>k. map_option di_generation (dget (dispatches s') k) = map_option di_generation (dget (dispatches s) k)
        \<and> map_option di_remote_run (dget (dispatches s') k) = map_option di_remote_run (dget (dispatches s) k))"

lemma finalize_cancel_dispatches:
  "dispatches_closed s (finalize_cancel c now ack k su s)"
proof -
  have "dispatches (lose_running sc sid now t) = dispatches t"
    and "routes (lose_running sc sid now t) = routes t"
    and "route_refs (lose_running sc sid now t) = route_refs t"
    and "dispatches (record_unknown_effect c sid now t) = dispatches t"
    and "routes (record_unknown_effect c sid now t) = routes t"
    and "route_refs (record_unknown_effect c sid now t) = route_refs t"
    and "dispatches (ack_submission_outbox c sid now t) = dispatches t"
    and "routes (ack_submission_outbox c sid now t) = routes t"
    and "route_refs (ack_submission_outbox c sid now t) = route_refs t"
    and "routes (cancel_dispatch_row now k t) = routes t"
    and "route_refs (cancel_dispatch_row now k t) = route_refs t" for t sc sid
    by (simp_all add: lose_running_def record_unknown_effect_def ack_submission_outbox_def
        cancel_dispatch_row_def Let_def split: option.split)
  note fs = this
  have row: "map_option di_generation (dget (dispatches (cancel_dispatch_row now k t)) k')
        = map_option di_generation (dget (dispatches t) k')"
    "map_option di_remote_run (dget (dispatches (cancel_dispatch_row now k t)) k')
        = map_option di_remote_run (dget (dispatches t) k')" for t k'
    by (auto simp: cancel_dispatch_row_def split: option.split)
  show ?thesis
    by (simp add: finalize_cancel_def Let_def fs row dispatches_closed_def same_routes_def)
qed

lemma dispatches_closed_trans:
  "dispatches_closed s s' \<Longrightarrow> dispatches_closed s' s'' \<Longrightarrow> dispatches_closed s s''"
  by (simp add: dispatches_closed_def same_routes_def)

lemma reconcile_cancelled_dispatches:
  "dispatches_closed s (snd (reconcile_cancelled_submissions c limit ack sid r now s))"
proof -
  have "dispatches_closed s (snd (reconcile_cancelled_loop c now limit ack rows acc s))" for rows acc
  proof (induction rows arbitrary: acc s)
    case (Cons x rows)
    obtain k su where x: "x = (k, su)" by (cases x)
    show ?case
      using Cons.IH finalize_cancel_dispatches dispatches_closed_trans
      by (auto simp: x dispatches_closed_def same_routes_def)
  qed (simp add: dispatches_closed_def)
  then show ?thesis
    by (simp add: reconcile_cancelled_submissions_def Let_def case_prod_unfold dispatches_closed_def)
qed

subsection \<open>The other calls\<close>

lemma start_attempt_dispatches:
  "same_dispatches s (snd (start_attempt ex c sid owner token cx uuid now s))"
  by (auto simp: start_attempt_def Let_def split: sum.split option.split prod.split)

lemma lease_dispatches: "same_dispatches s (snd (run_lease ex c op s))"
  by (cases op)
    (simp_all add: acquire_lease_def heartbeat_def release_lease_def start_attempt_dispatches
      finish_attempt_def record_result_publication_def mark_result_publication_published_def Let_def
      split: option.split sum.split)

lemma state_dispatches: "same_dispatches s (snd (run_state ex c op s))"
  by (cases op)
    (simp_all add: compare_and_swap_checkpoint_def diagnose_checkpoint_def acknowledge_baseline_def
      record_effect_def record_attempt_effect_def record_effect_with_def Let_def
      split: option.split sum.split)

lemma finish_action_dispatches:
  "same_dispatches s (snd (finish_action_job ex c aid worker token st result code ttl now s))"
proof (cases "dget (action_jobs s) (mk_key (scope_of c) aid)")
  case None
  then show ?thesis by (simp add: finish_action_job_def)
next
  case (Some j)
  have "same_dispatches s (snd (case finished_job ex st result code ttl ej now j of
        Inl e \<Rightarrow> raise_in s e
      | Inr j' \<Rightarrow> return_in
          (s\<lparr>action_jobs := dput (mk_key (scope_of c) aid) j' (action_jobs s)\<rparr>) j'))" for ej
    by (cases "finished_job ex st result code ttl ej now j") simp_all
  then show ?thesis
    unfolding finish_action_job_def Let_def Some option.case
    by (intro same_dispatches_branch) simp_all
qed

lemma action_dispatches: "same_dispatches s (snd (run_action ex c op s))"
  by (cases op)
    (simp_all add: accept_action_job_def cancel_action_job_def claim_action_job_def
      heartbeat_action_job_def mark_action_job_accepting_def finish_action_dispatches
      cleanup_expired_action_results_def Let_def split: option.split list.split prod.split)

lemma preview_dispatches: "same_dispatches s (snd (run_preview ex c op s))"
  by (cases op)
    (simp_all add: create_preview_def mark_preview_stale_def record_preview_diff_def
      authorize_shadow_run_def cleanup_expired_previews_def Let_def split: option.split)

lemma rearm_routes:
  "same_routes s (snd (rearm_dispatch_if_unclaimed ex c sid rem reason age current wall s))"
  unfolding rearm_dispatch_if_unclaimed_def Let_def
  by (cases "select_remote_run_id rem None"; cases "dget (dispatches s) (mk_key (scope_of c) sid)";
      cases "dget (submissions s) (mk_key (scope_of c) sid)") simp_all

lemma rearm_reconciled_routes:
  "same_routes s (snd (rearm_reconciliation_required_dispatch ex c sid expected rem leg ev now s))"
  unfolding rearm_reconciliation_required_dispatch_def Let_def
  by (cases "select_remote_run_id rem leg"; cases "dget (dispatches s) (mk_key (scope_of c) sid)";
      cases "dget (submissions s) (mk_key (scope_of c) sid)") simp_all

lemma claim_dispatch_routes: "same_routes s (snd (claim_dispatch c sid owner secs now s))"
  unfolding claim_dispatch_def Let_def
  by (cases "dget (dispatches s) (mk_key (scope_of c) sid)";
      cases "dget (submissions s) (mk_key (scope_of c) sid)") simp_all

lemma prepare_dispatch_routes: "same_routes s (snd (prepare_dispatch ex c sid now s))"
  by (auto simp: prepare_dispatch_def Let_def split: option.split prod.split)

lemma dispatch_routes: "same_routes s (snd (run_dispatch ex c op s))"
  by (cases op)
    (simp_all add: prepare_dispatch_routes claim_dispatch_routes link_dispatch_def release_dispatch_def
      rearm_dispatch_after_remote_failure_def rearm_dispatch_after_remote_missing_def rearm_routes
      rearm_reconciled_routes Let_def split: option.split sum.split)

lemma work_closed: "dispatches_closed s (snd (run_work ex c op s))"
proof (cases op)
  case (Reconcile_cancelled limit ack sid r now)
  then show ?thesis by (simp add: reconcile_cancelled_dispatches)
qed (use accept_dispatches mark_published_dispatches reconcile_terminal_dispatches cancel_dispatches
      in \<open>simp_all add: dispatches_closed_def same_dispatches_def\<close>)

lemma run_closed:
  assumes "\<And>w. op \<noteq> Dispatch w" "\<And>w. op \<noteq> Route w"
  shows "dispatches_closed s (snd (run ex c op s))"
proof (cases op)
  case (Work w) then show ?thesis by (simp add: work_closed)
qed (use lease_dispatches state_dispatches action_dispatches preview_dispatches assms
      in \<open>simp_all add: dispatches_closed_def same_dispatches_def\<close>)

lemma route_dispatches: "dispatches (snd (run_route ex c op s)) = dispatches s"
  by (cases op)
    (simp_all add: reserve_execution_route_reference_def release_execution_route_reference_def
      release_execution_route_reference_id_def transition_execution_route_state_def Let_def
      split: option.split)

lemma run_routes:
  assumes "\<And>w. op \<noteq> Route w"
  shows "same_routes s (snd (run ex c op s))"
proof (cases op)
  case (Dispatch w) then show ?thesis by (simp add: dispatch_routes)
qed (use run_closed[of op s ex c] assms in \<open>auto simp: dispatches_closed_def\<close>)

end
