(* ===== verification/Durable_Delivery.thy ===== *)
theory Durable_Delivery
  imports Durable_Samples Durable_Frames
begin

text \<open>
  Remote dispatch over histories of the durable work store: fencing of dispatchers, one remote run
  per generation, when a generation may be replaced, and the retry delay.
\<close>

subsection \<open>Fencing of dispatchers\<close>

lemma dispatch_history:
  assumes "store_ok s" "moves ex s s'" "dget (dispatches s) k = Some d"
  obtains d' where "dget (dispatches s') k = Some d'" "d' = d \<or> di_le d d'"
  using evolved_dispatch[OF _ assms(3)] moves_ok[OF assms(2,1)] by blast

lemma claim_dispatch_admits:
  assumes "claim_dispatch c sid ow secs now s = (Inr (Some d), s')"
  shows "dget (dispatches s') (mk_key (scope_of c) sid) = Some d"
    and "dispatch_admits d ow (di_token d) now"
proof -
  obtain d0 su where rows: "dget (dispatches s) (mk_key (scope_of c) sid) = Some d0"
    "dget (submissions s) (mk_key (scope_of c) sid) = Some su"
    using assms
    by (cases "dget (dispatches s) (mk_key (scope_of c) sid)";
        cases "dget (submissions s) (mk_key (scope_of c) sid)")
      (auto simp: claim_dispatch_def Let_def split: if_splits)
  then have "d = d0\<lparr>di_status := D_leased, di_attempts := di_attempts d0 + 1, di_owner := Some ow,
        di_token := di_token d0 + 1, di_expires_at := Some (now + usec secs), di_updated_at := now\<rparr>
      \<and> s' = s\<lparr>dispatches := dput (mk_key (scope_of c) sid) d (dispatches s)\<rparr>"
    using assms by (auto simp: claim_dispatch_def Let_def split: if_splits)
  then show "dget (dispatches s') (mk_key (scope_of c) sid) = Some d"
    "dispatch_admits d ow (di_token d) now"
    by (simp_all add: dispatch_admits_def)
qed

lemma link_refused:
  assumes "dget (dispatches s) (mk_key (scope_of c) sid) = Some d" "\<not> dispatch_admits d ow t now"
  shows "link_dispatch c sid ow t rem leg now s = (case select_remote_run_id rem leg of
      Inl e \<Rightarrow> Inl e
    | Inr i \<Rightarrow> if di_status d \<noteq> D_dispatched then Inl (Conflict ''Dispatch lease was lost'')
        else if di_remote_run d = Some i then Inr d
        else Inl (Conflict ''Dispatch is already linked to a different remote run''), s)"
  using assms
  by (auto simp: link_dispatch_def dispatch_admits_def Let_def split: sum.split)

lemma release_refused:
  assumes "dget (dispatches s) (mk_key (scope_of c) sid) = Some d" "\<not> dispatch_admits d ow t now"
  shows "release_dispatch c sid ow t unc can code now s =
    (if (case code of None \<Rightarrow> False | Some x \<Rightarrow> 64 < length x \<or> \<not> list_all is_token_char x)
     then Inl (Value_error ''error_code must be a bounded lowercase diagnostic token'')
     else if di_status d = D_dispatched then Inr d else Inl (Conflict ''Dispatch lease was lost''), s)"
  using assms by (auto simp: release_dispatch_def dispatch_admits_def Let_def)

text \<open>
  C8: A dispatcher whose claim on a dispatch has been superseded is fenced off.  After a later claim by
  anyone the token has grown, and in every later store the calls with the old token change nothing: while
  the dispatch is not linked, linking a remote run and releasing the dispatch are refused as a lost lease.
  Once the dispatch is linked both calls only read it: a release, and a link of the very run that is
  linked, answer with the linked row, and a link of any other run is refused.
\<close>

lemma dispatch_fencing:
  assumes "reachable ex s" "claim_dispatch c sid ow secs now s = (Inr (Some d), s1)"
    and "moves ex s1 s2" "claim_dispatch c sid ow' secs' now' s2 = (Inr (Some d'), s3)"
    and "moves ex s3 s4"
  shows "di_token d < di_token d' \<and> (\<exists>x. dget (dispatches s4) (mk_key (scope_of c) sid) = Some x
    \<and> link_dispatch c sid ow (di_token d) rem leg t s4 = (case select_remote_run_id rem leg of
        Inl e \<Rightarrow> Inl e
      | Inr i \<Rightarrow> if di_status x \<noteq> D_dispatched then Inl (Conflict ''Dispatch lease was lost'')
          else if di_remote_run x = Some i then Inr x
          else Inl (Conflict ''Dispatch is already linked to a different remote run''), s4)
    \<and> release_dispatch c sid ow (di_token d) unc can code t s4 =
      (if (case code of None \<Rightarrow> False | Some m \<Rightarrow> 64 < length m \<or> \<not> list_all is_token_char m)
       then Inl (Value_error ''error_code must be a bounded lowercase diagnostic token'')
       else if di_status x = D_dispatched then Inr x else Inl (Conflict ''Dispatch lease was lost''), s4))"
proof -
  let ?k = "mk_key (scope_of c) sid"
  have claim: "store_step ex c (Dispatch (Claim_dispatch sid o1 se n)) u None u'"
    if "claim_dispatch c sid o1 se n u = (Inr x, u')" for o1 se n u x u'
    using that by (intro store_step.step) (simp_all add: fresh_ids_def)
  have ok1: "store_ok s1" and ok2: "store_ok s2" and ok3: "store_ok s3"
    using reachable_ok[OF assms(1)] step_ok(1)[OF claim[OF assms(2)]] moves_ok[OF assms(3)]
      step_ok(1)[OF claim[OF assms(4)]] by blast+
  note d = claim_dispatch_admits[OF assms(2)] and d' = claim_dispatch_admits[OF assms(4)]
  obtain d2 where d2: "dget (dispatches s2) ?k = Some d2" "d2 = d \<or> di_le d d2"
    using dispatch_history[OF ok1 assms(3) d(1)] by blast
  have tok: "di_token d' = di_token d2 + 1" "di_le d2 d'"
  proof -
    have e: "store_evolves (within c) s2 s3"
      using step_ok(2)[OF claim[OF assms(4)] ok2] .
    show "di_token d' = di_token d2 + 1"
      using assms(4) d2(1)
      by (cases "dget (submissions s2) ?k")
        (auto simp: claim_dispatch_def Let_def split: if_splits)
    then show "di_le d2 d'"
      by (rule_tac evolved_dispatch[OF e d2(1)]) (use d'(1) in auto)
  qed
  have le: "d' = d \<or> di_le d d'" using d2(2) tok(2) di_le_trans by blast
  have less: "di_token d < di_token d'"
    using d2(2) tok(1) by (auto simp: di_le_def fence_le_def)
  obtain d4 where d4: "dget (dispatches s4) ?k = Some d4" "d4 = d' \<or> di_le d' d4"
    using dispatch_history[OF ok3 assms(5) d'(1)] by blast
  have "\<not> dispatch_admits d4 ow (di_token d) t" for t
    by (rule dispatch_claim.superseded[OF d(2) le d'(2) _ d4(2)]) (use less in simp)
  note lost = this
  show ?thesis
    by (intro conjI exI[of _ d4] less d4(1) link_refused[OF d4(1) lost] release_refused[OF d4(1) lost])
qed

text \<open>A remote submission whose first dispatcher lets its claim expire and a second one takes over.\<close>

definition prepared_store :: store where
  "prepared_store = run_all sample_ex
     [(alice, Work (Accept (sample_request ''k'' sample_route) ''s1'' ''o1'' 0)),
      (alice, Dispatch (Prepare_dispatch ''s1'' 1))] (empty_store None)"

definition claimed_store :: store where
  "claimed_store = snd (claim_dispatch alice ''s1'' ''d1'' 10 2 prepared_store)"

definition reclaimed_store :: store where
  "reclaimed_store = snd (claim_dispatch alice ''s1'' ''d2'' 10 20000000 claimed_store)"

lemma prepared_store_reachable: "reachable sample_ex prepared_store"
  unfolding prepared_store_def by (rule run_all_reachable) code_simp

lemma claimed: "(case fst r of Inr (Some d) \<Rightarrow> P d | _ \<Rightarrow> False) \<Longrightarrow> \<exists>d. r = (Inr (Some d), snd r) \<and> P d"
  by (cases r) (auto split: sum.splits option.splits)

lemma claimed_store_claim:
  "\<exists>d. claim_dispatch alice ''s1'' ''d1'' 10 2 prepared_store = (Inr (Some d), claimed_store)
     \<and> di_token d = 1"
  unfolding claimed_store_def by (rule claimed) (unfold prepared_store_def, code_simp)

lemma reclaimed_store_claim:
  "\<exists>d. claim_dispatch alice ''s1'' ''d2'' 10 20000000 claimed_store = (Inr (Some d), reclaimed_store)
     \<and> di_token d = 2"
  unfolding reclaimed_store_def by (rule claimed) (unfold claimed_store_def prepared_store_def, code_simp)

lemma reclaimed_row: "map_option di_status (dget (dispatches reclaimed_store) (mk_key (scope_of alice) ''s1'')) = Some D_leased"
  unfolding reclaimed_store_def claimed_store_def prepared_store_def by code_simp

lemma dispatch_fencing_witness:
  "link_dispatch alice ''s1'' ''d1'' 1 (Some ''run'') None 20000001 reclaimed_store
     = (Inl (Conflict ''Dispatch lease was lost''), reclaimed_store)
   \<and> release_dispatch alice ''s1'' ''d1'' 1 False False None 20000001 reclaimed_store
     = (Inl (Conflict ''Dispatch lease was lost''), reclaimed_store)"
proof -
  obtain d where d: "claim_dispatch alice ''s1'' ''d1'' 10 2 prepared_store = (Inr (Some d), claimed_store)"
    "di_token d = 1"
    using claimed_store_claim by blast
  obtain d' where d': "claim_dispatch alice ''s1'' ''d2'' 10 20000000 claimed_store
      = (Inr (Some d'), reclaimed_store)"
    using reclaimed_store_claim by blast
  have "select_remote_run_id (Some ''run'') None = Inr ''run''" by code_simp
  then show ?thesis
    using dispatch_fencing[OF prepared_store_reachable d(1) moves.stay d' moves.stay, of "Some ''run''"
        None 20000001 False False None] reclaimed_row d(2) by auto
qed

subsection \<open>Generations\<close>

text \<open>
  A remote run is linked once per generation: a dispatch never returns to an older generation,
  and while its generation is the same the linked run stays the linked run and the dispatch is not
  offered for another remote create.
\<close>

lemma one_run_per_generation:
  assumes "reachable ex s" "moves ex s s'" "dget (dispatches s) k = Some d"
  shows "\<exists>d'. dget (dispatches s') k = Some d' \<and> di_generation d \<le> di_generation d'
    \<and> (di_status d = D_dispatched \<longrightarrow> di_generation d' = di_generation d \<longrightarrow>
         di_remote_run d \<noteq> None \<and> di_remote_run d' = di_remote_run d
         \<and> di_status d' \<in> {D_dispatched, D_reconciliation_required, D_cancelled})"
proof -
  have ok: "store_ok s" using reachable_ok[OF assms(1)] .
  then have t: "tables_ok s" by (simp add: store_ok_def)
  obtain d' where d': "dget (dispatches s') k = Some d'" "d' = d \<or> di_le d d'"
    using dispatch_history[OF ok assms(2,3)] by blast
  have "keyed_dispatch k d" using t assms(3) by (auto simp: tables_ok_def dest: table_okD)
  then have linked: "di_remote_run d \<noteq> None" if "di_status d = D_dispatched"
    using that by (simp add: keyed_dispatch_def di_ok_def)
  have "di_generation d \<le> di_generation d'"
    "di_status d = D_dispatched \<Longrightarrow> di_generation d' = di_generation d \<Longrightarrow>
      di_remote_run d' = di_remote_run d \<and> created_remotely d'"
    using d'(2) unfolding di_le_def by (auto simp: created_remotely_def)
  then show ?thesis using d'(1) linked by (auto simp: created_remotely_def)
qed

text \<open>Which dispatch calls make a new generation, and when.\<close>

definition unclaimed :: "key \<Rightarrow> store \<Rightarrow> bool" where
  "unclaimed k s \<longleftrightarrow> map_option su_status (dget (submissions s) k) = Some Accepted
     \<and> \<not> execution_started (key_scope k) (key_id k) s"

definition new_generation :: "key \<Rightarrow> store \<Rightarrow> dispatch \<Rightarrow> dispatch \<Rightarrow> bool" where
  "new_generation k s d d' \<longleftrightarrow> di_generation d' = di_generation d + 1 \<and> unclaimed k s
     \<and> (di_status d = D_dispatched \<and> di_generation d < max_dispatch_generations
        \<or> di_status d = D_reconciliation_required \<and> length (di_history d') \<noteq> 0)"

lemma last_n_ne: "0 < n \<Longrightarrow> xs \<noteq> [] \<Longrightarrow> last_n n xs \<noteq> []"
  by (cases xs) (simp_all add: last_n_def)

lemma rearm_generation:
  assumes "dget (dispatches s) k = Some d" "di_generation d' \<noteq> di_generation d"
    and "dget (dispatches (snd (rearm_dispatch_if_unclaimed ex c sid rem reason age current wall s))) k
        = Some d'"
  shows "new_generation k s d d'"
proof -
  let ?k = "mk_key (scope_of c) sid"
  obtain run su d0 where 1: "select_remote_run_id rem None = Inr run" "dget (dispatches s) ?k = Some d0"
    "dget (submissions s) ?k = Some su"
    using assms
    by (cases "select_remote_run_id rem None"; cases "dget (dispatches s) ?k";
        cases "dget (submissions s) ?k") (auto simp: rearm_dispatch_if_unclaimed_def Let_def)
  then have 2: "k = ?k" "d0 = d"
    using assms
    by (auto simp: rearm_dispatch_if_unclaimed_def Let_def split: if_splits)
  then show ?thesis
    using assms 1
    by (auto simp: rearm_dispatch_if_unclaimed_def Let_def new_generation_def unclaimed_def rearmed_def
        split: if_splits)
qed

lemma reconciled_generation:
  assumes "dget (dispatches s) k = Some d" "di_generation d' \<noteq> di_generation d"
    and "dget (dispatches (snd (rearm_reconciliation_required_dispatch ex c sid expected rem leg ev now s))) k
        = Some d'"
  shows "new_generation k s d d'"
proof -
  let ?k = "mk_key (scope_of c) sid"
  obtain run su d0 where 1: "select_remote_run_id rem leg = Inr run" "dget (dispatches s) ?k = Some d0"
    "dget (submissions s) ?k = Some su"
    using assms
    by (cases "select_remote_run_id rem leg"; cases "dget (dispatches s) ?k";
        cases "dget (submissions s) ?k")
      (auto simp: rearm_reconciliation_required_dispatch_def Let_def split: if_splits)
  then have 2: "k = ?k" "d0 = d"
    using assms
    by (auto simp: rearm_reconciliation_required_dispatch_def Let_def split: if_splits)
  then show ?thesis
    using assms 1
    by (auto simp: rearm_reconciliation_required_dispatch_def Let_def new_generation_def unclaimed_def
        rearmed_def last_n_ne split: if_splits)
qed

lemma prepare_keeps_generation:
  assumes "dget (dispatches s) k = Some d"
    and "dget (dispatches (snd (prepare_dispatch ex c sid now s))) k = Some d'"
  shows "d' = d"
  using assms
  by (auto simp: prepare_dispatch_def Let_def split: if_splits option.splits prod.splits)

lemma claim_keeps_generation:
  assumes "dget (dispatches s) k = Some d"
    and "dget (dispatches (snd (claim_dispatch c sid ow secs now s))) k = Some d'"
  shows "di_generation d' = di_generation d"
  using assms
  by (cases "dget (dispatches s) (mk_key (scope_of c) sid)";
      cases "dget (submissions s) (mk_key (scope_of c) sid)")
    (auto simp: claim_dispatch_def Let_def split: if_splits)

lemma dispatch_call_generation:
  assumes "dget (dispatches s) k = Some d" "di_generation d' \<noteq> di_generation d"
    and "dget (dispatches (snd (run_dispatch ex c op s))) k = Some d'"
  shows "new_generation k s d d'"
proof (cases op)
  case (Prepare_dispatch sid now)
  then show ?thesis using prepare_keeps_generation[OF assms(1)] assms by auto
next
  case (Claim_dispatch sid ow secs now)
  then show ?thesis using claim_keeps_generation[OF assms(1)] assms by auto
next
  case (Link_dispatch sid ow t rem leg now)
  then show ?thesis
    using assms by (auto simp: link_dispatch_def Let_def split: if_splits option.splits sum.splits)
next
  case (Release_dispatch sid ow t unc can code now)
  then show ?thesis
    using assms by (auto simp: release_dispatch_def Let_def split: if_splits option.splits)
next
  case (Rearm_failed sid rem leg current wall)
  then show ?thesis
    using assms rearm_generation[OF assms(1,2)]
    by (auto simp: rearm_dispatch_after_remote_failure_def split: sum.splits)
next
  case (Rearm_missing sid rem leg age current wall)
  then show ?thesis
    using assms rearm_generation[OF assms(1,2)]
    by (auto simp: rearm_dispatch_after_remote_missing_def split: sum.splits if_splits)
next
  case (Rearm_reconciled sid expected rem leg ev now)
  then show ?thesis using assms reconciled_generation[OF assms(1,2)] by simp
qed

definition linked_store :: store where
  "linked_store = snd (link_dispatch alice ''s1'' ''d1'' 1 (Some ''run'') None 3 claimed_store)"

lemma step_moves: "fresh_ids (scope_of c) op s \<Longrightarrow> moves ex s (snd (run ex c op s))"
  by (rule moves.go[OF moves.stay store_step.step]) (assumption, rule prod.collapse[symmetric])

lemma linked_store_reachable: "reachable sample_ex linked_store"
proof -
  have "moves sample_ex prepared_store claimed_store"
    using step_moves[of alice "Dispatch (Claim_dispatch ''s1'' ''d1'' 10 2)" prepared_store sample_ex]
    by (simp add: claimed_store_def fresh_ids_def)
  moreover have "moves sample_ex claimed_store linked_store"
    using step_moves[of alice "Dispatch (Link_dispatch ''s1'' ''d1'' 1 (Some ''run'') None 3)"
        claimed_store sample_ex] by (simp add: linked_store_def fresh_ids_def)
  ultimately show ?thesis using prepared_store_reachable reachable_moves by blast
qed

definition linked_row :: dispatch where
  "linked_row = (case dget (dispatches linked_store) (mk_key (scope_of alice) ''s1'') of Some d \<Rightarrow> d)"

lemma linked_store_row:
  "dget (dispatches linked_store) (mk_key (scope_of alice) ''s1'') = Some linked_row"
  "di_status linked_row = D_dispatched"
proof -
  have "(case dget (dispatches linked_store) (mk_key (scope_of alice) ''s1'') of
      Some d \<Rightarrow> di_status d = D_dispatched | None \<Rightarrow> False)"
    unfolding linked_store_def claimed_store_def prepared_store_def by code_simp
  then show "dget (dispatches linked_store) (mk_key (scope_of alice) ''s1'') = Some linked_row"
    "di_status linked_row = D_dispatched"
    by (auto simp: linked_row_def split: option.splits)
qed

lemma one_run_per_generation_witness: "di_remote_run linked_row \<noteq> None"
  using one_run_per_generation[OF linked_store_reachable moves.stay linked_store_row(1)]
    linked_store_row by auto

text \<open>
  A remote create is repeated only while no execution can exist: a call that changes the
  generation of a dispatch raises it by one, finds the submission accepted with no attempt, effect or
  result publication, and either the bound of three generations is not reached or the call records
  an operator's authorization.
\<close>

lemma rearm_before_execution:
  assumes "store_step ex c op s e s'" "dget (dispatches s) k = Some d"
    and "dget (dispatches s') k = Some d'" "di_generation d' \<noteq> di_generation d"
  shows "di_generation d' = di_generation d + 1
    \<and> map_option su_status (dget (submissions s) k) = Some Accepted
    \<and> \<not> execution_started (key_scope k) (key_id k) s
    \<and> (di_generation d < 3 \<or> di_history d' \<noteq> [])"
proof -
  have s': "s' = snd (run ex c op s)" using assms(1) by (auto simp: store_step_iff)
  show ?thesis
  proof (cases "\<exists>w. op = Dispatch w")
    case True
    then have "new_generation k s d d'"
      using dispatch_call_generation[OF assms(2,4)] assms(3) s' by auto
    then show ?thesis by (auto simp: new_generation_def unclaimed_def max_dispatch_generations_def)
  next
    case False
    have "map_option di_generation (dget (dispatches s') k) = map_option di_generation (dget (dispatches s) k)"
      using run_closed[of op s ex c] route_dispatches[of ex c _ s] False s'
      by (cases op) (auto simp: dispatches_closed_def)
    then show ?thesis using assms(2-4) by simp
  qed
qed

subsection \<open>Retry\<close>

lemma backoff_bounds: "1 \<le> backoff_seconds n" "backoff_seconds n \<le> 300"
  by (simp_all add: backoff_seconds_def)

text \<open>
  A dispatch that its holder releases without cancelling it waits at least one second and at
  most five minutes: no dispatcher can claim it earlier, and from then on a claim by any dispatcher
  succeeds while the submission is executable.
\<close>

lemma released_dispatch_waits:
  assumes "release_dispatch c sid ow t unc False code now s = (Inr d, s')" "s' \<noteq> s"
    and "dget (submissions s) (mk_key (scope_of c) sid) = Some su" "\<not> not_executable (su_status su)"
    and "\<not> blank ow'" "length ow' \<le> 256" "1 \<le> secs" "secs \<le> 600"
  shows "(u < now + usec 1 \<longrightarrow> claim_dispatch c sid ow' secs u s' = (Inr None, s'))
    \<and> (now + usec 300 \<le> u \<longrightarrow> (\<exists>d' s''. claim_dispatch c sid ow' secs u s' = (Inr (Some d'), s'')
          \<and> di_owner d' = Some ow' \<and> di_token d' = di_token d + 1))"
proof -
  let ?k = "mk_key (scope_of c) sid"
  obtain n where d: "dget (dispatches s') ?k = Some d" "submissions s' = submissions s"
    "di_status d \<in> {D_pending, D_uncertain}" "di_retry_after d = Some (now + usec (backoff_seconds n))"
    using assms(1,2)
    by (auto simp: release_dispatch_def Let_def split: if_splits option.splits)
  have "claim_refused d su u \<longleftrightarrow> u < now + usec (backoff_seconds n)"
    using d assms(4) by (auto simp: claim_refused_def after_def)
  then show ?thesis
    using backoff_bounds[of n] d assms(3,5-8) by (auto simp: claim_dispatch_def Let_def)
qed

definition rearmed_store :: store where
  "rearmed_store = snd (rearm_dispatch_after_remote_failure sample_ex alice ''s1'' (Some ''run'') None
     4 4 linked_store)"

lemma rearmed_store_step:
  "store_step sample_ex alice (Dispatch (Rearm_failed ''s1'' (Some ''run'') None 4 4)) linked_store None
     rearmed_store"
proof (rule store_step.step)
  have "fst (run sample_ex alice (Dispatch (Rearm_failed ''s1'' (Some ''run'') None 4 4)) linked_store)
      = None"
    unfolding linked_store_def claimed_store_def prepared_store_def by code_simp
  moreover have "snd (run sample_ex alice (Dispatch (Rearm_failed ''s1'' (Some ''run'') None 4 4))
      linked_store) = rearmed_store" by (simp add: rearmed_store_def)
  ultimately show "run sample_ex alice (Dispatch (Rearm_failed ''s1'' (Some ''run'') None 4 4)) linked_store
      = (None, rearmed_store)"
    by (metis prod.collapse)
qed (simp add: fresh_ids_def)

lemma rearmed_store_row:
  "(case dget (dispatches rearmed_store) (mk_key (scope_of alice) ''s1'') of
      Some d \<Rightarrow> di_generation d = 2 | None \<Rightarrow> False)"
  unfolding rearmed_store_def linked_store_def claimed_store_def prepared_store_def by code_simp

lemma linked_generation: "di_generation linked_row = 1"
proof -
  have "(case dget (dispatches linked_store) (mk_key (scope_of alice) ''s1'') of
      Some d \<Rightarrow> di_generation d = 1 | None \<Rightarrow> False)"
    unfolding linked_store_def claimed_store_def prepared_store_def by code_simp
  then show ?thesis by (simp add: linked_store_row)
qed

lemma rearm_before_execution_witness:
  "map_option su_status (dget (submissions linked_store) (mk_key (scope_of alice) ''s1'')) = Some Accepted"
  using rearmed_store_row linked_generation
    rearm_before_execution[OF rearmed_store_step linked_store_row(1)]
  by (auto split: option.splits)

lemma released_outcome:
  "(case fst r of Inr d \<Rightarrow> P d | _ \<Rightarrow> False) \<Longrightarrow> \<exists>d. r = (Inr d, snd r) \<and> P d"
  by (cases r) (auto split: sum.splits)

definition released_store :: store where
  "released_store = snd (release_dispatch alice ''s1'' ''d1'' 1 True False None 3 claimed_store)"

lemma released_dispatch_waits_witness:
  "claim_dispatch alice ''s1'' ''d2'' 10 4 released_store = (Inr None, released_store)"
proof -
  obtain d where d: "release_dispatch alice ''s1'' ''d1'' 1 True False None 3 claimed_store
      = (Inr d, released_store)" "di_status d = D_uncertain"
  proof -
    have "\<exists>d. release_dispatch alice ''s1'' ''d1'' 1 True False None 3 claimed_store
        = (Inr d, snd (release_dispatch alice ''s1'' ''d1'' 1 True False None 3 claimed_store))
        \<and> di_status d = D_uncertain"
      by (rule released_outcome) (unfold claimed_store_def prepared_store_def, code_simp)
    then show thesis using that by (auto simp: released_store_def)
  qed
  have "(case (dget (dispatches released_store) (mk_key (scope_of alice) ''s1''),
      dget (dispatches claimed_store) (mk_key (scope_of alice) ''s1'')) of
        (Some a, Some b) \<Rightarrow> di_status a \<noteq> di_status b | _ \<Rightarrow> False)"
    unfolding released_store_def claimed_store_def prepared_store_def by code_simp
  then have ne: "released_store \<noteq> claimed_store" by (auto split: option.splits)
  have "(case dget (submissions claimed_store) (mk_key (scope_of alice) ''s1'') of
      Some su \<Rightarrow> \<not> not_executable (su_status su) | None \<Rightarrow> False)"
    unfolding claimed_store_def prepared_store_def by code_simp
  then obtain su where su: "dget (submissions claimed_store) (mk_key (scope_of alice) ''s1'') = Some su"
    "\<not> not_executable (su_status su)"
    by (auto split: option.splits)
  show ?thesis
    using released_dispatch_waits[OF d(1) ne su, of "''d2''" 10 4] by (simp add: blank_def is_space_def)
qed

end
