(* ===== verification/Durable_Lifecycle.thy ===== *)
theory Durable_Lifecycle
  imports Durable_Samples Durable_Frames
begin

text \<open>
  The ends of things in the durable work store: routes that are retired and cleaned up, hosts that
  disappear, and submissions that are cancelled.
\<close>

subsection \<open>Retired routes\<close>

definition closing :: "route_status \<Rightarrow> bool" where
  "closing st \<longleftrightarrow> st \<in> {R_retired, R_cleanup_pending, R_cleaned}"

definition cleaning :: "route_status \<Rightarrow> bool" where
  "cleaning st \<longleftrightarrow> st \<in> {R_cleanup_pending, R_cleaned}"

definition route_fine :: "store \<Rightarrow> string \<Rightarrow> bool" where
  "route_fine s r \<longleftrightarrow>
     (closing (ro_status (route_state s r)) \<longrightarrow> route_ref_list s r = []
        \<and> (\<forall>k su. dget (submissions s) k = Some su \<longrightarrow> su_route su = r \<longrightarrow> is_terminal (su_status su)))
     \<and> (cleaning (ro_status (route_state s r)) \<longrightarrow>
          (\<forall>k su. dget (submissions s) k = Some su \<longrightarrow> su_route su \<noteq> r))"

definition route_ok :: "store \<Rightarrow> bool" where
  "route_ok s \<longleftrightarrow> (\<forall>r. route_fine s r)"

lemma route_ok_empty: "route_ok (empty_store lim)"
  by (simp add: route_ok_def route_fine_def empty_store_def route_ref_list_def)

lemma route_state_cong:
  "same_routes s s' \<Longrightarrow> route_state s' r = route_state s r \<and> route_ref_list s' r = route_ref_list s r"
  by (simp add: same_routes_def route_state_def route_ref_list_def)

lemma route_ok_keep:
  assumes "route_ok s" "same_routes s s'" "store_evolves own s s'"
    and "\<And>k. dget (submissions s') k \<noteq> None \<Longrightarrow> dget (submissions s) k \<noteq> None"
  shows "route_ok s'"
proof -
  have old: "\<exists>su. dget (submissions s) k = Some su \<and> su_route su = su_route su'
      \<and> (is_terminal (su_status su) \<longrightarrow> is_terminal (su_status su'))"
    if row: "dget (submissions s') k = Some su'" for k su'
  proof -
    obtain su where su: "dget (submissions s) k = Some su" using assms(4)[of k] row by (cases "dget (submissions s) k") auto
    obtain x where "dget (submissions s') k = Some x" "x = su \<or> sub_le su x"
      using su by (rule evolved_submission[OF assms(3)])
    then have "su' = su \<or> sub_le su su'" using row by simp
    then show ?thesis
      using su sub_identityD(4)[of su' su] terminal_max
      by (metis sub_le_def)
  qed
  show ?thesis
    using assms(1) unfolding route_ok_def route_fine_def
    by (auto simp: route_state_cong[OF assms(2)] dest!: old)
qed

lemma accept_route_ok:
  assumes "route_ok s" "fresh_ids (scope_of c) (Work (Accept rq us uo now)) s"
  shows "route_ok (snd (accept ex c rq us uo now s))"
proof (cases rule: accept_cases[of ex c rq us uo now s])
  case (admitted sid)
  let ?s = "accept_store ex c rq sid uo now s"
  have r: "route_state ?s r = route_state s r" "route_ref_list ?s r = route_ref_list s r" for r
    by (simp_all add: accept_store_def route_state_def route_ref_list_def)
  have "su_route (new_submission ex c rq sid now) = rq_route rq"
    by (simp add: new_submission_def)
  then show ?thesis
    using assms(1) admitted(6)
    by (auto simp: admitted(1) route_ok_def route_fine_def r closing_def cleaning_def)
      (auto simp: accept_store_def split: if_splits)
qed (use assms in simp_all)

definition refs_of :: "(string, string list) pydict \<Rightarrow> string \<Rightarrow> string list" where
  "refs_of d r = (case dget d r of None \<Rightarrow> [] | Some x \<Rightarrow> x)"

lemma route_ref_list_eq: "route_ref_list s r = refs_of (route_refs s) r"
  by (simp add: route_ref_list_def refs_of_def)

lemma drop_reference_refs: "set (refs_of (drop_reference r i d) r') \<subseteq> set (refs_of d r')"
  by (auto simp: drop_reference_def refs_of_def Let_def split: option.splits if_splits)

lemma drop_references_refs:
  "set (refs_of (fold (\<lambda>r. drop_reference r i) rs d) r') \<subseteq> set (refs_of d r')"
proof (induction rs arbitrary: d)
  case (Cons r rs)
  then show ?case using drop_reference_refs[of r i d r'] Cons.IH[of "drop_reference r i d"] by auto
qed simp

lemma route_ok_refs:
  assumes "route_ok s" "\<And>r. set (refs_of refs r) \<subseteq> set (refs_of (route_refs s) r)"
  shows "route_ok (s\<lparr>route_refs := refs\<rparr>)"
proof -
  have "refs_of (route_refs s) r = [] \<Longrightarrow> refs_of refs r = []" for r using assms(2)[of r] by auto
  then show ?thesis
    using assms(1) unfolding route_ok_def route_fine_def route_ref_list_eq by (simp add: route_state_def)
qed

lemma reserve_route_ok:
  assumes "route_ok s"
  shows "route_ok (snd (reserve_execution_route_reference r i s))"
proof (cases "reference_arg_error r i = None \<and> ro_status (route_state s r) = R_active")
  case True
  let ?s = "s\<lparr>route_refs := dput r (set_add i (route_ref_list s r)) (route_refs s)\<rparr>"
  have "route_fine ?s r'" for r'
  proof (cases "r' = r")
    case True
    then show ?thesis
      using \<open>reference_arg_error r i = None \<and> ro_status (route_state s r) = R_active\<close>
      by (simp add: route_fine_def route_state_def closing_def cleaning_def)
  next
    case False
    then show ?thesis
      using assms by (simp add: route_ok_def route_fine_def route_state_def route_ref_list_def)
  qed
  then have "route_ok ?s" by (simp add: route_ok_def)
  then show ?thesis using True by (simp add: reserve_execution_route_reference_def)
next
  case False
  then have "snd (reserve_execution_route_reference r i s) = s"
    by (auto simp: reserve_execution_route_reference_def split: option.split)
  then show ?thesis using assms by simp
qed

lemma outcome_branch: "(b \<Longrightarrow> P (snd x)) \<Longrightarrow> (\<not> b \<Longrightarrow> P (snd y)) \<Longrightarrow> P (snd (if b then x else y))"
  by simp

text \<open>A transition that happens is allowed and has met the conditions of its target.\<close>

lemma transition_induct:
  assumes "P s"
    and "route_allowed (ro_status (route_state s r)) st \<Longrightarrow>
      (st = R_retired \<Longrightarrow> drained (route_workload s r) \<and> rf_reservations (route_reference_counts s r) = 0) \<Longrightarrow>
      (st = R_cleanup_pending \<Longrightarrow> rf_submissions (route_reference_counts s r) = 0
         \<and> rf_reservations (route_reference_counts s r) = 0) \<Longrightarrow>
      P (s\<lparr>routes := dput r (next_route c (route_state s r) st now) (routes s)\<rparr>)"
  shows "P (snd (transition_execution_route_state c r expected st now s))"
proof (cases "route_arg_error r")
  case (Some e)
  then show ?thesis using assms(1) by (simp add: transition_execution_route_state_def)
next
  case None
  show ?thesis
    unfolding transition_execution_route_state_def None option.case Let_def
    by (intro outcome_branch[where P = P]) (use assms in auto)
qed

lemma transition_route_ok:
  assumes ok: "route_ok s"
  shows "route_ok (snd (transition_execution_route_state c r expected st now s))"
proof (rule transition_induct)
  let ?s = "s\<lparr>routes := dput r (next_route c (route_state s r) st now) (routes s)\<rparr>"
  assume allowed: "route_allowed (ro_status (route_state s r)) st"
    and retired: "st = R_retired \<Longrightarrow> drained (route_workload s r) \<and> rf_reservations (route_reference_counts s r) = 0"
    and cleanup: "st = R_cleanup_pending \<Longrightarrow> rf_submissions (route_reference_counts s r) = 0
         \<and> rf_reservations (route_reference_counts s r) = 0"
  have live: "is_terminal (su_status su)"
    if "st = R_retired" "dget (submissions s) k = Some su" "su_route su = r" for k su
    using retired that dget_in_set[OF that(2)]
    by (auto simp: drained_def route_workload_def dcount_zero_iff non_terminal_iff)
  have none: "su_route su \<noteq> r" if "st = R_cleanup_pending" "dget (submissions s) k = Some su" for k su
    using cleanup that dget_in_set[OF that(2)]
    by (auto simp: route_reference_counts_def dcount_zero_iff)
  have refs: "route_ref_list s r = []" if "st \<in> {R_retired, R_cleanup_pending}"
    using retired cleanup that by (auto simp: route_reference_counts_def)
  define s1 where "s1 = ?s"
  have st: "ro_status (route_state s1 r) = st" "route_ref_list s1 r = route_ref_list s r"
    "submissions s1 = submissions s"
    by (simp_all add: s1_def route_state_def route_ref_list_def next_route_def)
  have other: "route_fine s1 r' = route_fine s r'" if "r' \<noteq> r" for r'
    using that by (simp add: s1_def route_fine_def route_state_def route_ref_list_def)
  have fine: "route_fine s r" using ok by (simp add: route_ok_def)
  have "route_fine s1 r"
    unfolding route_fine_def st
  proof (cases st)
    case R_cleaned
    then have "ro_status (route_state s r) = R_cleanup_pending"
      using allowed by (simp add: route_allowed_def)
    then show "(closing st \<longrightarrow> route_ref_list s r = [] \<and> (\<forall>k su. dget (submissions s) k = Some su \<longrightarrow>
        su_route su = r \<longrightarrow> is_terminal (su_status su)))
      \<and> (cleaning st \<longrightarrow> (\<forall>k su. dget (submissions s) k = Some su \<longrightarrow> su_route su \<noteq> r))"
      using fine by (auto simp: route_fine_def closing_def cleaning_def)
  qed (use live none refs in \<open>auto simp: closing_def cleaning_def\<close>)
  then show "route_ok ?s" using ok other unfolding route_ok_def s1_def by metis
qed (rule ok)

lemma release_route_ok:
  assumes "route_ok s"
  shows "route_ok (snd (release_execution_route_reference r i s))"
proof (cases "reference_arg_error r i")
  case None
  then show ?thesis
    using route_ok_refs[OF assms drop_reference_refs] by (simp add: release_execution_route_reference_def)
qed (use assms in \<open>simp add: release_execution_route_reference_def\<close>)

lemma release_reference_ok:
  assumes "route_ok s"
  shows "route_ok (snd (release_execution_route_reference_id i s))"
  using assms route_ok_refs[OF assms drop_references_refs]
  by (simp add: release_execution_route_reference_id_def)

lemma route_call_ok: "route_ok s \<Longrightarrow> route_ok (snd (run_route ex c op s))"
  by (cases op) (simp_all add: reserve_route_ok transition_route_ok release_route_ok release_reference_ok)

lemma no_new_submission:
  assumes ok: "store_ok s" and fresh: "fresh_ids (scope_of c) op s"
    and no: "\<And>rq us uo now. op \<noteq> Work (Accept rq us uo now)"
  shows "no_admission s (snd (run ex c op s))"
proof -
  have t: "tables_ok s" and x: "exec_ok s" using ok by (simp_all add: store_ok_def)
  note same = no_admission_same
  show ?thesis
  proof (cases op)
    case (Work w)
    then show ?thesis
      using no mark_published_no_admission reconcile_terminal_no_admission[OF t] cancel_no_admission
        reconcile_cancelled_no_admission[OF t] by (cases w) auto
  next
    case (Execute w)
    then show ?thesis
      using lease_frames[THEN same] start_attempt_no_admission[OF x t] finish_attempt_no_admission
        publication_frames same by (cases w) (auto simp: same_exec_def)
  qed (use state_frames route_frames dispatch_frames action_frames preview_frames same
      in \<open>auto simp: same_exec_def\<close>)
qed

lemma step_route_ok:
  assumes "store_step ex c op s e s'" "store_ok s" "route_ok s"
  shows "route_ok s'"
proof -
  have fresh: "fresh_ids (scope_of c) op s" and s': "s' = snd (run ex c op s)"
    using assms(1) by (auto simp: store_step_iff)
  have e: "store_evolves (within c) s s'" using step_ok(2)[OF assms(1,2)] .
  consider (route) w where "op = Route w" | (accept) rq us uo now where "op = Work (Accept rq us uo now)"
    | (other) "\<And>w. op \<noteq> Route w" "\<And>rq us uo now. op \<noteq> Work (Accept rq us uo now)" by blast
  then show ?thesis
  proof cases
    case other
    show ?thesis
      using route_ok_keep[OF assms(3) run_routes[OF other(1)] e[unfolded s']]
        no_new_submission[OF assms(2) fresh other(2)] by (simp add: s' no_admission_def)
  qed (use s' fresh assms(3) route_call_ok accept_route_ok in auto)
qed

lemma reachable_route_ok:
  assumes "reachable ex s"
  shows "route_ok s"
  using assms
proof (induction rule: reachable_induct)
  case (step c op s e s')
  then show ?case using step_route_ok reachable_ok by blast
qed (simp add: route_ok_empty)

text \<open>
  A retired route owns no work: in every reachable store each submission pinned to a retired,
  cleanup-pending or cleaned route has ended, none of its attempts is running and the route holds
  no schedule reservation; once clean-up has begun no submission refers to the route at all.
\<close>

lemma retired_route_settled:
  assumes "reachable ex s" "ro_status (route_state s r) \<in> {R_retired, R_cleanup_pending, R_cleaned}"
  shows "route_ref_list s r = []
    \<and> (\<forall>k su. dget (submissions s) k = Some su \<longrightarrow> su_route su = r \<longrightarrow>
         is_terminal (su_status su) \<and> ro_status (route_state s r) = R_retired
         \<and> \<not> has_running (key_scope k) (su_id su) s)"
proof -
  have ok: "store_ok s" and fine: "route_fine s r"
    using reachable_ok[OF assms(1)] reachable_route_ok[OF assms(1)] by (simp_all add: route_ok_def)
  then have t: "tables_ok s" and x: "exec_ok s" by (simp_all add: store_ok_def)
  have "\<not> has_running (key_scope k) (su_id su) s"
    if su: "dget (submissions s) k = Some su" "is_terminal (su_status su)" for k su
  proof
    assume "has_running (key_scope k) (su_id su) s"
    then obtain ka a where m: "(ka, a) \<in> set (attempts s)" "running_for (key_scope k) (su_id su) ka a"
      by (auto simp: has_running_def list_ex_iff)
    have "table_ok keyed_attempt (attempts s)" using t by (simp add: tables_ok_def)
    from table_ok_mem[OF this] m(1) have a: "dget (attempts s) ka = Some a" by simp
    have "k = mk_key (key_scope k) (su_id su)" using submission_key[OF t su(1)] by simp
    then show False
      using attempt_row[OF x a] m(2) su by (metis option.inject running_for_def)
  qed
  then show ?thesis
    using fine assms(2) by (auto simp: route_fine_def closing_def cleaning_def)
qed

text \<open>
  Clean-up is final: a cleaned route has the same record in every later store, and every attempt to accept
  work on it or to reserve it is refused.
\<close>

lemma cleaned_route_final:
  assumes "reachable ex s" "dget (routes s) r = Some x" "ro_status x = R_cleaned" "moves ex s s'"
  shows "dget (routes s') r = Some x
    \<and> (\<forall>i. \<exists>e. reserve_execution_route_reference r i s' = (Inl e, s'))
    \<and> (\<forall>c rq us uo now su s2. rq_route rq = r \<longrightarrow> accept ex c rq us uo now s' \<noteq> (Inr (su, True), s2))"
proof -
  obtain x' where "dget (routes s') r = Some x'" "x' = x \<or> rt_le x x'"
    using evolved_route[OF _ assms(2)] moves_ok[OF assms(4) reachable_ok[OF assms(1)]] by blast
  then have x: "dget (routes s') r = Some x" using assms(3) by (auto simp: rt_le_def)
  then have st: "ro_status (route_state s' r) = R_cleaned" using assms(3) by (simp add: route_state_def)
  have "\<exists>e. reserve_execution_route_reference r i s' = (Inl e, s')" for i
    using st by (simp add: reserve_execution_route_reference_def split: option.split)
  moreover have "accept ex c rq us uo now s' \<noteq> (Inr (su, True), s2)"
    if "rq_route rq = r" for c rq us uo now su s2
    using st that by (cases rule: accept_cases[of ex c rq us uo now s']) auto
  ultimately show ?thesis using x by blast
qed

definition retired_store :: store where
  "retired_store = run_all sample_ex
     [(alice, Route (Transition_route sample_route 0 R_draining 1)),
      (alice, Route (Transition_route sample_route 1 R_retired 2))] (empty_store None)"

lemma retired_store_reachable: "reachable sample_ex retired_store"
  unfolding retired_store_def by (rule run_all_reachable) code_simp

lemma retired_route_settled_witness: "route_ref_list retired_store sample_route = []"
proof -
  have "ro_status (route_state retired_store sample_route) = R_retired"
    unfolding retired_store_def by code_simp
  then show ?thesis using retired_route_settled[OF retired_store_reachable, of sample_route] by simp
qed

definition cleaned_store :: store where
  "cleaned_store = run_all sample_ex
     [(alice, Route (Transition_route sample_route 2 R_cleanup_pending 3)),
      (alice, Route (Transition_route sample_route 3 R_cleaned 4))] retired_store"

lemma cleaned_store_reachable: "reachable sample_ex cleaned_store"
proof -
  have "moves sample_ex retired_store cleaned_store"
    unfolding cleaned_store_def by (rule run_all_moves) (unfold retired_store_def, code_simp)
  then show ?thesis using retired_store_reachable reachable_moves by blast
qed

lemma cleaned_route_final_witness:
  "\<exists>e. reserve_execution_route_reference sample_route ''r'' cleaned_store = (Inl e, cleaned_store)"
proof -
  have "(case dget (routes cleaned_store) sample_route of Some x \<Rightarrow> ro_status x = R_cleaned | None \<Rightarrow> False)"
    unfolding cleaned_store_def retired_store_def by code_simp
  then obtain x where x: "dget (routes cleaned_store) sample_route = Some x" "ro_status x = R_cleaned"
    by (auto split: option.splits)
  show ?thesis using cleaned_route_final[OF cleaned_store_reachable x moves.stay] by simp
qed

subsection \<open>A host that disappears\<close>

text \<open>
  C9: Work is never stuck with a host that has gone: as soon as the lease of an accepted submission
  has run out, any host can take it over at once with a newer token and start an attempt, after
  which the new attempt is the only running one of the submission and the old ones are lost.
\<close>

lemma takeover:
  assumes "reachable ex s" "dget (submissions s) (mk_key (scope_of c) sid) = Some su"
    and "su_status su \<in> {Accepted, Dispatched}" "\<not> lease_live (dget (leases s) (mk_key (scope_of c) sid)) now"
    and "0 < ttl" "dget (attempts s) (mk_key (scope_of c) uuid) = None"
  shows "\<exists>l s1 a s2. acquire_lease c sid ow ttl now s = (Inr l, s1)
    \<and> (\<forall>l0. dget (leases s) (mk_key (scope_of c) sid) = Some l0 \<longrightarrow> le_token l0 < le_token l)
    \<and> start_attempt ex c sid ow (le_token l) cx uuid now s1 = (Inr a, s2)
    \<and> (\<forall>k b. dget (attempts s2) k = Some b \<longrightarrow> running_for (scope_of c) sid k b \<longrightarrow>
         k = mk_key (scope_of c) uuid \<and> b = a)
    \<and> (\<forall>k b. dget (attempts s) k = Some b \<longrightarrow> running_for (scope_of c) sid k b \<longrightarrow>
         dget (attempts s2) k = Some (lost now b))"
proof -
  let ?k = "mk_key (scope_of c) sid"
  have ok: "store_ok s" using reachable_ok[OF assms(1)] .
  then have x: "exec_ok s" and t: "tables_ok s" by (simp_all add: store_ok_def)
  define l where "l = \<lparr>le_submission = sid, le_owner = ow,
    le_token = (case dget (leases s) ?k of None \<Rightarrow> 1 | Some l0 \<Rightarrow> le_token l0 + 1),
    le_acquired_at = now, le_expires_at = now + usec ttl, le_heartbeat_at = now\<rparr>"
  define s1 where "s1 = s\<lparr>leases := dput ?k l (leases s)\<rparr>"
  have run: "\<not> not_executable (su_status su)"
    using assms(3) by (auto simp: not_executable_def is_terminal_def)
  have acquired: "acquire_lease c sid ow ttl now s = (Inr l, s1)"
    using assms(2,4,5) run
    by (auto simp: acquire_lease_def Let_def l_def s1_def lease_live_def split: option.splits)
  have newer: "le_token l0 < le_token l" if "dget (leases s) ?k = Some l0" for l0
    using that by (simp add: l_def)
  have older: "at_token a < le_token l"
    if a: "dget (attempts s) k = Some a" "running_for (scope_of c) sid k a" for k a
  proof -
    obtain l0 where "dget (leases s) ?k = Some l0" "at_token a \<le> le_token l0"
      using attempt_row[OF x a(1)] a(2) by (metis running_for_def)
    then show ?thesis using newer[of l0] by simp
  qed
  have tab: "table_ok keyed_attempt (attempts s)" using t by (simp add: tables_ok_def)
  have mem: "(k, a) \<in> set (attempts s) \<longleftrightarrow> dget (attempts s) k = Some a" for k a
    using table_ok_mem[OF tab] by simp
  have "fst (supersede_loop (scope_of c) sid (le_token l) now rows d) = None"
    if "\<And>k a. (k, a) \<in> set rows \<Longrightarrow> running_for (scope_of c) sid k a \<Longrightarrow> at_token a < le_token l" for rows d
    using that by (induction rows arbitrary: d) force+
  then obtain d where d: "supersede_loop (scope_of c) sid (le_token l) now (attempts s) (attempts s) = (None, d)"
    using older mem by (metis prod.collapse)
  have rows: "dget d k = map_option (\<lambda>a. if running_for (scope_of c) sid k a then lost now a else a)
      (dget (attempts s) k)" for k
    using supersede_loop_done[OF d _ mem[THEN iffD1], of k] tab mem
    by (cases "dget (attempts s) k") (auto simp: table_ok_def)
  have "require_lease ?k ow (le_token l) now s1 = Inr l"
    using assms(5) by (simp add: require_lease_def s1_def l_def)
  then obtain a where a: "start_attempt ex c sid ow (le_token l) cx uuid now s1
      = (Inr a, s1\<lparr>attempts := dput (mk_key (scope_of c) uuid) a d\<rparr>)"
    using assms(2) run d by (auto simp: start_attempt_def Let_def s1_def not_executable_def)
  define s2 where "s2 = s1\<lparr>attempts := dput (mk_key (scope_of c) uuid) a d\<rparr>"
  have att: "dget (attempts s2) k = (if k = mk_key (scope_of c) uuid then Some a else dget d k)" for k
    by (simp add: s2_def)
  have idle: "\<not> running_for (scope_of c) sid k b" if "dget d k = Some b" for k b
    using that rows[of k] by (cases "dget (attempts s) k") (auto split: if_splits)
  have one: "\<forall>k b. dget (attempts s2) k = Some b \<longrightarrow> running_for (scope_of c) sid k b \<longrightarrow>
      k = mk_key (scope_of c) uuid \<and> b = a"
    using idle by (auto simp: att)
  have gone: "\<forall>k b. dget (attempts s) k = Some b \<longrightarrow> running_for (scope_of c) sid k b \<longrightarrow>
      dget (attempts s2) k = Some (lost now b)"
    using rows assms(6) by (auto simp: att)
  have started: "start_attempt ex c sid ow (le_token l) cx uuid now s1 = (Inr a, s2)"
    using a by (simp add: s2_def)
  show ?thesis
    using acquired newer started one gone by blast
qed

text \<open>The running submission of the sample deployment, its host silent since its lease ran out.\<close>

lemma takeover_witness:
  "\<exists>l s1. acquire_lease alice ''s1'' ''host2'' 30 40000000 running_store = (Inr l, s1) \<and> 1 < le_token l"
proof -
  let ?k = "mk_key (scope_of alice) ''s1''"
  have "(case (dget (submissions running_store) ?k, dget (leases running_store) ?k,
      dget (attempts running_store) (mk_key (scope_of alice) ''a2'')) of
        (Some su, Some l, None) \<Rightarrow> su_status su = Dispatched \<and> le_token l = 1
          \<and> \<not> lease_live (dget (leases running_store) ?k) 40000000
      | _ \<Rightarrow> False)"
    unfolding running_store_def by code_simp
  then obtain su l where r: "dget (submissions running_store) ?k = Some su" "su_status su = Dispatched"
    "dget (leases running_store) ?k = Some l" "le_token l = 1"
    "\<not> lease_live (dget (leases running_store) ?k) 40000000"
    "dget (attempts running_store) (mk_key (scope_of alice) ''a2'') = None"
    by (auto split: option.splits)
  have "su_status su \<in> {Accepted, Dispatched}" using r(2) by simp
  then obtain l' s1 where "acquire_lease alice ''s1'' ''host2'' 30 40000000 running_store = (Inr l', s1)"
    "le_token l < le_token l'"
    using takeover[OF running_store_reachable r(1) _ r(5), of 30 "''a2''" "''host2''" "[]"] r(3,6) by auto
  then show ?thesis using r(4) by auto
qed

subsection \<open>Cancellation\<close>









text \<open>
  A cancellation is finalised, and its outbox row acknowledged, while a dispatcher still holds the
  dispatch: only an \<open>uncertain\<close> dispatch is waited for, not a \<open>leased\<close> one.  When that dispatcher
  then reports that the outcome of its remote create is uncertain, no work list offers the dispatch
  again, and its route cannot be retired.
\<close>

definition orphaned_store :: store where
  "orphaned_store = run_all sample_ex
     [(alice, Work (Accept (sample_request ''k'' sample_route) ''s1'' ''o1'' 0)),
      (alice, Dispatch (Prepare_dispatch ''s1'' 1)),
      (alice, Dispatch (Claim_dispatch ''s1'' ''d1'' 30 2)),
      (alice, Work (Cancel ''s1'' 3)),
      (alice, Work (Reconcile_cancelled 10 True None None 4)),
      (alice, Dispatch (Release_dispatch ''s1'' ''d1'' 1 True False None 5))] (empty_store None)"

text \<open>
  A cancellation reconciled while its dispatch is leased ends the submission; when the
  dispatcher then releases the dispatch as uncertain, the row is in no work list and its
  route still counts it as open.
\<close>

lemma leased_dispatch_orphaned:
  "reachable sample_ex orphaned_store
   \<and> submission_status_of alice ''s1'' orphaned_store = Some Cancelled
   \<and> (case get_dispatch alice ''s1'' orphaned_store of
         Inr d \<Rightarrow> di_status d = D_uncertain \<and> di_remote_run d = None | Inl _ \<Rightarrow> False)
   \<and> pending_dispatches alice sample_route 100 1000000000000 orphaned_store = Inr []
   \<and> \<not> drained (route_workload orphaned_store sample_route)"
  unfolding orphaned_store_def
  by (intro conjI) (rule run_all_reachable, code_simp, code_simp+)

end
