(* ===== verification/Action_Histories.thy ===== *)
theory Action_Histories
  imports Durable_Samples Durable_Frames
begin

text \<open>
  Durable actions over histories: idempotent acceptance, what a claim hands out, fencing of stale
  workers, and completion in time.
\<close>

lemma job_history:
  assumes "store_ok s" "moves ex s s'" "dget (action_jobs s) k = Some j"
  obtains j' where "dget (action_jobs s') k = Some j'" "j' = j \<or> aj_le j j'"
  using evolved_job[OF _ assms(3)] moves_ok[OF assms(2,1)] by blast

subsection \<open>Acceptance\<close>

lemma accepted_action:
  assumes "accept_action_job ex c action idem request (Some dl) uuid now s = (Inr j, s1)"
    and "prior_action ex c action idem s = None"
  shows "j = new_action_job ex c action idem request dl uuid now"
    "dget (action_jobs s1) (mk_key (scope_of c) uuid) = Some j"
    "dget (action_idempotency s1) (action_idem ex c action idem) = Some uuid"
  using assms by (auto simp: accept_action_job_def Let_def split: option.splits)

text \<open>
  Acceptance of an action is idempotent over every later history: repeating the intent that
  created a job finds that job, under the same identifier and fingerprint, and creates no other;
  only a failed or expired provisioning is queued again.
\<close>

lemma action_accept_idempotent:
  assumes "reachable ex s" "fresh_ids (scope_of c) (Act (Accept_action action idem request (Some dl) uuid now)) s"
    and "accept_action_job ex c action idem request (Some dl) uuid now s = (Inr j, s1)"
    and "prior_action ex c action idem s = None" "moves ex s1 s2"
    and "action_guards ex action idem request (Some dl') now' = None"
  shows "\<exists>j2 s3. accept_action_job ex c action idem request (Some dl') uuid' now' s2 = (Inr j2, s3)
    \<and> aj_id j2 = aj_id j \<and> aj_fingerprint j2 = aj_fingerprint j
    \<and> (\<forall>k. dget (action_jobs s3) k = None \<longleftrightarrow> dget (action_jobs s2) k = None)
    \<and> (s3 = s2 \<or> aj_action j \<in> {''connector.provision'', ''connector.provision.cleanup''})"
proof -
  let ?k = "mk_key (scope_of c) uuid"
  note j = accepted_action[OF assms(3,4)]
  have "store_step ex c (Act (Accept_action action idem request (Some dl) uuid now)) s None s1"
    by (rule store_step.step[OF assms(2)]) (simp add: assms(3))
  then have "store_ok s1" using step_ok(1) reachable_ok[OF assms(1)] by blast
  then have e: "store_evolves (\<lambda>_. True) s1 s2" using moves_ok[OF assms(5)] by blast
  obtain j2 where j2: "dget (action_jobs s2) ?k = Some j2" "j2 = j \<or> aj_le j j2"
    using j(2) by (rule evolved_job[OF e])
  have "evolves ((\<lambda>_. True) \<circ> action_scope) only_new never (action_idempotency s1) (action_idempotency s2)"
    using e by (simp add: store_evolves_def)
  then have ik: "dget (action_idempotency s2) (action_idem ex c action idem) = Some uuid"
    using j(3) evolves_old[of _ _ _ "action_idempotency s1" "action_idempotency s2"] by fastforce
  have id: "aj_id j2 = aj_id j" "aj_fingerprint j2 = aj_fingerprint j" "aj_action j2 = aj_action j"
    using j2(2) by (auto simp: aj_le_def aj_identity_def)
  have fp: "aj_fingerprint j = action_fingerprint ex action request" "aj_id j = uuid" "aj_action j = action"
    by (simp_all add: j(1) new_action_job_def)
  show ?thesis
  proof (cases "recoverable j2")
    case True
    let ?j = "j2\<lparr>aj_status := J_queued, aj_phase := ''queued'', aj_deadline_at := dl',
      aj_completed_at := None, aj_error := None\<rparr>"
    have "accept_action_job ex c action idem request (Some dl') uuid' now' s2
        = (Inr ?j, s2\<lparr>action_jobs := dput ?k ?j (action_jobs s2)\<rparr>)"
      using assms(6) ik j2(1) id fp True
      by (simp add: accept_action_job_def prior_action_def Let_def)
    then show ?thesis using id fp j2(1) True by (auto simp: recoverable_def)
  next
    case False
    have "accept_action_job ex c action idem request (Some dl') uuid' now' s2 = (Inr j2, s2)"
      using assms(6) ik j2(1) id fp False
      by (simp add: accept_action_job_def prior_action_def Let_def)
    then show ?thesis using id by auto
  qed
qed

definition intent_job :: action_job where
  "intent_job = new_action_job sample_ex alice ''run.prepare'' ''k'' ''r'' 50 ''j1'' 0"

definition intent_store :: store where
  "intent_store = snd (accept_action_job sample_ex alice ''run.prepare'' ''k'' ''r'' (Some 50) ''j1'' 0
     (empty_store None))"

lemma intent_accepted:
  "accept_action_job sample_ex alice ''run.prepare'' ''k'' ''r'' (Some 50) ''j1'' 0 (empty_store None)
    = (Inr intent_job, intent_store)"
proof -
  have "fst (accept_action_job sample_ex alice ''run.prepare'' ''k'' ''r'' (Some 50) ''j1'' 0 (empty_store None))
      = Inr intent_job" unfolding intent_job_def by code_simp
  then show ?thesis unfolding intent_store_def by (metis prod.collapse)
qed

lemma action_accept_idempotent_witness:
  "\<exists>j2 s3. accept_action_job sample_ex alice ''run.prepare'' ''k'' ''r'' (Some 99) ''j2'' 1 intent_store
    = (Inr j2, s3) \<and> aj_id j2 = aj_id intent_job"
proof -
  have r: "reachable sample_ex (empty_store None)" unfolding reachable_def by (blast intro: moves.stay)
  have f: "fresh_ids (scope_of alice) (Act (Accept_action ''run.prepare'' ''k'' ''r'' (Some 50) ''j1'' 0))
      (empty_store None)" by code_simp
  have p: "prior_action sample_ex alice ''run.prepare'' ''k'' (empty_store None) = None" by code_simp
  have g: "action_guards sample_ex ''run.prepare'' ''k'' ''r'' (Some 99) 1 = None" by code_simp
  obtain j2 s3 where "accept_action_job sample_ex alice ''run.prepare'' ''k'' ''r'' (Some 99) ''j2'' 1
      intent_store = (Inr j2, s3)" "aj_id j2 = aj_id intent_job"
    using action_accept_idempotent[OF r f intent_accepted p moves.stay g, of "''j2''"] by metis
  then show ?thesis by metis
qed

subsection \<open>Claiming\<close>

lemma expire_outcome:
  "expire_job sc now k j = j \<or> aj_status (expire_job sc now k j) \<in> {J_cancelled, J_timed_out}"
  by (simp add: expire_job_def)

lemma claimable_status: "claimable sc now k j \<Longrightarrow> aj_status j \<in> {J_queued, J_running}"
  by (simp add: claimable_def)

lemma claimable_unexpired: "claimable sc now k j \<Longrightarrow> expire_job sc now k j = j"
  unfolding claimable_def expire_job_def by (elim conjE disjE) (simp_all, fastforce+)

lemma claimable_expire: "claimable sc now k (expire_job sc now k j) \<longleftrightarrow> claimable sc now k j"
  using expire_outcome[of sc now k j] claimable_status[of sc now k "expire_job sc now k j"]
    claimable_unexpired[of sc now k j] by auto

lemma sort_key_head:
  assumes "sort_key f xs = x # rest"
  shows "x \<in> set xs" "y \<in> set xs \<Longrightarrow> f x \<le> f y"
proof -
  have s: "set (sort_key f xs) = insert x (set rest)" using assms by simp
  then show "x \<in> set xs" by auto
  have "sorted (map f (x # rest))" using sorted_sort_key[of f xs] assms by simp
  then show "f x \<le> f y" if "y \<in> set xs" using that s by auto
qed

text \<open>
  A claim hands out the first job, in creation order as the receipts record it, among those a
  worker may take: queued or abandoned by their worker, and not past their deadline.  The job comes
  back with the next token and attempt number; nothing is handed out only if there is no such job.
\<close>

lemma claim_takes_first:
  assumes "reachable ex s" "claim_action_job c worker secs now s = (Inr r, s')"
  shows "case r of
      None \<Rightarrow> \<forall>k j. dget (action_jobs s) k = Some j \<longrightarrow> \<not> claimable (scope_of c) now k j
    | Some j' \<Rightarrow> \<exists>k j. dget (action_jobs s) k = Some j \<and> claimable (scope_of c) now k j
        \<and> j' = claim_job worker secs now j \<and> dget (action_jobs s') k = Some j'
        \<and> (\<forall>k2 j2. dget (action_jobs s) k2 = Some j2 \<longrightarrow> claimable (scope_of c) now k2 j2 \<longrightarrow>
             action_order j \<le> action_order j2)"
proof -
  let ?e = "expire_job (scope_of c) now"
  let ?jobs = "dmap ?e (action_jobs s)"
  let ?cs = "filter (\<lambda>(k, j). claimable (scope_of c) now k j) ?jobs"
  have "tables_ok s" using reachable_ok[OF assms(1)] by (simp add: store_ok_def)
  then have D: "distinct (map fst ?jobs)" by (simp add: tables_ok_def table_ok_def)
  have cand: "(k, j) \<in> set ?cs \<longleftrightarrow> dget (action_jobs s) k = Some j \<and> claimable (scope_of c) now k j" for k j
  proof -
    have "(k, j) \<in> set ?cs \<longleftrightarrow> dget ?jobs k = Some j \<and> claimable (scope_of c) now k j"
      unfolding dget_eq_iff_mem[OF D] by auto
    also have "\<dots> \<longleftrightarrow> (\<exists>j0. dget (action_jobs s) k = Some j0 \<and> ?e k j0 = j) \<and> claimable (scope_of c) now k j"
      by simp
    also have "\<dots> \<longleftrightarrow> dget (action_jobs s) k = Some j \<and> claimable (scope_of c) now k j"
      using claimable_expire[of "scope_of c" now k] claimable_unexpired[of "scope_of c" now k] by metis
    finally show ?thesis .
  qed
  have guard: "\<not> (blank worker \<or> secs < 1)"
    using assms(2) by (auto simp: claim_action_job_def)
  show ?thesis
  proof (cases "sort_key (\<lambda>(k, j). action_order j) ?cs")
    case Nil
    then have "?cs = []" by (metis length_sort length_0_conv)
    then have "claimable (scope_of c) now k j \<Longrightarrow> dget (action_jobs s) k \<noteq> Some j" for k j
      using cand[of k j] by (metis empty_iff list.set(1))
    then show ?thesis using assms(2) guard Nil by (auto simp: claim_action_job_def Let_def)
  next
    case (Cons x rest)
    obtain k j where x: "x = (k, j)" by (cases x)
    have "r = Some (claim_job worker secs now j)"
      "s' = s\<lparr>action_jobs := dput k (claim_job worker secs now j) ?jobs\<rparr>"
      using assms(2) guard Cons by (simp_all add: claim_action_job_def Let_def x)
    then show ?thesis
      using sort_key_head[OF Cons[unfolded x]] cand by auto
  qed
qed

lemma intent_store_reachable: "reachable sample_ex intent_store"
proof -
  have "store_step sample_ex alice (Act (Accept_action ''run.prepare'' ''k'' ''r'' (Some 50) ''j1'' 0))
      (empty_store None) None intent_store"
  proof (rule store_step.step)
    show "fresh_ids (scope_of alice) (Act (Accept_action ''run.prepare'' ''k'' ''r'' (Some 50) ''j1'' 0))
      (empty_store None)" by code_simp
  qed (simp add: intent_accepted)
  moreover have "reachable sample_ex (empty_store None)"
    unfolding reachable_def by (blast intro: moves.stay)
  ultimately show ?thesis using reachable_step by blast
qed

lemma claimed_job: "(case fst r of Inr (Some j) \<Rightarrow> P j | _ \<Rightarrow> False) \<Longrightarrow> \<exists>j. r = (Inr (Some j), snd r) \<and> P j"
  by (cases r) (auto split: sum.splits option.splits)

lemma claim_takes_first_witness:
  "\<exists>k j. dget (action_jobs intent_store) k = Some j \<and> claimable (scope_of alice) 5 k j"
proof -
  have "\<exists>j. claim_action_job alice ''w'' 30 5 intent_store
      = (Inr (Some j), snd (claim_action_job alice ''w'' 30 5 intent_store)) \<and> aj_token j = 1"
    by (rule claimed_job) (unfold intent_store_def, code_simp)
  then obtain j where j: "claim_action_job alice ''w'' 30 5 intent_store
      = (Inr (Some j), snd (claim_action_job alice ''w'' 30 5 intent_store))" by blast
  show ?thesis using claim_takes_first[OF intent_store_reachable j] by auto
qed

text \<open>
  The creation order of the receipts is the order of ISO strings, which is not the order of time
  within one second: a job created on the full second comes after one created a microsecond later.
\<close>

definition two_jobs :: store where
  "two_jobs = run_all sample_ex
     [(alice, Act (Accept_action ''run.prepare'' ''first'' ''r'' (Some 99000000) ''j1'' 5000000)),
      (alice, Act (Accept_action ''run.prepare'' ''second'' ''r'' (Some 99000000) ''j2'' 5000001))]
     (empty_store None)"

lemma claim_order_is_textual:
  "reachable sample_ex two_jobs"
  "(case dget (action_jobs two_jobs) (mk_key (scope_of alice) ''j1'') of
      Some j \<Rightarrow> aj_created_at j = 5000000 \<and> aj_status j = J_queued | None \<Rightarrow> False)"
  "(case fst (claim_action_job alice ''w'' 30 6000000 two_jobs) of
      Inr (Some j) \<Rightarrow> aj_id j = ''j2'' \<and> aj_created_at j = 5000001 | _ \<Rightarrow> False)"
  unfolding two_jobs_def by (rule run_all_reachable, code_simp, code_simp+)

subsection \<open>Stale workers\<close>

lemma job_refused:
  assumes "dget (action_jobs s) (mk_key (scope_of c) aid) = Some j" "aj_token j \<noteq> t"
  shows "snd (heartbeat_action_job c aid w t secs now s) = s"
    "snd (mark_action_job_accepting c aid w t now s) = s"
    "snd (finish_action_job ex c aid w t st result code ttl now s) = s"
  using assms
  by (simp_all add: heartbeat_action_job_def mark_action_job_accepting_def finish_action_job_def
      job_lease_lost_def Let_def)

lemma claimed_action:
  assumes "reachable ex s" "claim_action_job c w secs now s = (Inr (Some j), s')"
  shows "dget (action_jobs s') (mk_key (scope_of c) (aj_id j)) = Some j"
    "\<exists>j0. dget (action_jobs s) (mk_key (scope_of c) (aj_id j)) = Some j0 \<and> aj_token j = aj_token j0 + 1
       \<and> aj_worker j = Some w"
proof -
  obtain k j0 where k: "dget (action_jobs s) k = Some j0" "claimable (scope_of c) now k j0"
    "j = claim_job w secs now j0" "dget (action_jobs s') k = Some j"
    using claim_takes_first[OF assms] by auto
  have t: "tables_ok s" using reachable_ok[OF assms(1)] by (simp add: store_ok_def)
  have "key_scope k = scope_of c" "key_id k = aj_id j"
    using tables_okD(4)[OF t k(1)] k(2,3) by (simp_all add: claimable_def claim_job_def)
  then have "k = mk_key (scope_of c) (aj_id j)" by (metis mk_key_collapse)
  then show "dget (action_jobs s') (mk_key (scope_of c) (aj_id j)) = Some j"
    "\<exists>j0. dget (action_jobs s) (mk_key (scope_of c) (aj_id j)) = Some j0 \<and> aj_token j = aj_token j0 + 1
       \<and> aj_worker j = Some w"
    using k by (auto simp: claim_job_def)
qed

text \<open>
  A worker whose claim on an action has been superseded is fenced off: after a later claim of
  the same action by anyone, its heartbeats, its announcement of acceptance and its completion with
  the old token change nothing, in every later store.
\<close>

lemma action_fencing:
  assumes "reachable ex s" "claim_action_job c w secs now s = (Inr (Some j), s1)" "moves ex s1 s2"
    and "claim_action_job c w' secs' now' s2 = (Inr (Some j'), s3)" "aj_id j' = aj_id j" "moves ex s3 s4"
  shows "aj_token j < aj_token j'
    \<and> snd (heartbeat_action_job c (aj_id j) w (aj_token j) n t s4) = s4
    \<and> snd (mark_action_job_accepting c (aj_id j) w (aj_token j) t s4) = s4
    \<and> snd (finish_action_job ex c (aj_id j) w (aj_token j) st result code ttl t s4) = s4"
proof -
  let ?k = "mk_key (scope_of c) (aj_id j)"
  have step: "store_step ex c (Act (Claim_action w0 n0 t0)) u None u'"
    if "claim_action_job c w0 n0 t0 u = (Inr x, u')" for w0 n0 t0 u u' x
    using that by (intro store_step.step) (simp_all add: fresh_ids_def)
  have r2: "reachable ex s2"
    using reachable_moves[OF reachable_step[OF assms(1) step[OF assms(2)]] assms(3)] .
  have ok1: "store_ok s1" and ok3: "store_ok s3"
    using reachable_ok reachable_step[OF assms(1) step[OF assms(2)]] reachable_step[OF r2 step[OF assms(4)]]
    by blast+
  obtain j2 where j2: "dget (action_jobs s2) ?k = Some j2" "j2 = j \<or> aj_le j j2"
    using job_history[OF ok1 assms(3) claimed_action(1)[OF assms(1,2)]] by blast
  have j': "dget (action_jobs s3) ?k = Some j'" "aj_token j' = aj_token j2 + 1"
    using claimed_action[OF r2 assms(4)] j2(1) assms(5) by auto
  have less: "aj_token j < aj_token j'"
    using j2(2) j'(2) by (auto simp: aj_le_def fence_le_def)
  obtain j4 where j4: "dget (action_jobs s4) ?k = Some j4" "j4 = j' \<or> aj_le j' j4"
    using job_history[OF ok3 assms(6) j'(1)] by blast
  then have "aj_token j4 \<noteq> aj_token j" using less by (auto simp: aj_le_def fence_le_def)
  then show ?thesis using less job_refused[OF j4(1)] by blast
qed

definition first_claim :: store where
  "first_claim = snd (claim_action_job alice ''w1'' 1 6000000 two_jobs)"

definition second_claim :: store where
  "second_claim = snd (claim_action_job alice ''w2'' 30 8000000 first_claim)"

lemma action_fencing_witness:
  "snd (finish_action_job sample_ex alice ''j2'' ''w1'' 1 J_failed None None None 9000000 second_claim)
    = second_claim"
proof -
  have "\<exists>j. claim_action_job alice ''w1'' 1 6000000 two_jobs
      = (Inr (Some j), snd (claim_action_job alice ''w1'' 1 6000000 two_jobs)) \<and> aj_id j = ''j2'' \<and> aj_token j = 1"
    by (rule claimed_job) (unfold two_jobs_def, code_simp)
  then obtain j where j: "claim_action_job alice ''w1'' 1 6000000 two_jobs = (Inr (Some j), first_claim)"
    "aj_id j = ''j2''" "aj_token j = 1" unfolding first_claim_def by blast
  have "\<exists>j. claim_action_job alice ''w2'' 30 8000000 first_claim
      = (Inr (Some j), snd (claim_action_job alice ''w2'' 30 8000000 first_claim)) \<and> aj_id j = ''j2''"
    by (rule claimed_job) (unfold first_claim_def two_jobs_def, code_simp)
  then obtain j' where j': "claim_action_job alice ''w2'' 30 8000000 first_claim = (Inr (Some j'), second_claim)"
    "aj_id j' = ''j2''" unfolding second_claim_def by blast
  have id: "aj_id j' = aj_id j" using j(2) j'(2) by simp
  show ?thesis
    using action_fencing[OF claim_order_is_textual(1) j(1) moves.stay j'(1) id moves.stay, of 1 9000000
        J_failed None None None] unfolding j(2,3) by blast
qed

subsection \<open>Completion\<close>

text \<open>
  A job succeeds only in time and only in the hands of its worker: when completion stores a
  success, the job was running under exactly that worker and token with a lease that had not run
  out, and its deadline had not passed.
\<close>

lemma success_in_time:
  assumes "finish_action_job ex c aid w t st result code ttl now s = (Inr j', s')"
    and "aj_status j' = J_succeeded"
  shows "st = J_succeeded \<and> now < aj_deadline_at j'
    \<and> (\<exists>j. dget (action_jobs s) (mk_key (scope_of c) aid) = Some j \<and> job_admits j w t now
         \<and> aj_status j = J_running \<and> aj_result j' = Some (ex_redact_result ex result))"
proof -
  let ?k = "mk_key (scope_of c) aid"
  obtain j where j: "dget (action_jobs s) ?k = Some j"
    using assms(1) by (cases "dget (action_jobs s) ?k") (auto simp: finish_action_job_def split: if_splits)
  define ej where "ej = (if retains_effect j st result ttl then Some (ex_redact_result ex result) else None)"
  have "\<not> (aj_status j \<in> {J_timed_out, J_cancelled} \<and> aj_token j = t \<and> aj_started_at j \<noteq> None
      \<and> retains_effect j st result ttl)"
    using assms j by (auto simp: finish_action_job_def Let_def split: if_splits)
  then have run: "aj_status j \<in> {J_running, J_cancel_requested}" "\<not> job_lease_lost w t now j"
    "finished_job ex st result code ttl ej now j = Inr j'"
    using assms(1) j
    by (auto simp: finish_action_job_def Let_def ej_def split: if_splits sum.splits)
  have "st = J_succeeded \<and> aj_status j = J_running \<and> now < aj_deadline_at j
      \<and> aj_deadline_at j' = aj_deadline_at j \<and> aj_result j' = Some (ex_redact_result ex result)"
    using run(1,3) assms(2)
    by (auto simp: finished_job_def close_job_def split: if_splits option.splits)
  then show ?thesis using j run by (auto simp: job_admits_def)
qed

lemma success_in_time_witness:
  "(6500000 :: int) < 99000000 \<and>
   (\<exists>j. dget (action_jobs first_claim) (mk_key (scope_of alice) ''j2'') = Some j \<and> job_admits j ''w1'' 1 6500000)"
proof -
  let ?r = "finish_action_job sample_ex alice ''j2'' ''w1'' 1 J_succeeded (Some ''ok'') None None 6500000 first_claim"
  have "(case fst ?r of Inr j \<Rightarrow> aj_status j = J_succeeded | Inl _ \<Rightarrow> False)"
    unfolding first_claim_def two_jobs_def by code_simp
  then obtain j where "fst ?r = Inr j" "aj_status j = J_succeeded" by (auto split: sum.splits)
  then have "?r = (Inr j, snd ?r)" "aj_status j = J_succeeded" by (metis prod.collapse)+
  from success_in_time[OF this] show ?thesis by auto
qed

end
