(* ===== verification/Canonical_Json.thy ===== *)
theory Canonical_Json
  imports Etl_Prelude
begin

text \<open>
  The canonical JSON of the planner (\<open>planning/adaptive_budget.py\<close>): the streamed byte form whose
  length the budget charges and whose digest identifies targets, the exact size of the public
  writer's text, the redaction of absolute paths, and the reference writer \<open>json.dumps\<close> they are
  compared with.  Values hold no floating point numbers and the keys of an object are strings, as
  in every payload the planner sizes.
\<close>

subsection \<open>Values\<close>

datatype json =
    JNull
  | JBool bool
  | JInt int
  | JStr string
  | JList "json list"
  | JMap "(string \<times> json) list"

subsection \<open>Scalars\<close>

definition digit_char :: "int \<Rightarrow> char" where
  "digit_char n = char_of (48 + n)"

function digits :: "int \<Rightarrow> string" where
  "digits n = (if n < 10 then [digit_char n] else digits (n div 10) @ [digit_char (n mod 10)])"
  by auto
termination by (relation "measure nat") auto

declare digits.simps [simp del]

definition int_text :: "int \<Rightarrow> string" where
  "int_text n = (if n < 0 then CHR ''-'' # digits (- n) else digits n)"

definition hex_char :: "int \<Rightarrow> char" where
  "hex_char n = (if n < 10 then char_of (48 + n) else char_of (87 + n))"

text \<open>
  The escapes of \<open>json.dumps\<close>: the two-character ones, \<open>\u00xx\<close> for the other control characters,
  and, for the writer that keeps to ASCII, for every character above the tilde.
\<close>

definition unicode_escape :: "char \<Rightarrow> string" where
  "unicode_escape c = (let n = of_char c :: int in
     [char_of (92 :: int), CHR ''u'', CHR ''0'', CHR ''0'', hex_char (n div 16), hex_char (n mod 16)])"

definition escape_char :: "bool \<Rightarrow> char \<Rightarrow> string" where
  "escape_char ascii c = (let n = of_char c :: int; b = char_of (92 :: int) in
     if n = 34 \<or> n = 92 then [b, c]
     else if n = 8 then [b, CHR ''b'']
     else if n = 9 then [b, CHR ''t'']
     else if n = 10 then [b, CHR ''n'']
     else if n = 12 then [b, CHR ''f'']
     else if n = 13 then [b, CHR ''r'']
     else if n < 32 \<or> (ascii \<and> 126 < n) then unicode_escape c
     else [c])"

definition escape :: "bool \<Rightarrow> string \<Rightarrow> string" where
  "escape ascii s = concat (map (escape_char ascii) s)"

definition quote_char :: char where
  "quote_char = char_of (34 :: int)"

definition utf8_char :: "char \<Rightarrow> string" where
  "utf8_char c = (let n = of_char c :: int in
     if n < 128 then [c] else [char_of (192 + n div 64), char_of (128 + n mod 64)])"

definition utf8 :: "string \<Rightarrow> string" where
  "utf8 s = concat (map utf8_char s)"

fun scalar_text :: "json \<Rightarrow> string" where
  "scalar_text JNull = ''null''"
| "scalar_text (JBool b) = (if b then ''true'' else ''false'')"
| "scalar_text (JInt n) = int_text n"
| "scalar_text _ = []"

subsection \<open>The reference writer\<close>

fun joined :: "string \<Rightarrow> string list \<Rightarrow> string" where
  "joined sep [] = []"
| "joined sep [x] = x"
| "joined sep (x # y # xs) = x @ sep @ joined sep (y # xs)"

definition string_text :: "bool \<Rightarrow> string \<Rightarrow> string" where
  "string_text ascii s = quote_char # escape ascii s @ [quote_char]"

text \<open>The line break and indentation before an item, and the brackets around the items.\<close>

definition new_line :: "int option \<Rightarrow> int \<Rightarrow> string" where
  "new_line indent depth = (case indent of
     None \<Rightarrow> []
   | Some w \<Rightarrow> CHR 0x0A # replicate (nat (max 0 w * depth)) CHR '' '')"

definition bracketed :: "string \<Rightarrow> string \<Rightarrow> int option \<Rightarrow> int \<Rightarrow> string list \<Rightarrow> string" where
  "bracketed l r indent depth items = (if items = [] then l @ r
     else l @ new_line indent (depth + 1)
          @ joined ('','' @ new_line indent (depth + 1)) items @ new_line indent depth @ r)"

definition colon :: "int option \<Rightarrow> string" where
  "colon indent = (if indent = None then '':'' else '': '')"

text \<open>\<open>json.dumps\<close> with \<open>sort_keys\<close>; without an indent the separators are the compact ones.\<close>

fun dumps :: "bool \<Rightarrow> int option \<Rightarrow> int \<Rightarrow> json \<Rightarrow> string" where
  "dumps ascii indent depth (JStr s) = string_text ascii s"
| "dumps ascii indent depth (JList vs) =
     bracketed ''['' '']'' indent depth (map (dumps ascii indent (depth + 1)) vs)"
| "dumps ascii indent depth (JMap m) =
     bracketed ''{'' ''}'' indent depth
       (map (\<lambda>(k, t). string_text ascii k @ colon indent @ t)
          (sort_key fst (map (\<lambda>(k, v). (k, dumps ascii indent (depth + 1) v)) m)))"
| "dumps ascii indent depth v = scalar_text v"

subsection \<open>Streaming the canonical bytes\<close>

function pieces :: "string \<Rightarrow> string list" where
  "pieces s = (if s = [] then [] else take 4096 s # pieces (drop 4096 s))"
  by auto
termination by (relation "measure length") auto

declare pieces.simps [simp del]

text \<open>The evaluation of a short string does not count in unary.\<close>

lemma pieces_code [code]:
  "pieces s = (if s = [] then [] else if int (length s) \<le> 4096 then [s]
     else take 4096 s # pieces (drop 4096 s))"
  by (subst pieces.simps) (simp add: pieces.simps[of "[]"])

definition string_chunks :: "string \<Rightarrow> string list" where
  "string_chunks s =
     [[quote_char]] @ map (\<lambda>p. utf8 (escape False p)) (pieces s) @ [[quote_char]]"

fun comma_chunks :: "string list list \<Rightarrow> string list" where
  "comma_chunks [] = []"
| "comma_chunks [x] = x"
| "comma_chunks (x # y # xs) = x @ [('','')] @ comma_chunks (y # xs)"

fun canonical_chunks :: "json \<Rightarrow> string list" where
  "canonical_chunks (JStr s) = string_chunks s"
| "canonical_chunks (JMap m) =
     [''{''] @ comma_chunks (map (\<lambda>(k, c). string_chunks k @ ['':''] @ c)
        (sort_key fst (map (\<lambda>(k, v). (k, canonical_chunks v)) m))) @ [''}'']"
| "canonical_chunks (JList vs) = [''[''] @ comma_chunks (map canonical_chunks vs) @ ['']'']"
| "canonical_chunks v = [utf8 (scalar_text v)]"

definition canonical_size :: "json \<Rightarrow> int" where
  "canonical_size v = sum_list (map (\<lambda>c. int (length c)) (canonical_chunks v))"

fun materialize_wire :: "json \<Rightarrow> json" where
  "materialize_wire (JMap m) = JMap (sort_key fst (map (\<lambda>(k, v). (k, materialize_wire v)) m))"
| "materialize_wire (JList vs) = JList (map materialize_wire vs)"
| "materialize_wire v = v"

subsection \<open>The size of the public writer's text\<close>

definition string_size :: "string \<Rightarrow> int" where
  "string_size s = 2 + sum_list (map (\<lambda>p. int (length (escape True p))) (pieces s))"

definition container_size :: "int \<Rightarrow> int option \<Rightarrow> int \<Rightarrow> int" where
  "container_size n indent depth = 2 + max 0 (n - 1) + (case indent of
     None \<Rightarrow> 0 | Some w \<Rightarrow> n + 1 + max 0 w * ((depth + 1) * n + depth))"

fun serialized_size :: "int option \<Rightarrow> int \<Rightarrow> json \<Rightarrow> int" where
  "serialized_size indent depth (JStr s) = string_size s"
| "serialized_size indent depth (JList vs) = (if vs = [] then 2 else
     container_size (int (length vs)) indent depth
       + sum_list (map (serialized_size indent (depth + 1)) vs))"
| "serialized_size indent depth (JMap m) = (if m = [] then 2 else
     container_size (int (length m)) indent depth
       + sum_list (map (\<lambda>(k, v). string_size k + (if indent = None then 1 else 2)
           + serialized_size indent (depth + 1) v) m))"
| "serialized_size indent depth v = int (length (scalar_text v))"

subsection \<open>Redaction of absolute paths\<close>

definition backslash :: char where
  "backslash = char_of (92 :: int)"

definition is_separator :: "char \<Rightarrow> bool" where
  "is_separator c \<longleftrightarrow> c = CHR ''/'' \<or> c = backslash"

definition absolute_path :: "string \<Rightarrow> bool" where
  "absolute_path s \<longleftrightarrow> (s \<noteq> [] \<and> is_separator (s ! 0))
     \<or> (2 < length s \<and> s ! 1 = CHR '':'' \<and> is_separator (s ! 2))"

text \<open>\<open>replace\<close>, \<open>rstrip("/")\<close> and the last component of \<open>rsplit("/", 1)\<close>.\<close>

definition path_leaf :: "string \<Rightarrow> string" where
  "path_leaf s = (let normalized = map (\<lambda>c. if c = backslash then CHR ''/'' else c) s in
     rev (takeWhile (\<lambda>c. c \<noteq> CHR ''/'') (dropWhile (\<lambda>c. c = CHR ''/'') (rev normalized))))"

definition redact_text :: "string \<Rightarrow> string" where
  "redact_text s = (if absolute_path s
     then ''path:'' @ (if path_leaf s = [] then ''root'' else path_leaf s) else s)"

fun redacted_view :: "json \<Rightarrow> json" where
  "redacted_view (JStr s) = JStr (redact_text s)"
| "redacted_view (JMap m) = JMap (map (\<lambda>(k, v). (k, redacted_view v)) m)"
| "redacted_view (JList vs) = JList (map redacted_view vs)"
| "redacted_view v = v"

text \<open>The strings a value holds, outside the keys of its objects.\<close>

fun texts :: "json \<Rightarrow> string list" where
  "texts (JStr s) = [s]"
| "texts (JMap m) = concat (map (\<lambda>(k, v). texts v) m)"
| "texts (JList vs) = concat (map texts vs)"
| "texts v = []"

subsection \<open>Facts on pieces and separators\<close>

lemma concat_pieces [simp]: "concat (pieces s) = s"
proof (induction s rule: pieces.induct)
  case (1 s)
  then show ?case by (subst pieces.simps) simp
qed

lemma escape_append [simp]: "escape a (s @ t) = escape a s @ escape a t"
  by (simp add: escape_def)

lemma utf8_append [simp]: "utf8 (s @ t) = utf8 s @ utf8 t"
  by (simp add: utf8_def)

lemma utf8_Nil [simp]: "utf8 [] = []"
  by (simp add: utf8_def)

lemma utf8_Cons [simp]: "utf8 (c # s) = utf8_char c @ utf8 s"
  by (simp add: utf8_def)

lemma escape_concat: "escape a (concat ss) = concat (map (escape a) ss)"
  by (induction ss) (simp_all add: escape_def)

lemma utf8_concat: "utf8 (concat ss) = concat (map utf8 ss)"
  by (induction ss) simp_all

lemma concat_map_utf8_escape: "concat (map (\<lambda>p. utf8 (escape a p)) (pieces s)) = utf8 (escape a s)"
proof -
  have "utf8 (escape a s) = utf8 (escape a (concat (pieces s)))" by simp
  also have "\<dots> = concat (map (\<lambda>p. utf8 (escape a p)) (pieces s))"
    by (simp only: escape_concat utf8_concat map_map comp_def)
  finally show ?thesis by simp
qed

lemma length_escape_pieces:
  "sum_list (map (\<lambda>p. int (length (escape a p))) (pieces s)) = int (length (escape a s))"
proof -
  have "sum_list (map (\<lambda>p. int (length (escape a p))) ps) = int (length (escape a (concat ps)))" for ps
    by (induction ps) (simp_all add: escape_def)
  from this[of "pieces s"] show ?thesis by simp
qed

lemma concat_string_chunks: "concat (string_chunks s) = utf8 (string_text False s)"
proof -
  have "utf8_char quote_char = [quote_char]" by code_simp
  then show ?thesis
    by (simp add: string_chunks_def string_text_def concat_map_utf8_escape)
qed

lemma string_size_eq: "string_size s = int (length (string_text True s))"
  by (simp add: string_size_def string_text_def length_escape_pieces)

lemma concat_comma_chunks: "concat (comma_chunks xs) = joined '','' (map concat xs)"
  by (induction xs rule: comma_chunks.induct) simp_all

lemma utf8_joined: "utf8 (joined sep xs) = joined (utf8 sep) (map utf8 xs)"
  by (induction sep xs rule: joined.induct) simp_all

lemma length_joined:
  "int (length (joined sep xs))
   = sum_list (map (\<lambda>x. int (length x)) xs) + int (length sep) * max 0 (int (length xs) - 1)"
  by (induction sep xs rule: joined.induct) (simp_all add: algebra_simps)

lemma insort_key_map: "insort_key f (g x) (map g xs) = map g (insort_key (\<lambda>y. f (g y)) x xs)"
  by (induction xs) auto

lemma sort_key_map: "sort_key f (map g xs) = map g (sort_key (\<lambda>y. f (g y)) xs)"
  by (induction xs) (simp_all add: insort_key_map)

lemma sort_values:
  "sort_key fst (map (\<lambda>(k, v). (k, f v)) m) = map (\<lambda>(k, v). (k, f v)) (sort_key fst m)"
  by (simp add: sort_key_map case_prod_unfold)

lemma sum_list_insort: "sum_list (map f (insort_key k x xs)) = f x + sum_list (map f xs)"
  for f :: "'a \<Rightarrow> int"
  by (induction xs) auto

lemma sum_list_sort: "sum_list (map f (sort_key k xs)) = sum_list (map f xs)"
  for f :: "'a \<Rightarrow> int"
  by (induction xs) (simp_all add: sum_list_insort)

subsection \<open>The streamed bytes\<close>

lemma utf8_ascii [simp]:
  "utf8_char CHR '','' = '',''" "utf8_char CHR ''['' = ''[''" "utf8_char CHR '']'' = '']''"
  "utf8_char CHR ''{'' = ''{''" "utf8_char CHR ''}'' = ''}''" "utf8_char CHR '':'' = '':''"
  by code_simp+

lemma utf8_bracketed:
  "utf8 (bracketed l r None depth xs) = utf8 l @ joined (utf8 '','') (map utf8 xs) @ utf8 r"
  by (simp add: bracketed_def new_line_def utf8_joined)

lemma concat_canonical_chunks: "concat (canonical_chunks v) = utf8 (dumps False None d v)"
proof (induction v arbitrary: d)
  case (JStr s)
  then show ?case by (simp add: concat_string_chunks)
next
  case (JList vs)
  then show ?case by (simp add: utf8_bracketed concat_comma_chunks comp_def cong: map_cong)
next
  case (JMap m)
  let ?c = "\<lambda>(k, v). concat (string_chunks k @ ['':''] @ canonical_chunks v)"
  let ?d = "\<lambda>(k, v). utf8 (string_text False k @ colon None @ dumps False None (d + 1) v)"
  have "concat (canonical_chunks (JMap m)) = ''{'' @ joined '','' (map ?c (sort_key fst m)) @ ''}''"
    unfolding canonical_chunks.simps sort_values
    by (simp add: concat_comma_chunks comp_def case_prod_unfold)
  also have "map ?c (sort_key fst m) = map ?d (sort_key fst m)"
    using JMap by (intro map_cong) (auto simp: concat_string_chunks colon_def intro: snds.intros)
  also have "''{'' @ joined '','' (map ?d (sort_key fst m)) @ ''}'' = utf8 (dumps False None d (JMap m))"
    unfolding dumps.simps sort_values by (simp add: utf8_bracketed comp_def case_prod_unfold)
  finally show ?case .
qed simp_all

subsection \<open>The exact size\<close>

lemma length_new_line:
  "int (length (new_line indent d)) = (case indent of None \<Rightarrow> 0 | Some w \<Rightarrow> 1 + max 0 (max 0 w * d))"
  by (simp add: new_line_def split: option.splits)

lemma length_bracketed:
  assumes "xs \<noteq> []" "0 \<le> d" "length l = 1" "length r = 1"
  shows "int (length (bracketed l r indent d xs))
       = container_size (int (length xs)) indent d + sum_list (map (\<lambda>x. int (length x)) xs)"
proof -
  have n: "max 0 (int (length xs) - 1) = int (length xs) - 1" using assms(1) by (cases xs) auto
  show ?thesis
  proof (cases indent)
    case None
    then show ?thesis using assms
      by (simp add: bracketed_def length_joined length_new_line container_size_def new_line_def)
  next
    case (Some w)
    define A where "A = max 0 w"
    have A: "0 \<le> A * d" "0 \<le> A * (d + 1)" using assms(2) by (simp_all add: A_def)
    have line: "int (length (new_line indent e)) = 1 + A * e" if "0 \<le> A * e" for e
      using that Some by (simp add: length_new_line flip: A_def)
    have "int (length (bracketed l r indent d xs))
        = 3 + A * (d + 1) + A * d + (1 + sum_list (map (\<lambda>x. int (length x)) xs)
          + (2 + A * (d + 1)) * (int (length xs) - 1))"
      using assms(1,3,4) by (simp add: bracketed_def length_joined line[OF A(1)] line[OF A(2)] n)
    also have "\<dots> = container_size (int (length xs)) indent d + sum_list (map (\<lambda>x. int (length x)) xs)"
      by (simp add: container_size_def Some n A_def[symmetric] algebra_simps)
    finally show ?thesis .
  qed
qed

lemma serialized_size_dumps: "0 \<le> d \<Longrightarrow> serialized_size ind d v = int (length (dumps True ind d v))"
proof (induction v arbitrary: d)
  case (JStr s)
  then show ?case by (simp add: string_size_eq)
next
  case (JList vs)
  have "map (\<lambda>v. int (length (dumps True ind (d + 1) v))) vs = map (serialized_size ind (d + 1)) vs"
    using JList by (intro map_cong) auto
  then show ?case using JList.prems
    by (cases "vs = []") (simp_all add: bracketed_def[of _ _ _ _ "[]"] length_bracketed comp_def cong: map_cong)
next
  case (JMap m)
  let ?item = "\<lambda>(k, v). string_text True k @ colon ind @ dumps True ind (d + 1) v"
  have item: "int (length (?item kv)) = (\<lambda>(k, v). string_size k + (if ind = None then 1 else 2)
      + serialized_size ind (d + 1) v) kv" if "kv \<in> set m" for kv
  proof -
    obtain k v where kv: "kv = (k, v)" by (cases kv)
    have "serialized_size ind (d + 1) v = int (length (dumps True ind (d + 1) v))"
      using that JMap.prems kv by (intro JMap.IH[of kv]) (auto intro: snds.intros)
    then show ?thesis by (simp add: kv string_size_eq colon_def)
  qed
  have eq: "dumps True ind d (JMap m) = bracketed ''{'' ''}'' ind d (map ?item (sort_key fst m))"
    unfolding dumps.simps sort_values by (simp add: comp_def case_prod_unfold)
  show ?case
  proof (cases "m = []")
    case True
    then show ?thesis by (simp add: bracketed_def)
  next
    case False
    then have "sort_key fst m \<noteq> []" by (metis length_0_conv length_sort)
    then have "int (length (dumps True ind d (JMap m))) = container_size (int (length m)) ind d
        + sum_list (map (\<lambda>kv. int (length (?item kv))) (sort_key fst m))"
      unfolding eq using JMap.prems by (subst length_bracketed) (simp_all add: comp_def)
    also have "\<dots> = container_size (int (length m)) ind d + sum_list (map (\<lambda>kv. int (length (?item kv))) m)"
      by (simp only: sum_list_sort)
    also have "\<dots> = serialized_size ind d (JMap m)"
      using False item by (simp cong: map_cong)
    finally show ?thesis by simp
  qed
qed simp_all

subsection \<open>Redaction\<close>

lemma redact_text_relative: "\<not> absolute_path (redact_text s)"
proof (cases "absolute_path s")
  case True
  have "\<not> absolute_path (''path:'' @ t)" for t
    by (simp add: absolute_path_def is_separator_def backslash_def char_of_def)
       (code_simp)?
  then show ?thesis using True by (simp add: redact_text_def)
qed (simp add: redact_text_def)

lemma redact_text_idem: "redact_text (redact_text s) = redact_text s"
  using redact_text_relative[of s] by (simp add: redact_text_def[of "redact_text s"])

subsection \<open>Properties\<close>

text \<open>
  The chunks of \<open>canonical_chunks\<close> are exactly the UTF-8 bytes of the compact \<open>json.dumps\<close> text
  with sorted keys, so that \<open>canonical_size\<close> is the number of those bytes and the digest is the
  digest of that text.
\<close>

theorem canonical_bytes:
  "concat (canonical_chunks v) = utf8 (dumps False None 0 v)
   \<and> canonical_size v = int (length (utf8 (dumps False None 0 v)))"
proof -
  have "sum_list (map (\<lambda>c. int (length c)) cs) = int (length (concat cs))" for cs :: "string list"
    by (induction cs) simp_all
  then have "canonical_size v = int (length (concat (canonical_chunks v)))"
    by (simp add: canonical_size_def)
  then show ?thesis by (simp add: concat_canonical_chunks[of v 0])
qed

text \<open>
  \<open>serialized_size\<close> is the length of the text the public JSON writer produces, for every
  indentation, so the writer's buffer is never larger than what was reserved for it.
\<close>

theorem serialized_exact: "serialized_size indent 0 v = int (length (dumps True indent 0 v))"
  by (simp add: serialized_size_dumps)

end
