(* ===== verification/Civil_Time.thy ===== *)
theory Civil_Time
  imports Canonical_Json
begin

text \<open>
  Dates and the ISO-8601 text of an instant, as \<open>datetime.isoformat\<close> writes it for UTC.  Instants are
  microseconds since 1970-01-01 UTC.
\<close>

text \<open>The proleptic Gregorian calendar of \<open>datetime\<close>: the date of a day number since 1970-01-01.\<close>

definition civil_of_day :: "int \<Rightarrow> int \<times> int \<times> int" where
  "civil_of_day days =
     (let z = days + 719468; era = z div 146097; doe = z mod 146097;
          yoe = (doe - doe div 1460 + doe div 36524 - doe div 146096) div 365;
          doy = doe - (365 * yoe + yoe div 4 - yoe div 100);
          mp = (5 * doy + 2) div 153;
          d = doy - (153 * mp + 2) div 5 + 1;
          m = (if mp < 10 then mp + 3 else mp - 9);
          y = yoe + era * 400 + (if m \<le> 2 then 1 else 0)
      in (y, m, d))"

definition usec_per_day :: int where "usec_per_day = 86400000000"

definition padded :: "nat \<Rightarrow> int \<Rightarrow> string" where
  "padded n x = (let t = int_text x in replicate (n - length t) (CHR ''0'') @ t)"

text \<open>Date and time of day, without a fraction when the microseconds are zero.\<close>

definition iso_stamp :: "instant \<Rightarrow> string" where
  "iso_stamp t =
     (let (y, m, d) = civil_of_day (t div usec_per_day); l = t mod usec_per_day;
          us = l mod 1000000; s = l div 1000000 in
      padded 4 y @ ''-'' @ padded 2 m @ ''-'' @ padded 2 d @ ''T'' @ padded 2 (s div 3600) @ '':''
      @ padded 2 (s div 60 mod 60) @ '':'' @ padded 2 (s mod 60)
      @ (if us = 0 then [] else ''.'' @ padded 6 us))"

text \<open>\<open>isoformat()\<close> of a UTC timestamp, and \<open>_iso\<close> of the schedule store, which writes \<open>Z\<close>.\<close>

definition iso_offset :: "instant \<Rightarrow> string" where
  "iso_offset t = iso_stamp t @ ''+00:00''"

definition iso_text :: "instant \<Rightarrow> string" where
  "iso_text t = iso_stamp t @ ''Z''"

end
