(* ===== verification/Schedule_Clock.thy ===== *)
theory Schedule_Clock
  imports Civil_Time
begin

text \<open>
  Schedule specifications and the evaluation of the next occurrence
  (\<open>control_plane/schedule_clock.py\<close>, \<open>ScheduleSpec\<close> in \<open>control_plane/schedule_models.py\<close>).
  Instants are microseconds since 1970-01-01 UTC.  A time zone is the table of its UTC offsets, which
  is a parameter: \<open>ex_offset zone t\<close> is the offset in force at the instant \<open>t\<close>.  The window
  timestamps of a specification are the instants they denote.
\<close>

subsection \<open>Calendar\<close>

record wall_time =
  wt_minute :: int
  wt_hour :: int
  wt_day :: int
  wt_month :: int
  wt_weekday :: int

text \<open>\<open>probe.astimezone(tz)\<close>: the wall clock of a zone; Monday is weekday 0.\<close>

type_synonym zones = "string \<Rightarrow> instant \<Rightarrow> int"

definition wall_clock :: "zones \<Rightarrow> string \<Rightarrow> instant \<Rightarrow> wall_time" where
  "wall_clock offset zone t =
     (let l = t + offset zone t; day = l div usec_per_day; minutes = (l mod usec_per_day) div usec 60;
          (y, m, d) = civil_of_day day in
      \<lparr>wt_minute = minutes mod 60, wt_hour = minutes div 60, wt_day = d, wt_month = m,
       wt_weekday = (day + 3) mod 7\<rparr>)"

subsection \<open>Text\<close>

definition strip :: "string \<Rightarrow> string" where
  "strip s = rev (dropWhile is_space (rev (dropWhile is_space s)))"

text \<open>\<open>str.split(c)\<close>, \<open>str.split(c, 1)\<close> where \<open>c\<close> occurs, and \<open>str.split()\<close>.\<close>

fun split_at :: "(char \<Rightarrow> bool) \<Rightarrow> string \<Rightarrow> string \<Rightarrow> string list" where
  "split_at p acc [] = [rev acc]"
| "split_at p acc (c # cs) = (if p c then rev acc # split_at p [] cs else split_at p (c # acc) cs)"

definition split_first :: "char \<Rightarrow> string \<Rightarrow> string \<times> string" where
  "split_first c s = (let h = takeWhile (\<lambda>x. x \<noteq> c) s in (h, drop (Suc (length h)) s))"

definition fields_of :: "string \<Rightarrow> string list" where
  "fields_of s = filter (\<lambda>w. w \<noteq> []) (split_at is_space [] s)"

text \<open>\<open>int(text)\<close>: a sign, then decimal digits with single underscores between them.\<close>

definition digit_value :: "char \<Rightarrow> int option" where
  "digit_value c = (let n = of_char c :: int in if 48 \<le> n \<and> n \<le> 57 then Some (n - 48) else None)"

fun digits_value :: "int \<Rightarrow> bool \<Rightarrow> string \<Rightarrow> int option" where
  "digits_value acc after_digit [] = (if after_digit then Some acc else None)"
| "digits_value acc after_digit (c # cs) = (case digit_value c of
     Some d \<Rightarrow> digits_value (10 * acc + d) True cs
   | None \<Rightarrow> if c = CHR ''_'' \<and> after_digit then digits_value acc False cs else None)"

definition parse_int :: "string \<Rightarrow> int option" where
  "parse_int s = (case strip s of
     [] \<Rightarrow> None
   | c # cs \<Rightarrow> if c = CHR ''-'' then map_option uminus (digits_value 0 False cs)
       else if c = CHR ''+'' then digits_value 0 False cs
       else digits_value 0 False (c # cs))"

text \<open>\<open>range(a, b, step)\<close>; a step of zero is an error.\<close>

definition py_range :: "int \<Rightarrow> int \<Rightarrow> int \<Rightarrow> int list option" where
  "py_range a b step = (if step = 0 then None
     else (let n = (if 0 < step then (b - a + step - 1) div step else (a - b - step - 1) div (- step)) in
       Some (map (\<lambda>i. a + int i * step) [0..<nat n])))"

subsection \<open>Cron expressions\<close>

record cron_fields =
  cr_minute :: "int list"
  cr_hour :: "int list"
  cr_day :: "int list"
  cr_month :: "int list"
  cr_weekday :: "int list"

definition bad_int :: cp_error where
  "bad_int = Value_error ''invalid literal for int()''"

definition invalid_cron :: cp_error where
  "invalid_cron = Value_error ''invalid_cron''"

definition in_range :: "int \<Rightarrow> int \<Rightarrow> int \<Rightarrow> int list res" where
  "in_range a b step = (case py_range a b step of
     None \<Rightarrow> Inl (Value_error ''range() arg 3 must not be zero'') | Some vs \<Rightarrow> Inr vs)"

text \<open>The values of one part of a field: \<open>*\<close>, a range or a number, with an optional step.\<close>

definition cron_base :: "int \<Rightarrow> int \<Rightarrow> string \<Rightarrow> int \<Rightarrow> int list res" where
  "cron_base lo hi part step =
     (if part = ''*'' then in_range lo (hi + 1) step
      else if CHR ''-'' \<in> set part then
        (let (a, b) = split_first (CHR ''-'') part in
         case parse_int a of None \<Rightarrow> Inl bad_int
         | Some x \<Rightarrow> (case parse_int b of None \<Rightarrow> Inl bad_int | Some y \<Rightarrow> in_range x (y + 1) step))
      else (case parse_int part of None \<Rightarrow> Inl bad_int | Some x \<Rightarrow> Inr [x]))"

definition cron_part :: "int \<Rightarrow> int \<Rightarrow> string \<Rightarrow> int list res" where
  "cron_part lo hi part =
     (if part = [] then Inr []
      else if CHR ''/'' \<in> set part then
        (let (base, step) = split_first (CHR ''/'') part in
         case parse_int step of None \<Rightarrow> Inl bad_int
         | Some n \<Rightarrow> cron_base lo hi (if base = [] then ''*'' else base) n)
      else cron_base lo hi part 1)"

fun cron_parts :: "int \<Rightarrow> int \<Rightarrow> string list \<Rightarrow> int list res" where
  "cron_parts lo hi [] = Inr []"
| "cron_parts lo hi (p # ps) = (case cron_part lo hi (strip p) of
     Inl e \<Rightarrow> Inl e
   | Inr vs \<Rightarrow> (case cron_parts lo hi ps of Inl e \<Rightarrow> Inl e | Inr ws \<Rightarrow> Inr (vs @ ws)))"

definition parse_cron_field :: "int \<Rightarrow> int \<Rightarrow> string \<Rightarrow> int list res" where
  "parse_cron_field lo hi field = (let t = strip field in
     if t = ''*'' then in_range lo (hi + 1) 1
     else (case cron_parts lo hi (split_at (\<lambda>c. c = CHR '','') [] t) of
        Inl e \<Rightarrow> Inl e
      | Inr vs \<Rightarrow> if vs = [] \<or> list_ex (\<lambda>v. v < lo \<or> hi < v) vs then Inl invalid_cron else Inr vs))"

definition parse_cron :: "string \<Rightarrow> cron_fields res" where
  "parse_cron expr = (case fields_of expr of
     [mi, h, d, mo, wd] \<Rightarrow>
       (case parse_cron_field 0 59 mi of Inl e \<Rightarrow> Inl e | Inr mis \<Rightarrow>
       (case parse_cron_field 0 23 h of Inl e \<Rightarrow> Inl e | Inr hs \<Rightarrow>
       (case parse_cron_field 1 31 d of Inl e \<Rightarrow> Inl e | Inr ds \<Rightarrow>
       (case parse_cron_field 1 12 mo of Inl e \<Rightarrow> Inl e | Inr mos \<Rightarrow>
       (case parse_cron_field 0 6 wd of Inl e \<Rightarrow> Inl e | Inr wds \<Rightarrow>
          Inr \<lparr>cr_minute = mis, cr_hour = hs, cr_day = ds, cr_month = mos, cr_weekday = wds\<rparr>)))))
   | _ \<Rightarrow> Inl invalid_cron)"

definition cron_match :: "cron_fields \<Rightarrow> wall_time \<Rightarrow> bool" where
  "cron_match p w \<longleftrightarrow> wt_minute w \<in> set (cr_minute p) \<and> wt_hour w \<in> set (cr_hour p)
     \<and> wt_day w \<in> set (cr_day p) \<and> wt_month w \<in> set (cr_month p)
     \<and> (wt_weekday w + 1) mod 7 \<in> set (cr_weekday p)"

subsection \<open>Specifications\<close>

datatype schedule_kind = Interval | Cron
datatype misfire_policy = Misfire_skip | Fire_once | Catch_up
datatype overlap_policy = Overlap_skip | Overlap_queue

record schedule_spec =
  sp_kind :: schedule_kind
  sp_timezone :: string
  sp_interval :: "int option"
  sp_cron :: "string option"
  sp_misfire :: misfire_policy
  sp_catch_up_max :: int
  sp_overlap :: overlap_policy
  sp_jitter :: int
  sp_window_start :: "instant option"
  sp_window_end :: "instant option"

definition spec_error :: "(string \<Rightarrow> bool) \<Rightarrow> schedule_spec \<Rightarrow> cp_error option" where
  "spec_error known sp = first_error
     [(blank (sp_timezone sp), Value_error ''schedule timezone must be non-empty''),
      (\<not> known (sp_timezone sp), Value_error ''schedule timezone must be a known IANA zone''),
      (sp_catch_up_max sp < 0, Value_error ''catch_up_max must be >= 0''),
      (sp_jitter sp < 0, Value_error ''jitter_seconds must be >= 0''),
      (sp_kind sp = Interval \<and> (case sp_interval sp of None \<Rightarrow> True | Some n \<Rightarrow> n \<le> 0),
        Value_error ''interval schedules require interval_seconds > 0''),
      (sp_kind sp = Cron \<and> (case sp_cron sp of None \<Rightarrow> True | Some e \<Rightarrow> blank e),
        Value_error ''cron schedules require a 5-field cron expression''),
      (case (sp_window_start sp, sp_window_end sp) of (Some a, Some b) \<Rightarrow> b \<le> a | _ \<Rightarrow> False,
        Value_error ''schedule window_start must precede window_end'')]"

definition in_window :: "schedule_spec \<Rightarrow> instant \<Rightarrow> bool" where
  "in_window sp t \<longleftrightarrow> (case sp_window_start sp of None \<Rightarrow> True | Some a \<Rightarrow> a \<le> t)
     \<and> (case sp_window_end sp of None \<Rightarrow> True | Some b \<Rightarrow> t < b)"

subsection \<open>The next occurrence\<close>

text \<open>
  Where the search starts: nowhere when the window has closed, just before the window when it has not
  opened yet.
\<close>

definition search_start :: "schedule_spec \<Rightarrow> instant \<Rightarrow> instant option" where
  "search_start sp after =
     (if in_window sp (after + usec 1) then Some after
      else if (case sp_window_end sp of None \<Rightarrow> False | Some b \<Rightarrow> b \<le> after) then None
      else (case sp_window_start sp of
              None \<Rightarrow> Some after
            | Some a \<Rightarrow> if after < a then Some (a - usec 1) else Some after))"

definition next_interval :: "schedule_spec \<Rightarrow> instant \<Rightarrow> instant option \<Rightarrow> instant option" where
  "next_interval sp cursor prior =
     (let step = usec (case sp_interval sp of None \<Rightarrow> 0 | Some n \<Rightarrow> n);
          base = (case prior of None \<Rightarrow> cursor | Some l \<Rightarrow> l);
          candidate = (if base + step \<le> cursor then cursor + step else base + step) + usec (sp_jitter sp)
      in if in_window sp candidate then Some candidate else None)"

definition fires_at :: "zones \<Rightarrow> schedule_spec \<Rightarrow> cron_fields \<Rightarrow> instant \<Rightarrow> bool" where
  "fires_at offset sp parsed probe \<longleftrightarrow>
     cron_match parsed (wall_clock offset (sp_timezone sp) probe) \<and> in_window sp (probe + usec (sp_jitter sp))"

text \<open>The walk over the minutes, at most \<open>n\<close> of them.\<close>

function cron_walk :: "zones \<Rightarrow> schedule_spec \<Rightarrow> cron_fields \<Rightarrow> instant \<Rightarrow> int \<Rightarrow> instant option" where
  "cron_walk offset sp parsed probe n =
     (if n \<le> 0 then None
      else if fires_at offset sp parsed probe then Some (probe + usec (sp_jitter sp))
      else cron_walk offset sp parsed (probe + usec 60) (n - 1))"
  by auto
termination by (relation "measure (\<lambda>(offset, sp, parsed, probe, n). nat n)") auto

declare cron_walk.simps [simp del]

definition max_probes :: int where "max_probes = 366 * 24 * 60"

definition first_probe :: "instant \<Rightarrow> instant" where
  "first_probe cursor = cursor - cursor mod usec 60 + usec 60"

definition next_fire_after :: "zones \<Rightarrow> schedule_spec \<Rightarrow> instant \<Rightarrow> instant option \<Rightarrow> instant option res" where
  "next_fire_after offset sp after prior = (case search_start sp after of
     None \<Rightarrow> Inr None
   | Some cursor \<Rightarrow> (case sp_kind sp of
       Interval \<Rightarrow> Inr (next_interval sp cursor prior)
     | Cron \<Rightarrow> (case parse_cron (of_opt (sp_cron sp)) of
         Inl e \<Rightarrow> Inl e
       | Inr parsed \<Rightarrow> (case cron_walk offset sp parsed (first_probe cursor) max_probes of
           None \<Rightarrow> Inl invalid_cron
         | Some t \<Rightarrow> Inr (Some t)))))"

text \<open>The missed occurrences between the last one and now, at most \<open>n\<close> of them.\<close>

fun catch_up_from :: "zones \<Rightarrow> schedule_spec \<Rightarrow> instant \<Rightarrow> nat \<Rightarrow> instant \<Rightarrow> instant list res" where
  "catch_up_from offset sp now 0 cursor = Inr []"
| "catch_up_from offset sp now (Suc n) cursor = (case next_fire_after offset sp cursor (Some cursor) of
     Inl e \<Rightarrow> Inl e
   | Inr None \<Rightarrow> Inr []
   | Inr (Some t) \<Rightarrow> if now < t then Inr []
       else (case catch_up_from offset sp now n t of Inl e \<Rightarrow> Inl e | Inr ts \<Rightarrow> Inr (t # ts)))"

definition catch_up_nominals :: "zones \<Rightarrow> schedule_spec \<Rightarrow> instant \<Rightarrow> instant \<Rightarrow> instant list res" where
  "catch_up_nominals offset sp prior now =
     (if sp_misfire sp \<noteq> Catch_up then
        (case next_fire_after offset sp prior (Some prior) of
           Inl e \<Rightarrow> Inl e
         | Inr None \<Rightarrow> Inr []
         | Inr (Some t) \<Rightarrow> Inr (if t \<le> now then [t] else []))
      else catch_up_from offset sp now (nat (sp_catch_up_max sp)) prior)"

subsection \<open>Correctness of the walk\<close>

lemma cron_walk_found:
  "cron_walk offset sp parsed probe n = Some t \<Longrightarrow>
   \<exists>k. 0 \<le> k \<and> k < n \<and> t = probe + k * usec 60 + usec (sp_jitter sp)
     \<and> fires_at offset sp parsed (probe + k * usec 60)
     \<and> (\<forall>i. 0 \<le> i \<and> i < k \<longrightarrow> \<not> fires_at offset sp parsed (probe + i * usec 60))"
proof (induction offset sp parsed probe n rule: cron_walk.induct)
  case (1 offset sp parsed probe n)
  show ?case
  proof (cases "fires_at offset sp parsed probe")
    case True
    then show ?thesis using "1.prems" by (auto simp: cron_walk.simps[of _ _ _ _ n] split: if_splits intro!: exI[of _ 0])
  next
    case False
    then have n: "\<not> n \<le> 0" "cron_walk offset sp parsed (probe + usec 60) (n - 1) = Some t"
      using "1.prems" by (auto simp: cron_walk.simps[of _ _ _ _ n] split: if_splits)
    obtain k where k: "0 \<le> k" "k < n - 1" "t = probe + usec 60 + k * usec 60 + usec (sp_jitter sp)"
      "fires_at offset sp parsed (probe + usec 60 + k * usec 60)"
      "\<And>i. 0 \<le> i \<Longrightarrow> i < k \<Longrightarrow> \<not> fires_at offset sp parsed (probe + usec 60 + i * usec 60)"
      using "1.IH"[OF n(1) False n(2)] by blast
    have shift: "probe + i * usec 60 = probe + usec 60 + (i - 1) * usec 60" for i by (simp add: algebra_simps)
    have "\<not> fires_at offset sp parsed (probe + i * usec 60)" if "0 \<le> i" "i < k + 1" for i
      using that False k(5)[of "i - 1"] shift[of i] by (cases "i = 0") auto
    then show ?thesis using k(1-4) by (intro exI[of _ "k + 1"]) (auto simp: algebra_simps)
  qed
qed

lemma cron_walk_none:
  "cron_walk offset sp parsed probe n = None \<Longrightarrow> 0 \<le> i \<Longrightarrow> i < n \<Longrightarrow>
   \<not> fires_at offset sp parsed (probe + i * usec 60)"
proof (induction offset sp parsed probe n arbitrary: i rule: cron_walk.induct)
  case (1 offset sp parsed probe n)
  then have n: "\<not> n \<le> 0" "\<not> fires_at offset sp parsed probe"
    "cron_walk offset sp parsed (probe + usec 60) (n - 1) = None"
    by (auto simp: cron_walk.simps[of _ _ _ _ n] split: if_splits)
  have shift: "probe + i * usec 60 = probe + usec 60 + (i - 1) * usec 60" by (simp add: algebra_simps)
  show ?case using n "1.IH"[OF n(1,2,3), of "i - 1"] "1.prems"(2,3) shift by (cases "i = 0") auto
qed


text \<open>The whole minutes after an instant are exactly those the walk visits.\<close>

lemma first_probe_eq: "first_probe cursor = (cursor div usec 60 + 1) * usec 60"
  by (simp add: first_probe_def minus_mod_eq_mult_div algebra_simps)

lemma first_probe_bounds: "cursor < first_probe cursor" "first_probe cursor \<le> cursor + usec 60"
  "first_probe cursor mod usec 60 = 0"
proof -
  have "0 \<le> cursor mod usec 60" "cursor mod usec 60 < usec 60" by simp_all
  then show "cursor < first_probe cursor" "first_probe cursor \<le> cursor + usec 60"
    unfolding first_probe_def by linarith+
  show "first_probe cursor mod usec 60 = 0" by (simp add: first_probe_eq)
qed

lemma whole_minutes:
  assumes "m mod usec 60 = 0" "cursor < m"
  shows "\<exists>k \<ge> 0. m = first_probe cursor + k * usec 60"
proof -
  have m: "m = (m div usec 60) * usec 60" using assms(1) by (metis add_0_right div_mult_mod_eq)
  have "\<not> m div usec 60 \<le> cursor div usec 60"
  proof
    assume "m div usec 60 \<le> cursor div usec 60"
    then have "(m div usec 60) * usec 60 \<le> (cursor div usec 60) * usec 60" by simp
    moreover have "0 \<le> cursor mod usec 60" by simp
    then have "(cursor div usec 60) * usec 60 \<le> cursor" using div_mult_mod_eq[of cursor "usec 60"] by linarith
    ultimately show False using m assms(2) by linarith
  qed
  then show ?thesis using m
    by (intro exI[of _ "m div usec 60 - cursor div usec 60 - 1"]) (simp add: first_probe_eq algebra_simps)
qed

lemma search_start_cases:
  assumes "search_start sp after = Some cursor"
  obtains "cursor = after" | a where "sp_window_start sp = Some a" "after < a" "cursor = a - usec 1"
  using assms by (auto simp: search_start_def split: if_splits option.splits)

lemma search_start_None:
  "search_start sp after = None \<longleftrightarrow> (\<exists>b. sp_window_end sp = Some b \<and> b \<le> after)"
  by (auto simp: search_start_def in_window_def split: option.splits)

lemma search_start_late: "search_start sp after = Some cursor \<Longrightarrow> after - usec 1 \<le> cursor"
  by (erule search_start_cases) auto

lemma after_start:
  assumes "search_start sp after = Some cursor" "cursor < t" "in_window sp t"
  shows "after < t"
  using assms(1) by (cases rule: search_start_cases) (use assms(2,3) in \<open>auto simp: in_window_def\<close>)

subsection \<open>The next occurrence is the first one\<close>

definition opened :: "schedule_spec \<Rightarrow> instant \<Rightarrow> bool" where
  "opened sp m \<longleftrightarrow> (case sp_window_start sp of None \<Rightarrow> True | Some a \<Rightarrow> a \<le> m)"

lemma opened_cursor:
  assumes "search_start sp after = Some cursor" "after < m" "opened sp m"
  shows "cursor < m"
  using assms(1) by (cases rule: search_start_cases) (use assms(2,3) in \<open>auto simp: opened_def\<close>)

definition earlier_minute :: "zones \<Rightarrow> schedule_spec \<Rightarrow> cron_fields \<Rightarrow> instant \<Rightarrow> instant \<Rightarrow> bool" where
  "earlier_minute offset sp parsed after m \<longleftrightarrow>
     m mod usec 60 = 0 \<and> after < m \<and> opened sp m \<and> fires_at offset sp parsed m"

lemma early_minutes:
  assumes "search_start sp after = Some cursor" "earlier_minute offset sp parsed after m"
  shows "\<exists>k \<ge> 0. m = first_probe cursor + k * usec 60"
proof (rule whole_minutes)
  show "m mod usec 60 = 0" using assms(2) unfolding earlier_minute_def by (rule conjunct1)
  show "cursor < m" using opened_cursor[OF assms(1)] assms(2) by (simp add: earlier_minute_def)
qed

text \<open>
  C14: for a cron schedule the next occurrence is the first whole minute after the given instant, once
  the window has opened, whose wall-clock time in the schedule's zone matches the expression and whose
  fire time, shifted by the jitter, lies in the window; there is none exactly when the window has
  closed, and an error means that no minute of the next 366 days but one minute fires.  This holds for every
  misfire policy: the code never reads it here, so a local time that a spring-forward gap skips does not fire
  under \<open>fire_once\<close> or \<open>catch_up\<close> either, although the docstring of \<open>next_fire_after\<close> says that it does, at the
  first valid instant after the gap.
\<close>

theorem next_cron_exact:
  assumes "sp_kind sp = Cron" "parse_cron (of_opt (sp_cron sp)) = Inr parsed" "0 \<le> sp_jitter sp"
  shows "(case next_fire_after offset sp after prior of
      Inr (Some t) \<Rightarrow> after < t \<and> in_window sp t \<and> (t - usec (sp_jitter sp)) mod usec 60 = 0
        \<and> cron_match parsed (wall_clock offset (sp_timezone sp) (t - usec (sp_jitter sp)))
        \<and> (\<forall>m. earlier_minute offset sp parsed after m \<longrightarrow> t \<le> m + usec (sp_jitter sp))
    | Inr None \<Rightarrow> (\<exists>b. sp_window_end sp = Some b \<and> b \<le> after)
    | Inl e \<Rightarrow> (\<forall>m. earlier_minute offset sp parsed after m \<longrightarrow> after + (max_probes - 1) * usec 60 < m))"
proof (cases "search_start sp after")
  case None
  then show ?thesis using search_start_None[of sp after] by (simp add: next_fire_after_def)
next
  case (Some cursor)
  let ?p = "first_probe cursor" and ?j = "usec (sp_jitter sp)"
  show ?thesis
  proof (cases "cron_walk offset sp parsed ?p max_probes")
    case None
    have "after + (max_probes - 1) * usec 60 < m" if early: "earlier_minute offset sp parsed after m" for m
    proof (rule ccontr)
      assume "\<not> after + (max_probes - 1) * usec 60 < m"
      obtain k where k: "0 \<le> k" "m = ?p + k * usec 60"
        using early_minutes[OF Some early] by blast
      then have "k < max_probes"
        using \<open>\<not> _ < m\<close> search_start_late[OF Some] first_probe_bounds(1)[of cursor] by simp
      then show False using cron_walk_none[OF None k(1)] early k(2) by (simp add: earlier_minute_def)
    qed
    then show ?thesis using Some None assms by (simp add: next_fire_after_def)
  next
    case (Some t)
    note start = \<open>search_start sp after = Some cursor\<close>
    obtain k where k: "0 \<le> k" "t = ?p + k * usec 60 + ?j" "fires_at offset sp parsed (?p + k * usec 60)"
      "\<And>i. 0 \<le> i \<Longrightarrow> i < k \<Longrightarrow> \<not> fires_at offset sp parsed (?p + i * usec 60)"
      using cron_walk_found[OF Some] by blast
    have window: "in_window sp t" using k(2,3) by (simp add: fires_at_def)
    have "cursor < t" using first_probe_bounds(1)[of cursor] k(1,2) assms(3) by simp
    then have "after < t" using after_start[OF start _ window] by simp
    moreover have "(t - ?j) mod usec 60 = 0" using k(2) first_probe_bounds(3)[of cursor] by simp
    moreover have "t \<le> m + ?j" if early: "earlier_minute offset sp parsed after m" for m
    proof -
      obtain i where i: "0 \<le> i" "m = ?p + i * usec 60"
        using early_minutes[OF start early] by blast
      then have "k \<le> i" using k(4)[of i] early by (force simp: earlier_minute_def)
      then show ?thesis using k(2) i(2) by simp
    qed
    ultimately show ?thesis using start Some assms window k(2,3) by (simp add: next_fire_after_def fires_at_def)
  qed
qed

subsection \<open>Catching up\<close>

lemma spec_okD:
  assumes "spec_error known sp = None"
  shows "0 \<le> sp_jitter sp" "sp_kind sp = Interval \<Longrightarrow> \<exists>n. sp_interval sp = Some n \<and> 0 < n"
    "0 \<le> sp_catch_up_max sp"
  using assms unfolding spec_error_def first_error_None by (auto split: option.splits)

lemma next_fire_later:
  assumes "spec_error known sp = None" "next_fire_after offset sp after prior = Inr (Some t)"
  shows "after < t \<and> in_window sp t"
proof (cases "sp_kind sp")
  case Cron
  then obtain parsed where "parse_cron (of_opt (sp_cron sp)) = Inr parsed"
    using assms(2) by (auto simp: next_fire_after_def split: option.splits sum.splits)
  then obtain cursor where c: "search_start sp after = Some cursor"
    "cron_walk offset sp parsed (first_probe cursor) max_probes = Some t"
    using assms(2) Cron by (auto simp: next_fire_after_def split: option.splits sum.splits)
  obtain k where k: "0 \<le> k" "t = first_probe cursor + k * usec 60 + usec (sp_jitter sp)"
    "fires_at offset sp parsed (first_probe cursor + k * usec 60)"
    using cron_walk_found[OF c(2)] by blast
  then have "cursor < t" "in_window sp t"
    using first_probe_bounds(1)[of cursor] spec_okD(1)[OF assms(1)] by (simp_all add: fires_at_def)
  then show ?thesis using after_start[OF c(1)] by blast
next
  case Interval
  then obtain n where n: "sp_interval sp = Some n" "0 < n" using spec_okD[OF assms(1)] by blast
  obtain cursor where c: "search_start sp after = Some cursor" "next_interval sp cursor prior = Some t"
    using assms(2) Interval by (auto simp: next_fire_after_def split: option.splits)
  have "cursor < t \<and> in_window sp t"
    using c(2) n spec_okD(1)[OF assms(1)] by (auto simp: next_interval_def Let_def split: if_splits option.splits)
  then show ?thesis using after_start[OF c(1)] by blast
qed


text \<open>Each caught-up occurrence is the next one after its predecessor.\<close>

fun successive :: "zones \<Rightarrow> schedule_spec \<Rightarrow> instant \<Rightarrow> instant list \<Rightarrow> bool" where
  "successive offset sp prior [] = True"
| "successive offset sp prior (t # ts) \<longleftrightarrow>
     next_fire_after offset sp prior (Some prior) = Inr (Some t) \<and> successive offset sp t ts"

definition nothing_due :: "zones \<Rightarrow> schedule_spec \<Rightarrow> instant \<Rightarrow> instant \<Rightarrow> bool" where
  "nothing_due offset sp now prior \<longleftrightarrow> next_fire_after offset sp prior (Some prior) = Inr None
     \<or> (\<exists>t. next_fire_after offset sp prior (Some prior) = Inr (Some t) \<and> now < t)"

lemma catch_up_from_correct:
  assumes "spec_error known sp = None"
  shows "catch_up_from offset sp now n prior = Inr ts \<Longrightarrow>
    sorted_wrt (<) (prior # ts) \<and> (\<forall>t \<in> set ts. in_window sp t \<and> t \<le> now) \<and> successive offset sp prior ts
    \<and> length ts \<le> n \<and> (length ts < n \<longrightarrow> nothing_due offset sp now (last (prior # ts)))"
proof (induction n arbitrary: prior ts)
  case (Suc n)
  show ?case
  proof (cases "next_fire_after offset sp prior (Some prior)")
    case (Inr r)
    show ?thesis
    proof (cases r)
      case None
      then show ?thesis using Suc.prems Inr by (simp add: nothing_due_def)
    next
      case (Some t)
      have later: "prior < t \<and> in_window sp t" using next_fire_later[OF assms] Inr Some by blast
      show ?thesis
      proof (cases "now < t")
        case True
        then show ?thesis using Suc.prems Inr Some by (simp add: nothing_due_def)
      next
        case False
        then obtain us where us: "catch_up_from offset sp now n t = Inr us" "ts = t # us"
          using Suc.prems Inr Some by (auto split: sum.splits)
        then show ?thesis using Suc.IH[OF us(1)] later False Inr Some by auto
      qed
    qed
  qed (use Suc.prems in simp)
qed simp

text \<open>
  C15: the occurrences caught up are strictly increasing, each the next one after its predecessor,
  inside the window and not in the future, at most as many as the policy allows; and fewer only when
  nothing more is due.
\<close>

theorem catch_up_exact:
  assumes "spec_error known sp = None" "catch_up_nominals offset sp prior now = Inr ts"
  defines "most \<equiv> (if sp_misfire sp = Catch_up then nat (sp_catch_up_max sp) else 1)"
  shows "sorted_wrt (<) (prior # ts) \<and> (\<forall>t \<in> set ts. in_window sp t \<and> t \<le> now)
    \<and> successive offset sp prior ts \<and> length ts \<le> most
    \<and> (length ts < most \<longrightarrow> nothing_due offset sp now (last (prior # ts)))"
proof -
  have "catch_up_from offset sp now most prior = Inr ts"
    using assms(2) by (auto simp: catch_up_nominals_def most_def not_less split: if_splits sum.splits option.splits)
  then show ?thesis using catch_up_from_correct[OF assms(1)] by blast
qed

text \<open>
  The misfire policy plays no part in the next occurrence: a local time that a clock change skips is
  dropped under every policy.
\<close>

lemma cron_walk_misfire: "cron_walk offset (sp\<lparr>sp_misfire := m\<rparr>) parsed probe n = cron_walk offset sp parsed probe n"
proof (induction offset sp parsed probe n rule: cron_walk.induct)
  case (1 offset sp parsed probe n)
  then show ?case
    by (simp add: cron_walk.simps[of _ _ _ _ n] fires_at_def in_window_def cong: if_cong)
qed

lemma misfire_irrelevant: "next_fire_after offset (sp\<lparr>sp_misfire := m\<rparr>) after prior = next_fire_after offset sp after prior"
proof -
  have "search_start (sp\<lparr>sp_misfire := m\<rparr>) = search_start sp" "next_interval (sp\<lparr>sp_misfire := m\<rparr>) = next_interval sp"
    by (simp_all add: search_start_def next_interval_def in_window_def fun_eq_iff)
  then show ?thesis
    by (cases "search_start sp after"; cases "sp_kind sp"; cases "parse_cron (of_opt (sp_cron sp))")
      (simp_all add: next_fire_after_def cron_walk_misfire)
qed

text \<open>Jitter accumulates: an interval schedule that is on time fires every interval plus jitter.\<close>

lemma interval_drifts:
  assumes "sp_kind sp = Interval" "sp_interval sp = Some n" "0 < n" "sp_window_start sp = None" "sp_window_end sp = None"
  shows "next_fire_after offset sp t (Some t) = Inr (Some (t + usec n + usec (sp_jitter sp)))"
  using assms by (simp add: next_fire_after_def search_start_def in_window_def next_interval_def Let_def)

subsection \<open>A concrete schedule\<close>

definition sample_spec :: schedule_spec where
  "sample_spec = \<lparr>sp_kind = Cron, sp_timezone = ''UTC'', sp_interval = None, sp_cron = Some ''*/15 * * * 4'',
     sp_misfire = Catch_up, sp_catch_up_max = 3, sp_overlap = Overlap_skip, sp_jitter = 0,
     sp_window_start = None, sp_window_end = None\<rparr>"

definition sample_cron :: cron_fields where
  "sample_cron = \<lparr>cr_minute = [0, 15, 30, 45], cr_hour = map int [0..<24], cr_day = map int [1..<32],
     cr_month = map int [1..<13], cr_weekday = [4]\<rparr>"

definition utc :: zones where "utc zone t = 0"

theorem next_cron_exact_witness:
  "next_fire_after utc sample_spec 0 None = Inr (Some 900000000)
   \<and> \<not> earlier_minute utc sample_spec sample_cron 0 840000000"
proof -
  have parsed: "parse_cron (of_opt (sp_cron sample_spec)) = Inr sample_cron" by code_simp
  have run: "next_fire_after utc sample_spec 0 None = Inr (Some 900000000)" by code_simp
  have shape: "sp_kind sample_spec = Cron" "sp_jitter sample_spec = 0" by (simp_all add: sample_spec_def)
  have "\<forall>m. earlier_minute utc sample_spec sample_cron 0 m \<longrightarrow> 900000000 \<le> m"
    using next_cron_exact[OF shape(1) parsed, of utc 0 None] shape(2) by (simp add: run)
  then have "\<not> earlier_minute utc sample_spec sample_cron 0 840000000" by (auto dest!: spec[of _ "840000000 :: int"] simp del: One_nat_def)
  with run show ?thesis by blast
qed

theorem catch_up_exact_witness:
  "catch_up_nominals utc sample_spec 0 2000000000 = Inr [900000000, 1800000000]
   \<and> nothing_due utc sample_spec 2000000000 1800000000"
proof -
  have run: "catch_up_nominals utc sample_spec 0 2000000000 = Inr [900000000, 1800000000]" by code_simp
  have "spec_error (\<lambda>z. True) sample_spec = None" by code_simp
  from catch_up_exact[OF this run] show ?thesis using run by (simp add: sample_spec_def)
qed

end
