(* ===== verification/Schedule_Store.thy ===== *)
theory Schedule_Store
  imports Schedule_Clock Durable_Submissions Canonical_Json
begin

text \<open>
  The schedule store of the control plane (\<open>control_plane/schedule_memory.py\<close>, records in
  \<open>control_plane/schedule_models.py\<close> and \<open>schedule_protocols.py\<close>): schedules and their revisions, the
  scheduler's leader lease, and the occurrences (firings), from the claim over their preparation to
  the link with a submission of the durable work store.  Timestamps are the instants that the stored
  strings denote; the identifiers that \<open>uuid4\<close> generates and the clock are arguments.  Fencing tokens are natural numbers.
\<close>

subsection \<open>Records\<close>

datatype schedule_status = Sched_active | Sched_paused | Sched_deleted
datatype firing_status =
  F_accepted | F_skipped_overlap | F_skipped_misfire | F_skipped_window | F_failed_preparation
datatype revision_policy = Pinned | Latest_approved
datatype timer_owner = Timer_local | Timer_external

record schedule =
  sd_id :: string
  sd_definition :: string
  sd_revision :: string
  sd_tenant :: string
  sd_workspace :: string
  sd_profile :: string
  sd_policy :: string
  sd_spec :: schedule_spec
  sd_created_at :: instant
  sd_updated_at :: instant
  sd_status :: schedule_status
  sd_next_fire_at :: "instant option"
  sd_definition_revision :: "string option"
  sd_parameter_refs :: "(string, string) pydict"
  sd_secret_refs :: "(string, json) pydict"
  sd_metadata :: "(string, json) pydict"
  sd_revision_policy :: revision_policy
  sd_identity :: "principal option"
  sd_route :: string
  sd_timer_owner :: timer_owner
  sd_generation :: int

record firing =
  fi_id :: string
  fi_schedule :: string
  fi_revision :: string
  fi_nominal :: instant
  fi_tenant :: string
  fi_workspace :: string
  fi_created_at :: instant
  fi_status :: firing_status
  fi_submission :: "string option"
  fi_metadata :: "(string, json) pydict"
  fi_prep_owner :: "string option"
  fi_prep_token :: nat
  fi_prep_expires :: "instant option"
  fi_started :: bool
  fi_attempts :: "string list"

record leader_lease =
  ll_owner :: string
  ll_token :: nat
  ll_expires_at :: instant
  ll_heartbeat_at :: instant
  ll_tenant :: string
  ll_workspace :: string

record schedule_store =
  sk_schedules :: "(key, schedule) pydict"
  sk_firings :: "(key, firing) pydict"
  sk_leaders :: "(scope, leader_lease) pydict"

subsection \<open>Checks of the records\<close>

definition schedule_error :: "schedule \<Rightarrow> cp_error option" where
  "schedule_error sd = first_error
     [(blank (sd_id sd), Value_error ''schedule schedule_id must be non-empty''),
      (blank (sd_definition sd), Value_error ''schedule definition_id must be non-empty''),
      (blank (sd_revision sd), Value_error ''schedule revision_id must be non-empty''),
      (blank (sd_tenant sd), Value_error ''schedule tenant_id must be non-empty''),
      (blank (sd_workspace sd), Value_error ''schedule workspace_id must be non-empty''),
      (blank (sd_profile sd), Value_error ''schedule profile_name must be non-empty''),
      (sd_generation sd < 1, Value_error ''schedule timer_owner_generation must be positive''),
      (\<not> valid_route (sd_route sd), bad_route),
      (case sd_identity sd of None \<Rightarrow> False | Some p \<Rightarrow> pr_kind p = Human,
        Value_error ''schedule workload_identity must be workload or service''),
      (sd_timer_owner sd = Timer_external \<and> sd_identity sd = None,
        Value_error ''externally owned schedule requires a workload identity'')]"

definition firing_error :: "firing \<Rightarrow> cp_error option" where
  "firing_error fi = first_error
     [(blank (fi_id fi), Value_error ''firing firing_id must be non-empty''),
      (blank (fi_schedule fi), Value_error ''firing schedule_id must be non-empty''),
      (blank (fi_revision fi), Value_error ''firing revision_id must be non-empty''),
      (blank (fi_tenant fi), Value_error ''firing tenant_id must be non-empty''),
      (blank (fi_workspace fi), Value_error ''firing workspace_id must be non-empty''),
      (case fi_submission fi of None \<Rightarrow> False | Some i \<Rightarrow> blank i,
        Value_error ''firing submission_id must be non-empty when set''),
      (list_ex blank (fi_attempts fi) \<or> \<not> distinct (fi_attempts fi) \<or> fi_attempts fi \<noteq> [] \<and> \<not> fi_started fi,
        Value_error ''firing submission attempt IDs must be unique non-empty strings with submission_started''),
      ((fi_prep_owner fi = None) \<noteq> (fi_prep_expires fi = None),
        Value_error ''firing preparation lease fields must be paired''),
      (case fi_prep_owner fi of None \<Rightarrow> False | Some w \<Rightarrow> blank w,
        Value_error ''firing preparation owner must be non-empty'')]"

text \<open>Payload and secret tokens in the metadata of an occurrence.\<close>

definition forbidden_keys :: "string list" where
  "forbidden_keys = [''payload'', ''secret'', ''password'', ''token'', ''row'', ''event'', ''body'']"

definition leaking_text :: "json \<Rightarrow> bool" where
  "leaking_text v = (case v of
     JStr s \<Rightarrow> contains ''payload'' (map lower_char s) \<or> contains ''secret'' (map lower_char s)
   | _ \<Rightarrow> False)"

fun leaks :: "json \<Rightarrow> bool" where
  "leaks (JMap kvs) = list_ex (\<lambda>(k, v). map lower_char k \<in> set forbidden_keys \<or> leaking_text v \<or> leaks v) kvs"
| "leaks (JList vs) = list_ex leaks vs"
| "leaks _ = False"

abbreviation payload_leak :: cp_error where
  "payload_leak \<equiv> Value_error ''Schedule artifacts must not contain payload or secret tokens''"

text \<open>Storing a row runs the checks of its record.\<close>

definition put_schedule :: "key \<Rightarrow> schedule \<Rightarrow> schedule_store \<Rightarrow> (schedule_store, schedule) outcome" where
  "put_schedule k sd s = (case schedule_error sd of
     Some e \<Rightarrow> raise_in s e
   | None \<Rightarrow> return_in (s\<lparr>sk_schedules := dput k sd (sk_schedules s)\<rparr>) sd)"

definition put_firing :: "key \<Rightarrow> firing \<Rightarrow> schedule_store \<Rightarrow> (schedule_store, firing) outcome" where
  "put_firing k fi s = (case firing_error fi of
     Some e \<Rightarrow> raise_in s e
   | None \<Rightarrow> return_in (s\<lparr>sk_firings := dput k fi (sk_firings s)\<rparr>) fi)"

subsection \<open>Schedules\<close>

record create_request =
  cq_definition :: string
  cq_profile :: string
  cq_spec :: schedule_spec
  cq_schedule :: "string option"
  cq_policy :: string
  cq_definition_revision :: "string option"
  cq_parameter_refs :: "(string, string) pydict"
  cq_secret_refs :: "(string, json) pydict"
  cq_revision_policy :: revision_policy
  cq_identity :: "principal option"
  cq_route :: string
  cq_timer_owner :: timer_owner
  cq_next_fire_at :: "instant option"

definition create_schedule :: "ctx \<Rightarrow> create_request \<Rightarrow> string \<Rightarrow> string \<Rightarrow> instant \<Rightarrow> schedule_store
    \<Rightarrow> (schedule_store, schedule) outcome" where
  "create_schedule c rq uuid_sch uuid_rev now s =
     (let sid = strip (case cq_schedule rq of
            None \<Rightarrow> ''sch-'' @ uuid_sch | Some i \<Rightarrow> if i = [] then ''sch-'' @ uuid_sch else i);
          sd = \<lparr>sd_id = sid, sd_definition = cq_definition rq, sd_revision = ''rev-'' @ uuid_rev,
            sd_tenant = cx_tenant c, sd_workspace = cx_workspace c, sd_profile = cq_profile rq,
            sd_policy = cq_policy rq, sd_spec = cq_spec rq, sd_created_at = now, sd_updated_at = now,
            sd_status = Sched_active, sd_next_fire_at = cq_next_fire_at rq,
            sd_definition_revision = cq_definition_revision rq, sd_parameter_refs = cq_parameter_refs rq,
            sd_secret_refs = cq_secret_refs rq, sd_metadata = [], sd_revision_policy = cq_revision_policy rq,
            sd_identity = cq_identity rq, sd_route = cq_route rq, sd_timer_owner = cq_timer_owner rq,
            sd_generation = 1\<rparr>;
          k = mk_key (scope_of c) sid in
      if \<not> valid_route (cq_route rq) then raise_in s bad_route
      else (case schedule_error sd of
        Some e \<Rightarrow> raise_in s e
      | None \<Rightarrow> if dget (sk_schedules s) k \<noteq> None then raise_in s (Conflict ''schedule already exists'')
          else put_schedule k sd s))"

definition live_schedule :: "ctx \<Rightarrow> string \<Rightarrow> schedule_store \<Rightarrow> schedule option" where
  "live_schedule c sid s = (case dget (sk_schedules s) (mk_key (scope_of c) sid) of
     None \<Rightarrow> None | Some sd \<Rightarrow> if sd_status sd = Sched_deleted then None else Some sd)"

abbreviation no_schedule :: cp_error where "no_schedule \<equiv> Not_found ''schedule not found''"

definition get_schedule :: "ctx \<Rightarrow> string \<Rightarrow> schedule_store \<Rightarrow> schedule res" where
  "get_schedule c sid s = (case live_schedule c sid s of None \<Rightarrow> Inl no_schedule | Some sd \<Rightarrow> Inr sd)"

definition list_schedules :: "ctx \<Rightarrow> schedule_store \<Rightarrow> schedule list" where
  "list_schedules c s = map snd (filter (\<lambda>(k, sd). key_scope k = scope_of c \<and> sd_status sd \<noteq> Sched_deleted)
     (sk_schedules s))"

definition schedule_route_references :: "string \<Rightarrow> schedule_store \<Rightarrow> nat res" where
  "schedule_route_references r s = (if \<not> valid_route r then Inl bad_route
     else Inr (dcount (\<lambda>k sd. sd_route sd = r \<and> sd_status sd \<noteq> Sched_deleted) (sk_schedules s)))"

text \<open>A firing of a schedule in a scope, and one that is claimed but not linked to a submission.\<close>

definition fires_for :: "ctx \<Rightarrow> string \<Rightarrow> firing \<Rightarrow> bool" where
  "fires_for c sid fi \<longleftrightarrow> fi_schedule fi = sid \<and> (fi_tenant fi, fi_workspace fi) = scope_of c"

definition unlinked_firing :: "ctx \<Rightarrow> string \<Rightarrow> schedule_store \<Rightarrow> bool" where
  "unlinked_firing c sid s = list_ex (\<lambda>(k, fi). fires_for c sid fi \<and> fi_status fi = F_accepted
     \<and> fi_submission fi = None) (sk_firings s)"

definition submission_inflight :: "store option \<Rightarrow> ctx \<Rightarrow> string option \<Rightarrow> bool" where
  "submission_inflight durable c sid = (case sid of None \<Rightarrow> True | Some i \<Rightarrow>
     (case durable of None \<Rightarrow> True | Some d \<Rightarrow>
       (case submission_status_of c i d of None \<Rightarrow> False | Some st \<Rightarrow> non_terminal st)))"

definition has_inflight_firing :: "ctx \<Rightarrow> string \<Rightarrow> store option \<Rightarrow> schedule_store \<Rightarrow> bool" where
  "has_inflight_firing c sid durable s = list_ex (\<lambda>(k, fi). fires_for c sid fi \<and> fi_status fi = F_accepted
     \<and> submission_inflight durable c (fi_submission fi)) (sk_firings s)"

definition set_schedule_status :: "ctx \<Rightarrow> string \<Rightarrow> schedule_status \<Rightarrow> instant \<Rightarrow> schedule_store
    \<Rightarrow> (schedule_store, schedule) outcome" where
  "set_schedule_status c sid status now s = (case live_schedule c sid s of
     None \<Rightarrow> raise_in s no_schedule
   | Some sd \<Rightarrow>
       if status = Sched_deleted \<and> unlinked_firing c sid s
       then raise_in s (Conflict ''Schedule cannot be deleted while an occurrence is unlinked'')
       else put_schedule (mk_key (scope_of c) sid) (sd\<lparr>sd_status := status, sd_updated_at := now\<rparr>) s)"

definition pause_schedule :: "ctx \<Rightarrow> string \<Rightarrow> instant \<Rightarrow> schedule_store \<Rightarrow> (schedule_store, schedule) outcome" where
  "pause_schedule c sid = set_schedule_status c sid Sched_paused"

definition resume_schedule :: "ctx \<Rightarrow> string \<Rightarrow> instant \<Rightarrow> schedule_store \<Rightarrow> (schedule_store, schedule) outcome" where
  "resume_schedule c sid = set_schedule_status c sid Sched_active"

definition delete_schedule :: "ctx \<Rightarrow> string \<Rightarrow> instant \<Rightarrow> schedule_store \<Rightarrow> (schedule_store, schedule) outcome" where
  "delete_schedule c sid = set_schedule_status c sid Sched_deleted"

definition amend_schedule :: "ctx \<Rightarrow> string \<Rightarrow> string \<Rightarrow> schedule_spec \<Rightarrow> instant option \<Rightarrow> string option
    \<Rightarrow> string option \<Rightarrow> store option \<Rightarrow> string \<Rightarrow> instant \<Rightarrow> schedule_store
    \<Rightarrow> (schedule_store, schedule) outcome" where
  "amend_schedule c sid expected sp next_at route policy durable uuid_rev now s =
     (case live_schedule c sid s of
        None \<Rightarrow> raise_in s no_schedule
      | Some sd \<Rightarrow>
          if sd_revision sd \<noteq> expected
          then raise_in s (Conflict ''Schedule revision changed before amendment'')
          else if has_inflight_firing c sid durable s
          then raise_in s (Conflict ''Schedule cannot be amended while a firing is active'')
          else if (case route of None \<Rightarrow> False | Some r \<Rightarrow> \<not> valid_route r) then raise_in s bad_route
          else (let r = (case route of None \<Rightarrow> sd_route sd | Some r \<Rightarrow> r);
                    md = dput ''amends_revision_id'' (JStr (sd_revision sd)) (sd_metadata sd);
                    md' = (if r \<noteq> sd_route sd
                           then dput ''execution_route_amended_from'' (JStr (sd_route sd)) md else md) in
            put_schedule (mk_key (scope_of c) sid)
              (sd\<lparr>sd_revision := ''rev-'' @ uuid_rev, sd_spec := sp, sd_next_fire_at := next_at,
                 sd_updated_at := now, sd_metadata := md', sd_route := r,
                 sd_policy := (case policy of None \<Rightarrow> sd_policy sd | Some p \<Rightarrow> p)\<rparr>) s))"

definition transfer_timer_owner :: "ctx \<Rightarrow> string \<Rightarrow> string \<Rightarrow> int \<Rightarrow> timer_owner \<Rightarrow> principal option
    \<Rightarrow> string \<Rightarrow> instant \<Rightarrow> schedule_store \<Rightarrow> (schedule_store, schedule) outcome" where
  "transfer_timer_owner c sid expected generation owner identity policy now s =
     (case first_error
        [(generation < 1, Value_error ''expected_generation must be positive''),
         (owner = Timer_external \<and> identity = None,
           Value_error ''external timer ownership requires workload_identity''),
         (case identity of None \<Rightarrow> False | Some p \<Rightarrow> pr_kind p = Human,
           Value_error ''timer workload identity must be workload or service'')] of
        Some e \<Rightarrow> raise_in s e
      | None \<Rightarrow> (case live_schedule c sid s of
          None \<Rightarrow> raise_in s no_schedule
        | Some sd \<Rightarrow>
            if sd_revision sd \<noteq> expected \<or> sd_generation sd \<noteq> generation
            then raise_in s (Conflict ''Schedule timer owner changed before transfer'')
            else if unlinked_firing c sid s
            then raise_in s (Conflict ''Schedule timer owner cannot transfer while an occurrence is unlinked'')
            else put_schedule (mk_key (scope_of c) sid)
              (sd\<lparr>sd_timer_owner := owner, sd_generation := sd_generation sd + 1, sd_identity := identity,
                 sd_policy := policy, sd_updated_at := now\<rparr>) s))"

subsection \<open>The leader lease\<close>

definition acquire_leader_lease :: "ctx \<Rightarrow> string \<Rightarrow> int \<Rightarrow> instant \<Rightarrow> schedule_store
    \<Rightarrow> (schedule_store, leader_lease) outcome" where
  "acquire_leader_lease c owner ttl now s =
     (let sc = scope_of c; current = dget (sk_leaders s) sc;
          store_lease = (\<lambda>l. return_in (s\<lparr>sk_leaders := dput sc l (sk_leaders s)\<rparr>) l) in
      case current of
        Some l \<Rightarrow>
          if now < ll_expires_at l then
            (if ll_owner l \<noteq> owner then raise_in s (Conflict ''scheduler leader lease held'')
             else store_lease (l\<lparr>ll_expires_at := now + usec ttl, ll_heartbeat_at := now\<rparr>))
          else store_lease \<lparr>ll_owner = owner, ll_token = ll_token l + 1, ll_expires_at = now + usec ttl,
            ll_heartbeat_at = now, ll_tenant = cx_tenant c, ll_workspace = cx_workspace c\<rparr>
      | None \<Rightarrow> store_lease \<lparr>ll_owner = owner, ll_token = 1, ll_expires_at = now + usec ttl,
          ll_heartbeat_at = now, ll_tenant = cx_tenant c, ll_workspace = cx_workspace c\<rparr>)"

definition leads :: "leader_lease option \<Rightarrow> string \<Rightarrow> nat \<Rightarrow> instant \<Rightarrow> bool" where
  "leads l owner token now \<longleftrightarrow> (case l of None \<Rightarrow> False
     | Some l \<Rightarrow> ll_owner l = owner \<and> ll_token l = token \<and> now < ll_expires_at l)"

definition require_leader :: "ctx \<Rightarrow> string \<Rightarrow> nat \<Rightarrow> instant \<Rightarrow> schedule_store \<Rightarrow> leader_lease res" where
  "require_leader c owner token now s = (case dget (sk_leaders s) (scope_of c) of
     None \<Rightarrow> Inl (Conflict ''Stale or invalid scheduler leader lease'')
   | Some l \<Rightarrow> if leads (Some l) owner token now then Inr l
       else Inl (Conflict ''Stale or invalid scheduler leader lease''))"

definition heartbeat_leader :: "ctx \<Rightarrow> string \<Rightarrow> nat \<Rightarrow> int \<Rightarrow> instant \<Rightarrow> schedule_store
    \<Rightarrow> (schedule_store, leader_lease) outcome" where
  "heartbeat_leader c owner token ttl now s = (case require_leader c owner token now s of
     Inl e \<Rightarrow> raise_in s e
   | Inr l \<Rightarrow> (let l' = l\<lparr>ll_expires_at := now + usec ttl, ll_heartbeat_at := now\<rparr> in
       return_in (s\<lparr>sk_leaders := dput (scope_of c) l' (sk_leaders s)\<rparr>) l'))"

definition release_leader :: "ctx \<Rightarrow> string \<Rightarrow> nat \<Rightarrow> instant \<Rightarrow> schedule_store \<Rightarrow> (schedule_store, unit) outcome" where
  "release_leader c owner token now s = (case require_leader c owner token now s of
     Inl e \<Rightarrow> raise_in s e
   | Inr l \<Rightarrow> return_in (s\<lparr>sk_leaders := dput (scope_of c)
       (l\<lparr>ll_expires_at := now - usec 1\<rparr>) (sk_leaders s)\<rparr>) ())"

definition due_schedules :: "ctx \<Rightarrow> instant \<Rightarrow> schedule_store \<Rightarrow> schedule list" where
  "due_schedules c now s = map snd (filter (\<lambda>(k, sd). key_scope k = scope_of c \<and> sd_status sd = Sched_active
     \<and> sd_timer_owner sd = Timer_local
     \<and> (case sd_next_fire_at sd of None \<Rightarrow> False | Some t \<Rightarrow> iso_key t \<le> iso_key now)) (sk_schedules s))"

end
