(* ===== verification/Schedule_Firings.thy ===== *)
theory Schedule_Firings
  imports Schedule_Store
begin

text \<open>
  The occurrences of schedules (\<open>control_plane/schedule_memory.py\<close>, \<open>claim_firing\<close> to
  \<open>list_firings\<close>): the idempotent claim, the fenced preparation lease, the admission attempts, and the
  link with a submission of the durable work store.
\<close>

subsection \<open>Claiming an occurrence\<close>

definition firing_key :: "string \<Rightarrow> string \<Rightarrow> instant \<Rightarrow> string res" where
  "firing_key sid rid nominal = (let a = strip sid; b = strip rid in
     if a = [] \<or> b = [] then Inl (Value_error ''firing key parts must be non-empty'')
     else Inr (a @ '':'' @ b @ '':'' @ iso_text nominal))"

definition logical_key :: "firing \<Rightarrow> string res" where
  "logical_key fi = firing_key (fi_schedule fi) (fi_revision fi) (fi_nominal fi)"

record claim_request =
  fq_schedule :: string
  fq_revision :: string
  fq_nominal :: instant
  fq_owner :: string
  fq_token :: nat
  fq_plan :: string
  fq_next_fire_at :: "instant option"
  fq_require_leader :: bool
  fq_admit :: bool
  fq_skip :: "firing_status option"
  fq_metadata :: "(string, json) pydict"
  fq_expected_next :: "instant option"
  fq_expected_owner :: "timer_owner option"
  fq_expected_generation :: "int option"
  fq_require_active :: bool

text \<open>The checks before an existing claim is looked up, and those before a new one is made.\<close>

definition claim_guards :: "claim_request \<Rightarrow> schedule \<Rightarrow> cp_error option" where
  "claim_guards rq sd = first_error
     [(sd_status sd = Sched_deleted, Conflict ''Deleted schedules cannot accept a firing''),
      (sd_revision sd \<noteq> fq_revision rq, Conflict ''Schedule revision changed before firing claim''),
      (fq_require_leader rq \<and> sd_timer_owner sd \<noteq> Timer_local,
        Conflict ''Polling scheduler cannot claim an externally owned schedule''),
      (case fq_expected_owner rq of None \<Rightarrow> False | Some w \<Rightarrow> sd_timer_owner sd \<noteq> w,
        Conflict ''Schedule timer owner changed before firing claim''),
      (case fq_expected_generation rq of None \<Rightarrow> False | Some n \<Rightarrow> sd_generation sd \<noteq> n,
        Conflict ''Schedule timer owner generation changed before firing claim'')]"

definition new_claim_guards :: "claim_request \<Rightarrow> schedule \<Rightarrow> cp_error option" where
  "new_claim_guards rq sd = first_error
     [(fq_expected_next rq \<noteq> None \<and> sd_next_fire_at sd \<noteq> fq_expected_next rq,
        Conflict ''Schedule next occurrence changed before external trigger admission''),
      ((fq_require_active rq \<or> fq_require_leader rq) \<and> sd_status sd \<noteq> Sched_active,
        Conflict ''Only active schedules can accept a scheduled firing'')]"

definition claim_status :: "ctx \<Rightarrow> claim_request \<Rightarrow> schedule \<Rightarrow> store option \<Rightarrow> schedule_store \<Rightarrow> firing_status" where
  "claim_status c rq sd durable s = (case fq_skip rq of
     Some st \<Rightarrow> st
   | None \<Rightarrow> if \<not> in_window (sd_spec sd) (fq_nominal rq) then F_skipped_window
       else if sp_overlap (sd_spec sd) = Overlap_skip \<and> has_inflight_firing c (fq_schedule rq) durable s
       then F_skipped_overlap else F_accepted)"

definition claimed_firing :: "ctx \<Rightarrow> claim_request \<Rightarrow> firing_status \<Rightarrow> string \<Rightarrow> instant \<Rightarrow> firing" where
  "claimed_firing c rq status uuid now = \<lparr>fi_id = ''fire-'' @ uuid, fi_schedule = fq_schedule rq,
     fi_revision = fq_revision rq, fi_nominal = fq_nominal rq, fi_tenant = cx_tenant c,
     fi_workspace = cx_workspace c, fi_created_at = now, fi_status = status, fi_submission = None,
     fi_metadata = fq_metadata rq, fi_prep_owner = None, fi_prep_token = 0, fi_prep_expires = None,
     fi_started = False, fi_attempts = []\<rparr>"

definition fire_request :: "claim_request \<Rightarrow> string \<Rightarrow> firing \<Rightarrow> accept_request" where
  "fire_request rq logical fi = \<lparr>rq_idempotency_key = logical, rq_operation = ''schedule.fire'',
     rq_plan = fq_plan rq, rq_revision = Some (fq_revision rq), rq_plugin = None, rq_policy = None,
     rq_input = None, rq_observation = None, rq_baseline = None, rq_submission_id = Some (fi_id fi),
     rq_run_id = None, rq_route = ''local''\<rparr>"

text \<open>The submission of an accepted occurrence in the same transaction.\<close>

definition admit_firing :: "externals \<Rightarrow> ctx \<Rightarrow> claim_request \<Rightarrow> string \<Rightarrow> firing \<Rightarrow> string \<Rightarrow> string \<Rightarrow> instant
    \<Rightarrow> store option \<Rightarrow> (store option, string option) outcome" where
  "admit_firing ex c rq logical fi uuid uuid_out now durable = (case durable of
     None \<Rightarrow> return_in None None
   | Some d \<Rightarrow> if fi_status fi = F_accepted \<and> fq_admit rq
       then (case accept ex c (fire_request rq logical fi) uuid uuid_out now d of
          (Inl e, d') \<Rightarrow> raise_in (Some d') e
        | (Inr (su, created), d') \<Rightarrow> return_in (Some d') (Some (su_id su)))
       else return_in (Some d) None)"

type_synonym joint = "schedule_store \<times> store option"

definition store_claim :: "key \<Rightarrow> firing \<Rightarrow> key \<Rightarrow> schedule \<Rightarrow> schedule_store \<Rightarrow> (schedule_store, unit) outcome" where
  "store_claim fk fi k sd s = (case firing_error fi of
     Some e \<Rightarrow> raise_in s e
   | None \<Rightarrow> (let s' = s\<lparr>sk_firings := dput fk fi (sk_firings s)\<rparr> in
       case schedule_error sd of
         Some e \<Rightarrow> raise_in s' e
       | None \<Rightarrow> return_in (s'\<lparr>sk_schedules := dput k sd (sk_schedules s')\<rparr>) ()))"

definition claim_new :: "externals \<Rightarrow> ctx \<Rightarrow> claim_request \<Rightarrow> string \<Rightarrow> schedule \<Rightarrow> string \<Rightarrow> string \<Rightarrow> instant
    \<Rightarrow> joint \<Rightarrow> (joint, firing \<times> bool) outcome" where
  "claim_new ex c rq logical sd uuid uuid_out now js = (let (s, durable) = js in
     case new_claim_guards rq sd of
       Some e \<Rightarrow> raise_in js e
     | None \<Rightarrow>
         (let fi = claimed_firing c rq (claim_status c rq sd durable s) uuid now in
          if leaks (JMap [(''metadata'', JMap (fq_metadata rq))]) then raise_in js payload_leak
          else (case firing_error fi of
            Some e \<Rightarrow> raise_in js e
          | None \<Rightarrow> (case admit_firing ex c rq logical fi uuid uuid_out now durable of
              (Inl e, d') \<Rightarrow> raise_in (s, d') e
            | (Inr sub, d') \<Rightarrow>
                (let fi' = fi\<lparr>fi_submission := sub\<rparr> in
                 case store_claim (mk_key (scope_of c) logical) fi' (mk_key (scope_of c) (fq_schedule rq))
                   (sd\<lparr>sd_next_fire_at := fq_next_fire_at rq, sd_updated_at := now\<rparr>) s of
                   (Inl e, s') \<Rightarrow> raise_in (s', d') e
                 | (Inr _, s') \<Rightarrow> return_in (s', d') (fi', True))))))"

definition claim_firing :: "externals \<Rightarrow> ctx \<Rightarrow> claim_request \<Rightarrow> string \<Rightarrow> string \<Rightarrow> instant \<Rightarrow> joint
    \<Rightarrow> (joint, firing \<times> bool) outcome" where
  "claim_firing ex c rq uuid uuid_out now js = (let (s, durable) = js in
     case firing_key (fq_schedule rq) (fq_revision rq) (fq_nominal rq) of
       Inl e \<Rightarrow> raise_in js e
     | Inr logical \<Rightarrow>
         if fq_require_leader rq \<and> \<not> leads (dget (sk_leaders s) (scope_of c)) (fq_owner rq) (fq_token rq) now
         then raise_in js (Conflict ''Stale or invalid scheduler leader lease'')
         else (case dget (sk_schedules s) (mk_key (scope_of c) (fq_schedule rq)) of
           None \<Rightarrow> raise_in js no_schedule
         | Some sd \<Rightarrow> (case claim_guards rq sd of
             Some e \<Rightarrow> raise_in js e
           | None \<Rightarrow> (case dget (sk_firings s) (mk_key (scope_of c) logical) of
               Some fi \<Rightarrow> return_in js (fi, False)
             | None \<Rightarrow> claim_new ex c rq logical sd uuid uuid_out now js))))"

subsection \<open>The preparation lease\<close>

definition find_firing :: "ctx \<Rightarrow> string \<Rightarrow> schedule_store \<Rightarrow> (key \<times> firing) option" where
  "find_firing c fid s = find (\<lambda>(k, fi). key_scope k = scope_of c \<and> fi_id fi = fid) (sk_firings s)"

abbreviation no_firing :: cp_error where "no_firing \<equiv> Not_found ''schedule firing not found''"

text \<open>The operation on the one firing with an identifier.\<close>

definition on_firing :: "ctx \<Rightarrow> string \<Rightarrow> (key \<Rightarrow> firing \<Rightarrow> (schedule_store, 'a) outcome) \<Rightarrow> schedule_store
    \<Rightarrow> (schedule_store, 'a) outcome" where
  "on_firing c fid f s = (case find_firing c fid s of
     None \<Rightarrow> raise_in s no_firing | Some (k, fi) \<Rightarrow> f k fi)"

definition prep_expired :: "firing \<Rightarrow> instant \<Rightarrow> bool" where
  "prep_expired fi now \<longleftrightarrow> (case fi_prep_expires fi of None \<Rightarrow> True | Some t \<Rightarrow> t \<le> now)"

definition prepares :: "firing \<Rightarrow> string \<Rightarrow> nat \<Rightarrow> instant \<Rightarrow> bool" where
  "prepares fi owner token now \<longleftrightarrow>
     fi_prep_owner fi = Some owner \<and> fi_prep_token fi = token \<and> \<not> prep_expired fi now"

abbreviation stale_preparation :: cp_error where
  "stale_preparation \<equiv> Conflict ''Schedule occurrence preparation lease is stale''"

definition acquire_firing_preparation :: "ctx \<Rightarrow> string \<Rightarrow> string \<Rightarrow> int \<Rightarrow> instant \<Rightarrow> schedule_store
    \<Rightarrow> (schedule_store, firing \<times> bool) outcome" where
  "acquire_firing_preparation c fid owner ttl now s =
     (if blank owner then raise_in s (Value_error ''preparation owner_id must be non-empty'')
      else if ttl < 1 \<or> 900 < ttl
      then raise_in s (Value_error ''preparation ttl_seconds must be between 1 and 900'')
      else on_firing c fid (\<lambda>k fi.
        if fi_status fi \<noteq> F_accepted \<or> fi_submission fi \<noteq> None then return_in s (fi, False)
        else if fi_prep_owner fi \<noteq> None \<and> \<not> prep_expired fi now \<and> fi_prep_owner fi \<noteq> Some owner
        then return_in s (fi, False)
        else (let token = (if fi_prep_owner fi \<noteq> Some owner \<or> prep_expired fi now
                           then fi_prep_token fi + 1 else fi_prep_token fi) in
          case put_firing k (fi\<lparr>fi_prep_owner := Some owner, fi_prep_token := token,
              fi_prep_expires := Some (now + usec ttl)\<rparr>) s of
            (Inl e, s') \<Rightarrow> (Inl e, s') | (Inr fi', s') \<Rightarrow> (Inr (fi', True), s'))) s)"

fun merge_metadata :: "(string \<times> json) list \<Rightarrow> (string, json) pydict \<Rightarrow> (string, json) pydict res" where
  "merge_metadata [] merged = Inr merged"
| "merge_metadata ((name, v) # kvs) merged = (case dget merged name of
     None \<Rightarrow> merge_metadata kvs (dput name v merged)
   | Some old \<Rightarrow> if old \<noteq> v then Inl (Conflict ''Schedule occurrence metadata changed after its durable claim'')
       else merge_metadata kvs (dput name v merged))"

definition update_firing_metadata :: "ctx \<Rightarrow> string \<Rightarrow> (string, json) pydict \<Rightarrow> string \<Rightarrow> nat \<Rightarrow> instant
    \<Rightarrow> schedule_store \<Rightarrow> (schedule_store, firing) outcome" where
  "update_firing_metadata c fid md owner token now s =
     (if leaks (JMap [(''metadata'', JMap md)]) then raise_in s payload_leak
      else on_firing c fid (\<lambda>k fi.
        if \<not> prepares fi owner token now then raise_in s stale_preparation
        else (case merge_metadata md (fi_metadata fi) of
          Inl e \<Rightarrow> raise_in s e | Inr merged \<Rightarrow> put_firing k (fi\<lparr>fi_metadata := merged\<rparr>) s)) s)"

definition release_firing_preparation :: "ctx \<Rightarrow> string \<Rightarrow> string \<Rightarrow> nat \<Rightarrow> schedule_store
    \<Rightarrow> (schedule_store, unit) outcome" where
  "release_firing_preparation c fid owner token s = (case find_firing c fid s of
     None \<Rightarrow> return_in s ()
   | Some (k, fi) \<Rightarrow>
       if fi_prep_owner fi = Some owner \<and> fi_prep_token fi = token
       then (case put_firing k (fi\<lparr>fi_prep_owner := None, fi_prep_expires := None\<rparr>) s of
          (Inl e, s') \<Rightarrow> (Inl e, s') | (Inr _, s') \<Rightarrow> (Inr (), s'))
       else return_in s ())"

subsection \<open>Admission attempts\<close>

definition legacy_attempt :: string where "legacy_attempt = ''legacy-untracked-admission''"

definition begin_firing_submission :: "ctx \<Rightarrow> string \<Rightarrow> string \<Rightarrow> nat \<Rightarrow> string option \<Rightarrow> string \<Rightarrow> instant
    \<Rightarrow> schedule_store \<Rightarrow> (schedule_store, firing) outcome" where
  "begin_firing_submission c fid owner token attempt uuid now s =
     (let a = (case attempt of None \<Rightarrow> uuid | Some a \<Rightarrow> a) in
      if blank a \<or> a = legacy_attempt
      then raise_in s (Value_error ''submission attempt ID must be non-empty'')
      else on_firing c fid (\<lambda>k fi.
        if fi_status fi \<noteq> F_accepted \<or> fi_submission fi \<noteq> None
        then raise_in s (Conflict ''Only unlinked accepted firings can begin submission'')
        else if \<not> prepares fi owner token now then raise_in s stale_preparation
        else (let attempts = (if fi_started fi \<and> fi_attempts fi = [] then [legacy_attempt] else fi_attempts fi) in
          if a \<in> set attempts then return_in s fi
          else put_firing k (fi\<lparr>fi_started := True, fi_attempts := attempts @ [a]\<rparr>) s)) s)"

definition without_attempt :: "string \<Rightarrow> firing \<Rightarrow> string list" where
  "without_attempt a fi = filter (\<lambda>x. x \<noteq> a) (fi_attempts fi)"

definition reject_firing_submission :: "ctx \<Rightarrow> string \<Rightarrow> string \<Rightarrow> schedule_store
    \<Rightarrow> (schedule_store, firing) outcome" where
  "reject_firing_submission c fid a s = on_firing c fid (\<lambda>k fi.
     if a \<noteq> legacy_attempt \<and> a \<in> set (fi_attempts fi)
     then put_firing k (fi\<lparr>fi_started := without_attempt a fi \<noteq> [], fi_attempts := without_attempt a fi\<rparr>) s
     else return_in s fi) s"

definition failed_firing :: "firing \<Rightarrow> firing" where
  "failed_firing fi = fi\<lparr>fi_status := F_failed_preparation, fi_prep_owner := None, fi_prep_expires := None\<rparr>"

definition fail_after_compensation :: "ctx \<Rightarrow> string \<Rightarrow> string \<Rightarrow> schedule_store
    \<Rightarrow> (schedule_store, firing) outcome" where
  "fail_after_compensation c fid a s = on_firing c fid (\<lambda>k fi.
     if fi_status fi \<noteq> F_accepted \<or> fi_submission fi \<noteq> None
     then raise_in s (Conflict ''Only unlinked accepted firings can fail after compensation'')
     else if a \<notin> set (fi_attempts fi) then return_in s fi
     else if without_attempt a fi \<noteq> []
     then put_firing k (fi\<lparr>fi_started := True, fi_attempts := without_attempt a fi\<rparr>) s
     else if legacy_attempt \<in> set (fi_attempts fi)
     then put_firing k (fi\<lparr>fi_started := True\<rparr>) s
     else put_firing k ((failed_firing fi)\<lparr>fi_started := False, fi_attempts := []\<rparr>) s) s"

definition fail_firing_preparation :: "ctx \<Rightarrow> string \<Rightarrow> string \<Rightarrow> nat \<Rightarrow> instant \<Rightarrow> schedule_store
    \<Rightarrow> (schedule_store, firing) outcome" where
  "fail_firing_preparation c fid owner token now s = on_firing c fid (\<lambda>k fi.
     if \<not> prepares fi owner token now then raise_in s stale_preparation
     else if fi_status fi \<noteq> F_accepted \<or> fi_submission fi \<noteq> None
     then raise_in s (Conflict ''Only unlinked accepted firings can fail preparation'')
     else if fi_started fi
     then raise_in s (Conflict ''Schedule occurrence submission has already started'')
     else put_firing k (failed_firing fi) s) s"

subsection \<open>The link with a submission\<close>

definition text_at :: "(string, json) pydict \<Rightarrow> string \<Rightarrow> string option" where
  "text_at md name = (case dget md name of Some (JStr t) \<Rightarrow> if t = [] then None else Some t | _ \<Rightarrow> None)"

definition expected_revision :: "firing \<Rightarrow> schedule option \<Rightarrow> string option" where
  "expected_revision fi sd = (case text_at (fi_metadata fi) ''selected_definition_revision_id'' of
     Some r \<Rightarrow> Some r
   | None \<Rightarrow> (case sd of None \<Rightarrow> None | Some sd \<Rightarrow> sd_definition_revision sd))"

definition schedule_idempotency :: "externals \<Rightarrow> string \<Rightarrow> string" where
  "schedule_idempotency ex logical = ''schedule-'' @ ex_sha256 ex logical"

definition link_error :: "externals \<Rightarrow> firing \<Rightarrow> schedule option \<Rightarrow> submission \<Rightarrow> string \<Rightarrow> cp_error option" where
  "link_error ex fi sd su plan = (let rid = expected_revision fi sd in
     if sd = None \<or> rid = None \<or> su_revision_id su \<noteq> rid
     then Some (Conflict ''Managed schedule submission does not match its occurrence revision'')
     else if su_operation su \<noteq> ''run.submit'' \<or> su_plan_fingerprint su \<noteq> plan
     then Some (Conflict ''Managed schedule submission is not an accepted executable run'')
     else (case logical_key fi of
       Inl e \<Rightarrow> Some e
     | Inr logical \<Rightarrow>
         if su_idempotency_key su \<noteq> schedule_idempotency ex logical
            \<or> su_input_snapshot su = None \<or> su_input_snapshot su = Some []
         then Some (Conflict ''Managed schedule submission is not an accepted executable run'') else None))"

definition linked_firing :: "firing \<Rightarrow> string \<Rightarrow> string \<Rightarrow> string \<Rightarrow> firing" where
  "linked_firing fi sid rid plan = fi\<lparr>fi_submission := Some sid,
     fi_metadata := dput ''admission'' (JStr ''managed'') (dput ''plan_fingerprint'' (JStr plan)
       (dput ''definition_revision_id'' (JStr rid) (fi_metadata fi))),
     fi_prep_owner := None, fi_prep_expires := None\<rparr>"

definition link_firing_submission :: "externals \<Rightarrow> ctx \<Rightarrow> string \<Rightarrow> string \<Rightarrow> string \<Rightarrow> store \<Rightarrow> string option
    \<Rightarrow> nat option \<Rightarrow> bool \<Rightarrow> instant \<Rightarrow> schedule_store \<Rightarrow> (schedule_store, firing) outcome" where
  "link_firing_submission ex c fid sid plan durable owner token recovered now s = on_firing c fid (\<lambda>k fi.
     if fi_status fi \<noteq> F_accepted
     then raise_in s (Conflict ''Only accepted schedule firings can link managed work'')
     else if fi_prep_owner fi \<noteq> None \<and> \<not> recovered \<and> (owner = None \<or> token = None)
     then raise_in s (Conflict ''Schedule occurrence preparation lease is required to link managed work'')
     else if fi_prep_owner fi \<noteq> None \<and> \<not> recovered \<and> \<not> prepares fi (the owner) (the token) now
     then raise_in s stale_preparation
     else (case fi_submission fi of
       Some prior \<Rightarrow> if prior \<noteq> sid
         then raise_in s (Conflict ''Schedule firing is already linked to another submission'')
         else return_in s fi
     | None \<Rightarrow> (case get_submission c sid durable of
         Inl e \<Rightarrow> raise_in s e
       | Inr su \<Rightarrow> (let sd = dget (sk_schedules s) (mk_key (scope_of c) (fi_schedule fi)) in
           case link_error ex fi sd su plan of
             Some e \<Rightarrow> raise_in s e
           | None \<Rightarrow> put_firing k (linked_firing fi sid (of_opt (expected_revision fi sd)) plan) s)))) s"

definition list_firings :: "ctx \<Rightarrow> string \<Rightarrow> schedule_store \<Rightarrow> firing list" where
  "list_firings c sid s = map snd (filter (\<lambda>(k, fi). fires_for c sid fi) (sk_firings s))"

end
