(* ===== verification/Schedule_System.thy ===== *)
theory Schedule_System
  imports Schedule_Firings Durable_Contracts
begin

text \<open>
  The schedule store as a system: its calls, its histories together with the durable work store, the
  state machine of an occurrence, and the lemma of each operation that it makes only steps of that
  machine.
\<close>

declare split_paired_All [simp del] split_paired_Ex [simp del]

subsection \<open>Calls and histories\<close>

datatype schedule_call =
    Create create_request string string
  | Set_status string schedule_status
  | Amend string string schedule_spec "instant option" "string option" "string option" string
  | Transfer string string int timer_owner "principal option" string
  | Acquire_leader string int
  | Heartbeat_leader string nat int
  | Release_leader string nat
  | Claim claim_request string string
  | Acquire_preparation string string int
  | Update_metadata string "(string, json) pydict" string nat
  | Release_preparation string string nat
  | Begin_submission string string nat "string option" string
  | Reject_submission string string
  | Fail_compensated string string
  | Fail_preparation string string nat
  | Link string string string "string option" "nat option" bool

text \<open>The state a call leaves; the link needs a durable store.\<close>

fun schedule_run :: "externals \<Rightarrow> ctx \<Rightarrow> schedule_call \<Rightarrow> instant \<Rightarrow> joint \<Rightarrow> joint" where
  "schedule_run ex c (Create rq u1 u2) now (s, d) = (snd (create_schedule c rq u1 u2 now s), d)"
| "schedule_run ex c (Set_status sid st) now (s, d) = (snd (set_schedule_status c sid st now s), d)"
| "schedule_run ex c (Amend sid e sp next_at route policy u) now (s, d) =
     (snd (amend_schedule c sid e sp next_at route policy d u now s), d)"
| "schedule_run ex c (Transfer sid e g owner identity policy) now (s, d) =
     (snd (transfer_timer_owner c sid e g owner identity policy now s), d)"
| "schedule_run ex c (Acquire_leader owner ttl) now (s, d) = (snd (acquire_leader_lease c owner ttl now s), d)"
| "schedule_run ex c (Heartbeat_leader owner t ttl) now (s, d) = (snd (heartbeat_leader c owner t ttl now s), d)"
| "schedule_run ex c (Release_leader owner t) now (s, d) = (snd (release_leader c owner t now s), d)"
| "schedule_run ex c (Claim rq u uo) now (s, d) = snd (claim_firing ex c rq u uo now (s, d))"
| "schedule_run ex c (Acquire_preparation fid owner ttl) now (s, d) =
     (snd (acquire_firing_preparation c fid owner ttl now s), d)"
| "schedule_run ex c (Update_metadata fid md owner t) now (s, d) =
     (snd (update_firing_metadata c fid md owner t now s), d)"
| "schedule_run ex c (Release_preparation fid owner t) now (s, d) =
     (snd (release_firing_preparation c fid owner t s), d)"
| "schedule_run ex c (Begin_submission fid owner t a u) now (s, d) =
     (snd (begin_firing_submission c fid owner t a u now s), d)"
| "schedule_run ex c (Reject_submission fid a) now (s, d) = (snd (reject_firing_submission c fid a s), d)"
| "schedule_run ex c (Fail_compensated fid a) now (s, d) = (snd (fail_after_compensation c fid a s), d)"
| "schedule_run ex c (Fail_preparation fid owner t) now (s, d) =
     (snd (fail_firing_preparation c fid owner t now s), d)"
| "schedule_run ex c (Link fid sid plan owner t recovered) now (s, d) = (case d of
     None \<Rightarrow> (s, d)
   | Some work \<Rightarrow> (snd (link_firing_submission ex c fid sid plan work owner t recovered now s), d))"

text \<open>The identifiers a claim generates are new to the durable store.\<close>

definition fresh_claim :: "ctx \<Rightarrow> schedule_call \<Rightarrow> joint \<Rightarrow> bool" where
  "fresh_claim c call js \<longleftrightarrow> (case (call, snd js) of
     (Claim rq u uo, Some d) \<Rightarrow> dget (submissions d) (mk_key (scope_of c) u) = None
       \<and> dget (outboxes d) (mk_key (scope_of c) uo) = None
   | _ \<Rightarrow> True)"

inductive joint_moves :: "externals \<Rightarrow> joint \<Rightarrow> joint \<Rightarrow> bool" for ex :: externals where
  stay: "joint_moves ex a a"
| schedule: "joint_moves ex a b \<Longrightarrow> fresh_claim c call b \<Longrightarrow> joint_moves ex a (schedule_run ex c call now b)"
| work: "joint_moves ex a (s, Some d) \<Longrightarrow> store_step ex c op d e d' \<Longrightarrow> joint_moves ex a (s, Some d')"

definition empty_schedules :: schedule_store where
  "empty_schedules = \<lparr>sk_schedules = [], sk_firings = [], sk_leaders = []\<rparr>"

subsection \<open>The state machine of an occurrence\<close>

text \<open>
  \<open>firing_change linkable fi fi'\<close> is one step of an occurrence; \<open>linkable fi sid\<close> says that the durable
  store holds a submission \<open>sid\<close> made for it.
\<close>

definition open_firing :: "firing \<Rightarrow> bool" where
  "open_firing fi \<longleftrightarrow> fi_status fi = F_accepted \<and> fi_submission fi = None"

inductive firing_change :: "(firing \<Rightarrow> string \<Rightarrow> bool) \<Rightarrow> firing \<Rightarrow> firing \<Rightarrow> bool"
  for linkable :: "firing \<Rightarrow> string \<Rightarrow> bool" where
  prepare: "open_firing fi \<Longrightarrow> fi_prep_token fi \<le> t \<Longrightarrow> (t = fi_prep_token fi \<longrightarrow> fi_prep_owner fi = Some w) \<Longrightarrow>
    firing_change linkable fi (fi\<lparr>fi_prep_owner := Some w, fi_prep_token := t, fi_prep_expires := Some x\<rparr>)"
| annotate: "firing_change linkable fi (fi\<lparr>fi_metadata := md\<rparr>)"
| give_back: "firing_change linkable fi (fi\<lparr>fi_prep_owner := None, fi_prep_expires := None\<rparr>)"
| begin_attempt: "open_firing fi \<Longrightarrow> tries \<noteq> [] \<Longrightarrow>
    firing_change linkable fi (fi\<lparr>fi_started := True, fi_attempts := tries\<rparr>)"
| drop_attempt: "fi_attempts fi \<noteq> [] \<Longrightarrow>
    firing_change linkable fi (fi\<lparr>fi_started := without_attempt a fi \<noteq> [], fi_attempts := without_attempt a fi\<rparr>)"
| keep_attempt: "open_firing fi \<Longrightarrow> fi_attempts fi \<noteq> [] \<Longrightarrow> firing_change linkable fi (fi\<lparr>fi_started := True\<rparr>)"
| compensate: "open_firing fi \<Longrightarrow> fi_attempts fi \<noteq> [] \<Longrightarrow> without_attempt a fi = [] \<Longrightarrow>
    firing_change linkable fi ((failed_firing fi)\<lparr>fi_started := False, fi_attempts := []\<rparr>)"
| abandon: "open_firing fi \<Longrightarrow> \<not> fi_started fi \<Longrightarrow> firing_change linkable fi (failed_firing fi)"
| link: "open_firing fi \<Longrightarrow> linkable fi sid \<Longrightarrow> firing_change linkable fi (linked_firing fi sid rid plan)"

inductive_cases firing_changeE: "firing_change linkable fi fi'"

lemmas firing_defs = open_firing_def failed_firing_def linked_firing_def

text \<open>What every step keeps of an occurrence.\<close>

definition firing_identity :: "firing \<Rightarrow> string \<times> string \<times> string \<times> instant \<times> string \<times> string \<times> instant" where
  "firing_identity fi = (fi_id fi, fi_schedule fi, fi_revision fi, fi_nominal fi, fi_tenant fi,
     fi_workspace fi, fi_created_at fi)"

definition firing_le :: "firing \<Rightarrow> firing \<Rightarrow> bool" where
  "firing_le a b \<longleftrightarrow> firing_identity b = firing_identity a
     \<and> (fi_status b = fi_status a \<or> fi_status b = F_failed_preparation \<and> open_firing a)
     \<and> (\<not> open_firing a \<longrightarrow> fi_submission b = fi_submission a)"

lemma firing_le_refl [simp]: "firing_le a a"
  by (simp add: firing_le_def)

lemma firing_le_trans: "firing_le a b \<Longrightarrow> firing_le b c \<Longrightarrow> firing_le a c"
  by (auto simp: firing_le_def open_firing_def)

lemma firing_change_le: "firing_change linkable a b \<Longrightarrow> firing_le a b"
  by (induction rule: firing_change.induct) (auto simp: firing_le_def firing_identity_def firing_defs)

text \<open>An occurrence that is not accepted, in particular a failed one, has no admission attempt.\<close>

definition firing_ok :: "firing \<Rightarrow> bool" where
  "firing_ok fi \<longleftrightarrow> (fi_status fi \<noteq> F_accepted \<longrightarrow> fi_submission fi = None)
     \<and> (fi_status fi \<noteq> F_accepted \<longrightarrow> fi_attempts fi = [] \<and> \<not> fi_started fi)
     \<and> (fi_attempts fi \<noteq> [] \<longrightarrow> fi_started fi)"

lemma firing_change_ok: "firing_change linkable a b \<Longrightarrow> firing_ok a \<Longrightarrow> firing_ok b"
  by (induction rule: firing_change.induct) (auto simp: firing_ok_def firing_defs without_attempt_def)

subsection \<open>Every operation makes steps of the machine\<close>

text \<open>A change of one stored occurrence, and nothing else.\<close>

definition one_change :: "(firing \<Rightarrow> string \<Rightarrow> bool) \<Rightarrow> ctx \<Rightarrow> schedule_store \<Rightarrow> schedule_store \<Rightarrow> bool" where
  "one_change linkable c s s' \<longleftrightarrow> s' = s \<or> (\<exists>k fi fi'. dget (sk_firings s) k = Some fi \<and> key_scope k = scope_of c
     \<and> firing_change linkable fi fi' \<and> s' = s\<lparr>sk_firings := dput k fi' (sk_firings s)\<rparr>)"

lemma one_change_refl [simp]: "one_change linkable c s s"
  by (simp add: one_change_def)

lemma find_firing_stored:
  assumes "distinct (map fst (sk_firings s))" "find_firing c fid s = Some (k, fi)"
  shows "dget (sk_firings s) k = Some fi \<and> key_scope k = scope_of c \<and> fi_id fi = fid"
proof -
  have "(k, fi) \<in> set (sk_firings s) \<and> key_scope k = scope_of c \<and> fi_id fi = fid"
    using assms(2) by (auto simp: find_firing_def find_Some_iff in_set_conv_nth)
  then show ?thesis using assms(1) by (simp add: dget_eq_iff_mem)
qed

text \<open>An operation's body on the occurrence \<open>fi\<close> stored under \<open>k\<close>: its state is the old one or has one change.\<close>

definition puts :: "(firing \<Rightarrow> string \<Rightarrow> bool) \<Rightarrow> schedule_store \<Rightarrow> key \<Rightarrow> firing \<Rightarrow> (schedule_store, 'a) outcome \<Rightarrow> bool" where
  "puts linkable s k fi out \<longleftrightarrow> snd out = s
     \<or> (\<exists>fi'. firing_change linkable fi fi' \<and> snd out = s\<lparr>sk_firings := dput k fi' (sk_firings s)\<rparr>)"

lemma puts_same: "puts linkable s k fi (x, s)"
  by (simp add: puts_def)

lemma puts_put: "firing_change linkable fi fi' \<Longrightarrow> puts linkable s k fi (put_firing k fi' s)"
  by (auto simp: puts_def put_firing_def split: option.splits)

lemma puts_wrap:
  "puts linkable s k fi out \<Longrightarrow>
   puts linkable s k fi (case out of (Inl e, s') \<Rightarrow> (Inl e, s') | (Inr x, s') \<Rightarrow> (Inr (g x), s'))"
  by (auto simp: puts_def split: prod.splits sum.splits)

lemma puts_if:
  "(b \<Longrightarrow> puts linkable s k fi x) \<Longrightarrow> (\<not> b \<Longrightarrow> puts linkable s k fi y) \<Longrightarrow> puts linkable s k fi (if b then x else y)"
  by simp

lemma puts_sum:
  "(\<And>e. v = Inl e \<Longrightarrow> puts linkable s k fi (f e)) \<Longrightarrow> (\<And>x. v = Inr x \<Longrightarrow> puts linkable s k fi (g x)) \<Longrightarrow>
   puts linkable s k fi (case v of Inl e \<Rightarrow> f e | Inr x \<Rightarrow> g x)"
  by (cases v) auto

lemma puts_option:
  "(v = None \<Longrightarrow> puts linkable s k fi f) \<Longrightarrow> (\<And>x. v = Some x \<Longrightarrow> puts linkable s k fi (g x)) \<Longrightarrow>
   puts linkable s k fi (case v of None \<Rightarrow> f | Some x \<Rightarrow> g x)"
  by (cases v) auto

lemmas puts_intros = puts_same puts_put puts_wrap puts_if puts_sum puts_option

lemma on_firing_change:
  assumes "distinct (map fst (sk_firings s))"
    and "\<And>k fi. dget (sk_firings s) k = Some fi \<Longrightarrow> key_scope k = scope_of c \<Longrightarrow> puts linkable s k fi (f k fi)"
  shows "one_change linkable c s (snd (on_firing c fid f s))"
proof (cases "find_firing c fid s")
  case (Some p)
  obtain k fi where p: "p = (k, fi)" by (cases p)
  note stored = find_firing_stored[OF assms(1) Some[unfolded p]]
  then have "puts linkable s k fi (f k fi)" using assms(2) by blast
  then show ?thesis using stored Some p unfolding puts_def one_change_def on_firing_def by auto
qed (simp add: on_firing_def)

lemma one_change_if:
  "one_change linkable c s (snd x) \<Longrightarrow> one_change linkable c s (snd y) \<Longrightarrow> one_change linkable c s (snd (if b then x else y))"
  by simp

lemma one_change_raise: "one_change linkable c s (snd (x, s))"
  by simp

lemmas op_intros = one_change_if one_change_raise on_firing_change puts_intros

lemma acquire_preparation_change:
  "distinct (map fst (sk_firings s)) \<Longrightarrow>
   one_change linkable c s (snd (acquire_firing_preparation c fid owner ttl now s))"
  unfolding acquire_firing_preparation_def Let_def
  by (intro op_intros prepare) (auto simp: open_firing_def split: if_splits)

lemma update_metadata_change:
  "distinct (map fst (sk_firings s)) \<Longrightarrow>
   one_change linkable c s (snd (update_firing_metadata c fid md owner t now s))"
  unfolding update_firing_metadata_def by (intro op_intros annotate)

lemma release_preparation_change:
  assumes "distinct (map fst (sk_firings s))"
  shows "one_change linkable c s (snd (release_firing_preparation c fid owner t s))"
proof (cases "find_firing c fid s")
  case (Some p)
  obtain k fi where p: "p = (k, fi)" by (cases p)
  note stored = find_firing_stored[OF assms Some[unfolded p]]
  have "puts linkable s k fi (if fi_prep_owner fi = Some owner \<and> fi_prep_token fi = t
       then (case put_firing k (fi\<lparr>fi_prep_owner := None, fi_prep_expires := None\<rparr>) s of
          (Inl e, s') \<Rightarrow> (Inl e, s') | (Inr _, s') \<Rightarrow> (Inr (), s'))
       else return_in s ())"
    by (intro puts_intros give_back)
  then show ?thesis using stored Some p unfolding puts_def one_change_def release_firing_preparation_def by auto
qed (simp add: release_firing_preparation_def)

lemma begin_submission_change:
  "distinct (map fst (sk_firings s)) \<Longrightarrow>
   one_change linkable c s (snd (begin_firing_submission c fid owner t a u now s))"
  unfolding begin_firing_submission_def Let_def
  by (intro op_intros begin_attempt) (auto simp: open_firing_def)

lemma reject_submission_change:
  "distinct (map fst (sk_firings s)) \<Longrightarrow> one_change linkable c s (snd (reject_firing_submission c fid a s))"
  unfolding reject_firing_submission_def by (intro op_intros drop_attempt) auto

lemma fail_compensated_change:
  assumes "distinct (map fst (sk_firings s))"
  shows "one_change linkable c s (snd (fail_after_compensation c fid a s))"
proof -
  have drop: "firing_change linkable fi (fi\<lparr>fi_started := True, fi_attempts := without_attempt a fi\<rparr>)"
    if "open_firing fi" "without_attempt a fi \<noteq> []" for fi
    using that by (rule begin_attempt)
  show ?thesis unfolding fail_after_compensation_def
    by (intro op_intros drop keep_attempt compensate assms) (auto simp: open_firing_def)
qed

lemma fail_preparation_change:
  "distinct (map fst (sk_firings s)) \<Longrightarrow>
   one_change linkable c s (snd (fail_firing_preparation c fid owner t now s))"
  unfolding fail_firing_preparation_def by (intro op_intros abandon) (auto simp: open_firing_def)

text \<open>A submission of the durable store that may be linked to an occurrence.\<close>

definition linkable_in :: "externals \<Rightarrow> store \<Rightarrow> firing \<Rightarrow> string \<Rightarrow> bool" where
  "linkable_in ex d fi sid \<longleftrightarrow> (\<exists>su logical. dget (submissions d) (mk_key (fi_tenant fi, fi_workspace fi) sid) = Some su
     \<and> su_operation su = ''run.submit'' \<and> logical_key fi = Inr logical
     \<and> su_idempotency_key su = schedule_idempotency ex logical)"

lemma link_change:
  assumes "distinct (map fst (sk_firings s))"
    and "\<And>k fi. dget (sk_firings s) k = Some fi \<Longrightarrow> (fi_tenant fi, fi_workspace fi) = key_scope k"
  shows "one_change (linkable_in ex d) c s (snd (link_firing_submission ex c fid sid plan d owner t recovered now s))"
  unfolding link_firing_submission_def Let_def
proof (intro op_intros link)
  fix k fi su
  assume fi: "dget (sk_firings s) k = Some fi" "key_scope k = scope_of c" and su: "get_submission c sid d = Inr su"
    and none: "link_error ex fi (dget (sk_schedules s) (mk_key (scope_of c) (fi_schedule fi))) su plan = None"
  have "dget (submissions d) (mk_key (scope_of c) sid) = Some su"
    using su by (auto simp: get_submission_def split: option.splits)
  moreover have "(fi_tenant fi, fi_workspace fi) = scope_of c" using assms(2)[OF fi(1)] fi(2) by simp
  ultimately show "linkable_in ex d fi sid"
    using none by (auto simp: linkable_in_def link_error_def Let_def split: if_splits sum.splits)
qed (use assms in \<open>auto simp: open_firing_def\<close>)

end
