(* ===== verification/Schedule_Invariants.thy ===== *)
theory Schedule_Invariants
  imports Schedule_System
begin

text \<open>
  The invariants of the schedule store beside the durable work store, kept by every call of either:
  occurrences are filed under their logical key, a finished occurrence has no admission attempt, and
  the submission of an occurrence exists and was made for it.
\<close>

subsection \<open>Invariants\<close>

definition keyed_firing :: "key \<Rightarrow> firing \<Rightarrow> bool" where
  "keyed_firing k fi \<longleftrightarrow> (fi_tenant fi, fi_workspace fi) = key_scope k \<and> logical_key fi = Inr (key_id k)"

text \<open>The submission was admitted by the claim of this occurrence, or by a managed run of it.\<close>

definition made_for :: "externals \<Rightarrow> string \<Rightarrow> submission \<Rightarrow> bool" where
  "made_for ex logical su \<longleftrightarrow>
     su_operation su = ''schedule.fire'' \<and> su_idempotency_key su = logical
     \<or> su_operation su = ''run.submit'' \<and> su_idempotency_key su = schedule_idempotency ex logical"

definition linked_ok :: "externals \<Rightarrow> store option \<Rightarrow> key \<Rightarrow> firing \<Rightarrow> bool" where
  "linked_ok ex d k fi \<longleftrightarrow> (\<forall>sid. fi_submission fi = Some sid \<longrightarrow>
     (\<exists>work su. d = Some work \<and> dget (submissions work) (mk_key (key_scope k) sid) = Some su
        \<and> made_for ex (key_id k) su))"

definition joint_ok :: "externals \<Rightarrow> joint \<Rightarrow> bool" where
  "joint_ok ex js \<longleftrightarrow> distinct (map fst (sk_firings (fst js)))
     \<and> (\<forall>k fi. dget (sk_firings (fst js)) k = Some fi \<longrightarrow>
          keyed_firing k fi \<and> firing_ok fi \<and> linked_ok ex (snd js) k fi)
     \<and> (\<forall>work. snd js = Some work \<longrightarrow> store_ok work)"

lemma joint_okD:
  assumes "joint_ok ex (s, d)"
  shows "distinct (map fst (sk_firings s))"
    and "\<And>k fi. dget (sk_firings s) k = Some fi \<Longrightarrow> keyed_firing k fi"
    and "\<And>k fi. dget (sk_firings s) k = Some fi \<Longrightarrow> firing_ok fi"
    and "\<And>k fi. dget (sk_firings s) k = Some fi \<Longrightarrow> linked_ok ex d k fi"
    and "\<And>work. d = Some work \<Longrightarrow> store_ok work"
  using assms by (simp_all add: joint_ok_def)

lemma joint_ok_empty: "(\<And>work. d = Some work \<Longrightarrow> store_ok work) \<Longrightarrow> joint_ok ex (empty_schedules, d)"
  by (simp add: joint_ok_def empty_schedules_def)

subsection \<open>Steps of the occurrence machine\<close>

lemma keyed_firing_le: "keyed_firing k a \<Longrightarrow> firing_le a b \<Longrightarrow> keyed_firing k b"
  by (simp add: keyed_firing_def firing_le_def firing_identity_def logical_key_def)

lemma linked_ok_change:
  assumes "linked_ok ex d k a" "keyed_firing k a" "firing_change (case d of None \<Rightarrow> (\<lambda>_ _. False) | Some work \<Rightarrow> linkable_in ex work) a b"
  shows "linked_ok ex d k b"
  using assms(3)
proof (cases rule: firing_change.cases)
  case (link sid rid plan)
  then obtain work where d: "d = Some work" "linkable_in ex work a sid" by (auto split: option.splits)
  then show ?thesis using assms(2) link(1)
    by (auto simp: linked_ok_def linkable_in_def keyed_firing_def made_for_def linked_firing_def)
qed (use assms(1) in \<open>auto simp: linked_ok_def firing_defs\<close>)

lemma one_change_ok:
  assumes "joint_ok ex (s, d)"
    "one_change (case d of None \<Rightarrow> (\<lambda>_ _. False) | Some work \<Rightarrow> linkable_in ex work) c s s'"
  shows "joint_ok ex (s', d)"
proof -
  consider "s' = s" | k fi fi' where "dget (sk_firings s) k = Some fi"
      "firing_change (case d of None \<Rightarrow> (\<lambda>_ _. False) | Some work \<Rightarrow> linkable_in ex work) fi fi'"
      "s' = s\<lparr>sk_firings := dput k fi' (sk_firings s)\<rparr>"
    using assms(2) by (auto simp: one_change_def)
  then show ?thesis
  proof cases
    case 2
    note ok = joint_okD[OF assms(1)]
    have "keyed_firing k fi'" using keyed_firing_le[OF ok(2)[OF 2(1)] firing_change_le[OF 2(2)]] .
    moreover have "firing_ok fi'" using firing_change_ok[OF 2(2) ok(3)[OF 2(1)]] .
    moreover have "linked_ok ex d k fi'" using linked_ok_change[OF ok(4)[OF 2(1)] ok(2)[OF 2(1)] 2(2)] .
    ultimately show ?thesis using ok 2(3) by (auto simp: joint_ok_def distinct_dput)
  qed (use assms in simp)
qed

lemma one_change_evolves:
  assumes "one_change linkable c s s'"
  shows "evolves (\<lambda>k. key_scope k = scope_of c) keyed_firing firing_le (sk_firings s) (sk_firings s')"
proof (cases "s' = s")
  case False
  then obtain k fi fi' where c: "dget (sk_firings s) k = Some fi" "key_scope k = scope_of c"
    "firing_change linkable fi fi'" "s' = s\<lparr>sk_firings := dput k fi' (sk_firings s)\<rparr>"
    using assms by (auto simp: one_change_def)
  show ?thesis using evolves_put_old[OF c(1), of "\<lambda>k. key_scope k = scope_of c" firing_le fi'] c(2,4)
      firing_change_le[OF c(3)] by simp
qed simp

subsection \<open>The claim\<close>

lemma accept_error: "accept ex c rq us uo now d = (Inl e, d') \<Longrightarrow> d' = d"
  by (auto simp: accept_def accept_replay_def accept_new_def split: option.splits if_splits)

lemma accept_made:
  assumes "store_ok d" "accept ex c rq us uo now d = (Inr (su, created), d')"
  shows "dget (submissions d') (mk_key (scope_of c) (su_id su)) = Some su
    \<and> su_operation su = rq_operation rq \<and> su_idempotency_key su = rq_idempotency_key rq"
proof (cases "dget (idempotency d) (idem_of c (rq_operation rq) (rq_idempotency_key rq))")
  case None
  then show ?thesis using assms(2)
    by (auto simp: accept_def accept_new_def accept_store_def new_submission_def split: option.splits if_splits)
next
  case (Some existing)
  let ?ik = "idem_of c (rq_operation rq) (rq_idempotency_key rq)"
  have out: "d' = d" "dget (submissions d) (mk_key (scope_of c) existing) = Some su"
    using assms(2) Some by (auto simp: accept_def accept_replay_def split: option.splits if_splits)
  have "idem_ok d" using assms(1) by (simp add: store_ok_def)
  moreover have "idem_scope ?ik = scope_of c" by (simp add: idem_of_def idem_scope_def)
  ultimately have "idem_key_of su = ?ik"
    using Some out(2) unfolding idem_ok_def by (metis option.inject)
  moreover have "su_id su = existing"
    using \<open>idem_ok d\<close> out(2) Some calculation unfolding idem_ok_def by (metis option.inject)
  ultimately show ?thesis using out by (auto simp: idem_key_of_def idem_of_def)
qed

text \<open>The durable store after a claim: as it was, or after one admission.\<close>

definition admitted_by :: "externals \<Rightarrow> ctx \<Rightarrow> string \<Rightarrow> string \<Rightarrow> instant \<Rightarrow> store option \<Rightarrow> store option \<Rightarrow> bool" where
  "admitted_by ex c u uo now d d' \<longleftrightarrow> d' = d \<or> (\<exists>work rq. d = Some work \<and> d' = Some (snd (accept ex c rq u uo now work)))"

text \<open>
  A claim files at most one new occurrence, under its logical key; its submission, if it has one, was
  admitted in the same call.
\<close>

lemma claim_cases:
  assumes "claim_firing ex c rq u uo now (s, d) = (r, (s', d'))"
  obtains (kept) "sk_firings s' = sk_firings s" "sk_leaders s' = sk_leaders s" "admitted_by ex c u uo now d d'"
  | (new) logical st sub where "firing_key (fq_schedule rq) (fq_revision rq) (fq_nominal rq) = Inr logical"
      "dget (sk_firings s) (mk_key (scope_of c) logical) = None" "sk_leaders s' = sk_leaders s"
      "sk_firings s' = dput (mk_key (scope_of c) logical)
         ((claimed_firing c rq st u now)\<lparr>fi_submission := sub\<rparr>) (sk_firings s)"
      "admitted_by ex c u uo now d d'"
      "sub = None \<or> st = F_accepted \<and> (\<exists>work su created work'. d = Some work \<and> d' = Some work'
         \<and> accept ex c (fire_request rq logical (claimed_firing c rq st u now)) u uo now work = (Inr (su, created), work')
         \<and> sub = Some (su_id su))"
proof (cases "(s', d') = (s, d)")
  case False
  obtain logical sd where fresh: "firing_key (fq_schedule rq) (fq_revision rq) (fq_nominal rq) = Inr logical"
    "dget (sk_firings s) (mk_key (scope_of c) logical) = None"
    "claim_new ex c rq logical sd u uo now (s, d) = (r, (s', d'))"
    using assms False by (auto simp: claim_firing_def split: sum.splits if_splits option.splits)
  let ?st = "claim_status c rq sd d s" let ?fi = "claimed_firing c rq ?st u now"
  obtain a d1 where adm: "admit_firing ex c rq logical ?fi u uo now d = (a, d1)" by fastforce
  have grown: "admitted_by ex c u uo now d d1"
    using adm unfolding admitted_by_def admit_firing_def
    by (cases d) (auto split: if_splits prod.splits sum.splits intro: exI[of _ "fire_request rq logical ?fi"])
  have sub: "sub = None \<or> ?st = F_accepted \<and> (\<exists>work su created work'. d = Some work \<and> d1 = Some work'
       \<and> accept ex c (fire_request rq logical ?fi) u uo now work = (Inr (su, created), work') \<and> sub = Some (su_id su))"
    if "a = Inr sub" for sub
    using adm that by (cases d) (auto simp: admit_firing_def claimed_firing_def split: if_splits prod.splits sum.splits)
  show thesis
  proof (cases a)
    case (Inl e)
    then have "s' = s \<and> admitted_by ex c u uo now d d'" using fresh(3) adm grown
      by (auto simp: claim_new_def Let_def admitted_by_def split: option.splits if_splits)
    then show thesis using kept by simp
  next
    case (Inr sub')
    let ?k = "mk_key (scope_of c) (fq_schedule rq)"
    let ?sd = "sd\<lparr>sd_next_fire_at := fq_next_fire_at rq, sd_updated_at := now\<rparr>"
    obtain x s1 where put: "store_claim (mk_key (scope_of c) logical) (?fi\<lparr>fi_submission := sub'\<rparr>) ?k ?sd s = (x, s1)"
      by fastforce
    have s1: "s1 = s \<or> sk_leaders s1 = sk_leaders s \<and>
        sk_firings s1 = dput (mk_key (scope_of c) logical) (?fi\<lparr>fi_submission := sub'\<rparr>) (sk_firings s)"
      using put by (auto simp: store_claim_def Let_def split: option.splits)
    have out: "s' = s1" "d' = d1"
      using fresh(3) adm Inr put False by (auto simp: claim_new_def Let_def split: option.splits if_splits sum.splits)
    show thesis
    proof (cases "s1 = s")
      case True
      then show thesis using kept out grown by simp
    next
      case False
      then show thesis using s1 out grown fresh(1,2) sub[OF Inr]
        by (intro new[where logical = logical and st = ?st and sub = sub']) simp_all
    qed
  qed
qed (use kept in \<open>auto simp: admitted_by_def\<close>)


subsection \<open>Histories\<close>

definition leader_le :: "leader_lease \<Rightarrow> leader_lease \<Rightarrow> bool" where
  "leader_le a b \<longleftrightarrow> fence_le (ll_token a, Some (ll_owner a)) (ll_token b, Some (ll_owner b))"

lemma leader_le_trans: "leader_le a b \<Longrightarrow> leader_le b c \<Longrightarrow> leader_le a c"
  by (auto simp: leader_le_def intro: fence_le_trans)

text \<open>What a history keeps: occurrences, the leaders' fences and the durable rows.\<close>

definition joint_le :: "joint \<Rightarrow> joint \<Rightarrow> bool" where
  "joint_le a b \<longleftrightarrow> evolves (\<lambda>_. True) keyed_firing firing_le (sk_firings (fst a)) (sk_firings (fst b))
     \<and> evolves (\<lambda>_. True) (\<lambda>_ _. True) leader_le (sk_leaders (fst a)) (sk_leaders (fst b))
     \<and> (snd a = None \<longleftrightarrow> snd b = None)
     \<and> (\<forall>w w'. snd a = Some w \<longrightarrow> snd b = Some w' \<longrightarrow> store_evolves (\<lambda>_. True) w w')"

lemma joint_le_refl [simp]: "joint_le a a"
  by (auto simp: joint_le_def)

lemma joint_le_trans:
  assumes "joint_le a b" "joint_le b d"
  shows "joint_le a d"
proof -
  note ab = assms(1)[unfolded joint_le_def] and bd = assms(2)[unfolded joint_le_def]
  have "evolves (\<lambda>_. True) keyed_firing firing_le (sk_firings (fst a)) (sk_firings (fst d))"
    using ab bd by (elim conjE) (rule evolves_trans, assumption+, (erule firing_le_trans keyed_firing_le, assumption)+)
  moreover have "evolves (\<lambda>_. True) (\<lambda>_ _. True) leader_le (sk_leaders (fst a)) (sk_leaders (fst d))"
    using ab bd by (elim conjE) (rule evolves_trans, assumption+, (erule leader_le_trans, assumption), simp)
  moreover have "store_evolves (\<lambda>_. True) w w''" if w: "snd a = Some w" "snd d = Some w''" for w w''
  proof -
    obtain w' where "snd b = Some w'" using ab w by (cases "snd b") auto
    then show ?thesis using ab bd w store_evolves_trans by blast
  qed
  ultimately show ?thesis using ab bd by (simp add: joint_le_def)
qed

lemma made_for_le: "made_for ex l a \<Longrightarrow> sub_le a b \<Longrightarrow> made_for ex l b"
  using sub_identityD[of b a] by (simp add: made_for_def sub_le_def)

lemma linked_ok_later:
  assumes "linked_ok ex (Some w) k fi" "store_evolves own w w'"
  shows "linked_ok ex (Some w') k fi"
  unfolding linked_ok_def
proof (intro allI impI)
  fix sid assume "fi_submission fi = Some sid"
  then obtain su where su: "dget (submissions w) (mk_key (key_scope k) sid) = Some su" "made_for ex (key_id k) su"
    using assms(1) by (auto simp: linked_ok_def)
  have "evolves (own \<circ> key_scope) keyed_submission sub_le (submissions w) (submissions w')"
    using assms(2) by (simp add: store_evolves_def)
  from evolves_old[OF this su(1)] obtain su' where
    "dget (submissions w') (mk_key (key_scope k) sid) = Some su'" "su' = su \<or> sub_le su su'" by auto
  then show "\<exists>work su. Some w' = Some work \<and> dget (submissions work) (mk_key (key_scope k) sid) = Some su
      \<and> made_for ex (key_id k) su" using su(2) made_for_le by blast
qed

lemma admitted_by_ok:
  assumes "admitted_by ex c u uo now d d'" "\<And>w. d = Some w \<Longrightarrow> store_ok w"
    "\<And>w. d = Some w \<Longrightarrow> dget (submissions w) (mk_key (scope_of c) u) = None \<and> dget (outboxes w) (mk_key (scope_of c) uo) = None"
  shows "(d = None \<longleftrightarrow> d' = None) \<and> (\<forall>w w'. d = Some w \<longrightarrow> d' = Some w' \<longrightarrow> store_ok w' \<and> store_evolves (\<lambda>_. True) w w')"
proof (cases "d' = d")
  case False
  then obtain work rq where d: "d = Some work" "d' = Some (snd (accept ex c rq u uo now work))"
    using assms(1) by (auto simp: admitted_by_def)
  have f: "fresh_ids (scope_of c) (Work (Accept rq u uo now)) work" using assms(3)[OF d(1)] by (simp add: fresh_ids_def)
  have "store_evolves (\<lambda>_. True) work (snd (accept ex c rq u uo now work))"
    using accept_store_ok(2)[OF assms(2)[OF d(1)] f, of ex] by (rule store_evolves_any)
  then show ?thesis using d accept_store_ok(1)[OF assms(2)[OF d(1)] f, of ex] by simp
qed (use assms(2) in auto)

text \<open>Calls that change no occurrence.\<close>

lemma schedule_ops_firings [simp]:
  "sk_firings (snd (put_schedule k sd s)) = sk_firings s" "sk_leaders (snd (put_schedule k sd s)) = sk_leaders s"
  by (simp_all add: put_schedule_def split: option.splits)

lemma schedule_ops_frame:
  "sk_firings (snd (create_schedule c rq u1 u2 now s)) = sk_firings s"
  "sk_leaders (snd (create_schedule c rq u1 u2 now s)) = sk_leaders s"
  "sk_firings (snd (set_schedule_status c sid st now s)) = sk_firings s"
  "sk_leaders (snd (set_schedule_status c sid st now s)) = sk_leaders s"
  "sk_firings (snd (amend_schedule c sid e sp next_at route pol d u now s)) = sk_firings s"
  "sk_leaders (snd (amend_schedule c sid e sp next_at route pol d u now s)) = sk_leaders s"
  "sk_firings (snd (transfer_timer_owner c sid e g w identity policy now s)) = sk_firings s"
  "sk_leaders (snd (transfer_timer_owner c sid e g w identity policy now s)) = sk_leaders s"
  by (auto simp: create_schedule_def set_schedule_status_def amend_schedule_def transfer_timer_owner_def Let_def
      split: option.splits)

lemma leader_ops_firings:
  "sk_firings (snd (acquire_leader_lease c w ttl now s)) = sk_firings s"
  "sk_firings (snd (heartbeat_leader c w t ttl now s)) = sk_firings s"
  "sk_firings (snd (release_leader c w t now s)) = sk_firings s"
  by (auto simp: acquire_leader_lease_def heartbeat_leader_def release_leader_def Let_def split: option.splits sum.splits)

lemma evolves_leader:
  "(\<And>old. dget ls k = Some old \<Longrightarrow> leader_le old l) \<Longrightarrow> evolves (\<lambda>_. True) (\<lambda>_ _. True) leader_le ls (dput k l ls)"
  by (rule evolves_dput) auto

lemma leader_ops_evolve:
  "evolves (\<lambda>_. True) (\<lambda>_ _. True) leader_le (sk_leaders s) (sk_leaders (snd (acquire_leader_lease c w ttl now s)))"
  "evolves (\<lambda>_. True) (\<lambda>_ _. True) leader_le (sk_leaders s) (sk_leaders (snd (heartbeat_leader c w t ttl now s)))"
  "evolves (\<lambda>_. True) (\<lambda>_ _. True) leader_le (sk_leaders s) (sk_leaders (snd (release_leader c w t now s)))"
  by (auto simp: acquire_leader_lease_def heartbeat_leader_def release_leader_def require_leader_def Let_def
      leader_le_def fence_le_def split: option.splits sum.splits if_splits intro!: evolves_leader)

text \<open>What one call must do: keep the invariant and extend the history.\<close>

definition joint_step_ok :: "externals \<Rightarrow> joint \<Rightarrow> joint \<Rightarrow> bool" where
  "joint_step_ok ex a b \<longleftrightarrow> joint_ok ex b \<and> joint_le a b"

lemma frame_step_ok:
  assumes "joint_ok ex (s, d)" "sk_firings s' = sk_firings s"
    "evolves (\<lambda>_. True) (\<lambda>_ _. True) leader_le (sk_leaders s) (sk_leaders s')"
  shows "joint_step_ok ex (s, d) (s', d)"
  using assms by (auto simp: joint_step_ok_def joint_ok_def joint_le_def)

lemma change_step_ok:
  assumes "joint_ok ex (s, d)"
    "one_change (case d of None \<Rightarrow> (\<lambda>_ _. False) | Some work \<Rightarrow> linkable_in ex work) c s s'"
  shows "joint_step_ok ex (s, d) (s', d)"
proof -
  have "sk_leaders s' = sk_leaders s" using assms(2) by (auto simp: one_change_def)
  moreover have "evolves (\<lambda>_. True) keyed_firing firing_le (sk_firings s) (sk_firings s')"
    by (rule evolves_mono[OF one_change_evolves[OF assms(2)]]) auto
  ultimately show ?thesis using one_change_ok[OF assms] by (auto simp: joint_step_ok_def joint_le_def)
qed

lemma claimed_keyed:
  "firing_key (fq_schedule rq) (fq_revision rq) (fq_nominal rq) = Inr logical \<Longrightarrow>
   keyed_firing (mk_key (scope_of c) logical) ((claimed_firing c rq st u now)\<lparr>fi_submission := sub\<rparr>)"
  by (simp add: keyed_firing_def claimed_firing_def logical_key_def scope_of_def)

text \<open>A claim with identifiers the durable store does not hold.\<close>

lemma claim_step_ok:
  assumes ok: "joint_ok ex (s, d)" and fresh: "fresh_claim c (Claim rq u uo) (s, d)"
    and run: "claim_firing ex c rq u uo now (s, d) = (r, (s', d'))"
  shows "joint_step_ok ex (s, d) (s', d')"
proof -
  note okD = joint_okD[OF ok]
  have new_ids: "dget (submissions w) (mk_key (scope_of c) u) = None
      \<and> dget (outboxes w) (mk_key (scope_of c) uo) = None" if "d = Some w" for w
    using fresh that by (simp add: fresh_claim_def)
  have work: "(d = None \<longleftrightarrow> d' = None)
      \<and> (\<forall>w w'. d = Some w \<longrightarrow> d' = Some w' \<longrightarrow> store_ok w' \<and> store_evolves (\<lambda>_. True) w w')"
    if "admitted_by ex c u uo now d d'"
    using admitted_by_ok[OF that okD(5) new_ids] .
  have kept_links: "linked_ok ex d' k fi" if it: "admitted_by ex c u uo now d d'" "dget (sk_firings s) k = Some fi" for k fi
  proof (cases d)
    case None
    then show ?thesis using okD(4)[OF it(2)] work[OF it(1)] by simp
  next
    case (Some w)
    then obtain w' where "d' = Some w'" using work[OF it(1)] by (cases d') auto
    then show ?thesis using okD(4)[OF it(2)] work[OF it(1)] Some linked_ok_later by blast
  qed
  have works_ok: "store_ok w'" if "admitted_by ex c u uo now d d'" "d' = Some w'" for w'
    using work[OF that(1)] that(2) by (cases d) auto
  show ?thesis
  using run proof (cases rule: claim_cases)
    case kept
    then show ?thesis using okD kept_links[OF kept(3)] works_ok[OF kept(3)] work[OF kept(3)]
      by (auto simp: joint_step_ok_def joint_ok_def joint_le_def)
  next
    case (new logical st sub)
    let ?k = "mk_key (scope_of c) logical" let ?fi = "(claimed_firing c rq st u now)\<lparr>fi_submission := sub\<rparr>"
    have keyed: "keyed_firing ?k ?fi" by (rule claimed_keyed[OF new(1)])
    have shaped: "firing_ok ?fi" using new(6) by (auto simp: firing_ok_def claimed_firing_def)
    have "linked_ok ex d' ?k ?fi"
    proof (cases sub)
      case (Some sid)
      then obtain w su created w' where adm: "d = Some w" "d' = Some w'" "sid = su_id su"
        "accept ex c (fire_request rq logical (claimed_firing c rq st u now)) u uo now w = (Inr (su, created), w')"
        using new(6) by auto
      show ?thesis using accept_made[OF okD(5)[OF adm(1)] adm(4)] adm(2,3) Some
        by (simp add: linked_ok_def made_for_def fire_request_def)
    qed (simp add: linked_ok_def)
    then have "joint_ok ex (s', d')"
      using okD keyed shaped new(4) kept_links[OF new(5)] works_ok[OF new(5)]
      by (auto simp: joint_ok_def distinct_dput)
    moreover have "evolves (\<lambda>_. True) keyed_firing firing_le (sk_firings s) (sk_firings s')"
      unfolding new(4) using new(2) keyed by (intro evolves_put_new) simp_all
    ultimately show ?thesis using work[OF new(5)] new(3) by (auto simp: joint_step_ok_def joint_le_def)
  qed
qed

text \<open>A call that is not a claim keeps the durable store and changes at most one occurrence.\<close>

lemma run_changes:
  assumes ok: "joint_ok ex (s, d)" and other: "\<And>rq u uo. call \<noteq> Claim rq u uo"
  shows "snd (schedule_run ex c call now (s, d)) = d
    \<and> (one_change (case d of None \<Rightarrow> (\<lambda>_ _. False) | Some work \<Rightarrow> linkable_in ex work) c s
          (fst (schedule_run ex c call now (s, d)))
       \<or> sk_firings (fst (schedule_run ex c call now (s, d))) = sk_firings s
         \<and> evolves (\<lambda>_. True) (\<lambda>_ _. True) leader_le (sk_leaders s) (sk_leaders (fst (schedule_run ex c call now (s, d)))))"
proof -
  note dist = joint_okD(1)[OF ok]
  note changed = acquire_preparation_change[OF dist] update_metadata_change[OF dist] release_preparation_change[OF dist]
    begin_submission_change[OF dist] reject_submission_change[OF dist] fail_compensated_change[OF dist]
    fail_preparation_change[OF dist]
  show ?thesis
  proof (cases call)
    case (Link fid sid plan owner t recovered)
    have "one_change (linkable_in ex work) c s (snd (link_firing_submission ex c fid sid plan work owner t recovered now s))" for work
      by (rule link_change[OF dist]) (use joint_okD(2)[OF ok] in \<open>simp add: keyed_firing_def\<close>)
    then show ?thesis using Link by (cases d) simp_all
  qed (use other in \<open>simp_all add: changed schedule_ops_frame leader_ops_firings leader_ops_evolve\<close>)
qed

lemma schedule_run_ok:
  assumes ok: "joint_ok ex (s, d)" and fresh: "fresh_claim c call (s, d)"
  shows "joint_step_ok ex (s, d) (schedule_run ex c call now (s, d))"
proof (cases "\<exists>rq u uo. call = Claim rq u uo")
  case True
  then obtain rq u uo where Claim: "call = Claim rq u uo" by blast
  obtain r s' d' where run: "claim_firing ex c rq u uo now (s, d) = (r, (s', d'))" by (metis surj_pair)
  show ?thesis using claim_step_ok[OF ok fresh[unfolded Claim] run] Claim run by simp
next
  case False
  obtain s' d' where run: "schedule_run ex c call now (s, d) = (s', d')" by fastforce
  show ?thesis using run_changes[OF ok, of call c now] False run change_step_ok[OF ok] frame_step_ok[OF ok] by auto
qed

lemma work_step_ok:
  assumes ok: "joint_ok ex (s, Some d)" and step: "store_step ex c op d e d'"
  shows "joint_step_ok ex (s, Some d) (s, Some d')"
proof -
  note okD = joint_okD[OF ok] and next_ok = step_ok[OF step okD(5)[OF refl]]
  show ?thesis using okD next_ok(1) store_evolves_any[OF next_ok(2)] linked_ok_later[OF _ next_ok(2)]
    by (auto simp: joint_step_ok_def joint_ok_def joint_le_def)
qed

text \<open>Every history keeps the invariant and what \<open>joint_le\<close> records.\<close>

lemma joint_history:
  assumes "joint_moves ex a b" "joint_ok ex a"
  shows "joint_ok ex b \<and> joint_le a b"
  using assms
proof (induction rule: joint_moves.induct)
  case (schedule a b c call now)
  then have "joint_step_ok ex b (schedule_run ex c call now b)"
    using schedule_run_ok[of ex "fst b" "snd b" c call now] by simp
  then show ?case using schedule joint_le_trans unfolding joint_step_ok_def by blast
next
  case (work a s d c op e d')
  then have "joint_step_ok ex (s, Some d) (s, Some d')" using work_step_ok by blast
  then show ?case using work joint_le_trans unfolding joint_step_ok_def by blast
qed simp

text \<open>A pair of stores as the deployment makes it: no schedule, and a durable store in a reachable state.\<close>

definition joint_reachable :: "externals \<Rightarrow> joint \<Rightarrow> bool" where
  "joint_reachable ex js \<longleftrightarrow> (\<exists>d. (\<forall>work. d = Some work \<longrightarrow> reachable ex work) \<and> joint_moves ex (empty_schedules, d) js)"

lemma joint_reachable_ok: "joint_reachable ex js \<Longrightarrow> joint_ok ex js"
  unfolding joint_reachable_def using joint_history joint_ok_empty reachable_ok by blast

text \<open>The leader of a scope is a fenced claim, as a submission's lease is.\<close>

definition leader_admits :: "leader_lease \<Rightarrow> string \<Rightarrow> nat \<Rightarrow> instant \<Rightarrow> bool" where
  "leader_admits l owner token now \<longleftrightarrow> leads (Some l) owner token now"

interpretation leader_claim: fenced_claim
  "\<lambda>l. (ll_token l, Some (ll_owner l))" leader_admits "\<lambda>a b. b = a \<or> leader_le a b"
  by unfold_locales (auto simp: leader_le_def leader_admits_def leads_def)

lemma leader_later:
  assumes "joint_le a b" "dget (sk_leaders (fst a)) sc = Some l"
  shows "\<exists>l'. dget (sk_leaders (fst b)) sc = Some l' \<and> (l' = l \<or> leader_le l l')"
  using assms evolves_old[of "\<lambda>_. True"] by (fastforce simp: joint_le_def)

lemma firing_later:
  assumes "joint_le a b" "dget (sk_firings (fst a)) k = Some fi"
  shows "\<exists>fi'. dget (sk_firings (fst b)) k = Some fi' \<and> firing_le fi fi'"
  using assms evolves_old[of "\<lambda>_. True" keyed_firing firing_le "sk_firings (fst a)" "sk_firings (fst b)" k fi]
  by (auto simp: joint_le_def)

end
