(* ===== verification/Schedule_Safety.thy ===== *)
theory Schedule_Safety
  imports Schedule_Invariants Durable_Samples
begin

text \<open>
  What the schedule store promises about occurrences and scheduler leaders, in every history of the
  schedule store and the durable work store together, with the deployment the witnesses evaluate.
\<close>

subsection \<open>A small deployment\<close>

fun joint_run :: "externals \<Rightarrow> (ctx \<times> schedule_call \<times> instant) list \<Rightarrow> joint \<Rightarrow> joint" where
  "joint_run ex [] js = js"
| "joint_run ex ((c, call, now) # ops) js = joint_run ex ops (schedule_run ex c call now js)"

fun joint_fresh :: "externals \<Rightarrow> (ctx \<times> schedule_call \<times> instant) list \<Rightarrow> joint \<Rightarrow> bool" where
  "joint_fresh ex [] js \<longleftrightarrow> True"
| "joint_fresh ex ((c, call, now) # ops) js \<longleftrightarrow>
     fresh_claim c call js \<and> joint_fresh ex ops (schedule_run ex c call now js)"

lemma joint_run_moves: "joint_fresh ex ops b \<Longrightarrow> joint_moves ex a b \<Longrightarrow> joint_moves ex a (joint_run ex ops b)"
  by (induction ex ops b rule: joint_run.induct) (auto intro: joint_moves.schedule)

definition joint_start :: joint where
  "joint_start = (empty_schedules, Some (empty_store (Some 5)))"

lemma joint_run_reachable: "joint_fresh ex ops joint_start \<Longrightarrow> joint_reachable ex (joint_run ex ops joint_start)"
  using joint_run_moves[OF _ joint_moves.stay, of ex ops joint_start]
  unfolding joint_reachable_def joint_start_def
  by (intro exI[of _ "Some (empty_store (Some 5))"]) (auto simp: reachable_def intro: moves.stay)

definition minute_spec :: schedule_spec where
  "minute_spec = \<lparr>sp_kind = Interval, sp_timezone = ''UTC'', sp_interval = Some 60, sp_cron = None,
     sp_misfire = Misfire_skip, sp_catch_up_max = 0, sp_overlap = Overlap_queue, sp_jitter = 0,
     sp_window_start = None, sp_window_end = None\<rparr>"

definition sample_create :: create_request where
  "sample_create = \<lparr>cq_definition = ''d'', cq_profile = ''p'', cq_spec = minute_spec, cq_schedule = Some ''z'',
     cq_policy = ''y'', cq_definition_revision = Some ''r'', cq_parameter_refs = [], cq_secret_refs = [],
     cq_revision_policy = Pinned, cq_identity = None, cq_route = ''local'',
     cq_timer_owner = Timer_local, cq_next_fire_at = Some 60\<rparr>"

definition sample_claim :: "instant \<Rightarrow> bool \<Rightarrow> firing_status option \<Rightarrow> claim_request" where
  "sample_claim t admit skip = \<lparr>fq_schedule = ''z'', fq_revision = ''rev-1'', fq_nominal = t, fq_owner = ''host1'',
     fq_token = 1, fq_plan = ''plan'', fq_next_fire_at = None, fq_require_leader = True, fq_admit = admit,
     fq_skip = skip, fq_metadata = [], fq_expected_next = None, fq_expected_owner = None,
     fq_expected_generation = None, fq_require_active = True\<rparr>"

text \<open>One schedule, whose host claims an occurrence.\<close>

definition first_calls :: "bool \<Rightarrow> firing_status option \<Rightarrow> (ctx \<times> schedule_call \<times> instant) list" where
  "first_calls admit skip =
     [(alice, Create sample_create ''1'' ''1'', 0), (alice, Acquire_leader ''host1'' 30, 1),
      (alice, Claim (sample_claim 60 admit skip) ''1'' ''1'', 2)]"

definition sample_joint :: "bool \<Rightarrow> firing_status option \<Rightarrow> joint" where
  "sample_joint admit skip = joint_run sample_ex (first_calls admit skip) joint_start"

subsection \<open>Occurrences\<close>

lemma claim_answers:
  assumes "firing_key (fq_schedule rq) (fq_revision rq) (fq_nominal rq) = Inr logical"
    "dget (sk_firings (fst js)) (mk_key (scope_of c) logical) = Some fi"
  shows "claim_firing ex c rq u uo now js = (Inr (fi, False), js)
    \<or> (\<exists>e. claim_firing ex c rq u uo now js = (Inl e, js))"
  using assms by (cases js) (simp add: claim_firing_def split: option.split)

text \<open>
  C11: An occurrence of a schedule is claimed at most once.  Once it is filed under its logical key
  (schedule, revision and nominal time), every later state of the two stores holds it with the same
  identity, and no second row for the same schedule, revision and nominal time exists in its scope; a
  repeated claim, by whichever scheduler and with whatever token, changes neither store: it answers the
  filed occurrence or refuses.
\<close>

theorem occurrence_claimed_once:
  assumes "joint_reachable ex a" "joint_moves ex a b"
    and "firing_key (fq_schedule rq) (fq_revision rq) (fq_nominal rq) = Inr logical"
    and "dget (sk_firings (fst a)) (mk_key (scope_of c) logical) = Some fi"
  shows "\<exists>fi'. dget (sk_firings (fst b)) (mk_key (scope_of c) logical) = Some fi'
    \<and> firing_identity fi' = firing_identity fi
    \<and> (\<forall>k other. dget (sk_firings (fst b)) k = Some other \<longrightarrow> key_scope k = scope_of c \<longrightarrow>
         logical_key other = Inr logical \<longrightarrow> k = mk_key (scope_of c) logical)
    \<and> (claim_firing ex c rq u uo now b = (Inr (fi', False), b)
       \<or> (\<exists>e. claim_firing ex c rq u uo now b = (Inl e, b)))"
proof -
  note later = joint_history[OF assms(2) joint_reachable_ok[OF assms(1)]]
  obtain fi' where fi': "dget (sk_firings (fst b)) (mk_key (scope_of c) logical) = Some fi'" "firing_le fi fi'"
    using firing_later[OF _ assms(4)] later by blast
  have "k = mk_key (scope_of c) logical" if "dget (sk_firings (fst b)) k = Some other" "key_scope k = scope_of c"
    "logical_key other = Inr logical" for k other
  proof -
    have "keyed_firing k other" using joint_okD(2)[of ex "fst b" "snd b"] later that(1) by simp
    then show ?thesis using that(2,3) by (cases k) (auto simp: keyed_firing_def key_scope_def key_id_def mk_key_def prod_eq_iff)
  qed
  then show ?thesis using fi' claim_answers[OF assms(3) fi'(1)] by (auto simp: firing_le_def)
qed

text \<open>
  C12: Two occurrences of a scope never share a submission of the durable store, unless their logical
  keys collide under SHA-256; and the submission an occurrence names is stored, made either by the
  occurrence's own claim or as its managed run.
\<close>

theorem submission_of_one_occurrence:
  assumes "joint_reachable ex (s, d)"
    and "dget (sk_firings s) k1 = Some f1" "dget (sk_firings s) k2 = Some f2" "key_scope k1 = key_scope k2"
    and "fi_submission f1 = Some sid" "fi_submission f2 = Some sid"
  shows "(k1 = k2 \<or> key_id k1 \<noteq> key_id k2 \<and> ex_sha256 ex (key_id k1) = ex_sha256 ex (key_id k2))
    \<and> (\<exists>work su. d = Some work \<and> dget (submissions work) (mk_key (key_scope k1) sid) = Some su
         \<and> (su_operation su = ''schedule.fire'' \<and> su_idempotency_key su = key_id k1
            \<or> su_operation su = ''run.submit'' \<and> su_idempotency_key su = schedule_idempotency ex (key_id k1)))"
proof -
  note links = joint_okD(4)[OF joint_reachable_ok[OF assms(1)]]
  obtain work su where su: "d = Some work" "dget (submissions work) (mk_key (key_scope k1) sid) = Some su"
    "made_for ex (key_id k1) su"
    using links[OF assms(2)] assms(5) by (auto simp: linked_ok_def)
  moreover have "made_for ex (key_id k2) su"
    using links[OF assms(3)] assms(4,6) su(1,2) by (auto simp: linked_ok_def)
  moreover have "key_id k1 = key_id k2 \<Longrightarrow> k1 = k2"
    using assms(4) by (cases k1; cases k2) (auto simp: key_scope_def key_id_def)
  ultimately show ?thesis by (auto simp: made_for_def schedule_idempotency_def)
qed

text \<open>
  The two ends of an occurrence are final.  An occurrence linked with a submission stays linked
  with that submission and accepted; one that was skipped or whose preparation failed keeps that status,
  never gets a submission, and has no admission attempt under way.
\<close>

theorem occurrence_end_is_final:
  assumes "joint_reachable ex a" "joint_moves ex a b" "dget (sk_firings (fst a)) k = Some fi"
  shows "\<exists>fi'. dget (sk_firings (fst b)) k = Some fi'
    \<and> (fi_submission fi \<noteq> None \<longrightarrow> fi_submission fi' = fi_submission fi \<and> fi_status fi' = F_accepted)
    \<and> (fi_status fi \<noteq> F_accepted \<longrightarrow> fi_status fi' = fi_status fi \<and> fi_submission fi' = None
         \<and> fi_attempts fi' = [] \<and> \<not> fi_started fi')"
proof -
  note ok = joint_reachable_ok[OF assms(1)]
  note later = joint_history[OF assms(2) ok]
  obtain fi' where fi': "dget (sk_firings (fst b)) k = Some fi'" "firing_le fi fi'"
    using firing_later[OF _ assms(3)] later by blast
  have "firing_ok fi" using joint_okD(3)[of ex "fst a" "snd a"] ok assms(3) by simp
  moreover have "firing_ok fi'" using joint_okD(3)[of ex "fst b" "snd b"] later fi'(1) by simp
  ultimately show ?thesis using fi' by (intro exI[of _ fi']) (auto simp: firing_le_def firing_ok_def open_firing_def)
qed

text \<open>
  A call moves one occurrence by one step of the machine \<open>firing_change\<close>, creates one, or leaves the
  occurrences alone.
\<close>

definition occurrence_step :: "externals \<Rightarrow> ctx \<Rightarrow> schedule_call \<Rightarrow> joint \<Rightarrow> schedule_store \<Rightarrow> bool" where
  "occurrence_step ex c call js s' \<longleftrightarrow> sk_firings s' = sk_firings (fst js)
     \<or> (\<exists>k fi fi'. dget (sk_firings (fst js)) k = Some fi \<and> key_scope k = scope_of c
          \<and> firing_change (case snd js of None \<Rightarrow> (\<lambda>_ _. False) | Some work \<Rightarrow> linkable_in ex work) fi fi'
          \<and> sk_firings s' = dput k fi' (sk_firings (fst js)))
     \<or> (\<exists>rq u uo k fi. call = Claim rq u uo \<and> dget (sk_firings (fst js)) k = None \<and> key_scope k = scope_of c
          \<and> keyed_firing k fi \<and> firing_ok fi \<and> fi_attempts fi = [] \<and> fi_prep_owner fi = None
          \<and> sk_firings s' = dput k fi (sk_firings (fst js)))"

lemma change_occurrence_step:
  "one_change (case d of None \<Rightarrow> (\<lambda>_ _. False) | Some work \<Rightarrow> linkable_in ex work) c s s' \<Longrightarrow>
   occurrence_step ex c call (s, d) s'"
  unfolding one_change_def occurrence_step_def by fastforce

lemma same_occurrence_step: "sk_firings s' = sk_firings s \<Longrightarrow> occurrence_step ex c call (s, d) s'"
  by (simp add: occurrence_step_def)

lemma claim_occurrence_step:
  assumes "claim_firing ex c rq u uo now (s, d) = (r, (s', d'))"
  shows "occurrence_step ex c (Claim rq u uo) (s, d) s'"
  using assms
proof (cases rule: claim_cases)
  case (new logical st sub)
  let ?fi = "(claimed_firing c rq st u now)\<lparr>fi_submission := sub\<rparr>"
  have "keyed_firing (mk_key (scope_of c) logical) ?fi" by (rule claimed_keyed[OF new(1)])
  moreover have "firing_ok ?fi" using new(6) by (auto simp: firing_ok_def claimed_firing_def)
  ultimately have "\<exists>k fi. dget (sk_firings s) k = None \<and> key_scope k = scope_of c \<and> keyed_firing k fi
      \<and> firing_ok fi \<and> fi_attempts fi = [] \<and> fi_prep_owner fi = None \<and> sk_firings s' = dput k fi (sk_firings s)"
    using new(2,4) by (intro exI[of _ "mk_key (scope_of c) logical"] exI[of _ ?fi]) (simp add: claimed_firing_def)
  then show ?thesis by (simp add: occurrence_step_def)
qed (rule same_occurrence_step)

text \<open>
  C13: The occurrences of a schedule store are a set of state machines.  Every call of the store, in a
  reachable state, leaves them as they are, moves exactly one occurrence of the caller's scope by one step of
  the occurrence machine (prepare, annotate, give back, begin or drop an admission attempt, fail, link with
  an existing submission made for it), or, for a claim only, files one new occurrence under its logical key.
\<close>

theorem calls_step_the_machine:
  assumes "joint_reachable ex js"
  shows "occurrence_step ex c call js (fst (schedule_run ex c call now js))"
proof -
  obtain s d where js: "js = (s, d)" by (cases js)
  have ok: "joint_ok ex (s, d)" using joint_reachable_ok[OF assms] js by simp
  show ?thesis
  proof (cases "\<exists>rq u uo. call = Claim rq u uo")
    case True
    then obtain rq u uo where Claim: "call = Claim rq u uo" by blast
    obtain r s' d' where run: "claim_firing ex c rq u uo now (s, d) = (r, (s', d'))" by (metis surj_pair)
    show ?thesis using claim_occurrence_step[OF run] Claim run js by simp
  next
    case False
    then show ?thesis using run_changes[OF ok, of call c now] change_occurrence_step same_occurrence_step js by blast
  qed
qed

subsection \<open>The scheduler leader\<close>

lemma require_leader_admits:
  "require_leader c ow t now s = Inr l \<longleftrightarrow>
   dget (sk_leaders s) (scope_of c) = Some l \<and> leader_admits l ow t now"
  by (auto simp: require_leader_def leader_admits_def split: option.split)

lemma not_leader_refused:
  assumes "\<And>l. dget (sk_leaders (fst js)) (scope_of c) = Some l \<Longrightarrow> \<not> leader_admits l ow t now"
  shows "(\<exists>e. require_leader c ow t now (fst js) = Inl e)
    \<and> (\<exists>e. heartbeat_leader c ow t ttl now (fst js) = (Inl e, fst js))
    \<and> (\<exists>e. release_leader c ow t now (fst js) = (Inl e, fst js))
    \<and> (fq_require_leader rq \<longrightarrow> fq_owner rq = ow \<longrightarrow> fq_token rq = t \<longrightarrow>
         (\<exists>e. claim_firing ex c rq u uo now js = (Inl e, js)))"
proof -
  have no: "\<not> leads (dget (sk_leaders (fst js)) (scope_of c)) ow t now"
    using assms by (cases "dget (sk_leaders (fst js)) (scope_of c)") (simp_all add: leader_admits_def leads_def)
  then obtain e where e: "require_leader c ow t now (fst js) = Inl e"
    unfolding require_leader_def by (cases "dget (sk_leaders (fst js)) (scope_of c)") auto
  moreover have "\<exists>e. claim_firing ex c rq u uo now js = (Inl e, js)"
    if "fq_require_leader rq" "fq_owner rq = ow" "fq_token rq = t"
    using no that by (cases js) (auto simp: claim_firing_def split: sum.split)
  ultimately show ?thesis by (simp add: heartbeat_leader_def release_leader_def)
qed

text \<open>
  A deposed scheduler leader stays deposed.  After another owner has held the lease of a scope, the
  earlier leader's token is smaller and refused in every later state: it renews and releases nothing, and
  its claims of occurrences change neither store.
\<close>

theorem deposed_leader_refused:
  assumes "joint_reachable ex a" "require_leader c ow t now (fst a) = Inr l"
    and "joint_moves ex a b" "require_leader c ow' t' now' (fst b) = Inr l'" "ow' \<noteq> ow"
    and "joint_moves ex b d"
  shows "t < t' \<and> (\<exists>e. require_leader c ow t now2 (fst d) = Inl e)
    \<and> (\<exists>e. heartbeat_leader c ow t ttl now2 (fst d) = (Inl e, fst d))
    \<and> (\<exists>e. release_leader c ow t now2 (fst d) = (Inl e, fst d))
    \<and> (fq_require_leader rq \<longrightarrow> fq_owner rq = ow \<longrightarrow> fq_token rq = t \<longrightarrow>
         (\<exists>e. claim_firing ex c rq u uo now2 d = (Inl e, d)))"
proof -
  note ab = joint_history[OF assms(3) joint_reachable_ok[OF assms(1)]]
  note bd = joint_history[OF assms(6) conjunct1[OF ab]]
  have l: "dget (sk_leaders (fst a)) (scope_of c) = Some l" "leader_admits l ow t now"
    using assms(2) by (simp_all add: require_leader_admits)
  have l': "dget (sk_leaders (fst b)) (scope_of c) = Some l'" "leader_admits l' ow' t' now'"
    using assms(4) by (simp_all add: require_leader_admits)
  have up: "l' = l \<or> leader_le l l'" using leader_later[OF conjunct2[OF ab] l(1)] l'(1) by auto
  have "\<not> leader_admits l2 ow t now2" if "dget (sk_leaders (fst d)) (scope_of c) = Some l2" for l2
    using leader_claim.superseded[OF l(2) up l'(2)] leader_later[OF conjunct2[OF bd] l'(1)] that assms(5) by auto
  then show ?thesis using leader_claim.newer_token[OF l(2) up l'(2) assms(5)] not_leader_refused by blast
qed

subsection \<open>The properties on the sample deployment\<close>

text \<open>One occurrence is admitted at once, the same one is only filed, or it is skipped.\<close>

definition sample_key :: key where
  "sample_key = mk_key (scope_of alice) ''z:rev-1:1970-01-01T00:00:00.000060Z''"

definition sample_firing :: "bool \<Rightarrow> firing_status option \<Rightarrow> firing" where
  "sample_firing admit skip = the (dget (sk_firings (fst (sample_joint admit skip))) sample_key)"

text \<open>The leader's lease runs out and a second host takes over.\<close>

definition second_leader :: joint where
  "second_leader = joint_run sample_ex [(alice, Acquire_leader ''host2'' 30, 40000000)] (sample_joint True None)"

lemma sample_joint_fresh:
  "joint_fresh sample_ex (first_calls True None) joint_start"
  "joint_fresh sample_ex (first_calls False (Some F_skipped_misfire)) joint_start"
  "joint_fresh sample_ex [(alice, Acquire_leader ''host2'' 30, 40000000)] (sample_joint True None)"
  by code_simp+

lemma sample_joint_reachable:
  "joint_reachable sample_ex (sample_joint True None)"
  "joint_reachable sample_ex (sample_joint False (Some F_skipped_misfire))"
  unfolding sample_joint_def by (rule joint_run_reachable, rule sample_joint_fresh)+

lemma second_leader_moves: "joint_moves sample_ex (sample_joint True None) second_leader"
  unfolding second_leader_def by (rule joint_run_moves[OF sample_joint_fresh(3) joint_moves.stay])

lemma sample_joint_rows:
  "dget (sk_firings (fst (sample_joint True None))) sample_key = Some (sample_firing True None)"
  "dget (sk_firings (fst (sample_joint False (Some F_skipped_misfire)))) sample_key
     = Some (sample_firing False (Some F_skipped_misfire))"
  "fi_submission (sample_firing True None) = Some ''fire-1''"
  "fi_status (sample_firing False (Some F_skipped_misfire)) = F_skipped_misfire"
  "firing_key ''z'' ''rev-1'' 60 = Inr (key_id sample_key)"
  "key_scope sample_key = scope_of alice"
  by code_simp+

lemma sample_key_of: "sample_key = mk_key (scope_of alice) (key_id sample_key)"
  by code_simp

theorem occurrence_claimed_once_witness:
  "\<exists>fi'. dget (sk_firings (fst second_leader)) sample_key = Some fi'
    \<and> firing_identity fi' = firing_identity (sample_firing True None)
    \<and> (claim_firing sample_ex alice (sample_claim 60 True None) ''2'' ''2'' 50 second_leader = (Inr (fi', False), second_leader)
       \<or> (\<exists>e. claim_firing sample_ex alice (sample_claim 60 True None) ''2'' ''2'' 50 second_leader = (Inl e, second_leader)))"
  using occurrence_claimed_once[OF sample_joint_reachable(1) second_leader_moves,
      of "sample_claim 60 True None" "key_id sample_key" alice "sample_firing True None" "''2''" "''2''" 50]
    sample_joint_rows sample_key_of by (auto simp: sample_claim_def)

theorem submission_of_one_occurrence_witness:
  "\<exists>work su. snd (sample_joint True None) = Some work
    \<and> dget (submissions work) (mk_key (key_scope sample_key) ''fire-1'') = Some su"
  using submission_of_one_occurrence[of sample_ex "fst (sample_joint True None)" "snd (sample_joint True None)"
      sample_key "sample_firing True None" sample_key "sample_firing True None" "''fire-1''"]
    sample_joint_reachable(1) sample_joint_rows by auto

theorem occurrence_end_is_final_witness:
  "\<exists>fi'. dget (sk_firings (fst (sample_joint False (Some F_skipped_misfire)))) sample_key = Some fi'
    \<and> fi_status fi' = F_skipped_misfire \<and> fi_submission fi' = None"
  using occurrence_end_is_final[OF sample_joint_reachable(2) joint_moves.stay sample_joint_rows(2)]
    sample_joint_rows(4) by auto

lemma sample_leaders:
  "require_leader alice ''host1'' 1 2 (fst (sample_joint True None)) =
     Inr (the (dget (sk_leaders (fst (sample_joint True None))) (scope_of alice)))"
  "require_leader alice ''host2'' 2 40000001 (fst second_leader) =
     Inr (the (dget (sk_leaders (fst second_leader)) (scope_of alice)))"
  by code_simp+

theorem calls_step_the_machine_witness:
  "occurrence_step sample_ex alice (Acquire_preparation ''fire-1'' ''host1'' 30) (sample_joint True None)
     (fst (schedule_run sample_ex alice (Acquire_preparation ''fire-1'' ''host1'' 30) 3 (sample_joint True None)))"
  by (rule calls_step_the_machine[OF sample_joint_reachable(1)])

theorem deposed_leader_refused_witness:
  "(1::nat) < 2 \<and> (\<exists>e. heartbeat_leader alice ''host1'' 1 30 40000002 (fst second_leader) = (Inl e, fst second_leader))
    \<and> (\<exists>e. claim_firing sample_ex alice (sample_claim 60 True None) ''2'' ''2'' 40000002 second_leader = (Inl e, second_leader))"
  using deposed_leader_refused[OF sample_joint_reachable(1) sample_leaders(1) second_leader_moves sample_leaders(2)
      _ joint_moves.stay, of 40000002 30 "sample_claim 60 True None" "''2''" "''2''"]
  by (auto simp: sample_claim_def)

end
