(* ===== verification/Quota.thy ===== *)
theory Quota
  imports Durable_Records Canonical_Json
begin

text \<open>
  The quota provider of the control plane (\<open>control_plane/quota_memory.py\<close>,
  \<open>control_plane/quota_models.py\<close>): admission against per-workspace budgets, keyed reservations
  with their claimants, weighted round robin under shared pressure, and the suspension switches.
  The provider's lock makes each call atomic.  The clock and the fresh identifier of a reservation
  are arguments of the operations that read them.  The set of a reservation's claimants is the list
  of its elements.
\<close>

subsection \<open>Records\<close>

datatype quota_resource =
  Res_concurrency | Res_preview | Res_events | Res_repair | Res_storage_bytes

datatype quota_effect = Q_allow | Q_deny | Q_suspended | Q_contained

record quota_budget =
  qb_resource :: quota_resource
  qb_limit :: int
  qb_weight :: int

record quota_state =
  qs_tenant :: string
  qs_workspace :: string
  qs_suspended :: bool
  qs_contained :: bool
  qs_usage :: "(quota_resource, int) pydict"
  qs_updated_at :: instant

record quota_decision =
  qd_effect :: quota_effect
  qd_resource :: quota_resource
  qd_limit :: int
  qd_used :: int
  qd_reason :: string
  qd_metadata :: "(string, json) pydict"

type_synonym admission = "quota_resource \<times> int \<times> quota_decision"

record quota =
  q_unavailable :: bool
  q_shared_pressure :: bool
  q_default_limits :: "(quota_resource, int) pydict"
  q_weights :: "(scope, int) pydict"
  q_states :: "(scope, quota_state) pydict"
  q_admissions :: "(key, admission) pydict"
  q_releases :: "(key, quota_resource \<times> int) pydict"
  q_claims :: "(key, string list) pydict"
  q_rr_cursor :: int

subsection \<open>Availability, budgets and the state of a workspace\<close>

definition quota_outage :: cp_error where
  "quota_outage = Cp_error ''PMCP503'' 503 ''quota provider unavailable''"

definition limit_of :: "quota \<Rightarrow> quota_resource \<Rightarrow> int" where
  "limit_of q r = (case dget (q_default_limits q) r of None \<Rightarrow> 0 | Some n \<Rightarrow> n)"

definition weight_of :: "quota \<Rightarrow> scope \<Rightarrow> int" where
  "weight_of q sc = (case dget (q_weights q) sc of None \<Rightarrow> 1 | Some n \<Rightarrow> n)"

definition get_budget :: "ctx \<Rightarrow> quota_resource \<Rightarrow> quota \<Rightarrow> (quota, quota_budget) outcome" where
  "get_budget c r q = (if q_unavailable q then raise_in q quota_outage
     else return_in q \<lparr>qb_resource = r, qb_limit = limit_of q r, qb_weight = weight_of q (scope_of c)\<rparr>)"

definition new_quota_state :: "ctx \<Rightarrow> instant \<Rightarrow> quota_state" where
  "new_quota_state c now = \<lparr>qs_tenant = cx_tenant c, qs_workspace = cx_workspace c,
     qs_suspended = False, qs_contained = False, qs_usage = [], qs_updated_at = now\<rparr>"

definition ensure_state :: "ctx \<Rightarrow> instant \<Rightarrow> quota \<Rightarrow> quota_state \<times> quota" where
  "ensure_state c now q = (case dget (q_states q) (scope_of c) of
     Some st \<Rightarrow> (st, q)
   | None \<Rightarrow> (let st = new_quota_state c now in
       (st, q\<lparr>q_states := dput (scope_of c) st (q_states q)\<rparr>)))"

definition get_state :: "ctx \<Rightarrow> instant \<Rightarrow> quota \<Rightarrow> (quota, quota_state) outcome" where
  "get_state c now q = (if q_unavailable q then raise_in q quota_outage
     else (let (st, q') = ensure_state c now q in return_in q' st))"

definition set_shared_pressure :: "bool \<Rightarrow> quota \<Rightarrow> quota" where
  "set_shared_pressure enabled q = q\<lparr>q_shared_pressure := enabled\<rparr>"

definition used_in :: "quota_state \<Rightarrow> quota_resource \<Rightarrow> int" where
  "used_in st r = (case dget (qs_usage st) r of None \<Rightarrow> 0 | Some n \<Rightarrow> n)"

subsection \<open>Weighted round robin\<close>

text \<open>
  The scopes that compete for a resource: those that are neither suspended nor contained, have
  headroom and either ask or already use the resource, in the order of their names.  The ring
  holds each of them as often as its weight says.
\<close>

definition competes :: "quota \<Rightarrow> scope \<Rightarrow> quota_resource \<Rightarrow> int \<Rightarrow> scope \<times> quota_state \<Rightarrow> bool" where
  "competes q sc r units row = (let st = snd row; used = used_in st r in
     \<not> qs_suspended st \<and> \<not> qs_contained st
     \<and> used + (if fst row = sc then units else 1) \<le> limit_of q r
     \<and> (fst row = sc \<or> 0 < used))"

definition eligible_scopes :: "quota \<Rightarrow> scope \<Rightarrow> quota_resource \<Rightarrow> int \<Rightarrow> scope list" where
  "eligible_scopes q sc r units = map fst (filter (competes q sc r units) (sort_key fst (q_states q)))"

definition ring :: "quota \<Rightarrow> scope list \<Rightarrow> scope list" where
  "ring q keys = concat (map (\<lambda>k. replicate (nat (max 1 (weight_of q k))) k) keys)"

definition wrr_allows :: "quota \<Rightarrow> scope \<Rightarrow> quota_resource \<Rightarrow> int \<Rightarrow> bool \<times> quota" where
  "wrr_allows q sc r units = (let eligible = eligible_scopes q sc r units in
     if eligible = [] then (False, q)
     else if length eligible = 1 then (hd eligible = sc, q)
     else (let turns = ring q eligible; n = int (length turns); idx = q_rr_cursor q mod n in
       (turns ! nat idx = sc, q\<lparr>q_rr_cursor := (idx + 1) mod n\<rparr>)))"

subsection \<open>Admission\<close>

definition reservation_of :: "quota_decision \<Rightarrow> string \<Rightarrow> string" where
  "reservation_of d k = (case dget (qd_metadata d) ''reservation_key'' of
     Some (JStr r) \<Rightarrow> r | _ \<Rightarrow> k)"

definition release_name :: "string \<Rightarrow> string" where
  "release_name reservation = reservation @ '':release''"

definition refusal :: "quota_effect \<Rightarrow> quota_resource \<Rightarrow> int \<Rightarrow> int \<Rightarrow> string \<Rightarrow> (string, json) pydict
    \<Rightarrow> quota_decision" where
  "refusal eff r lim used reason md = \<lparr>qd_effect = eff, qd_resource = r, qd_limit = lim,
     qd_used = used, qd_reason = reason, qd_metadata = md\<rparr>"

definition admitted :: "ctx \<Rightarrow> quota_resource \<Rightarrow> int \<Rightarrow> string option \<Rightarrow> string \<Rightarrow> int \<Rightarrow> quota
    \<Rightarrow> quota_decision" where
  "admitted c r units idem uuid used q = \<lparr>qd_effect = Q_allow, qd_resource = r,
     qd_limit = limit_of q r, qd_used = used + units, qd_reason = ''admitted'',
     qd_metadata = [(''rr_cursor'', JInt (q_rr_cursor q)), (''weight'', JInt (weight_of q (scope_of c))),
       (''shared_pressure'', JBool (q_shared_pressure q))]
       @ (case idem of None \<Rightarrow> [] | Some k \<Rightarrow> [(''reservation_key'', JStr (k @ '':'' @ uuid))])\<rparr>"

definition add_usage :: "ctx \<Rightarrow> quota_state \<Rightarrow> quota_resource \<Rightarrow> int \<Rightarrow> instant \<Rightarrow> quota \<Rightarrow> quota" where
  "add_usage c st r used now q = q\<lparr>q_states := dput (scope_of c)
     (st\<lparr>qs_usage := dput r used (qs_usage st), qs_updated_at := now\<rparr>) (q_states q)\<rparr>"

definition record_admission :: "ctx \<Rightarrow> quota_resource \<Rightarrow> int \<Rightarrow> string option \<Rightarrow> string option
    \<Rightarrow> quota_decision \<Rightarrow> quota \<Rightarrow> quota" where
  "record_admission c r units idem claim d q = (case idem of None \<Rightarrow> q
     | Some k \<Rightarrow> q\<lparr>q_admissions := dput (mk_key (scope_of c) k) (r, units, d) (q_admissions q),
         q_claims := dput (mk_key (scope_of c) (release_name (reservation_of d k)))
           [of_opt claim] (q_claims q)\<rparr>)"

definition admit_new :: "ctx \<Rightarrow> quota_resource \<Rightarrow> int \<Rightarrow> string option \<Rightarrow> string option \<Rightarrow> string
    \<Rightarrow> instant \<Rightarrow> quota \<Rightarrow> (quota, quota_decision) outcome" where
  "admit_new c r units idem claim uuid now q =
     (let (st, q1) = ensure_state c now q; lim = limit_of q1 r; used = used_in st r in
      if qs_suspended st then return_in q1 (refusal Q_suspended r lim used ''workspace suspended'' [])
      else if qs_contained st
      then return_in q1 (refusal Q_contained r lim used ''emergency containment active'' [])
      else if lim < used + units then return_in q1 (refusal Q_deny r lim used ''quota exceeded'' [])
      else (let (turn, q2) = (if q_shared_pressure q1 then wrr_allows q1 (scope_of c) r units else (True, q1)) in
        if \<not> turn then return_in q2 (refusal Q_deny r lim used ''fairness deferred''
          [(''rr_cursor'', JInt (q_rr_cursor q2)), (''weight'', JInt (weight_of q2 (scope_of c))),
           (''shared_pressure'', JBool True)])
        else (let d = admitted c r units idem uuid used q2 in
          return_in (record_admission c r units idem claim d (add_usage c st r (used + units) now q2)) d)))"

text \<open>
  A keyed admission whose reservation has not been released answers the earlier decision and
  registers one more claimant; the empty claim stands for the reservation's own owner.
\<close>

definition join_claim :: "key \<Rightarrow> string option \<Rightarrow> quota \<Rightarrow> quota" where
  "join_claim rk claim q = q\<lparr>q_claims := dput rk
     (List.insert (of_opt claim) (case dget (q_claims q) rk of None \<Rightarrow> [[]] | Some cs \<Rightarrow> cs)) (q_claims q)\<rparr>"

definition admit :: "ctx \<Rightarrow> quota_resource \<Rightarrow> int \<Rightarrow> string option \<Rightarrow> string option \<Rightarrow> string
    \<Rightarrow> instant \<Rightarrow> quota \<Rightarrow> (quota, quota_decision) outcome" where
  "admit c r units idem claim uuid now q =
     (if q_unavailable q then raise_in q quota_outage
      else if units < 1 then raise_in q (Conflict ''units must be positive'')
      else if claim = Some [] \<or> claim \<noteq> None \<and> idem = None
      then raise_in q (Conflict ''Quota claims require a keyed admission'')
      else (case idem of
        None \<Rightarrow> admit_new c r units idem claim uuid now q
      | Some k \<Rightarrow> (case dget (q_admissions q) (mk_key (scope_of c) k) of
          None \<Rightarrow> admit_new c r units idem claim uuid now q
        | Some (r', units', d) \<Rightarrow>
            if (r', units') \<noteq> (r, units)
            then raise_in q (Conflict ''Quota idempotency key reused with different admission'')
            else (let rk = mk_key (scope_of c) (release_name (reservation_of d k)) in
              if dget (q_releases q) rk = None then return_in (join_claim rk claim q) d
              else admit_new c r units idem claim uuid now q))))"

subsection \<open>Release and the switches\<close>

definition ends_with :: "string \<Rightarrow> string \<Rightarrow> bool" where
  "ends_with suffix s \<longleftrightarrow> length suffix \<le> length s \<and> drop (length s - length suffix) s = suffix"

definition drop_usage :: "ctx \<Rightarrow> quota_resource \<Rightarrow> int \<Rightarrow> string option \<Rightarrow> instant \<Rightarrow> quota
    \<Rightarrow> (quota, quota_state) outcome" where
  "drop_usage c r units idem now q =
     (let (st, q1) = ensure_state c now q;
          st' = st\<lparr>qs_usage := dput r (max 0 (used_in st r - units)) (qs_usage st), qs_updated_at := now\<rparr>;
          q2 = q1\<lparr>q_states := dput (scope_of c) st' (q_states q1)\<rparr>
      in return_in (case idem of None \<Rightarrow> q2
        | Some k \<Rightarrow> q2\<lparr>q_releases := dput (mk_key (scope_of c) k) (r, units) (q_releases q2),
            q_claims := dpop (mk_key (scope_of c) k) (q_claims q2)\<rparr>) st')"

definition release_quota :: "ctx \<Rightarrow> quota_resource \<Rightarrow> int \<Rightarrow> string option \<Rightarrow> string option \<Rightarrow> instant
    \<Rightarrow> quota \<Rightarrow> (quota, quota_state) outcome" where
  "release_quota c r units idem claim now q =
     (if q_unavailable q then raise_in q quota_outage
      else if claim = Some [] \<or> claim \<noteq> None \<and> (idem = None \<or> \<not> ends_with '':release'' (of_opt idem))
      then raise_in q (Conflict ''Quota claims require a keyed release'')
      else (case idem of
        None \<Rightarrow> drop_usage c r units idem now q
      | Some k \<Rightarrow> (let rk = mk_key (scope_of c) k in
          case dget (q_releases q) rk of
            Some prior \<Rightarrow> if prior \<noteq> (r, units)
              then raise_in q (Conflict ''Quota release key reused with different release'')
              else (let (st, q1) = ensure_state c now q in return_in q1 st)
          | None \<Rightarrow> (case claim of
              None \<Rightarrow> drop_usage c r units idem now q
            | Some w \<Rightarrow> (case dget (q_claims q) rk of
                None \<Rightarrow> (let (st, q1) = ensure_state c now q in return_in q1 st)
              | Some cs \<Rightarrow>
                  if w \<notin> set cs then (let (st, q1) = ensure_state c now q in return_in q1 st)
                  else (let q' = q\<lparr>q_claims := dput rk (filter (\<lambda>x. x \<noteq> w) cs) (q_claims q)\<rparr> in
                    if filter (\<lambda>x. x \<noteq> w) cs \<noteq> [] then (let (st, q1) = ensure_state c now q' in return_in q1 st)
                    else drop_usage c r units idem now q'))))))"

definition set_state_flag :: "ctx \<Rightarrow> (quota_state \<Rightarrow> quota_state) \<Rightarrow> instant \<Rightarrow> quota
    \<Rightarrow> (quota, quota_state) outcome" where
  "set_state_flag c f now q = (if q_unavailable q then raise_in q quota_outage
     else (let (st, q1) = ensure_state c now q; st' = (f st)\<lparr>qs_updated_at := now\<rparr> in
       return_in (q1\<lparr>q_states := dput (scope_of c) st' (q_states q1)\<rparr>) st'))"

definition set_suspended :: "ctx \<Rightarrow> bool \<Rightarrow> instant \<Rightarrow> quota \<Rightarrow> (quota, quota_state) outcome" where
  "set_suspended c b = set_state_flag c (qs_suspended_update (\<lambda>_. b))"

definition set_contained :: "ctx \<Rightarrow> bool \<Rightarrow> instant \<Rightarrow> quota \<Rightarrow> (quota, quota_state) outcome" where
  "set_contained c b = set_state_flag c (qs_contained_update (\<lambda>_. b))"

end
