(* ===== verification/Quota_Invariants.thy ===== *)
theory Quota_Invariants
  imports Quota
begin

text \<open>
  What the quota provider keeps: a workspace never uses more than its limit, the usage of a
  resource is exactly what the unreleased reservations hold, and a scope that keeps asking under
  shared pressure gets its turn within one round of the ring.
\<close>

declare split_paired_All [simp del] split_paired_Ex [simp del]

subsection \<open>Calls and histories\<close>

datatype quota_call =
    Admit ctx quota_resource int "string option" "string option" string instant
  | Release ctx quota_resource int "string option" "string option" instant
  | Set_suspended ctx bool instant
  | Set_contained ctx bool instant
  | Get_state ctx instant
  | Shared_pressure bool
  | Outage bool

fun quota_step :: "quota_call \<Rightarrow> quota \<Rightarrow> quota" where
  "quota_step (Admit c r units idem claim uuid now) q = snd (admit c r units idem claim uuid now q)"
| "quota_step (Release c r units idem claim now) q = snd (release_quota c r units idem claim now q)"
| "quota_step (Set_suspended c b now) q = snd (set_suspended c b now q)"
| "quota_step (Set_contained c b now) q = snd (set_contained c b now q)"
| "quota_step (Get_state c now) q = snd (get_state c now q)"
| "quota_step (Shared_pressure b) q = set_shared_pressure b q"
| "quota_step (Outage b) q = q\<lparr>q_unavailable := b\<rparr>"

definition fresh_provider :: "quota \<Rightarrow> bool" where
  "fresh_provider q \<longleftrightarrow> q_states q = [] \<and> q_admissions q = [] \<and> q_releases q = [] \<and> q_claims q = []"

text \<open>The states reached from a fresh provider by calls that keep a client discipline.\<close>

inductive reached :: "(quota \<Rightarrow> quota_call \<Rightarrow> bool) \<Rightarrow> quota \<Rightarrow> bool" for ok where
  start: "fresh_provider q \<Longrightarrow> reached ok q"
| call: "reached ok q \<Longrightarrow> ok q call \<Longrightarrow> reached ok (quota_step call q)"

definition usage_of :: "quota \<Rightarrow> scope \<Rightarrow> quota_resource \<Rightarrow> int" where
  "usage_of q sc r = (case dget (q_states q) sc of None \<Rightarrow> 0 | Some st \<Rightarrow> used_in st r)"

text \<open>The units of a release are not checked by the provider; clients pass a natural number.\<close>

fun counts_down :: "quota \<Rightarrow> quota_call \<Rightarrow> bool" where
  "counts_down q (Release c r units idem claim now) = (0 \<le> units)"
| "counts_down q _ = True"

text \<open>
  A client that keeps its reservations: every admission is keyed and gets a fresh identifier, and
  a release names the reservation of an admission, its resource and its units.
\<close>

definition names_reservation :: "quota \<Rightarrow> ctx \<Rightarrow> quota_resource \<Rightarrow> int \<Rightarrow> string \<Rightarrow> bool" where
  "names_reservation q c r units name \<longleftrightarrow> (\<exists>k d.
     dget (q_admissions q) (mk_key (scope_of c) k) = Some (r, units, d)
     \<and> name = release_name (reservation_of d k))"

fun keeps_reservations :: "quota \<Rightarrow> quota_call \<Rightarrow> bool" where
  "keeps_reservations q (Admit c r units idem claim uuid now) \<longleftrightarrow>
     (case idem of None \<Rightarrow> False | Some k \<Rightarrow>
        (let name = release_name (k @ '':'' @ uuid) in
         dget (q_releases q) (mk_key (scope_of c) name) = None
         \<and> \<not> (\<exists>r units. names_reservation q c r units name)))"
| "keeps_reservations q (Release c r units idem claim now) \<longleftrightarrow>
     (case idem of None \<Rightarrow> False | Some name \<Rightarrow> names_reservation q c r units name)"
| "keeps_reservations q _ = True"

subsection \<open>Usage within the limit\<close>

lemma limit_of_upd [simp]:
  "limit_of (q\<lparr>q_states := a\<rparr>) r = limit_of q r" "limit_of (q\<lparr>q_admissions := b\<rparr>) r = limit_of q r"
  "limit_of (q\<lparr>q_releases := d\<rparr>) r = limit_of q r" "limit_of (q\<lparr>q_claims := e\<rparr>) r = limit_of q r"
  "limit_of (q\<lparr>q_rr_cursor := f\<rparr>) r = limit_of q r"
  by (simp_all add: limit_of_def)

lemma usage_of_upd [simp]:
  "usage_of (q\<lparr>q_admissions := b\<rparr>) sc r = usage_of q sc r" "usage_of (q\<lparr>q_releases := d\<rparr>) sc r = usage_of q sc r"
  "usage_of (q\<lparr>q_claims := e\<rparr>) sc r = usage_of q sc r" "usage_of (q\<lparr>q_rr_cursor := f\<rparr>) sc r = usage_of q sc r"
  "usage_of (q\<lparr>q_unavailable := g\<rparr>) sc r = usage_of q sc r"
  "usage_of (q\<lparr>q_shared_pressure := h\<rparr>) sc r = usage_of q sc r"
  by (simp_all add: usage_of_def)

lemma used_in_new [simp]: "used_in (new_quota_state c now) r = 0"
  by (simp add: used_in_def new_quota_state_def)

lemma used_in_upd [simp]:
  "used_in (st\<lparr>qs_usage := dput r u (qs_usage st), qs_updated_at := now\<rparr>) r' = (if r' = r then u else used_in st r')"
  "used_in (qs_suspended_update f st) r = used_in st r" "used_in (qs_contained_update f st) r = used_in st r"
  "used_in (st\<lparr>qs_usage := dput r u (qs_usage st)\<rparr>) r' = (if r' = r then u else used_in st r')"
  "used_in (st\<lparr>qs_updated_at := now\<rparr>) r = used_in st r"
  by (simp_all add: used_in_def)

lemma ensure_state_cases:
  assumes "ensure_state c now q = (st, q')"
  shows "dget (q_states q') (scope_of c) = Some st" "used_in st r = usage_of q (scope_of c) r"
    and "\<exists>states. q' = q\<lparr>q_states := states\<rparr>" "usage_of q' = usage_of q"
proof -
  have "(st, q') = (case dget (q_states q) (scope_of c) of Some st \<Rightarrow> (st, q)
     | None \<Rightarrow> (new_quota_state c now, q\<lparr>q_states := dput (scope_of c) (new_quota_state c now) (q_states q)\<rparr>))"
    using assms by (auto simp: ensure_state_def Let_def split: option.splits)
  moreover have "\<exists>states. q = q\<lparr>q_states := states\<rparr>" by (rule exI[of _ "q_states q"]) simp
  ultimately have *: "dget (q_states q') (scope_of c) = Some st \<and> used_in st r = usage_of q (scope_of c) r
      \<and> (\<exists>states. q' = q\<lparr>q_states := states\<rparr>) \<and> usage_of q' sc r' = usage_of q sc r'" for sc r'
    by (cases "dget (q_states q) (scope_of c)"; cases "sc = scope_of c") (auto simp: usage_of_def)
  then show "dget (q_states q') (scope_of c) = Some st" "used_in st r = usage_of q (scope_of c) r"
    "\<exists>states. q' = q\<lparr>q_states := states\<rparr>" by blast+
  show "usage_of q' = usage_of q" using * by (intro ext) blast
qed

lemma cursor_same: "\<exists>n. q = q\<lparr>q_rr_cursor := n\<rparr>"
proof
  show "q = q\<lparr>q_rr_cursor := q_rr_cursor q\<rparr>" by simp
qed

lemma wrr_allows_cursor: "wrr_allows q sc r units = (turn, q') \<Longrightarrow> \<exists>n. q' = q\<lparr>q_rr_cursor := n\<rparr>"
  using cursor_same[of q] by (auto simp: wrr_allows_def Let_def split: if_splits)

text \<open>Two provider states with the same books.\<close>

definition same_books :: "quota \<Rightarrow> quota \<Rightarrow> bool" where
  "same_books q q' \<longleftrightarrow> usage_of q' = usage_of q \<and> q_admissions q' = q_admissions q
     \<and> q_releases q' = q_releases q \<and> q_claims q' = q_claims q \<and> limit_of q' = limit_of q"

text \<open>A provider state in which one resource of one workspace is used differently.\<close>

definition usage_becomes :: "quota \<Rightarrow> scope \<Rightarrow> quota_resource \<Rightarrow> int \<Rightarrow> quota \<Rightarrow> bool" where
  "usage_becomes q sc r u q' \<longleftrightarrow> limit_of q' = limit_of q
     \<and> (\<forall>sc' r'. usage_of q' sc' r' = (if sc' = sc \<and> r' = r then u else usage_of q sc' r'))"

lemma same_books_ensure: "ensure_state c now q = (st, q') \<Longrightarrow> same_books q q'"
  using ensure_state_cases[of c now q st q'] by (auto simp: same_books_def fun_eq_iff)

lemma same_books_trans: "same_books q q' \<Longrightarrow> same_books q' q'' \<Longrightarrow> same_books q q''"
  by (simp add: same_books_def)

lemma same_books_refl [simp]: "same_books q q" "same_books q (q\<lparr>q_rr_cursor := n\<rparr>)"
  "same_books q (q\<lparr>q_unavailable := b\<rparr>)" "same_books q (set_shared_pressure b q)"
  by (simp_all add: same_books_def set_shared_pressure_def fun_eq_iff limit_of_def)

lemma usage_add:
  assumes "dget (q_states q) (scope_of c) = Some st"
  shows "usage_becomes q (scope_of c) r u (add_usage c st r u now q)"
  using assms by (auto simp: usage_becomes_def add_usage_def usage_of_def limit_of_def)

lemma reservation_of_admitted [simp]:
  "reservation_of (admitted c r units (Some k) uuid used q) k' = k @ '':'' @ uuid"
  by (simp add: reservation_of_def admitted_def)

text \<open>
  A new admission either leaves the books alone or charges its units, within the limit, and records
  its reservation with one claimant.
\<close>

lemma admit_new_cases:
  assumes "admit_new c r units idem claim uuid now q = (res, q')"
  obtains (refused) "same_books q q'"
  | (charged) qm d where "q' = record_admission c r units idem claim d qm" "res = Inr d"
      "q_admissions qm = q_admissions q" "q_releases qm = q_releases q" "q_claims qm = q_claims q"
      "usage_becomes q (scope_of c) r (usage_of q (scope_of c) r + units) qm"
      "usage_of q (scope_of c) r + units \<le> limit_of q r" "qd_effect d = Q_allow"
      "\<And>k. idem = Some k \<Longrightarrow> reservation_of d k = k @ '':'' @ uuid"
proof -
  obtain st q1 where e: "ensure_state c now q = (st, q1)" by (cases "ensure_state c now q")
  note st = ensure_state_cases[OF e] and books = same_books_ensure[OF e]
  obtain turn q2 where t: "(if q_shared_pressure q1 then wrr_allows q1 (scope_of c) r units else (True, q1)) = (turn, q2)"
    by fastforce
  then obtain n where q2: "q2 = q1\<lparr>q_rr_cursor := n\<rparr>"
    using wrr_allows_cursor[of q1 "scope_of c" r units turn q2]
    by (cases "q_shared_pressure q1") (auto intro: that[of "q_rr_cursor q1"])
  have books2: "same_books q q2" using books same_books_trans q2 by auto
  let ?d = "admitted c r units idem uuid (used_in st r) q2"
  let ?qm = "add_usage c st r (used_in st r + units) now q2"
  have out: "(res, q') = (if qs_suspended st then return_in q1 (refusal Q_suspended r (limit_of q1 r) (used_in st r) ''workspace suspended'' [])
      else if qs_contained st
      then return_in q1 (refusal Q_contained r (limit_of q1 r) (used_in st r) ''emergency containment active'' [])
      else if limit_of q1 r < used_in st r + units then return_in q1 (refusal Q_deny r (limit_of q1 r) (used_in st r) ''quota exceeded'' [])
      else if \<not> turn then return_in q2 (refusal Q_deny r (limit_of q1 r) (used_in st r) ''fairness deferred''
          [(''rr_cursor'', JInt (q_rr_cursor q2)), (''weight'', JInt (weight_of q2 (scope_of c))),
           (''shared_pressure'', JBool True)])
      else return_in (record_admission c r units idem claim ?d ?qm) ?d)"
    using assms unfolding admit_new_def Let_def e t prod.case by simp
  consider "same_books q q'" | "q' = record_admission c r units idem claim ?d ?qm" "res = Inr ?d"
      "\<not> limit_of q1 r < used_in st r + units"
    using out books books2 by (auto split: if_splits)
  then show thesis
  proof cases
    case 2
    have "dget (q_states q2) (scope_of c) = Some st" using st(1) q2 by simp
    from usage_add[OF this] have "usage_becomes q (scope_of c) r (usage_of q (scope_of c) r + units) ?qm"
      using books2 st(2) by (simp add: usage_becomes_def same_books_def)
    moreover have "usage_of q (scope_of c) r + units \<le> limit_of q r"
      using 2(3) st(2) books by (simp add: same_books_def)
    ultimately show thesis using 2 books2
      by (intro charged[of ?d ?qm]) (auto simp: add_usage_def same_books_def admitted_def reservation_of_def)
  qed (rule refused)
qed


subsection \<open>The shape of each call\<close>

text \<open>A release lowers the usage by its units, never below zero.\<close>

lemma drop_usage_shape:
  assumes "drop_usage c r units idem now q = (res, q')"
  shows "usage_becomes q (scope_of c) r (max 0 (usage_of q (scope_of c) r - units)) q'"
    and "q_admissions q' = q_admissions q"
    and "idem = Some k \<Longrightarrow> q_releases q' = dput (mk_key (scope_of c) k) (r, units) (q_releases q)
           \<and> q_claims q' = dpop (mk_key (scope_of c) k) (q_claims q)"
proof -
  obtain st q1 where e: "ensure_state c now q = (st, q1)" by (cases "ensure_state c now q")
  note st = ensure_state_cases[OF e] and books = same_books_ensure[OF e]
  let ?u = "max 0 (used_in st r - units)"
  let ?q2 = "add_usage c st r ?u now q1"
  have b: "usage_becomes q (scope_of c) r (max 0 (usage_of q (scope_of c) r - units)) ?q2"
    using usage_add[OF st(1), of r ?u now] books st(2) by (simp add: usage_becomes_def same_books_def)
  have q': "q' = (case idem of None \<Rightarrow> ?q2
        | Some k \<Rightarrow> ?q2\<lparr>q_releases := dput (mk_key (scope_of c) k) (r, units) (q_releases ?q2),
            q_claims := dpop (mk_key (scope_of c) k) (q_claims ?q2)\<rparr>)"
    using assms by (auto simp: drop_usage_def e Let_def add_usage_def split: option.splits)
  show "usage_becomes q (scope_of c) r (max 0 (usage_of q (scope_of c) r - units)) q'"
    using b q' by (cases idem) (simp_all add: usage_becomes_def fun_eq_iff)
  show "q_admissions q' = q_admissions q"
    using q' books by (auto simp: add_usage_def same_books_def split: option.splits)
  show "idem = Some k \<Longrightarrow> q_releases q' = dput (mk_key (scope_of c) k) (r, units) (q_releases q)
           \<and> q_claims q' = dpop (mk_key (scope_of c) k) (q_claims q)"
    using q' books by (auto simp: add_usage_def same_books_def)
qed

lemma set_state_flag_books:
  assumes "\<And>st r. used_in (f st) r = used_in st r"
  shows "same_books q (snd (set_state_flag c f now q))"
proof -
  obtain st q1 where e: "ensure_state c now q = (st, q1)" by (cases "ensure_state c now q")
  note st = ensure_state_cases[OF e] and books = same_books_ensure[OF e]
  let ?q = "q1\<lparr>q_states := dput (scope_of c) ((f st)\<lparr>qs_updated_at := now\<rparr>) (q_states q1)\<rparr>"
  have "usage_of ?q sc r = usage_of q1 sc r" for sc r
    using st(1) by (simp add: usage_of_def assms)
  then have "same_books q1 ?q" by (simp add: same_books_def fun_eq_iff)
  then show ?thesis using same_books_trans[OF books] by (simp add: set_state_flag_def e Let_def)
qed

text \<open>
  A release either leaves the books alone, or takes a claimant off a reservation, or, at its last
  claimant or without one, lowers the usage.
\<close>

lemma release_cases:
  assumes "release_quota c r units idem claim now q = (res, q')"
  obtains (kept) "same_books q q'"
  | (unclaimed) k w cs where "idem = Some k" "claim = Some w" "same_books (q\<lparr>q_claims :=
        dput (mk_key (scope_of c) k) (filter (\<lambda>x. x \<noteq> w) cs) (q_claims q)\<rparr>) q'" "filter (\<lambda>x. x \<noteq> w) cs \<noteq> []"
      "dget (q_claims q) (mk_key (scope_of c) k) = Some cs"
  | (lowered) claims where "drop_usage c r units idem now (q\<lparr>q_claims := claims\<rparr>) = (res, q')"
      "\<And>k. idem = Some k \<Longrightarrow> dget (q_releases q) (mk_key (scope_of c) k) = None"
      "\<And>rk. idem = None \<or> idem \<noteq> None \<and> rk \<noteq> mk_key (scope_of c) (the idem) \<Longrightarrow> dget claims rk = dget (q_claims q) rk"
proof -
  have ens: "same_books p (snd (ensure_state c now p))" for p
    using same_books_ensure[of c now p] by (cases "ensure_state c now p") auto
  have same: "\<exists>claims. q = q\<lparr>q_claims := claims\<rparr> \<and> claims = q_claims q"
    by (rule exI[of _ "q_claims q"]) simp
  have low: "drop_usage c r units idem now q = (res, q') \<Longrightarrow>
      (\<And>k. idem = Some k \<Longrightarrow> dget (q_releases q) (mk_key (scope_of c) k) = None) \<Longrightarrow> thesis"
    using lowered[of "q_claims q"] by simp
  have keep: "(let (st, q1) = ensure_state c now p in return_in q1 st) = (res, q') \<Longrightarrow> same_books p q'" for p
    using ens[of p] by (auto simp: Let_def split: prod.splits)
  show thesis
  proof (cases "q_unavailable q \<or> claim = Some [] \<or> claim \<noteq> None \<and> (idem = None \<or> \<not> ends_with '':release'' (of_opt idem))")
    case True
    then have "q' = q" using assms by (auto simp: release_quota_def split: if_splits)
    then show thesis using kept by simp
  next
    case False
    show thesis
    proof (cases idem)
      case None
      then have "drop_usage c r units idem now q = (res, q')" using assms False by (simp add: release_quota_def)
      then show thesis using low None by simp
    next
      case (Some k)
      let ?rk = "mk_key (scope_of c) k"
      have g: "q_unavailable q = False" "(claim = Some [] \<or> claim \<noteq> None \<and>
          (Some k = None \<or> \<not> ends_with '':release'' (of_opt (Some k)))) = False"
        using False Some by auto
      have out: "(case dget (q_releases q) ?rk of
            Some prior \<Rightarrow> if prior \<noteq> (r, units)
              then raise_in q (Conflict ''Quota release key reused with different release'')
              else (let (st, q1) = ensure_state c now q in return_in q1 st)
          | None \<Rightarrow> (case claim of
              None \<Rightarrow> drop_usage c r units idem now q
            | Some w \<Rightarrow> (case dget (q_claims q) ?rk of
                None \<Rightarrow> (let (st, q1) = ensure_state c now q in return_in q1 st)
              | Some cs \<Rightarrow>
                  if w \<notin> set cs then (let (st, q1) = ensure_state c now q in return_in q1 st)
                  else (let q' = q\<lparr>q_claims := dput ?rk (filter (\<lambda>x. x \<noteq> w) cs) (q_claims q)\<rparr> in
                    if filter (\<lambda>x. x \<noteq> w) cs \<noteq> [] then (let (st, q1) = ensure_state c now q' in return_in q1 st)
                    else drop_usage c r units idem now q')))) = (res, q')"
        using assms unfolding release_quota_def Some g by (simp only: if_False option.case Let_def)
      show thesis
      proof (cases "dget (q_releases q) ?rk")
        case prior: (Some prior)
        then have "same_books q q'" using out keep[of q] by (auto split: if_splits)
        then show thesis by (rule kept)
      next
        case free: None
        show thesis
        proof (cases "claim = None \<or> dget (q_claims q) ?rk = None \<or> the claim \<notin> set (the (dget (q_claims q) ?rk))")
          case True
          then show thesis using out free Some low kept keep[of q]
            by (cases claim; cases "dget (q_claims q) ?rk") auto
        next
          case claimed: False
          then obtain w cs where w: "claim = Some w" "dget (q_claims q) ?rk = Some cs" "w \<in> set cs" by auto
          let ?q = "q\<lparr>q_claims := dput ?rk (filter (\<lambda>x. x \<noteq> w) cs) (q_claims q)\<rparr>"
          show thesis
          proof (cases "filter (\<lambda>x. x \<noteq> w) cs = []")
            case True
            then have "drop_usage c r units idem now ?q = (res, q')" using out free w by (simp add: Let_def)
            then show thesis using free Some by (intro lowered[of "dput ?rk (filter (\<lambda>x. x \<noteq> w) cs) (q_claims q)"]) auto
          next
            case left: False
            then have "same_books ?q q'" using out free w keep[of ?q] by (simp add: Let_def)
            then show thesis using unclaimed[OF Some w(1) _ left w(2)] by simp
          qed
        qed
      qed
    qed
  qed
qed

text \<open>An admission either leaves the books alone, or joins an unreleased reservation, or is new.\<close>

lemma admit_cases:
  assumes "admit c r units idem claim uuid now q = (res, q')"
  obtains (kept) "q' = q"
  | (joined) k d where "idem = Some k" "dget (q_admissions q) (mk_key (scope_of c) k) = Some (r, units, d)"
      "dget (q_releases q) (mk_key (scope_of c) (release_name (reservation_of d k))) = None"
      "q' = join_claim (mk_key (scope_of c) (release_name (reservation_of d k))) claim q" "res = Inr d"
  | (new) "admit_new c r units idem claim uuid now q = (res, q')" "1 \<le> units"
      "\<And>k r' u' d. idem = Some k \<Longrightarrow> dget (q_admissions q) (mk_key (scope_of c) k) = Some (r', u', d) \<Longrightarrow>
         dget (q_releases q) (mk_key (scope_of c) (release_name (reservation_of d k))) \<noteq> None"
proof (cases "q_unavailable q \<or> units < 1 \<or> claim = Some [] \<or> claim \<noteq> None \<and> idem = None")
  case True
  then have "q' = q" using assms by (auto simp: admit_def split: if_splits)
  then show thesis by (rule kept)
next
  case False
  show thesis
  proof (cases idem)
    case None
    then show thesis using assms False by (intro new) (auto simp: admit_def)
  next
    case (Some k)
    let ?row = "dget (q_admissions q) (mk_key (scope_of c) k)"
    let ?rk = "\<lambda>d. mk_key (scope_of c) (release_name (reservation_of d k))"
    have g: "q_unavailable q = False" "(units < 1) = False"
      "(claim = Some [] \<or> claim \<noteq> None \<and> Some k = None) = False"
      using False Some by auto
    have out: "(case ?row of
          None \<Rightarrow> admit_new c r units (Some k) claim uuid now q
        | Some (r', units', d) \<Rightarrow>
            if (r', units') \<noteq> (r, units)
            then raise_in q (Conflict ''Quota idempotency key reused with different admission'')
            else if dget (q_releases q) (?rk d) = None then return_in (join_claim (?rk d) claim q) d
              else admit_new c r units (Some k) claim uuid now q) = (res, q')"
      using assms unfolding admit_def Some g by (simp only: if_False option.case Let_def)
    show thesis
    proof (cases "?row")
      case None
      then show thesis using out Some False by (intro new) simp_all
    next
      case row: (Some row)
      obtain r' u' d where d: "row = (r', u', d)" by (cases row)
      note out' = out[unfolded row d option.case prod.case]
      consider "(r', u') \<noteq> (r, units)" | "(r', u') = (r, units)" "dget (q_releases q) (?rk d) = None"
        | "(r', u') = (r, units)" "dget (q_releases q) (?rk d) \<noteq> None" by blast
      then show thesis
      proof cases
        case 1
        then show thesis using out' kept by simp
      next
        case 2
        then show thesis using out' joined[OF Some] row d by simp
      next
        case 3
        have "admit_new c r units (Some k) claim uuid now q = (res, q')"
          using out'[unfolded if_not_P[OF 3(2)]] 3(1) by simp
        then show thesis using 3 Some row d False by (intro new) simp_all
      qed
    qed
  qed
qed


subsection \<open>Usage within the limit\<close>

definition bounded :: "quota \<Rightarrow> bool" where
  "bounded q \<longleftrightarrow> (\<forall>sc r. 0 \<le> usage_of q sc r \<and> usage_of q sc r \<le> max 0 (limit_of q r))"

lemma bounded_same: "same_books q q' \<Longrightarrow> bounded q \<Longrightarrow> bounded q'"
  by (simp add: bounded_def same_books_def)

lemma bounded_becomes:
  "bounded q \<Longrightarrow> usage_becomes q sc r u q' \<Longrightarrow> 0 \<le> u \<Longrightarrow> u \<le> max 0 (limit_of q r) \<Longrightarrow> bounded q'"
  by (simp add: bounded_def usage_becomes_def)

lemma usage_becomes_upd:
  "usage_becomes (q\<lparr>q_claims := x\<rparr>) sc r u q' = usage_becomes q sc r u q'"
  "usage_becomes q sc r u (record_admission c r' units idem claim d q') = usage_becomes q sc r u q'"
  by (simp_all add: usage_becomes_def record_admission_def fun_eq_iff split: option.splits)

lemma same_books_usage: "same_books q q' \<Longrightarrow> usage_of q' = usage_of q" "same_books q q' \<Longrightarrow> limit_of q' = limit_of q"
  by (simp_all add: same_books_def)

lemma claims_upd [simp]:
  "usage_of (join_claim rk claim q) = usage_of q" "limit_of (join_claim rk claim q) = limit_of q"
  "usage_of (q\<lparr>q_claims := x\<rparr>) = usage_of q" "limit_of (q\<lparr>q_claims := x\<rparr>) = limit_of q"
  by (simp_all add: join_claim_def fun_eq_iff)

lemma bounded_admit:
  assumes "bounded q"
  shows "bounded (snd (admit c r units idem claim uuid now q))"
proof -
  obtain res q' where a: "admit c r units idem claim uuid now q = (res, q')" by fastforce
  from a have "bounded q'"
  proof (cases rule: admit_cases)
    case new
    from new(1) show ?thesis
    proof (cases rule: admit_new_cases)
      case (charged qm d)
      have "0 \<le> usage_of q (scope_of c) r" using assms by (simp add: bounded_def)
      then show ?thesis using bounded_becomes[OF assms charged(6)] charged(1,7) new(2)
        by (auto simp: record_admission_def bounded_def split: option.splits)
    qed (use assms bounded_same in blast)
  qed (use assms in \<open>auto simp: bounded_def\<close>)
  then show ?thesis using a by simp
qed

lemma bounded_release:
  assumes "bounded q" "0 \<le> units"
  shows "bounded (snd (release_quota c r units idem claim now q))"
proof -
  obtain res q' where a: "release_quota c r units idem claim now q = (res, q')" by fastforce
  from a have "bounded q'"
  proof (cases rule: release_cases)
    case (unclaimed k w cs)
    then show ?thesis using assms by (simp add: bounded_def same_books_def)
  next
    case (lowered claims)
    have "0 \<le> usage_of q (scope_of c) r \<and> usage_of q (scope_of c) r \<le> max 0 (limit_of q r)"
      using assms by (simp add: bounded_def)
    then show ?thesis using drop_usage_shape(1)[OF lowered(1)] bounded_becomes[OF assms(1)] assms(2)
      by (auto simp: usage_becomes_upd)
  qed (use assms bounded_same in blast)
  then show ?thesis using a by simp
qed

lemma get_state_books: "same_books q (snd (get_state c now q))"
  using same_books_ensure[of c now q] by (cases "ensure_state c now q") (auto simp: get_state_def)

lemma switch_books:
  "same_books q (snd (set_suspended c b now q))" "same_books q (snd (set_contained c b now q))"
  unfolding set_suspended_def set_contained_def by (rule set_state_flag_books, simp)+

lemma bounded_step: "bounded q \<Longrightarrow> counts_down q call \<Longrightarrow> bounded (quota_step call q)"
  by (cases call) (auto simp: bounded_admit bounded_release intro: bounded_same[OF switch_books(1)]
      bounded_same[OF switch_books(2)] bounded_same[OF get_state_books] bounded_same[OF same_books_refl(3)]
      bounded_same[OF same_books_refl(4)])

lemma fresh_usage: "fresh_provider q \<Longrightarrow> usage_of q sc r = 0"
  by (simp add: fresh_provider_def usage_of_def)

text \<open>
  C16: as long as every release carries a non-negative number of units, a workspace never uses more of a
  resource than its limit and never a negative amount, whatever else the clients do.  The provider does not
  check the units of a release, and \<open>negative_release_overruns\<close> shows that the condition is needed.
\<close>

theorem usage_within_limit:
  assumes "reached counts_down q"
  shows "0 \<le> usage_of q sc r \<and> usage_of q sc r \<le> max 0 (limit_of q r)"
proof -
  have "bounded q" using assms
    by induction (simp_all add: bounded_step, simp add: bounded_def fresh_usage)
  then show ?thesis by (simp add: bounded_def)
qed


subsection \<open>A concrete provider\<close>

definition quota_ctx :: "string \<Rightarrow> ctx" where
  "quota_ctx t = \<lparr>cx_principal = \<lparr>pr_subject = ''user'', pr_issuer = None, pr_kind = Human\<rparr>,
     cx_tenant = t, cx_workspace = ''w'', cx_environment = ''prod'', cx_domain = ''default'', cx_owner = None\<rparr>"

definition sample_provider :: quota where
  "sample_provider = \<lparr>q_unavailable = False, q_shared_pressure = False,
     q_default_limits = [(Res_concurrency, 3)], q_weights = [], q_states = [], q_admissions = [],
     q_releases = [], q_claims = [], q_rr_cursor = 0\<rparr>"

lemma sample_fresh: "fresh_provider sample_provider"
  by (simp add: fresh_provider_def sample_provider_def)

definition sample_used :: quota where
  "sample_used = quota_step (Admit (quota_ctx ''a'') Res_concurrency 2 None None [] 0) sample_provider"

text \<open>
  A release of a negative number of units charges the workspace, without a look at the limit.
\<close>

theorem negative_release_overruns:
  "reached (\<lambda>_ _. True) (quota_step (Release (quota_ctx ''a'') Res_concurrency (- 5) None None 1) sample_used)
   \<and> limit_of (quota_step (Release (quota_ctx ''a'') Res_concurrency (- 5) None None 1) sample_used) Res_concurrency = 3
   \<and> usage_of (quota_step (Release (quota_ctx ''a'') Res_concurrency (- 5) None None 1) sample_used)
       (''a'', ''w'') Res_concurrency = 7"
proof (intro conjI)
  show "reached (\<lambda>_ _. True) (quota_step (Release (quota_ctx ''a'') Res_concurrency (- 5) None None 1) sample_used)"
    unfolding sample_used_def by (intro reached.intros sample_fresh TrueI)
qed code_simp+

theorem usage_within_limit_witness:
  "usage_of sample_used (''a'', ''w'') Res_concurrency = 2
   \<and> 0 \<le> usage_of sample_used (''a'', ''w'') Res_concurrency
   \<and> usage_of sample_used (''a'', ''w'') Res_concurrency \<le> max 0 (limit_of sample_used Res_concurrency)"
proof -
  have "reached counts_down sample_used" unfolding sample_used_def
    by (intro reached.intros sample_fresh) simp
  then have "0 \<le> usage_of sample_used (''a'', ''w'') Res_concurrency
      \<and> usage_of sample_used (''a'', ''w'') Res_concurrency \<le> max 0 (limit_of sample_used Res_concurrency)"
    by (rule usage_within_limit)
  moreover have "usage_of sample_used (''a'', ''w'') Res_concurrency = 2" by code_simp
  ultimately show ?thesis by blast
qed

end
