(* ===== verification/Quota_Reservations.thy ===== *)
theory Quota_Reservations
  imports Quota_Invariants
begin

text \<open>
  The books of the quota provider: for clients that key their admissions and release what they
  reserved, the usage of a resource is exactly what the unreleased reservations hold, and every
  unreleased reservation has a claimant who can release it.
\<close>

subsection \<open>Sums over dictionaries\<close>

lemma sum_list_dput:
  fixes f :: "'k \<times> 'v \<Rightarrow> int"
  shows "sum_list (map f (dput k v d)) =
    sum_list (map f d) + f (k, v) - (case dget d k of None \<Rightarrow> 0 | Some old \<Rightarrow> f (k, old))"
  by (induction d) (auto split: option.splits)

lemma sum_list_one_row:
  fixes f g :: "'k \<times> 'v \<Rightarrow> int"
  assumes "distinct (map fst d)" "dget d k = Some v"
    "\<And>k' v'. (k', v') \<in> set d \<Longrightarrow> k' \<noteq> k \<Longrightarrow> g (k', v') = f (k', v')"
  shows "sum_list (map g d) = sum_list (map f d) - f (k, v) + g (k, v)"
  using assms
proof (induction d)
  case (Cons p d)
  obtain k' v' where p: "p = (k', v')" by (cases p)
  show ?case
  proof (cases "k' = k")
    case True
    have "sum_list (map g d) = sum_list (map f d)"
    proof (rule arg_cong[of _ _ sum_list], rule map_cong[OF refl])
      fix x assume "x \<in> set d"
      then have "fst x \<noteq> k" using Cons.prems(1) p True by force
      then show "g x = f x" using Cons.prems(3)[of "fst x" "snd x"] \<open>x \<in> set d\<close> by simp
    qed
    then show ?thesis using Cons.prems(2) p True by simp
  next
    case False
    then have "sum_list (map g d) = sum_list (map f d) - f (k, v) + g (k, v)"
      using Cons.prems p by (intro Cons.IH) auto
    moreover have "g p = f p" using Cons.prems(3) p False by auto
    ultimately show ?thesis by simp
  qed
qed simp

subsection \<open>What the reservations hold\<close>

definition row_release :: "key \<Rightarrow> quota_decision \<Rightarrow> key" where
  "row_release k d = mk_key (key_scope k) (release_name (reservation_of d (key_id k)))"

definition row_units :: "quota \<Rightarrow> scope \<Rightarrow> quota_resource \<Rightarrow> key \<times> admission \<Rightarrow> int" where
  "row_units q sc r row = (case row of (k, (r', u, d)) \<Rightarrow>
     if key_scope k = sc \<and> r' = r \<and> dget (q_releases q) (row_release k d) = None then u else 0)"

definition held :: "quota \<Rightarrow> scope \<Rightarrow> quota_resource \<Rightarrow> int" where
  "held q sc r = sum_list (map (row_units q sc r) (q_admissions q))"

definition claimed :: "quota \<Rightarrow> bool" where
  "claimed q \<longleftrightarrow> (\<forall>k r u d. dget (q_admissions q) k = Some (r, u, d) \<longrightarrow>
     dget (q_releases q) (row_release k d) = None \<longrightarrow>
     (\<exists>cs. dget (q_claims q) (row_release k d) = Some cs \<and> cs \<noteq> []))"

definition separate :: "quota \<Rightarrow> bool" where
  "separate q \<longleftrightarrow> distinct (map fst (q_admissions q)) \<and>
     (\<forall>k r u d. dget (q_admissions q) k = Some (r, u, d) \<longrightarrow> 1 \<le> u) \<and>
     (\<forall>k r u d k' r' u' d'. dget (q_admissions q) k = Some (r, u, d) \<longrightarrow>
        dget (q_admissions q) k' = Some (r', u', d') \<longrightarrow> row_release k d = row_release k' d' \<longrightarrow> k = k')"

definition conserved :: "quota \<Rightarrow> bool" where
  "conserved q \<longleftrightarrow> separate q \<and> claimed q \<and> (\<forall>sc r. usage_of q sc r = held q sc r)"

lemma row_release_mk_key [simp]:
  "row_release (mk_key sc k) d = mk_key sc (release_name (reservation_of d k))"
  by (simp add: row_release_def)

lemma row_release_scope: "row_release k d = mk_key sc n \<Longrightarrow> key_scope k = sc"
  by (auto simp: row_release_def)

lemma held_cong:
  "q_admissions q' = q_admissions q \<Longrightarrow> q_releases q' = q_releases q \<Longrightarrow> held q' = held q"
proof (intro ext)
  fix sc r
  assume a: "q_admissions q' = q_admissions q" "q_releases q' = q_releases q"
  then have "row_units q' sc r = row_units q sc r" by (intro ext) (simp add: row_units_def)
  then show "held q' sc r = held q sc r" by (simp add: held_def a)
qed

lemma conserved_same: "same_books q q' \<Longrightarrow> conserved q \<Longrightarrow> conserved q'"
  using held_cong[of q' q] by (simp add: same_books_def conserved_def separate_def claimed_def)

lemma row_units_nonneg:
  assumes "separate q" "row \<in> set (q_admissions q)"
  shows "0 \<le> row_units q sc r row"
proof -
  obtain k r' u d where row: "row = (k, (r', u, d))" by (cases row) auto
  then have "dget (q_admissions q) k = Some (r', u, d)"
    using assms by (simp add: separate_def dget_eq_iff_mem)
  then have "1 \<le> u" using assms(1) unfolding separate_def by blast
  then show ?thesis by (simp add: row row_units_def)
qed

text \<open>A reservation that nobody has released is part of what is held.\<close>

lemma held_covers:
  assumes "separate q" "dget (q_admissions q) k = Some (r, u, d)"
    "dget (q_releases q) (row_release k d) = None"
  shows "u \<le> held q (key_scope k) r"
proof -
  have "(k, (r, u, d)) \<in> set (q_admissions q)" using assms(2) by (rule dget_in_set)
  moreover have "row_units q (key_scope k) r (k, (r, u, d)) = u" using assms(3) by (simp add: row_units_def)
  ultimately show ?thesis
    using member_le_sum_list[of u "map (row_units q (key_scope k) r) (q_admissions q)"]
      row_units_nonneg[OF assms(1)] unfolding held_def
    by (metis (no_types, lifting) imageE imageI image_set)
qed

subsection \<open>Preservation\<close>

lemma conserved_claim:
  assumes "conserved q" "cs \<noteq> []"
  shows "conserved (q\<lparr>q_claims := dput rk cs (q_claims q)\<rparr>)"
proof -
  let ?q = "q\<lparr>q_claims := dput rk cs (q_claims q)\<rparr>"
  have "held ?q = held q" by (rule held_cong) simp_all
  then show ?thesis using assms unfolding conserved_def separate_def claimed_def by auto
qed

lemma conserved_charge:
  assumes q: "conserved q" and "1 \<le> units" "keeps_reservations q (Admit c r units (Some k) claim uuid now)"
    and books: "q_admissions qm = q_admissions q" "q_releases qm = q_releases q" "q_claims qm = q_claims q"
    and usage: "usage_becomes q (scope_of c) r (usage_of q (scope_of c) r + units) qm"
    and res: "reservation_of d k = k @ '':'' @ uuid"
    and old: "\<And>r' u' d. dget (q_admissions q) (mk_key (scope_of c) k) = Some (r', u', d) \<Longrightarrow>
      dget (q_releases q) (row_release (mk_key (scope_of c) k) d) \<noteq> None"
  shows "conserved (record_admission c r units (Some k) claim d qm)"
proof -
  let ?q = "record_admission c r units (Some k) claim d qm" and ?kk = "mk_key (scope_of c) k"
  let ?rk = "row_release ?kk d"
  have adm: "q_admissions ?q = dput ?kk (r, units, d) (q_admissions q)"
    "q_releases ?q = q_releases q" "q_claims ?q = dput ?rk [of_opt claim] (q_claims q)"
    using books by (simp_all add: record_admission_def)
  have fresh: "dget (q_releases q) ?rk = None"
    and new: "\<And>k' r' u' d'. dget (q_admissions q) k' = Some (r', u', d') \<Longrightarrow> row_release k' d' = ?rk \<Longrightarrow> False"
  proof -
    have "dget (q_releases q) (mk_key (scope_of c) (release_name (k @ '':'' @ uuid))) = None"
      and none: "\<not> (\<exists>r units. names_reservation q c r units (release_name (k @ '':'' @ uuid)))"
      using assms(3) by (simp_all add: Let_def)
    then show "dget (q_releases q) ?rk = None" by (simp add: res)
    fix k' r' u' d' assume row: "dget (q_admissions q) k' = Some (r', u', d')" "row_release k' d' = ?rk"
    then have sc: "key_scope k' = scope_of c" using row_release_scope[of k' d'] by simp
    then have "k' = mk_key (scope_of c) (key_id k')" by (metis mk_key_collapse)
    then have "names_reservation q c r' u' (release_name (reservation_of d' (key_id k')))"
      using row(1) unfolding names_reservation_def by metis
    moreover have "release_name (reservation_of d' (key_id k')) = release_name (k @ '':'' @ uuid)"
      using row(2) res by (simp add: row_release_def)
    ultimately show False using none by metis
  qed
  have sep: "separate q" and cl: "claimed q" and us: "\<And>sc r. usage_of q sc r = held q sc r"
    using q by (auto simp: conserved_def)
  have "separate ?q" using sep new \<open>1 \<le> units\<close> unfolding separate_def adm
    by (auto simp: distinct_dput split: if_splits) metis+
  moreover have "claimed ?q" using cl unfolding claimed_def adm by auto
  moreover have "usage_of ?q sc r' = held ?q sc r'" for sc r'
  proof -
    let ?f = "row_units q sc r'"
    have "row_units ?q sc r' = ?f" by (simp add: row_units_def adm fun_eq_iff)
    then have "held ?q sc r' = held q sc r' + ?f (?kk, (r, units, d))
        - (case dget (q_admissions q) ?kk of None \<Rightarrow> 0 | Some row \<Rightarrow> ?f (?kk, row))"
      by (simp add: held_def adm sum_list_dput)
    moreover have "(case dget (q_admissions q) ?kk of None \<Rightarrow> 0 | Some row \<Rightarrow> ?f (?kk, row)) = 0"
      using old by (auto simp: row_units_def split: option.splits)
    moreover have "?f (?kk, (r, units, d)) = (if sc = scope_of c \<and> r' = r then units else 0)"
      using fresh by (auto simp: row_units_def)
    moreover have "usage_of ?q sc r' = usage_of q sc r' + (if sc = scope_of c \<and> r' = r then units else 0)"
      using usage by (auto simp: record_admission_def usage_becomes_def)
    ultimately show ?thesis using us by simp
  qed
  ultimately show ?thesis by (simp add: conserved_def)
qed

lemma conserved_admit:
  assumes "conserved q" "keeps_reservations q (Admit c r units idem claim uuid now)"
  shows "conserved (snd (admit c r units idem claim uuid now q))"
proof -
  obtain res q' where a: "admit c r units idem claim uuid now q = (res, q')" by fastforce
  from a have "conserved q'"
  proof (cases rule: admit_cases)
    case (joined k d)
    have "List.insert x cs \<noteq> []" for x :: string and cs by (simp add: List.insert_def) auto
    then show ?thesis using joined(4) conserved_claim[OF assms(1)] by (simp add: join_claim_def)
  next
    case new
    obtain k where k: "idem = Some k" using assms(2) by (auto split: option.splits)
    from new(1) show ?thesis
    proof (cases rule: admit_new_cases)
      case (charged qm d)
      have "conserved (record_admission c r units (Some k) claim d qm)"
        using assms(2) charged(3-6,9) new(2,3) k
        by (intro conserved_charge[OF assms(1), of units c r k claim uuid now]) auto
      then show ?thesis using charged(1) k by simp
    qed (use assms conserved_same in blast)
  qed (use assms in auto)
  then show ?thesis using a by simp
qed

lemma conserved_drop:
  assumes q: "conserved q" and "names_reservation q c r units name"
    and free: "dget (q_releases q) (mk_key (scope_of c) name) = None"
    and claims: "\<And>rk. rk \<noteq> mk_key (scope_of c) name \<Longrightarrow> dget claims rk = dget (q_claims q) rk"
    and drop: "drop_usage c r units (Some name) now (q\<lparr>q_claims := claims\<rparr>) = (res, q')"
  shows "conserved q'"
proof -
  let ?rk = "mk_key (scope_of c) name"
  obtain k d where row: "dget (q_admissions q) (mk_key (scope_of c) k) = Some (r, units, d)"
    and name: "name = release_name (reservation_of d k)"
    using assms(2) by (auto simp: names_reservation_def)
  let ?kk = "mk_key (scope_of c) k"
  note shape = drop_usage_shape[OF drop]
  have adm: "q_admissions q' = q_admissions q" "q_releases q' = dput ?rk (r, units) (q_releases q)"
    "q_claims q' = dpop ?rk claims" using shape(2,3) by auto
  have sep: "separate q" and cl: "claimed q" and us: "\<And>sc r. usage_of q sc r = held q sc r"
    using q by (auto simp: conserved_def)
  have other: "row_release k' d' \<noteq> ?rk" if "dget (q_admissions q) k' = Some (r', u', d')" "k' \<noteq> ?kk" for k' r' u' d'
    using sep row that name unfolding separate_def by (metis row_release_mk_key)
  have "separate q'" using sep unfolding separate_def adm .
  moreover have "claimed q'" unfolding claimed_def adm
  proof (intro allI impI)
    fix k' r' u' d'
    assume row': "dget (q_admissions q) k' = Some (r', u', d')"
      and no: "dget (dput ?rk (r, units) (q_releases q)) (row_release k' d') = None"
    then have rk: "row_release k' d' \<noteq> ?rk" "dget (q_releases q) (row_release k' d') = None"
      by (auto split: if_splits)
    then have "\<exists>cs. dget (q_claims q) (row_release k' d') = Some cs \<and> cs \<noteq> []"
      using cl row' unfolding claimed_def by blast
    then show "\<exists>cs. dget (dpop ?rk claims) (row_release k' d') = Some cs \<and> cs \<noteq> []"
      using rk(1) claims by simp
  qed
  moreover have "usage_of q' sc r' = held q' sc r'" for sc r'
  proof -
    have "sum_list (map (row_units q' sc r') (q_admissions q)) =
      sum_list (map (row_units q sc r') (q_admissions q))
        - row_units q sc r' (?kk, (r, units, d)) + row_units q' sc r' (?kk, (r, units, d))"
    proof (rule sum_list_one_row)
      show "distinct (map fst (q_admissions q))" using sep by (simp add: separate_def)
      then show "row_units q' sc r' (k', v') = row_units q sc r' (k', v')"
        if "(k', v') \<in> set (q_admissions q)" "k' \<noteq> ?kk" for k' v'
        using other that by (cases v') (auto simp: row_units_def adm dget_eq_iff_mem[symmetric])
      show "dget (q_admissions q) ?kk = Some (r, units, d)" by (rule row)
    qed
    then have "held q' sc r' = held q sc r' - (if sc = scope_of c \<and> r' = r then units else 0)"
      using free name by (auto simp: held_def adm row_units_def)
    moreover have "usage_of q' sc r' = (if sc = scope_of c \<and> r' = r
        then max 0 (usage_of q sc r' - units) else usage_of q sc r')"
      using shape(1) by (auto simp: usage_becomes_upd usage_becomes_def)
    moreover have "units \<le> held q (scope_of c) r"
      using held_covers[OF sep row] free name by simp
    ultimately show ?thesis using us by auto
  qed
  ultimately show ?thesis by (simp add: conserved_def)
qed

lemma conserved_release:
  assumes "conserved q" "keeps_reservations q (Release c r units idem claim now)"
  shows "conserved (snd (release_quota c r units idem claim now q))"
proof -
  obtain name where name: "idem = Some name" "names_reservation q c r units name"
    using assms(2) by (auto split: option.splits)
  obtain res q' where a: "release_quota c r units idem claim now q = (res, q')" by fastforce
  from a have "conserved q'"
  proof (cases rule: release_cases)
    case (unclaimed k w cs)
    then show ?thesis using conserved_same conserved_claim[OF assms(1)] by blast
  next
    case (lowered claims)
    show ?thesis
    proof (rule conserved_drop[OF assms(1) name(2)])
      show "drop_usage c r units (Some name) now (q\<lparr>q_claims := claims\<rparr>) = (res, q')"
        using lowered(1) name(1) by simp
    qed (use lowered(2,3) name(1) in simp_all)
  qed (use assms conserved_same in blast)
  then show ?thesis using a by simp
qed

lemma conserved_step: "conserved q \<Longrightarrow> keeps_reservations q call \<Longrightarrow> conserved (quota_step call q)"
  by (cases call) (auto simp: conserved_admit conserved_release simp del: keeps_reservations.simps
      intro: conserved_same[OF switch_books(1)] conserved_same[OF switch_books(2)]
        conserved_same[OF get_state_books] conserved_same[OF same_books_refl(3)] conserved_same[OF same_books_refl(4)])

text \<open>
  C17: for clients that key every admission with a fresh identifier and whose every release names the
  reservation of an admission with its resource and its units (\<open>keeps_reservations\<close>; the provider admits
  without a key and releases any amount), the usage of a resource is exactly what the unreleased
  reservations hold, however often admissions and releases are repeated, and each unreleased reservation
  still has a claimant.
\<close>

theorem reservations_conserved:
  assumes "reached keeps_reservations q"
  shows "usage_of q sc r = held q sc r
    \<and> (dget (q_admissions q) k = Some (r', u, d) \<and> dget (q_releases q) (row_release k d) = None
       \<longrightarrow> (\<exists>cs. dget (q_claims q) (row_release k d) = Some cs \<and> cs \<noteq> []))"
proof -
  have "conserved q" using assms
    by induction (simp_all add: conserved_step,
      simp add: conserved_def separate_def claimed_def fresh_usage held_def fresh_provider_def usage_of_def)
  then show ?thesis unfolding conserved_def claimed_def by blast
qed


subsection \<open>A concrete history\<close>

text \<open>Two workers claim one reservation; the first gives its claim back.\<close>

definition first_claim :: quota where
  "first_claim = quota_step (Admit (quota_ctx ''a'') Res_concurrency 2 (Some ''job'') (Some ''w1'') ''u'' 0) sample_provider"

definition second_claim :: quota where
  "second_claim = quota_step (Admit (quota_ctx ''a'') Res_concurrency 2 (Some ''job'') (Some ''w2'') ''v'' 0) first_claim"

definition one_released :: quota where
  "one_released = quota_step (Release (quota_ctx ''a'') Res_concurrency 2
     (Some ''job:u:release'') (Some ''w1'') 0) second_claim"

definition job_decision :: quota_decision where
  "job_decision = admitted (quota_ctx ''a'') Res_concurrency 2 (Some ''job'') ''u'' 0 sample_provider"

lemma job_rows:
  "q_admissions first_claim = [((''a'', ''w'', ''job''), (Res_concurrency, 2, job_decision))]"
  "q_admissions second_claim = [((''a'', ''w'', ''job''), (Res_concurrency, 2, job_decision))]"
  "q_releases first_claim = []" "q_releases second_claim = []"
  "mk_key (scope_of (quota_ctx ''a'')) k = (''a'', ''w'', k)"
  "reservation_of job_decision k = ''job:u''"
  by (code_simp, code_simp, code_simp, code_simp, simp add: mk_key_def scope_of_def quota_ctx_def,
      simp add: job_decision_def)

lemma one_released_reached: "reached keeps_reservations one_released"
proof -
  have "keeps_reservations sample_provider (Admit (quota_ctx ''a'') Res_concurrency 2 (Some ''job'') (Some ''w1'') ''u'' 0)"
    by (simp add: sample_provider_def names_reservation_def Let_def)
  moreover have "keeps_reservations first_claim (Admit (quota_ctx ''a'') Res_concurrency 2 (Some ''job'') (Some ''w2'') ''v'' 0)"
    by (auto simp: names_reservation_def Let_def job_rows release_name_def)
  moreover have "keeps_reservations second_claim (Release (quota_ctx ''a'') Res_concurrency 2
     (Some ''job:u:release'') (Some ''w1'') 0)"
    by (auto simp: names_reservation_def job_rows release_name_def intro!: exI[of _ "''job''"])
  ultimately show ?thesis unfolding one_released_def second_claim_def first_claim_def
    by (intro reached.intros sample_fresh)
qed

theorem reservations_conserved_witness:
  "usage_of one_released (''a'', ''w'') Res_concurrency = held one_released (''a'', ''w'') Res_concurrency
   \<and> usage_of one_released (''a'', ''w'') Res_concurrency = 2"
proof
  show "usage_of one_released (''a'', ''w'') Res_concurrency = held one_released (''a'', ''w'') Res_concurrency"
    using reservations_conserved[OF one_released_reached, of "(''a'', ''w'')" Res_concurrency] by blast
  show "usage_of one_released (''a'', ''w'') Res_concurrency = 2" by code_simp
qed

end
