(* ===== verification/Quota_Fairness.thy ===== *)
theory Quota_Fairness
  imports Quota_Invariants
begin

text \<open>
  Weighted round robin under shared pressure: a scope that keeps asking is admitted within one round
  of the ring, but two scopes that ask in turns can defer each other for ever.
\<close>

subsection \<open>One scope that keeps asking\<close>

definition turns_of :: "quota \<Rightarrow> scope \<Rightarrow> quota_resource \<Rightarrow> int \<Rightarrow> scope list" where
  "turns_of q sc r units = ring q (eligible_scopes q sc r units)"

text \<open>An unkeyed request, without regard to its answer.\<close>

definition ask :: "ctx \<Rightarrow> quota_resource \<Rightarrow> int \<Rightarrow> instant \<Rightarrow> quota \<Rightarrow> quota" where
  "ask c r units now q = snd (admit c r units None None [] now q)"

definition granted :: "ctx \<Rightarrow> quota_resource \<Rightarrow> int \<Rightarrow> instant \<Rightarrow> quota \<Rightarrow> bool" where
  "granted c r units now q = (case fst (admit c r units None None [] now q) of
     Inl e \<Rightarrow> False | Inr d \<Rightarrow> qd_effect d = Q_allow)"

text \<open>A scope that may ask: the provider is up and contended, and the request fits.\<close>

definition may_ask :: "ctx \<Rightarrow> quota_resource \<Rightarrow> int \<Rightarrow> quota \<Rightarrow> bool" where
  "may_ask c r units q \<longleftrightarrow> \<not> q_unavailable q \<and> q_shared_pressure q \<and> 1 \<le> units
     \<and> (\<exists>st. dget (q_states q) (scope_of c) = Some st \<and> competes q (scope_of c) r units (scope_of c, st))"

lemma cursor_irrelevant [simp]:
  "eligible_scopes (q\<lparr>q_rr_cursor := n\<rparr>) sc r units = eligible_scopes q sc r units"
  "ring (q\<lparr>q_rr_cursor := n\<rparr>) keys = ring q keys"
  "turns_of (q\<lparr>q_rr_cursor := n\<rparr>) sc r units = turns_of q sc r units"
  "may_ask c r units (q\<lparr>q_rr_cursor := n\<rparr>) = may_ask c r units q"
proof -
  have "competes (q\<lparr>q_rr_cursor := n\<rparr>) = competes q" by (simp add: competes_def fun_eq_iff)
  then show "eligible_scopes (q\<lparr>q_rr_cursor := n\<rparr>) sc r units = eligible_scopes q sc r units"
    "may_ask c r units (q\<lparr>q_rr_cursor := n\<rparr>) = may_ask c r units q"
    by (simp_all add: eligible_scopes_def may_ask_def)
  then show "ring (q\<lparr>q_rr_cursor := n\<rparr>) keys = ring q keys"
    "turns_of (q\<lparr>q_rr_cursor := n\<rparr>) sc r units = turns_of q sc r units"
    by (simp_all add: ring_def weight_of_def turns_of_def)
qed

lemma asker_eligible: "may_ask c r units q \<Longrightarrow> scope_of c \<in> set (eligible_scopes q (scope_of c) r units)"
  by (force simp: may_ask_def eligible_scopes_def dest: dget_in_set)

lemma set_ring: "set (ring q keys) = set keys"
  by (auto simp: ring_def)

text \<open>A request that fits is granted exactly when the round robin allows it.\<close>

lemma ask_turn:
  assumes "may_ask c r units q"
  shows "granted c r units now q = fst (wrr_allows q (scope_of c) r units)"
    and "\<not> fst (wrr_allows q (scope_of c) r units) \<Longrightarrow> ask c r units now q = snd (wrr_allows q (scope_of c) r units)"
proof -
  obtain st where st: "dget (q_states q) (scope_of c) = Some st" "\<not> qs_suspended st" "\<not> qs_contained st"
    "used_in st r + units \<le> limit_of q r"
    using assms by (auto simp: may_ask_def competes_def Let_def)
  have up: "\<not> q_unavailable q" "q_shared_pressure q" "\<not> units < 1" using assms by (auto simp: may_ask_def)
  obtain turn q2 where w: "wrr_allows q (scope_of c) r units = (turn, q2)" by fastforce
  have "admit c r units None None [] now q = admit_new c r units None None [] now q"
    using up by (simp add: admit_def)
  moreover have "ensure_state c now q = (st, q)" using st(1) by (simp add: ensure_state_def)
  ultimately show "granted c r units now q = fst (wrr_allows q (scope_of c) r units)"
    and "\<not> fst (wrr_allows q (scope_of c) r units) \<Longrightarrow> ask c r units now q = snd (wrr_allows q (scope_of c) r units)"
    using st up w by (auto simp: granted_def ask_def admit_new_def Let_def refusal_def admitted_def)
qed

lemma ask_miss:
  assumes "may_ask c r units q" "\<not> granted c r units now q"
  defines "n \<equiv> int (length (turns_of q (scope_of c) r units))"
  shows "ask c r units now q = q\<lparr>q_rr_cursor := (q_rr_cursor q mod n + 1) mod n\<rparr>"
proof -
  let ?e = "eligible_scopes q (scope_of c) r units"
  have mem: "scope_of c \<in> set ?e" using assms(1) by (rule asker_eligible)
  have no: "\<not> fst (wrr_allows q (scope_of c) r units)" using assms by (simp add: ask_turn)
  have "length ?e \<noteq> 1"
  proof
    assume "length ?e = 1"
    then have "?e = [scope_of c]" using mem by (cases ?e) auto
    then show False using no by (simp add: wrr_allows_def)
  qed
  moreover have "?e \<noteq> []" using mem by auto
  ultimately show ?thesis using ask_turn(2)[OF assms(1) no]
    by (simp add: wrr_allows_def Let_def n_def turns_of_def)
qed

lemma granted_at_turn:
  assumes "may_ask c r units q" "turns_of q (scope_of c) r units ! nat (q_rr_cursor q mod
      int (length (turns_of q (scope_of c) r units))) = scope_of c"
  shows "granted c r units now q"
proof -
  let ?e = "eligible_scopes q (scope_of c) r units"
  have mem: "scope_of c \<in> set ?e" using assms(1) by (rule asker_eligible)
  then have "length ?e = 1 \<Longrightarrow> ?e = [scope_of c]" by (cases ?e) auto
  then show ?thesis using mem assms by (auto simp: ask_turn wrr_allows_def Let_def turns_of_def)
qed

lemma misses_rotate:
  assumes "may_ask c r units q" "\<And>i. i < m \<Longrightarrow> \<not> granted c r units now ((ask c r units now ^^ i) q)"
  defines "n \<equiv> int (length (turns_of q (scope_of c) r units))"
  shows "\<exists>k. (ask c r units now ^^ m) q = q\<lparr>q_rr_cursor := k\<rparr> \<and> k mod n = (q_rr_cursor q + int m) mod n"
  using assms(2)
proof (induction m)
  case 0
  show ?case by (rule exI[of _ "q_rr_cursor q"]) simp
next
  case (Suc m)
  then obtain k where k: "(ask c r units now ^^ m) q = q\<lparr>q_rr_cursor := k\<rparr>" "k mod n = (q_rr_cursor q + int m) mod n"
    by auto
  let ?q = "q\<lparr>q_rr_cursor := k\<rparr>"
  have "\<not> granted c r units now ?q" using Suc.prems[of m] k(1) by simp
  then have "ask c r units now ?q = ?q\<lparr>q_rr_cursor := (k mod n + 1) mod n\<rparr>"
    using ask_miss[of c r units ?q now] assms(1) by (simp add: n_def)
  moreover have "((k mod n + 1) mod n) mod n = (q_rr_cursor q + int (Suc m)) mod n"
  proof -
    have "((k mod n + 1) mod n) mod n = (((q_rr_cursor q + int m) mod n) + 1) mod n" using k(2) by simp
    also have "\<dots> = (q_rr_cursor q + int (Suc m)) mod n" by (simp add: mod_add_left_eq mod_add_right_eq algebra_simps)
    finally show ?thesis .
  qed
  ultimately show ?case using k(1) by auto
qed

text \<open>
  C18: under shared pressure a scope whose request fits and that keeps asking is granted within one round
  of the ring, provided that nobody else asks in between: the states are those that its own requests lead
  through.  When others ask in between there is no such bound (\<open>alternating_scopes_starve\<close>).
\<close>

theorem wrr_bounded_wait:
  assumes "may_ask c r units q"
  shows "\<exists>m < length (turns_of q (scope_of c) r units). granted c r units now ((ask c r units now ^^ m) q)"
proof (rule ccontr)
  let ?turns = "turns_of q (scope_of c) r units" let ?n = "int (length ?turns)"
  assume none: "\<not> ?thesis"
  have "scope_of c \<in> set ?turns" using asker_eligible[OF assms] by (simp add: turns_of_def set_ring)
  then obtain j where j: "j < length ?turns" "?turns ! j = scope_of c" by (auto simp: in_set_conv_nth)
  define m where "m = nat ((int j - q_rr_cursor q) mod ?n)"
  have pos: "0 < ?n" using j(1) by linarith
  then have m: "m < length ?turns" "int m = (int j - q_rr_cursor q) mod ?n"
    by (auto simp: m_def nat_less_iff)
  then obtain k where k: "(ask c r units now ^^ m) q = q\<lparr>q_rr_cursor := k\<rparr>" "k mod ?n = (q_rr_cursor q + int m) mod ?n"
    using misses_rotate[OF assms, of m now] none by auto
  have "k mod ?n = int j" using k(2) m(2) j(1) pos by (simp add: mod_add_right_eq)
  then have "granted c r units now (q\<lparr>q_rr_cursor := k\<rparr>)"
    using granted_at_turn[of c r units "q\<lparr>q_rr_cursor := k\<rparr>" now] assms j by simp
  then show False using none m(1) k(1) by auto
qed


subsection \<open>Two scopes that ask in turns\<close>

definition contended :: quota where
  "contended = quota_step (Shared_pressure True)
     (quota_step (Admit (quota_ctx ''b'') Res_concurrency 1 None None [] 0)
       (quota_step (Admit (quota_ctx ''a'') Res_concurrency 1 None None [] 0) sample_provider))"

lemma contended_reached: "reached counts_down contended"
  unfolding contended_def by (intro reached.intros) (simp_all add: fresh_provider_def sample_provider_def)

definition ask_a :: "quota \<Rightarrow> quota" where "ask_a = ask (quota_ctx ''a'') Res_concurrency 1 0"
definition ask_b :: "quota \<Rightarrow> quota" where "ask_b = ask (quota_ctx ''b'') Res_concurrency 1 0"

lemma contended_round:
  "ask_a (ask_b contended) = contended"
  "may_ask (quota_ctx ''b'') Res_concurrency 1 contended" "\<not> granted (quota_ctx ''b'') Res_concurrency 1 0 contended"
  "may_ask (quota_ctx ''a'') Res_concurrency 1 (ask_b contended)"
  "\<not> granted (quota_ctx ''a'') Res_concurrency 1 0 (ask_b contended)"
proof -
  have st: "dget (q_states contended) (scope_of (quota_ctx t)) = Some (the (dget (q_states contended) (scope_of (quota_ctx t))))"
    "competes contended (scope_of (quota_ctx t)) Res_concurrency 1
       (scope_of (quota_ctx t), the (dget (q_states contended) (scope_of (quota_ctx t))))"
    "\<not> q_unavailable contended" "q_shared_pressure contended"
    if "t = ''a'' \<or> t = ''b''" for t using that by (elim disjE; hypsubst; code_simp)+
  have may: "may_ask (quota_ctx t) Res_concurrency 1 contended" if "t = ''a'' \<or> t = ''b''" for t
    using st[OF that] unfolding may_ask_def by blast
  show "ask_a (ask_b contended) = contended" by code_simp
  show "may_ask (quota_ctx ''b'') Res_concurrency 1 contended" using may by simp
  have b: "ask_b contended = contended\<lparr>q_rr_cursor := 1\<rparr>" by code_simp
  show "may_ask (quota_ctx ''a'') Res_concurrency 1 (ask_b contended)" using may by (simp add: b)
  show "\<not> granted (quota_ctx ''b'') Res_concurrency 1 0 contended" by code_simp
  show "\<not> granted (quota_ctx ''a'') Res_concurrency 1 0 (ask_b contended)" by code_simp
qed

text \<open>
  Two workspaces with headroom that ask in turns can starve each other: in a reachable state of
  the provider every one of their requests is deferred, for ever, because each missed turn moves the
  cursor to the scope that is not asking next.
\<close>

theorem alternating_scopes_starve:
  "reached counts_down contended \<and> (\<forall>n.
     may_ask (quota_ctx ''b'') Res_concurrency 1 (((ask_a \<circ> ask_b) ^^ n) contended)
     \<and> \<not> granted (quota_ctx ''b'') Res_concurrency 1 0 (((ask_a \<circ> ask_b) ^^ n) contended)
     \<and> may_ask (quota_ctx ''a'') Res_concurrency 1 (ask_b (((ask_a \<circ> ask_b) ^^ n) contended))
     \<and> \<not> granted (quota_ctx ''a'') Res_concurrency 1 0 (ask_b (((ask_a \<circ> ask_b) ^^ n) contended)))"
proof -
  have "((ask_a \<circ> ask_b) ^^ n) contended = contended" for n
    by (induction n) (simp_all add: contended_round)
  then show ?thesis using contended_round contended_reached by simp
qed

theorem wrr_bounded_wait_witness:
  "\<exists>m < length (turns_of contended (scope_of (quota_ctx ''b'')) Res_concurrency 1).
     granted (quota_ctx ''b'') Res_concurrency 1 0 ((ask (quota_ctx ''b'') Res_concurrency 1 0 ^^ m) contended)"
  by (rule wrr_bounded_wait[OF contended_round(2)])

end
