(* ===== verification/Json_Text.thy ===== *)
theory Json_Text
  imports Canonical_Json
begin

text \<open>
  \<open>json.dumps\<close> with sorted keys and compact separators is injective: the text determines the value up to
  the order of the keys.  Digests of such texts (the content of a revision, a policy decision, an audit
  record) therefore identify what was written, up to a collision of the digest.
\<close>

definition compact_json :: "json \<Rightarrow> string" where
  "compact_json v = dumps True None 0 v"

subsection \<open>Characters and strings\<close>

definition all_chars :: "char list" where
  "all_chars = map char_of (upto 0 255 :: int list)"

lemma char_in_all: "c \<in> set all_chars"
proof -
  have "(of_char c :: int) = int (of_char c)" by (rule of_nat_of_char [symmetric])
  moreover have "of_char c < (256 :: nat)" by simp
  ultimately have "0 \<le> (of_char c :: int)" "(of_char c :: int) \<le> 255" by linarith+
  then have "(of_char c :: int) \<in> set (upto 0 255)" by simp
  then have "char_of (of_char c :: int) \<in> set all_chars" by (simp only: all_chars_def set_map imageI)
  then show ?thesis by simp
qed

text \<open>The length of the escape a text starts with, read off its first two characters.\<close>

definition escape_size :: "string \<Rightarrow> int" where
  "escape_size s = (case s of
     c # d # _ \<Rightarrow> if c \<noteq> backslash then 1 else if d = CHR ''u'' then 6 else 2
   | _ \<Rightarrow> 1)"

definition unescape :: "string \<Rightarrow> int" where
  "unescape s = (case s of
     [c] \<Rightarrow> of_char c
   | [_, c] \<Rightarrow> if c = CHR ''b'' then 8 else if c = CHR ''t'' then 9 else if c = CHR ''n'' then 10
       else if c = CHR ''f'' then 12 else if c = CHR ''r'' then 13 else of_char c
   | [_, _, _, _, h, l] \<Rightarrow>
       (let v = (\<lambda>c. let n = of_char c in if n < 58 then n - 48 else n - 87) in 16 * v h + v l)
   | _ \<Rightarrow> 0)"

definition escape_shape :: "string \<Rightarrow> bool" where
  "escape_shape s \<longleftrightarrow> (case s of
     [c] \<Rightarrow> c \<noteq> backslash \<and> c \<noteq> quote_char
   | [b, c] \<Rightarrow> b = backslash \<and> c \<noteq> CHR ''u''
   | [b, u, _, _, _, _] \<Rightarrow> b = backslash \<and> u = CHR ''u''
   | _ \<Rightarrow> False)"

lemma escapes_checked:
  "list_all (\<lambda>c. unescape (escape_char True c) = of_char c \<and> escape_shape (escape_char True c)) all_chars"
  by code_simp

lemma unescape_escape: "unescape (escape_char True c) = of_char c"
  and escape_has_shape: "escape_shape (escape_char True c)"
  using escapes_checked char_in_all[of c] by (simp_all add: list_all_iff)

lemma escape_shapeE:
  assumes "escape_shape s"
  obtains (one) c where "s = [c]" "c \<noteq> backslash" "c \<noteq> quote_char"
    | (two) c where "s = [backslash, c]" "c \<noteq> CHR ''u''"
    | (six) a b c d where "s = [backslash, CHR ''u'', a, b, c, d]"
  using assms by (auto simp: escape_shape_def split: list.splits)

lemma escape_size_escape: "escape_size (escape_char True c @ x) = int (length (escape_char True c))"
  using escape_has_shape[of c] by (cases rule: escape_shapeE) (auto simp: escape_size_def split: list.split)

lemma quote_not_backslash: "quote_char \<noteq> backslash"
  by code_simp

lemma escape_not_quote: "escape_char True c = d # ds \<Longrightarrow> d \<noteq> quote_char"
  using escape_has_shape[of c] quote_not_backslash by (cases rule: escape_shapeE) auto

lemma escape_not_empty: "escape_char True c \<noteq> []"
  using escape_has_shape[of c] by (cases rule: escape_shapeE) auto

lemma escape_char_cancel:
  assumes "escape_char True c @ x = escape_char True d @ y"
  shows "c = d \<and> x = y"
proof -
  have "length (escape_char True c) = length (escape_char True d)"
    using assms escape_size_escape[of c x] escape_size_escape[of d y] by simp
  then have eq: "escape_char True c = escape_char True d" "x = y" using assms by simp_all
  have "(of_char c :: int) = of_char d" using eq(1) unescape_escape by metis
  then show ?thesis using eq(2) by (simp add: of_char_eq_iff)
qed

lemma escape_cancel:
  "escape True s @ quote_char # x = escape True t @ quote_char # y \<Longrightarrow> s = t \<and> x = y"
proof (induction s arbitrary: t)
  case Nil
  then show ?case
    by (cases t) (auto simp: escape_def Cons_eq_append_conv escape_not_empty dest: escape_not_quote escape_not_quote[OF sym])
next
  case (Cons c s)
  show ?case
  proof (cases t)
    case Nil
    then show ?thesis using Cons.prems
      by (auto simp: escape_def append_eq_Cons_conv escape_not_empty dest: escape_not_quote escape_not_quote[OF sym])
  next
    case (Cons d t')
    then have "escape_char True c @ escape True s @ quote_char # x = escape_char True d @ escape True t' @ quote_char # y"
      using Cons.prems by (simp add: escape_def)
    from escape_char_cancel[OF this] show ?thesis using Cons.IH Cons by blast
  qed
qed

lemma string_text_cancel: "string_text True s @ x = string_text True t @ y \<Longrightarrow> s = t \<and> x = y"
  using escape_cancel[of s x t y] by (simp add: string_text_def)

subsection \<open>Numbers\<close>

definition decimal :: "char \<Rightarrow> bool" where
  "decimal c \<longleftrightarrow> 48 \<le> (of_char c :: int) \<and> (of_char c :: int) \<le> 57"

definition digits_number :: "string \<Rightarrow> int" where
  "digits_number s = foldl (\<lambda>n c. 10 * n + (of_char c - 48)) 0 s"

lemma digit_char_value: "0 \<le> n \<Longrightarrow> n < 10 \<Longrightarrow> (of_char (digit_char n) :: int) = 48 + n"
  by (simp add: digit_char_def)

lemma digits_read: "0 \<le> n \<Longrightarrow> list_all decimal (digits n) \<and> digits n \<noteq> [] \<and> digits_number (digits n) = n"
proof (induction n rule: digits.induct)
  case (1 n)
  show ?case
  proof (cases "n < 10")
    case True
    then show ?thesis using 1(2) by (subst (1 2 3) digits.simps) (simp add: decimal_def digit_char_value digits_number_def)
  next
    case False
    have d: "digits n = digits (n div 10) @ [digit_char (n mod 10)]" using False by (subst digits.simps) simp
    have "0 \<le> n mod 10" "n mod 10 < 10" by simp_all
    then have v: "(of_char (digit_char (n mod 10)) :: int) = 48 + n mod 10" by (rule digit_char_value)
    show ?thesis using 1(1)[OF False] 1(2) v unfolding d by (simp add: decimal_def digits_number_def)
  qed
qed

text \<open>What may follow a value: nothing, a comma or a closing bracket.\<close>

definition closed :: "string \<Rightarrow> bool" where
  "closed x \<longleftrightarrow> (case x of [] \<Rightarrow> True | c # _ \<Rightarrow> c = CHR '','' \<or> c = CHR '']'' \<or> c = CHR ''}'')"

lemma closed_not_decimal: "closed (c # x) \<Longrightarrow> \<not> decimal c"
  by (auto simp: closed_def decimal_def)

lemma digits_prefix: "0 \<le> n \<Longrightarrow> closed x \<Longrightarrow> takeWhile decimal (digits n @ x) = digits n"
  using digits_read[of n] closed_not_decimal by (cases x) (auto simp: list_all_iff takeWhile_append2 takeWhile_tail)

lemma digits_cancel:
  assumes "digits n @ x = digits m @ y" "0 \<le> n" "0 \<le> m" "closed x" "closed y"
  shows "n = m \<and> x = y"
proof -
  have "digits n = digits m" using digits_prefix assms by metis
  then show ?thesis using assms(1-3) digits_read[of n] digits_read[of m] by (metis append_eq_append_conv)
qed

lemma digits_start: "0 \<le> n \<Longrightarrow> \<exists>c cs. digits n = c # cs \<and> decimal c"
  using digits_read[of n] by (cases "digits n") auto

lemma int_text_cancel:
  assumes "int_text n @ x = int_text m @ y" "closed x" "closed y"
  shows "n = m \<and> x = y"
proof -
  have minus: "\<not> decimal CHR ''-''" by (simp add: decimal_def)
  show ?thesis
  proof (cases "n < 0"; cases "m < 0")
    assume "n < 0" "m < 0"
    then show ?thesis using digits_cancel[of "- n" x "- m" y] assms by (auto simp: int_text_def)
  next
    assume "n < 0" "\<not> m < 0"
    then show ?thesis using assms(1) minus digits_start[of m] by (auto simp: int_text_def)
  next
    assume "\<not> n < 0" "m < 0"
    then show ?thesis using assms(1) minus digits_start[of n] by (auto simp: int_text_def)
  next
    assume "\<not> n < 0" "\<not> m < 0"
    then show ?thesis using digits_cancel[of n x m y] assms by (simp add: int_text_def)
  qed
qed

subsection \<open>Values\<close>

text \<open>The compact text of a value whose objects are in order already.\<close>

fun plain :: "json \<Rightarrow> string" where
  "plain (JStr s) = string_text True s"
| "plain (JList vs) = CHR ''['' # joined '','' (map plain vs) @ '']''"
| "plain (JMap m) = CHR ''{'' # joined '','' (map (\<lambda>(k, v). string_text True k @ CHR '':'' # plain v) m) @ ''}''"
| "plain v = scalar_text v"

lemma dumps_plain: "dumps True None d v = plain (materialize_wire v)"
proof (induction v arbitrary: d)
  case (JList vs)
  then show ?case by (cases vs) (simp_all add: bracketed_def new_line_def comp_def cong: map_cong)
next
  case (JMap m)
  let ?c = "\<lambda>(k, v). string_text True k @ '':'' @ dumps True None (d + 1) v"
  let ?p = "\<lambda>(k, v). string_text True k @ CHR '':'' # plain (materialize_wire v)"
  have "map ?c (sort_key fst m) = map ?p (sort_key fst m)"
    using JMap by (intro map_cong) (auto intro: snds.intros)
  then have "joined '','' (map ?c (sort_key fst m)) = joined '','' (map ?p (sort_key fst m))" by (simp only:)
  then show ?case unfolding dumps.simps materialize_wire.simps sort_values
    by (cases "sort_key fst m = []")
      (simp_all add: bracketed_def new_line_def comp_def case_prod_unfold colon_def)
qed simp_all

text \<open>The first character of a value's text tells its constructor.\<close>

definition kind_of_char :: "char \<Rightarrow> nat" where
  "kind_of_char c = (if c = CHR ''n'' then 0 else if c = CHR ''t'' then 1 else if c = CHR ''f'' then 2
     else if c = quote_char then 3 else if c = CHR ''['' then 4 else if c = CHR ''{'' then 5 else 6)"

fun kind_of :: "json \<Rightarrow> nat" where
  "kind_of JNull = 0"
| "kind_of (JBool b) = (if b then 1 else 2)"
| "kind_of (JStr _) = 3"
| "kind_of (JList _) = 4"
| "kind_of (JMap _) = 5"
| "kind_of (JInt _) = 6"

lemma kind_6: "decimal c \<or> c = CHR ''-'' \<Longrightarrow> kind_of_char c = 6 \<and> c \<notin> {CHR ''}'', CHR '']''}"
proof -
  have "list_all (\<lambda>d. \<not> decimal d) [CHR ''n'', CHR ''t'', CHR ''f'', quote_char, CHR ''['', CHR ''{'', CHR ''}'', CHR '']'']"
    "kind_of_char CHR ''-'' = 6"
    by code_simp+
  then show "decimal c \<or> c = CHR ''-'' \<Longrightarrow> ?thesis" by (auto simp: kind_of_char_def)
qed

lemma int_text_start: "\<exists>c cs. int_text n = c # cs \<and> (decimal c \<or> c = CHR ''-'')"
proof (cases "n < 0")
  case False
  then show ?thesis using digits_start[of n] by (auto simp: int_text_def)
qed (simp add: int_text_def)

lemma quote_differs:
  "quote_char \<noteq> CHR ''f''" "quote_char \<noteq> CHR ''t''" "quote_char \<noteq> CHR ''n''" "quote_char \<noteq> CHR ''}''"
  "quote_char \<noteq> CHR '']''" "quote_char \<noteq> CHR ''[''" "quote_char \<noteq> CHR ''{''"
  by code_simp+

lemma plain_start: "\<exists>c cs. plain v = c # cs \<and> kind_of_char c = kind_of v \<and> c \<notin> {CHR ''}'', CHR '']''}"
proof (cases v)
  case (JInt n)
  then show ?thesis using int_text_start[of n] kind_6 by auto
qed (use quote_differs in \<open>auto simp: kind_of_char_def string_text_def\<close>)

lemma plain_kind: "plain v @ x = plain w @ y \<Longrightarrow> kind_of v = kind_of w"
  using plain_start[of v] plain_start[of w] by auto

subsection \<open>Lists of items\<close>

lemma joined_Cons: "joined sep (x # xs) = x @ concat (map (\<lambda>y. sep @ y) xs)"
  by (induction xs arbitrary: x) auto

lemma tail_cancel:
  assumes "concat (map (\<lambda>v. '','' @ f v) vs) @ r # x = concat (map (\<lambda>v. '','' @ f v) ws) @ r # y"
    and "r \<in> {CHR ''}'', CHR '']''}"
    and "\<And>v w x y. v \<in> set vs \<Longrightarrow> f v @ x = f w @ y \<Longrightarrow> closed x \<Longrightarrow> closed y \<Longrightarrow> v = w \<and> x = y"
  shows "vs = ws \<and> x = y"
  using assms
proof (induction vs arbitrary: ws)
  case Nil
  then show ?case by (cases ws) auto
next
  case (Cons v vs)
  let ?rest = "\<lambda>vs x. concat (map (\<lambda>v. '','' @ f v) vs) @ r # x"
  have closed: "closed (?rest us z)" for us z using Cons.prems(2) by (cases us) (auto simp: closed_def)
  show ?case
  proof (cases ws)
    case Nil
    then show ?thesis using Cons.prems by auto
  next
    case (Cons w ws')
    then have "f v @ ?rest vs x = f w @ ?rest ws' y" using Cons.prems(1) by simp
    then have "v = w \<and> ?rest vs x = ?rest ws' y" using Cons.prems(3)[of v] closed by simp
    then show ?thesis using Cons.IH[of ws'] Cons.prems(2,3) Cons by (metis list.set_intros(2))
  qed
qed

lemma joined_cancel:
  assumes "joined '','' (map f vs) @ r # x = joined '','' (map f ws) @ r # y"
    and r: "r \<in> {CHR ''}'', CHR '']''}"
    and start: "\<And>v. \<exists>c cs. f v = c # cs \<and> c \<notin> {CHR ''}'', CHR '']''}"
    and item: "\<And>v w x y. v \<in> set vs \<Longrightarrow> f v @ x = f w @ y \<Longrightarrow> closed x \<Longrightarrow> closed y \<Longrightarrow> v = w \<and> x = y"
  shows "vs = ws \<and> x = y"
proof -
  let ?rest = "\<lambda>vs x. concat (map (\<lambda>v. '','' @ f v) vs) @ r # x"
  have closed: "closed (?rest us z)" for us z using r by (cases us) (auto simp: closed_def)
  have split: "joined '','' (map f (u # us)) @ r # z = f u @ ?rest us z" for u us z
    by (simp add: joined_Cons comp_def)
  show ?thesis
  proof (cases vs; cases ws)
    fix v vs' w ws' assume c: "vs = v # vs'" "ws = w # ws'"
    have "f v @ ?rest vs' x = f w @ ?rest ws' y" using assms(1) unfolding c split .
    moreover have "v \<in> set vs" using c by simp
    ultimately have "v = w \<and> ?rest vs' x = ?rest ws' y" using item closed by blast
    moreover have "vs' = ws' \<and> x = y"
      by (rule tail_cancel[of f vs' r x ws' y]) (use calculation r item c in auto)
    ultimately show ?thesis using c by simp
  next
    fix w ws' assume c: "vs = []" "ws = w # ws'"
    then have "r # x = f w @ ?rest ws' y" using assms(1) unfolding c split by simp
    then show ?thesis using start[of w] r by auto
  next
    fix v vs' assume c: "vs = v # vs'" "ws = []"
    then have "f v @ ?rest vs' x = r # y" using assms(1) unfolding c split by simp
    then show ?thesis using start[of v] r by auto
  qed (use assms(1) in auto)
qed

lemma plain_cancel: "plain v @ x = plain w @ y \<Longrightarrow> closed x \<Longrightarrow> closed y \<Longrightarrow> v = w \<and> x = y"
proof (induction v arbitrary: w x y)
  case (JInt n)
  then obtain m where w: "w = JInt m" using plain_kind[OF JInt(1)] by (cases w) (auto split: if_splits)
  then show ?case using int_text_cancel[of n x m y] JInt by simp
next
  case (JStr s)
  then obtain t where w: "w = JStr t" using plain_kind[OF JStr(1)] by (cases w) (auto split: if_splits)
  then show ?case using string_text_cancel[of s x t y] JStr by simp
next
  case (JList vs)
  then obtain ws where w: "w = JList ws" using plain_kind[OF JList(2)] by (cases w) (auto split: if_splits)
  have "vs = ws \<and> x = y"
  proof (rule joined_cancel[where f = plain and r = "CHR '']''"])
    show "joined '','' (map plain vs) @ CHR '']'' # x = joined '','' (map plain ws) @ CHR '']'' # y"
      using JList.prems(1) w by simp
    show "\<exists>c cs. plain v = c # cs \<and> c \<notin> {CHR ''}'', CHR '']''}" for v using plain_start[of v] by blast
  qed (use JList.IH in auto)
  then show ?case using w by simp
next
  case (JMap m)
  then obtain m' where w: "w = JMap m'" using plain_kind[OF JMap(2)] by (cases w) (auto split: if_splits)
  let ?f = "\<lambda>(k, v). string_text True k @ CHR '':'' # plain v"
  have "m = m' \<and> x = y"
  proof (rule joined_cancel[where f = ?f and r = "CHR ''}''"])
    show "joined '','' (map ?f m) @ CHR ''}'' # x = joined '','' (map ?f m') @ CHR ''}'' # y"
      using JMap.prems(1) w by simp
    show "\<exists>c cs. ?f kv = c # cs \<and> c \<notin> {CHR ''}'', CHR '']''}" for kv
      using quote_differs by (cases kv) (auto simp: string_text_def)
    show "kv = kw \<and> x = y" if "kv \<in> set m" "?f kv @ x = ?f kw @ y" "closed x" "closed y" for kv kw x y
    proof -
      obtain k v k' v' where c: "kv = (k, v)" "kw = (k', v')" by (cases kv; cases kw)
      then have k: "k = k' \<and> plain v @ x = plain v' @ y"
        using that(2) string_text_cancel[of k "CHR '':'' # plain v @ x" k' "CHR '':'' # plain v' @ y"] by simp
      then show ?thesis using JMap.IH[OF that(1), of v x v' y] that(3,4) c by (auto intro: snds.intros)
    qed
  qed simp
  then show ?case using w by simp
next
  case JNull
  then have "w = JNull" using plain_kind[OF JNull(1)] by (cases w) (auto split: if_splits)
  then show ?case using JNull by simp
next
  case (JBool b)
  then have "w = JBool b" using plain_kind[OF JBool(1)] by (cases w) (auto split: if_splits)
  then show ?case using JBool by simp
qed

theorem compact_json_inj:
  "compact_json v = compact_json w \<longleftrightarrow> materialize_wire v = materialize_wire w"
  using plain_cancel[of "materialize_wire v" "[]" "materialize_wire w" "[]"]
  by (auto simp: compact_json_def dumps_plain closed_def)

end
