(* ===== verification/Redaction.thy ===== *)
theory Redaction
  imports Canonical_Json
begin

text \<open>
  The recursive redaction of payloads (\<open>runtime/logging.py\<close>, which \<open>control_plane/redaction.py\<close> calls).
  The two regular-expression tests it applies, whether a key names a secret and what a message looks like
  without its secrets, are parameters.
\<close>

record redactor =
  rd_secret_key :: "string \<Rightarrow> bool"
  rd_message :: "string \<Rightarrow> string"

text \<open>What SHA-256 and the redaction stand for in the governance stores.\<close>

record digests =
  dg_sha256 :: "string \<Rightarrow> string"
  dg_redactor :: redactor

fun redact_value :: "redactor \<Rightarrow> json \<Rightarrow> json" where
  "redact_value rd (JMap m) = JMap (map (\<lambda>(k, v). (k, if rd_secret_key rd k then JStr ''***'' else redact_value rd v)) m)"
| "redact_value rd (JList vs) = JList (map (redact_value rd) vs)"
| "redact_value rd (JStr s) = JStr (if s = [] then s else rd_message rd s)"
| "redact_value rd v = v"

text \<open>The entries of a redacted dictionary.\<close>

definition redact_entries :: "redactor \<Rightarrow> (string, json) pydict \<Rightarrow> (string, json) pydict" where
  "redact_entries rd md = (case redact_value rd (JMap md) of JMap m \<Rightarrow> m | _ \<Rightarrow> [])"

lemma redact_entries_map: "redact_value rd (JMap md) = JMap (redact_entries rd md)"
  by (simp add: redact_entries_def)

text \<open>Redaction keeps the keys, and a key that names a secret holds nothing else.\<close>

lemma redact_entries_keys: "map fst (redact_entries rd md) = map fst md"
  by (simp add: redact_entries_def comp_def case_prod_unfold)

lemma redact_entries_secret:
  "(k, v) \<in> set (redact_entries rd md) \<Longrightarrow> rd_secret_key rd k \<Longrightarrow> v = JStr ''***''"
  by (auto simp: redact_entries_def)

text \<open>The redaction is idempotent when redacting a message is.\<close>

lemma redact_value_idem:
  assumes "\<And>s. rd_message rd (rd_message rd s) = rd_message rd s" "rd_message rd ''***'' = ''***''"
  shows "redact_value rd (redact_value rd v) = redact_value rd v"
proof (induction v)
  case (JMap m)
  then show ?case using assms(2) by (auto intro: snds.intros)
qed (use assms in auto)

end
