(* ===== verification/Policy.thy ===== *)
theory Policy
  imports Durable_Records Json_Text Redaction
begin

text \<open>
  Policy decisions of the control plane: the data-governance constraints
  (\<open>control_plane/governance_models.py\<close>), the decision envelopes and their fingerprint
  (\<open>policy_models.py\<close>), and the deterministic provider (\<open>policy_memory.py\<close>).  SHA-256 and the regular
  expressions of the redaction are parameters; the decision's identifier and time are arguments.  The
  attributes of a request range over dictionaries of text.
\<close>

subsection \<open>Governance constraints\<close>

record constraints =
  gc_classification :: "string option"
  gc_regions :: "string list"
  gc_masking :: "string list"
  gc_retention :: "int option"
  gc_egress :: "string list"
  gc_impacts :: "(string, string) pydict"

definition unconstrained :: constraints where
  "unconstrained = \<lparr>gc_classification = None, gc_regions = [], gc_masking = [], gc_retention = None,
     gc_egress = [], gc_impacts = []\<rparr>"

definition opt_json :: "string option \<Rightarrow> json" where
  "opt_json v = (case v of None \<Rightarrow> JNull | Some t \<Rightarrow> JStr t)"

definition constraints_dict :: "redactor \<Rightarrow> constraints \<Rightarrow> (string, json) pydict" where
  "constraints_dict rd g =
     [(''schema'', JStr ''etlantic.control_plane.governance_constraints/1''),
      (''classification'', (case gc_classification g of None \<Rightarrow> JNull
         | Some t \<Rightarrow> if t = [] then JNull else JStr (rd_message rd t))),
      (''residency_regions'', JList (map JStr (gc_regions g))),
      (''masking_profiles'', JList (map JStr (gc_masking g))),
      (''retention_days'', (case gc_retention g of None \<Rightarrow> JNull | Some n \<Rightarrow> JInt n)),
      (''egress_allowlist'', JList (map JStr (gc_egress g))),
      (''field_impacts'', redact_value rd (JMap (map (\<lambda>(k, v). (k, JStr v)) (gc_impacts g))))]"

text \<open>A proposed place is outside an allowlist that is not empty.\<close>

definition outside :: "string option \<Rightarrow> string list \<Rightarrow> bool" where
  "outside place allowed = (case place of None \<Rightarrow> False | Some p \<Rightarrow> allowed \<noteq> [] \<and> p \<notin> set allowed)"

definition crosses_boundary :: "constraints \<Rightarrow> string option \<Rightarrow> string option \<Rightarrow> bool" where
  "crosses_boundary g region egress \<longleftrightarrow> outside region (gc_regions g) \<or> outside egress (gc_egress g)"

definition merge_allowed :: "string list \<Rightarrow> string list \<Rightarrow> string list" where
  "merge_allowed a b = (if a \<noteq> [] \<and> b \<noteq> [] then sort (remdups (filter (\<lambda>x. x \<in> set b) a))
     else if a \<noteq> [] then a else b)"

text \<open>\<open>dict.fromkeys\<close>: the first occurrence of each value.\<close>

definition first_of_each :: "string list \<Rightarrow> string list" where
  "first_of_each xs = rev (remdups (rev xs))"

definition merge_retention :: "int option \<Rightarrow> int option \<Rightarrow> int option" where
  "merge_retention a b = (case b of None \<Rightarrow> a | Some n \<Rightarrow> (case a of None \<Rightarrow> Some n | Some m \<Rightarrow> Some (min m n)))"

definition merge_constraints :: "constraints \<Rightarrow> constraints \<Rightarrow> constraints" where
  "merge_constraints base other =
     \<lparr>gc_classification = or_opt (gc_classification other) (gc_classification base),
      gc_regions = merge_allowed (gc_regions base) (gc_regions other),
      gc_masking = first_of_each (gc_masking base @ gc_masking other),
      gc_retention = merge_retention (gc_retention base) (gc_retention other),
      gc_egress = merge_allowed (gc_egress base) (gc_egress other),
      gc_impacts = fold (\<lambda>(k, v). dput k v) (gc_impacts other) (gc_impacts base)\<rparr>"

subsection \<open>Decisions\<close>

datatype policy_effect = P_allow | P_deny | P_require_approval

record policy_bundle =
  pb_id :: string
  pb_version :: string
  pb_fingerprint :: string
  pb_metadata :: "(string, json) pydict"

record policy_decision =
  pd_id :: string
  pd_hook :: string
  pd_effect :: policy_effect
  pd_bundle :: string
  pd_fingerprint :: string
  pd_reasons :: "string list"
  pd_constraints :: constraints
  pd_evidence :: "string list"
  pd_plan :: "string option"
  pd_revision :: "string option"
  pd_created_at :: instant
  pd_metadata :: "(string, json) pydict"

definition fingerprint_payload :: "string \<Rightarrow> string \<Rightarrow> string option \<Rightarrow> string option
    \<Rightarrow> (string, json) pydict \<Rightarrow> json" where
  "fingerprint_payload bundle hook plan revision cs = JMap
     [(''bundle_id'', JStr bundle), (''hook'', JStr hook), (''plan_fingerprint'', JStr (of_opt plan)),
      (''revision_id'', JStr (of_opt revision)), (''constraints'', JMap cs)]"

definition compute_policy_fingerprint :: "digests \<Rightarrow> string \<Rightarrow> string \<Rightarrow> string option \<Rightarrow> string option
    \<Rightarrow> (string, json) pydict \<Rightarrow> string" where
  "compute_policy_fingerprint dg bundle hook plan revision cs =
     dg_sha256 dg (compact_json (fingerprint_payload bundle hook plan revision cs))"

definition decision_allows :: "policy_decision \<Rightarrow> bool" where
  "decision_allows d \<longleftrightarrow> pd_effect d = P_allow"

definition decision_requires_approval :: "policy_decision \<Rightarrow> bool" where
  "decision_requires_approval d \<longleftrightarrow> pd_effect d = P_require_approval"

subsection \<open>The provider\<close>

record policy =
  py_bundle :: string
  py_version :: string
  py_unavailable :: bool
  py_rules :: "(string \<times> string \<times> string, policy_effect) pydict"
  py_global :: "(string, policy_effect) pydict"
  py_constraints :: constraints

definition standard_rules :: "(string, policy_effect) pydict" where
  "standard_rules = [(''pre_plan'', P_allow), (''post_plan'', P_allow), (''pre_submit'', P_allow),
     (''pre_execution'', P_allow), (''post_execution'', P_allow), (''pre_promote'', P_require_approval),
     (''pre_repair'', P_allow), (''privileged_op'', P_require_approval)]"

definition new_policy :: "string \<Rightarrow> string \<Rightarrow> (string \<times> string \<times> string, policy_effect) pydict
    \<Rightarrow> (string, policy_effect) pydict \<Rightarrow> constraints \<Rightarrow> policy" where
  "new_policy bundle version rules global g = \<lparr>py_bundle = bundle, py_version = version,
     py_unavailable = False, py_rules = rules, py_global = (if global = [] then standard_rules else global),
     py_constraints = g\<rparr>"

definition set_rule :: "string \<Rightarrow> policy_effect \<Rightarrow> string option \<Rightarrow> string option \<Rightarrow> policy \<Rightarrow> policy" where
  "set_rule hook eff tenant workspace p = (case (tenant, workspace) of
     (Some t, Some w) \<Rightarrow> p\<lparr>py_rules := dput (t, w, hook) eff (py_rules p)\<rparr>
   | _ \<Rightarrow> p\<lparr>py_global := dput hook eff (py_global p)\<rparr>)"

definition policy_outage :: cp_error where
  "policy_outage = Cp_error ''PMCP503'' 503 ''policy provider unavailable''"

definition bundle_name :: "policy \<Rightarrow> string option \<Rightarrow> string" where
  "bundle_name p given = (case or_opt given (Some (py_bundle p)) of None \<Rightarrow> [] | Some b \<Rightarrow> b)"

definition get_bundle :: "digests \<Rightarrow> string option \<Rightarrow> policy \<Rightarrow> policy_bundle res" where
  "get_bundle dg given p = (if py_unavailable p then Inl policy_outage
     else Inr \<lparr>pb_id = bundle_name p given, pb_version = py_version p,
       pb_fingerprint = compute_policy_fingerprint dg (bundle_name p given) ''bundle'' None (Some (py_version p))
         (constraints_dict (dg_redactor dg) (py_constraints p)), pb_metadata = []\<rparr>)"

definition rule_for :: "policy \<Rightarrow> scope \<Rightarrow> string \<Rightarrow> policy_effect" where
  "rule_for p sc hook = (case dget (py_rules p) (fst sc, snd sc, hook) of
     Some eff \<Rightarrow> eff
   | None \<Rightarrow> (case dget (py_global p) hook of Some eff \<Rightarrow> eff | None \<Rightarrow> P_deny))"

definition reason_for :: "policy_effect \<Rightarrow> string \<Rightarrow> string" where
  "reason_for eff hook = (case eff of P_deny \<Rightarrow> ''policy denied hook=''
     | P_require_approval \<Rightarrow> ''approval required for hook='' | P_allow \<Rightarrow> ''policy allowed hook='') @ hook"

text \<open>A missing attribute and an empty one both count as none.\<close>

definition place_of :: "string \<Rightarrow> (string, string) pydict \<Rightarrow> string option" where
  "place_of name attrs = (case dget attrs name of None \<Rightarrow> None | Some t \<Rightarrow> if t = [] then None else Some t)"

definition with_resource :: "string option \<Rightarrow> (string, string) pydict \<Rightarrow> (string, string) pydict" where
  "with_resource resource attrs = (case resource of None \<Rightarrow> attrs
     | Some r \<Rightarrow> if dget attrs ''resource'' = None then dput ''resource'' r attrs else attrs)"

definition decide_effect :: "policy \<Rightarrow> scope \<Rightarrow> string \<Rightarrow> (string, string) pydict \<Rightarrow> policy_effect" where
  "decide_effect p sc hook attrs = (if crosses_boundary (py_constraints p) (place_of ''target_region'' attrs)
       (place_of ''egress_destination'' attrs) then P_deny else rule_for p sc hook)"

definition decide_policy :: "digests \<Rightarrow> ctx \<Rightarrow> string \<Rightarrow> string option \<Rightarrow> string option \<Rightarrow> string option
    \<Rightarrow> (string, string) pydict \<Rightarrow> string option \<Rightarrow> string \<Rightarrow> instant \<Rightarrow> policy \<Rightarrow> policy_decision res" where
  "decide_policy dg c hook plan revision resource attributes given uuid now p = (case get_bundle dg given p of
     Inl e \<Rightarrow> Inl e
   | Inr b \<Rightarrow> (let attrs = with_resource resource attributes; eff = decide_effect p (scope_of c) hook attrs in
       Inr \<lparr>pd_id = uuid, pd_hook = hook, pd_effect = eff, pd_bundle = pb_id b,
         pd_fingerprint = compute_policy_fingerprint dg (pb_id b) hook plan revision
           (constraints_dict (dg_redactor dg) (py_constraints p)),
         pd_reasons = [reason_for eff hook], pd_constraints = py_constraints p,
         pd_evidence = [''bundle:'' @ pb_fingerprint b], pd_plan = plan, pd_revision = revision,
         pd_created_at = now,
         pd_metadata = (if attrs = [] then []
           else [(''attributes'', JMap (map (\<lambda>(k, v). (k, JStr v)) attrs))])\<rparr>))"

subsection \<open>What a merge forbids\<close>

lemma outside_merge:
  "outside place (merge_allowed a b) \<longleftrightarrow>
     (outside place a \<or> outside place b) \<and> (a = [] \<or> b = [] \<or> set a \<inter> set b \<noteq> {})"
proof (cases "a = [] \<or> b = []")
  case True
  then show ?thesis by (auto simp: outside_def merge_allowed_def split: option.splits)
next
  case False
  then have merged: "merge_allowed a b = sort (remdups (filter (\<lambda>x. x \<in> set b) a))"
    by (simp add: merge_allowed_def)
  then have set: "set (merge_allowed a b) = set a \<inter> set b" by auto
  then have "merge_allowed a b = [] \<longleftrightarrow> set a \<inter> set b = {}" by (metis set_empty)
  then show ?thesis using False set by (auto simp: outside_def split: option.splits)
qed

subsection \<open>What a fingerprint fixes\<close>

lemma sorted_fingerprint:
  "sort_key fst [(''bundle_id'', a), (''hook'', b), (''plan_fingerprint'', c), (''revision_id'', d), (''constraints'', e)]
   = [(''bundle_id'', a), (''constraints'', e), (''hook'', b), (''plan_fingerprint'', c), (''revision_id'', d)]"
  by (simp add: less_char_def less_eq_char_def)

lemma sorted_constraints:
  "sort_key fst [(''schema'', a), (''classification'', b), (''residency_regions'', c), (''masking_profiles'', d),
      (''retention_days'', e), (''egress_allowlist'', f), (''field_impacts'', g)]
   = [(''classification'', b), (''egress_allowlist'', f), (''field_impacts'', g), (''masking_profiles'', d),
      (''residency_regions'', c), (''retention_days'', e), (''schema'', a)]"
  by (simp add: less_char_def less_eq_char_def)

lemma map_JStr_eq: "map (materialize_wire \<circ> JStr) xs = map JStr xs"
  by simp

lemma same_bounds:
  assumes "materialize_wire (JMap (constraints_dict rd g)) = materialize_wire (JMap (constraints_dict rd h))"
  shows "gc_regions g = gc_regions h \<and> gc_egress g = gc_egress h \<and> gc_masking g = gc_masking h
    \<and> gc_retention g = gc_retention h"
proof -
  have inj: "map JStr xs = map JStr ys \<longleftrightarrow> xs = ys" for xs ys by (simp add: inj_map_eq_map inj_def)
  have "materialize_wire (case r of None \<Rightarrow> JNull | Some n \<Rightarrow> JInt n) = (case r of None \<Rightarrow> JNull | Some n \<Rightarrow> JInt n)" for r
    by (cases r) simp_all
  with assms show ?thesis
    unfolding constraints_dict_def materialize_wire.simps list.map prod.case sorted_constraints
    by (auto simp: inj map_JStr_eq split: option.splits)
qed

lemma same_fingerprint:
  "compact_json (fingerprint_payload bundle hook plan revision cs)
     = compact_json (fingerprint_payload bundle' hook' plan' revision' cs')
   \<longleftrightarrow> bundle = bundle' \<and> hook = hook' \<and> of_opt plan = of_opt plan' \<and> of_opt revision = of_opt revision'
     \<and> materialize_wire (JMap cs) = materialize_wire (JMap cs')"
  unfolding compact_json_inj fingerprint_payload_def
  by (subst (1 2) materialize_wire.simps) (simp only: list.map prod.case sorted_fingerprint, auto)

subsection \<open>Properties\<close>

definition disjoint_allowlists :: "string list \<Rightarrow> string list \<Rightarrow> bool" where
  "disjoint_allowlists a b \<longleftrightarrow> a \<noteq> [] \<and> b \<noteq> [] \<and> set a \<inter> set b = {}"

text \<open>
  What a merge of two constraints forbids.  The merged constraints forbid a region or a destination
  exactly when one of the two does, except that two allowlists without a common element merge into the
  empty list, which allows everything.
\<close>

theorem merge_boundary:
  "crosses_boundary (merge_constraints a b) region egress \<longleftrightarrow>
     (outside region (gc_regions a) \<or> outside region (gc_regions b)) \<and> \<not> disjoint_allowlists (gc_regions a) (gc_regions b)
     \<or> (outside egress (gc_egress a) \<or> outside egress (gc_egress b)) \<and> \<not> disjoint_allowlists (gc_egress a) (gc_egress b)"
  by (auto simp: crosses_boundary_def merge_constraints_def outside_merge disjoint_allowlists_def)

lemma decided_policy:
  assumes "decide_policy dg c hook plan revision resource attrs given uuid now p = Inr d"
  shows "pd_effect d = decide_effect p (scope_of c) hook (with_resource resource attrs) \<and> pd_hook d = hook
    \<and> pd_plan d = plan \<and> pd_revision d = revision \<and> pd_constraints d = py_constraints p \<and> pd_id d = uuid
    \<and> pd_fingerprint d = dg_sha256 dg (compact_json (fingerprint_payload (bundle_name p given) hook plan revision
         (constraints_dict (dg_redactor dg) (py_constraints p)))) \<and> \<not> py_unavailable p"
  using assms by (auto simp: decide_policy_def get_bundle_def compute_policy_fingerprint_def Let_def split: if_splits)

text \<open>
  What a policy fingerprint binds.  Two decisions with the same fingerprint, of the same or of two
  providers, name the same bundle and were made for the same hook, plan and revision (a missing one counts
  as empty) under constraints with the same regions, destinations, masking and retention, unless the two
  texts that were hashed collide under SHA-256.
\<close>

theorem policy_fingerprint_binds:
  assumes "decide_policy dg c hook plan revision resource attrs given uuid now p = Inr d"
    and "decide_policy dg c' hook' plan' revision' resource' attrs' given' uuid' now' p' = Inr d'"
    and "pd_fingerprint d = pd_fingerprint d'"
  shows "bundle_name p given = bundle_name p' given' \<and> hook = hook' \<and> of_opt plan = of_opt plan'
      \<and> of_opt revision = of_opt revision' \<and> gc_regions (pd_constraints d) = gc_regions (pd_constraints d')
      \<and> gc_egress (pd_constraints d) = gc_egress (pd_constraints d')
      \<and> gc_masking (pd_constraints d) = gc_masking (pd_constraints d')
      \<and> gc_retention (pd_constraints d) = gc_retention (pd_constraints d')
    \<or> (\<exists>x y. x \<noteq> y \<and> dg_sha256 dg (compact_json x) = dg_sha256 dg (compact_json y)
        \<and> x = fingerprint_payload (bundle_name p given) hook plan revision (constraints_dict (dg_redactor dg) (pd_constraints d))
        \<and> y = fingerprint_payload (bundle_name p' given') hook' plan' revision'
                 (constraints_dict (dg_redactor dg) (pd_constraints d')))"
proof -
  note d = decided_policy[OF assms(1)] and d' = decided_policy[OF assms(2)]
  let ?x = "fingerprint_payload (bundle_name p given) hook plan revision (constraints_dict (dg_redactor dg) (pd_constraints d))"
  let ?y = "fingerprint_payload (bundle_name p' given') hook' plan' revision' (constraints_dict (dg_redactor dg) (pd_constraints d'))"
  have same: "dg_sha256 dg (compact_json ?x) = dg_sha256 dg (compact_json ?y)" using d d' assms(3) by simp
  show ?thesis
  proof (cases "?x = ?y")
    case True
    then have "compact_json ?x = compact_json ?y" by simp
    then show ?thesis using same_bounds[of "dg_redactor dg"] unfolding same_fingerprint by blast
  qed (use same in blast)
qed

text \<open>
  The provider fails closed.  A decision that does not deny was made by a rule for the hook (of the
  workspace, or else a global one) that does not deny, and none of the places the request names crosses the
  provider's constraints; while the provider is unavailable there is no decision at all.
\<close>

theorem policy_fails_closed:
  assumes "decide_policy dg c hook plan revision resource attrs given uuid now p = Inr d" "pd_effect d \<noteq> P_deny"
  shows "\<not> py_unavailable p \<and> pd_effect d = rule_for p (scope_of c) hook
    \<and> (dget (py_rules p) (cx_tenant c, cx_workspace c, hook) = Some (pd_effect d)
       \<or> dget (py_global p) hook = Some (pd_effect d))
    \<and> \<not> crosses_boundary (py_constraints p) (place_of ''target_region'' attrs) (place_of ''egress_destination'' attrs)"
proof -
  have place: "place_of name (with_resource resource attrs) = place_of name attrs" if "name \<noteq> ''resource''" for name
    using that by (simp add: place_of_def with_resource_def split: option.split)
  show ?thesis using decided_policy[OF assms(1)] assms(2)
    by (auto simp: decide_effect_def rule_for_def place scope_of_def split: if_splits option.splits)
qed

subsection \<open>A provider\<close>

definition residency :: policy where
  "residency = set_rule ''pre_submit'' P_allow (Some ''acme'') (Some ''main'')
     (new_policy ''default'' ''1'' [] [] (unconstrained\<lparr>gc_regions := [''eu'']\<rparr>))"

definition submitter :: ctx where
  "submitter = \<lparr>cx_principal = \<lparr>pr_subject = ''ann'', pr_issuer = None, pr_kind = Human\<rparr>, cx_tenant = ''acme'',
     cx_workspace = ''main'', cx_environment = ''prod'', cx_domain = ''d'', cx_owner = None\<rparr>"

definition plain_digests :: digests where
  "plain_digests = \<lparr>dg_sha256 = (\<lambda>x. x), dg_redactor = \<lparr>rd_secret_key = (\<lambda>k. k = ''token''), rd_message = (\<lambda>m. m)\<rparr>\<rparr>"

definition residency_decision :: policy_decision where
  "residency_decision = (case decide_policy plain_digests submitter ''pre_submit'' (Some ''f'') None (Some ''job'')
     [(''target_region'', ''eu'')] None ''d1'' 5 residency of Inr d \<Rightarrow> d)"

lemma residency_decided:
  "decide_policy plain_digests submitter ''pre_submit'' (Some ''f'') None (Some ''job'')
     [(''target_region'', ''eu'')] None ''d1'' 5 residency = Inr residency_decision"
  by (simp add: residency_decision_def decide_policy_def get_bundle_def residency_def set_rule_def new_policy_def Let_def)

theorem policy_fails_closed_witness:
  "pd_effect residency_decision = P_allow \<and> pd_effect residency_decision = rule_for residency (scope_of submitter) ''pre_submit''
   \<and> \<not> crosses_boundary (py_constraints residency) (Some ''eu'') None"
proof -
  have eff: "pd_effect residency_decision = P_allow"
    using decided_policy[OF residency_decided] by simp code_simp
  have place: "place_of ''target_region'' [(''target_region'', ''eu'')] = Some ''eu''"
    "place_of ''egress_destination'' [(''target_region'', ''eu'')] = None" by code_simp+
  show ?thesis using policy_fails_closed[OF residency_decided] eff unfolding place by simp
qed

text \<open>The same request to a provider with other rules, later: another decision, the same fingerprint.\<close>

definition later_decision :: policy_decision where
  "later_decision = (case decide_policy plain_digests submitter ''pre_submit'' (Some ''f'') (Some []) None [] None
     ''d2'' 9 (residency\<lparr>py_rules := [], py_global := []\<rparr>) of Inr d \<Rightarrow> d)"

lemma later_decided:
  "decide_policy plain_digests submitter ''pre_submit'' (Some ''f'') (Some []) None [] None
     ''d2'' 9 (residency\<lparr>py_rules := [], py_global := []\<rparr>) = Inr later_decision"
  by (simp add: later_decision_def decide_policy_def get_bundle_def residency_def set_rule_def new_policy_def Let_def)

theorem policy_fingerprint_binds_witness:
  "pd_effect later_decision = P_deny \<and> pd_fingerprint residency_decision = pd_fingerprint later_decision
   \<and> gc_regions (pd_constraints residency_decision) = gc_regions (pd_constraints later_decision)"
proof -
  have "pd_effect later_decision = P_deny" using decided_policy[OF later_decided] by simp code_simp
  moreover have same: "pd_fingerprint residency_decision = pd_fingerprint later_decision"
    using decided_policy[OF residency_decided] decided_policy[OF later_decided]
    by (simp add: fingerprint_payload_def bundle_name_def of_opt_def)
  moreover have "gc_regions (pd_constraints residency_decision) = gc_regions (pd_constraints later_decision)"
    using policy_fingerprint_binds[OF residency_decided later_decided same]
      decided_policy[OF residency_decided] decided_policy[OF later_decided]
    by (auto simp: fingerprint_payload_def bundle_name_def of_opt_def)
  ultimately show ?thesis by blast
qed

end
