(* ===== verification/Approvals.thy ===== *)
theory Approvals
  imports Durable_Records Canonical_Json Etl_Evolution
begin

text \<open>
  The approval store of the control plane (\<open>control_plane/approval_memory.py\<close>, records in
  \<open>approval_models.py\<close>): requests for approval, their decision under separation of duties, expiry,
  revocation and staleness, and the question whether an operation has a satisfied approval.  The clock
  and the identifiers that \<open>uuid4\<close> generates are arguments.
\<close>

subsection \<open>Records\<close>

datatype approval_status = Ap_pending | Ap_approved | Ap_denied | Ap_expired | Ap_revoked | Ap_stale

fun approval_status_text :: "approval_status \<Rightarrow> string" where
  "approval_status_text Ap_pending = ''pending''"
| "approval_status_text Ap_approved = ''approved''"
| "approval_status_text Ap_denied = ''denied''"
| "approval_status_text Ap_expired = ''expired''"
| "approval_status_text Ap_revoked = ''revoked''"
| "approval_status_text Ap_stale = ''stale''"

record approval_decision =
  ad_id :: string
  ad_approval :: string
  ad_approved :: bool
  ad_actor :: string
  ad_actor_issuer :: "string option"
  ad_created_at :: instant
  ad_reason :: "string option"
  ad_metadata :: "(string, json) pydict"

record approval =
  ap_id :: string
  ap_tenant :: string
  ap_workspace :: string
  ap_hook :: string
  ap_plan :: string
  ap_policy :: string
  ap_revision :: "string option"
  ap_requester :: string
  ap_requester_issuer :: "string option"
  ap_status :: approval_status
  ap_expires_at :: "instant option"
  ap_created_at :: instant
  ap_decided_at :: "instant option"
  ap_decisions :: "approval_decision list"
  ap_metadata :: "(string, json) pydict"

type_synonym approvals = "(key, approval) pydict"

subsection \<open>Operations\<close>

text \<open>A request, as its creation stores it; an empty identifier counts as none.\<close>

definition new_approval :: "ctx \<Rightarrow> string \<Rightarrow> string \<Rightarrow> string \<Rightarrow> string option \<Rightarrow> instant option \<Rightarrow> string \<Rightarrow> instant
    \<Rightarrow> approval" where
  "new_approval c hook plan policy revision expires aid now = \<lparr>ap_id = aid, ap_tenant = cx_tenant c,
     ap_workspace = cx_workspace c, ap_hook = hook, ap_plan = plan, ap_policy = policy,
     ap_revision = revision, ap_requester = pr_subject (cx_principal c),
     ap_requester_issuer = pr_issuer (cx_principal c), ap_status = Ap_pending, ap_expires_at = expires,
     ap_created_at = now, ap_decided_at = None, ap_decisions = [], ap_metadata = []\<rparr>"

definition approval_name :: "string option \<Rightarrow> string \<Rightarrow> string" where
  "approval_name given uuid = (case given of None \<Rightarrow> uuid | Some i \<Rightarrow> if i = [] then uuid else i)"

definition create_approval :: "ctx \<Rightarrow> string \<Rightarrow> string \<Rightarrow> string \<Rightarrow> string option \<Rightarrow> instant option
    \<Rightarrow> string option \<Rightarrow> string \<Rightarrow> instant \<Rightarrow> approvals \<Rightarrow> approval \<times> approvals" where
  "create_approval c hook plan policy revision expires given uuid now s =
     (let aid = approval_name given uuid; ap = new_approval c hook plan policy revision expires aid now in
      (ap, dput (mk_key (scope_of c) aid) ap s))"

text \<open>\<open>_refresh\<close>: an undecided or approved request past its expiry is stored as expired.\<close>

definition lapsed :: "instant \<Rightarrow> approval \<Rightarrow> bool" where
  "lapsed now ap \<longleftrightarrow> ap_status ap \<in> {Ap_pending, Ap_approved}
     \<and> (case ap_expires_at ap of None \<Rightarrow> False | Some t \<Rightarrow> t \<le> now)"

definition own_key :: "approval \<Rightarrow> key" where
  "own_key ap = mk_key (ap_tenant ap, ap_workspace ap) (ap_id ap)"

definition refresh_approval :: "instant \<Rightarrow> approval \<Rightarrow> approvals \<Rightarrow> approval \<times> approvals" where
  "refresh_approval now ap s = (if lapsed now ap
     then (let ap' = ap\<lparr>ap_status := Ap_expired, ap_decided_at := Some now\<rparr> in (ap', dput (own_key ap) ap' s))
     else (ap, s))"

abbreviation no_approval :: cp_error where "no_approval \<equiv> Not_found ''approval not found''"

definition get_approval :: "ctx \<Rightarrow> string \<Rightarrow> instant \<Rightarrow> approvals \<Rightarrow> (approvals, approval) outcome" where
  "get_approval c aid now s = (case dget s (mk_key (scope_of c) aid) of
     None \<Rightarrow> raise_in s no_approval
   | Some ap \<Rightarrow> (let (ap', s') = refresh_approval now ap s in return_in s' ap'))"

definition differs :: "string option \<Rightarrow> string \<Rightarrow> bool" where
  "differs given stored \<longleftrightarrow> (case given of None \<Rightarrow> False | Some x \<Rightarrow> x \<noteq> stored)"

definition decision_of :: "ctx \<Rightarrow> approval \<Rightarrow> bool \<Rightarrow> string option \<Rightarrow> string \<Rightarrow> instant \<Rightarrow> approval_decision" where
  "decision_of c ap approve reason uuid now = \<lparr>ad_id = uuid, ad_approval = ap_id ap, ad_approved = approve,
     ad_actor = pr_subject (cx_principal c), ad_actor_issuer = pr_issuer (cx_principal c),
     ad_created_at = now, ad_reason = reason, ad_metadata = []\<rparr>"

definition decided :: "ctx \<Rightarrow> approval \<Rightarrow> bool \<Rightarrow> string option \<Rightarrow> string \<Rightarrow> instant \<Rightarrow> approval" where
  "decided c ap approve reason uuid now = ap\<lparr>ap_status := (if approve then Ap_approved else Ap_denied),
     ap_decided_at := Some now, ap_decisions := ap_decisions ap @ [decision_of c ap approve reason uuid now]\<rparr>"

definition decide_approval :: "ctx \<Rightarrow> string \<Rightarrow> bool \<Rightarrow> string option \<Rightarrow> string option \<Rightarrow> string option
    \<Rightarrow> string \<Rightarrow> instant \<Rightarrow> approvals \<Rightarrow> (approvals, approval) outcome" where
  "decide_approval c aid approve reason plan policy uuid now s = (case dget s (mk_key (scope_of c) aid) of
     None \<Rightarrow> raise_in s no_approval
   | Some stored \<Rightarrow> (let (ap, s') = refresh_approval now stored s; k = mk_key (scope_of c) aid in
       if ap_status ap \<noteq> Ap_pending then raise_in s' (Conflict (''approval is '' @ approval_status_text (ap_status ap)))
       else if ap_requester ap = pr_subject (cx_principal c)
       then raise_in s' (Forbidden ''separation of duties: requester cannot decide'')
       else if differs plan (ap_plan ap) \<or> differs policy (ap_policy ap)
       then raise_in (dput k (ap\<lparr>ap_status := Ap_stale, ap_decided_at := Some now\<rparr>) s')
         (Conflict ''approval is stale relative to plan or policy fingerprint'')
       else (let ap' = decided c ap approve reason uuid now in return_in (dput k ap' s') ap')))"

definition revoke_approval :: "ctx \<Rightarrow> string \<Rightarrow> string option \<Rightarrow> instant \<Rightarrow> approvals \<Rightarrow> (approvals, approval) outcome" where
  "revoke_approval c aid reason now s = (case dget s (mk_key (scope_of c) aid) of
     None \<Rightarrow> raise_in s no_approval
   | Some stored \<Rightarrow> (let (ap, s') = refresh_approval now stored s in
       if ap_status ap \<notin> {Ap_pending, Ap_approved} then raise_in s' (Conflict (''cannot revoke approval in status '' @ approval_status_text (ap_status ap)))
       else (let ap' = ap\<lparr>ap_status := Ap_revoked, ap_decided_at := Some now,
               ap_metadata := dput ''revoke_reason'' (JStr (of_opt reason)) (ap_metadata ap)\<rparr> in
         return_in (dput (mk_key (scope_of c) aid) ap' s') ap')))"

text \<open>The loops over the rows of a scope, which store each row they refresh.\<close>

definition refresh_row :: "instant \<Rightarrow> key \<Rightarrow> approval \<Rightarrow> approvals \<Rightarrow> approval \<times> approvals" where
  "refresh_row now k ap s = (let (ap', s') = refresh_approval now ap s in
     (ap', dput (mk_key (key_scope k) (ap_id ap')) ap' s'))"

fun pending_rows :: "ctx \<Rightarrow> int \<Rightarrow> instant \<Rightarrow> (key \<times> approval) list \<Rightarrow> approval list \<Rightarrow> approvals
    \<Rightarrow> approval list \<times> approvals" where
  "pending_rows c limit now [] items s = (items, s)"
| "pending_rows c limit now ((k, ap) # rows) items s =
     (if key_scope k \<noteq> scope_of c then pending_rows c limit now rows items s
      else (let (ap', s') = refresh_row now k ap s;
                items' = (if ap_status ap' = Ap_pending then items @ [ap'] else items) in
        if limit \<le> int (length items') then (items', s') else pending_rows c limit now rows items' s'))"

definition list_pending :: "ctx \<Rightarrow> int \<Rightarrow> instant \<Rightarrow> approvals \<Rightarrow> approval list \<times> approvals" where
  "list_pending c limit now s = pending_rows c limit now s [] s"

definition satisfies :: "string \<Rightarrow> string \<Rightarrow> string option \<Rightarrow> string \<Rightarrow> approval \<Rightarrow> bool" where
  "satisfies plan policy revision hook ap \<longleftrightarrow> ap_status ap = Ap_approved \<and> ap_hook ap = hook
     \<and> ap_plan ap = plan \<and> ap_policy ap = policy \<and> (revision \<noteq> None \<longrightarrow> ap_revision ap = revision)"

fun satisfied_rows :: "ctx \<Rightarrow> string \<Rightarrow> string \<Rightarrow> string option \<Rightarrow> string \<Rightarrow> instant \<Rightarrow> (key \<times> approval) list
    \<Rightarrow> approvals \<Rightarrow> bool \<times> approvals" where
  "satisfied_rows c plan policy revision hook now [] s = (False, s)"
| "satisfied_rows c plan policy revision hook now ((k, ap) # rows) s =
     (if key_scope k \<noteq> scope_of c then satisfied_rows c plan policy revision hook now rows s
      else (let (ap', s') = refresh_row now k ap s in
        if satisfies plan policy revision hook ap' then (True, s')
        else satisfied_rows c plan policy revision hook now rows s'))"

definition is_satisfied :: "ctx \<Rightarrow> string \<Rightarrow> string \<Rightarrow> string option \<Rightarrow> string \<Rightarrow> instant \<Rightarrow> approvals
    \<Rightarrow> bool \<times> approvals" where
  "is_satisfied c plan policy revision hook now s = satisfied_rows c plan policy revision hook now s s"

end
