(* ===== verification/Attestations.thy ===== *)
theory Attestations
  imports Durable_Records Civil_Time
begin

text \<open>
  Supply-chain attestations and signed schema observations (\<open>control_plane/attestation_memory.py\<close>, records
  in \<open>attestation_models.py\<close>): what is signed, which attestations the store accepts, and the verification
  of a plan.  HMAC-SHA256 under the store's secret is the parameter \<open>mac\<close>; the clock and the identifiers
  that \<open>uuid4\<close> generates are arguments.  Timestamps are instants: an attestation refuses a time without
  a zone when it is constructed.
\<close>

declare split_paired_All [simp del] split_paired_Ex [simp del]

subsection \<open>Records\<close>

datatype attestation_kind =
  K_plan | K_revision | K_plugin | K_policy_bundle | K_sbom | K_schema_observation

fun kind_text :: "attestation_kind \<Rightarrow> string" where
  "kind_text K_plan = ''plan''"
| "kind_text K_revision = ''revision''"
| "kind_text K_plugin = ''plugin''"
| "kind_text K_policy_bundle = ''policy_bundle''"
| "kind_text K_sbom = ''sbom''"
| "kind_text K_schema_observation = ''schema_observation''"

record attestation =
  an_id :: string
  an_kind :: attestation_kind
  an_subject :: string
  an_signature :: string
  an_signer :: string
  an_tenant :: "string option"
  an_workspace :: "string option"
  an_environment :: "string option"
  an_sbom :: "string option"
  an_created_at :: instant
  an_metadata :: "(string, json) pydict"

record observation =
  ob_id :: string
  ob_tenant :: string
  ob_workspace :: string
  ob_environment :: string
  ob_schema :: string
  ob_signature :: string
  ob_signer :: string
  ob_created_at :: instant

record verification =
  vr_ok :: bool
  vr_reasons :: "string list"
  vr_attestation :: "string option"

record attestations =
  as_rows :: "(key, attestation) pydict"
  as_subjects :: "(scope \<times> attestation_kind \<times> string, string) pydict"
  as_observations :: "(key, observation) pydict"
  as_revoked :: "string list"

definition no_attestations :: attestations where
  "no_attestations = \<lparr>as_rows = [], as_subjects = [], as_observations = [], as_revoked = []\<rparr>"

definition signing_payload :: "attestation \<Rightarrow> string" where
  "signing_payload a = join_bar [''etlantic.control_plane.attestation/2'', kind_text (an_kind a), an_subject a,
     an_signer a, of_opt (an_tenant a), of_opt (an_workspace a), of_opt (an_environment a),
     of_opt (an_sbom a), iso_offset (an_created_at a)]"

definition observation_payload :: "observation \<Rightarrow> string" where
  "observation_payload o' = join_bar [ob_tenant o', ob_workspace o', ob_environment o', ob_schema o', ob_signer o']"

definition signed :: "(string \<Rightarrow> string) \<Rightarrow> attestation \<Rightarrow> bool" where
  "signed mac a \<longleftrightarrow> mac (signing_payload a) = an_signature a"

definition sign_attestation :: "(string \<Rightarrow> string) \<Rightarrow> attestation \<Rightarrow> attestation" where
  "sign_attestation mac a = a\<lparr>an_signature := mac (signing_payload a)\<rparr>"

definition make_attestation :: "(string \<Rightarrow> string) \<Rightarrow> ctx \<Rightarrow> attestation_kind \<Rightarrow> string \<Rightarrow> string option \<Rightarrow> string
    \<Rightarrow> instant \<Rightarrow> attestation" where
  "make_attestation mac c kind subject sbom uuid now = sign_attestation mac
     \<lparr>an_id = uuid, an_kind = kind, an_subject = subject, an_signature = [], an_signer = ''memory'',
      an_tenant = Some (cx_tenant c), an_workspace = Some (cx_workspace c),
      an_environment = Some (cx_environment c), an_sbom = sbom, an_created_at = now,
      an_metadata = []\<rparr>"

definition make_observation :: "(string \<Rightarrow> string) \<Rightarrow> ctx \<Rightarrow> string \<Rightarrow> string option \<Rightarrow> string \<Rightarrow> instant \<Rightarrow> observation" where
  "make_observation mac c schema environment uuid now =
     (let o' = \<lparr>ob_id = uuid, ob_tenant = cx_tenant c, ob_workspace = cx_workspace c,
        ob_environment = of_opt (or_opt environment (Some (cx_environment c))), ob_schema = schema,
        ob_signature = [], ob_signer = ''memory'', ob_created_at = now\<rparr> in
      o'\<lparr>ob_signature := mac (observation_payload o')\<rparr>)"

subsection \<open>The store\<close>

definition scoped_attestation :: "ctx \<Rightarrow> attestation \<Rightarrow> attestation" where
  "scoped_attestation c a = (if an_tenant a = None then a\<lparr>an_tenant := Some (cx_tenant c),
     an_workspace := Some (cx_workspace c), an_environment := Some (cx_environment c)\<rparr> else a)"

definition put_attestation :: "(string \<Rightarrow> string) \<Rightarrow> ctx \<Rightarrow> attestation \<Rightarrow> attestations
    \<Rightarrow> (attestations, attestation) outcome" where
  "put_attestation mac c given s = (let a = scoped_attestation c given in
     if an_tenant a \<noteq> Some (cx_tenant c) \<or> an_workspace a \<noteq> Some (cx_workspace c)
     then raise_in s (Forbidden ''attestation scope mismatch'')
     else if \<not> signed mac a then raise_in s (Forbidden ''invalid attestation signature'')
     else return_in (s\<lparr>as_rows := dput (mk_key (scope_of c) (an_id a)) a (as_rows s),
       as_subjects := dput (scope_of c, an_kind a, an_subject a) (an_id a) (as_subjects s)\<rparr>) a)"

definition revoke_attestation :: "ctx \<Rightarrow> string \<Rightarrow> attestations \<Rightarrow> attestations" where
  "revoke_attestation c aid s = s\<lparr>as_revoked := List.insert aid (as_revoked s)\<rparr>"

definition put_observation :: "(string \<Rightarrow> string) \<Rightarrow> ctx \<Rightarrow> observation \<Rightarrow> attestations
    \<Rightarrow> (attestations, observation) outcome" where
  "put_observation mac c o' s =
     (if (ob_tenant o', ob_workspace o') \<noteq> scope_of c then raise_in s (Forbidden ''observation scope mismatch'')
      else if mac (observation_payload o') \<noteq> ob_signature o'
      then raise_in s (Forbidden ''invalid observation signature'')
      else return_in (s\<lparr>as_observations := dput (mk_key (scope_of c) (ob_id o')) o' (as_observations s)\<rparr>) o')"

subsection \<open>Verification\<close>

abbreviation unverified :: "string \<Rightarrow> string option \<Rightarrow> verification" where
  "unverified reason aid \<equiv> \<lparr>vr_ok = False, vr_reasons = [reason], vr_attestation = aid\<rparr>"

abbreviation verified :: "string \<Rightarrow> verification" where
  "verified aid \<equiv> \<lparr>vr_ok = True, vr_reasons = [], vr_attestation = Some aid\<rparr>"

definition verify_observation :: "(string \<Rightarrow> string) \<Rightarrow> ctx \<Rightarrow> string \<Rightarrow> string option \<Rightarrow> attestations \<Rightarrow> verification" where
  "verify_observation mac c oid expected s = (case dget (as_observations s) (mk_key (scope_of c) oid) of
     None \<Rightarrow> unverified ''observation not found'' None
   | Some o' \<Rightarrow> if mac (observation_payload o') \<noteq> ob_signature o'
       then unverified ''forged or tampered observation'' (Some oid)
       else if expected \<noteq> None \<and> expected \<noteq> Some (ob_environment o')
       then unverified ''cross-environment observation rejected'' (Some oid)
       else verified oid)"

text \<open>One check: the attestation named for the subject, if it is signed, unrevoked and of a fresh date.\<close>

definition verify_one :: "(string \<Rightarrow> string) \<Rightarrow> ctx \<Rightarrow> int \<Rightarrow> instant \<Rightarrow> attestations
    \<Rightarrow> attestation_kind \<times> string \<Rightarrow> verification" where
  "verify_one mac c max_age now s check = (let text = kind_text (fst check) @ '' attestation'' in
     case dget (as_subjects s) (scope_of c, check) of
       None \<Rightarrow> unverified (''missing '' @ text) None
     | Some aid \<Rightarrow> if aid \<in> set (as_revoked s) then unverified (''revoked '' @ text) (Some aid)
       else (case dget (as_rows s) (mk_key (scope_of c) aid) of
           None \<Rightarrow> unverified (''tampered '' @ text) (Some aid)
         | Some a \<Rightarrow> if \<not> signed mac a then unverified (''tampered '' @ text) (Some aid)
           else if now - an_created_at a < - usec 300 then unverified (''future-dated '' @ text) (Some aid)
           else if usec max_age < now - an_created_at a then unverified (''stale '' @ text) (Some aid)
           else verified aid))"

definition plan_checks :: "string \<Rightarrow> string \<Rightarrow> string \<Rightarrow> string list \<Rightarrow> string option \<Rightarrow> (attestation_kind \<times> string) list" where
  "plan_checks plan revision policy plugins sbom =
     [(K_plan, plan), (K_revision, revision), (K_policy_bundle, policy)] @ map (Pair K_plugin) plugins
     @ (case sbom of None \<Rightarrow> [] | Some d \<Rightarrow> [(K_sbom, d)])"

definition verify_plan :: "(string \<Rightarrow> string) \<Rightarrow> ctx \<Rightarrow> string \<Rightarrow> string \<Rightarrow> string \<Rightarrow> string list \<Rightarrow> string option
    \<Rightarrow> int \<Rightarrow> instant \<Rightarrow> attestations \<Rightarrow> verification list res" where
  "verify_plan mac c plan revision policy plugins sbom max_age now s = (if max_age < 1
     then Inl (Cp_error ''PMCP400'' 400 ''attestation freshness bound must be a positive integer'')
     else Inr (map (verify_one mac c max_age now s) (plan_checks plan revision policy plugins sbom)))"

definition require_verified :: "verification list \<Rightarrow> unit res" where
  "require_verified results = (if filter (\<lambda>r. \<not> vr_ok r) results \<noteq> []
     then Inl (Forbidden ''attestation verification failed'') else Inr ())"

subsection \<open>Calls\<close>

datatype attestation_call =
  Put_attestation attestation | Revoke_attestation string | Put_observation observation

fun attestation_run :: "(string \<Rightarrow> string) \<Rightarrow> ctx \<Rightarrow> attestation_call \<Rightarrow> attestations \<Rightarrow> attestations" where
  "attestation_run mac c (Put_attestation a) s = snd (put_attestation mac c a s)"
| "attestation_run mac c (Revoke_attestation aid) s = revoke_attestation c aid s"
| "attestation_run mac c (Put_observation o') s = snd (put_observation mac c o' s)"

text \<open>A client that does not give the identifier of one attestation to one with another kind or subject.\<close>

fun keeps_names :: "ctx \<Rightarrow> attestation_call \<Rightarrow> attestations \<Rightarrow> bool" where
  "keeps_names c (Put_attestation a) s = (case dget (as_rows s) (mk_key (scope_of c) (an_id a)) of
     None \<Rightarrow> True | Some old \<Rightarrow> an_kind old = an_kind a \<and> an_subject old = an_subject a)"
| "keeps_names c _ s = True"

inductive attested :: "(string \<Rightarrow> string) \<Rightarrow> attestations \<Rightarrow> bool" for mac :: "string \<Rightarrow> string" where
  start: "attested mac no_attestations"
| call: "attested mac s \<Longrightarrow> keeps_names c call s \<Longrightarrow> attested mac (attestation_run mac c call s)"

text \<open>Every name leads to an attestation of its scope, kind and subject.\<close>

definition row_scoped :: "key \<Rightarrow> attestation \<Rightarrow> bool" where
  "row_scoped k a \<longleftrightarrow> an_tenant a = Some (fst (key_scope k)) \<and> an_workspace a = Some (snd (key_scope k))"

definition names_ok :: "attestations \<Rightarrow> bool" where
  "names_ok s \<longleftrightarrow>
     (\<forall>sc check aid. dget (as_subjects s) (sc, check) = Some aid \<longrightarrow>
        (\<exists>a. dget (as_rows s) (mk_key sc aid) = Some a \<and> (an_kind a, an_subject a) = check))
     \<and> (\<forall>k a. dget (as_rows s) k = Some a \<longrightarrow> row_scoped k a)"

lemma scoped_same [simp]:
  "an_id (scoped_attestation c a) = an_id a" "an_kind (scoped_attestation c a) = an_kind a"
  "an_subject (scoped_attestation c a) = an_subject a"
  by (simp_all add: scoped_attestation_def)

lemma put_attestation_ok:
  assumes "names_ok s" "keeps_names c (Put_attestation a) s"
  shows "names_ok (snd (put_attestation mac c a s))"
proof (cases "fst (put_attestation mac c a s)")
  case (Inl e)
  then show ?thesis using assms(1) by (auto simp: put_attestation_def Let_def split: if_splits)
next
  case (Inr b)
  let ?a = "scoped_attestation c a"
  let ?k = "mk_key (scope_of c) (an_id a)"
  have new: "an_tenant ?a = Some (cx_tenant c)" "an_workspace ?a = Some (cx_workspace c)"
    "snd (put_attestation mac c a s) = s\<lparr>as_rows := dput ?k ?a (as_rows s),
       as_subjects := dput (scope_of c, an_kind a, an_subject a) (an_id a) (as_subjects s)\<rparr>"
    using Inr by (auto simp: put_attestation_def Let_def split: if_splits)
  have old: "an_kind b = an_kind a \<and> an_subject b = an_subject a" if "dget (as_rows s) ?k = Some b" for b
    using assms(2) that by simp
  have "\<exists>b. dget (dput ?k ?a (as_rows s)) (mk_key sc aid) = Some b \<and> (an_kind b, an_subject b) = check"
    if "dget (dput (scope_of c, an_kind a, an_subject a) (an_id a) (as_subjects s)) (sc, check) = Some aid" for sc check aid
  proof (cases "(sc, check) = (scope_of c, an_kind a, an_subject a)")
    case False
    then have "dget (as_subjects s) (sc, check) = Some aid" using that by (auto split: if_splits)
    then obtain b where "dget (as_rows s) (mk_key sc aid) = Some b" "(an_kind b, an_subject b) = check"
      using assms(1) unfolding names_ok_def by blast
    then show ?thesis using old by (cases "mk_key sc aid = ?k") auto
  qed (use that in simp)
  moreover have "row_scoped k b" if "dget (dput ?k ?a (as_rows s)) k = Some b" for k b
    using that assms(1) new(1,2) by (auto simp: names_ok_def row_scoped_def scope_of_def split: if_splits)
  ultimately show ?thesis unfolding names_ok_def new(3) by simp
qed

lemma attested_ok: "attested mac s \<Longrightarrow> names_ok s"
proof (induction rule: attested.induct)
  case start
  then show ?case by (simp add: names_ok_def no_attestations_def)
next
  case (call s c call)
  show ?case
  proof (cases call)
    case (Put_attestation a)
    then show ?thesis using put_attestation_ok[OF call.IH] call.hyps(2) by simp
  next
    case (Put_observation o')
    then show ?thesis using call.IH by (auto simp: put_observation_def names_ok_def)
  qed (use call.IH in \<open>simp add: revoke_attestation_def names_ok_def\<close>)
qed

lemma verify_one_ok:
  "vr_ok (verify_one mac c max_age now s check) \<longleftrightarrow>
     (\<exists>aid a. dget (as_subjects s) (scope_of c, check) = Some aid \<and> aid \<notin> set (as_revoked s)
        \<and> dget (as_rows s) (mk_key (scope_of c) aid) = Some a \<and> signed mac a
        \<and> an_created_at a \<le> now + usec 300 \<and> now \<le> an_created_at a + usec max_age)"
  by (auto simp: verify_one_def Let_def split: option.splits)

lemma put_attestation_Inr:
  assumes "put_attestation mac c a s = (Inr b, s')"
  shows "b = scoped_attestation c a \<and> signed mac b \<and> an_tenant b = Some (cx_tenant c) \<and> an_workspace b = Some (cx_workspace c)
    \<and> s' = s\<lparr>as_rows := dput (mk_key (scope_of c) (an_id a)) b (as_rows s),
         as_subjects := dput (scope_of c, an_kind a, an_subject a) (an_id a) (as_subjects s)\<rparr>"
  using assms by (auto simp: put_attestation_def Let_def split: if_splits)

subsection \<open>Properties\<close>

text \<open>
  C26: What a verified plan has, as long as no client stores an attestation under the identifier of an
  earlier one with another kind or fingerprint (\<open>keeps_names\<close>, which the store does not enforce).  When every
  check of a plan passes, each fingerprint it names (the plan, the revision, the policy, every plugin and the
  bill of materials) has an attestation of the caller's tenant and workspace for exactly this kind and
  fingerprint, with a valid signature over them, unrevoked, at most five minutes in the future and not older
  than the bound.  Without that discipline the attestation found may be for something else, as
  \<open>replaced_attestation_vouches\<close> shows.
\<close>

theorem verified_plan_attested:
  assumes "attested mac s" "verify_plan mac c plan revision policy plugins sbom max_age now s = Inr results"
    and "require_verified results = Inr ()" "check \<in> set (plan_checks plan revision policy plugins sbom)"
  shows "\<exists>aid a. dget (as_rows s) (mk_key (scope_of c) aid) = Some a \<and> (an_kind a, an_subject a) = check
    \<and> an_tenant a = Some (cx_tenant c) \<and> an_workspace a = Some (cx_workspace c)
    \<and> mac (signing_payload a) = an_signature a \<and> aid \<notin> set (as_revoked s)
    \<and> an_created_at a \<le> now + usec 300 \<and> now \<le> an_created_at a + usec max_age"
proof -
  have "results = map (verify_one mac c max_age now s) (plan_checks plan revision policy plugins sbom)"
    using assms(2) by (auto simp: verify_plan_def split: if_splits)
  then have "vr_ok (verify_one mac c max_age now s check)"
    using assms(3,4) by (auto simp: require_verified_def filter_empty_conv split: if_splits)
  then obtain aid a where row: "dget (as_subjects s) (scope_of c, check) = Some aid" "aid \<notin> set (as_revoked s)"
    "dget (as_rows s) (mk_key (scope_of c) aid) = Some a" "signed mac a"
    "an_created_at a \<le> now + usec 300" "now \<le> an_created_at a + usec max_age"
    unfolding verify_one_ok by blast
  have ok: "names_ok s" using attested_ok[OF assms(1)] .
  then have "(an_kind a, an_subject a) = check" using row(1,3) unfolding names_ok_def by fastforce
  moreover have "row_scoped (mk_key (scope_of c) aid) a" using ok row(3) unfolding names_ok_def by blast
  ultimately show ?thesis using row unfolding row_scoped_def signed_def scope_of_def
    by (intro exI[of _ aid] exI[of _ a]) simp
qed

text \<open>
  The check never reads the kind or the fingerprint of the attestation it finds.  After an attestation for
  another fingerprint is stored under the identifier of an earlier one, the earlier fingerprint is verified
  by the later attestation: it passes exactly when the later one does.
\<close>

theorem replaced_attestation_vouches:
  assumes "put_attestation mac c a s = (Inr a', s1)" "put_attestation mac c b s1 = (Inr b', s2)"
    and "an_id a = an_id b" "(an_kind a, an_subject a) \<noteq> (an_kind b, an_subject b)"
  shows "vr_ok (verify_one mac c max_age now s2 (an_kind a, an_subject a))
      \<longleftrightarrow> vr_ok (verify_one mac c max_age now s2 (an_kind b, an_subject b))"
proof -
  note a = put_attestation_Inr[OF assms(1)] and b = put_attestation_Inr[OF assms(2)]
  have "dget (as_subjects s2) (scope_of c, an_kind a, an_subject a) = Some (an_id b)"
    "dget (as_subjects s2) (scope_of c, an_kind b, an_subject b) = Some (an_id b)"
    using a b assms(3,4) by auto
  then show ?thesis unfolding verify_one_ok by simp
qed

text \<open>
  A revocation does not outlive the identifier.  The signature covers neither the identifier nor the
  revocation, so a revoked attestation is accepted again under any unrevoked identifier, with its old
  signature, and verifies its fingerprint.
\<close>

theorem revocation_evaded:
  assumes "put_attestation mac c a s = (Inr a', s1)" "j \<notin> set (as_revoked s)" "j \<noteq> an_id a"
    and "an_created_at a \<le> now + usec 300" "now \<le> an_created_at a + usec max_age"
  shows "\<not> vr_ok (verify_one mac c max_age now (revoke_attestation c (an_id a) s1) (an_kind a, an_subject a))
    \<and> (\<exists>b s2. put_attestation mac c (a'\<lparr>an_id := j\<rparr>) (revoke_attestation c (an_id a) s1) = (Inr b, s2)
        \<and> an_signature b = an_signature a' \<and> vr_ok (verify_one mac c max_age now s2 (an_kind a, an_subject a)))"
proof -
  note a = put_attestation_Inr[OF assms(1)]
  then have here: "an_tenant a' = Some (cx_tenant c)" "an_workspace a' = Some (cx_workspace c)" "signed mac a'"
    "an_kind a' = an_kind a" "an_subject a' = an_subject a" "an_created_at a' = an_created_at a"
    by (auto simp: scoped_attestation_def)
  have moved: "signed mac (a'\<lparr>an_id := j\<rparr>)" "scoped_attestation c (a'\<lparr>an_id := j\<rparr>) = a'\<lparr>an_id := j\<rparr>"
    using here by (simp_all add: signed_def signing_payload_def scoped_attestation_def)
  define r where "r = revoke_attestation c (an_id a) s1"
  define s2 where "s2 = r\<lparr>as_rows := dput (mk_key (scope_of c) j) (a'\<lparr>an_id := j\<rparr>) (as_rows r),
      as_subjects := dput (scope_of c, an_kind a, an_subject a) j (as_subjects r)\<rparr>"
  have put: "put_attestation mac c (a'\<lparr>an_id := j\<rparr>) r = (Inr (a'\<lparr>an_id := j\<rparr>), s2)"
    using here moved by (simp add: put_attestation_def Let_def s2_def)
  have "vr_ok (verify_one mac c max_age now s2 (an_kind a, an_subject a))"
    using assms(2-5) a here moved(1) unfolding verify_one_ok
    by (intro exI[of _ j] exI[of _ "a'\<lparr>an_id := j\<rparr>"]) (simp add: s2_def r_def revoke_attestation_def)
  moreover have "\<not> vr_ok (verify_one mac c max_age now r (an_kind a, an_subject a))"
    using a unfolding verify_one_ok by (simp add: r_def revoke_attestation_def)
  ultimately show ?thesis using put unfolding r_def[symmetric] by auto
qed

subsection \<open>An attested plan\<close>

definition signer :: ctx where
  "signer = \<lparr>cx_principal = \<lparr>pr_subject = ''ann'', pr_issuer = None, pr_kind = Human\<rparr>, cx_tenant = ''acme'',
     cx_workspace = ''main'', cx_environment = ''prod'', cx_domain = ''d'', cx_owner = None\<rparr>"

definition signed_plan :: attestation where
  "signed_plan = make_attestation (\<lambda>x. x) signer K_plan ''p'' None ''a1'' 0"

definition signed_revision :: attestation where
  "signed_revision = make_attestation (\<lambda>x. x) signer K_revision ''r'' None ''a2'' 0"

definition signed_policy :: attestation where
  "signed_policy = make_attestation (\<lambda>x. x) signer K_policy_bundle ''q'' None ''a3'' 0"

definition attested_store :: attestations where
  "attested_store = attestation_run (\<lambda>x. x) signer (Put_attestation signed_policy)
     (attestation_run (\<lambda>x. x) signer (Put_attestation signed_revision)
       (attestation_run (\<lambda>x. x) signer (Put_attestation signed_plan) no_attestations))"

lemmas sample_defs = signed_plan_def signed_revision_def signed_policy_def make_attestation_def sign_attestation_def
  signer_def put_attestation_def scoped_attestation_def signed_def signing_payload_def

lemma attested_store_rows:
  "attested_store = \<lparr>as_rows = [(mk_key (scope_of signer) ''a1'', signed_plan), (mk_key (scope_of signer) ''a2'', signed_revision),
       (mk_key (scope_of signer) ''a3'', signed_policy)],
     as_subjects = [((scope_of signer, K_plan, ''p''), ''a1''), ((scope_of signer, K_revision, ''r''), ''a2''),
       ((scope_of signer, K_policy_bundle, ''q''), ''a3'')], as_observations = [], as_revoked = []\<rparr>"
  by (simp add: attested_store_def no_attestations_def sample_defs Let_def)

lemma attested_store_reached: "attested (\<lambda>x. x) attested_store"
  unfolding attested_store_def
  by (intro attested.intros) (simp_all add: no_attestations_def sample_defs Let_def)

theorem verified_plan_attested_witness:
  "require_verified (map (verify_one (\<lambda>x. x) signer 60 1 attested_store) (plan_checks ''p'' ''r'' ''q'' [] None)) = Inr ()
   \<and> (\<exists>aid a. dget (as_rows attested_store) (mk_key (scope_of signer) aid) = Some a
        \<and> (an_kind a, an_subject a) = (K_revision, ''r''))"
proof -
  let ?results = "map (verify_one (\<lambda>x. x) signer 60 1 attested_store) (plan_checks ''p'' ''r'' ''q'' [] None)"
  have checked: "verify_plan (\<lambda>x. x) signer ''p'' ''r'' ''q'' [] None 60 1 attested_store = Inr ?results"
    by (simp add: verify_plan_def)
  have passed: "require_verified ?results = Inr ()"
    by (simp add: require_verified_def plan_checks_def verify_one_ok attested_store_rows)
      (simp add: sample_defs)
  have "(K_revision, ''r'') \<in> set (plan_checks ''p'' ''r'' ''q'' [] None)" by (simp add: plan_checks_def)
  from verified_plan_attested[OF attested_store_reached checked passed this] show ?thesis using passed by blast
qed

text \<open>The plan's attestation, and one for a revision under the same identifier.\<close>

definition plan_stored :: attestations where
  "plan_stored = snd (put_attestation (\<lambda>x. x) signer signed_plan no_attestations)"

definition borrowed :: attestation where
  "borrowed = make_attestation (\<lambda>x. x) signer K_revision ''other'' None ''a1'' 0"

lemma plan_put: "put_attestation (\<lambda>x. x) signer signed_plan no_attestations = (Inr signed_plan, plan_stored)"
  by (simp add: plan_stored_def sample_defs Let_def)

lemma borrowed_put: "put_attestation (\<lambda>x. x) signer borrowed plan_stored
    = (Inr borrowed, snd (put_attestation (\<lambda>x. x) signer borrowed plan_stored))"
  by (simp add: borrowed_def sample_defs Let_def)

theorem replaced_attestation_vouches_witness:
  "vr_ok (verify_one (\<lambda>x. x) signer 60 1 (snd (put_attestation (\<lambda>x. x) signer borrowed plan_stored)) (K_plan, ''p''))
   = vr_ok (verify_one (\<lambda>x. x) signer 60 1 (snd (put_attestation (\<lambda>x. x) signer borrowed plan_stored)) (K_revision, ''other''))"
  using replaced_attestation_vouches[OF plan_put borrowed_put, of 60 1]
  by (simp add: borrowed_def signed_plan_def make_attestation_def sign_attestation_def)

theorem revocation_evaded_witness:
  "\<exists>b s2. put_attestation (\<lambda>x. x) signer (signed_plan\<lparr>an_id := ''new''\<rparr>) (revoke_attestation signer ''a1'' plan_stored) = (Inr b, s2)
     \<and> an_signature b = an_signature signed_plan \<and> vr_ok (verify_one (\<lambda>x. x) signer 60 1 s2 (K_plan, ''p''))"
proof -
  have plan: "an_id signed_plan = ''a1''" "an_kind signed_plan = K_plan" "an_subject signed_plan = ''p''"
    "an_created_at signed_plan = 0"
    by (simp_all add: signed_plan_def make_attestation_def sign_attestation_def)
  have "''new'' \<notin> set (as_revoked no_attestations)" by (simp add: no_attestations_def)
  from revocation_evaded[OF plan_put this, of 1 60] show ?thesis unfolding plan by simp
qed

end
