(* ===== verification/Audit_Chain.thy ===== *)
theory Audit_Chain
  imports Durable_Records Json_Text Civil_Time Policy
begin

text \<open>
  The audit evidence of the control plane (\<open>control_plane/audit_memory.py\<close>, records in
  \<open>audit_models.py\<close>): one hash-linked chain of records for each tenant and workspace, its verification, and
  its export and restoration.  SHA-256 and the redaction of metadata are parameters, and so are the clock
  and the identifiers that \<open>uuid4\<close> generates.
\<close>

declare split_paired_All [simp del] split_paired_Ex [simp del]

subsection \<open>Records\<close>

record audit_record =
  au_id :: string
  au_tenant :: string
  au_workspace :: string
  au_actor :: string
  au_actor_issuer :: "string option"
  au_action :: string
  au_resource :: string
  au_prev :: string
  au_hash :: string
  au_refs :: "string list"
  au_created_at :: instant
  au_metadata :: "(string, json) pydict"

record audit_export =
  ae_id :: string
  ae_tenant :: string
  ae_workspace :: string
  ae_records :: "audit_record list"
  ae_tip :: string
  ae_created_at :: instant

type_synonym audit_chains = "(scope, audit_record list) pydict"

definition genesis :: string where "genesis = replicate 64 CHR ''0''"

subsection \<open>The hash of a record\<close>

definition hashed_payload :: "digests \<Rightarrow> string \<Rightarrow> string \<Rightarrow> string \<Rightarrow> string \<Rightarrow> string list \<Rightarrow> instant
    \<Rightarrow> (string, json) pydict \<Rightarrow> json" where
  "hashed_payload dg prev actor action resource refs created md = JMap
     [(''prev_hash'', JStr prev), (''actor_subject'', JStr actor), (''action'', JStr action),
      (''resource'', JStr resource), (''decision_refs'', JList (map JStr refs)),
      (''created_at'', JStr (iso_offset created)), (''metadata'', redact_value (dg_redactor dg) (JMap md))]"

definition record_hash :: "digests \<Rightarrow> string \<Rightarrow> string \<Rightarrow> string \<Rightarrow> string \<Rightarrow> string list \<Rightarrow> instant
    \<Rightarrow> (string, json) pydict \<Rightarrow> string" where
  "record_hash dg prev actor action resource refs created md =
     dg_sha256 dg (compact_json (hashed_payload dg prev actor action resource refs created md))"

subsection \<open>The store\<close>

definition chain_of :: "ctx \<Rightarrow> audit_chains \<Rightarrow> audit_record list" where
  "chain_of c s = (case dget s (scope_of c) of None \<Rightarrow> [] | Some chain \<Rightarrow> chain)"

definition tip_of :: "audit_record list \<Rightarrow> string" where
  "tip_of chain = (if chain = [] then genesis else au_hash (last chain))"

definition name_or :: "string option \<Rightarrow> string \<Rightarrow> string" where
  "name_or given uuid = (case given of None \<Rightarrow> uuid | Some i \<Rightarrow> if i = [] then uuid else i)"

definition new_record :: "digests \<Rightarrow> ctx \<Rightarrow> string \<Rightarrow> string \<Rightarrow> string list \<Rightarrow> (string, json) pydict
    \<Rightarrow> string \<Rightarrow> instant \<Rightarrow> string \<Rightarrow> audit_record" where
  "new_record dg c action resource refs md rid now prev =
     (let meta = redact_entries (dg_redactor dg) md; actor = pr_subject (cx_principal c) in
      \<lparr>au_id = rid, au_tenant = cx_tenant c, au_workspace = cx_workspace c, au_actor = actor,
       au_actor_issuer = pr_issuer (cx_principal c), au_action = action, au_resource = resource,
       au_prev = prev, au_hash = record_hash dg prev actor action resource refs now meta,
       au_refs = refs, au_created_at = now, au_metadata = meta\<rparr>)"

definition append_audit :: "digests \<Rightarrow> ctx \<Rightarrow> string \<Rightarrow> string \<Rightarrow> string list \<Rightarrow> (string, json) pydict
    \<Rightarrow> string option \<Rightarrow> string \<Rightarrow> instant \<Rightarrow> audit_chains \<Rightarrow> audit_record \<times> audit_chains" where
  "append_audit dg c action resource refs md given uuid now s =
     (let r = new_record dg c action resource refs md (name_or given uuid) now (tip_of (chain_of c s)) in
      (r, dput (scope_of c) (chain_of c s @ [r]) s))"

fun index_after :: "string \<Rightarrow> nat \<Rightarrow> audit_record list \<Rightarrow> nat" where
  "index_after i n [] = 0"
| "index_after i n (r # rs) = (if au_id r = i then n + 1 else index_after i (n + 1) rs)"

definition list_audit :: "ctx \<Rightarrow> nat \<Rightarrow> string option \<Rightarrow> audit_chains \<Rightarrow> audit_record list" where
  "list_audit c limit after s = (let chain = chain_of c s;
     start = (case after of None \<Rightarrow> 0 | Some i \<Rightarrow> index_after i 0 chain) in
     take limit (drop start chain))"

text \<open>The loop that both \<open>verify_chain\<close> and \<open>restore\<close> run.\<close>

definition rehash :: "digests \<Rightarrow> string \<Rightarrow> audit_record \<Rightarrow> string" where
  "rehash dg prev r = record_hash dg prev (au_actor r) (au_action r) (au_resource r) (au_refs r)
     (au_created_at r) (au_metadata r)"

fun linked :: "digests \<Rightarrow> string \<Rightarrow> audit_record list \<Rightarrow> bool" where
  "linked dg prev [] \<longleftrightarrow> True"
| "linked dg prev (r # rs) \<longleftrightarrow> au_prev r = prev \<and> au_hash r = rehash dg prev r \<and> linked dg (au_hash r) rs"

definition verify_chain :: "digests \<Rightarrow> ctx \<Rightarrow> audit_chains \<Rightarrow> bool" where
  "verify_chain dg c s = linked dg genesis (chain_of c s)"

definition export_audit :: "ctx \<Rightarrow> nat \<Rightarrow> string \<Rightarrow> instant \<Rightarrow> audit_chains \<Rightarrow> audit_export" where
  "export_audit c limit uuid now s = (let chain = take limit (chain_of c s) in
     \<lparr>ae_id = uuid, ae_tenant = cx_tenant c, ae_workspace = cx_workspace c, ae_records = chain,
      ae_tip = tip_of chain, ae_created_at = now\<rparr>)"

definition restore_audit :: "digests \<Rightarrow> ctx \<Rightarrow> audit_export \<Rightarrow> audit_chains \<Rightarrow> (audit_chains, nat) outcome" where
  "restore_audit dg c e s =
     (if ae_tenant e \<noteq> cx_tenant c \<or> ae_workspace e \<noteq> cx_workspace c
      then raise_in s (Forbidden ''audit export scope mismatch'')
      else if chain_of c s \<noteq> [] then raise_in s (Conflict ''cannot restore onto non-empty chain'')
      else if tip_of (ae_records e) \<noteq> ae_tip e then raise_in s (Conflict ''audit export tip mismatch'')
      else if \<not> linked dg genesis (ae_records e) then raise_in s (Conflict ''audit export chain invalid'')
      else return_in (dput (scope_of c) (ae_records e) s) (length (ae_records e)))"

subsection \<open>Chains\<close>

lemma linked_append:
  "linked dg prev (xs @ ys) \<longleftrightarrow> linked dg prev xs \<and> linked dg (if xs = [] then prev else au_hash (last xs)) ys"
  by (induction dg prev xs rule: linked.induct) auto

lemma linked_new:
  "linked dg genesis chain \<Longrightarrow>
   linked dg genesis (chain @ [new_record dg c action resource refs md rid now (tip_of chain)])"
  by (auto simp: linked_append tip_of_def new_record_def Let_def rehash_def)

datatype audit_call =
    Append string string "string list" "(string, json) pydict" "string option" string
  | Restore audit_export

fun audit_run :: "digests \<Rightarrow> ctx \<Rightarrow> audit_call \<Rightarrow> instant \<Rightarrow> audit_chains \<Rightarrow> audit_chains" where
  "audit_run dg c (Append action resource refs md given uuid) now s =
     snd (append_audit dg c action resource refs md given uuid now s)"
| "audit_run dg c (Restore e) now s = snd (restore_audit dg c e s)"

inductive audit_reached :: "digests \<Rightarrow> audit_chains \<Rightarrow> bool" for dg :: digests where
  start: "audit_reached dg []"
| call: "audit_reached dg s \<Longrightarrow> audit_reached dg (audit_run dg c call now s)"

definition chains_ok :: "digests \<Rightarrow> audit_chains \<Rightarrow> bool" where
  "chains_ok dg s \<longleftrightarrow> (\<forall>sc chain. dget s sc = Some chain \<longrightarrow> linked dg genesis chain)"

lemma chains_ok_of: "chains_ok dg s \<Longrightarrow> linked dg genesis (chain_of c s)"
  unfolding chains_ok_def chain_of_def by (cases "dget s (scope_of c)") auto

lemma chains_ok_run: "chains_ok dg s \<Longrightarrow> chains_ok dg (audit_run dg c call now s)"
proof (cases call)
  case (Append action resource refs md given uuid)
  assume ok: "chains_ok dg s"
  then show ?thesis using Append linked_new[OF chains_ok_of[OF ok]]
    by (auto simp: append_audit_def Let_def chains_ok_def)
qed (auto simp: restore_audit_def chains_ok_def)

lemma audit_reached_ok: "audit_reached dg s \<Longrightarrow> chains_ok dg s"
  by (induction rule: audit_reached.induct) (simp_all add: chains_ok_run, simp add: chains_ok_def)

subsection \<open>What a hash fixes\<close>

text \<open>The part of a record that its hash covers, with the text of its time and its metadata in key order.\<close>

definition covered :: "digests \<Rightarrow> audit_record \<Rightarrow> string \<times> string \<times> string \<times> string \<times> string list \<times> string \<times> json" where
  "covered dg r = (au_prev r, au_actor r, au_action r, au_resource r, au_refs r, iso_offset (au_created_at r),
     materialize_wire (redact_value (dg_redactor dg) (JMap (au_metadata r))))"

definition hashed_text :: "digests \<Rightarrow> audit_record \<Rightarrow> string" where
  "hashed_text dg r = compact_json (hashed_payload dg (au_prev r) (au_actor r) (au_action r) (au_resource r)
     (au_refs r) (au_created_at r) (au_metadata r))"

lemma materialize_texts [simp]: "map (materialize_wire \<circ> JStr) xs = map JStr xs"
  by simp

lemma sorted_payload:
  "sort_key fst [(''prev_hash'', a), (''actor_subject'', b), (''action'', c), (''resource'', d),
     (''decision_refs'', e), (''created_at'', f), (''metadata'', g)] =
   [(''action'', c), (''actor_subject'', b), (''created_at'', f), (''decision_refs'', e), (''metadata'', g),
    (''prev_hash'', a), (''resource'', d)]"
  by (simp add: less_char_def less_eq_char_def)

lemma hashed_text_covers: "hashed_text dg a = hashed_text dg b \<longleftrightarrow> covered dg a = covered dg b"
  unfolding hashed_text_def compact_json_inj hashed_payload_def materialize_wire.simps list.map prod.case sorted_payload
  by (auto simp: covered_def inj_map_eq_map inj_def)

text \<open>Two different texts with the same digest among those hashed, or a text whose digest is the genesis value.\<close>

definition hash_broken :: "digests \<Rightarrow> audit_record list \<Rightarrow> audit_record list \<Rightarrow> bool" where
  "hash_broken dg xs ys \<longleftrightarrow>
     (\<exists>a \<in> set xs. \<exists>b \<in> set ys. hashed_text dg a \<noteq> hashed_text dg b
        \<and> dg_sha256 dg (hashed_text dg a) = dg_sha256 dg (hashed_text dg b))
     \<or> (\<exists>a \<in> set xs \<union> set ys. dg_sha256 dg (hashed_text dg a) = genesis)"

lemma linked_hash: "linked dg prev (xs @ [r]) \<Longrightarrow> au_hash r = dg_sha256 dg (hashed_text dg r)
    \<and> au_prev r = (if xs = [] then prev else au_hash (last xs)) \<and> linked dg prev xs"
  by (auto simp: linked_append rehash_def record_hash_def hashed_text_def)

lemma linked_unique:
  "linked dg genesis xs \<Longrightarrow> linked dg genesis ys \<Longrightarrow> tip_of xs = tip_of ys \<Longrightarrow>
   map (covered dg) xs = map (covered dg) ys \<or> hash_broken dg xs ys"
proof (induction xs arbitrary: ys rule: rev_induct)
  case Nil
  then show ?case by (cases ys rule: rev_cases) (auto simp: tip_of_def hash_broken_def dest: linked_hash)
next
  case (snoc r rs)
  note r = linked_hash[OF snoc.prems(1)]
  show ?case
  proof (cases ys rule: rev_cases)
    case Nil
    then show ?thesis using r snoc.prems(3) by (auto simp: tip_of_def hash_broken_def)
  next
    case (snoc qs q)
    note q = linked_hash[OF snoc.prems(2)[unfolded snoc]]
    have same: "dg_sha256 dg (hashed_text dg r) = dg_sha256 dg (hashed_text dg q)"
      using r q snoc.prems(3) snoc by (simp add: tip_of_def)
    show ?thesis
    proof (cases "hashed_text dg r = hashed_text dg q")
      case True
      then have "covered dg r = covered dg q" by (simp add: hashed_text_covers)
      moreover from this have "tip_of rs = tip_of qs" using r q by (auto simp: covered_def tip_of_def)
      then have "map (covered dg) rs = map (covered dg) qs \<or> hash_broken dg rs qs" using snoc.IH r q by blast
      ultimately show ?thesis using snoc by (auto simp: hash_broken_def)
    qed (use same snoc in \<open>auto simp: hash_broken_def\<close>)
  qed
qed

subsection \<open>Properties\<close>

text \<open>
  C27: Tamper evidence for the fields that the hash covers.  Two chains that verify and end in the same hash
  have the same number of records, and the records agree in order on actor, action, resource, decisions,
  time, predecessor and (redacted) metadata, unless two of the hashed texts collide under SHA-256 or one
  hashes to the all-zero genesis value.  The identifier of a record, the issuer of its actor, its tenant and
  its workspace are not covered (\<open>audit_issuer_unprotected\<close>), so two such chains may differ in them.
\<close>

theorem audit_tamper_evident:
  assumes "linked dg genesis xs" "linked dg genesis ys" "tip_of xs = tip_of ys" "\<not> hash_broken dg xs ys"
  shows "map (covered dg) xs = map (covered dg) ys"
  using linked_unique[OF assms(1-3)] assms(4) by blast

text \<open>
  C28: Export and restoration are inverse.  In every reachable store the chain verifies; an export of it
  (its first records, up to the limit) is accepted by every store whose chain for the scope is empty, which
  then holds exactly the exported records, verifies, exports them again unchanged, and has touched no other
  scope.
\<close>

theorem audit_export_restores:
  assumes "audit_reached dg s" "chain_of c t = []"
  shows "verify_chain dg c s \<and> (\<exists>t'. restore_audit dg c (export_audit c limit uuid now s) t
      = (Inr (min limit (length (chain_of c s))), t')
    \<and> chain_of c t' = take limit (chain_of c s) \<and> verify_chain dg c t'
    \<and> (\<forall>n id later. limit \<le> n \<longrightarrow> ae_records (export_audit c n id later t') = ae_records (export_audit c limit uuid now s))
    \<and> (\<forall>c'. scope_of c' \<noteq> scope_of c \<longrightarrow> chain_of c' t' = chain_of c' t))"
proof -
  have ok: "linked dg genesis (chain_of c s)" using chains_ok_of[OF audit_reached_ok[OF assms(1)]] .
  have "linked dg genesis (take limit (chain_of c s) @ drop limit (chain_of c s))" using ok by simp
  then have cut: "linked dg genesis (take limit (chain_of c s))" unfolding linked_append by blast
  have len: "length (take limit (chain_of c s)) = min limit (length (chain_of c s))" by simp
  show ?thesis using ok cut assms(2) len
    by (auto simp: verify_chain_def restore_audit_def export_audit_def Let_def chain_of_def min.commute)
qed

text \<open>
  The hash does not cover a record's identifier, the issuer of its actor, its tenant or its workspace:
  they can be rewritten in a whole chain and it verifies as before.
\<close>

theorem audit_issuer_unprotected:
  "linked dg prev (map (\<lambda>r. r\<lparr>au_id := f r, au_tenant := t r, au_workspace := w r, au_actor_issuer := issuer r\<rparr>) chain)
   = linked dg prev chain"
  by (induction dg prev chain rule: linked.induct) (simp_all add: rehash_def)

subsection \<open>Two records\<close>

definition auditor :: ctx where
  "auditor = \<lparr>cx_principal = \<lparr>pr_subject = ''ann'', pr_issuer = None, pr_kind = Human\<rparr>, cx_tenant = ''acme'',
     cx_workspace = ''main'', cx_environment = ''prod'', cx_domain = ''d'', cx_owner = None\<rparr>"

definition two_records :: audit_chains where
  "two_records = audit_run plain_digests auditor (Append ''b'' ''r'' [''d1''] [(''token'', JStr ''x'')] None ''2'') 7
     (audit_run plain_digests auditor (Append ''a'' ''r'' [] [] None ''1'') 5 [])"

lemma two_records_reached: "audit_reached plain_digests two_records"
  unfolding two_records_def by (intro audit_reached.intros)

theorem audit_export_restores_witness:
  "verify_chain plain_digests auditor two_records
   \<and> (\<exists>t'. restore_audit plain_digests auditor (export_audit auditor 1 ''e'' 9 two_records) []
        = (Inr (min 1 (length (chain_of auditor two_records))), t') \<and> verify_chain plain_digests auditor t')"
  using audit_export_restores[OF two_records_reached, of auditor "[]" 1 "''e''" 9] by (auto simp: chain_of_def)

theorem audit_tamper_evident_witness:
  "map (covered plain_digests) (chain_of auditor two_records)
     = map (covered plain_digests) (map (\<lambda>r. r\<lparr>au_id := ''z''\<rparr>) (chain_of auditor two_records))"
proof -
  let ?xs = "chain_of auditor two_records" and ?ys = "map (\<lambda>r. r\<lparr>au_id := ''z''\<rparr>) (chain_of auditor two_records)"
  have xs: "linked plain_digests genesis ?xs" using chains_ok_of[OF audit_reached_ok[OF two_records_reached]] .
  have ys: "linked plain_digests genesis ?ys" and tips: "tip_of ?xs = tip_of ?ys" by code_simp+
  have neq: "hashed_text plain_digests r \<noteq> genesis" for r
  proof
    assume "hashed_text plain_digests r = genesis"
    moreover have "hd (hashed_text plain_digests r) = CHR ''{''"
      by (simp add: hashed_text_def hashed_payload_def compact_json_def dumps_plain del: dumps.simps)
    moreover have "hd genesis = CHR ''0''" by (simp add: genesis_def numeral_eq_Suc)
    ultimately show False by simp
  qed
  have "\<not> hash_broken plain_digests ?xs ?ys"
    using neq by (simp add: hash_broken_def plain_digests_def)
  from audit_tamper_evident[OF xs ys tips this] show ?thesis .
qed

end
