(* ===== verification/Policy_Gates.thy ===== *)
theory Policy_Gates
  imports Policy Approvals Attestations Audit_Chain Quota_Invariants
begin

text \<open>
  The gates in front of planning, submission, execution and promotion (\<open>control_plane/policy_gates.py\<close>),
  which compose the policy provider, the approval store, the attestation store, the quota provider and the
  audit evidence.  Each of them is optional.  What the gates read from outside (clock readings, fresh
  identifiers, SHA-256, HMAC and the redaction) is the record \<open>surroundings\<close>.
\<close>

declare split_paired_All [simp del] split_paired_Ex [simp del]

subsection \<open>The providers and what the gates read\<close>

record gates =
  gs_policy :: "policy option"
  gs_approvals :: "approvals option"
  gs_quotas :: "quota option"
  gs_audit :: "audit_chains option"
  gs_attestations :: "attestations option"

record surroundings =
  su_digests :: digests
  su_mac :: "string \<Rightarrow> string"
  su_decision_id :: string
  su_record_id :: string
  su_reservation_id :: string
  su_decided_at :: instant
  su_approval_at :: instant
  su_attested_at :: instant
  su_audited_at :: instant
  su_admitted_at :: instant

record question =
  qn_hook :: string
  qn_plan :: "string option"
  qn_revision :: "string option"
  qn_resource :: "string option"
  qn_attributes :: "(string, string) pydict"
  qn_required :: bool

subsection \<open>Evaluation and enforcement\<close>

definition provider_required :: cp_error where
  "provider_required = Cp_error ''PMCP503'' 503 ''policy provider required for protected operation''"

definition evaluate_policy :: "surroundings \<Rightarrow> ctx \<Rightarrow> question \<Rightarrow> policy option \<Rightarrow> policy_decision option res" where
  "evaluate_policy u c n provider = (case provider of
     None \<Rightarrow> if qn_required n then Inl provider_required else Inr None
   | Some p \<Rightarrow> if py_unavailable p then Inl policy_outage
       else (case decide_policy (su_digests u) c (qn_hook n) (qn_plan n) (qn_revision n) (qn_resource n)
               (qn_attributes n) None (su_decision_id u) (su_decided_at u) p of
           Inl e \<Rightarrow> Inl e | Inr d \<Rightarrow> Inr (Some d)))"

definition denial :: "policy_decision \<Rightarrow> string" where
  "denial d = (let t = joined ''; '' (pd_reasons d) in if t = [] then ''policy denied'' else t)"

definition enforce_policy_decision :: "ctx \<Rightarrow> instant \<Rightarrow> policy_decision option \<Rightarrow> approvals option
    \<Rightarrow> (approvals option, policy_decision option) outcome" where
  "enforce_policy_decision c now decision store = (case decision of
     None \<Rightarrow> return_in store None
   | Some d \<Rightarrow> if pd_effect d = P_deny then raise_in store (Forbidden (denial d))
       else if decision_requires_approval d then (case store of
           None \<Rightarrow> raise_in store (Forbidden ''approval required but approval store not configured'')
         | Some s \<Rightarrow> (let (ok, s') = is_satisfied c (of_opt (pd_plan d)) (pd_fingerprint d) (pd_revision d) (pd_hook d) now s in
             if ok then return_in (Some s') decision
             else raise_in (Some s') (Forbidden ''approval required and not satisfied'')))
       else return_in store decision)"

definition refs_of :: "policy_decision option \<Rightarrow> string list" where
  "refs_of decision = (case decision of None \<Rightarrow> [] | Some d \<Rightarrow> [pd_id d])"

definition fingerprint_json :: "policy_decision option \<Rightarrow> json" where
  "fingerprint_json decision = opt_json (map_option pd_fingerprint decision)"

definition effect_text :: "policy_effect \<Rightarrow> string" where
  "effect_text eff = (case eff of P_allow \<Rightarrow> ''allow'' | P_deny \<Rightarrow> ''deny'' | P_require_approval \<Rightarrow> ''require_approval'')"

definition quota_effect_text :: "quota_effect \<Rightarrow> string" where
  "quota_effect_text eff = (case eff of Q_allow \<Rightarrow> ''allow'' | Q_deny \<Rightarrow> ''deny'' | Q_suspended \<Rightarrow> ''suspended''
     | Q_contained \<Rightarrow> ''contained'')"

definition record_gate :: "surroundings \<Rightarrow> ctx \<Rightarrow> string \<Rightarrow> string \<Rightarrow> policy_decision option
    \<Rightarrow> (string, json) pydict \<Rightarrow> gates \<Rightarrow> gates" where
  "record_gate u c action resource decision md g = g\<lparr>gs_audit := map_option
     (\<lambda>s. snd (append_audit (su_digests u) c action resource (refs_of decision) md None (su_record_id u) (su_audited_at u) s))
     (gs_audit g)\<rparr>"

subsection \<open>Submission\<close>

record submit_request =
  sr_plan :: string
  sr_effective :: "string option"
  sr_revision :: "string option"
  sr_quota_key :: "string option"
  sr_quota_claim :: "string option"
  sr_plugins :: "string list"
  sr_sbom :: "string option"
  sr_require_policy :: bool
  sr_require_attestations :: bool
  sr_audit_before_quota :: bool
  sr_max_age :: int
  sr_resource :: quota_resource

definition approval_fingerprint :: "submit_request \<Rightarrow> string" where
  "approval_fingerprint r = of_opt (or_opt (sr_effective r) (Some (sr_plan r)))"

definition submit_question :: "submit_request \<Rightarrow> question" where
  "submit_question r = \<lparr>qn_hook = ''pre_submit'', qn_plan = Some (approval_fingerprint r), qn_revision = sr_revision r,
     qn_resource = None, qn_attributes = [], qn_required = sr_require_policy r\<rparr>"

definition attest_submission :: "surroundings \<Rightarrow> ctx \<Rightarrow> submit_request \<Rightarrow> policy_decision option
    \<Rightarrow> attestations option \<Rightarrow> unit res" where
  "attest_submission u c r decision store = (if \<not> sr_require_attestations r then Inr () else (case store of
     None \<Rightarrow> Inl (Cp_error ''PMCP503'' 503 ''attestation store required'')
   | Some s \<Rightarrow> (case verify_plan (su_mac u) c (approval_fingerprint r)
         (of_opt (or_opt (sr_revision r) (Some (sr_plan r))))
         (case decision of None \<Rightarrow> ''unsigned'' | Some d \<Rightarrow> pd_fingerprint d)
         (sr_plugins r) (sr_sbom r) (sr_max_age r) (su_attested_at u) s of
       Inl e \<Rightarrow> Inl e | Inr results \<Rightarrow> require_verified results)))"

definition submission_metadata :: "submit_request \<Rightarrow> policy_decision option \<Rightarrow> json \<Rightarrow> (string, json) pydict" where
  "submission_metadata r decision eff = [(''policy_fingerprint'', fingerprint_json decision),
     (''plan_fingerprint'', JStr (sr_plan r)), (''effective_fingerprint'', JStr (approval_fingerprint r)),
     (''quota_effect'', eff)]"

definition admit_submission :: "surroundings \<Rightarrow> ctx \<Rightarrow> submit_request \<Rightarrow> quota \<Rightarrow> (quota, quota_decision) outcome" where
  "admit_submission u c r q = (if q_unavailable q then raise_in q quota_outage
     else (case admit c (sr_resource r) 1 (sr_quota_key r) (if sr_quota_key r = None then None else sr_quota_claim r)
             (su_reservation_id u) (su_admitted_at u) q of
         (Inl e, q') \<Rightarrow> raise_in q' e
       | (Inr d, q') \<Rightarrow> if qd_effect d \<noteq> Q_allow
           then raise_in q' (Conflict (''quota '' @ quota_effect_text (qd_effect d) @ '': '' @ qd_reason d))
           else return_in q' d))"

definition admit_gate :: "surroundings \<Rightarrow> ctx \<Rightarrow> submit_request \<Rightarrow> policy_decision option \<Rightarrow> gates
    \<Rightarrow> (gates, policy_decision option \<times> quota_decision option) outcome" where
  "admit_gate u c r decision g =
     (let g1 = (if sr_audit_before_quota r
        then record_gate u c ''pre_submit'' (approval_fingerprint r) decision (submission_metadata r decision
          (if gs_quotas g \<noteq> None then JStr ''pending'' else JNull)) g else g);
        after = (\<lambda>eff g. if sr_audit_before_quota r then g
          else record_gate u c ''pre_submit'' (approval_fingerprint r) decision (submission_metadata r decision eff) g) in
      (case gs_quotas g1 of
        None \<Rightarrow> return_in (after JNull g1) (decision, None)
      | Some q \<Rightarrow> (case admit_submission u c r q of
          (Inl e, q') \<Rightarrow> raise_in (g1\<lparr>gs_quotas := Some q'\<rparr>) e
        | (Inr d, q') \<Rightarrow> return_in (after (JStr (quota_effect_text (qd_effect d))) (g1\<lparr>gs_quotas := Some q'\<rparr>))
            (decision, Some d))))"

definition gate_pre_submit :: "surroundings \<Rightarrow> ctx \<Rightarrow> submit_request \<Rightarrow> gates
    \<Rightarrow> (gates, policy_decision option \<times> quota_decision option) outcome" where
  "gate_pre_submit u c r g = (case evaluate_policy u c (submit_question r) (gs_policy g) of
     Inl e \<Rightarrow> raise_in g e
   | Inr decision \<Rightarrow> (case enforce_policy_decision c (su_approval_at u) decision (gs_approvals g) of
       (Inl e, s) \<Rightarrow> raise_in (g\<lparr>gs_approvals := s\<rparr>) e
     | (Inr _, s) \<Rightarrow> (let g1 = g\<lparr>gs_approvals := s\<rparr> in
         (case attest_submission u c r decision (gs_attestations g1) of
           Inl e \<Rightarrow> raise_in g1 e
         | Inr _ \<Rightarrow> admit_gate u c r decision g1))))"

subsection \<open>Execution, promotion and planning\<close>

definition execution_metadata :: "question \<Rightarrow> policy_decision option \<Rightarrow> (string, json) pydict" where
  "execution_metadata n decision = [(''policy_fingerprint'', fingerprint_json decision),
     (''plan_fingerprint'', opt_json (qn_plan n)), (''revision_id'', opt_json (qn_revision n)),
     (''outcome'', JStr (case decision of None \<Rightarrow> ''allow'' | Some d \<Rightarrow> effect_text (pd_effect d)))]"

definition execution_question :: "string \<Rightarrow> string option \<Rightarrow> string \<Rightarrow> (string, string) pydict \<Rightarrow> bool \<Rightarrow> question" where
  "execution_question plan revision resource attributes required = \<lparr>qn_hook = ''pre_execution'', qn_plan = Some plan,
     qn_revision = revision, qn_resource = Some resource, qn_attributes = attributes, qn_required = required\<rparr>"

definition gate_pre_execution :: "surroundings \<Rightarrow> ctx \<Rightarrow> string \<Rightarrow> string option \<Rightarrow> string \<Rightarrow> (string, string) pydict
    \<Rightarrow> bool \<Rightarrow> gates \<Rightarrow> (gates, policy_decision option) outcome" where
  "gate_pre_execution u c plan revision resource attributes required g =
     (let n = execution_question plan revision resource attributes required in
      (case evaluate_policy u c n (gs_policy g) of
        Inl e \<Rightarrow> raise_in g e
      | Inr decision \<Rightarrow> (let g1 = record_gate u c ''pre_execution'' resource decision (execution_metadata n decision) g in
          (case enforce_policy_decision c (su_approval_at u) decision (gs_approvals g1) of
            (Inl e, s) \<Rightarrow> raise_in (g1\<lparr>gs_approvals := s\<rparr>) e
          | (Inr _, s) \<Rightarrow> return_in (g1\<lparr>gs_approvals := s\<rparr>) decision))))"

text \<open>Promotion; \<open>None\<close> in the result stands for the failed assertion when there is no provider.\<close>

definition promotion_question :: "string \<Rightarrow> string \<Rightarrow> bool \<Rightarrow> question" where
  "promotion_question plan revision required = \<lparr>qn_hook = ''pre_promote'', qn_plan = Some plan,
     qn_revision = Some revision, qn_resource = None, qn_attributes = [], qn_required = required\<rparr>"

definition gate_pre_promote :: "surroundings \<Rightarrow> ctx \<Rightarrow> string \<Rightarrow> string \<Rightarrow> bool \<Rightarrow> gates
    \<Rightarrow> (gates, policy_decision) outcome option" where
  "gate_pre_promote u c plan revision required g =
     (case evaluate_policy u c (promotion_question plan revision required) (gs_policy g) of
       Inl e \<Rightarrow> Some (raise_in g e)
     | Inr None \<Rightarrow> None
     | Inr (Some d) \<Rightarrow> Some (if decision_allows d
         then return_in (record_gate u c ''pre_promote'' revision (Some d) [] g) d
         else (case enforce_policy_decision c (su_approval_at u) (Some d) (gs_approvals g) of
             (Inl e, s) \<Rightarrow> raise_in (g\<lparr>gs_approvals := s\<rparr>) e
           | (Inr _, s) \<Rightarrow> return_in (record_gate u c ''pre_promote'' revision (Some d) [(''via'', JStr ''approval'')]
               (g\<lparr>gs_approvals := s\<rparr>)) d)))"

definition planning_question :: "(string, string) pydict \<Rightarrow> bool \<Rightarrow> question" where
  "planning_question attributes required = \<lparr>qn_hook = ''pre_plan'', qn_plan = None, qn_revision = None,
     qn_resource = None, qn_attributes = attributes, qn_required = required\<rparr>"

definition gate_pre_plan :: "surroundings \<Rightarrow> ctx \<Rightarrow> (string, string) pydict \<Rightarrow> bool \<Rightarrow> gates
    \<Rightarrow> policy_decision option res" where
  "gate_pre_plan u c attributes required g =
     (case evaluate_policy u c (planning_question attributes required) (gs_policy g) of
       Inl e \<Rightarrow> Inl e
     | Inr decision \<Rightarrow> (case fst (enforce_policy_decision c (su_approval_at u) decision None) of
         Inl e \<Rightarrow> Inl e
       | Inr _ \<Rightarrow> (case decision of
           None \<Rightarrow> Inr None
         | Some d \<Rightarrow> if attributes \<noteq> [] \<and> crosses_boundary (pd_constraints d) (place_of ''target_region'' attributes)
               (place_of ''egress_destination'' attributes)
             then Inl (Forbidden ''plan would cross governance boundary'') else Inr (Some d))))"

end
