(* ===== verification/Approval_Safety.thy ===== *)
theory Approval_Safety
  imports Approvals
begin

text \<open>
  Separation of duties and the life of an approval request, in every history of the approval store.
\<close>

declare split_paired_All [simp del] split_paired_Ex [simp del]

subsection \<open>Histories\<close>

datatype approval_call =
    Create_approval string string string "string option" "instant option" "string option" string
  | Get_approval string
  | Decide_approval string bool "string option" "string option" "string option" string
  | Revoke_approval string "string option"
  | List_pending int
  | Ask_satisfied string string "string option" string

fun approval_run :: "ctx \<Rightarrow> approval_call \<Rightarrow> instant \<Rightarrow> approvals \<Rightarrow> approvals" where
  "approval_run c (Create_approval hook plan policy revision expires given uuid) now s =
     snd (create_approval c hook plan policy revision expires given uuid now s)"
| "approval_run c (Get_approval aid) now s = snd (get_approval c aid now s)"
| "approval_run c (Decide_approval aid approve reason plan policy uuid) now s =
     snd (decide_approval c aid approve reason plan policy uuid now s)"
| "approval_run c (Revoke_approval aid reason) now s = snd (revoke_approval c aid reason now s)"
| "approval_run c (List_pending limit) now s = snd (list_pending c limit now s)"
| "approval_run c (Ask_satisfied plan policy revision hook) now s =
     snd (is_satisfied c plan policy revision hook now s)"

text \<open>A creation under a name the store does not hold.\<close>

definition new_name :: "ctx \<Rightarrow> approval_call \<Rightarrow> approvals \<Rightarrow> bool" where
  "new_name c call s \<longleftrightarrow> (case call of
     Create_approval hook plan policy revision expires given uuid \<Rightarrow>
       dget s (mk_key (scope_of c) (approval_name given uuid)) = None
   | _ \<Rightarrow> True)"

text \<open>With \<open>fresh\<close>, histories whose creations use new names; without it, all histories.\<close>

inductive approval_moves :: "bool \<Rightarrow> approvals \<Rightarrow> approvals \<Rightarrow> bool" for fresh :: bool where
  stay: "approval_moves fresh s s"
| call: "approval_moves fresh s s' \<Longrightarrow> (fresh \<Longrightarrow> new_name c call s') \<Longrightarrow> approval_moves fresh s (approval_run c call now s')"

subsection \<open>The invariant of a row\<close>

definition approval_ok :: "key \<Rightarrow> approval \<Rightarrow> bool" where
  "approval_ok k ap \<longleftrightarrow> own_key ap = k
     \<and> list_all (\<lambda>d. ad_actor d \<noteq> ap_requester ap) (ap_decisions ap)
     \<and> (ap_status ap = Ap_approved \<longrightarrow> list_ex ad_approved (ap_decisions ap))
     \<and> (ap_status ap = Ap_pending \<longrightarrow> ap_decisions ap = [])"

definition rows_ok :: "approvals \<Rightarrow> bool" where
  "rows_ok s \<longleftrightarrow> distinct (map fst s) \<and> list_all (\<lambda>(k, ap). approval_ok k ap) s"

lemma rows_ok_put: "rows_ok s \<Longrightarrow> approval_ok k ap \<Longrightarrow> rows_ok (dput k ap s)"
  using set_dput_subset[of k ap s] by (auto simp: rows_ok_def list_all_iff distinct_dput)

lemma rows_ok_get: "rows_ok s \<Longrightarrow> dget s k = Some ap \<Longrightarrow> approval_ok k ap"
  by (auto simp: rows_ok_def list_all_iff dest: dget_in_set)

lemma approval_ok_status:
  "approval_ok k ap \<Longrightarrow> st \<notin> {Ap_approved, Ap_pending} \<Longrightarrow> approval_ok k (ap\<lparr>ap_status := st, ap_decided_at := t\<rparr>)"
  by (simp add: approval_ok_def own_key_def)

lemma refresh_ok:
  assumes "refresh_approval now ap s = (ap', s')" "approval_ok k ap" "rows_ok s"
  shows "approval_ok k ap' \<and> rows_ok s' \<and> \<not> lapsed now ap'"
proof -
  have "approval_ok k (ap\<lparr>ap_status := Ap_expired, ap_decided_at := Some now\<rparr>)"
    using approval_ok_status[OF assms(2)] by simp
  then show ?thesis using assms by (auto simp: refresh_approval_def Let_def approval_ok_def lapsed_def rows_ok_put split: if_splits)
qed

lemma refresh_row_ok:
  assumes "refresh_row now k ap s = (ap', s')" "approval_ok k ap" "rows_ok s"
  shows "approval_ok k ap' \<and> rows_ok s' \<and> \<not> lapsed now ap'"
proof -
  obtain s1 where r: "refresh_approval now ap s = (ap', s1)" "s' = dput (mk_key (key_scope k) (ap_id ap')) ap' s1"
    using assms(1) by (auto simp: refresh_row_def split: prod.splits)
  note ok = refresh_ok[OF r(1) assms(2,3)]
  then have "mk_key (key_scope k) (ap_id ap') = k"
    by (auto simp: approval_ok_def own_key_def mk_key_def key_scope_def prod_eq_iff)
  then show ?thesis using ok r(2) by (simp add: rows_ok_put)
qed

lemma pending_rows_ok:
  "list_all (\<lambda>(k, ap). approval_ok k ap) rows \<Longrightarrow> rows_ok s \<Longrightarrow> rows_ok (snd (pending_rows c limit now rows items s))"
proof (induction c limit now rows items s rule: pending_rows.induct)
  case (2 c limit now k ap rows items s)
  obtain ap' s' where r: "refresh_row now k ap s = (ap', s')" by fastforce
  have "rows_ok s'" using refresh_row_ok[OF r] 2(3,4) by simp
  then show ?case using 2 r by (auto simp: Let_def)
qed simp

lemma satisfied_rows_ok:
  assumes "list_all (\<lambda>(k, ap). approval_ok k ap) rows" "rows_ok s"
  shows "rows_ok (snd (satisfied_rows c plan policy revision hook now rows s))
    \<and> (fst (satisfied_rows c plan policy revision hook now rows s) \<longrightarrow>
        (\<exists>(k, ap) \<in> set rows. key_scope k = scope_of c \<and> satisfies plan policy revision hook ap \<and> \<not> lapsed now ap))"
  using assms
proof (induction c plan policy revision hook now rows s rule: satisfied_rows.induct)
  case (2 c plan policy revision hook now k ap rows s)
  obtain ap' s' where r: "refresh_row now k ap s = (ap', s')" by fastforce
  have ok: "rows_ok s'" "\<not> lapsed now ap'" using refresh_row_ok[OF r] 2(3,4) by simp_all
  have same: "ap' = ap" if "ap_status ap' = Ap_approved"
    using r that by (auto simp: refresh_row_def refresh_approval_def Let_def split: prod.splits if_splits)
  show ?case using 2 r ok same by (auto simp: Let_def satisfies_def)
qed simp

lemma decided_ok:
  assumes "approval_ok k ap" "ap_status ap = Ap_pending" "ap_requester ap \<noteq> pr_subject (cx_principal c)"
  shows "approval_ok k (decided c ap approve reason uuid now)"
  using assms by (auto simp: approval_ok_def decided_def decision_of_def own_key_def)

lemma approval_run_ok: "rows_ok s \<Longrightarrow> rows_ok (approval_run c call now s)"
proof (cases call)
  case (Create_approval hook plan policy revision expires given uuid)
  assume "rows_ok s"
  then show ?thesis using Create_approval
    by (auto simp: create_approval_def Let_def new_approval_def approval_ok_def own_key_def scope_of_def intro!: rows_ok_put)
next
  case (Get_approval aid)
  assume ok: "rows_ok s"
  show ?thesis
  proof (cases "dget s (mk_key (scope_of c) aid)")
    case (Some stored)
    obtain ap s' where r: "refresh_approval now stored s = (ap, s')" by fastforce
    show ?thesis using Get_approval Some r refresh_ok[OF r rows_ok_get[OF ok Some] ok] by (simp add: get_approval_def)
  qed (use Get_approval ok in \<open>simp add: get_approval_def\<close>)
next
  case (Decide_approval aid approve reason plan policy uuid)
  assume ok: "rows_ok s"
  let ?k = "mk_key (scope_of c) aid"
  show ?thesis
  proof (cases "dget s ?k")
    case (Some stored)
    obtain ap s' where r: "refresh_approval now stored s = (ap, s')" by fastforce
    note kept = refresh_ok[OF r rows_ok_get[OF ok Some] ok]
    show ?thesis using Decide_approval Some r kept
      by (auto simp: decide_approval_def Let_def intro!: rows_ok_put decided_ok approval_ok_status)
  qed (use Decide_approval ok in \<open>simp add: decide_approval_def\<close>)
next
  case (Revoke_approval aid reason)
  assume ok: "rows_ok s"
  let ?k = "mk_key (scope_of c) aid"
  show ?thesis
  proof (cases "dget s ?k")
    case (Some stored)
    obtain ap s' where r: "refresh_approval now stored s = (ap, s')" by fastforce
    note kept = refresh_ok[OF r rows_ok_get[OF ok Some] ok]
    then have "approval_ok ?k (ap\<lparr>ap_status := Ap_revoked, ap_decided_at := Some now, ap_metadata := md\<rparr>)" for md
      by (simp add: approval_ok_def own_key_def)
    then show ?thesis using Revoke_approval Some r kept by (auto simp: revoke_approval_def Let_def intro!: rows_ok_put)
  qed (use Revoke_approval ok in \<open>simp add: revoke_approval_def\<close>)
next
  case (List_pending limit)
  assume "rows_ok s"
  then show ?thesis using List_pending pending_rows_ok[of s s] by (simp add: list_pending_def rows_ok_def)
next
  case (Ask_satisfied plan policy revision hook)
  assume "rows_ok s"
  then show ?thesis using Ask_satisfied satisfied_rows_ok[of s s] by (simp add: is_satisfied_def rows_ok_def)
qed

lemma approval_moves_ok: "approval_moves fresh s s' \<Longrightarrow> rows_ok s \<Longrightarrow> rows_ok s'"
  by (induction rule: approval_moves.induct) (simp_all add: approval_run_ok)

subsection \<open>The history of a row\<close>

definition status_after :: "approval_status \<Rightarrow> approval_status \<Rightarrow> bool" where
  "status_after a b \<longleftrightarrow> b = a \<or> a = Ap_pending \<or> a = Ap_approved \<and> b \<in> {Ap_expired, Ap_revoked}"

definition approval_identity ::
    "approval \<Rightarrow> string \<times> string \<times> string \<times> string \<times> string \<times> string \<times> string option \<times> string \<times> instant option" where
  "approval_identity ap = (ap_id ap, ap_tenant ap, ap_workspace ap, ap_hook ap, ap_plan ap, ap_policy ap,
     ap_revision ap, ap_requester ap, ap_expires_at ap)"

definition approval_le :: "approval \<Rightarrow> approval \<Rightarrow> bool" where
  "approval_le a b \<longleftrightarrow> approval_identity b = approval_identity a \<and> status_after (ap_status a) (ap_status b)
     \<and> (ap_status a \<noteq> Ap_pending \<longrightarrow> ap_decisions b = ap_decisions a)"

lemma approval_le_refl [simp]: "approval_le a a"
  by (simp add: approval_le_def status_after_def)

lemma approval_le_trans: "approval_le a b \<Longrightarrow> approval_le b c \<Longrightarrow> approval_le a c"
  by (auto simp: approval_le_def status_after_def)

lemma approval_ok_le: "approval_ok k a \<Longrightarrow> approval_le a b \<Longrightarrow> own_key b = k"
  by (simp add: approval_ok_def approval_le_def approval_identity_def own_key_def)

lemma approval_le_lapse: "lapsed now ap \<Longrightarrow> approval_le ap (ap\<lparr>ap_status := Ap_expired, ap_decided_at := t\<rparr>)"
  by (auto simp: approval_le_def approval_identity_def lapsed_def status_after_def)

lemma approval_le_pending:
  "ap_status ap = Ap_pending \<Longrightarrow> approval_identity b = approval_identity ap \<Longrightarrow> approval_le ap b"
  by (simp add: approval_le_def status_after_def)

text \<open>What a call may do to the table.\<close>

abbreviation approvals_later :: "ctx \<Rightarrow> approvals \<Rightarrow> approvals \<Rightarrow> bool" where
  "approvals_later c \<equiv> evolves (\<lambda>k. key_scope k = scope_of c) (\<lambda>k b. own_key b = k) approval_le"

lemma approvals_later_trans:
  "approvals_later c s s' \<Longrightarrow> approvals_later c s' s'' \<Longrightarrow> approvals_later c s s''"
  by (erule evolves_trans, assumption, erule approval_le_trans, assumption)
    (simp add: approval_le_def approval_identity_def own_key_def)

lemma put_later:
  "dget s k = Some old \<Longrightarrow> key_scope k = scope_of c \<Longrightarrow> approval_le old ap \<Longrightarrow> approvals_later c s (dput k ap s)"
  by (rule evolves_put_old)

text \<open>Refreshing a stored row, and storing a later version of it, extends the history.\<close>

lemma refresh_later:
  assumes "refresh_approval now ap s = (ap', s')" "dget s k = Some ap" "approval_ok k ap" "key_scope k = scope_of c"
  shows "approvals_later c s s' \<and> dget s' k = Some ap' \<and> approval_le ap ap' \<and> (\<forall>j. j \<noteq> k \<longrightarrow> dget s' j = dget s j)"
proof (cases "lapsed now ap")
  case True
  have "own_key ap = k" using assms(3) by (simp add: approval_ok_def)
  then have "ap' = ap\<lparr>ap_status := Ap_expired, ap_decided_at := Some now\<rparr>" "s' = dput k ap' s"
    using assms(1) True by (auto simp: refresh_approval_def Let_def)
  then show ?thesis using approval_le_lapse[OF True] put_later[OF assms(2,4)] by simp
qed (use assms in \<open>simp add: refresh_approval_def\<close>)

lemma refresh_put_later:
  assumes "refresh_approval now ap s = (ap', s')" "dget s k = Some ap" "approval_ok k ap" "key_scope k = scope_of c"
    "approval_le ap' b"
  shows "approvals_later c s (dput k b s')"
  using refresh_later[OF assms(1-4)] put_later[OF _ assms(4,5), of s'] approvals_later_trans by blast

lemma refresh_row_later:
  assumes "refresh_row now k ap s = (ap', s')" "dget s k = Some ap" "approval_ok k ap" "key_scope k = scope_of c"
  shows "approvals_later c s s' \<and> (\<forall>j. j \<noteq> k \<longrightarrow> dget s' j = dget s j)"
proof -
  obtain s1 where r: "refresh_approval now ap s = (ap', s1)" "s' = dput (mk_key (key_scope k) (ap_id ap')) ap' s1"
    using assms(1) by (auto simp: refresh_row_def split: prod.splits)
  note later = refresh_later[OF r(1) assms(2-4)]
  have "own_key ap' = k" using approval_ok_le[OF assms(3)] later by blast
  then have "mk_key (key_scope k) (ap_id ap') = k" by (auto simp: own_key_def mk_key_def key_scope_def)
  then show ?thesis using refresh_put_later[OF r(1) assms(2-4)] r(2) later by auto
qed

text \<open>The rows a loop has still to visit are the stored ones.\<close>

definition in_table :: "(key \<times> approval) list \<Rightarrow> approvals \<Rightarrow> bool" where
  "in_table rows s \<longleftrightarrow> distinct (map fst rows) \<and> (\<forall>(k, ap) \<in> set rows. dget s k = Some ap \<and> approval_ok k ap)"

lemma in_table_start: "rows_ok s \<Longrightarrow> in_table s s"
  by (auto simp: in_table_def rows_ok_def list_all_iff dget_eq_iff_mem)

lemma in_table_row:
  assumes "in_table ((k, ap) # rows) s"
  shows "dget s k = Some ap" "approval_ok k ap" "in_table rows s"
    and "(\<And>j. j \<noteq> k \<Longrightarrow> dget s' j = dget s j) \<Longrightarrow> in_table rows s'"
  using assms unfolding in_table_def by (simp_all, fastforce)

lemma pending_rows_later:
  "in_table rows s \<Longrightarrow> approvals_later c s (snd (pending_rows c limit now rows items s))"
proof (induction c limit now rows items s rule: pending_rows.induct)
  case (2 c limit now k ap rows items s)
  note row = in_table_row[OF 2(3)]
  show ?case
  proof (cases "key_scope k = scope_of c")
    case True
    obtain ap' s' where r: "refresh_row now k ap s = (ap', s')" by fastforce
    note later = refresh_row_later[OF r row(1,2) True]
    then have "in_table rows s'" using row(4) by blast
    then show ?thesis using 2(2)[OF _ r[symmetric] refl refl] later True r approvals_later_trans
      by (auto simp: Let_def)
  qed (use 2 row in auto)
qed simp

lemma satisfied_rows_later:
  "in_table rows s \<Longrightarrow> approvals_later c s (snd (satisfied_rows c plan policy revision hook now rows s))"
proof (induction c plan policy revision hook now rows s rule: satisfied_rows.induct)
  case (2 c plan policy revision hook now k ap rows s)
  note row = in_table_row[OF 2(3)]
  show ?case
  proof (cases "key_scope k = scope_of c")
    case True
    obtain ap' s' where r: "refresh_row now k ap s = (ap', s')" by fastforce
    note later = refresh_row_later[OF r row(1,2) True]
    then have "in_table rows s'" using row(4) by blast
    then show ?thesis using 2(2)[OF _ r[symmetric] refl] later True r approvals_later_trans
      by (auto simp: Let_def)
  qed (use 2 row in auto)
qed simp

lemma approval_run_later:
  assumes ok: "rows_ok s" and fresh: "new_name c call s"
  shows "approvals_later c s (approval_run c call now s)"
proof -
  have scoped: "key_scope (mk_key (scope_of c) i) = scope_of c" for i by (simp add: key_scope_def mk_key_def)
  show ?thesis
  proof (cases call)
    case (Create_approval hook plan policy revision expires given uuid)
    then show ?thesis using fresh scoped
      by (auto simp: new_name_def create_approval_def Let_def new_approval_def own_key_def scope_of_def
          intro!: evolves_put_new)
  next
    case (Get_approval aid)
    show ?thesis
    proof (cases "dget s (mk_key (scope_of c) aid)")
      case (Some stored)
      obtain ap s' where r: "refresh_approval now stored s = (ap, s')" by fastforce
      show ?thesis using Get_approval Some r refresh_later[OF r Some rows_ok_get[OF ok Some] scoped]
        by (simp add: get_approval_def)
    qed (simp add: Get_approval get_approval_def)
  next
    case (Decide_approval aid approve reason plan policy uuid)
    show ?thesis
    proof (cases "dget s (mk_key (scope_of c) aid)")
      case (Some stored)
      obtain ap s' where r: "refresh_approval now stored s = (ap, s')" by fastforce
      note stored = rows_ok_get[OF ok Some]
      have "approval_le ap (decided c ap approve reason uuid now)"
        "approval_le ap (ap\<lparr>ap_status := Ap_stale, ap_decided_at := Some now\<rparr>)" if "ap_status ap = Ap_pending"
        using that by (simp_all add: approval_le_pending approval_identity_def decided_def)
      then show ?thesis using Decide_approval Some r refresh_later[OF r Some stored scoped]
          refresh_put_later[OF r Some stored scoped]
        by (simp add: decide_approval_def Let_def)
    qed (simp add: Decide_approval decide_approval_def)
  next
    case (Revoke_approval aid reason)
    show ?thesis
    proof (cases "dget s (mk_key (scope_of c) aid)")
      case (Some stored)
      obtain ap s' where r: "refresh_approval now stored s = (ap, s')" by fastforce
      note stored = rows_ok_get[OF ok Some]
      have "approval_le ap (ap\<lparr>ap_status := Ap_revoked, ap_decided_at := Some now, ap_metadata := md\<rparr>)"
        if "ap_status ap \<in> {Ap_pending, Ap_approved}" for md
        using that by (auto simp: approval_le_def approval_identity_def status_after_def)
      then show ?thesis using Revoke_approval Some r refresh_later[OF r Some stored scoped]
          refresh_put_later[OF r Some stored scoped]
        by (simp add: revoke_approval_def Let_def)
    qed (simp add: Revoke_approval revoke_approval_def)
  next
    case (List_pending limit)
    then show ?thesis using pending_rows_later[OF in_table_start[OF ok]] by (simp add: list_pending_def)
  next
    case (Ask_satisfied plan policy revision hook)
    then show ?thesis using satisfied_rows_later[OF in_table_start[OF ok]] by (simp add: is_satisfied_def)
  qed
qed

lemma approval_moves_later:
  assumes "approval_moves True s s'" "rows_ok s"
  shows "rows_ok s' \<and> evolves (\<lambda>_. True) (\<lambda>k b. own_key b = k) approval_le s s'"
  using assms
proof (induction rule: approval_moves.induct)
  case (call s s' c call now)
  then have "approvals_later c s' (approval_run c call now s')" using approval_run_later by simp
  then have "evolves (\<lambda>_. True) (\<lambda>k b. own_key b = k) approval_le s' (approval_run c call now s')"
    by (rule evolves_mono) simp_all
  with conjunct2[OF call.IH[OF call.prems]]
  have "evolves (\<lambda>_. True) (\<lambda>k b. own_key b = k) approval_le s (approval_run c call now s')"
    by (rule evolves_trans) (erule approval_le_trans, assumption,
      simp add: approval_le_def approval_identity_def own_key_def)
  then show ?case using call approval_run_ok by simp
qed simp

subsection \<open>Properties\<close>

lemma rows_ok_empty: "rows_ok []"
  by (simp add: rows_ok_def)

text \<open>An operation is vouched for: a request whose status is approved (not revoked, denied, expired or stale) and whose
  expiry has not passed, decided by others than its requester only.\<close>

definition vouched :: "ctx \<Rightarrow> string \<Rightarrow> string \<Rightarrow> string option \<Rightarrow> string \<Rightarrow> instant \<Rightarrow> approvals \<Rightarrow> bool" where
  "vouched c plan policy revision hook now s \<longleftrightarrow> (\<exists>k ap. dget s k = Some ap \<and> key_scope k = scope_of c
    \<and> ap_hook ap = hook \<and> ap_plan ap = plan \<and> ap_policy ap = policy
    \<and> (revision = None \<or> ap_revision ap = revision) \<and> ap_status ap = Ap_approved \<and> \<not> lapsed now ap
    \<and> (\<exists>d \<in> set (ap_decisions ap). ad_approved d)
    \<and> list_all (\<lambda>d. ad_actor d \<noteq> ap_requester ap) (ap_decisions ap))"

lemma satisfied_vouched:
  assumes "approval_moves False [] s" "fst (is_satisfied c plan policy revision hook now s)"
  shows "vouched c plan policy revision hook now s"
proof -
  have ok: "rows_ok s" using approval_moves_ok[OF assms(1) rows_ok_empty] .
  obtain k ap where row: "(k, ap) \<in> set s" "key_scope k = scope_of c" "satisfies plan policy revision hook ap"
    "\<not> lapsed now ap"
    using satisfied_rows_ok[of s s c plan policy revision hook now] ok assms(2)
    by (auto simp: is_satisfied_def rows_ok_def)
  have "dget s k = Some ap" using row(1) ok by (simp add: rows_ok_def dget_eq_iff_mem)
  moreover have "approval_ok k ap" using row(1) ok by (auto simp: rows_ok_def list_all_iff)
  ultimately show ?thesis using row unfolding vouched_def
    by (intro exI[of _ k] exI[of _ ap]) (auto simp: approval_ok_def satisfies_def list_ex_iff)
qed

text \<open>
  C23: Separation of duties.  In every history of the approval store, when the store answers that an
  operation is approved, it holds a request of the caller's tenant and workspace for exactly this hook,
  plan, policy and, where one is asked for, revision, whose status is approved (it has not been revoked,
  denied, or marked expired or stale) and whose expiry has not passed, which somebody approved and whose
  every decision was made by somebody other than the requester.
\<close>

theorem approval_needs_second_person:
  assumes "approval_moves False [] s" "fst (is_satisfied c plan policy revision hook now s)"
  shows "\<exists>k ap. dget s k = Some ap \<and> key_scope k = scope_of c
    \<and> ap_hook ap = hook \<and> ap_plan ap = plan \<and> ap_policy ap = policy
    \<and> (revision = None \<or> ap_revision ap = revision) \<and> ap_status ap = Ap_approved \<and> \<not> lapsed now ap
    \<and> (\<exists>d \<in> set (ap_decisions ap). ad_approved d)
    \<and> list_all (\<lambda>d. ad_actor d \<noteq> ap_requester ap) (ap_decisions ap)"
  using satisfied_vouched[OF assms] unfolding vouched_def .

text \<open>
  The life of a request.  As long as creations use new names, a stored request keeps its identity
  (hook, fingerprints, requester, expiry) in every later state; a denied, expired, revoked or stale one
  keeps its status for ever, and an approved one can only expire or be revoked.
\<close>

theorem approval_life:
  assumes "approval_moves True [] s" "approval_moves True s s'" "dget s k = Some ap"
  shows "\<exists>ap'. dget s' k = Some ap' \<and> approval_identity ap' = approval_identity ap
    \<and> (ap_status ap \<in> {Ap_denied, Ap_expired, Ap_revoked, Ap_stale} \<longrightarrow> ap_status ap' = ap_status ap)
    \<and> (ap_status ap = Ap_approved \<longrightarrow> ap_status ap' \<in> {Ap_approved, Ap_expired, Ap_revoked}
         \<and> ap_decisions ap' = ap_decisions ap)"
proof -
  have "rows_ok s" using approval_moves_later[OF assms(1) rows_ok_empty] by simp
  then have "evolves (\<lambda>_. True) (\<lambda>k b. own_key b = k) approval_le s s'" using approval_moves_later[OF assms(2)] by simp
  from evolves_old[OF this assms(3)] show ?thesis by (auto simp: approval_le_def status_after_def)
qed

text \<open>
  A creation under the name of a decided request replaces it without an error, decision and all, which
  the other stores of the control plane refuse as a conflict.
\<close>

lemma creation_replaces_decided:
  "dget (snd (create_approval c hook plan policy revision expires (Some aid) uuid now s)) (mk_key (scope_of c) aid)
     = Some (new_approval c hook plan policy revision expires aid now)" if "aid \<noteq> []"
  using that by (simp add: create_approval_def approval_name_def Let_def)

subsection \<open>A decided request\<close>

definition asker :: ctx where
  "asker = \<lparr>cx_principal = \<lparr>pr_subject = ''ann'', pr_issuer = None, pr_kind = Human\<rparr>, cx_tenant = ''acme'',
     cx_workspace = ''main'', cx_environment = ''prod'', cx_domain = ''d'', cx_owner = None\<rparr>"

definition reviewer :: ctx where
  "reviewer = asker\<lparr>cx_principal := \<lparr>pr_subject = ''ben'', pr_issuer = None, pr_kind = Human\<rparr>\<rparr>"

definition requested :: approvals where
  "requested = approval_run asker (Create_approval ''pre_promote'' ''plan'' ''pol'' None (Some 100) None ''i'') 1 []"

definition approved_store :: approvals where
  "approved_store = approval_run reviewer (Decide_approval ''i'' True None None None ''d'') 2 requested"

definition revoked_store :: approvals where
  "revoked_store = approval_run asker (Revoke_approval ''i'' None) 3 approved_store"

lemma approved_store_moves: "approval_moves fresh [] approved_store"
proof -
  have "approval_moves fresh [] requested" unfolding requested_def
    by (rule approval_moves.call[OF approval_moves.stay]) code_simp
  then show ?thesis unfolding approved_store_def by (rule approval_moves.call) (simp add: new_name_def)
qed

lemma revoked_store_moves: "approval_moves fresh approved_store revoked_store"
  unfolding revoked_store_def by (rule approval_moves.call[OF approval_moves.stay]) (simp add: new_name_def)

theorem approval_needs_second_person_witness:
  "fst (is_satisfied reviewer ''plan'' ''pol'' None ''pre_promote'' 50 approved_store)
   \<and> (\<exists>k ap. dget approved_store k = Some ap \<and> ap_plan ap = ''plan'' \<and> ap_status ap = Ap_approved \<and> (\<exists>d \<in> set (ap_decisions ap). ad_approved d))"
proof -
  have asked: "fst (is_satisfied reviewer ''plan'' ''pol'' None ''pre_promote'' 50 approved_store)" by code_simp
  from approval_needs_second_person[OF approved_store_moves this] show ?thesis using asked by blast
qed

theorem approval_life_witness:
  "\<exists>ap'. dget revoked_store (mk_key (scope_of asker) ''i'') = Some ap' \<and> ap_plan ap' = ''plan''
     \<and> ap_status ap' \<in> {Ap_approved, Ap_expired, Ap_revoked}"
proof -
  define ap where "ap = the (dget approved_store (mk_key (scope_of asker) ''i''))"
  have row: "dget approved_store (mk_key (scope_of asker) ''i'') = Some ap" "ap_status ap = Ap_approved"
    "ap_plan ap = ''plan''"
    unfolding ap_def by code_simp+
  from approval_life[OF approved_store_moves revoked_store_moves row(1)] show ?thesis
    using row(2,3) by (auto simp: approval_identity_def)
qed

end
