(* ===== verification/Gate_Safety.thy ===== *)
theory Gate_Safety
  imports Policy_Gates Approval_Safety
begin

text \<open>
  What the gates guarantee: nothing passes without the provider's decision and, where it asks for one, the
  approval of a second person; a refused submission holds no quota; and every decision that was enforced
  leaves one record on the caller's audit chain.
\<close>

declare split_paired_All [simp del] split_paired_Ex [simp del]

subsection \<open>Permission\<close>

text \<open>Without a provider nothing is asked; a decision of the provider allows, or a second person has approved.\<close>

definition permitted :: "surroundings \<Rightarrow> ctx \<Rightarrow> question \<Rightarrow> gates \<Rightarrow> policy_decision option \<Rightarrow> bool" where
  "permitted u c n g decision \<longleftrightarrow> (case decision of
     None \<Rightarrow> gs_policy g = None \<and> \<not> qn_required n
   | Some d \<Rightarrow> \<exists>p. gs_policy g = Some p \<and> \<not> py_unavailable p
       \<and> decide_policy (su_digests u) c (qn_hook n) (qn_plan n) (qn_revision n) (qn_resource n) (qn_attributes n) None
           (su_decision_id u) (su_decided_at u) p = Inr d
       \<and> (pd_effect d = P_allow \<or> pd_effect d = P_require_approval
           \<and> (\<exists>s. gs_approvals g = Some s \<and> vouched c (of_opt (qn_plan n)) (pd_fingerprint d) (qn_revision n)
                (qn_hook n) (su_approval_at u) s)))"

definition sound_approvals :: "gates \<Rightarrow> bool" where
  "sound_approvals g \<longleftrightarrow> (\<forall>s. gs_approvals g = Some s \<longrightarrow> approval_moves False [] s)"

lemma evaluated:
  assumes "evaluate_policy u c n provider = Inr decision"
  shows "case decision of None \<Rightarrow> provider = None \<and> \<not> qn_required n
    | Some d \<Rightarrow> \<exists>p. provider = Some p \<and> \<not> py_unavailable p
       \<and> decide_policy (su_digests u) c (qn_hook n) (qn_plan n) (qn_revision n) (qn_resource n) (qn_attributes n) None
           (su_decision_id u) (su_decided_at u) p = Inr d"
  using assms by (auto simp: evaluate_policy_def split: option.splits if_splits sum.splits)

lemma enforced:
  assumes "enforce_policy_decision c now (Some d) store = (Inr x, store')"
  shows "x = Some d \<and> (pd_effect d = P_allow \<or> pd_effect d = P_require_approval
    \<and> (\<exists>s. store = Some s \<and> fst (is_satisfied c (of_opt (pd_plan d)) (pd_fingerprint d) (pd_revision d) (pd_hook d) now s)))"
  using assms by (cases "pd_effect d") (auto simp: enforce_policy_decision_def decision_requires_approval_def
    split: option.splits if_splits prod.splits)

lemma enforced_none [simp]: "enforce_policy_decision c now None store = (Inr None, store)"
  by (simp add: enforce_policy_decision_def)

lemma passed:
  assumes "evaluate_policy u c n (gs_policy g) = Inr decision" "sound_approvals g"
    and "enforce_policy_decision c (su_approval_at u) decision (gs_approvals g) = (Inr x, store')"
  shows "permitted u c n g decision"
proof (cases decision)
  case None
  then show ?thesis using evaluated[OF assms(1)] by (simp add: permitted_def)
next
  case (Some d)
  note here = evaluated[OF assms(1), unfolded Some option.case] enforced[OF assms(3)[unfolded Some]]
  then obtain p where p: "gs_policy g = Some p" "\<not> py_unavailable p"
    "decide_policy (su_digests u) c (qn_hook n) (qn_plan n) (qn_revision n) (qn_resource n) (qn_attributes n) None
       (su_decision_id u) (su_decided_at u) p = Inr d" by blast
  note d = decided_policy[OF p(3)]
  show ?thesis
  proof (cases "pd_effect d = P_allow")
    case False
    then obtain s where s: "gs_approvals g = Some s" "pd_effect d = P_require_approval"
      "fst (is_satisfied c (of_opt (pd_plan d)) (pd_fingerprint d) (pd_revision d) (pd_hook d) (su_approval_at u) s)"
      using here(2) by blast
    have "approval_moves False [] s" using assms(2) s(1) by (simp add: sound_approvals_def)
    then have "vouched c (of_opt (qn_plan n)) (pd_fingerprint d) (qn_revision n) (qn_hook n) (su_approval_at u) s"
      using satisfied_vouched[OF _ s(3)] d by simp
    then show ?thesis using Some p s(1,2) by (simp add: permitted_def)
  qed (use Some p in \<open>simp add: permitted_def\<close>)
qed

subsection \<open>Records\<close>

definition recorded :: "ctx \<Rightarrow> string \<Rightarrow> string \<Rightarrow> policy_decision option \<Rightarrow> audit_chains option \<Rightarrow> audit_chains option \<Rightarrow> bool" where
  "recorded c action resource decision old new \<longleftrightarrow> (case old of None \<Rightarrow> new = None
   | Some s \<Rightarrow> \<exists>s' r. new = Some s' \<and> chain_of c s' = chain_of c s @ [r] \<and> au_action r = action
       \<and> au_resource r = resource \<and> au_refs r = refs_of decision \<and> au_actor r = pr_subject (cx_principal c)
       \<and> (\<forall>c'. scope_of c' \<noteq> scope_of c \<longrightarrow> chain_of c' s' = chain_of c' s))"

lemma record_gate_recorded:
  "recorded c action resource decision (gs_audit g) (gs_audit (record_gate u c action resource decision md g))"
  by (auto simp: recorded_def record_gate_def append_audit_def new_record_def Let_def chain_of_def split: option.splits)

lemma record_gate_same [simp]:
  "gs_policy (record_gate u c action resource decision md g) = gs_policy g"
  "gs_approvals (record_gate u c action resource decision md g) = gs_approvals g"
  "gs_quotas (record_gate u c action resource decision md g) = gs_quotas g"
  "gs_attestations (record_gate u c action resource decision md g) = gs_attestations g"
  by (simp_all add: record_gate_def)

subsection \<open>Admission\<close>

lemma admit_submission_allows: "admit_submission u c r q = (Inr d, q') \<Longrightarrow> qd_effect d = Q_allow"
  by (auto simp: admit_submission_def split: if_splits sum.splits prod.splits)

lemma admit_submission_refuses:
  assumes "admit_submission u c r q = (Inl e, q')"
  shows "usage_of q' = usage_of q \<and> q_admissions q' = q_admissions q \<and> q_releases q' = q_releases q"
proof (cases "q_unavailable q")
  case False
  obtain res q2 where a: "admit c (sr_resource r) 1 (sr_quota_key r) (if sr_quota_key r = None then None else sr_quota_claim r)
    (su_reservation_id u) (su_admitted_at u) q = (res, q2)" by fastforce
  have q2: "q' = q2" and no: "\<And>d. res = Inr d \<Longrightarrow> qd_effect d \<noteq> Q_allow"
    using assms False a by (auto simp: admit_submission_def split: if_splits sum.splits)
  from a show ?thesis
  proof (cases rule: admit_cases)
    case joined
    then show ?thesis by (simp add: q2 join_claim_def usage_of_def fun_eq_iff)
  next
    case new
    from new(1) show ?thesis
    proof (cases rule: admit_new_cases)
      case refused
      then show ?thesis by (simp add: q2 same_books_def)
    qed (use no in blast)
  qed (simp add: q2)
qed (use assms in \<open>auto simp: admit_submission_def\<close>)

lemma admit_gate_passes:
  assumes "admit_gate u c r decision g = (Inr (x, qd), g')"
  shows "x = decision \<and> recorded c ''pre_submit'' (approval_fingerprint r) decision (gs_audit g) (gs_audit g')
    \<and> (qd = None \<longleftrightarrow> gs_quotas g = None) \<and> (\<forall>d. qd = Some d \<longrightarrow> qd_effect d = Q_allow)"
proof -
  have again: "recorded c a f decision (gs_audit g) (gs_audit (record_gate u c a f decision md (g\<lparr>gs_quotas := q\<rparr>)))" for a f md q
    using record_gate_recorded[of c a f decision "g\<lparr>gs_quotas := q\<rparr>" u md] by simp
  show ?thesis using assms admit_submission_allows[of u c r] again
    by (auto simp: admit_gate_def Let_def record_gate_recorded split: if_splits option.splits sum.splits prod.splits)
qed

lemma admit_gate_refuses:
  assumes "admit_gate u c r decision g = (Inl e, g')"
  shows "\<exists>q q'. gs_quotas g = Some q \<and> gs_quotas g' = Some q' \<and> usage_of q' = usage_of q
     \<and> q_admissions q' = q_admissions q \<and> q_releases q' = q_releases q
    \<and> (if sr_audit_before_quota r
       then recorded c ''pre_submit'' (approval_fingerprint r) decision (gs_audit g) (gs_audit g')
       else gs_audit g' = gs_audit g)"
  using assms admit_submission_refuses[of u c r]
  by (auto simp: admit_gate_def Let_def record_gate_recorded split: if_splits option.splits sum.splits prod.splits)

subsection \<open>Properties\<close>

definition attestations_checked :: "surroundings \<Rightarrow> ctx \<Rightarrow> submit_request \<Rightarrow> policy_decision option \<Rightarrow> gates \<Rightarrow> bool" where
  "attestations_checked u c r decision g \<longleftrightarrow> \<not> sr_require_attestations r
    \<or> (\<exists>s results. gs_attestations g = Some s
        \<and> verify_plan (su_mac u) c (approval_fingerprint r) (of_opt (or_opt (sr_revision r) (Some (sr_plan r))))
            (case decision of None \<Rightarrow> ''unsigned'' | Some d \<Rightarrow> pd_fingerprint d) (sr_plugins r) (sr_sbom r)
            (sr_max_age r) (su_attested_at u) s = Inr results
        \<and> require_verified results = Inr ())"

lemma attest_submission_Inr: "attest_submission u c r decision (gs_attestations g) = Inr x \<Longrightarrow> attestations_checked u c r decision g"
  by (auto simp: attest_submission_def attestations_checked_def split: if_splits option.splits sum.splits)

text \<open>
  C24: What a submission that passes the gate has, for the providers that are configured.  With a policy
  provider, or when the request requires one, there is a decision of the available provider: it allows, or it
  asks for approval and the approval store holds an approved, unexpired request for exactly this plan, policy
  and revision that a second person decided; only without a provider, and where none is required, is nothing
  asked.  Where the request requires attestations, an attestation store is configured and every one of them
  verified.  A configured quota admitted the submission.  Configured audit evidence has exactly one record
  more on the caller's chain, which names the decision, and every other chain as before.
\<close>

theorem submission_passes_gate:
  assumes "sound_approvals g" "gate_pre_submit u c r g = (Inr (decision, admission), g')"
  shows "permitted u c (submit_question r) g decision
    \<and> (decision = None \<longleftrightarrow> gs_policy g = None) \<and> (sr_require_policy r \<longrightarrow> decision \<noteq> None)
    \<and> attestations_checked u c r decision g
    \<and> (admission = None \<longleftrightarrow> gs_quotas g = None) \<and> (\<forall>d. admission = Some d \<longrightarrow> qd_effect d = Q_allow)
    \<and> recorded c ''pre_submit'' (approval_fingerprint r) decision (gs_audit g) (gs_audit g')"
proof -
  obtain d x s where gate: "evaluate_policy u c (submit_question r) (gs_policy g) = Inr d"
    "enforce_policy_decision c (su_approval_at u) d (gs_approvals g) = (Inr x, s)"
    "attest_submission u c r d (gs_attestations g) = Inr ()"
    "admit_gate u c r d (g\<lparr>gs_approvals := s\<rparr>) = (Inr (decision, admission), g')"
    using assms(2) by (auto simp: gate_pre_submit_def Let_def split: sum.splits prod.splits)
  note last = admit_gate_passes[OF gate(4)]
  then have "d = decision" by simp
  moreover have "d = None \<longleftrightarrow> gs_policy g = None" "sr_require_policy r \<longrightarrow> d \<noteq> None"
    using evaluated[OF gate(1)] by (auto simp: submit_question_def split: option.splits)
  ultimately show ?thesis using last passed[OF gate(1) assms(1) gate(2)] attest_submission_Inr[OF gate(3)] by simp
qed

text \<open>
  C25: A refused submission holds nothing.  Whatever the gate refuses (policy, approval, attestation or quota),
  no usage is charged and no reservation is made or released, the policy and the attestations are as before,
  and the audit evidence is unchanged, except that with the audit ahead of the quota a submission refused by
  the quota has left its one record.
\<close>

theorem refused_submission_holds_nothing:
  assumes "gate_pre_submit u c r g = (Inl e, g')"
  shows "rel_option (\<lambda>q q'. usage_of q' = usage_of q \<and> q_admissions q' = q_admissions q \<and> q_releases q' = q_releases q)
      (gs_quotas g) (gs_quotas g')
    \<and> gs_policy g' = gs_policy g \<and> gs_attestations g' = gs_attestations g
    \<and> (gs_audit g' = gs_audit g \<or> sr_audit_before_quota r
        \<and> (\<exists>decision. recorded c ''pre_submit'' (approval_fingerprint r) decision (gs_audit g) (gs_audit g')))"
proof -
  have same: "rel_option (\<lambda>q q'. usage_of q' = usage_of q \<and> q_admissions q' = q_admissions q \<and> q_releases q' = q_releases q) x x"
    for x by (cases x) simp_all
  have kept: "gs_policy g' = gs_policy g \<and> gs_attestations g' = gs_attestations g"
    if "admit_gate u c r d (g\<lparr>gs_approvals := s\<rparr>) = (Inl e, g')" for d s
    using that by (auto simp: admit_gate_def Let_def split: if_splits option.splits sum.splits prod.splits)
  show ?thesis
  proof (cases "\<exists>d s. admit_gate u c r d (g\<lparr>gs_approvals := s\<rparr>) = (Inl e, g')")
    case True
    then obtain d s where a: "admit_gate u c r d (g\<lparr>gs_approvals := s\<rparr>) = (Inl e, g')" by blast
    from admit_gate_refuses[OF a] kept[OF a] show ?thesis by (auto split: if_splits)
  next
    case False
    then show ?thesis using assms same
      by (auto simp: gate_pre_submit_def Let_def split: sum.splits prod.splits)
  qed
qed

text \<open>
  Every enforced decision before an execution leaves one audit record, which names the decision, whether
  it lets the execution pass or not; and an execution passes only with the provider's permission.  Where the
  policy cannot be evaluated nothing is recorded and nothing passes.
\<close>

theorem execution_gate_recorded:
  assumes "sound_approvals g" "gate_pre_execution u c plan revision resource attributes required g = (res, g')"
  shows "case evaluate_policy u c (execution_question plan revision resource attributes required) (gs_policy g) of
      Inl e \<Rightarrow> res = Inl e \<and> g' = g
    | Inr decision \<Rightarrow> recorded c ''pre_execution'' resource decision (gs_audit g) (gs_audit g')
        \<and> (\<forall>d. res = Inr d \<longrightarrow> d = decision
            \<and> permitted u c (execution_question plan revision resource attributes required) g decision)"
proof (cases "evaluate_policy u c (execution_question plan revision resource attributes required) (gs_policy g)")
  case (Inr decision)
  obtain x s where e: "enforce_policy_decision c (su_approval_at u) decision (gs_approvals g) = (x, s)" by fastforce
  note allowed = passed[OF Inr assms(1)]
  show ?thesis using assms(2)[unfolded gate_pre_execution_def Let_def Inr sum.case record_gate_same e prod.case] allowed e
    unfolding Inr sum.case by (cases x) (auto simp: record_gate_recorded)
next
  case (Inl e)
  show ?thesis using assms(2) unfolding gate_pre_execution_def Let_def Inl by auto
qed

text \<open>
  A promotion passes only by an explicit decision of the provider, which allows it or was approved by a
  second person, and leaves one audit record; its assertion that there is a decision fails exactly when no
  provider is configured and none is required.
\<close>

theorem promotion_gate:
  assumes "sound_approvals g"
  shows "case gate_pre_promote u c plan revision required g of
      None \<Rightarrow> gs_policy g = None \<and> \<not> required
    | Some (Inl e, g') \<Rightarrow> gs_audit g' = gs_audit g
    | Some (Inr d, g') \<Rightarrow> permitted u c (promotion_question plan revision required) g (Some d)
        \<and> recorded c ''pre_promote'' revision (Some d) (gs_audit g) (gs_audit g')"
proof (cases "evaluate_policy u c (promotion_question plan revision required) (gs_policy g)")
  case (Inr decision)
  note ev = evaluated[OF Inr]
  show ?thesis
  proof (cases decision)
    case None
    then show ?thesis using ev Inr by (simp add: gate_pre_promote_def promotion_question_def)
  next
    case (Some d)
    have again: "recorded c a f decision (gs_audit g) (gs_audit (record_gate u c a f decision md (g\<lparr>gs_approvals := s\<rparr>)))"
      for a f md s using record_gate_recorded[of c a f decision "g\<lparr>gs_approvals := s\<rparr>" u md] by simp
    obtain x s where e: "enforce_policy_decision c (su_approval_at u) (Some d) (gs_approvals g) = (x, s)" by fastforce
    have allow: "permitted u c (promotion_question plan revision required) g (Some d)" if "pd_effect d = P_allow"
      using ev Some that by (auto simp: permitted_def)
    have approved: "permitted u c (promotion_question plan revision required) g (Some d)" if "x = Inr y" for y
      using passed[OF Inr assms, unfolded Some, OF e[unfolded that]] .
    show ?thesis using Inr Some e allow approved again
      by (cases x) (auto simp: gate_pre_promote_def decision_allows_def record_gate_recorded)
  qed
qed (simp add: gate_pre_promote_def)

text \<open>
  The planner cannot cross a boundary.  A plan request that passes was allowed outright (an approval does
  not count before there is a plan), and the places it names cross none of the decision's constraints.
\<close>

theorem planning_gate:
  assumes "gate_pre_plan u c attributes required g = Inr decision"
  shows "case decision of None \<Rightarrow> gs_policy g = None \<and> \<not> required
    | Some d \<Rightarrow> pd_effect d = P_allow \<and> \<not> crosses_boundary (pd_constraints d) (place_of ''target_region'' attributes)
        (place_of ''egress_destination'' attributes)"
proof -
  obtain d0 where ev0: "evaluate_policy u c (planning_question attributes required) (gs_policy g) = Inr d0"
    using assms by (cases "evaluate_policy u c (planning_question attributes required) (gs_policy g)")
      (auto simp: gate_pre_plan_def)
  obtain y s where en: "enforce_policy_decision c (su_approval_at u) d0 None = (y, s)" by fastforce
  then obtain x where y: "y = Inr x" using assms ev0 by (cases y) (auto simp: gate_pre_plan_def)
  have d0: "d0 = decision" and cross: "\<And>d. decision = Some d \<Longrightarrow> attributes = [] \<or> \<not> crosses_boundary (pd_constraints d)
       (place_of ''target_region'' attributes) (place_of ''egress_destination'' attributes)"
    using assms ev0 en y by (auto simp: gate_pre_plan_def split: option.splits if_splits)
  note gate = ev0[unfolded d0] en[unfolded d0 y] cross
  note ev = evaluated[OF gate(1)]
  show ?thesis
  proof (cases decision)
    case (Some d)
    have "\<not> crosses_boundary g' (place_of a []) (place_of b [])" for g' a b
      by (simp add: crosses_boundary_def outside_def place_of_def)
    then show ?thesis using enforced[OF gate(2)[unfolded Some]] gate(3)[OF Some] Some by auto
  qed (use ev in \<open>simp add: planning_question_def\<close>)
qed

subsection \<open>Gates with every provider\<close>

definition sample_surroundings :: surroundings where
  "sample_surroundings = \<lparr>su_digests = \<lparr>dg_sha256 = (\<lambda>x. ''h''), dg_redactor = \<lparr>rd_secret_key = (\<lambda>k. False), rd_message = (\<lambda>m. m)\<rparr>\<rparr>,
     su_mac = (\<lambda>x. x), su_decision_id = ''d1'', su_record_id = ''r1'', su_reservation_id = ''q1'', su_decided_at = 5,
     su_approval_at = 5, su_attested_at = 5, su_audited_at = 5, su_admitted_at = 5\<rparr>"

definition second_person :: approvals where
  "second_person = approval_run reviewer (Decide_approval ''i'' True None None None ''d'') 2
     (approval_run asker (Create_approval ''pre_promote'' ''p'' ''h'' (Some ''r'') None None ''i'') 1 [])"

definition sample_gates :: gates where
  "sample_gates = \<lparr>gs_policy = Some (new_policy ''default'' ''1'' [] [] unconstrained), gs_approvals = Some second_person,
     gs_quotas = Some sample_provider, gs_audit = Some [], gs_attestations = Some no_attestations\<rparr>"

definition sample_submit :: submit_request where
  "sample_submit = \<lparr>sr_plan = ''p'', sr_effective = None, sr_revision = Some ''r'', sr_quota_key = Some ''k'',
     sr_quota_claim = Some ''w'', sr_plugins = [], sr_sbom = None, sr_require_policy = True,
     sr_require_attestations = False, sr_audit_before_quota = True, sr_max_age = 60, sr_resource = Res_concurrency\<rparr>"

lemma sample_sound: "sound_approvals sample_gates"
proof -
  have "approval_moves False [] second_person" unfolding second_person_def
    by (intro approval_moves.call[OF approval_moves.call[OF approval_moves.stay]]) (simp_all add: new_name_def)
  then show ?thesis by (simp add: sound_approvals_def sample_gates_def)
qed

text \<open>A provider that asks for approval, which a second person gave, and required attestations of plan, revision and policy.\<close>

definition submit_approved :: approvals where
  "submit_approved = approval_run reviewer (Decide_approval ''i'' True None None None ''d'') 2
     (approval_run asker (Create_approval ''pre_submit'' ''p'' ''h'' (Some ''r'') None None ''i'') 1 [])"

definition submit_attested :: attestations where
  "submit_attested = fold (\<lambda>(k, subject, i) s. attestation_run (\<lambda>x. x) asker
      (Put_attestation (make_attestation (\<lambda>x. x) asker k subject None i 0)) s)
     [(K_plan, ''p'', ''a1''), (K_revision, ''r'', ''a2''), (K_policy_bundle, ''h'', ''a3'')] no_attestations"

definition guarded_gates :: gates where
  "guarded_gates = \<lparr>gs_policy = Some (set_rule ''pre_submit'' P_require_approval None None
       (new_policy ''default'' ''1'' [] [] unconstrained)),
     gs_approvals = Some submit_approved, gs_quotas = Some sample_provider, gs_audit = Some [],
     gs_attestations = Some submit_attested\<rparr>"

definition guarded_submit :: submit_request where
  "guarded_submit = sample_submit\<lparr>sr_require_attestations := True\<rparr>"

lemma guarded_sound: "sound_approvals guarded_gates"
proof -
  have "approval_moves False [] submit_approved" unfolding submit_approved_def
    by (intro approval_moves.call[OF approval_moves.call[OF approval_moves.stay]]) (simp_all add: new_name_def)
  then show ?thesis by (simp add: sound_approvals_def guarded_gates_def)
qed

lemma guarded_passes:
  "case fst (gate_pre_submit sample_surroundings asker guarded_submit guarded_gates) of
     Inr (Some decision, Some d) \<Rightarrow> pd_effect decision = P_require_approval | _ \<Rightarrow> False"
  by code_simp

theorem submission_passes_gate_witness:
  "\<exists>decision d g' s. gate_pre_submit sample_surroundings asker guarded_submit guarded_gates = (Inr (Some decision, Some d), g')
     \<and> pd_effect decision = P_require_approval \<and> gs_approvals guarded_gates = Some s
     \<and> vouched asker ''p'' (pd_fingerprint decision) (Some ''r'') ''pre_submit'' 5 s
     \<and> sr_require_attestations guarded_submit
     \<and> attestations_checked sample_surroundings asker guarded_submit (Some decision) guarded_gates
     \<and> qd_effect d = Q_allow \<and> (\<exists>chains record. gs_audit g' = Some chains \<and> chain_of asker chains = [record])"
proof -
  obtain decision d g' where
    go: "gate_pre_submit sample_surroundings asker guarded_submit guarded_gates = (Inr (Some decision, Some d), g')"
    and asks: "pd_effect decision = P_require_approval"
    using guarded_passes by (cases "gate_pre_submit sample_surroundings asker guarded_submit guarded_gates")
      (auto split: sum.splits option.splits)
  note passes = submission_passes_gate[OF guarded_sound go]
  have fields: "gs_approvals guarded_gates = Some submit_approved" "gs_audit guarded_gates = Some []"
    "su_approval_at sample_surroundings = 5" "sr_require_attestations guarded_submit"
    "qn_plan (submit_question guarded_submit) = Some ''p''" "qn_revision (submit_question guarded_submit) = Some ''r''"
    "qn_hook (submit_question guarded_submit) = ''pre_submit''"
    by (simp_all add: guarded_gates_def sample_surroundings_def guarded_submit_def sample_submit_def
        submit_question_def approval_fingerprint_def or_opt_def of_opt_def)
  have "permitted sample_surroundings asker (submit_question guarded_submit) guarded_gates (Some decision)"
    using passes by blast
  then have "vouched asker ''p'' (pd_fingerprint decision) (Some ''r'') ''pre_submit'' 5 submit_approved"
    using asks by (auto simp: permitted_def fields of_opt_def)
  moreover have "recorded asker ''pre_submit'' (approval_fingerprint guarded_submit) (Some decision) (Some []) (gs_audit g')"
    using passes unfolding fields by blast
  then have "\<exists>chains record. gs_audit g' = Some chains \<and> chain_of asker chains = [record]"
    by (auto simp: recorded_def chain_of_def)
  ultimately show ?thesis using go asks passes fields(1,4) by blast
qed

text \<open>A contained workspace, and a provider that denies execution.\<close>

definition contained_gates :: gates where
  "contained_gates = sample_gates\<lparr>gs_quotas := Some (quota_step (Set_contained asker True 3) sample_provider)\<rparr>"

theorem refused_submission_holds_nothing_witness:
  "\<exists>e g'. gate_pre_submit sample_surroundings asker sample_submit contained_gates = (Inl e, g')
     \<and> gs_policy g' = gs_policy contained_gates
     \<and> rel_option (\<lambda>q q'. usage_of q' = usage_of q) (gs_quotas contained_gates) (gs_quotas g')"
proof -
  have "case fst (gate_pre_submit sample_surroundings asker sample_submit contained_gates) of Inl e \<Rightarrow> True | Inr x \<Rightarrow> False"
    by code_simp
  then obtain e g' where go: "gate_pre_submit sample_surroundings asker sample_submit contained_gates = (Inl e, g')"
    by (cases "gate_pre_submit sample_surroundings asker sample_submit contained_gates") (auto split: sum.splits)
  note held = refused_submission_holds_nothing[OF go]
  then have "rel_option (\<lambda>q q'. usage_of q' = usage_of q) (gs_quotas contained_gates) (gs_quotas g')"
    by (auto elim: option.rel_mono_strong)
  with held go show ?thesis by blast
qed

definition denying_gates :: gates where
  "denying_gates = sample_gates\<lparr>gs_policy := Some (set_rule ''pre_execution'' P_deny None None
     (new_policy ''default'' ''1'' [] [] unconstrained))\<rparr>"

theorem execution_gate_recorded_witness:
  "\<exists>e g' decision. gate_pre_execution sample_surroundings asker ''p'' None ''job'' [] True denying_gates = (Inl e, g')
     \<and> recorded asker ''pre_execution'' ''job'' decision (gs_audit denying_gates) (gs_audit g')"
proof -
  let ?n = "execution_question ''p'' None ''job'' [] True"
  have sound: "sound_approvals denying_gates" using sample_sound by (simp add: sound_approvals_def denying_gates_def)
  have "case fst (gate_pre_execution sample_surroundings asker ''p'' None ''job'' [] True denying_gates) of Inl e \<Rightarrow> True | Inr x \<Rightarrow> False"
    by code_simp
  then obtain e g' where go: "gate_pre_execution sample_surroundings asker ''p'' None ''job'' [] True denying_gates = (Inl e, g')"
    by (cases "gate_pre_execution sample_surroundings asker ''p'' None ''job'' [] True denying_gates") (auto split: sum.splits)
  have "case evaluate_policy sample_surroundings asker ?n (gs_policy denying_gates) of Inl e \<Rightarrow> False | Inr x \<Rightarrow> True" by code_simp
  then obtain decision where "evaluate_policy sample_surroundings asker ?n (gs_policy denying_gates) = Inr decision"
    by (auto split: sum.splits)
  with execution_gate_recorded[OF sound go] show ?thesis using go by auto
qed

theorem promotion_gate_witness:
  "\<exists>d g'. gate_pre_promote sample_surroundings asker ''p'' ''r'' True sample_gates = Some (Inr d, g')
     \<and> permitted sample_surroundings asker (promotion_question ''p'' ''r'' True) sample_gates (Some d)"
proof -
  have "case gate_pre_promote sample_surroundings asker ''p'' ''r'' True sample_gates of
      Some (Inr d, g') \<Rightarrow> True | _ \<Rightarrow> False" by code_simp
  then obtain d g' where "gate_pre_promote sample_surroundings asker ''p'' ''r'' True sample_gates = Some (Inr d, g')"
    by (auto split: option.splits sum.splits prod.splits)
  then show ?thesis using promotion_gate[OF sample_sound, where u = sample_surroundings and c = asker
      and plan = "''p''" and revision = "''r''" and required = True] by auto
qed

theorem planning_gate_witness:
  "\<exists>d. gate_pre_plan sample_surroundings asker [(''target_region'', ''eu'')] True sample_gates = Inr (Some d) \<and> pd_effect d = P_allow"
proof -
  have "case gate_pre_plan sample_surroundings asker [(''target_region'', ''eu'')] True sample_gates of
      Inr (Some d) \<Rightarrow> True | _ \<Rightarrow> False" by code_simp
  then obtain d where "gate_pre_plan sample_surroundings asker [(''target_region'', ''eu'')] True sample_gates = Inr (Some d)"
    by (auto split: option.splits sum.splits)
  with planning_gate[OF this] show ?thesis by simp
qed

end
