(* ===== verification/Erasure.thy ===== *)
theory Erasure
  imports Durable_Records Canonical_Json
begin

text \<open>
  Governed erasure (\<open>control_plane/erasure_memory.py\<close>, records in \<open>erasure_models.py\<close>): requests with their
  legal hold, plans over the providers that hold data of the subject, and the report of an execution.
  SHA-256 is a parameter; the clock and the identifiers that \<open>uuid4\<close> generates are arguments.
\<close>

declare split_paired_All [simp del] split_paired_Ex [simp del]

subsection \<open>Records\<close>

datatype erasure_action = Er_delete | Er_anonymize | Er_lookup | Er_proof | Er_retry

datatype erasure_status =
  Er_pending | Er_planned | Er_in_progress | Er_completed | Er_partial | Er_blocked | Er_unsupported | Er_failed

record erasure_request =
  eq_id :: string
  eq_tenant :: string
  eq_workspace :: string
  eq_subject :: string
  eq_fields :: "string list"
  eq_hold :: bool
  eq_status :: erasure_status
  eq_created_at :: instant
  eq_metadata :: "(string, json) pydict"

record erasure_step =
  es_id :: string
  es_provider :: string
  es_action :: erasure_action
  es_fields :: "string list"
  es_supported :: bool
  es_reason :: "string option"

record erasure_plan =
  ep_id :: string
  ep_request :: string
  ep_steps :: "erasure_step list"
  ep_created_at :: instant

record erasure_result =
  er_step :: string
  er_provider :: string
  er_status :: erasure_status
  er_proof :: "string option"
  er_reason :: "string option"

record erasure_report =
  et_id :: string
  et_request :: string
  et_plan :: string
  et_status :: erasure_status
  et_results :: "erasure_result list"
  et_reconciled :: bool
  et_created_at :: instant
  et_metadata :: "(string, json) pydict"

record erasure_provider =
  ev_id :: string
  ev_supported :: "erasure_action list"
  ev_failing :: "erasure_action list"

record erasures =
  er_requests :: "(key, erasure_request) pydict"
  er_plans :: "(key, erasure_plan) pydict"
  er_plan_of :: "(key, string) pydict"
  er_reports :: "(key, erasure_report) pydict"
  er_idempotency :: "(key, string) pydict"

definition no_erasures :: erasures where
  "no_erasures = \<lparr>er_requests = [], er_plans = [], er_plan_of = [], er_reports = [], er_idempotency = []\<rparr>"

subsection \<open>A provider\<close>

fun action_text :: "erasure_action \<Rightarrow> string" where
  "action_text Er_delete = ''delete''"
| "action_text Er_anonymize = ''anonymize''"
| "action_text Er_lookup = ''lookup''"
| "action_text Er_proof = ''proof''"
| "action_text Er_retry = ''retry''"

definition supports :: "erasure_provider \<Rightarrow> erasure_action \<Rightarrow> bool" where
  "supports v a \<longleftrightarrow> a \<in> set (ev_supported v)"

definition proof_text :: "erasure_provider \<Rightarrow> erasure_action \<Rightarrow> string \<Rightarrow> string list \<Rightarrow> string" where
  "proof_text v a subject paths =
     ev_id v @ '':'' @ action_text a @ '':'' @ subject @ '':'' @ joined '','' paths"

definition execute_action :: "(string \<Rightarrow> string) \<Rightarrow> erasure_provider \<Rightarrow> erasure_action \<Rightarrow> string \<Rightarrow> string list \<Rightarrow> string
    \<Rightarrow> erasure_result" where
  "execute_action sha v a subject paths uuid =
     (if \<not> supports v a then \<lparr>er_step = uuid, er_provider = ev_id v, er_status = Er_unsupported, er_proof = None,
        er_reason = Some (''provider does not support '' @ action_text a)\<rparr>
      else if a \<in> set (ev_failing v) then \<lparr>er_step = uuid, er_provider = ev_id v, er_status = Er_failed, er_proof = None,
        er_reason = Some ''injected failure''\<rparr>
      else \<lparr>er_step = uuid, er_provider = ev_id v, er_status = Er_completed,
        er_proof = Some (sha (proof_text v a subject paths)), er_reason = None\<rparr>)"

subsection \<open>Requests and plans\<close>

definition request_name :: "string option \<Rightarrow> string \<Rightarrow> string" where
  "request_name given uuid = of_opt (or_opt given (Some uuid))"

definition subject_key :: "ctx \<Rightarrow> string \<Rightarrow> string list \<Rightarrow> key" where
  "subject_key c subject paths = mk_key (scope_of c) (subject @ '':'' @ joined '','' (sort paths))"

definition new_erasure :: "ctx \<Rightarrow> string \<Rightarrow> string list \<Rightarrow> bool \<Rightarrow> string \<Rightarrow> instant \<Rightarrow> erasure_request" where
  "new_erasure c subject paths hold rid now = \<lparr>eq_id = rid, eq_tenant = cx_tenant c, eq_workspace = cx_workspace c,
     eq_subject = subject, eq_fields = paths, eq_hold = hold,
     eq_status = (if hold then Er_blocked else Er_pending), eq_created_at = now, eq_metadata = []\<rparr>"

definition create_erasure :: "ctx \<Rightarrow> string \<Rightarrow> string list \<Rightarrow> bool \<Rightarrow> string option \<Rightarrow> string \<Rightarrow> instant \<Rightarrow> erasures
    \<Rightarrow> (erasures, erasure_request) outcome" where
  "create_erasure c subject paths hold given uuid now s =
     (let rid = request_name given uuid; idem = subject_key c subject paths in
      case dget (er_idempotency s) idem of
        Some prior \<Rightarrow> (case dget (er_requests s) (mk_key (scope_of c) prior) of
            None \<Rightarrow> raise_in s Key_error
          | Some req \<Rightarrow> return_in s req)
      | None \<Rightarrow> (let req = new_erasure c subject paths hold rid now in
          return_in (s\<lparr>er_requests := dput (mk_key (scope_of c) rid) req (er_requests s),
            er_idempotency := dput idem rid (er_idempotency s)\<rparr>) req))"

definition get_erasure :: "ctx \<Rightarrow> string \<Rightarrow> erasures \<Rightarrow> erasure_request res" where
  "get_erasure c rid s = (case dget (er_requests s) (mk_key (scope_of c) rid) of
     None \<Rightarrow> Inl (Not_found ''erasure request not found'') | Some req \<Rightarrow> Inr req)"

definition plan_steps :: "erasure_request \<Rightarrow> erasure_provider list \<Rightarrow> erasure_action list \<Rightarrow> (nat \<Rightarrow> string) \<Rightarrow> erasure_step list" where
  "plan_steps req providers wanted fresh =
     map (\<lambda>(i, v, a). \<lparr>es_id = fresh i, es_provider = ev_id v, es_action = a, es_fields = eq_fields req,
         es_supported = supports v a, es_reason = (if supports v a then None else Some ''unsupported'')\<rparr>)
       (enumerate 0 (List.product providers wanted))"

definition plan_erasure :: "ctx \<Rightarrow> string \<Rightarrow> erasure_provider list \<Rightarrow> erasure_action list \<Rightarrow> (nat \<Rightarrow> string) \<Rightarrow> string
    \<Rightarrow> instant \<Rightarrow> erasures \<Rightarrow> (erasures, erasure_plan) outcome" where
  "plan_erasure c rid providers actions fresh pid now s = (case get_erasure c rid s of
     Inl e \<Rightarrow> raise_in s e
   | Inr req \<Rightarrow> if eq_hold req \<or> eq_status req = Er_blocked
       then raise_in s (Forbidden ''erasure blocked by legal hold'')
       else (let wanted = (if actions = [] then [Er_delete, Er_anonymize] else actions);
           plan = \<lparr>ep_id = pid, ep_request = rid, ep_steps = plan_steps req providers wanted fresh, ep_created_at = now\<rparr> in
         return_in (s\<lparr>er_plans := dput (mk_key (scope_of c) pid) plan (er_plans s),
           er_plan_of := dput (mk_key (scope_of c) rid) pid (er_plan_of s),
           er_requests := dput (mk_key (scope_of c) rid) (req\<lparr>eq_status := Er_planned\<rparr>) (er_requests s)\<rparr>) plan))"

subsection \<open>Execution and report\<close>

text \<open>The provider of a step: the last of that name, as the dictionary by name has it.\<close>

definition provider_named :: "erasure_provider list \<Rightarrow> string \<Rightarrow> erasure_provider option" where
  "provider_named providers i = dget (fold (\<lambda>v. dput (ev_id v) v) providers []) i"

definition step_result :: "(string \<Rightarrow> string) \<Rightarrow> erasure_provider list \<Rightarrow> string \<Rightarrow> erasure_step \<Rightarrow> erasure_result" where
  "step_result sha providers subject st = (case provider_named providers (es_provider st) of
     Some v \<Rightarrow> if es_supported st then execute_action sha v (es_action st) subject (es_fields st) (es_id st)
       else \<lparr>er_step = es_id st, er_provider = es_provider st, er_status = Er_unsupported, er_proof = None,
         er_reason = Some ''provider missing or unsupported''\<rparr>
   | None \<Rightarrow> \<lparr>er_step = es_id st, er_provider = es_provider st, er_status = Er_unsupported, er_proof = None,
         er_reason = Some ''provider missing or unsupported''\<rparr>)"

definition report_status :: "erasure_status list \<Rightarrow> erasure_status \<times> bool" where
  "report_status results =
     (if results = [] then (Er_partial, False)
      else (let all_completed = list_all (\<lambda>t. t = Er_completed) results;
          reconciled = (all_completed \<and> Er_unsupported \<notin> set results);
          (st, fine) = (if Er_unsupported \<in> set results \<or> Er_failed \<in> set results
            then (if list_all (\<lambda>t. t = Er_completed) (filter (\<lambda>t. t \<noteq> Er_unsupported) results) then Er_partial
                  else if list_all (\<lambda>t. t = Er_unsupported) results then Er_unsupported else Er_partial, False)
            else if all_completed then (Er_completed, reconciled) else (Er_partial, False)) in
        if list_ex (\<lambda>t. t \<in> {Er_unsupported, Er_failed, Er_blocked}) results
        then (if st = Er_completed then Er_partial else st, False) else (st, fine)))"

definition execute_erasure :: "(string \<Rightarrow> string) \<Rightarrow> ctx \<Rightarrow> string \<Rightarrow> erasure_provider list \<Rightarrow> string \<Rightarrow> instant
    \<Rightarrow> erasures \<Rightarrow> (erasures, erasure_report) outcome" where
  "execute_erasure sha c pid providers uuid now s = (case dget (er_plans s) (mk_key (scope_of c) pid) of
     None \<Rightarrow> raise_in s (Not_found ''erasure plan not found'')
   | Some plan \<Rightarrow> (case get_erasure c (ep_request plan) s of
       Inl e \<Rightarrow> raise_in s e
     | Inr req \<Rightarrow> if eq_hold req then raise_in s (Forbidden ''erasure blocked by legal hold'')
         else (let results = map (step_result sha providers (eq_subject req)) (ep_steps plan);
             (st, fine) = report_status (map er_status results);
             report = \<lparr>et_id = uuid, et_request = ep_request plan, et_plan = pid, et_status = st,
               et_results = results, et_reconciled = fine, et_created_at = now, et_metadata = []\<rparr> in
           return_in (s\<lparr>er_reports := dput (mk_key (scope_of c) uuid) report (er_reports s),
             er_requests := dput (mk_key (scope_of c) (ep_request plan)) (req\<lparr>eq_status := st\<rparr>) (er_requests s)\<rparr>) report)))"

definition get_erasure_report :: "ctx \<Rightarrow> string \<Rightarrow> erasures \<Rightarrow> erasure_report res" where
  "get_erasure_report c i s = (case dget (er_reports s) (mk_key (scope_of c) i) of
     None \<Rightarrow> Inl (Not_found ''erasure report not found'') | Some r \<Rightarrow> Inr r)"

subsection \<open>Histories\<close>

datatype erasure_call =
    Create_erasure string "string list" bool "string option" string
  | Plan_erasure string "erasure_provider list" "erasure_action list" "nat \<Rightarrow> string" string
  | Execute_erasure string "erasure_provider list" string

fun erasure_run :: "(string \<Rightarrow> string) \<Rightarrow> ctx \<Rightarrow> erasure_call \<Rightarrow> instant \<Rightarrow> erasures \<Rightarrow> erasures" where
  "erasure_run sha c (Create_erasure subject paths hold given uuid) now s =
     snd (create_erasure c subject paths hold given uuid now s)"
| "erasure_run sha c (Plan_erasure rid providers actions fresh pid) now s =
     snd (plan_erasure c rid providers actions fresh pid now s)"
| "erasure_run sha c (Execute_erasure pid providers uuid) now s =
     snd (execute_erasure sha c pid providers uuid now s)"

text \<open>A creation that names a new request.\<close>

fun new_request :: "ctx \<Rightarrow> erasure_call \<Rightarrow> erasures \<Rightarrow> bool" where
  "new_request c (Create_erasure subject paths hold given uuid) s \<longleftrightarrow>
     dget (er_requests s) (mk_key (scope_of c) (request_name given uuid)) = None"
| "new_request c _ s \<longleftrightarrow> True"

inductive erasing :: "(string \<Rightarrow> string) \<Rightarrow> erasures \<Rightarrow> erasures \<Rightarrow> bool" for sha :: "string \<Rightarrow> string" where
  stay: "erasing sha s s"
| call: "erasing sha s s' \<Longrightarrow> new_request c call s' \<Longrightarrow> erasing sha s (erasure_run sha c call now s')"

subsection \<open>Reports\<close>

lemma report_completed:
  "report_status ts = (st, fine) \<Longrightarrow>
    (st = Er_completed \<longleftrightarrow> ts \<noteq> [] \<and> (\<forall>t \<in> set ts. t = Er_completed)) \<and> (fine \<longleftrightarrow> st = Er_completed)
    \<and> st \<in> {Er_completed, Er_partial}"
proof -
  assume "report_status ts = (st, fine)"
  moreover have "filter (\<lambda>t. t \<noteq> Er_unsupported) ts = [] \<longleftrightarrow> (\<forall>t \<in> set ts. t = Er_unsupported)"
    by (simp add: filter_empty_conv)
  ultimately show ?thesis
    by (cases ts) (auto simp: report_status_def Let_def list_all_iff list_ex_iff split: if_splits prod.splits)
qed

lemma named_from:
  "dget (fold (\<lambda>v. dput (ev_id v) v) ps d) i = Some v \<Longrightarrow> v \<in> set ps \<or> dget d i = Some v"
proof (induction ps arbitrary: d)
  case (Cons w ps)
  have "v \<in> set ps \<or> dget (dput (ev_id w) w d) i = Some v" using Cons.prems unfolding fold_simps by (rule Cons.IH)
  then show ?case by (auto split: if_splits)
qed simp

lemma provider_named_mem: "provider_named providers i = Some v \<Longrightarrow> v \<in> set providers"
  using named_from[of providers "[]" i v] by (simp add: provider_named_def)

lemma step_completed:
  "er_status (step_result sha providers subject st) = Er_completed \<longleftrightarrow>
     (\<exists>v. provider_named providers (es_provider st) = Some v \<and> es_supported st
        \<and> supports v (es_action st) \<and> es_action st \<notin> set (ev_failing v))"
  by (auto simp: step_result_def execute_action_def split: option.splits)

lemma step_proof:
  assumes "er_status (step_result sha providers subject st) = Er_completed"
  shows "\<exists>v. provider_named providers (es_provider st) = Some v
    \<and> er_proof (step_result sha providers subject st) = Some (sha (proof_text v (es_action st) subject (es_fields st)))"
  using assms by (auto simp: step_result_def execute_action_def split: option.splits if_splits)

lemma step_named [simp]: "er_step (step_result sha providers subject st) = es_id st"
  by (simp add: step_result_def execute_action_def split: option.splits)

subsection \<open>Legal holds\<close>

text \<open>Plans and reports belong to requests without a hold, and a request with one is blocked.\<close>

definition free_request :: "erasures \<Rightarrow> scope \<Rightarrow> string \<Rightarrow> bool" where
  "free_request s sc rid \<longleftrightarrow> (\<exists>req. dget (er_requests s) (mk_key sc rid) = Some req \<and> \<not> eq_hold req)"

definition holds_ok :: "erasures \<Rightarrow> bool" where
  "holds_ok s \<longleftrightarrow>
     (\<forall>k plan. dget (er_plans s) k = Some plan \<longrightarrow> free_request s (key_scope k) (ep_request plan))
     \<and> (\<forall>k rep. dget (er_reports s) k = Some rep \<longrightarrow> free_request s (key_scope k) (et_request rep))
     \<and> (\<forall>k req. dget (er_requests s) k = Some req \<longrightarrow> eq_hold req \<longrightarrow> eq_status req = Er_blocked)"

definition holds_later :: "erasures \<Rightarrow> erasures \<Rightarrow> bool" where
  "holds_later s s' \<longleftrightarrow> (\<forall>k req. dget (er_requests s) k = Some req \<longrightarrow>
     (\<exists>req'. dget (er_requests s') k = Some req' \<and> eq_hold req' = eq_hold req \<and> (eq_hold req \<longrightarrow> req' = req)))"

lemma holds_later_refl [simp]: "holds_later s s"
  by (simp add: holds_later_def)

lemma holds_later_trans: "holds_later s s' \<Longrightarrow> holds_later s' s'' \<Longrightarrow> holds_later s s''"
  unfolding holds_later_def by metis

lemma free_later: "holds_later s s' \<Longrightarrow> free_request s sc rid \<Longrightarrow> free_request s' sc rid"
  unfolding holds_later_def free_request_def by metis

lemma holds_ok_more:
  assumes "holds_ok s" "holds_later s s'"
    and "\<And>k plan. dget (er_plans s') k = Some plan \<Longrightarrow> dget (er_plans s) k = Some plan \<or> free_request s (key_scope k) (ep_request plan)"
    and "\<And>k rep. dget (er_reports s') k = Some rep \<Longrightarrow> dget (er_reports s) k = Some rep \<or> free_request s (key_scope k) (et_request rep)"
    and "\<And>k req. dget (er_requests s') k = Some req \<Longrightarrow> eq_hold req \<Longrightarrow> dget (er_requests s) k = Some req \<or> eq_status req = Er_blocked"
  shows "holds_ok s'"
  using assms free_later[OF assms(2)] unfolding holds_ok_def by metis

lemma erasure_run_holds:
  assumes "holds_ok s" "new_request c call s"
  shows "holds_ok (erasure_run sha c call now s) \<and> holds_later s (erasure_run sha c call now s)"
proof (cases call)
  case (Create_erasure subject paths hold given uuid)
  let ?s = "erasure_run sha c call now s"
  have later: "holds_later s ?s" using assms(2) Create_erasure
    by (auto simp: create_erasure_def Let_def holds_later_def split: option.splits)
  moreover have "holds_ok ?s"
    by (rule holds_ok_more[OF assms(1) later])
      (use Create_erasure in \<open>auto simp: create_erasure_def Let_def new_erasure_def split: option.splits if_splits\<close>)
  ultimately show ?thesis by blast
next
  case (Plan_erasure rid providers actions fresh pid)
  let ?s = "erasure_run sha c call now s"
  have later: "holds_later s ?s" using Plan_erasure
    by (auto simp: plan_erasure_def get_erasure_def Let_def holds_later_def split: option.splits)
  moreover have "holds_ok ?s"
    by (rule holds_ok_more[OF assms(1) later])
      (use Plan_erasure in \<open>auto simp: plan_erasure_def get_erasure_def Let_def free_request_def split: option.splits if_splits\<close>)
  ultimately show ?thesis by blast
next
  case (Execute_erasure pid providers uuid)
  let ?s = "erasure_run sha c call now s"
  have later: "holds_later s ?s" using Execute_erasure
    by (auto simp: execute_erasure_def get_erasure_def Let_def holds_later_def split: option.splits prod.splits)
  moreover have "holds_ok ?s"
    by (rule holds_ok_more[OF assms(1) later])
      (use Execute_erasure in \<open>auto simp: execute_erasure_def get_erasure_def Let_def free_request_def
        split: option.splits if_splits prod.splits\<close>)
  ultimately show ?thesis by blast
qed

lemma erasing_holds: "erasing sha s s' \<Longrightarrow> holds_ok s \<Longrightarrow> holds_ok s' \<and> holds_later s s'"
proof (induction rule: erasing.induct)
  case (call s s' c call now)
  then show ?case using erasure_run_holds[of s' c call sha now] holds_later_trans by blast
qed simp

lemma holds_ok_empty: "holds_ok no_erasures"
  by (simp add: holds_ok_def no_erasures_def)

subsection \<open>Properties\<close>

text \<open>
  C29: What a report claims.  An execution reports completion exactly when the plan has a step and every step
  was planned as supported and is carried out, without failure, by a provider that is present and supports it;
  then each result carries the provider's proof for the subject.  Every other outcome is reported as partial
  and not reconciled, so the status unsupported is never reported.
\<close>

theorem completed_report_sound:
  assumes "execute_erasure sha c pid providers uuid now s = (Inr report, s')"
    and "dget (er_plans s) (mk_key (scope_of c) pid) = Some plan"
  shows "(et_status report = Er_completed \<longleftrightarrow> ep_steps plan \<noteq> []
        \<and> list_all (\<lambda>st. \<exists>v. provider_named providers (es_provider st) = Some v \<and> es_supported st
             \<and> supports v (es_action st) \<and> es_action st \<notin> set (ev_failing v)) (ep_steps plan))
    \<and> (et_reconciled report \<longleftrightarrow> et_status report = Er_completed)
    \<and> et_status report \<in> {Er_completed, Er_partial}
    \<and> map er_step (et_results report) = map es_id (ep_steps plan)
    \<and> (et_status report = Er_completed \<longrightarrow> list_all (\<lambda>r. \<exists>v \<in> set providers. \<exists>a subject paths.
         er_proof r = Some (sha (proof_text v a subject paths))) (et_results report))"
proof -
  obtain req where req: "get_erasure c (ep_request plan) s = Inr req" "\<not> eq_hold req"
    using assms by (auto simp: execute_erasure_def split: sum.splits if_splits)
  let ?results = "map (step_result sha providers (eq_subject req)) (ep_steps plan)"
  obtain st fine where status: "report_status (map er_status ?results) = (st, fine)" by fastforce
  have report: "et_results report = ?results" "et_status report = st" "et_reconciled report = fine"
    using assms req status by (auto simp: execute_erasure_def Let_def)
  note claims = report_completed[OF status]
  have all: "st = Er_completed \<longleftrightarrow> ep_steps plan \<noteq> []
      \<and> (\<forall>x \<in> set (ep_steps plan). er_status (step_result sha providers (eq_subject req) x) = Er_completed)"
    using claims by auto
  note mem = provider_named_mem
  have proofs: "\<exists>v \<in> set providers. \<exists>a subject paths. er_proof (step_result sha providers (eq_subject req) x) = Some (sha (proof_text v a subject paths))"
    if "er_status (step_result sha providers (eq_subject req) x) = Er_completed" for x
    using step_proof[OF that] mem by blast
  have whole: "st = Er_completed \<longleftrightarrow> ep_steps plan \<noteq> []
      \<and> list_all (\<lambda>st. \<exists>v. provider_named providers (es_provider st) = Some v \<and> es_supported st
           \<and> supports v (es_action st) \<and> es_action st \<notin> set (ev_failing v)) (ep_steps plan)"
    using all unfolding step_completed list_all_iff .
  have proven: "st = Er_completed \<longrightarrow> list_all (\<lambda>r. \<exists>v \<in> set providers. \<exists>a subject paths.
      er_proof r = Some (sha (proof_text v a subject paths))) ?results"
    using all proofs unfolding list_all_iff set_map ball_simps by blast
  have steps: "map er_step ?results = map es_id (ep_steps plan)" by simp
  show ?thesis unfolding report using whole claims steps proven by blast
qed

text \<open>
  A legal hold is kept.  As long as creations name new requests, a request that is stored with a legal
  hold stays as it is, blocked, in every later state, and there is neither a plan nor a report for it.
\<close>

theorem legal_hold_kept:
  assumes "erasing sha no_erasures s" "erasing sha s s'"
    and "dget (er_requests s) (mk_key sc rid) = Some req" "eq_hold req"
  shows "dget (er_requests s') (mk_key sc rid) = Some req \<and> eq_status req = Er_blocked
    \<and> (\<forall>k plan. dget (er_plans s') k = Some plan \<and> key_scope k = sc \<longrightarrow> ep_request plan \<noteq> rid)
    \<and> (\<forall>k rep. dget (er_reports s') k = Some rep \<and> key_scope k = sc \<longrightarrow> et_request rep \<noteq> rid)"
proof -
  have ok: "holds_ok s" using erasing_holds[OF assms(1) holds_ok_empty] by blast
  then have ok': "holds_ok s'" and later: "holds_later s s'" using erasing_holds[OF assms(2)] by blast+
  have same: "dget (er_requests s') (mk_key sc rid) = Some req"
    using later assms(3,4) unfolding holds_later_def by blast
  then have "\<not> free_request s' sc rid" using assms(4) by (simp add: free_request_def)
  then show ?thesis using same ok' assms(4) unfolding holds_ok_def by blast
qed

text \<open>
  A hold that comes later is dropped.  After a request for a subject and its fields, a second request for
  the same subject and fields in any order, with a legal hold, is answered with the first one, which has
  none, and changes nothing.
\<close>

theorem later_hold_ignored:
  assumes "dget (er_idempotency s) (subject_key c subject paths) = None" "sort paths' = sort paths"
    and "create_erasure c subject paths False given uuid now s = (Inr req, s')"
  shows "create_erasure c subject paths' True given' uuid' now' s' = (Inr req, s') \<and> \<not> eq_hold req"
proof -
  have "subject_key c subject paths' = subject_key c subject paths" using assms(2) by (simp add: subject_key_def)
  then show ?thesis using assms(1,3) by (auto simp: create_erasure_def Let_def new_erasure_def)
qed

subsection \<open>A plan over two providers\<close>

definition eraser :: ctx where
  "eraser = \<lparr>cx_principal = \<lparr>pr_subject = ''ann'', pr_issuer = None, pr_kind = Human\<rparr>, cx_tenant = ''acme'',
     cx_workspace = ''main'', cx_environment = ''prod'', cx_domain = ''d'', cx_owner = None\<rparr>"

definition warehouse :: "erasure_provider list" where
  "warehouse = [\<lparr>ev_id = ''lake'', ev_supported = [Er_delete], ev_failing = []\<rparr>,
     \<lparr>ev_id = ''db'', ev_supported = [Er_delete, Er_anonymize], ev_failing = []\<rparr>]"

definition erasure_asked :: erasures where
  "erasure_asked = erasure_run (\<lambda>x. x) eraser (Create_erasure ''s'' [''b'', ''a''] False (Some ''e1'') ''u'') 1
     (erasure_run (\<lambda>x. x) eraser (Create_erasure ''t'' [''a''] True (Some ''e2'') ''u'') 1 no_erasures)"

definition erasure_planned :: erasures where
  "erasure_planned = erasure_run (\<lambda>x. x) eraser (Plan_erasure ''e1'' warehouse [Er_delete] (\<lambda>i. replicate i CHR ''s'') ''p1'') 2 erasure_asked"

definition erasure_finished :: erasures where
  "erasure_finished = erasure_run (\<lambda>x. x) eraser (Execute_erasure ''p1'' warehouse ''o1'') 3 erasure_planned"

theorem completed_report_sound_witness:
  "\<exists>report s'. execute_erasure (\<lambda>x. x) eraser ''p1'' warehouse ''o1'' 3 erasure_planned = (Inr report, s')
     \<and> et_reconciled report = (et_status report = Er_completed) \<and> et_status report = Er_completed"
proof -
  have plan: "dget (er_plans erasure_planned) (mk_key (scope_of eraser) ''p1'')
      = Some (the (dget (er_plans erasure_planned) (mk_key (scope_of eraser) ''p1'')))" by code_simp
  have "case execute_erasure (\<lambda>x. x) eraser ''p1'' warehouse ''o1'' 3 erasure_planned of
      (Inr report, s') \<Rightarrow> et_status report = Er_completed | _ \<Rightarrow> False" by code_simp
  then obtain report s' where go: "execute_erasure (\<lambda>x. x) eraser ''p1'' warehouse ''o1'' 3 erasure_planned = (Inr report, s')"
    "et_status report = Er_completed" by (auto split: prod.splits sum.splits)
  from completed_report_sound[OF go(1) plan] show ?thesis using go by simp
qed

lemma erasure_asked_reached: "erasing (\<lambda>x. x) no_erasures erasure_asked"
  unfolding erasure_asked_def
  by (intro erasing.call[OF erasing.call[OF erasing.stay]]) (code_simp+)

lemma erasure_finished_reached: "erasing (\<lambda>x. x) erasure_asked erasure_finished"
  unfolding erasure_finished_def erasure_planned_def
  by (intro erasing.call[OF erasing.call[OF erasing.stay]]) simp_all

theorem legal_hold_kept_witness:
  "\<exists>req. dget (er_requests erasure_finished) (mk_key (scope_of eraser) ''e2'') = Some req \<and> eq_status req = Er_blocked"
proof -
  have "dget (er_requests erasure_asked) (mk_key (scope_of eraser) ''e2'') = Some (new_erasure eraser ''t'' [''a''] True ''e2'' 1)"
    by code_simp
  moreover have "eq_hold (new_erasure eraser ''t'' [''a''] True ''e2'' 1)" by (simp add: new_erasure_def)
  ultimately show ?thesis using legal_hold_kept[OF erasure_asked_reached erasure_finished_reached] by blast
qed

theorem later_hold_ignored_witness:
  "\<exists>req s'. create_erasure eraser ''s'' [''b'', ''a''] False None ''u1'' 1 no_erasures = (Inr req, s')
     \<and> create_erasure eraser ''s'' [''a'', ''b''] True None ''u2'' 2 s' = (Inr req, s')"
proof -
  have free: "dget (er_idempotency no_erasures) (subject_key eraser ''s'' [''b'', ''a'']) = None" by (simp add: no_erasures_def)
  have order: "sort [''a'', ''b''] = sort [''b'', ''a'']" by code_simp
  obtain req s' where go: "create_erasure eraser ''s'' [''b'', ''a''] False None ''u1'' 1 no_erasures = (Inr req, s')"
    by (simp add: create_erasure_def no_erasures_def Let_def)
  from later_hold_ignored[OF free order go] go show ?thesis by blast
qed

end
