(* ===== verification/Registry.thy ===== *)
theory Registry
  imports Durable_Records Json_Text Redaction Civil_Time
begin

text \<open>
  The registry of the control plane (\<open>control_plane/registry_memory.py\<close>, records in
  \<open>registry_models.py\<close>): directories of tenants, workspaces, environments and security domains with their
  lifecycle, and the append-only revisions of logical identities with aliases and promotions.  SHA-256 and
  the redaction are the parameter \<open>digests\<close>, the text of a nested value the parameter of the redaction of
  secret references; the clock and the generated identifiers are arguments.  The text of a timestamp that a
  caller gives is a \<open>stamp\<close>: an instant, or a text that does not parse.
\<close>

declare split_paired_All [simp del] split_paired_Ex [simp del]

subsection \<open>Records\<close>

datatype lifecycle = Active | Suspended | Archived

datatype stamp = At instant | Unreadable string

record tenant_record =
  tn_id :: string
  tn_lifecycle :: lifecycle
  tn_name :: "string option"
  tn_domain :: "string option"
  tn_created_at :: "stamp option"
  tn_updated_at :: "stamp option"
  tn_metadata :: "(string, json) pydict"

record workspace_record =
  ws_tenant :: string
  ws_id :: string
  ws_lifecycle :: lifecycle
  ws_name :: "string option"
  ws_created_at :: "stamp option"
  ws_updated_at :: "stamp option"
  ws_metadata :: "(string, json) pydict"

record environment_record =
  en_tenant :: string
  en_environment :: string
  en_name :: string
  en_workspace :: "string option"
  en_lifecycle :: lifecycle
  en_created_at :: "stamp option"
  en_updated_at :: "stamp option"
  en_metadata :: "(string, json) pydict"

record domain_record =
  dm_id :: string
  dm_lifecycle :: lifecycle
  dm_name :: "string option"
  dm_created_at :: "stamp option"
  dm_updated_at :: "stamp option"
  dm_metadata :: "(string, json) pydict"

record logical =
  lg_id :: string
  lg_tenant :: string
  lg_workspace :: string
  lg_kind :: string
  lg_created_at :: "stamp option"
  lg_metadata :: "(string, json) pydict"

text \<open>A revision as a caller submits it has an optional stamp; as it is stored it has an instant.\<close>

record 'time revision =
  rv_logical :: string
  rv_id :: string
  rv_tenant :: string
  rv_workspace :: string
  rv_fingerprint :: string
  rv_content :: "(string, json) pydict"
  rv_created_at :: 'time
  rv_kind :: "string option"
  rv_signature :: "string option"
  rv_provenance :: "(string, json) pydict option"

record alias_record =
  al_tenant :: string
  al_workspace :: string
  al_alias :: string
  al_logical :: string
  al_revision :: string
  al_created_at :: "stamp option"
  al_metadata :: "(string, json) pydict"

record promotion =
  pm_id :: string
  pm_tenant :: string
  pm_workspace :: string
  pm_logical :: string
  pm_from :: string
  pm_to :: string
  pm_from_environment :: string
  pm_to_environment :: string
  pm_created_at :: instant
  pm_metadata :: "(string, json) pydict"

record registry =
  rg_tenants :: "(string, tenant_record) pydict"
  rg_workspaces :: "(scope, workspace_record) pydict"
  rg_logical :: "(key, logical) pydict"
  rg_revisions :: "(key, instant revision) pydict"
  rg_aliases :: "(key, alias_record) pydict"
  rg_promotions :: "(key, promotion) pydict"
  rg_environments :: "(string \<times> string, environment_record) pydict"
  rg_domains :: "(string, domain_record) pydict"

definition empty_registry :: registry where
  "empty_registry = \<lparr>rg_tenants = [], rg_workspaces = [], rg_logical = [], rg_revisions = [], rg_aliases = [],
     rg_promotions = [], rg_environments = [], rg_domains = []\<rparr>"

subsection \<open>Lifecycle\<close>

fun require_active :: "lifecycle \<Rightarrow> string \<Rightarrow> cp_error option" where
  "require_active Active resource = None"
| "require_active Suspended resource = Some (Forbidden (resource @ '' is suspended; registry operations fail closed''))"
| "require_active Archived resource = Some (Forbidden (resource @ '' is archived; registry writes fail closed''))"

definition tenant_problem :: "string \<Rightarrow> registry \<Rightarrow> cp_error option" where
  "tenant_problem t s = (case dget (rg_tenants s) t of None \<Rightarrow> None
     | Some r \<Rightarrow> require_active (tn_lifecycle r) (''tenant:'' @ t))"

definition workspace_problem :: "ctx \<Rightarrow> registry \<Rightarrow> cp_error option" where
  "workspace_problem c s = (case dget (rg_workspaces s) (scope_of c) of None \<Rightarrow> None
     | Some r \<Rightarrow> require_active (ws_lifecycle r) (''workspace:'' @ cx_workspace c))"

definition scope_problem :: "ctx \<Rightarrow> registry \<Rightarrow> cp_error option" where
  "scope_problem c s = (case tenant_problem (cx_tenant c) s of Some e \<Rightarrow> Some e | None \<Rightarrow> workspace_problem c s)"

text \<open>A guard clause in front of the rest of an operation.\<close>

definition guarded :: "'s \<Rightarrow> cp_error option \<Rightarrow> ('s, 'a) outcome \<Rightarrow> ('s, 'a) outcome" where
  "guarded s problem rest = (case problem of Some e \<Rightarrow> raise_in s e | None \<Rightarrow> rest)"

lemma guarded_simps [simp]: "guarded s None rest = rest" "guarded s (Some e) rest = (Inl e, s)"
  by (simp_all add: guarded_def)

subsection \<open>Safe content\<close>

definition casefold :: "string \<Rightarrow> string" where
  "casefold s = concat (map (\<lambda>c. if (of_char c :: int) = 223 then ''ss'' else [lower_char c]) s)"

definition normalized_key :: "string \<Rightarrow> string" where
  "normalized_key k = map (\<lambda>c. if c = CHR ''-'' then CHR ''_'' else c) (casefold k)"

definition probe_hidden :: "redactor \<Rightarrow> string \<Rightarrow> bool" where
  "probe_hidden rd k \<longleftrightarrow> dget (redact_entries rd [(k, JStr ''etlantic-safe-probe'')]) k = Some (JStr ''***'')"

text \<open>The text of a value under \<open>str\<close>: a string is its own text, the text of any other is a parameter.\<close>

fun str_text :: "(json \<Rightarrow> string) \<Rightarrow> json \<Rightarrow> string" where
  "str_text repr (JStr s) = s"
| "str_text repr v = repr v"

definition safe_secret :: "redactor \<Rightarrow> (json \<Rightarrow> string) \<Rightarrow> json \<Rightarrow> json" where
  "safe_secret rd repr child = (case child of
     JMap m \<Rightarrow> if set (map fst m) = {''provider'', ''name''}
       then (case (dget m ''provider'', dget m ''name'') of
           (Some p, Some n) \<Rightarrow> JMap [(''provider'', redact_value rd (JStr (str_text repr p))),
             (''name'', redact_value rd (JStr (str_text repr n)))]
         | _ \<Rightarrow> JStr ''***'')
       else JStr ''***''
   | _ \<Rightarrow> JStr ''***'')"

fun safe_value :: "redactor \<Rightarrow> (json \<Rightarrow> string) \<Rightarrow> json \<Rightarrow> json" where
  "safe_value rd repr (JMap m) = JMap (map (\<lambda>(k, v). (k,
     if normalized_key k = ''secret_ref'' then safe_secret rd repr v
     else if normalized_key k \<in> {''has_secret_ref'', ''secret_provider''} then safe_value rd repr v
     else if probe_hidden rd k then JStr ''***'' else safe_value rd repr v)) m)"
| "safe_value rd repr (JList vs) = JList (map (safe_value rd repr) vs)"
| "safe_value rd repr (JStr s) = redact_value rd (JStr s)"
| "safe_value rd repr v = v"

record registry_digests = digests +
  rg_repr :: "json \<Rightarrow> string"

definition safe_content :: "registry_digests \<Rightarrow> (string, json) pydict \<Rightarrow> (string, json) pydict" where
  "safe_content dg content = (case safe_value (dg_redactor dg) (rg_repr dg) (JMap content) of JMap m \<Rightarrow> m | _ \<Rightarrow> [])"

definition content_fingerprint :: "registry_digests \<Rightarrow> (string, json) pydict \<Rightarrow> string" where
  "content_fingerprint dg content = dg_sha256 dg (compact_json (JMap content))"

definition safe_metadata :: "registry_digests \<Rightarrow> (string, json) pydict \<Rightarrow> (string, json) pydict" where
  "safe_metadata dg md = redact_entries (dg_redactor dg) md"

definition safe_text :: "registry_digests \<Rightarrow> string option \<Rightarrow> string option" where
  "safe_text dg t = (case t of None \<Rightarrow> None | Some x \<Rightarrow> Some (if x = [] then x else rd_message (dg_redactor dg) x))"

subsection \<open>Timestamps of revisions\<close>

definition timestamp_after :: "instant option \<Rightarrow> stamp option \<Rightarrow> instant \<Rightarrow> instant res" where
  "timestamp_after current candidate now = (case candidate of
     Some (Unreadable t) \<Rightarrow> if t = [] then Inr (case current of None \<Rightarrow> now | Some cur \<Rightarrow> if now \<le> cur then cur + 1 else now)
       else Inl (Conflict ''Definition revision has an invalid timestamp'')
   | _ \<Rightarrow> (let t = (case candidate of Some (At t) \<Rightarrow> t | _ \<Rightarrow> now) in
       Inr (case current of None \<Rightarrow> t | Some cur \<Rightarrow> if t \<le> cur then cur + 1 else t)))"

definition or_now :: "stamp option \<Rightarrow> instant \<Rightarrow> stamp option" where
  "or_now t now = (if t = None \<or> t = Some (Unreadable []) then Some (At now) else t)"

text \<open>\<open>revision_order_key\<close> and the head of a logical identity: the first maximal revision.\<close>

definition before :: "instant revision \<Rightarrow> instant revision \<Rightarrow> bool" where
  "before a b \<longleftrightarrow> rv_created_at a < rv_created_at b \<or> rv_created_at a = rv_created_at b \<and> rv_id a < rv_id b"

fun latest :: "instant revision option \<Rightarrow> instant revision list \<Rightarrow> instant revision option" where
  "latest best [] = best"
| "latest best (r # rs) = latest (case best of None \<Rightarrow> Some r | Some b \<Rightarrow> Some (if before b r then r else b)) rs"

definition revisions_of :: "ctx \<Rightarrow> string \<Rightarrow> registry \<Rightarrow> instant revision list" where
  "revisions_of c lid s = filter (\<lambda>r. rv_tenant r = cx_tenant c \<and> rv_workspace r = cx_workspace c \<and> rv_logical r = lid)
     (map snd (rg_revisions s))"

definition head :: "ctx \<Rightarrow> string \<Rightarrow> registry \<Rightarrow> instant revision option" where
  "head c lid s = latest None (revisions_of c lid s)"

subsection \<open>Tenants and workspaces\<close>

abbreviation no_tenant :: cp_error where "no_tenant \<equiv> Not_found ''Tenant not found''"
abbreviation no_workspace :: cp_error where "no_workspace \<equiv> Not_found ''Workspace not found''"
abbreviation no_environment :: cp_error where "no_environment \<equiv> Not_found ''Environment not found''"
abbreviation no_domain :: cp_error where "no_domain \<equiv> Not_found ''Security domain not found''"
abbreviation no_logical :: cp_error where "no_logical \<equiv> Not_found ''Logical identity not found''"
abbreviation no_revision :: cp_error where "no_revision \<equiv> Not_found ''Revision not found''"
abbreviation no_alias :: cp_error where "no_alias \<equiv> Not_found ''Alias not found''"
abbreviation no_promotion :: cp_error where "no_promotion \<equiv> Not_found ''Promotion not found''"

definition get_tenant :: "ctx \<Rightarrow> string \<Rightarrow> registry \<Rightarrow> (registry, tenant_record) outcome" where
  "get_tenant c t s = (case dget (rg_tenants s) t of
     None \<Rightarrow> raise_in s no_tenant
   | Some r \<Rightarrow> if cx_tenant c \<noteq> t then raise_in s no_tenant
       else guarded s (require_active (tn_lifecycle r) (''tenant:'' @ t)) (return_in s r))"

definition put_tenant :: "registry_digests \<Rightarrow> ctx \<Rightarrow> tenant_record \<Rightarrow> instant \<Rightarrow> registry \<Rightarrow> (registry, unit) outcome" where
  "put_tenant dg c r now s = (if cx_tenant c \<noteq> tn_id r then raise_in s no_tenant
     else (let existing = dget (rg_tenants s) (tn_id r);
         stored = r\<lparr>tn_created_at := (case existing of Some x \<Rightarrow> tn_created_at x | None \<Rightarrow> or_now (tn_created_at r) now),
           tn_updated_at := Some (At now), tn_metadata := safe_metadata dg (tn_metadata r)\<rparr>;
         problem = (case existing of None \<Rightarrow> None
           | Some x \<Rightarrow> (case require_active (tn_lifecycle x) (''tenant:'' @ tn_id r) of Some e \<Rightarrow> Some e
               | None \<Rightarrow> if tn_domain x \<noteq> tn_domain r
                   then Some (Conflict ''Tenant security domain is immutable through directory put'') else None)) in
       guarded s problem (return_in (s\<lparr>rg_tenants := dput (tn_id r) stored (rg_tenants s)\<rparr>) ())))"

definition list_tenants :: "ctx \<Rightarrow> registry \<Rightarrow> tenant_record list" where
  "list_tenants c s = (case dget (rg_tenants s) (cx_tenant c) of None \<Rightarrow> [] | Some r \<Rightarrow> [r])"

definition set_tenant_lifecycle :: "ctx \<Rightarrow> string \<Rightarrow> lifecycle \<Rightarrow> instant \<Rightarrow> registry \<Rightarrow> (registry, tenant_record) outcome" where
  "set_tenant_lifecycle c t st now s = (case dget (rg_tenants s) t of
     None \<Rightarrow> raise_in s no_tenant
   | Some r \<Rightarrow> if cx_tenant c \<noteq> t then raise_in s no_tenant
       else (let r' = r\<lparr>tn_lifecycle := st, tn_updated_at := Some (At now)\<rparr> in
         return_in (s\<lparr>rg_tenants := dput t r' (rg_tenants s)\<rparr>) r'))"

definition get_workspace :: "ctx \<Rightarrow> string \<Rightarrow> registry \<Rightarrow> (registry, workspace_record) outcome" where
  "get_workspace c w s = (if w \<noteq> cx_workspace c then raise_in s no_workspace
     else guarded s (tenant_problem (cx_tenant c) s) (case dget (rg_workspaces s) (cx_tenant c, w) of
         None \<Rightarrow> raise_in s no_workspace
       | Some r \<Rightarrow> guarded s (require_active (ws_lifecycle r) (''workspace:'' @ w)) (return_in s r)))"

definition put_workspace :: "registry_digests \<Rightarrow> ctx \<Rightarrow> workspace_record \<Rightarrow> instant \<Rightarrow> registry \<Rightarrow> (registry, unit) outcome" where
  "put_workspace dg c r now s = (if (ws_tenant r, ws_id r) \<noteq> scope_of c then raise_in s no_workspace
     else (let existing = dget (rg_workspaces s) (ws_tenant r, ws_id r);
         stored = r\<lparr>ws_created_at := (case existing of Some x \<Rightarrow> ws_created_at x | None \<Rightarrow> or_now (ws_created_at r) now),
           ws_updated_at := Some (At now), ws_metadata := safe_metadata dg (ws_metadata r)\<rparr>;
         problem = (case existing of None \<Rightarrow> None
           | Some x \<Rightarrow> require_active (ws_lifecycle x) (''workspace:'' @ ws_id r)) in
       guarded s (tenant_problem (ws_tenant r) s) (guarded s problem
         (return_in (s\<lparr>rg_workspaces := dput (ws_tenant r, ws_id r) stored (rg_workspaces s)\<rparr>) ()))))"

definition list_workspaces :: "ctx \<Rightarrow> registry \<Rightarrow> (registry, workspace_record list) outcome" where
  "list_workspaces c s = guarded s (tenant_problem (cx_tenant c) s)
     (return_in s (sort_key ws_id (map snd (filter (\<lambda>row. fst (fst row) = cx_tenant c) (rg_workspaces s)))))"

definition set_workspace_lifecycle :: "ctx \<Rightarrow> string \<Rightarrow> lifecycle \<Rightarrow> instant \<Rightarrow> registry
    \<Rightarrow> (registry, workspace_record) outcome" where
  "set_workspace_lifecycle c w st now s = (if w \<noteq> cx_workspace c then raise_in s no_workspace
     else guarded s (tenant_problem (cx_tenant c) s) (case dget (rg_workspaces s) (cx_tenant c, w) of
         None \<Rightarrow> raise_in s no_workspace
       | Some r \<Rightarrow> (let r' = r\<lparr>ws_lifecycle := st, ws_updated_at := Some (At now)\<rparr> in
           return_in (s\<lparr>rg_workspaces := dput (cx_tenant c, w) r' (rg_workspaces s)\<rparr>) r')))"

subsection \<open>Logical identities and revisions\<close>

definition put_logical :: "registry_digests \<Rightarrow> ctx \<Rightarrow> logical \<Rightarrow> instant \<Rightarrow> registry \<Rightarrow> (registry, unit) outcome" where
  "put_logical dg c l now s = (if (lg_tenant l, lg_workspace l) \<noteq> scope_of c then raise_in s no_logical
     else (let k = mk_key (scope_of c) (lg_id l);
         stored = l\<lparr>lg_created_at := or_now (lg_created_at l) now, lg_metadata := safe_metadata dg (lg_metadata l)\<rparr> in
       guarded s (scope_problem c s) (if dget (rg_logical s) k \<noteq> None
         then raise_in s (Conflict ''Logical identity already exists'')
         else return_in (s\<lparr>rg_logical := dput k stored (rg_logical s)\<rparr>) ())))"

definition get_logical :: "ctx \<Rightarrow> string \<Rightarrow> registry \<Rightarrow> (registry, logical) outcome" where
  "get_logical c lid s = guarded s (scope_problem c s) (case dget (rg_logical s) (mk_key (scope_of c) lid) of
     None \<Rightarrow> raise_in s no_logical | Some l \<Rightarrow> return_in s l)"

definition list_logical :: "ctx \<Rightarrow> string option \<Rightarrow> registry \<Rightarrow> (registry, logical list) outcome" where
  "list_logical c kind s = guarded s (scope_problem c s) (return_in s (sort_key lg_id
     (filter (\<lambda>l. kind = None \<or> kind = Some (lg_kind l))
       (map snd (filter (\<lambda>row. key_scope (fst row) = scope_of c) (rg_logical s))))))"

text \<open>The identity that a revision without one creates, and the revision as it is stored.\<close>

definition implied_logical :: "stamp option revision \<Rightarrow> instant \<Rightarrow> logical" where
  "implied_logical r now = \<lparr>lg_id = rv_logical r, lg_tenant = rv_tenant r, lg_workspace = rv_workspace r,
     lg_kind = of_opt (or_opt (rv_kind r) (Some ''artifact'')), lg_created_at = or_now (rv_created_at r) now, lg_metadata = []\<rparr>"

definition stored_revision :: "registry_digests \<Rightarrow> stamp option revision \<Rightarrow> instant \<Rightarrow> instant revision" where
  "stored_revision dg r t = \<lparr>rv_logical = rv_logical r, rv_id = rv_id r, rv_tenant = rv_tenant r,
     rv_workspace = rv_workspace r, rv_fingerprint = content_fingerprint dg (safe_content dg (rv_content r)),
     rv_content = safe_content dg (rv_content r), rv_created_at = t, rv_kind = rv_kind r,
     rv_signature = safe_text dg (rv_signature r),
     rv_provenance = map_option (safe_metadata dg) (rv_provenance r)\<rparr>"

text \<open>
  The body of \<open>put_revision\<close> after the checks of the revision itself: a missing identity is stored before the
  timestamp is read.
\<close>

definition append_revision :: "registry_digests \<Rightarrow> ctx \<Rightarrow> stamp option revision \<Rightarrow> instant \<Rightarrow> registry
    \<Rightarrow> (registry, unit) outcome" where
  "append_revision dg c r now s =
     (let lk = mk_key (scope_of c) (rv_logical r);
         s1 = (if dget (rg_logical s) lk = None then s\<lparr>rg_logical := dput lk (implied_logical r now) (rg_logical s)\<rparr> else s) in
      case timestamp_after (map_option rv_created_at (head c (rv_logical r) s1)) (rv_created_at r) now of
        Inl e \<Rightarrow> raise_in s1 e
      | Inr t \<Rightarrow> return_in (s1\<lparr>rg_revisions := dput (mk_key (scope_of c) (rv_id r)) (stored_revision dg r t) (rg_revisions s1)\<rparr>) ())"

definition revision_problem :: "registry_digests \<Rightarrow> ctx \<Rightarrow> stamp option revision \<Rightarrow> registry \<Rightarrow> cp_error option" where
  "revision_problem dg c r s = first_error
     [(dget (rg_revisions s) (mk_key (scope_of c) (rv_id r)) \<noteq> None, Conflict ''Revision is immutable; cannot overwrite''),
      (rv_fingerprint r \<noteq> content_fingerprint dg (rv_content r), Conflict ''Revision content fingerprint mismatch''),
      (case dget (rg_logical s) (mk_key (scope_of c) (rv_logical r)) of None \<Rightarrow> False
         | Some l \<Rightarrow> rv_kind r \<noteq> None \<and> rv_kind r \<noteq> Some (lg_kind l),
       Conflict ''Revision kind does not match its logical identity'')]"

definition put_revision :: "registry_digests \<Rightarrow> ctx \<Rightarrow> stamp option revision \<Rightarrow> instant \<Rightarrow> registry
    \<Rightarrow> (registry, unit) outcome" where
  "put_revision dg c r now s = (if (rv_tenant r, rv_workspace r) \<noteq> scope_of c then raise_in s no_revision
     else guarded s (scope_problem c s) (guarded s (revision_problem dg c r s) (append_revision dg c r now s)))"

definition put_revision_if_current :: "registry_digests \<Rightarrow> ctx \<Rightarrow> stamp option revision \<Rightarrow> string \<Rightarrow> instant \<Rightarrow> registry
    \<Rightarrow> (registry, unit) outcome" where
  "put_revision_if_current dg c r expected now s =
     (if (rv_tenant r, rv_workspace r) \<noteq> scope_of c then raise_in s no_revision
      else guarded s (scope_problem c s) (if map_option rv_fingerprint (head c (rv_logical r) s) \<noteq> Some expected
        then raise_in s (Conflict ''Definition changed since the edit was prepared'')
        else put_revision dg c r now s))"

definition verify_revision :: "registry_digests \<Rightarrow> registry \<Rightarrow> instant revision \<Rightarrow> (registry, instant revision) outcome" where
  "verify_revision dg s r = (if content_fingerprint dg (rv_content r) \<noteq> rv_fingerprint r
     then raise_in s (Conflict ''Revision content fingerprint mismatch (tamper detected)'') else return_in s r)"

definition get_revision :: "registry_digests \<Rightarrow> ctx \<Rightarrow> string \<Rightarrow> registry \<Rightarrow> (registry, instant revision) outcome" where
  "get_revision dg c rid s = guarded s (scope_problem c s) (case dget (rg_revisions s) (mk_key (scope_of c) rid) of
     None \<Rightarrow> raise_in s no_revision | Some r \<Rightarrow> verify_revision dg s r)"

text \<open>The listing verifies every revision it lists; the first that does not verify raises.\<close>

definition list_revisions :: "registry_digests \<Rightarrow> ctx \<Rightarrow> string \<Rightarrow> registry \<Rightarrow> (registry, instant revision list) outcome" where
  "list_revisions dg c lid s = guarded s (scope_problem c s)
     (let rows = filter (\<lambda>r. rv_logical r = lid)
        (map snd (filter (\<lambda>row. key_scope (fst row) = scope_of c) (rg_revisions s))) in
      case find (\<lambda>r. content_fingerprint dg (rv_content r) \<noteq> rv_fingerprint r) rows of
        Some r \<Rightarrow> raise_in s (Conflict ''Revision content fingerprint mismatch (tamper detected)'')
      | None \<Rightarrow> return_in s (sort_key rv_id rows))"

subsection \<open>Aliases and promotions\<close>

definition put_alias :: "registry_digests \<Rightarrow> ctx \<Rightarrow> alias_record \<Rightarrow> instant \<Rightarrow> registry \<Rightarrow> (registry, alias_record) outcome" where
  "put_alias dg c a now s = (if (al_tenant a, al_workspace a) \<noteq> scope_of c then raise_in s no_alias
     else guarded s (scope_problem c s) (case dget (rg_revisions s) (mk_key (scope_of c) (al_revision a)) of
         None \<Rightarrow> raise_in s no_revision
       | Some r \<Rightarrow> if rv_logical r \<noteq> al_logical a
           then raise_in s (Conflict ''Alias logical_id does not match target revision'')
           else (let stored = a\<lparr>al_created_at := or_now (al_created_at a) now, al_metadata := safe_metadata dg (al_metadata a)\<rparr> in
             return_in (s\<lparr>rg_aliases := dput (mk_key (scope_of c) (al_alias a)) stored (rg_aliases s)\<rparr>) stored)))"

definition resolve_alias :: "registry_digests \<Rightarrow> ctx \<Rightarrow> string \<Rightarrow> registry \<Rightarrow> (registry, instant revision) outcome" where
  "resolve_alias dg c name s = guarded s (scope_problem c s) (case dget (rg_aliases s) (mk_key (scope_of c) name) of
     None \<Rightarrow> raise_in s no_alias
   | Some a \<Rightarrow> (case dget (rg_revisions s) (mk_key (scope_of c) (al_revision a)) of
       None \<Rightarrow> raise_in s no_revision | Some r \<Rightarrow> verify_revision dg s r))"

text \<open>The generated identifiers are the two arguments \<open>rid\<close> and \<open>pid\<close>, the part after the prefix.\<close>

definition promoted_revision :: "registry_digests \<Rightarrow> ctx \<Rightarrow> instant revision \<Rightarrow> string \<Rightarrow> (string, json) pydict option \<Rightarrow> string
    \<Rightarrow> string \<Rightarrow> string \<Rightarrow> instant \<Rightarrow> instant revision" where
  "promoted_revision dg c source from_id content rid from_env to_env t =
     (let body = safe_content dg (case content of None \<Rightarrow> rv_content source | Some m \<Rightarrow> m) in
      \<lparr>rv_logical = rv_logical source, rv_id = ''rev-'' @ rid, rv_tenant = cx_tenant c, rv_workspace = cx_workspace c,
       rv_fingerprint = content_fingerprint dg body, rv_content = body, rv_created_at = t, rv_kind = rv_kind source,
       rv_signature = rv_signature source,
       rv_provenance = Some [(''promoted_from'', JStr from_id), (''from_environment'', JStr from_env),
         (''to_environment'', JStr to_env)]\<rparr>)"

definition promote :: "registry_digests \<Rightarrow> ctx \<Rightarrow> string \<Rightarrow> string \<Rightarrow> string \<Rightarrow> string \<Rightarrow> (string, json) pydict option
    \<Rightarrow> (string, json) pydict \<Rightarrow> string \<Rightarrow> string \<Rightarrow> instant \<Rightarrow> registry \<Rightarrow> (registry, promotion) outcome" where
  "promote dg c lid from_id from_env to_env content md rid pid now s = guarded s (scope_problem c s)
     (let k = mk_key (scope_of c) from_id in
      case dget (rg_revisions s) k of
        None \<Rightarrow> raise_in s no_revision
      | Some source \<Rightarrow> if rv_logical source \<noteq> lid then raise_in s no_revision
          else (case timestamp_after (map_option rv_created_at (head c lid s)) (Some (At now)) now of
              Inl e \<Rightarrow> raise_in s e
            | Inr t \<Rightarrow>
                (let new = promoted_revision dg c source from_id content rid from_env to_env t;
                     s1 = s\<lparr>rg_revisions := dput (mk_key (scope_of c) (rv_id new)) new (rg_revisions s)\<rparr>;
                     p = \<lparr>pm_id = ''promo-'' @ pid, pm_tenant = cx_tenant c, pm_workspace = cx_workspace c, pm_logical = lid,
                          pm_from = from_id, pm_to = rv_id new, pm_from_environment = from_env, pm_to_environment = to_env,
                          pm_created_at = now, pm_metadata = safe_metadata dg md\<rparr> in
                 if dget (rg_revisions s1) k \<noteq> Some source
                 then raise_in s1 (Conflict ''Promotion attempted to mutate prior revision'')
                 else return_in (s1\<lparr>rg_promotions := dput (mk_key (scope_of c) (pm_id p)) p (rg_promotions s1)\<rparr>) p)))"

definition get_promotion :: "ctx \<Rightarrow> string \<Rightarrow> registry \<Rightarrow> (registry, promotion) outcome" where
  "get_promotion c pid s = guarded s (scope_problem c s) (case dget (rg_promotions s) (mk_key (scope_of c) pid) of
     None \<Rightarrow> raise_in s no_promotion | Some p \<Rightarrow> return_in s p)"

subsection \<open>Environments and security domains\<close>

definition foreign_environment :: "ctx \<Rightarrow> environment_record \<Rightarrow> bool" where
  "foreign_environment c r \<longleftrightarrow> en_workspace r \<noteq> None \<and> en_workspace r \<noteq> Some (cx_workspace c)"

definition put_environment :: "registry_digests \<Rightarrow> ctx \<Rightarrow> environment_record \<Rightarrow> instant \<Rightarrow> registry \<Rightarrow> (registry, unit) outcome" where
  "put_environment dg c r now s = (if en_tenant r \<noteq> cx_tenant c \<or> foreign_environment c r then raise_in s no_environment
     else guarded s (scope_problem c s)
       (let k = (en_tenant r, en_environment r); existing = dget (rg_environments s) k;
            problem = (case existing of None \<Rightarrow> None
              | Some x \<Rightarrow> if foreign_environment c x then Some no_environment
                  else require_active (en_lifecycle x) (''environment:'' @ en_environment r));
            stored = r\<lparr>en_created_at := (case existing of Some x \<Rightarrow> en_created_at x | None \<Rightarrow> or_now (en_created_at r) now),
              en_updated_at := Some (At now), en_metadata := safe_metadata dg (en_metadata r)\<rparr> in
        guarded s problem (return_in (s\<lparr>rg_environments := dput k stored (rg_environments s)\<rparr>) ())))"

definition get_environment :: "ctx \<Rightarrow> string \<Rightarrow> registry \<Rightarrow> (registry, environment_record) outcome" where
  "get_environment c i s = guarded s (scope_problem c s) (case dget (rg_environments s) (cx_tenant c, i) of
     None \<Rightarrow> raise_in s no_environment
   | Some r \<Rightarrow> if foreign_environment c r then raise_in s no_environment
       else guarded s (require_active (en_lifecycle r) (''environment:'' @ i)) (return_in s r))"

definition put_domain :: "registry_digests \<Rightarrow> ctx \<Rightarrow> domain_record \<Rightarrow> instant \<Rightarrow> registry \<Rightarrow> (registry, unit) outcome" where
  "put_domain dg c r now s = (if dm_id r \<noteq> cx_domain c then raise_in s no_domain
     else (let existing = dget (rg_domains s) (dm_id r);
         problem = (case existing of None \<Rightarrow> None
           | Some x \<Rightarrow> require_active (dm_lifecycle x) (''security_domain:'' @ dm_id r));
         stored = r\<lparr>dm_created_at := (case existing of Some x \<Rightarrow> dm_created_at x | None \<Rightarrow> or_now (dm_created_at r) now),
           dm_updated_at := Some (At now), dm_metadata := safe_metadata dg (dm_metadata r)\<rparr> in
       guarded s problem (return_in (s\<lparr>rg_domains := dput (dm_id r) stored (rg_domains s)\<rparr>) ())))"

definition get_domain :: "ctx \<Rightarrow> string \<Rightarrow> registry \<Rightarrow> (registry, domain_record) outcome" where
  "get_domain c i s = (case dget (rg_domains s) i of
     None \<Rightarrow> raise_in s no_domain
   | Some r \<Rightarrow> if dm_id r \<noteq> cx_domain c then raise_in s no_domain
       else guarded s (require_active (dm_lifecycle r) (''security_domain:'' @ i)) (return_in s r))"

end
