(* ===== verification/Registry_Safety.thy ===== *)
theory Registry_Safety
  imports Registry
begin

text \<open>
  What the registry promises: revisions are immutable and verify for ever, the head of a logical identity
  only moves forward, conditional edits lose no update, aliases never dangle, and a suspended scope fails
  closed.
\<close>

declare split_paired_All [simp del] split_paired_Ex [simp del]

subsection \<open>Calls and histories\<close>

datatype registry_call =
    Put_tenant tenant_record
  | Set_tenant string lifecycle
  | Put_workspace workspace_record
  | Set_workspace string lifecycle
  | Put_logical logical
  | Put_revision "stamp option revision"
  | Put_if_current "stamp option revision" string
  | Put_alias alias_record
  | Promote string string string string "(string, json) pydict option" "(string, json) pydict" string string
  | Put_environment environment_record
  | Put_domain domain_record

fun registry_run :: "registry_digests \<Rightarrow> ctx \<Rightarrow> registry_call \<Rightarrow> instant \<Rightarrow> registry \<Rightarrow> registry" where
  "registry_run dg c (Put_tenant r) now s = snd (put_tenant dg c r now s)"
| "registry_run dg c (Set_tenant t st) now s = snd (set_tenant_lifecycle c t st now s)"
| "registry_run dg c (Put_workspace r) now s = snd (put_workspace dg c r now s)"
| "registry_run dg c (Set_workspace w st) now s = snd (set_workspace_lifecycle c w st now s)"
| "registry_run dg c (Put_logical l) now s = snd (put_logical dg c l now s)"
| "registry_run dg c (Put_revision r) now s = snd (put_revision dg c r now s)"
| "registry_run dg c (Put_if_current r expected) now s = snd (put_revision_if_current dg c r expected now s)"
| "registry_run dg c (Put_alias a) now s = snd (put_alias dg c a now s)"
| "registry_run dg c (Promote lid from_id from_env to_env content md rid pid) now s =
     snd (promote dg c lid from_id from_env to_env content md rid pid now s)"
| "registry_run dg c (Put_environment r) now s = snd (put_environment dg c r now s)"
| "registry_run dg c (Put_domain r) now s = snd (put_domain dg c r now s)"

text \<open>The identifier that a promotion generates is new.\<close>

fun fresh_promotion :: "ctx \<Rightarrow> registry_call \<Rightarrow> registry \<Rightarrow> bool" where
  "fresh_promotion c (Promote lid from_id from_env to_env content md rid pid) s \<longleftrightarrow>
     dget (rg_revisions s) (mk_key (scope_of c) (''rev-'' @ rid)) = None"
| "fresh_promotion c _ s \<longleftrightarrow> True"

inductive registry_moves :: "registry_digests \<Rightarrow> registry \<Rightarrow> registry \<Rightarrow> bool" for dg :: registry_digests where
  stay: "registry_moves dg s s"
| call: "registry_moves dg s s' \<Longrightarrow> fresh_promotion c call s' \<Longrightarrow> registry_moves dg s (registry_run dg c call now s')"

subsection \<open>The head\<close>

lemma latest_snoc:
  "latest best (rs @ [r]) = (case latest best rs of None \<Rightarrow> Some r | Some b \<Rightarrow> Some (if before b r then r else b))"
  by (induction best rs rule: latest.induct) auto

lemma dput_new: "dget d k = None \<Longrightarrow> dput k v d = d @ [(k, v)]"
  by (induction d) (auto split: if_splits)

lemma revisions_of_new:
  assumes "dget (rg_revisions s) k = None" "rg_revisions s' = dput k r (rg_revisions s)"
  shows "revisions_of c lid s' = revisions_of c lid s
    @ (if rv_tenant r = cx_tenant c \<and> rv_workspace r = cx_workspace c \<and> rv_logical r = lid then [r] else [])"
  unfolding revisions_of_def assms(2) dput_new[OF assms(1)] by simp

lemma head_new:
  assumes "dget (rg_revisions s) k = None" "rg_revisions s' = dput k r (rg_revisions s)"
    and "(rv_tenant r, rv_workspace r) = scope_of c"
    and "\<And>h. head c (rv_logical r) s = Some h \<Longrightarrow> rv_created_at h < rv_created_at r"
  shows "head c (rv_logical r) s' = Some r"
proof -
  have "revisions_of c (rv_logical r) s' = revisions_of c (rv_logical r) s @ [r]"
    using revisions_of_new[OF assms(1,2), of c "rv_logical r"] assms(3) by (simp add: scope_of_def)
  then show ?thesis using assms(4) by (auto simp: head_def latest_snoc before_def split: option.splits)
qed

lemma timestamp_after_later: "timestamp_after (Some cur) candidate now = Inr t \<Longrightarrow> cur < t"
  by (auto simp: timestamp_after_def Let_def split: option.splits stamp.splits if_splits)

subsection \<open>What a call does to the revisions\<close>

definition revision_ok :: "registry_digests \<Rightarrow> key \<Rightarrow> instant revision \<Rightarrow> bool" where
  "revision_ok dg k r \<longleftrightarrow> mk_key (rv_tenant r, rv_workspace r) (rv_id r) = k
     \<and> rv_fingerprint r = content_fingerprint dg (rv_content r)"

text \<open>A new revision of the scope, later than the head of its identity.\<close>

definition appended :: "registry_digests \<Rightarrow> ctx \<Rightarrow> instant revision \<Rightarrow> registry \<Rightarrow> registry \<Rightarrow> bool" where
  "appended dg c r s s' \<longleftrightarrow> (let k = mk_key (scope_of c) (rv_id r) in
     dget (rg_revisions s) k = None \<and> rg_revisions s' = dput k r (rg_revisions s) \<and> revision_ok dg k r
     \<and> rg_aliases s' = rg_aliases s \<and> (rv_tenant r, rv_workspace r) = scope_of c
     \<and> (\<forall>h. head c (rv_logical r) s = Some h \<longrightarrow> rv_created_at h < rv_created_at r))"

lemma head_logical [simp]: "head c lid (s\<lparr>rg_logical := l\<rparr>) = head c lid s"
  by (simp add: head_def revisions_of_def)

lemma append_revision_cases:
  assumes "append_revision dg c r now s = (res, s')" "(rv_tenant r, rv_workspace r) = scope_of c"
    and "dget (rg_revisions s) (mk_key (scope_of c) (rv_id r)) = None"
  obtains (failed) e where "res = Inl e" "rg_revisions s' = rg_revisions s" "rg_aliases s' = rg_aliases s"
  | (stored) t where "res = Inr ()" "appended dg c (stored_revision dg r t) s s'"
proof -
  define lk where "lk = mk_key (scope_of c) (rv_logical r)"
  define s1 where "s1 = (if dget (rg_logical s) lk = None then s\<lparr>rg_logical := dput lk (implied_logical r now) (rg_logical s)\<rparr> else s)"
  have s1: "rg_revisions s1 = rg_revisions s" "rg_aliases s1 = rg_aliases s" "head c lid s1 = head c lid s" for lid
    by (simp_all add: s1_def)
  show thesis
  proof (cases "timestamp_after (map_option rv_created_at (head c (rv_logical r) s1)) (rv_created_at r) now")
    case (Inl e)
    then have "res = Inl e" "s' = s1"
      using assms(1) by (simp_all add: append_revision_def Let_def lk_def[symmetric] s1_def[symmetric])
    then show thesis using s1(1,2) by (intro failed[of e]) simp_all
  next
    case (Inr t)
    have later: "rv_created_at h < t" if "head c (rv_logical r) s = Some h" for h
      using Inr that s1 by (auto dest: timestamp_after_later)
    have "res = Inr ()"
      "s' = s1\<lparr>rg_revisions := dput (mk_key (scope_of c) (rv_id r)) (stored_revision dg r t) (rg_revisions s1)\<rparr>"
      using assms(1) Inr by (simp_all add: append_revision_def Let_def lk_def[symmetric] s1_def[symmetric])
    moreover from this have "appended dg c (stored_revision dg r t) s s'"
      using s1 later assms(2,3) by (simp add: appended_def Let_def revision_ok_def stored_revision_def)
    ultimately show thesis using stored by blast
  qed
qed

lemma put_revision_cases:
  assumes "put_revision dg c r now s = (res, s')"
  obtains (failed) e where "res = Inl e" "rg_revisions s' = rg_revisions s" "rg_aliases s' = rg_aliases s"
  | (stored) t where "res = Inr ()" "appended dg c (stored_revision dg r t) s s'"
proof (cases "(rv_tenant r, rv_workspace r) = scope_of c \<and> scope_problem c s = None \<and> revision_problem dg c r s = None")
  case True
  then have run: "append_revision dg c r now s = (res, s')" and own: "(rv_tenant r, rv_workspace r) = scope_of c"
    using assms by (simp_all add: put_revision_def)
  have free: "dget (rg_revisions s) (mk_key (scope_of c) (rv_id r)) = None"
    using True by (auto simp: revision_problem_def split: if_splits)
  from run own free show thesis by (cases rule: append_revision_cases) (use failed stored in blast)+
next
  case False
  then have "\<exists>e. res = Inl e" "s' = s" using assms by (auto simp: put_revision_def guarded_def split: if_splits option.splits)
  then show thesis using failed by blast
qed

lemma put_if_current_cases:
  assumes "put_revision_if_current dg c r expected now s = (res, s')"
  obtains (failed) e where "res = Inl e" "rg_revisions s' = rg_revisions s" "rg_aliases s' = rg_aliases s"
  | (stored) t h where "res = Inr ()" "appended dg c (stored_revision dg r t) s s'"
      "head c (rv_logical r) s = Some h" "rv_fingerprint h = expected"
proof (cases "put_revision dg c r now s = (res, s') \<and> map_option rv_fingerprint (head c (rv_logical r) s) = Some expected")
  case True
  then have "put_revision dg c r now s = (res, s')" by blast
  then show thesis by (cases rule: put_revision_cases) (use True failed stored in auto)
next
  case False
  then have "\<exists>e. res = Inl e" "s' = s"
    using assms by (auto simp: put_revision_if_current_def guarded_def split: if_splits option.splits)
  then show thesis using failed by blast
qed

lemma promote_cases:
  assumes "promote dg c lid from_id from_env to_env content md rid pid now s = (res, s')"
    and "dget (rg_revisions s) (mk_key (scope_of c) (''rev-'' @ rid)) = None"
  obtains (failed) e where "res = Inl e" "s' = s"
  | (stored) p r where "res = Inr p" "appended dg c r s s'" "rv_logical r = lid" "rv_id r = pm_to p"
proof (cases "scope_problem c s")
  case None
  show thesis
  proof (cases "dget (rg_revisions s) (mk_key (scope_of c) from_id)")
    case None2: None
    then have "res = Inl no_revision" "s' = s" using None assms(1) by (simp_all add: promote_def)
    then show thesis by (rule failed)
  next
    case (Some source)
    show thesis
    proof (cases "rv_logical source = lid")
      case False
      then have "res = Inl no_revision" "s' = s" using None Some assms(1) by (simp_all add: promote_def)
      then show thesis by (rule failed)
    next
      case True
      obtain t where t: "timestamp_after (map_option rv_created_at (head c lid s)) (Some (At now)) now = Inr t"
        by (auto simp: timestamp_after_def Let_def)
      define new where "new = promoted_revision dg c source from_id content rid from_env to_env t"
      have later: "rv_created_at h < t" if "head c lid s = Some h" for h using t that by (auto dest: timestamp_after_later)
      have new: "rv_id new = ''rev-'' @ rid" "rv_logical new = lid" "rv_created_at new = t"
        "(rv_tenant new, rv_workspace new) = scope_of c" "rv_fingerprint new = content_fingerprint dg (rv_content new)"
        using True by (simp_all add: new_def promoted_revision_def Let_def scope_of_def)
      have other: "mk_key (scope_of c) (rv_id new) \<noteq> mk_key (scope_of c) from_id" using Some assms(2) new(1) by auto
      have result: "\<exists>p. res = Inr p \<and> pm_to p = rv_id new
          \<and> s' = s\<lparr>rg_revisions := dput (mk_key (scope_of c) (rv_id new)) new (rg_revisions s),
                 rg_promotions := dput (mk_key (scope_of c) (pm_id p)) p (rg_promotions s)\<rparr>"
        using assms(1) None Some True t other by (auto simp: promote_def Let_def new_def[symmetric])
      then have "appended dg c new s s'" using new later assms(2) by (auto simp: appended_def Let_def revision_ok_def)
      then show thesis using result stored new(2) by auto
    qed
  qed
next
  case (Some e)
  then have "res = Inl e" "s' = s" using assms(1) by (simp_all add: promote_def)
  then show thesis by (rule failed)
qed

definition alias_ok :: "registry \<Rightarrow> key \<Rightarrow> alias_record \<Rightarrow> bool" where
  "alias_ok s k a \<longleftrightarrow> (\<exists>r. dget (rg_revisions s) (mk_key (key_scope k) (al_revision a)) = Some r \<and> rv_logical r = al_logical a)"

lemma registry_run_cases:
  assumes "fresh_promotion c call s"
  obtains (same) "rg_revisions (registry_run dg c call now s) = rg_revisions s"
      "rg_aliases (registry_run dg c call now s) = rg_aliases s"
  | (revision) r where "appended dg c r s (registry_run dg c call now s)"
  | (aliased) k a where "rg_revisions (registry_run dg c call now s) = rg_revisions s"
      "rg_aliases (registry_run dg c call now s) = dput k a (rg_aliases s)" "alias_ok s k a"
proof (cases call)
  case (Put_revision r)
  obtain res s' where p: "put_revision dg c r now s = (res, s')" by fastforce
  then have after: "registry_run dg c call now s = s'" using Put_revision by simp
  from p show thesis by (cases rule: put_revision_cases) (use same revision after in auto)
next
  case (Put_if_current r expected)
  obtain res s' where p: "put_revision_if_current dg c r expected now s = (res, s')" by fastforce
  then have after: "registry_run dg c call now s = s'" using Put_if_current by simp
  from p show thesis by (cases rule: put_if_current_cases) (use same revision after in auto)
next
  case (Promote lid from_id from_env to_env content md rid pid)
  obtain res s' where p: "promote dg c lid from_id from_env to_env content md rid pid now s = (res, s')" by fastforce
  have new: "dget (rg_revisions s) (mk_key (scope_of c) (''rev-'' @ rid)) = None" using assms Promote by simp
  have after: "registry_run dg c call now s = s'" using Promote p by simp
  from p new show thesis by (cases rule: promote_cases) (use same revision after in auto)
next
  case (Put_alias a)
  have "snd (put_alias dg c a now s) = s \<or> (\<exists>b. snd (put_alias dg c a now s)
      = s\<lparr>rg_aliases := dput (mk_key (scope_of c) (al_alias a)) b (rg_aliases s)\<rparr>
      \<and> alias_ok s (mk_key (scope_of c) (al_alias a)) b)"
    by (auto simp: put_alias_def guarded_def alias_ok_def Let_def split: option.splits)
  then show thesis
  proof (elim disjE exE conjE)
    fix b
    assume "snd (put_alias dg c a now s) = s\<lparr>rg_aliases := dput (mk_key (scope_of c) (al_alias a)) b (rg_aliases s)\<rparr>"
      "alias_ok s (mk_key (scope_of c) (al_alias a)) b"
    then show thesis using Put_alias by (intro aliased[of "mk_key (scope_of c) (al_alias a)" b]) simp_all
  qed (use Put_alias same in simp)
qed (use same in \<open>auto simp: put_tenant_def set_tenant_lifecycle_def put_workspace_def set_workspace_lifecycle_def
  put_logical_def put_environment_def put_domain_def guarded_def Let_def split: option.splits\<close>)

subsection \<open>Histories\<close>

definition registry_ok :: "registry_digests \<Rightarrow> registry \<Rightarrow> bool" where
  "registry_ok dg s \<longleftrightarrow> (\<forall>k r. dget (rg_revisions s) k = Some r \<longrightarrow> revision_ok dg k r)
     \<and> (\<forall>k a. dget (rg_aliases s) k = Some a \<longrightarrow> alias_ok s k a)"

definition revisions_kept :: "registry \<Rightarrow> registry \<Rightarrow> bool" where
  "revisions_kept s s' \<longleftrightarrow> (\<forall>k r. dget (rg_revisions s) k = Some r \<longrightarrow> dget (rg_revisions s') k = Some r)"

text \<open>The head of an identity stays or moves to a later revision.\<close>

definition heads_forward :: "registry \<Rightarrow> registry \<Rightarrow> bool" where
  "heads_forward s s' \<longleftrightarrow> (\<forall>c lid h. head c lid s = Some h \<longrightarrow>
     (\<exists>h'. head c lid s' = Some h' \<and> (h' = h \<or> rv_created_at h < rv_created_at h')))"

lemma alias_kept: "revisions_kept s s' \<Longrightarrow> alias_ok s k a \<Longrightarrow> alias_ok s' k a"
  unfolding revisions_kept_def alias_ok_def by metis

lemma heads_forward_trans: "heads_forward s s' \<Longrightarrow> heads_forward s' s'' \<Longrightarrow> heads_forward s s''"
proof (unfold heads_forward_def, intro allI impI)
  fix c lid h
  assume fwd: "\<forall>c lid h. head c lid s = Some h \<longrightarrow> (\<exists>h'. head c lid s' = Some h' \<and> (h' = h \<or> rv_created_at h < rv_created_at h'))"
    "\<forall>c lid h. head c lid s' = Some h \<longrightarrow> (\<exists>h'. head c lid s'' = Some h' \<and> (h' = h \<or> rv_created_at h < rv_created_at h'))"
    and h: "head c lid s = Some h"
  obtain h' where h': "head c lid s' = Some h'" "h' = h \<or> rv_created_at h < rv_created_at h'" using fwd(1) h by blast
  obtain h'' where h'': "head c lid s'' = Some h''" "h'' = h' \<or> rv_created_at h' < rv_created_at h''" using fwd(2) h'(1) by blast
  then show "\<exists>h'. head c lid s'' = Some h' \<and> (h' = h \<or> rv_created_at h < rv_created_at h')" using h' by fastforce
qed

lemma heads_forward_same: "rg_revisions s' = rg_revisions s \<Longrightarrow> heads_forward s s'"
  by (simp add: heads_forward_def head_def revisions_of_def)

lemma appended_keeps:
  assumes "appended dg c r s s'"
  shows "revisions_kept s s' \<and> heads_forward s s'"
proof -
  note a = assms[unfolded appended_def Let_def]
  have "\<exists>h'. head c' lid s' = Some h' \<and> (h' = h \<or> rv_created_at h < rv_created_at h')"
    if "head c' lid s = Some h" for c' lid h
  proof (cases "scope_of c' = scope_of c \<and> lid = rv_logical r")
    case True
    then have here: "head c' lid x = head c lid x" for x by (simp add: head_def revisions_of_def scope_of_def)
    have "head c (rv_logical r) s' = Some r" using a by (intro head_new[of s "mk_key (scope_of c) (rv_id r)"]) auto
    moreover have "head c (rv_logical r) s = Some h" using that True here by simp
    ultimately show ?thesis using True a unfolding here by simp
  next
    case False
    then have "revisions_of c' lid s' = revisions_of c' lid s"
      using revisions_of_new[of s "mk_key (scope_of c) (rv_id r)" s' r c' lid] a by (auto simp: scope_of_def)
    then show ?thesis using that by (simp add: head_def)
  qed
  moreover have "revisions_kept s s'" using a by (auto simp: revisions_kept_def)
  ultimately show ?thesis by (simp add: heads_forward_def)
qed

lemma registry_run_ok:
  assumes "fresh_promotion c call s" "registry_ok dg s"
  shows "registry_ok dg (registry_run dg c call now s) \<and> revisions_kept s (registry_run dg c call now s)
    \<and> heads_forward s (registry_run dg c call now s)"
  using assms(1)
proof (cases rule: registry_run_cases[where dg = dg and now = now])
  case same
  from heads_forward_same[OF same(1)] show ?thesis using same assms(2) by (simp add: registry_ok_def revisions_kept_def alias_ok_def)
next
  case (revision r)
  note kept = appended_keeps[OF revision]
  have "revision_ok dg k x" if "dget (rg_revisions (registry_run dg c call now s)) k = Some x" for k x
    using that revision assms(2) by (auto simp: appended_def Let_def registry_ok_def split: if_splits)
  moreover have "alias_ok (registry_run dg c call now s) k x"
    if "dget (rg_aliases (registry_run dg c call now s)) k = Some x" for k x
    using that revision assms(2) alias_kept[of s _ k x] kept by (auto simp: appended_def Let_def registry_ok_def)
  ultimately show ?thesis using kept unfolding registry_ok_def by blast
next
  case (aliased k a)
  from heads_forward_same[OF aliased(1)] show ?thesis using aliased assms(2) by (auto simp: registry_ok_def revisions_kept_def alias_ok_def)
qed

lemma registry_moves_ok:
  "registry_moves dg s s' \<Longrightarrow> registry_ok dg s \<Longrightarrow> registry_ok dg s' \<and> revisions_kept s s' \<and> heads_forward s s'"
proof (induction rule: registry_moves.induct)
  case (call s s' c call now)
  then show ?case using registry_run_ok[of c call s' dg now] heads_forward_trans
    unfolding revisions_kept_def by blast
qed (auto simp: revisions_kept_def heads_forward_def)

lemma registry_ok_empty: "registry_ok dg empty_registry"
  by (simp add: registry_ok_def empty_registry_def)

subsection \<open>Properties\<close>

text \<open>
  C30: Revisions are immutable.  A revision that is stored is stored unchanged in every later state, carries
  the fingerprint of its own content, and is what a reader of the scope gets, as long as neither its tenant
  nor its workspace is suspended; an alias always leads to a stored revision of the identity it names.
\<close>

theorem revisions_immutable:
  assumes "registry_moves dg empty_registry s" "registry_moves dg s s'"
    and "dget (rg_revisions s) (mk_key (scope_of c) rid) = Some r" "scope_problem c s' = None"
  shows "get_revision dg c rid s' = (Inr r, s') \<and> rv_id r = rid \<and> (rv_tenant r, rv_workspace r) = scope_of c
    \<and> (\<forall>name a. dget (rg_aliases s') (mk_key (scope_of c) name) = Some a \<longrightarrow>
        (\<exists>x. resolve_alias dg c name s' = (Inr x, s') \<and> rv_id x = al_revision a \<and> rv_logical x = al_logical a))"
proof -
  have ok: "registry_ok dg s" using registry_moves_ok[OF assms(1) registry_ok_empty] by blast
  then have ok': "registry_ok dg s'" and kept: "revisions_kept s s'" using registry_moves_ok[OF assms(2)] by blast+
  have row: "dget (rg_revisions s') (mk_key (scope_of c) rid) = Some r" using kept assms(3) by (simp add: revisions_kept_def)
  have fits: "revision_ok dg k x" if "dget (rg_revisions s') k = Some x" for k x using ok' that by (simp add: registry_ok_def)
  have "\<exists>x. resolve_alias dg c name s' = (Inr x, s') \<and> rv_id x = al_revision a \<and> rv_logical x = al_logical a"
    if "dget (rg_aliases s') (mk_key (scope_of c) name) = Some a" for name a
  proof -
    have "alias_ok s' (mk_key (scope_of c) name) a" using ok' that by (simp add: registry_ok_def)
    then obtain x where x: "dget (rg_revisions s') (mk_key (scope_of c) (al_revision a)) = Some x" "rv_logical x = al_logical a"
      by (auto simp: alias_ok_def)
    show ?thesis using fits[OF x(1)] x that assms(4)
      by (auto simp: resolve_alias_def verify_revision_def revision_ok_def)
  qed
  then show ?thesis using fits[OF row] row assms(4) by (auto simp: get_revision_def verify_revision_def revision_ok_def)
qed

text \<open>
  C31: No update is lost.  A conditional edit that succeeds replaced the head it was prepared against: the
  head had the expected fingerprint, and the edit is the new, later head.  Another edit prepared against the
  same head is then refused and changes nothing, unless the first left the content with the same fingerprint.
\<close>

theorem no_lost_update:
  assumes "put_revision_if_current dg c a expected now s = (Inr (), s')"
  shows "\<exists>h new. head c (rv_logical a) s = Some h \<and> rv_fingerprint h = expected
    \<and> head c (rv_logical a) s' = Some new \<and> rv_id new = rv_id a \<and> rv_content new = safe_content dg (rv_content a)
    \<and> rv_created_at h < rv_created_at new
    \<and> (\<forall>b later. rv_logical b = rv_logical a \<and> rv_fingerprint new \<noteq> expected \<longrightarrow>
        (\<exists>e. put_revision_if_current dg c b expected later s' = (Inl e, s')))"
  using assms
proof (cases rule: put_if_current_cases)
  case (stored t h)
  let ?new = "stored_revision dg a t"
  have head: "head c (rv_logical a) s' = Some ?new"
    using stored(2) head_new[of s "mk_key (scope_of c) (rv_id a)" s' ?new c] by (simp add: appended_def Let_def stored_revision_def)
  have "\<exists>e. put_revision_if_current dg c b expected later s' = (Inl e, s')"
    if "rv_logical b = rv_logical a" "rv_fingerprint ?new \<noteq> expected" for b later
    using that head by (auto simp: put_revision_if_current_def guarded_def split: option.splits)
  moreover have "rv_created_at h < rv_created_at ?new"
    using stored(2,3) by (auto simp: appended_def Let_def stored_revision_def)
  moreover have "rv_id ?new = rv_id a" "rv_content ?new = safe_content dg (rv_content a)"
    by (simp_all add: stored_revision_def)
  ultimately show ?thesis using head stored(3,4) by blast
qed simp

text \<open>
  The head of an identity only moves forward: in every later state it is the same revision or a later one.
\<close>

theorem head_moves_forward:
  assumes "registry_moves dg empty_registry s" "registry_moves dg s s'" "head c lid s = Some h"
  shows "\<exists>h'. head c lid s' = Some h' \<and> (h' = h \<or> rv_created_at h < rv_created_at h')"
  using registry_moves_ok[OF assms(2)] registry_moves_ok[OF assms(1) registry_ok_empty] assms(3)
  unfolding heads_forward_def by blast

definition refused :: "'s \<Rightarrow> ('s, 'a) outcome \<Rightarrow> bool" where
  "refused s out \<longleftrightarrow> (\<exists>e. out = (Inl e, s))"

lemma refused_guarded: "refused s (guarded s (Some e) rest)"
  by (simp add: refused_def)

lemma suspended_problem:
  assumes "dget (rg_tenants s) (cx_tenant c) = Some t" "dget (rg_workspaces s) (scope_of c) = Some w"
    and "tn_lifecycle t \<noteq> Active \<or> ws_lifecycle w \<noteq> Active"
  shows "\<exists>e. scope_problem c s = Some e"
  using assms by (cases "tn_lifecycle t"; cases "ws_lifecycle w")
    (simp_all add: scope_problem_def tenant_problem_def workspace_problem_def)

text \<open>
  Suspension fails closed.  While the tenant or the workspace of a caller is suspended or archived, every
  operation on identities, revisions, aliases, promotions and environments raises and changes nothing.
\<close>

theorem suspended_scope_closed:
  assumes "dget (rg_tenants s) (cx_tenant c) = Some t" "dget (rg_workspaces s) (scope_of c) = Some w"
    and "tn_lifecycle t \<noteq> Active \<or> ws_lifecycle w \<noteq> Active"
  shows "refused s (put_logical dg c l now s) \<and> refused s (get_logical c lid s) \<and> refused s
    (list_logical c kind s) \<and> refused s (put_revision dg c r now s) \<and> refused s
    (put_revision_if_current dg c r expected now s) \<and> refused s (get_revision dg c rid s) \<and> refused
    s (list_revisions dg c lid s) \<and> refused s (put_alias dg c a now s) \<and> refused s (resolve_alias
    dg c name s) \<and> refused s (promote dg c lid from_id from_env to_env content md rid' pid now s) \<and>
    refused s (get_promotion c pid s) \<and> refused s (put_environment dg c en now s) \<and> refused s
    (get_environment c i s)"
proof -
  obtain e where e: "scope_problem c s = Some e" using suspended_problem[OF assms] by blast
  show ?thesis unfolding put_logical_def get_logical_def list_logical_def put_revision_def put_revision_if_current_def
      get_revision_def list_revisions_def put_alias_def resolve_alias_def promote_def get_promotion_def
      put_environment_def get_environment_def e Let_def
    by (simp add: refused_def)
qed

text \<open>
  A revision that is refused for its timestamp has already created its logical identity.
\<close>

theorem refused_revision_leaves_identity:
  assumes "(rv_tenant r, rv_workspace r) = scope_of c" "scope_problem c s = None" "revision_problem dg c r s = None"
    and "dget (rg_logical s) (mk_key (scope_of c) (rv_logical r)) = None" "rv_created_at r = Some (Unreadable t)" "t \<noteq> []"
  shows "\<exists>e s'. put_revision dg c r now s = (Inl e, s')
    \<and> dget (rg_logical s') (mk_key (scope_of c) (rv_logical r)) = Some (implied_logical r now)"
  using assms by (simp add: put_revision_def append_revision_def Let_def timestamp_after_def)

subsection \<open>An edited job\<close>

definition registrar :: ctx where
  "registrar = \<lparr>cx_principal = \<lparr>pr_subject = ''ann'', pr_issuer = None, pr_kind = Human\<rparr>, cx_tenant = ''acme'',
     cx_workspace = ''main'', cx_environment = ''prod'', cx_domain = ''d'', cx_owner = None\<rparr>"

definition sample_digests :: registry_digests where
  "sample_digests = \<lparr>dg_sha256 = (\<lambda>x. x), dg_redactor = \<lparr>rd_secret_key = (\<lambda>k. k = ''token''), rd_message = (\<lambda>m. m)\<rparr>,
     rg_repr = (\<lambda>v. [])\<rparr>"

definition sample_revision :: "string \<Rightarrow> int \<Rightarrow> stamp option revision" where
  "sample_revision i n = \<lparr>rv_logical = ''job'', rv_id = i, rv_tenant = ''acme'', rv_workspace = ''main'',
     rv_fingerprint = content_fingerprint sample_digests [(''a'', JInt n)], rv_content = [(''a'', JInt n)],
     rv_created_at = None, rv_kind = None, rv_signature = None, rv_provenance = None\<rparr>"

definition registered :: registry where
  "registered = registry_run sample_digests registrar (Put_revision (sample_revision ''r1'' 1)) 5 empty_registry"

definition aliased :: registry where
  "aliased = registry_run sample_digests registrar (Put_alias \<lparr>al_tenant = ''acme'', al_workspace = ''main'', al_alias = ''live'',
     al_logical = ''job'', al_revision = ''r1'', al_created_at = None, al_metadata = []\<rparr>) 6 registered"

definition edited :: registry where
  "edited = registry_run sample_digests registrar
     (Put_if_current (sample_revision ''r2'' 2) (content_fingerprint sample_digests [(''a'', JInt 1)])) 5 aliased"

lemma registered_moves: "registry_moves sample_digests empty_registry registered"
  unfolding registered_def by (intro registry_moves.intros) simp

lemma edited_moves: "registry_moves sample_digests registered edited"
  unfolding edited_def aliased_def by (intro registry_moves.intros) simp_all

theorem revisions_immutable_witness:
  "\<exists>r. get_revision sample_digests registrar ''r1'' edited = (Inr r, edited) \<and> rv_id r = ''r1''"
proof -
  have row: "dget (rg_revisions registered) (mk_key (scope_of registrar) ''r1'')
      = Some (the (dget (rg_revisions registered) (mk_key (scope_of registrar) ''r1'')))" by code_simp
  have "scope_problem registrar edited = None" by code_simp
  from revisions_immutable[OF registered_moves edited_moves row this] show ?thesis by blast
qed

theorem head_moves_forward_witness:
  "\<exists>h h'. head registrar ''job'' registered = Some h \<and> head registrar ''job'' edited = Some h'
     \<and> (h' = h \<or> rv_created_at h < rv_created_at h')"
proof -
  have "head registrar ''job'' registered = Some (the (head registrar ''job'' registered))" by code_simp
  from head_moves_forward[OF registered_moves edited_moves this] this show ?thesis by metis
qed

theorem no_lost_update_witness:
  "\<exists>h new. head registrar ''job'' aliased = Some h \<and> head registrar ''job'' edited = Some new \<and> rv_id new = ''r2''
     \<and> rv_created_at h < rv_created_at new"
proof -
  have finished: "fst (put_revision_if_current sample_digests registrar (sample_revision ''r2'' 2)
      (content_fingerprint sample_digests [(''a'', JInt 1)]) 5 aliased) = Inr ()" by code_simp
  have "put_revision_if_current sample_digests registrar (sample_revision ''r2'' 2)
      (content_fingerprint sample_digests [(''a'', JInt 1)]) 5 aliased = (Inr (), edited)"
    by (simp add: edited_def prod_eq_iff finished)
  from no_lost_update[OF this] show ?thesis by (auto simp: sample_revision_def)
qed

definition suspended_registry :: registry where
  "suspended_registry = registry_run sample_digests registrar (Set_workspace ''main'' Suspended) 8
     (registry_run sample_digests registrar (Put_workspace \<lparr>ws_tenant = ''acme'', ws_id = ''main'', ws_lifecycle = Active,
        ws_name = None, ws_created_at = None, ws_updated_at = None, ws_metadata = []\<rparr>) 7
       (registry_run sample_digests registrar (Put_tenant \<lparr>tn_id = ''acme'', tn_lifecycle = Active, tn_name = None,
          tn_domain = None, tn_created_at = None, tn_updated_at = None, tn_metadata = []\<rparr>) 7 edited))"

theorem suspended_scope_closed_witness:
  "refused suspended_registry (get_revision sample_digests registrar ''r1'' suspended_registry)"
proof -
  have t: "dget (rg_tenants suspended_registry) (cx_tenant registrar)
      = Some (the (dget (rg_tenants suspended_registry) (cx_tenant registrar)))" by code_simp
  have w: "dget (rg_workspaces suspended_registry) (scope_of registrar)
      = Some (the (dget (rg_workspaces suspended_registry) (scope_of registrar)))" by code_simp
  have "ws_lifecycle (the (dget (rg_workspaces suspended_registry) (scope_of registrar))) \<noteq> Active" by code_simp
  then show ?thesis using suspended_scope_closed[OF t w] by blast
qed

theorem refused_revision_leaves_identity_witness:
  "\<exists>e s'. put_revision sample_digests registrar (sample_revision ''r1'' 1\<lparr>rv_created_at := Some (Unreadable ''noon'')\<rparr>) 5
       empty_registry = (Inl e, s') \<and> dget (rg_logical s') (mk_key (scope_of registrar) ''job'') \<noteq> None"
proof -
  let ?r = "sample_revision ''r1'' 1\<lparr>rv_created_at := Some (Unreadable ''noon'')\<rparr>"
  have r: "(rv_tenant ?r, rv_workspace ?r) = scope_of registrar" "scope_problem registrar empty_registry = None"
    "revision_problem sample_digests registrar ?r empty_registry = None"
    "dget (rg_logical empty_registry) (mk_key (scope_of registrar) (rv_logical ?r)) = None"
    "rv_created_at ?r = Some (Unreadable ''noon'')" "''noon'' \<noteq> []"
    by (simp_all add: sample_revision_def registrar_def scope_of_def scope_problem_def tenant_problem_def
      workspace_problem_def empty_registry_def revision_problem_def)
  from refused_revision_leaves_identity[OF r, of 5] show ?thesis by (auto simp: sample_revision_def)
qed

end
