(* ===== verification/Transient_Budget.thy ===== *)
theory Transient_Budget
  imports Canonical_Json
begin

text \<open>
  The transient budget of the adaptive planner (\<open>TransientBudget\<close> in
  \<open>planning/adaptive_budget.py\<close>): a ledger of reserved bytes with a limit, whose tokens are released
  at the last use of what they admitted.  A computation that owns a budget is a function from the
  budget to a result paired with the budget it leaves, also when it raises.
\<close>

subsection \<open>Errors of the planner\<close>

text \<open>
  A \<open>PipelineValidationError\<close> with its one diagnostic's code and message, and the built-in
  exceptions of a failed subscript, of \<open>max\<close> or \<open>min\<close> of nothing, of \<open>next\<close> on an empty iterator and of
  a missing budget scope.
\<close>

datatype plan_error =
    Diagnosed string string
  | Missing_key
  | Bad_value
  | Exhausted
  | No_scope

type_synonym ('s, 'a) planned = "(plan_error + 'a) \<times> 's"

definition and_then :: "plan_error + 'a \<Rightarrow> ('a \<Rightarrow> plan_error + 'b) \<Rightarrow> plan_error + 'b" where
  "and_then r f = (case r of Inl e \<Rightarrow> Inl e | Inr x \<Rightarrow> f x)"

fun each :: "('a \<Rightarrow> plan_error + 'b) \<Rightarrow> 'a list \<Rightarrow> plan_error + 'b list" where
  "each f [] = Inr []"
| "each f (x # xs) = and_then (f x) (\<lambda>y. and_then (each f xs) (\<lambda>ys. Inr (y # ys)))"

definition subscript :: "('k, 'v) pydict \<Rightarrow> 'k \<Rightarrow> plan_error + 'v" where
  "subscript d k = (case dget d k of None \<Rightarrow> Inl Missing_key | Some v \<Rightarrow> Inr v)"

lemma and_then_simps [simp]:
  "and_then (Inl e) f = Inl e" "and_then (Inr x) f = f x"
  by (simp_all add: and_then_def)

lemma and_then_Inr: "and_then r f = Inr y \<longleftrightarrow> (\<exists>x. r = Inr x \<and> f x = Inr y)"
  by (cases r) auto

lemma each_pure: "(\<And>x. x \<in> set xs \<Longrightarrow> f x = Inr (g x)) \<Longrightarrow> each f xs = Inr (map g xs)"
  by (induction xs) auto

lemma subscript_Some [simp]: "dget d k = Some v \<Longrightarrow> subscript d k = Inr v"
  by (simp add: subscript_def)

subsection \<open>The ledger\<close>

record budget =
  bu_limit :: int
  bu_live :: int
  bu_peak :: int
  bu_charges :: "(int, int \<times> string) pydict"
  bu_objects :: "(int, int) pydict"
  bu_categories :: "string list"
  bu_next :: int

definition new_budget :: "int \<Rightarrow> budget" where
  "new_budget lim = \<lparr>bu_limit = lim, bu_live = 0, bu_peak = 0, bu_charges = [], bu_objects = [],
     bu_categories = [], bu_next = 0\<rparr>"

definition max_transient_bytes :: int where
  "max_transient_bytes = 256 * 1024 * 1024"

text \<open>
  The operations act on any state that extends the ledger, so that the state of a planner phase
  carries its budget.
\<close>

definition over_budget :: "string \<Rightarrow> plan_error" where
  "over_budget category =
     Diagnosed ''PMADP303'' (''Adaptive transient budget exceeded in '' @ category @ ''.'')"

definition reserve :: "int \<Rightarrow> string \<Rightarrow> 'z budget_scheme \<Rightarrow> ('z budget_scheme, int) planned" where
  "reserve amount category b = (
     if amount < 0 then (Inl Bad_value, b)
     else if bu_limit b < bu_live b + amount then
       (Inl (over_budget category), b)
     else let token = bu_next b + 1; live = bu_live b + amount in
       (Inr token, b\<lparr>bu_next := token, bu_charges := dput token (amount, category) (bu_charges b),
          bu_live := live, bu_peak := max (bu_peak b) live,
          bu_categories := (if category \<in> set (bu_categories b) then bu_categories b
                            else bu_categories b @ [category])\<rparr>))"

definition release :: "int \<Rightarrow> 'z budget_scheme \<Rightarrow> ('z budget_scheme, unit) planned" where
  "release token b = (case dget (bu_charges b) token of
     None \<Rightarrow> (Inl Missing_key, b)
   | Some (amount, category) \<Rightarrow>
       (Inr (), b\<lparr>bu_charges := dpop token (bu_charges b), bu_live := bu_live b - amount\<rparr>))"

text \<open>Objects are known by the number that \<open>id\<close> gives them.\<close>

definition release_object :: "int \<Rightarrow> 'z budget_scheme \<Rightarrow> ('z budget_scheme, unit) planned" where
  "release_object obj b = (case dget (bu_objects b) obj of
     None \<Rightarrow> (Inr (), b)
   | Some token \<Rightarrow> release token (b\<lparr>bu_objects := dpop obj (bu_objects b)\<rparr>))"

text \<open>A \<open>with\<close> block whose \<open>finally\<close> clause releases the token; an error of the clause wins.\<close>

definition finally_release :: "int \<Rightarrow> ('z budget_scheme, 'a) planned \<Rightarrow> ('z budget_scheme, 'a) planned" where
  "finally_release token out = (case out of (r, b) \<Rightarrow>
     (case release token b of (Inl e, b') \<Rightarrow> (Inl e, b') | (Inr _, b') \<Rightarrow> (r, b')))"

definition allocation :: "json \<Rightarrow> string \<Rightarrow> int \<Rightarrow> ('z budget_scheme \<Rightarrow> ('z budget_scheme, 'a) planned) \<Rightarrow> 'z budget_scheme
    \<Rightarrow> ('z budget_scheme, 'a) planned" where
  "allocation v category overhead body b =
     (case reserve (canonical_size v + overhead) category b of
        (Inl e, b') \<Rightarrow> (Inl e, b')
      | (Inr token, b') \<Rightarrow> finally_release token (body b'))"

fun release_all :: "int list \<Rightarrow> 'z budget_scheme \<Rightarrow> ('z budget_scheme, unit) planned" where
  "release_all [] b = (Inr (), b)"
| "release_all (t # ts) b =
     (case release t b of (Inl e, b') \<Rightarrow> (Inl e, b') | (Inr _, b') \<Rightarrow> release_all ts b')"

definition close_frame :: "int list \<Rightarrow> ('z budget_scheme, 'a) planned \<Rightarrow> ('z budget_scheme, 'a) planned" where
  "close_frame before out = (case out of (r, b) \<Rightarrow>
     (case release_all (filter (\<lambda>t. t \<notin> set before) (map fst (bu_charges b))) b of
        (Inl e, b') \<Rightarrow> (Inl e, b')
      | (Inr _, b') \<Rightarrow>
          (r, b'\<lparr>bu_objects := filter (\<lambda>(obj, t). t \<in> fst ` set (bu_charges b')) (bu_objects b')\<rparr>)))"

definition frame :: "('z budget_scheme \<Rightarrow> ('z budget_scheme, 'a) planned) \<Rightarrow> 'z budget_scheme \<Rightarrow> ('z budget_scheme, 'a) planned" where
  "frame body b = close_frame (map fst (bu_charges b)) (body b)"

text \<open>
  \<open>budget_scope\<close> works on the context variable: a nested scope uses the active budget, an outermost
  scope makes its own and drops it.
\<close>

definition budget_scope :: "int option \<Rightarrow> (budget \<Rightarrow> (budget, 'a) planned) \<Rightarrow> budget option
    \<Rightarrow> (budget option, 'a) planned" where
  "budget_scope lim body active = (case active of
     Some b \<Rightarrow> (case body b of (r, b') \<Rightarrow> (r, Some b'))
   | None \<Rightarrow> (fst (frame body
        (new_budget (case lim of None \<Rightarrow> max_transient_bytes | Some l \<Rightarrow> l))), None))"

text \<open>
  The admission of a record: the payload is charged with an overhead of 64 bytes, its validation
  projection for the time of the construction, and the token is kept under the new object.  The
  schema counts towards the retained size of a physical unit only.
\<close>

definition owned_record :: "int \<Rightarrow> string \<Rightarrow> (string \<times> json) list \<Rightarrow> string option
    \<Rightarrow> ('z budget_scheme \<Rightarrow> ('z budget_scheme, 'a) planned) \<Rightarrow> 'z budget_scheme \<Rightarrow> ('z budget_scheme, 'a) planned" where
  "owned_record obj category payload schema build b =
     (let retained = (case schema of None \<Rightarrow> payload
                      | Some x \<Rightarrow> dput ''schema'' (JStr x) payload) in
      case reserve (canonical_size (JMap retained) + 64) category b of
        (Inl e, b') \<Rightarrow> (Inl e, b')
      | (Inr token, b') \<Rightarrow>
          (case allocation (JMap (dpop ''schema'' payload)) ''validation-buffer'' 0 build b' of
             (Inl e, c) \<Rightarrow> (case release token c of (Inl e', c') \<Rightarrow> (Inl e', c') | (Inr _, c') \<Rightarrow> (Inl e, c'))
           | (Inr x, c) \<Rightarrow> (Inr x, c\<lparr>bu_objects := dput obj token (bu_objects c)\<rparr>)))"

subsection \<open>The invariant of the ledger\<close>

definition charged :: "(int, int \<times> string) pydict \<Rightarrow> int" where
  "charged d = sum_list (map (\<lambda>(t, amount, category). amount) d)"

definition budget_ok :: "'z budget_scheme \<Rightarrow> bool" where
  "budget_ok b \<longleftrightarrow> distinct (map fst (bu_charges b))
     \<and> (\<forall>(t, amount, category) \<in> set (bu_charges b). t \<le> bu_next b \<and> 0 \<le> amount)
     \<and> bu_live b = charged (bu_charges b) \<and> bu_live b \<le> bu_limit b
     \<and> bu_live b \<le> bu_peak b \<and> bu_peak b \<le> max 0 (bu_limit b)"

text \<open>
  What a well-behaved computation does to the charges it was given: it keeps them all, and the
  tokens it hands out are new.
\<close>

definition extends :: "'z budget_scheme \<Rightarrow> 'z budget_scheme \<Rightarrow> bool" where
  "extends b b' \<longleftrightarrow> bu_next b \<le> bu_next b' \<and> bu_limit b' = bu_limit b
     \<and> (\<forall>t v. dget (bu_charges b) t = Some v \<longrightarrow> dget (bu_charges b') t = Some v)
     \<and> (\<forall>t \<in> fst ` set (bu_charges b'). t \<in> fst ` set (bu_charges b) \<or> bu_next b < t)"

lemma set_dpop_subset: "set (dpop k d) \<subseteq> set d"
  by (induction d) (auto split: if_splits)

lemma charged_dput_new: "dget d t = None \<Longrightarrow> charged (dput t v d) = charged d + fst v"
  by (induction d) (auto simp: charged_def split: if_splits prod.splits)

lemma charged_dpop:
  "distinct (map fst d) \<Longrightarrow> dget d t = Some v \<Longrightarrow> charged (dpop t d) = charged d - fst v"
proof (induction d)
  case (Cons p d)
  obtain k w where p: "p = (k, w)" by (cases p)
  show ?case
  proof (cases "k = t")
    case True
    then have "dget d t = None" using Cons.prems p by (simp add: dget_None_iff)
    then have "dpop t d = d" by (induction d) (auto split: if_splits)
    then show ?thesis using Cons.prems p True by (auto simp: charged_def split: prod.splits)
  next
    case False
    then show ?thesis using Cons p by (auto simp: charged_def split: prod.splits)
  qed
qed simp

lemma budget_ok_fresh: "budget_ok b \<Longrightarrow> bu_next b < t \<Longrightarrow> dget (bu_charges b) t = None"
  by (fastforce simp: budget_ok_def dget_None_iff)

lemma new_budget_ok: "0 \<le> lim \<Longrightarrow> budget_ok (new_budget lim)"
  by (simp add: budget_ok_def new_budget_def charged_def)

lemma extends_refl: "extends b b"
  by (simp add: extends_def)

lemma extends_trans: "extends a b \<Longrightarrow> extends b c \<Longrightarrow> extends a c"
  unfolding extends_def by (metis order_trans order_less_le_trans order_le_less_trans)

lemma reserve_cases:
  assumes "reserve amount category b = (r, b')"
  obtains (refused) e where "r = Inl e" "b' = b"
      "e = Bad_value \<and> amount < 0 \<or>
       e = over_budget category \<and> bu_limit b < bu_live b + amount"
    | (granted) "r = Inr (bu_next b + 1)" "0 \<le> amount" "bu_live b + amount \<le> bu_limit b"
      "bu_charges b' = dput (bu_next b + 1) (amount, category) (bu_charges b)"
      "bu_live b' = bu_live b + amount" "bu_next b' = bu_next b + 1" "bu_limit b' = bu_limit b"
      "bu_peak b' = max (bu_peak b) (bu_live b + amount)" "bu_objects b' = bu_objects b"
  using assms by (auto simp: reserve_def Let_def split: if_splits)

lemma reserve_ok:
  assumes "budget_ok b" "reserve amount category b = (r, b')"
  shows "budget_ok b'" "extends b b'"
proof -
  have fresh: "dget (bu_charges b) (bu_next b + 1) = None"
    using assms(1) by (simp add: budget_ok_fresh)
  have rows: "set (dput (bu_next b + 1) (amount, category) (bu_charges b))
      \<subseteq> insert (bu_next b + 1, amount, category) (set (bu_charges b))"
    by (rule set_dput_subset)
  show "budget_ok b'"
    using assms(2)
  proof (cases rule: reserve_cases)
    case granted
    then show ?thesis using assms(1) rows fresh
      by (fastforce simp: budget_ok_def distinct_dput charged_dput_new)
  qed (use assms in simp)
  show "extends b b'"
    using assms(2)
  proof (cases rule: reserve_cases)
    case granted
    then show ?thesis using rows fresh by (fastforce simp: extends_def)
  qed (simp add: extends_refl)
qed

lemma release_ok:
  assumes "budget_ok b" "dget (bu_charges b) t = Some v"
  shows "fst (release t b) = Inr ()" "budget_ok (snd (release t b))"
    "bu_charges (snd (release t b)) = dpop t (bu_charges b)"
    "bu_live (snd (release t b)) = bu_live b - fst v"
    "bu_next (snd (release t b)) = bu_next b" "bu_limit (snd (release t b)) = bu_limit b"
proof -
  have sub: "set (dpop t (bu_charges b)) \<subseteq> set (bu_charges b)"
    by (rule set_dpop_subset)
  have v: "0 \<le> fst v" using assms dget_in_set[OF assms(2)] by (fastforce simp: budget_ok_def)
  show "budget_ok (snd (release t b))"
    using assms(1) sub v
    by (fastforce simp: release_def budget_ok_def distinct_dpop charged_dpop[OF _ assms(2)] assms(2)
          split: prod.splits)
qed (use assms in \<open>auto simp: release_def split: prod.splits\<close>)

lemma allocation_runs:
  assumes "allocation v category overhead body b = (r, b')"
  obtains (refused) e where "r = Inl e" "b' = b"
      "reserve (canonical_size v + overhead) category b = (Inl e, b)"
    | (ran) c where "reserve (canonical_size v + overhead) category b = (Inr (bu_next b + 1), c)"
      "(r, b') = finally_release (bu_next b + 1) (body c)"
proof (cases "reserve (canonical_size v + overhead) category b")
  case (Pair q c)
  from Pair show thesis
  proof (cases rule: reserve_cases)
    case (refused e)
    then show thesis using assms Pair by (intro that(1)[of e]) (simp_all add: allocation_def)
  next
    case granted
    then show thesis using assms Pair by (intro that(2)[of c]) (auto simp: allocation_def)
  qed
qed

lemma finally_release_ok:
  assumes "budget_ok c" "dget (bu_charges c) t = Some v" "(r, b') = finally_release t (q, c)"
  shows "r = q" "budget_ok b'" "bu_charges b' = dpop t (bu_charges c)" "bu_next b' = bu_next c"
    "bu_limit b' = bu_limit c" "b' = snd (release t c)"
proof -
  have "release t c = (Inr (), snd (release t c))"
    using release_ok(1)[OF assms(1,2)] by (metis prod.collapse)
  then have eq: "r = q" "b' = snd (release t c)"
    using assms(3) by (auto simp: finally_release_def split: prod.splits sum.splits)
  show "r = q" "budget_ok b'" "bu_charges b' = dpop t (bu_charges c)" "bu_next b' = bu_next c"
    "bu_limit b' = bu_limit c" "b' = snd (release t c)"
    using eq release_ok[OF assms(1,2)] by simp_all
qed

lemma release_all_ok:
  "budget_ok b \<Longrightarrow> distinct ts \<Longrightarrow> set ts \<subseteq> fst ` set (bu_charges b) \<Longrightarrow>
   \<exists>b'. release_all ts b = (Inr (), b') \<and> budget_ok b' \<and> bu_limit b' = bu_limit b \<and> bu_next b' = bu_next b
     \<and> (\<forall>t. dget (bu_charges b') t = (if t \<in> set ts then None else dget (bu_charges b) t))"
proof (induction ts arbitrary: b)
  case (Cons t ts)
  then obtain v where v: "dget (bu_charges b) t = Some v"
    by (metis dget_None_iff list.set_intros(1) not_None_eq subset_iff)
  note out' = release_ok[OF Cons.prems(1) v]
  obtain b1 where rel: "release t b = (Inr (), b1)" using out'(1) by (metis prod.collapse)
  note out = out'[unfolded rel snd_conv]
  have "set ts \<subseteq> fst ` set (bu_charges b1)"
  proof
    fix u assume u: "u \<in> set ts"
    then have "u \<noteq> t" "u \<in> fst ` set (bu_charges b)" using Cons.prems by auto
    then have "dget (bu_charges b1) u \<noteq> None" by (simp add: out(3) dget_None_iff)
    then show "u \<in> fst ` set (bu_charges b1)" by (simp add: dget_None_iff)
  qed
  then obtain b' where b': "release_all ts b1 = (Inr (), b')" "budget_ok b'" "bu_limit b' = bu_limit b1"
    "bu_next b' = bu_next b1"
    "\<forall>u. dget (bu_charges b') u = (if u \<in> set ts then None else dget (bu_charges b1) u)"
    using Cons.IH[of b1, OF out(2)] Cons.prems(2) by (metis distinct.simps(2))
  have "release_all (t # ts) b = (Inr (), b')" by (subst release_all.simps) (simp add: rel b'(1))
  moreover have "dget (bu_charges b') u = (if u \<in> set (t # ts) then None else dget (bu_charges b) u)" for u
    using b'(5) by (simp add: out(3))
  moreover have "bu_limit b' = bu_limit b" "bu_next b' = bu_next b" using b'(3,4) out(5,6) by simp_all
  ultimately show ?case using b'(2) by blast
qed simp

text \<open>
  A frame ends with the charges it began with, whatever its body reserved and whether or not it
  raised, as long as the body does not release what the caller owns.
\<close>

lemma frame_restores:
  assumes ok: "budget_ok b" and body: "body b = (q, c)" "budget_ok c"
    and own: "\<And>t v. dget (bu_charges b) t = Some v \<Longrightarrow> dget (bu_charges c) t = Some v"
    and out: "frame body b = (r, b')"
  shows "r = q" "budget_ok b'" "dget (bu_charges b') = dget (bu_charges b)" "bu_limit b' = bu_limit c"
proof -
  let ?ts = "filter (\<lambda>t. t \<notin> set (map fst (bu_charges b))) (map fst (bu_charges c))"
  have ts: "distinct ?ts" "set ?ts \<subseteq> fst ` set (bu_charges c)"
    using body(2) by (auto simp: budget_ok_def)
  obtain d where d: "release_all ?ts c = (Inr (), d)" "budget_ok d" "bu_limit d = bu_limit c"
    "\<forall>t. dget (bu_charges d) t = (if t \<in> set ?ts then None else dget (bu_charges c) t)"
    using release_all_ok[OF body(2) ts] by blast
  have eq: "r = q" "b' = d\<lparr>bu_objects := filter (\<lambda>(obj, t). t \<in> fst ` set (bu_charges d)) (bu_objects d)\<rparr>"
    using out d(1) body(1) by (auto simp: frame_def close_frame_def)
  show "r = q" "budget_ok b'" "bu_limit b' = bu_limit c" using eq d by (simp_all add: budget_ok_def)
  have "dget (bu_charges d) t = dget (bu_charges b) t" for t
  proof (cases "dget (bu_charges b) t")
    case None
    then have "t \<notin> fst ` set (bu_charges b)" by (simp add: dget_None_iff)
    then have "dget (bu_charges d) t = None" using d(4) by (cases "dget (bu_charges c) t") (auto dest: dget_in_keys)
    then show ?thesis using None by simp
  next
    case (Some v)
    then have "t \<in> fst ` set (bu_charges b)" by (rule dget_in_keys)
    then show ?thesis using Some own[OF Some] d(4) by auto
  qed
  then show "dget (bu_charges b') = dget (bu_charges b)" using eq by auto
qed

lemma charged_same:
  "distinct (map fst d) \<Longrightarrow> distinct (map fst d') \<Longrightarrow> dget d = dget d' \<Longrightarrow> charged d = charged d'"
proof (induction d arbitrary: d')
  case Nil
  then have "d' = []" by (cases d') (auto dest!: fun_cong[of _ _ "fst (hd d')"])
  then show ?case by simp
next
  case (Cons p d)
  obtain t v where p: "p = (t, v)" by (cases p)
  have t: "dget d' t = Some v" using Cons.prems(3) p by (metis dget_Cons)
  have "dget d u = dget (dpop t d') u" for u
  proof (cases "u = t")
    case True
    then show ?thesis using Cons.prems(1) p by (simp add: dget_None_iff)
  next
    case False
    then show ?thesis using fun_cong[OF Cons.prems(3), of u] p by simp
  qed
  then have "charged d = charged (dpop t d')"
    using Cons.prems by (intro Cons.IH) (auto simp: distinct_dpop)
  then show ?case using charged_dpop[OF Cons.prems(2) t] p
    by (simp add: charged_def split: prod.splits)
qed

lemma live_same:
  "budget_ok b \<Longrightarrow> budget_ok b' \<Longrightarrow> dget (bu_charges b') = dget (bu_charges b) \<Longrightarrow> bu_live b' = bu_live b"
  using charged_same unfolding budget_ok_def by metis

end
