(* ===== verification/Adaptive_Model.thy ===== *)
theory Adaptive_Model
  imports Transient_Budget
begin

text \<open>
  The data of adaptive placement: the logical graph (\<open>model.py\<close>), the candidate matrix and the
  decisions (\<open>plan/adaptive_model.py\<close>), placement targets (\<open>profile.py\<close>) with the digest that
  identifies them, the evidence that a value may be handed from one target to another, and the
  objective of an assignment (\<open>planning/adaptive.py\<close>).  SHA-256 is an argument of the definitions
  that use it.
\<close>

subsection \<open>Dictionaries and aggregates that can fail\<close>

definition dict_of :: "('k \<times> 'v) list \<Rightarrow> ('k, 'v) pydict" where
  "dict_of kvs = fold (\<lambda>(k, v) d. dput k v d) kvs []"

lemma dget_fold_dput:
  "dget (fold (\<lambda>(k, v) d. dput k v d) kvs d) k
   = (case map_of (rev kvs) k of Some v \<Rightarrow> Some v | None \<Rightarrow> dget d k)"
  by (induction kvs arbitrary: d) (auto simp: map_add_def split: option.splits)

lemma dget_dict_of: "distinct (map fst kvs) \<Longrightarrow> dget (dict_of kvs) k = map_of kvs k"
proof -
  assume d: "distinct (map fst kvs)"
  then have "map_of (rev kvs) k = map_of kvs k"
    by (metis distinct_rev map_of_eq_None_iff map_of_eq_Some_iff not_None_eq rev_map set_rev)
  then show ?thesis by (simp add: dict_of_def dget_fold_dput split: option.splits)
qed

lemma keys_dput: "set (map fst (dput k v d)) = insert k (set (map fst d))"
  by (simp add: dput_def dom_update)

lemma keys_fold_dput: "set (map fst (fold (\<lambda>x d. dput (f x) (h x d) d) xs d)) = f ` set xs \<union> set (map fst d)"
proof (induction xs arbitrary: d)
  case (Cons x xs)
  then show ?case by (simp only: fold_simps keys_dput) auto
qed simp

lemma distinct_fold_dput: "distinct (map fst d) \<Longrightarrow> distinct (map fst (fold (\<lambda>x d. dput (f x) (h x d) d) xs d))"
  by (induction xs arbitrary: d) (simp_all add: distinct_dput)

lemma keys_dict_of: "set (map fst (dict_of kvs)) = fst ` set kvs"
  unfolding dict_of_def case_prod_unfold by (subst keys_fold_dput) simp

lemma distinct_dict_of: "distinct (map fst (dict_of kvs))"
  unfolding dict_of_def case_prod_unfold by (rule distinct_fold_dput) simp

text \<open>\<open>max\<close> and \<open>min\<close> of a possibly empty iterable, \<open>tuple.index\<close>.\<close>

fun largest :: "int list \<Rightarrow> plan_error + int" where
  "largest [] = Inl Bad_value"
| "largest (x # xs) = Inr (fold max xs x)"

fun least :: "('a :: linorder) list \<Rightarrow> plan_error + 'a" where
  "least [] = Inl Bad_value"
| "least (x # xs) = Inr (fold min xs x)"

fun index_of :: "'a list \<Rightarrow> 'a \<Rightarrow> plan_error + int" where
  "index_of [] x = Inl Bad_value"
| "index_of (y # ys) x = (if y = x then Inr 0 else and_then (index_of ys x) (\<lambda>i. Inr (i + 1)))"

definition sum_each :: "('a \<Rightarrow> plan_error + int) \<Rightarrow> 'a list \<Rightarrow> plan_error + int" where
  "sum_each f xs = and_then (each f xs) (\<lambda>ys. Inr (sum_list ys))"

definition priorities_of :: "string list \<Rightarrow> (string, int) pydict" where
  "priorities_of ids = dict_of (zip ids (map int [0..<length ids]))"

text \<open>Python's truth of a value.\<close>

fun truthy :: "json \<Rightarrow> bool" where
  "truthy JNull = False"
| "truthy (JBool b) = b"
| "truthy (JInt n) = (n \<noteq> 0)"
| "truthy (JStr s) = (s \<noteq> [])"
| "truthy (JList vs) = (vs \<noteq> [])"
| "truthy (JMap m) = (m \<noteq> [])"

definition get_or_null :: "(string, json) pydict \<Rightarrow> string \<Rightarrow> json" where
  "get_or_null d k = (case dget d k of None \<Rightarrow> JNull | Some v \<Rightarrow> v)"

definition or_value :: "json \<Rightarrow> json \<Rightarrow> json" where
  "or_value a b = (if truthy a then a else b)"

subsection \<open>The logical graph\<close>

record node =
  nd_name :: string
  nd_metadata :: "(string, json) pydict"

record edge =
  ed_producer :: string
  ed_producer_port :: string
  ed_consumer :: string
  ed_consumer_port :: string
  ed_producer_contract :: "string option"
  ed_consumer_contract :: "string option"

record graph =
  gr_nodes :: "node list"
  gr_edges :: "edge list"

definition node_names :: "graph \<Rightarrow> string list" where
  "node_names g = map nd_name (gr_nodes g)"

definition node_map :: "graph \<Rightarrow> (string, node) pydict" where
  "node_map g = dict_of (map (\<lambda>n. (nd_name n, n)) (gr_nodes g))"

subsection \<open>Candidates and decisions\<close>

datatype candidate_status = Eligible | Rejected

record candidate =
  cd_id :: string
  cd_node :: string
  cd_target :: string
  cd_status :: candidate_status
  cd_reason_codes :: "string list"
  cd_facts :: "(string, int) pydict"

record decision =
  de_node :: string
  de_candidate :: string
  de_target :: string

definition objective_fact :: "string \<Rightarrow> candidate \<Rightarrow> int" where
  "objective_fact name c = (case dget (cd_facts c) name of None \<Rightarrow> 0 | Some v \<Rightarrow> v)"

definition eligible :: "candidate list \<Rightarrow> string \<Rightarrow> candidate list" where
  "eligible cs name = filter (\<lambda>c. cd_node c = name \<and> cd_status c = Eligible) cs"

subsection \<open>Targets\<close>

record placement_target =
  pt_engine :: string
  pt_compiler :: "string option"
  pt_executor :: "string option"
  pt_connector :: "string option"
  pt_resource :: "string option"
  pt_location :: string
  pt_security_domain :: string
  pt_required_capabilities :: "string list"
  pt_version_constraints :: "(string \<times> string) list"

text \<open>
  An entry of the planner's target table: the profile's target and, for a target decorated by
  discovery, its resolved components.
\<close>

record slot =
  sl_id :: string
  sl_target :: placement_target
  sl_resolved :: "json list option"

definition opt_json :: "string option \<Rightarrow> json" where
  "opt_json v = (case v of None \<Rightarrow> JNull | Some s \<Rightarrow> JStr s)"

definition target_wire :: "placement_target \<Rightarrow> (string, json) pydict" where
  "target_wire t =
     [(''engine'', JStr (pt_engine t)), (''compiler'', opt_json (pt_compiler t)),
      (''executor'', opt_json (pt_executor t)), (''connector'', opt_json (pt_connector t)),
      (''resource'', opt_json (pt_resource t)), (''location'', JStr (pt_location t)),
      (''security_domain'', JStr (pt_security_domain t)),
      (''required_capabilities'', JList (map JStr (pt_required_capabilities t))),
      (''version_constraints'', JMap (map (\<lambda>(k, v). (k, JStr v)) (pt_version_constraints t)))]"

definition digest :: "(string \<Rightarrow> string) \<Rightarrow> json \<Rightarrow> string" where
  "digest sha256 v = sha256 (concat (canonical_chunks v))"

definition raw_identity :: "(string \<Rightarrow> string) \<Rightarrow> placement_target \<Rightarrow> string" where
  "raw_identity sha256 t = digest sha256 (redacted_view (JMap (target_wire t)))"

definition target_identity :: "(string \<Rightarrow> string) \<Rightarrow> slot \<Rightarrow> string" where
  "target_identity sha256 s = (case sl_resolved s of
     None \<Rightarrow> raw_identity sha256 (sl_target s)
   | Some components \<Rightarrow> digest sha256 (redacted_view
       (JMap (dput ''resolved_components'' (JList components) (target_wire (sl_target s))))))"

text \<open>The part of the inventory that the solver reads: the targets' identities in target order.\<close>

record inventory =
  iv_targets :: "(string \<times> string) list"
  iv_order :: "string list"

definition inventory_model :: "(string \<Rightarrow> string) \<Rightarrow> slot list \<Rightarrow> inventory" where
  "inventory_model sha256 targets =
     \<lparr>iv_targets = map (\<lambda>s. (sl_id s, target_identity sha256 s)) targets,
      iv_order = map sl_id targets\<rparr>"

subsection \<open>Handoff evidence\<close>

text \<open>
  What the planner reads from its context: the capabilities of the engines, the metadata of the
  implementations and plugins in registry order, and the profile's security domain.
\<close>

record planning_context =
  pc_engines :: "(string, json) pydict"
  pc_metadata :: "(string, json) pydict list"
  pc_security_domain :: string

definition engine_caps :: "planning_context \<Rightarrow> string \<Rightarrow> json" where
  "engine_caps cx engine = (case dget (pc_engines cx) engine of None \<Rightarrow> JMap [] | Some caps \<Rightarrow> caps)"

definition handoff_contract :: "(string \<Rightarrow> string) \<Rightarrow> planning_context \<Rightarrow> slot \<Rightarrow> slot \<Rightarrow> edge
    \<Rightarrow> (string \<times> string) list" where
  "handoff_contract sha256 cx source destination e =
     [(''producer_target_identity'', raw_identity sha256 (sl_target source)),
      (''consumer_target_identity'', raw_identity sha256 (sl_target destination)),
      (''schema_fingerprint'', digest sha256 (JMap
         [(''producer_contract_id'', opt_json (ed_producer_contract e)),
          (''consumer_contract_id'', opt_json (ed_consumer_contract e))])),
      (''format'', ''etlantic.contract/1''),
      (''mode'', ''batch''),
      (''durability'', ''ephemeral''),
      (''producer_capability_fingerprint'',
         digest sha256 (engine_caps cx (pt_engine (sl_target source)))),
      (''consumer_capability_fingerprint'',
         digest sha256 (engine_caps cx (pt_engine (sl_target destination))))]"

definition is_hex :: "char \<Rightarrow> bool" where
  "is_hex c \<longleftrightarrow> c \<in> set ''0123456789abcdef''"

definition is_content_evidence_ref :: "string \<Rightarrow> bool" where
  "is_content_evidence_ref s = (let prefix = takeWhile (\<lambda>c. c \<noteq> CHR '':'') s;
       rest = drop (length prefix) s in
     prefix = ''sha256'' \<and> rest \<noteq> [] \<and> length (tl rest) = 64 \<and> list_all is_hex (tl rest))"

fun evidence_records :: "json \<Rightarrow> (string, json) pydict list" where
  "evidence_records (JList vs) = concat (map (\<lambda>v. case v of JMap m \<Rightarrow> [m] | _ \<Rightarrow> []) vs)"
| "evidence_records _ = []"

definition records_of :: "(string, json) pydict \<Rightarrow> (string, json) pydict list" where
  "records_of metadata = evidence_records (or_value (get_or_null metadata ''handoff_evidence'')
     (get_or_null metadata ''etlantic.handoff_evidence''))"

definition binds :: "(string, json) pydict \<Rightarrow> (string \<times> string) list \<Rightarrow> bool" where
  "binds rec contract = list_all (\<lambda>(k, v). get_or_null rec k = JStr v) contract"

definition evidence_ref :: "(string, json) pydict \<Rightarrow> string list" where
  "evidence_ref rec =
     (case or_value (get_or_null rec ''evidence_ref'') (get_or_null rec ''identity'') of
        JStr r \<Rightarrow> if is_content_evidence_ref r then [r] else []
      | _ \<Rightarrow> [])"

definition max_evidence :: nat where
  "max_evidence = 8"

definition handoff_evidence :: "(string \<Rightarrow> string) \<Rightarrow> planning_context \<Rightarrow> slot \<Rightarrow> slot \<Rightarrow> edge
    \<Rightarrow> string list" where
  "handoff_evidence sha256 cx source destination e =
     (let contract = handoff_contract sha256 cx source destination e;
          contracts = contract # (if sl_resolved source \<noteq> None \<and> sl_resolved destination \<noteq> None
            then [handoff_contract sha256 cx source destination e] else []);
          refs = concat (map (\<lambda>metadata. concat (map (\<lambda>rec.
            if list_ex (binds rec) contracts then evidence_ref rec else []) (records_of metadata)))
            (pc_metadata cx))
      in take max_evidence (sort (remdups refs)))"

type_synonym handoffs = "(string \<times> string \<times> string \<times> string, string list) pydict"

fun handoff_scan :: "(string \<Rightarrow> string) \<Rightarrow> planning_context \<Rightarrow> (string, slot) pydict
    \<Rightarrow> (string, decision) pydict \<Rightarrow> edge list \<Rightarrow> handoffs \<Rightarrow> plan_error + handoffs option" where
  "handoff_scan sha256 cx tm dm [] found = Inr (Some found)"
| "handoff_scan sha256 cx tm dm (e # es) found =
     and_then (subscript dm (ed_producer e)) (\<lambda>p.
     and_then (subscript tm (de_target p)) (\<lambda>source.
     and_then (subscript dm (ed_consumer e)) (\<lambda>c.
     and_then (subscript tm (de_target c)) (\<lambda>destination.
       if de_target p = de_target c then handoff_scan sha256 cx tm dm es found
       else (let refs = handoff_evidence sha256 cx source destination e in
         if refs = [] then Inr None
         else handoff_scan sha256 cx tm dm es
           (dput (ed_producer e, ed_producer_port e, ed_consumer e, ed_consumer_port e) refs found))))))"

definition decision_map :: "decision list \<Rightarrow> (string, decision) pydict" where
  "decision_map ds = dict_of (map (\<lambda>d. (de_node d, d)) ds)"

definition target_map :: "slot list \<Rightarrow> (string, slot) pydict" where
  "target_map targets = dict_of (map (\<lambda>s. (sl_id s, s)) targets)"

definition assignment_handoffs :: "(string \<Rightarrow> string) \<Rightarrow> planning_context \<Rightarrow> graph \<Rightarrow> decision list
    \<Rightarrow> slot list \<Rightarrow> plan_error + handoffs option" where
  "assignment_handoffs sha256 cx g ds targets =
     handoff_scan sha256 cx (target_map targets) (decision_map ds) (gr_edges g) []"

subsection \<open>The objective\<close>

text \<open>
  A score is the tuple of six measures, the target priorities and the target identities; it is kept
  as its integer part and its string part.  Tuples that are compared have parts of equal length,
  so that the order of the pairs is the order of the tuples.
\<close>

type_synonym score = "int list \<times> string list"

definition ends :: "(string, decision) pydict \<Rightarrow> edge \<Rightarrow> (decision \<Rightarrow> decision \<Rightarrow> plan_error + 'a)
    \<Rightarrow> plan_error + 'a" where
  "ends dm e f = and_then (subscript dm (ed_producer e)) (\<lambda>p.
     and_then (subscript dm (ed_consumer e)) (\<lambda>c. f p c))"

definition crossing :: "(string, decision) pydict \<Rightarrow> edge \<Rightarrow> plan_error + int" where
  "crossing dm e = ends dm e (\<lambda>p c. Inr (if de_target p \<noteq> de_target c then 1 else 0))"

definition collected :: "(string, candidate) pydict \<Rightarrow> (string, decision) pydict \<Rightarrow> edge
    \<Rightarrow> plan_error + int" where
  "collected cm dm e = ends dm e (\<lambda>p c. if de_target p = de_target c then Inr 0
     else and_then (subscript cm (de_candidate c)) (\<lambda>cc. Inr (objective_fact ''collection_units'' cc)))"

definition fused :: "(string, candidate) pydict \<Rightarrow> (string, decision) pydict \<Rightarrow> edge
    \<Rightarrow> plan_error + int" where
  "fused cm dm e = ends dm e (\<lambda>p c. if de_target p \<noteq> de_target c then Inr 0
     else and_then (subscript cm (de_candidate p)) (\<lambda>pc.
       and_then (subscript cm (de_candidate c)) (\<lambda>cc.
         Inr (min (objective_fact ''safely_fusible_logical_edges'' pc)
                  (objective_fact ''safely_fusible_logical_edges'' cc)))))"

definition fact_of :: "string \<Rightarrow> (string, candidate) pydict \<Rightarrow> decision \<Rightarrow> plan_error + int" where
  "fact_of name cm d = and_then (subscript cm (de_candidate d)) (\<lambda>c. Inr (objective_fact name c))"

definition first_identity :: "(string \<times> string) list \<Rightarrow> string \<Rightarrow> plan_error + string" where
  "first_identity targets name = (case map_of targets name of None \<Rightarrow> Inl Exhausted | Some i \<Rightarrow> Inr i)"

definition objective :: "graph \<Rightarrow> decision list \<Rightarrow> candidate list \<Rightarrow> inventory
    \<Rightarrow> plan_error + score" where
  "objective g ds cs iv = (let cm = dict_of (map (\<lambda>c. (cd_id c, c)) cs); dm = decision_map ds in
     and_then (sum_each (fact_of ''proven_local_io_nodes'' cm) ds) (\<lambda>local_io.
     and_then (sum_each (fact_of ''proven_pushdown_actions'' cm) ds) (\<lambda>pushdown.
     and_then (sum_each (crossing dm) (gr_edges g)) (\<lambda>cross.
     and_then (sum_each (collected cm dm) (gr_edges g)) (\<lambda>collection.
     and_then (sum_each (fact_of ''durable_materialization_units'' cm) ds) (\<lambda>durable.
     and_then (sum_each (fused cm dm) (gr_edges g)) (\<lambda>fusible.
     and_then (each (\<lambda>d. index_of (iv_order iv) (de_target d)) ds) (\<lambda>priorities.
     and_then (each (\<lambda>d. first_identity (iv_targets iv) (de_target d)) ds) (\<lambda>identities.
       Inr ([- local_io, - pushdown, cross, collection, durable, - fusible] @ priorities,
            identities))))))))))"

end
