(* ===== verification/Graph_Cycles.thy ===== *)
theory Graph_Cycles
  imports Adaptive_Model
begin

text \<open>
  Cycle detection of the pipeline validator (\<open>_detect_cycles\<close> in \<open>validation/__init__.py\<close>): a
  depth-first search with the three colours and an explicit stack, which reports the cycle that
  each back edge closes.  The depth of the recursion is bounded by an explicit fuel; one more than
  the number of names is enough.
\<close>

subsection \<open>The search\<close>

datatype colour = White | Gray | Black

record dfs_state =
  df_colour :: "(string, colour) pydict"
  df_stack :: "string list"
  df_cycles :: "string list list"

type_synonym adjacency = "(string, string list) pydict"

definition successors :: "adjacency \<Rightarrow> string \<Rightarrow> string list" where
  "successors adj n = (case dget adj n of None \<Rightarrow> [] | Some ns \<Rightarrow> ns)"

definition colour_of :: "dfs_state \<Rightarrow> string \<Rightarrow> colour" where
  "colour_of st n = (case dget (df_colour st) n of None \<Rightarrow> White | Some c \<Rightarrow> c)"

definition adjacency_of :: "graph \<Rightarrow> adjacency" where
  "adjacency_of g = fold (\<lambda>e adj. dput (ed_producer e) (successors adj (ed_producer e) @ [ed_consumer e]) adj)
     (gr_edges g) (dict_of (map (\<lambda>n. (nd_name n, [])) (gr_nodes g)))"

definition open_node :: "string \<Rightarrow> dfs_state \<Rightarrow> dfs_state" where
  "open_node n st = st\<lparr>df_colour := dput n Gray (df_colour st), df_stack := df_stack st @ [n]\<rparr>"

definition close_node :: "string \<Rightarrow> dfs_state \<Rightarrow> dfs_state" where
  "close_node n st = st\<lparr>df_stack := butlast (df_stack st), df_colour := dput n Black (df_colour st)\<rparr>"

text \<open>The cycle of a back edge to \<open>n\<close>: the stack from \<open>n\<close> on, and \<open>n\<close> again.\<close>

definition report :: "string \<Rightarrow> dfs_state \<Rightarrow> dfs_state" where
  "report n st = st\<lparr>df_cycles := df_cycles st @ [dropWhile (\<lambda>m. m \<noteq> n) (df_stack st) @ [n]]\<rparr>"

function (sequential) visit_node :: "nat \<Rightarrow> adjacency \<Rightarrow> string \<Rightarrow> dfs_state \<Rightarrow> dfs_state option"
  and visit_successors :: "nat \<Rightarrow> adjacency \<Rightarrow> string list \<Rightarrow> dfs_state \<Rightarrow> dfs_state option" where
  "visit_node 0 adj n st = None"
| "visit_node (Suc k) adj n st = (case visit_successors k adj (successors adj n) (open_node n st) of
     None \<Rightarrow> None | Some st' \<Rightarrow> Some (close_node n st'))"
| "visit_successors k adj [] st = Some st"
| "visit_successors k adj (n # ns) st = (case colour_of st n of
     Gray \<Rightarrow> visit_successors k adj ns (report n st)
   | Black \<Rightarrow> visit_successors k adj ns st
   | White \<Rightarrow> (case visit_node k adj n st of
        None \<Rightarrow> None | Some st' \<Rightarrow> visit_successors k adj ns st'))"
  by pat_completeness auto
termination
  by (relation "measures [\<lambda>x. case x of Inl (k, _) \<Rightarrow> k | Inr (k, _) \<Rightarrow> k,
        \<lambda>x. case x of Inl _ \<Rightarrow> 0 | Inr (_, _, ns, _) \<Rightarrow> Suc (length ns)]") auto

fun visit_roots :: "nat \<Rightarrow> adjacency \<Rightarrow> string list \<Rightarrow> dfs_state \<Rightarrow> dfs_state option" where
  "visit_roots k adj [] st = Some st"
| "visit_roots k adj (n # ns) st = (if colour_of st n = White
     then (case visit_node k adj n st of None \<Rightarrow> None | Some st' \<Rightarrow> visit_roots k adj ns st')
     else visit_roots k adj ns st)"

definition fuel_for :: "graph \<Rightarrow> nat" where
  "fuel_for g = Suc (length (gr_nodes g) + 2 * length (gr_edges g))"

definition detect_cycles :: "graph \<Rightarrow> string list list option" where
  "detect_cycles g = (let adj = adjacency_of g; names = map fst adj in
     map_option df_cycles (visit_roots (fuel_for g) adj names
       \<lparr>df_colour = map (\<lambda>n. (n, White)) names, df_stack = [], df_cycles = []\<rparr>))"

subsection \<open>The edge relation\<close>

definition edge_rel :: "graph \<Rightarrow> (string \<times> string) set" where
  "edge_rel g = {(ed_producer e, ed_consumer e) | e. e \<in> set (gr_edges g)}"

definition adj_rel :: "adjacency \<Rightarrow> (string \<times> string) set" where
  "adj_rel adj = {(n, m). m \<in> set (successors adj n)}"

text \<open>A walk along the edges.\<close>

definition walk :: "(string \<times> string) set \<Rightarrow> string list \<Rightarrow> bool" where
  "walk R xs \<longleftrightarrow> successively (\<lambda>a b. (a, b) \<in> R) xs"

lemma successors_dput: "successors (dput n ns adj) m = (if m = n then ns else successors adj m)"
  by (simp add: successors_def)

lemma adjacency_edges:
  "m \<in> set (successors (fold (\<lambda>e adj. dput (ed_producer e)
      (successors adj (ed_producer e) @ [ed_consumer e]) adj) es adj) n)
   \<longleftrightarrow> m \<in> set (successors adj n) \<or> (\<exists>e \<in> set es. ed_producer e = n \<and> ed_consumer e = m)"
  by (induction es arbitrary: adj) (auto simp: successors_dput split: if_splits)

lemma successors_empty: "successors (dict_of (map (\<lambda>n. (f n, [])) ns)) m = []"
proof -
  have "dget (dict_of (map (\<lambda>n. (f n, [])) ns)) m \<in> {None, Some ([] :: string list)}"
    by (auto simp: dict_of_def dget_fold_dput split: option.splits dest!: map_of_SomeD)
  then show ?thesis by (auto simp: successors_def)
qed

lemma adj_rel_graph: "adj_rel (adjacency_of g) = edge_rel g"
  by (auto simp: adj_rel_def adjacency_of_def adjacency_edges successors_empty edge_rel_def)

lemma adjacency_keys:
  "set (map fst (adjacency_of g)) = nd_name ` set (gr_nodes g) \<union> ed_producer ` set (gr_edges g)"
  "distinct (map fst (adjacency_of g))"
  unfolding adjacency_of_def
  by (simp_all only: keys_fold_dput keys_dict_of distinct_fold_dput distinct_dict_of)
     (auto simp: image_image)

subsection \<open>The invariant of the search\<close>

definition with_colour :: "colour \<Rightarrow> dfs_state \<Rightarrow> string set" where
  "with_colour c st = {n. colour_of st n = c}"

abbreviation "blacks \<equiv> with_colour Black"
abbreviation "grays \<equiv> with_colour Gray"

definition closed_cycle :: "(string \<times> string) set \<Rightarrow> string list \<Rightarrow> bool" where
  "closed_cycle R c \<longleftrightarrow> 2 \<le> length c \<and> hd c = last c \<and> walk R c"

text \<open>
  The gray nodes are the stack, which is a walk; as long as nothing was reported the black nodes are
  closed under the edges and free of cycles; what was reported are cycles.
\<close>

definition dfs_ok :: "(string \<times> string) set \<Rightarrow> dfs_state \<Rightarrow> bool" where
  "dfs_ok R st \<longleftrightarrow> grays st = set (df_stack st) \<and> distinct (df_stack st) \<and> walk R (df_stack st)
     \<and> (df_cycles st = [] \<longrightarrow> R `` blacks st \<subseteq> blacks st \<and> acyclic (R \<inter> blacks st \<times> blacks st))
     \<and> (\<forall>c \<in> set (df_cycles st). closed_cycle R c)"

definition advances :: "dfs_state \<Rightarrow> dfs_state \<Rightarrow> bool" where
  "advances st st' \<longleftrightarrow> df_stack st' = df_stack st \<and> grays st' = grays st \<and> blacks st \<subseteq> blacks st'
     \<and> (df_cycles st' = [] \<longrightarrow> df_cycles st = [])"

lemma advances_refl: "advances st st"
  by (simp add: advances_def)

lemma advances_trans: "advances a b \<Longrightarrow> advances b c \<Longrightarrow> advances a c"
  by (auto simp: advances_def)

definition unvisited :: "string set \<Rightarrow> dfs_state \<Rightarrow> nat" where
  "unvisited U st = card (U \<inter> with_colour White st)"

lemma white_iff: "n \<in> with_colour White st \<longleftrightarrow> n \<notin> grays st \<and> n \<notin> blacks st"
  by (cases "colour_of st n") (auto simp: with_colour_def)

lemma unvisited_mono: "finite U \<Longrightarrow> advances st st' \<Longrightarrow> unvisited U st' \<le> unvisited U st"
  unfolding unvisited_def by (rule card_mono) (auto simp: white_iff advances_def)

lemma colour_open: "colour_of (open_node n st) m = (if m = n then Gray else colour_of st m)"
  by (simp add: colour_of_def open_node_def)

lemma colour_close: "colour_of (close_node n st) m = (if m = n then Black else colour_of st m)"
  by (simp add: colour_of_def close_node_def)

lemma colour_report: "colour_of (report n st) = colour_of st"
  by (rule ext) (simp add: colour_of_def report_def)

lemma open_sets:
  "colour_of st n = White \<Longrightarrow> grays (open_node n st) = insert n (grays st)"
  "colour_of st n = White \<Longrightarrow> blacks (open_node n st) = blacks st"
  by (auto simp: with_colour_def colour_open)

lemma close_sets:
  "grays (close_node n st) = grays st - {n}" "blacks (close_node n st) = insert n (blacks st)"
  by (auto simp: with_colour_def colour_close)

lemma unvisited_open:
  assumes "finite U" "n \<in> U" "colour_of st n = White"
  shows "Suc (unvisited U (open_node n st)) = unvisited U st"
proof -
  have "U \<inter> with_colour White st = insert n (U \<inter> with_colour White (open_node n st))"
    using assms(2,3) by (auto simp: with_colour_def colour_open split: if_splits)
  moreover have "n \<notin> with_colour White (open_node n st)" by (simp add: with_colour_def colour_open)
  ultimately show ?thesis using assms(1) by (simp add: unvisited_def)
qed

lemma walk_snoc: "walk R (xs @ [y]) \<longleftrightarrow> walk R xs \<and> (xs \<noteq> [] \<longrightarrow> (last xs, y) \<in> R)"
  by (cases "xs = []") (simp_all add: walk_def successively_append_iff)

lemma walk_dropWhile: "walk R xs \<Longrightarrow> walk R (dropWhile P xs)"
  unfolding walk_def by (metis successively_append_iff takeWhile_dropWhile_id)

lemma dfs_ok_open:
  assumes ok: "dfs_ok R st" and white: "colour_of st n = White"
    and edge: "df_stack st \<noteq> [] \<Longrightarrow> (last (df_stack st), n) \<in> R"
  shows "dfs_ok R (open_node n st)"
proof -
  note sets = open_sets[OF white]
  have "n \<notin> grays st" using white by (simp add: with_colour_def)
  then have "n \<notin> set (df_stack st)" using ok by (simp add: dfs_ok_def)
  then show ?thesis
    using ok edge unfolding dfs_ok_def sets by (auto simp: open_node_def walk_snoc)
qed

lemma dfs_ok_report:
  assumes ok: "dfs_ok R st" and gray: "colour_of st n = Gray"
    and edge: "df_stack st \<noteq> []" "(last (df_stack st), n) \<in> R"
  shows "dfs_ok R (report n st)"
proof -
  have sets: "with_colour c (report n st) = with_colour c st" for c
    by (simp add: with_colour_def colour_report)
  have n: "n \<in> set (df_stack st)" using ok gray by (auto simp: dfs_ok_def with_colour_def)
  let ?d = "dropWhile (\<lambda>m. m \<noteq> n) (df_stack st)"
  have "?d \<noteq> []" using n by (auto simp: dropWhile_eq_Nil_conv)
  then have d: "?d \<noteq> []" "hd ?d = n" using hd_dropWhile[of "\<lambda>m. m \<noteq> n"] by blast+
  have "last ?d = last (df_stack st)" using d(1) by (metis last_appendR takeWhile_dropWhile_id)
  then have "walk R (?d @ [n])"
    using ok edge d(1) by (simp add: walk_snoc dfs_ok_def walk_dropWhile)
  then have "closed_cycle R (?d @ [n])"
    using d by (cases ?d) (auto simp: closed_cycle_def)
  then show ?thesis using ok unfolding dfs_ok_def sets by (auto simp: report_def)
qed

lemma acyclic_insert_top:
  assumes acyc: "acyclic (R \<inter> B \<times> B)" and closed: "R `` B \<subseteq> B" and top: "R `` {n} \<subseteq> B" "n \<notin> B"
  shows "acyclic (R \<inter> insert n B \<times> insert n B)"
proof (rule acyclicI, rule allI, rule notI)
  let ?R = "R \<inter> insert n B \<times> insert n B"
  have stay: "y \<in> B \<and> (x, y) \<in> (R \<inter> B \<times> B)\<^sup>+" if "(x, y) \<in> ?R\<^sup>+" "x \<in> B" for x y
    using that
  proof (induction rule: trancl_induct)
    case (base y)
    then show ?case using closed by auto
  next
    case (step y z)
    then have "(y, z) \<in> R \<inter> B \<times> B" using closed by auto
    then show ?case using step by (auto intro: trancl_into_trancl)
  qed
  fix x assume x: "(x, x) \<in> ?R\<^sup>+"
  show False
  proof (cases "x \<in> B")
    case True
    then show False using stay[OF x] acyc by (simp add: acyclic_def)
  next
    case False
    obtain y where y: "(x, y) \<in> ?R" "(y, x) \<in> ?R\<^sup>*" using x by (meson tranclD)
    then have "x = n" "y \<in> B" using False top by auto
    then have "(y, x) \<in> ?R\<^sup>+" using y(2) top(2) by (auto dest: rtranclD)
    then show False using stay \<open>y \<in> B\<close> False by blast
  qed
qed

lemma dfs_ok_close:
  assumes ok: "dfs_ok R st" and stack: "df_stack st = xs @ [n]"
    and finished: "df_cycles st = [] \<Longrightarrow> R `` {n} \<subseteq> blacks st"
  shows "dfs_ok R (close_node n st)"
proof -
  have n: "n \<in> grays st" "n \<notin> set xs" using ok stack by (auto simp: dfs_ok_def)
  note sets = close_sets[of n st]
  have nb: "n \<notin> blacks st" using n(1) by (auto simp: with_colour_def)
  have cyc: "df_cycles (close_node n st) = df_cycles st" "df_stack (close_node n st) = xs"
    by (simp_all add: close_node_def stack)
  have "R `` insert n (blacks st) \<subseteq> insert n (blacks st)
      \<and> acyclic (R \<inter> insert n (blacks st) \<times> insert n (blacks st))" if "df_cycles st = []"
  proof -
    have "R `` blacks st \<subseteq> blacks st" "acyclic (R \<inter> blacks st \<times> blacks st)"
      using ok that by (simp_all add: dfs_ok_def)
    then show ?thesis using acyclic_insert_top[OF _ _ finished[OF that] nb] finished[OF that] by auto
  qed
  moreover have "grays st - {n} = set xs" using ok stack n by (auto simp: dfs_ok_def)
  moreover have "walk R xs" using ok stack by (simp add: dfs_ok_def walk_snoc)
  ultimately show ?thesis using ok stack unfolding dfs_ok_def sets cyc by auto
qed

subsection \<open>The search keeps it and ends\<close>

lemma dfs_correct:
  assumes U: "finite U"
  shows "adj_rel adj \<subseteq> UNIV \<times> U \<Longrightarrow> dfs_ok (adj_rel adj) st \<Longrightarrow> colour_of st n = White \<Longrightarrow> n \<in> U \<Longrightarrow> unvisited U st \<le> k \<Longrightarrow>
      (df_stack st \<noteq> [] \<Longrightarrow> (last (df_stack st), n) \<in> adj_rel adj) \<Longrightarrow>
      \<exists>st'. visit_node k adj n st = Some st' \<and> dfs_ok (adj_rel adj) st' \<and> advances st st' \<and> n \<in> blacks st'"
    and "adj_rel adj \<subseteq> UNIV \<times> U \<Longrightarrow> dfs_ok (adj_rel adj) st \<Longrightarrow> df_stack st \<noteq> [] \<Longrightarrow> set ns \<subseteq> set (successors adj (last (df_stack st)))
      \<Longrightarrow> unvisited U st \<le> k \<Longrightarrow>
      \<exists>st'. visit_successors k adj ns st = Some st' \<and> dfs_ok (adj_rel adj) st' \<and> advances st st'
        \<and> (df_cycles st' = [] \<longrightarrow> set ns \<subseteq> blacks st')"
proof (induction k adj n st and k adj ns st rule: visit_node_visit_successors.induct)
  case (1 adj n st)
  have "n \<in> U \<inter> with_colour White st" using 1 by (simp add: with_colour_def)
  then have "0 < unvisited U st" using U unfolding unvisited_def by (auto simp: card_gt_0_iff)
  then show ?case using 1 by simp
next
  case (2 k adj n st)
  let ?o = "open_node n st"
  have ok: "dfs_ok (adj_rel adj) ?o" using dfs_ok_open[OF 2(3,4)] 2(7) by blast
  have stack: "df_stack ?o = df_stack st @ [n]" by (simp add: open_node_def)
  have "unvisited U ?o \<le> k" using unvisited_open[OF U 2(5,4)] 2(6) by simp
  then obtain st' where st': "visit_successors k adj (successors adj n) ?o = Some st'"
    "dfs_ok (adj_rel adj) st'" "advances ?o st'" "df_cycles st' = [] \<longrightarrow> set (successors adj n) \<subseteq> blacks st'"
    using 2(1)[OF 2(2) ok] stack by auto
  have s: "df_stack st' = df_stack st @ [n]" using st'(3) stack by (simp add: advances_def)
  have "dfs_ok (adj_rel adj) (close_node n st')"
    using st'(4) by (intro dfs_ok_close[OF st'(2) s]) (auto simp: adj_rel_def)
  moreover have "advances st (close_node n st')"
  proof -
    have "n \<notin> grays st" using 2(4) by (simp add: with_colour_def)
    moreover have "df_cycles (close_node n st') = df_cycles st'" "df_cycles ?o = df_cycles st"
      "df_stack (close_node n st') = df_stack st"
      using s by (simp_all add: close_node_def open_node_def)
    ultimately show ?thesis
      using st'(3) open_sets[OF 2(4)] by (auto simp: advances_def close_sets)
  qed
  ultimately show ?case using st'(1) by (auto simp: with_colour_def colour_close)
next
  case (3 k adj st)
  then show ?case by (auto intro: advances_refl)
next
  case (4 k adj n ns st)
  have edge: "(last (df_stack st), n) \<in> adj_rel adj" using 4(8) by (auto simp: adj_rel_def)
  have rest: "set ns \<subseteq> set (successors adj (last (df_stack st)))" using 4(8) by simp
  show ?case
  proof (cases "colour_of st n")
    case Gray
    have ok: "dfs_ok (adj_rel adj) (report n st)" using dfs_ok_report[OF 4(6) Gray 4(7) edge] .
    have same: "df_stack (report n st) = df_stack st" "unvisited U (report n st) = unvisited U st"
      "advances st (report n st)" "df_cycles (report n st) \<noteq> []"
      by (simp_all add: report_def unvisited_def with_colour_def colour_of_def advances_def)
    obtain st' where "visit_successors k adj ns (report n st) = Some st'" "dfs_ok (adj_rel adj) st'"
      "advances (report n st) st'"
      using 4(3)[OF Gray 4(5) ok] same 4(7,9) rest by auto
    then show ?thesis using Gray same(3,4) by (auto simp: advances_def)
  next
    case Black
    obtain st' where "visit_successors k adj ns st = Some st'" "dfs_ok (adj_rel adj) st'"
      "advances st st'" "df_cycles st' = [] \<longrightarrow> set ns \<subseteq> blacks st'"
      using 4(4)[OF Black 4(5) 4(6,7) rest 4(9)] by blast
    then show ?thesis using Black by (auto simp: advances_def with_colour_def)
  next
    case White
    have "(last (df_stack st), n) \<in> UNIV \<times> U" by (rule subsetD[OF 4(5) edge])
    then have "n \<in> U" by (rule SigmaD2)
    then obtain s where s: "visit_node k adj n st = Some s" "dfs_ok (adj_rel adj) s" "advances st s" "n \<in> blacks s"
      using 4(1)[OF White 4(5) 4(6) White _ 4(9)] edge by blast
    have "df_stack s = df_stack st" "unvisited U s \<le> k"
      using s(3) unvisited_mono[OF U s(3)] 4(9) by (simp_all add: advances_def)
    then obtain st' where "visit_successors k adj ns s = Some st'" "dfs_ok (adj_rel adj) st'"
      "advances s st'" "df_cycles st' = [] \<longrightarrow> set ns \<subseteq> blacks st'"
      using 4(2)[OF White s(1) 4(5) s(2)] 4(7) rest by auto
    then show ?thesis using White s advances_trans[OF s(3)] by (auto simp: advances_def)
  qed
qed

lemma roots_correct:
  assumes U: "finite U" "adj_rel adj \<subseteq> UNIV \<times> U"
  shows "dfs_ok (adj_rel adj) st \<Longrightarrow> df_stack st = [] \<Longrightarrow> set ns \<subseteq> U \<Longrightarrow> unvisited U st \<le> k \<Longrightarrow>
    \<exists>st'. visit_roots k adj ns st = Some st' \<and> dfs_ok (adj_rel adj) st' \<and> advances st st'
      \<and> set ns \<subseteq> blacks st'"
proof (induction ns arbitrary: st)
  case Nil
  then show ?case by (auto intro: advances_refl)
next
  case (Cons n ns)
  have no_gray: "grays st = {}" using Cons.prems(1,2) by (simp add: dfs_ok_def)
  obtain s where s: "(if colour_of st n = White then visit_node k adj n st else Some st) = Some s"
    "dfs_ok (adj_rel adj) s" "advances st s" "n \<in> blacks s"
  proof (cases "colour_of st n = White")
    case True
    then show thesis using that dfs_correct(1)[OF U Cons.prems(1) True _ Cons.prems(4)] Cons.prems(2,3) by auto
  next
    case False
    have "n \<notin> grays st" by (simp add: no_gray)
    then have "n \<in> blacks st" using False by (cases "colour_of st n") (auto simp: with_colour_def)
    then show thesis using that False Cons.prems(1) by (simp add: advances_refl)
  qed
  have "df_stack s = []" "unvisited U s \<le> k"
    using s(3) Cons.prems(2,4) unvisited_mono[OF U(1) s(3)] by (simp_all add: advances_def)
  then obtain st' where st': "visit_roots k adj ns s = Some st'" "dfs_ok (adj_rel adj) st'" "advances s st'"
    "set ns \<subseteq> blacks st'"
    using Cons.IH[OF s(2)] Cons.prems(3) by auto
  have "visit_roots k adj (n # ns) st = Some st'" using s(1) st'(1) by (auto split: if_splits)
  moreover have "n \<in> blacks st'" using s(4) st'(3) by (auto simp: advances_def)
  ultimately show ?case using st' advances_trans[OF s(3) st'(3)] by auto
qed

lemma closed_cycle_trancl:
  assumes "closed_cycle R c"
  shows "(hd c, hd c) \<in> R\<^sup>+"
proof -
  have "walk R (x # xs) \<Longrightarrow> xs \<noteq> [] \<Longrightarrow> (x, last xs) \<in> R\<^sup>+" for x xs
  proof (induction xs arbitrary: x)
    case (Cons y ys)
    then show ?case by (cases "ys = []") (auto simp: walk_def intro: trancl_into_trancl2)
  qed simp
  then show ?thesis using assms by (cases c) (auto simp: closed_cycle_def split: if_splits)
qed

text \<open>
  C21: the cycle detection ends, what it reports are cycles of the graph, and it reports none
  exactly when the edges of the graph are acyclic.
\<close>

theorem cycles_detected:
  "\<exists>cycles. detect_cycles g = Some cycles \<and> list_all (closed_cycle (edge_rel g)) cycles
     \<and> (cycles = [] \<longleftrightarrow> acyclic (edge_rel g))"
proof -
  let ?adj = "adjacency_of g" and ?names = "map fst (adjacency_of g)"
  let ?R = "adj_rel ?adj"
  let ?U = "nd_name ` set (gr_nodes g) \<union> ed_producer ` set (gr_edges g) \<union> ed_consumer ` set (gr_edges g)"
  define st where "st = \<lparr>df_colour = map (\<lambda>n. (n, White)) ?names, df_stack = [], df_cycles = []\<rparr>"
  have white: "colour_of st n = White" for n
    unfolding st_def by (auto simp: colour_of_def dget_def dest: map_of_SomeD split: option.splits)
  have U: "finite ?U" "?R \<subseteq> UNIV \<times> ?U" by (auto simp: adj_rel_graph edge_rel_def)
  have names: "set ?names \<subseteq> ?U" unfolding adjacency_keys by auto
  have "unvisited ?U st \<le> card ?U" unfolding unvisited_def by (rule card_mono) auto
  also have "\<dots> \<le> length (gr_nodes g) + length (gr_edges g) + length (gr_edges g)"
    by (intro order.trans[OF card_Un_le] add_mono order.trans[OF card_image_le] card_length) simp_all
  finally have fuel: "unvisited ?U st \<le> fuel_for g" by (simp add: fuel_for_def)
  have start: "dfs_ok ?R st" by (simp add: dfs_ok_def with_colour_def white walk_def acyclic_def) (simp add: st_def)
  obtain st' where st': "visit_roots (fuel_for g) ?adj ?names st = Some st'" "dfs_ok ?R st'" "advances st st'"
    "set ?names \<subseteq> blacks st'"
    using roots_correct[OF U start _ names fuel] by (auto simp: st_def)
  have run: "detect_cycles g = Some (df_cycles st')"
    using st'(1) by (simp add: detect_cycles_def Let_def st_def)
  have cycles: "list_all (closed_cycle ?R) (df_cycles st')"
    using st'(2) by (simp add: dfs_ok_def list_all_iff)
  have "acyclic ?R" if none: "df_cycles st' = []"
  proof -
    have closed: "?R `` blacks st' \<subseteq> blacks st'" "acyclic (?R \<inter> blacks st' \<times> blacks st')"
      using st'(2) none by (simp_all add: dfs_ok_def)
    have "?R \<subseteq> set ?names \<times> UNIV" unfolding adjacency_keys adj_rel_graph by (auto simp: edge_rel_def)
    then have "?R \<inter> blacks st' \<times> blacks st' = ?R" using st'(4) closed(1) by blast
    then show ?thesis using closed(2) by simp
  qed
  moreover have "df_cycles st' = []" if "acyclic ?R"
  proof (rule ccontr)
    assume "df_cycles st' \<noteq> []"
    then have "closed_cycle ?R (hd (df_cycles st'))" using cycles by (cases "df_cycles st'") auto
    then show False using closed_cycle_trancl that by (fastforce simp: acyclic_def)
  qed
  ultimately show ?thesis using run cycles by (auto simp: adj_rel_graph)
qed

end
