(* ===== verification/Run_Selection.thy ===== *)
theory Run_Selection
  imports Graph_Cycles
begin

text \<open>
  Which part of a pipeline a run covers.  \<open>plan/slicing.py\<close> computes upstream closures, prefixes and slices
  of the logical graph, \<open>RunSelection.resolve\<close> of \<open>runtime/request.py\<close> turns a selection into declaration-ordered
  names, and \<open>reliability_runtime.py\<close> with \<open>arun_pipeline\<close> of \<open>runtime/execute.py\<close> computes what a repair or an
  invalidation touches.  All of them run a stack over sets of names, whose iteration order Python does not fix: it is
  the parameter \<open>it\<close> of the definitions, of which \<open>iterates it\<close> says that it yields the elements of the set.
\<close>

subsection \<open>Sets of names\<close>

type_synonym set_order = "string list \<Rightarrow> string list"

definition iterates :: "set_order \<Rightarrow> bool" where
  "iterates it \<longleftrightarrow> (\<forall>xs. set (it xs) = set xs)"

definition add_name :: "string \<Rightarrow> string list \<Rightarrow> string list" where
  "add_name x xs = (if x \<in> set xs then xs else xs @ [x])"

lemma set_add_name [simp]: "set (add_name x xs) = insert x (set xs)"
  by (auto simp: add_name_def)

definition producers_of :: "graph \<Rightarrow> adjacency" where
  "producers_of g = fold (\<lambda>e d. dput (ed_consumer e) (add_name (ed_producer e) (successors d (ed_consumer e))) d)
     (gr_edges g) (dict_of (map (\<lambda>n. (nd_name n, [])) (gr_nodes g)))"

definition consumers_of :: "graph \<Rightarrow> adjacency" where
  "consumers_of g = fold (\<lambda>e d. dput (ed_producer e) (add_name (ed_consumer e) (successors d (ed_producer e))) d)
     (gr_edges g) (dict_of (map (\<lambda>n. (nd_name n, [])) (gr_nodes g)))"

text \<open>The members that a loop over \<open>d.get(n, ())\<close> visits.\<close>

definition visits :: "set_order \<Rightarrow> adjacency \<Rightarrow> string \<Rightarrow> string list" where
  "visits it d n = (case dget d n of None \<Rightarrow> [] | Some ns \<Rightarrow> it ns)"

subsection \<open>The two stack loops\<close>

text \<open>The stack of \<open>dependency_closure\<close> may hold a name twice; it is skipped when it comes up again.\<close>

function closure_loop :: "set_order \<Rightarrow> adjacency \<Rightarrow> string list \<Rightarrow> string list \<Rightarrow> string list" where
  "closure_loop it d seen stack = (if stack = [] then seen
     else (let n = last stack; rest = butlast stack in
       if n \<in> set seen then closure_loop it d seen rest
       else closure_loop it d (n # seen) (rest @ filter (\<lambda>m. m \<notin> set (n # seen)) (visits it d n))))"
  by pat_completeness auto
termination
proof (relation "measures [\<lambda>(it, d, seen, stack). card (fst ` set d - set seen), \<lambda>(it, d, seen, stack). length stack]")
  fix it :: set_order and d :: adjacency and seen stack :: "string list" and n rest
  assume h: "stack \<noteq> []" "n = last stack" "rest = butlast stack" "n \<notin> set seen"
  let ?K = "fst ` set d"
  show "((it, d, n # seen, rest @ filter (\<lambda>m. m \<notin> set (n # seen)) (visits it d n)), it, d, seen, stack)
      \<in> measures [\<lambda>(it, d, seen, stack). card (fst ` set d - set seen), \<lambda>(it, d, seen, stack). length stack]"
  proof (cases "n \<in> ?K")
    case True
    then have "?K - set (n # seen) \<subset> ?K - set seen" using h by auto
    then have "card (?K - set (n # seen)) < card (?K - set seen)" by (intro psubset_card_mono) auto
    then show ?thesis by simp
  next
    case False
    then have "dget d n = None" by (simp add: dget_None_iff)
    moreover have "?K - set (n # seen) = ?K - set seen" using False by auto
    ultimately show ?thesis using h by (simp add: visits_def)
  qed
qed auto

declare closure_loop.simps [simp del]

text \<open>The stack of the repair and invalidation loops holds a name once: it is marked when it is pushed.\<close>

definition mark_new :: "string list \<Rightarrow> string list \<times> string list \<Rightarrow> string list \<times> string list" where
  "mark_new ms st = fold (\<lambda>m (affected, stack). if m \<in> set affected then (affected, stack)
     else (m # affected, stack @ [m])) ms st"

lemma mark_new_Nil [simp]: "mark_new [] st = st"
  by (simp add: mark_new_def)

lemma mark_new_Cons [simp]:
  "mark_new (m # ms) (aff, stack) = (if m \<in> set aff then mark_new ms (aff, stack) else mark_new ms (m # aff, stack @ [m]))"
  by (simp add: mark_new_def)

lemma mark_new_sets:
  "mark_new ms (aff, stack) = (aff', stack') \<Longrightarrow>
   set aff' = set aff \<union> set ms \<and> set stack' = set stack \<union> (set ms - set aff)"
proof (induction ms arbitrary: aff stack)
  case (Cons m ms)
  show ?case
  proof (cases "m \<in> set aff")
    case True
    then show ?thesis using Cons.IH[of aff stack] Cons.prems by auto
  next
    case False
    then show ?thesis using Cons.IH[of "m # aff" "stack @ [m]"] Cons.prems by auto
  qed
qed simp

definition universe :: "set_order \<Rightarrow> adjacency \<Rightarrow> string set" where
  "universe it d = (\<Union>n \<in> fst ` set d. set (visits it d n))"

lemma finite_universe [simp]: "finite (universe it d)"
  by (simp add: universe_def)

lemma visits_universe: "set (visits it d n) \<subseteq> universe it d"
proof (cases "dget d n")
  case None
  then show ?thesis by (simp add: visits_def)
next
  case (Some ns)
  then have "n \<in> fst ` set d" by (rule dget_in_keys)
  then show ?thesis by (auto simp: universe_def)
qed

lemma mark_new_measure:
  "finite U \<Longrightarrow> set ms \<subseteq> U \<Longrightarrow> mark_new ms (aff, stack) = (aff', stack') \<Longrightarrow>
   card (U - set aff') + length stack' = card (U - set aff) + length stack"
proof (induction ms arbitrary: aff stack)
  case (Cons m ms)
  show ?case
  proof (cases "m \<in> set aff")
    case True
    then show ?thesis using Cons.IH[of aff stack] Cons.prems by auto
  next
    case False
    have "m \<in> U - set aff" using Cons.prems False by auto
    moreover have "U - set (m # aff) = (U - set aff) - {m}" by auto
    ultimately have "card (U - set (m # aff)) = card (U - set aff) - 1" "0 < card (U - set aff)"
      using \<open>finite U\<close> by (auto simp: card_gt_0_iff)
    then show ?thesis using False Cons.IH[of "m # aff" "stack @ [m]"] Cons.prems by auto
  qed
qed simp

function affected_loop :: "set_order \<Rightarrow> adjacency \<Rightarrow> string list \<Rightarrow> string list \<Rightarrow> string list" where
  "affected_loop it d affected stack = (if stack = [] then affected
     else (case mark_new (visits it d (last stack)) (affected, butlast stack) of
       (affected', stack') \<Rightarrow> affected_loop it d affected' stack'))"
  by pat_completeness auto
termination
proof (relation "measure (\<lambda>(it, d, affected, stack). card (universe it d - set affected) + length stack)")
  fix it :: set_order and d :: adjacency and affected stack affected' stack' :: "string list"
  assume h: "stack \<noteq> []" "(affected', stack') = mark_new (visits it d (last stack)) (affected, butlast stack)"
  have "card (universe it d - set affected') + length stack'
      = card (universe it d - set affected) + length (butlast stack)"
    using h visits_universe by (intro mark_new_measure) auto
  moreover have "length (butlast stack) < length stack" using h(1) by (cases stack) auto
  ultimately show "((it, d, affected', stack'), it, d, affected, stack)
      \<in> measure (\<lambda>(it, d, affected, stack). card (universe it d - set affected) + length stack)"
    by simp
qed auto

declare affected_loop.simps [simp del]

subsection \<open>Slices of the graph\<close>

datatype selection_error =
    Unknown_steps "string list"
  | Unknown_step string
  | End_not_after string string
  | Unknown_kind string
  | Missing_bound
  | Bad_tags

definition dependency_closure :: "set_order \<Rightarrow> graph \<Rightarrow> string list \<Rightarrow> selection_error + string list" where
  "dependency_closure it g targets = (if targets = [] then Inr []
     else (let missing = filter (\<lambda>t. t \<notin> set (node_names g)) targets in
       if missing \<noteq> [] then Inl (Unknown_steps (sort (remdups missing)))
       else (let seen = closure_loop it (producers_of g) [] (it (remdups targets)) in
         Inr (filter (\<lambda>n. n \<in> set seen) (node_names g)))))"

definition validate_selection_target :: "graph \<Rightarrow> string \<Rightarrow> selection_error option" where
  "validate_selection_target g s = (if s \<notin> set (node_names g) then Some (Unknown_step s) else None)"

definition run_one_selection :: "set_order \<Rightarrow> graph \<Rightarrow> string \<Rightarrow> selection_error + string list" where
  "run_one_selection it g s = (case validate_selection_target g s of
     Some e \<Rightarrow> Inl e | None \<Rightarrow> dependency_closure it g [s])"

fun prefix_through :: "string \<Rightarrow> string list \<Rightarrow> string list option" where
  "prefix_through s [] = None"
| "prefix_through s (n # ns) = (if n = s then Some [n] else map_option ((#) n) (prefix_through s ns))"

definition run_until_selection :: "graph \<Rightarrow> string \<Rightarrow> selection_error + string list" where
  "run_until_selection g s = (case validate_selection_target g s of
     Some e \<Rightarrow> Inl e
   | None \<Rightarrow> (case prefix_through s (node_names g) of None \<Rightarrow> Inl (Unknown_step s) | Some ns \<Rightarrow> Inr ns))"

definition slice_graph :: "graph \<Rightarrow> string list \<Rightarrow> graph" where
  "slice_graph g selected =
     \<lparr>gr_nodes = filter (\<lambda>n. nd_name n \<in> set selected) (gr_nodes g),
      gr_edges = filter (\<lambda>e. ed_producer e \<in> set selected \<and> ed_consumer e \<in> set selected) (gr_edges g)\<rparr>"

subsection \<open>Selections\<close>

record run_selection =
  se_kind :: string
  se_nodes :: "string list"
  se_tags :: "string list"
  se_start :: "string option"
  se_end :: "string option"

definition selection :: "string \<Rightarrow> run_selection" where
  "selection kind = \<lparr>se_kind = kind, se_nodes = [], se_tags = [], se_start = None, se_end = None\<rparr>"

definition select_only :: "string list \<Rightarrow> run_selection" where
  "select_only ns = selection ''only''\<lparr>se_nodes := ns\<rparr>"

definition select_until :: "string \<Rightarrow> run_selection" where
  "select_until s = selection ''until''\<lparr>se_end := Some s\<rparr>"

definition select_from :: "string \<Rightarrow> run_selection" where
  "select_from s = selection ''from''\<lparr>se_start := Some s\<rparr>"

definition select_between :: "string \<Rightarrow> string \<Rightarrow> run_selection" where
  "select_between s e = selection ''between''\<lparr>se_start := Some s, se_end := Some e\<rparr>"

definition select_upstream :: "string \<Rightarrow> run_selection" where
  "select_upstream s = selection ''upstream_of''\<lparr>se_end := Some s\<rparr>"

definition select_downstream :: "string \<Rightarrow> run_selection" where
  "select_downstream s = selection ''downstream_of''\<lparr>se_start := Some s\<rparr>"

definition select_matching :: "string list \<Rightarrow> run_selection" where
  "select_matching tags = selection ''matching''\<lparr>se_tags := tags\<rparr>"

fun names_from :: "string \<Rightarrow> bool \<Rightarrow> string list \<Rightarrow> string list" where
  "names_from s started [] = []"
| "names_from s started (n # ns) = (let started' = (started \<or> n = s) in
     if started' then n # names_from s started' ns else names_from s started' ns)"

text \<open>The loop of \<open>between\<close>; \<open>None\<close> is its \<open>else\<close>, taken when the end is never met.\<close>

fun names_between :: "string \<Rightarrow> string \<Rightarrow> bool \<Rightarrow> string list \<Rightarrow> string list option" where
  "names_between s e started [] = None"
| "names_between s e started (n # ns) = (let started' = (started \<or> n = s); here = (if started' then [n] else []) in
     if n = e then Some here else map_option ((@) here) (names_between s e started' ns))"

text \<open>
  \<open>frozenset(n.metadata.get("tags", ()) or ())\<close>, as far as names are concerned: a list must have hashable
  elements, a string is the set of its characters, a dictionary that of its keys.
\<close>

definition node_tags :: "node \<Rightarrow> string list option" where
  "node_tags n = (case dget (nd_metadata n) ''tags'' of
     None \<Rightarrow> Some []
   | Some v \<Rightarrow> (case v of
       JNull \<Rightarrow> Some []
     | JBool b \<Rightarrow> if b then None else Some []
     | JInt i \<Rightarrow> if i = 0 then Some [] else None
     | JStr s \<Rightarrow> Some (map (\<lambda>c. [c]) s)
     | JList vs \<Rightarrow> if list_ex (\<lambda>v. case v of JList _ \<Rightarrow> True | JMap _ \<Rightarrow> True | _ \<Rightarrow> False) vs then None
         else Some (concat (map (\<lambda>v. case v of JStr s \<Rightarrow> [s] | _ \<Rightarrow> []) vs))
     | JMap m \<Rightarrow> Some (map fst m)))"

fun matching_names :: "string list \<Rightarrow> node list \<Rightarrow> string list option" where
  "matching_names tags [] = Some []"
| "matching_names tags (n # ns) = (case node_tags n of
     None \<Rightarrow> None
   | Some ts \<Rightarrow> (case matching_names tags ns of
       None \<Rightarrow> None
     | Some ms \<Rightarrow> Some (if list_ex (\<lambda>t. t \<in> set ts) tags then nd_name n # ms else ms)))"

definition downstream_names :: "set_order \<Rightarrow> graph \<Rightarrow> string \<Rightarrow> string list" where
  "downstream_names it g s = (let seen = closure_loop it (consumers_of g) [] [s] in
     filter (\<lambda>n. n \<in> set seen) (node_names g))"

definition resolve_selection :: "set_order \<Rightarrow> run_selection \<Rightarrow> graph \<Rightarrow> selection_error + string list" where
  "resolve_selection it sel g = (let names = node_names g; kind = se_kind sel in
     if kind = ''all'' then Inr names
     else if kind = ''only'' then
       (let missing = filter (\<lambda>t. t \<notin> set names) (se_nodes sel) in
        if missing \<noteq> [] then Inl (Unknown_steps (sort (remdups missing)))
        else dependency_closure it g (se_nodes sel))
     else if kind = ''until'' then
       (case se_end sel of None \<Rightarrow> Inl Missing_bound | Some e \<Rightarrow> run_until_selection g e)
     else if kind = ''from'' then
       (case se_start sel of
          None \<Rightarrow> Inl Missing_bound
        | Some s \<Rightarrow> (case validate_selection_target g s of
            Some err \<Rightarrow> Inl err
          | None \<Rightarrow> dependency_closure it g (names_from s False names)))
     else if kind = ''between'' then
       (case (se_start sel, se_end sel) of
          (Some s, Some e) \<Rightarrow> (case validate_selection_target g s of
            Some err \<Rightarrow> Inl err
          | None \<Rightarrow> (case validate_selection_target g e of
              Some err \<Rightarrow> Inl err
            | None \<Rightarrow> (case names_between s e False names of
                None \<Rightarrow> Inl (End_not_after e s)
              | Some ns \<Rightarrow> dependency_closure it g ns)))
        | _ \<Rightarrow> Inl Missing_bound)
     else if kind = ''upstream_of'' then
       (case se_end sel of None \<Rightarrow> Inl Missing_bound | Some e \<Rightarrow> run_one_selection it g e)
     else if kind = ''downstream_of'' then
       (case se_start sel of
          None \<Rightarrow> Inl Missing_bound
        | Some s \<Rightarrow> (case validate_selection_target g s of
            Some err \<Rightarrow> Inl err
          | None \<Rightarrow> Inr (downstream_names it g s)))
     else if kind = ''matching'' then
       (case matching_names (se_tags sel) (gr_nodes g) of
          None \<Rightarrow> Inl Bad_tags
        | Some ms \<Rightarrow> if ms = [] then Inr [] else dependency_closure it g ms)
     else Inl (Unknown_kind kind))"

text \<open>The selection as the planner receives it.\<close>

datatype plan_selection = Run_until string | Run_one string | Plan_nodes "string list"

definition to_plan_selection :: "set_order \<Rightarrow> run_selection \<Rightarrow> graph \<Rightarrow> selection_error + plan_selection" where
  "to_plan_selection it sel g = (case resolve_selection it sel g of
     Inl e \<Rightarrow> Inl e
   | Inr selected \<Rightarrow> Inr (case (se_kind sel = ''until'', se_end sel) of
       (True, Some e) \<Rightarrow> Run_until e
     | _ \<Rightarrow> if se_kind sel \<in> {''only'', ''upstream_of''} \<and> length (se_nodes sel) = 1 then Run_one (hd (se_nodes sel))
         else (case (se_kind sel = ''upstream_of'', se_end sel) of
           (True, Some e) \<Rightarrow> Run_one e
         | _ \<Rightarrow> Plan_nodes selected)))"

subsection \<open>Repair and invalidation\<close>

definition minimum_safe_repair :: "set_order \<Rightarrow> string list \<Rightarrow> adjacency \<Rightarrow> string list" where
  "minimum_safe_repair it failed downstream = sort (remdups (affected_loop it downstream failed (it failed)))"

datatype invalidation_mode = Inv_none | Inv_target | Inv_downstream | Inv_closure

definition invalidation_targets :: "set_order \<Rightarrow> string list \<Rightarrow> string \<Rightarrow> invalidation_mode \<Rightarrow> adjacency \<Rightarrow> string list" where
  "invalidation_targets it graph_nodes target mode downstream = (case mode of
     Inv_none \<Rightarrow> []
   | Inv_target \<Rightarrow> [target]
   | Inv_downstream \<Rightarrow> affected_loop it downstream [target] [target]
   | Inv_closure \<Rightarrow> if target \<notin> set graph_nodes then [target]
       else dropWhile (\<lambda>n. n \<noteq> target) graph_nodes)"

text \<open>The names whose artifacts a run drops before it starts; \<open>selected\<close> is what the plan selects.\<close>

definition invalidated_names :: "set_order \<Rightarrow> graph \<Rightarrow> string list \<Rightarrow> invalidation_mode \<Rightarrow> string list" where
  "invalidated_names it g selected mode = (if mode = Inv_none then []
     else fold (\<lambda>name targets. targets @ invalidation_targets it (node_names g) name mode (consumers_of g))
       (if selected = [] then node_names g else selected) [])"

subsection \<open>The loops compute reachability\<close>

definition step_rel :: "set_order \<Rightarrow> adjacency \<Rightarrow> (string \<times> string) set" where
  "step_rel it d = {(n, m). m \<in> set (visits it d n)}"

lemma step_rel_adj: "iterates it \<Longrightarrow> step_rel it d = adj_rel d"
  by (auto simp: step_rel_def adj_rel_def visits_def successors_def iterates_def split: option.splits)

lemma closure_loop_sets:
  "step_rel it d `` set seen \<subseteq> set seen \<union> set stack \<Longrightarrow>
   set (closure_loop it d seen stack) = (step_rel it d)\<^sup>* `` (set seen \<union> set stack)"
proof (induction it d seen stack rule: closure_loop.induct)
  case (1 it d seen stack)
  let ?E = "step_rel it d"
  show ?case
  proof (cases "stack = []")
    case True
    then have "?E\<^sup>* `` set seen = set seen" using 1(3) by (simp add: Image_closed_trancl)
    then show ?thesis using True by (simp add: closure_loop.simps)
  next
    case False
    define n rest where "n = last stack" and "rest = butlast stack"
    have st: "stack = rest @ [n]" using False by (simp add: n_def rest_def)
    show ?thesis
    proof (cases "n \<in> set seen")
      case True
      then have "set seen \<union> set rest = set seen \<union> set stack" using st by auto
      then show ?thesis
        using 1(1)[OF False n_def rest_def True] 1(3) False True
        by (subst closure_loop.simps) (simp add: Let_def n_def[symmetric] rest_def[symmetric])
    next
      case new: False
      let ?push = "rest @ filter (\<lambda>m. m \<notin> set (n # seen)) (visits it d n)"
      have succ: "?E `` {n} = set (visits it d n)" by (auto simp: step_rel_def)
      have "?E `` set (n # seen) \<subseteq> set (n # seen) \<union> set ?push" using 1(3) succ st by auto
      from 1(2)[OF False n_def rest_def new this]
      have "set (closure_loop it d (n # seen) ?push) = ?E\<^sup>* `` (set (n # seen) \<union> set ?push)" .
      moreover have "set (n # seen) \<union> set ?push = set seen \<union> set stack \<union> ?E `` {n}" using succ st by auto
      moreover have "?E\<^sup>* `` (set seen \<union> set stack \<union> ?E `` {n}) = ?E\<^sup>* `` (set seen \<union> set stack)"
        using st by (auto simp: Image_def intro: converse_rtrancl_into_rtrancl)
      ultimately show ?thesis using False new
        by (subst closure_loop.simps) (simp add: Let_def n_def[symmetric] rest_def[symmetric])
    qed
  qed
qed

lemma affected_loop_sets:
  "set stack \<subseteq> set affected \<Longrightarrow> step_rel it d `` (set affected - set stack) \<subseteq> set affected \<Longrightarrow>
   set (affected_loop it d affected stack) = (step_rel it d)\<^sup>* `` set affected"
proof (induction it d affected stack rule: affected_loop.induct)
  case (1 it d affected stack)
  let ?E = "step_rel it d"
  show ?case
  proof (cases "stack = []")
    case True
    then have "?E\<^sup>* `` set affected = set affected" using 1(3) by (simp add: Image_closed_trancl)
    then show ?thesis using True by (simp add: affected_loop.simps)
  next
    case False
    define n rest where "n = last stack" and "rest = butlast stack"
    have st: "stack = rest @ [n]" using False by (simp add: n_def rest_def)
    have succ: "?E `` {n} = set (visits it d n)" by (auto simp: step_rel_def)
    obtain aff' stack' where m: "mark_new (visits it d n) (affected, rest) = (aff', stack')" by fastforce
    have a: "set aff' = set affected \<union> ?E `` {n}" "set stack' = set rest \<union> (?E `` {n} - set affected)"
      using mark_new_sets[OF m] succ by auto
    have sub: "set stack' \<subseteq> set aff'" using a 1(2) st by auto
    have closed: "?E `` (set aff' - set stack') \<subseteq> set aff'"
    proof
      fix y assume "y \<in> ?E `` (set aff' - set stack')"
      then obtain x where x: "x \<in> set aff'" "x \<notin> set stack'" "(x, y) \<in> ?E" by auto
      then have xa: "x \<in> set affected" "x \<notin> set rest" using a by auto
      show "y \<in> set aff'"
      proof (cases "x = n")
        case True
        then show ?thesis using x a by auto
      next
        case False
        then have "x \<notin> set stack" using xa st by auto
        then show ?thesis using 1(3) xa x a by auto
      qed
    qed
    have "set (affected_loop it d aff' stack') = ?E\<^sup>* `` set aff'"
      using 1(1)[OF False m[unfolded n_def rest_def, symmetric] sub closed] .
    also have "\<dots> = ?E\<^sup>* `` set affected"
    proof -
      have "n \<in> set affected" using 1(2) st by auto
      then show ?thesis unfolding a by (auto simp: Image_def intro: converse_rtrancl_into_rtrancl)
    qed
    finally show ?thesis using False m
      by (subst affected_loop.simps) (simp add: n_def rest_def)
  qed
qed

lemma gathered:
  "set (successors (fold (\<lambda>e d. dput (h e) (add_name (f e) (successors d (h e))) d) es d) n)
   = set (successors d n) \<union> {f e | e. e \<in> set es \<and> h e = n}"
proof (induction es arbitrary: d)
  case (Cons e es)
  have "set (successors (dput (h e) (add_name (f e) (successors d (h e))) d) n)
      = set (successors d n) \<union> (if h e = n then {f e} else {})"
    by (auto simp: successors_def)
  then show ?case by (auto simp: Cons.IH)
qed simp

lemma producers_rel: "adj_rel (producers_of g) = (edge_rel g)\<inverse>"
  by (auto simp: adj_rel_def producers_of_def gathered successors_empty edge_rel_def)

lemma consumers_rel: "adj_rel (consumers_of g) = edge_rel g"
  by (auto simp: adj_rel_def consumers_of_def gathered successors_empty edge_rel_def)

lemma producers_closed:
  assumes "iterates it"
  shows "set (closure_loop it (producers_of g) [] (it ts)) = {n. \<exists>t \<in> set ts. (n, t) \<in> (edge_rel g)\<^sup>*}"
proof -
  have "set (closure_loop it (producers_of g) [] (it ts)) = ((edge_rel g)\<inverse>)\<^sup>* `` set (it ts)"
    using closure_loop_sets[of it "producers_of g" "[]" "it ts"] assms by (simp add: step_rel_adj producers_rel)
  then show ?thesis using assms by (auto simp: iterates_def rtrancl_converse)
qed

lemma downstream_closed:
  assumes "iterates it"
  shows "set (closure_loop it (consumers_of g) [] [s]) = {m. (s, m) \<in> (edge_rel g)\<^sup>*}"
  using closure_loop_sets[of it "consumers_of g" "[]" "[s]"] assms by (auto simp: step_rel_adj consumers_rel)

lemma affected_closed:
  assumes "iterates it"
  shows "set (affected_loop it (consumers_of g) ts (it ts)) = {m. \<exists>t \<in> set ts. (t, m) \<in> (edge_rel g)\<^sup>*}"
proof -
  have "set (it ts) = set ts" using assms by (simp add: iterates_def)
  then show ?thesis
    using affected_loop_sets[of "it ts" ts it "consumers_of g"] assms by (auto simp: step_rel_adj consumers_rel)
qed

lemma affected_closed_one:
  assumes "iterates it"
  shows "set (affected_loop it (consumers_of g) [t] [t]) = {m. (t, m) \<in> (edge_rel g)\<^sup>*}"
  using affected_loop_sets[of "[t]" "[t]" it "consumers_of g"] assms by (auto simp: step_rel_adj consumers_rel)

subsection \<open>What a selection contains\<close>

definition ancestors :: "graph \<Rightarrow> string list \<Rightarrow> string list" where
  "ancestors g ts = filter (\<lambda>n. \<exists>t \<in> set ts. (n, t) \<in> (edge_rel g)\<^sup>*) (node_names g)"

text \<open>
  The upstream closure of a selection is the specification by reachability: an unknown target is refused, and
  otherwise the result lists, in declaration order, exactly the nodes from which some target can be reached.
\<close>

theorem closure_is_ancestors:
  assumes "iterates it"
  shows "dependency_closure it g ts = (if \<exists>t \<in> set ts. t \<notin> set (node_names g)
     then Inl (Unknown_steps (sort (remdups (filter (\<lambda>t. t \<notin> set (node_names g)) ts))))
     else Inr (filter (\<lambda>n. \<exists>t \<in> set ts. (n, t) \<in> (edge_rel g)\<^sup>*) (node_names g)))"
  using assms by (auto simp: dependency_closure_def producers_closed filter_empty_conv Let_def)

lemma closure_ok:
  assumes "iterates it" "dependency_closure it g ts = Inr ns"
  shows "ns = ancestors g ts"
proof (cases "ts = []")
  case True
  then show ?thesis using assms by (simp add: dependency_closure_def ancestors_def)
next
  case False
  then show ?thesis using assms
    by (auto simp: dependency_closure_def ancestors_def producers_closed Let_def split: if_splits)
qed

lemma ancestors_closed:
  "e \<in> set (gr_edges g) \<Longrightarrow> ed_consumer e \<in> set (ancestors g ts) \<Longrightarrow> ed_producer e \<in> set (node_names g) \<Longrightarrow>
   ed_producer e \<in> set (ancestors g ts)"
  by (auto simp: ancestors_def edge_rel_def intro: converse_rtrancl_into_rtrancl)

lemma resolved_ancestors:
  assumes "iterates it" "resolve_selection it sel g = Inr ns" "se_kind sel \<noteq> ''until''" "se_kind sel \<noteq> ''downstream_of''"
  shows "\<exists>ts. ns = ancestors g ts"
proof -
  have all: "node_names g = ancestors g (node_names g)" by (auto simp: ancestors_def intro!: filter_True[symmetric])
  have "ancestors g [] = []" by (simp add: ancestors_def)
  then have "\<exists>ts. [] = ancestors g ts" by metis
  then show ?thesis using assms all
    by (auto simp: resolve_selection_def Let_def run_one_selection_def dest: closure_ok
        split: if_splits option.splits)
qed

text \<open>
  C34: A selection can run: for every kind of selection except the plain prefix and the plain suffix
  (\<open>until\<close> and \<open>downstream_of\<close>), what resolves is a part of the pipeline in declaration order, and the
  slice of the graph keeps every edge that feeds a selected node from a declared one.
\<close>

theorem selected_inputs_kept:
  assumes "iterates it" "resolve_selection it sel g = Inr ns" "se_kind sel \<noteq> ''until''" "se_kind sel \<noteq> ''downstream_of''"
  shows "ns = filter (\<lambda>n. n \<in> set ns) (node_names g)
    \<and> filter (\<lambda>e. ed_consumer e \<in> set ns \<and> ed_producer e \<in> set (node_names g)) (gr_edges g)
      = gr_edges (slice_graph g ns)"
proof -
  obtain ts where ns: "ns = ancestors g ts" using resolved_ancestors assms by blast
  have sub: "set ns \<subseteq> set (node_names g)" by (auto simp: ns ancestors_def)
  have "ns = filter (\<lambda>n. n \<in> set ns) (node_names g)" by (auto simp: ns ancestors_def intro!: filter_cong)
  moreover have "filter (\<lambda>e. ed_consumer e \<in> set ns \<and> ed_producer e \<in> set (node_names g)) (gr_edges g)
      = gr_edges (slice_graph g ns)"
    using ancestors_closed[of _ g ts] sub by (auto simp: slice_graph_def ns intro!: filter_cong)
  ultimately show ?thesis by blast
qed

lemma fold_append_sets: "set (fold (\<lambda>x ys. ys @ f x) xs zs) = set zs \<union> (\<Union>x \<in> set xs. set (f x))"
  by (induction xs arbitrary: zs) auto

text \<open>
  C35: What a repair or an invalidation touches.  A run that invalidates downstream drops exactly the names reachable
  from what it selects, whatever the order in which Python iterates its sets, and the minimum safe repair is the sorted
  list of the names reachable from the failed ones.
\<close>

theorem repair_reaches_dependants:
  assumes "iterates it"
  shows "set (invalidated_names it g selected Inv_downstream)
      = {m. \<exists>s \<in> set (if selected = [] then node_names g else selected). (s, m) \<in> (edge_rel g)\<^sup>*}
    \<and> minimum_safe_repair it failed (consumers_of g)
      = sorted_list_of_set {m. \<exists>f \<in> set failed. (f, m) \<in> (edge_rel g)\<^sup>*}"
proof -
  have "set (invalidated_names it g selected Inv_downstream)
      = {m. \<exists>s \<in> set (if selected = [] then node_names g else selected). (s, m) \<in> (edge_rel g)\<^sup>*}"
    using assms by (auto simp: invalidated_names_def fold_append_sets invalidation_targets_def affected_closed_one)
  moreover have "minimum_safe_repair it failed (consumers_of g)
      = sorted_list_of_set {m. \<exists>f \<in> set failed. (f, m) \<in> (edge_rel g)\<^sup>*}"
    using assms by (simp add: minimum_safe_repair_def affected_closed[symmetric] sorted_list_of_set_sort_remdups)
  ultimately show ?thesis by blast
qed

subsection \<open>A sample\<close>

definition sample_node :: "string \<Rightarrow> node" where
  "sample_node n = \<lparr>nd_name = n, nd_metadata = []\<rparr>"

definition sample_edge :: "string \<Rightarrow> string \<Rightarrow> edge" where
  "sample_edge p c = \<lparr>ed_producer = p, ed_producer_port = ''out'', ed_consumer = c, ed_consumer_port = ''in'',
     ed_producer_contract = None, ed_consumer_contract = None\<rparr>"

definition sample_pipeline :: graph where
  "sample_pipeline = \<lparr>gr_nodes = map sample_node [''raw'', ''extra'', ''clean'', ''join'', ''publish''],
     gr_edges = [sample_edge ''raw'' ''clean'', sample_edge ''clean'' ''join'', sample_edge ''extra'' ''join'',
       sample_edge ''join'' ''publish'']\<rparr>"

lemma sample_iterates: "iterates rev"
  by (simp add: iterates_def)

lemma sample_from:
  "resolve_selection rev (select_from ''join'') sample_pipeline
   = Inr [''raw'', ''extra'', ''clean'', ''join'', ''publish'']"
  "resolve_selection rev (select_only [''clean'']) sample_pipeline = Inr [''raw'', ''clean'']"
  by code_simp+

theorem closure_is_ancestors_witness:
  "filter (\<lambda>n. \<exists>t \<in> set [''clean'']. (n, t) \<in> (edge_rel sample_pipeline)\<^sup>*) (node_names sample_pipeline)
   = [''raw'', ''clean'']"
proof -
  have "dependency_closure rev sample_pipeline [''clean''] = Inr [''raw'', ''clean'']" by code_simp
  moreover have "\<not> (\<exists>t \<in> set [''clean'']. t \<notin> set (node_names sample_pipeline))" by code_simp
  ultimately show ?thesis using closure_is_ancestors[OF sample_iterates, of sample_pipeline "[''clean'']"] by simp
qed

theorem selected_inputs_kept_witness:
  "filter (\<lambda>e. ed_consumer e \<in> set [''raw'', ''clean''] \<and> ed_producer e \<in> set (node_names sample_pipeline))
     (gr_edges sample_pipeline)
   = gr_edges (slice_graph sample_pipeline [''raw'', ''clean''])"
proof -
  have "se_kind (select_only [''clean'']) \<noteq> ''until''" "se_kind (select_only [''clean'']) \<noteq> ''downstream_of''"
    by code_simp+
  from selected_inputs_kept[OF sample_iterates sample_from(2) this] show ?thesis by (rule conjunct2)
qed

theorem repair_reaches_dependants_witness:
  "minimum_safe_repair rev [''clean''] (consumers_of sample_pipeline)
   = sorted_list_of_set {m. \<exists>f \<in> set [''clean'']. (f, m) \<in> (edge_rel sample_pipeline)\<^sup>*}"
  using repair_reaches_dependants[OF sample_iterates] by blast

text \<open>
  A selection between two steps that are declared the other way round selects nothing and reports no error: the loop
  stops at the end step before it has started, so the error that the code has for this case is never raised.
\<close>

lemma names_between_known: "e \<in> set ns \<Longrightarrow> names_between s e started ns \<noteq> None"
  by (induction ns arbitrary: started) (auto simp: Let_def)

lemma names_between_early:
  "s \<notin> set xs \<Longrightarrow> e \<notin> set xs \<Longrightarrow> s \<noteq> e \<Longrightarrow> names_between s e False (xs @ e # ys) = Some []"
  by (induction xs) (auto simp: Let_def)

theorem reversed_between_selects_nothing:
  assumes "node_names g = xs @ e # ys" "s \<in> set ys" "s \<notin> set xs" "e \<notin> set xs" "s \<noteq> e"
  shows "resolve_selection it (select_between s e) g = Inr []
    \<and> resolve_selection it sel h \<noteq> Inl (End_not_after a b)"
proof -
  have "resolve_selection it (select_between s e) g = Inr []"
    using assms by (simp add: resolve_selection_def select_between_def selection_def validate_selection_target_def
        names_between_early dependency_closure_def Let_def)
  moreover have "resolve_selection it sel h \<noteq> Inl (End_not_after a b)"
    by (auto simp: resolve_selection_def Let_def validate_selection_target_def dependency_closure_def
        run_until_selection_def run_one_selection_def names_between_known split: option.splits if_splits)
  ultimately show ?thesis by blast
qed

theorem reversed_between_selects_nothing_witness:
  "resolve_selection rev (select_between ''join'' ''clean'') sample_pipeline = Inr []"
proof -
  have "node_names sample_pipeline = [''raw'', ''extra''] @ ''clean'' # [''join'', ''publish'']" by code_simp
  from reversed_between_selects_nothing[OF this, of "''join''"] show ?thesis by simp
qed

end
