(* ===== verification/Run_Policies.thy ===== *)
theory Run_Policies
  imports Run_Selection
begin

text \<open>
  The run request and the policies derived from it: the constructor of \<open>RunRequest\<close>,
  \<open>resolve_request_policies\<close> and \<open>request_setting_provenance\<close> of \<open>runtime/request.py\<close>, the write mode of a sink
  (\<open>reliability_runtime.py\<close>, \<open>runtime/lifecycle_policy.py\<close> and \<open>_effective_write_mode\<close> of the orchestrator), and the
  reliability checks.  Seconds are integers of microseconds.
\<close>

subsection \<open>Settings\<close>

text \<open>
  A value of an open settings dictionary; \<open>Real\<close> is a float in microseconds, \<open>Other\<close> any value that is neither a
  number, a string, a list nor a mapping.  The functions \<open>whole\<close> and \<open>real\<close> read a number from a string as \<open>int\<close>
  and \<open>float\<close> do.
\<close>

datatype setting =
    Absent
  | Flag bool
  | Whole int
  | Real int
  | Txt string
  | Items "setting list"
  | Table "(string \<times> setting) list"
  | Other

datatype policy_error = Bad_number | Not_strings | Unknown_explicit "string list"

definition toward_zero :: "int \<Rightarrow> int \<Rightarrow> int" where
  "toward_zero a b = (if 0 \<le> a then a div b else - ((- a) div b))"

definition py_int :: "(string \<Rightarrow> int option) \<Rightarrow> setting \<Rightarrow> policy_error + int" where
  "py_int whole v = (case v of
     Flag b \<Rightarrow> Inr (if b then 1 else 0)
   | Whole i \<Rightarrow> Inr i
   | Real q \<Rightarrow> Inr (toward_zero q 1000000)
   | Txt s \<Rightarrow> (case whole s of None \<Rightarrow> Inl Bad_number | Some i \<Rightarrow> Inr i)
   | _ \<Rightarrow> Inl Bad_number)"

definition py_float :: "(string \<Rightarrow> int option) \<Rightarrow> setting \<Rightarrow> policy_error + int" where
  "py_float real v = (case v of
     Flag b \<Rightarrow> Inr (if b then usec 1 else 0)
   | Whole i \<Rightarrow> Inr (usec i)
   | Real q \<Rightarrow> Inr q
   | Txt s \<Rightarrow> (case real s of None \<Rightarrow> Inl Bad_number | Some q \<Rightarrow> Inr q)
   | _ \<Rightarrow> Inl Bad_number)"

fun text_items :: "setting list \<Rightarrow> string list option" where
  "text_items [] = Some []"
| "text_items (Txt s # vs) = map_option ((#) s) (text_items vs)"
| "text_items (_ # vs) = None"

definition string_values :: "setting \<Rightarrow> policy_error + string list" where
  "string_values v = (case v of
     Items vs \<Rightarrow> (case text_items vs of None \<Rightarrow> Inl Not_strings | Some ss \<Rightarrow> Inr ss)
   | _ \<Rightarrow> Inl Not_strings)"

text \<open>\<open>d.get(k)\<close>, and a nested mapping of the intents.\<close>

definition setting_at :: "(string, setting) pydict \<Rightarrow> string \<Rightarrow> setting" where
  "setting_at d k = (case dget d k of None \<Rightarrow> Absent | Some v \<Rightarrow> v)"

definition setting_group :: "(string, setting) pydict \<Rightarrow> string \<Rightarrow> (string, setting) pydict" where
  "setting_group d k = (case setting_at d k of Table t \<Rightarrow> t | _ \<Rightarrow> [])"

subsection \<open>Requests\<close>

datatype run_intent = Standard | Initialize | Incremental | Refresh | Validate | Repair | Backfill | Replay | Resume
datatype materialization = Mat_default | Mat_none | Mat_eager | Mat_durable

record retry_policy =
  rp_max_attempts :: int
  rp_backoff :: int
  rp_retry_on :: "string list"

record timeout_policy =
  to_run :: "int option"
  to_step :: "int option"

record cancellation_policy =
  ca_cooperative :: bool
  ca_abandon_after :: "int option"

record run_request =
  rq_selection :: run_selection
  rq_intent :: run_intent
  rq_materialization :: materialization
  rq_retry :: retry_policy
  rq_timeout :: timeout_policy
  rq_cancellation :: cancellation_policy
  rq_parameters :: "(string, (string, setting) pydict) pydict"
  rq_assets :: "(string, string) pydict"
  rq_implementations :: "(string, string) pydict"
  rq_invalidation :: invalidation_mode
  rq_no_write :: bool
  rq_metadata :: "(string, setting) pydict"
  rq_extensions :: "(string, setting) pydict"
  rq_explicit :: "string list"

definition default_retry :: retry_policy where
  "default_retry = \<lparr>rp_max_attempts = 1, rp_backoff = 0, rp_retry_on = []\<rparr>"

definition default_timeout :: timeout_policy where
  "default_timeout = \<lparr>to_run = None, to_step = None\<rparr>"

definition default_cancellation :: cancellation_policy where
  "default_cancellation = \<lparr>ca_cooperative = True, ca_abandon_after = None\<rparr>"

definition retry_settings :: "string list" where
  "retry_settings = [''retry.max_attempts'', ''retry.backoff_seconds'', ''retry.retry_on'']"

definition timeout_settings :: "string list" where
  "timeout_settings = [''timeout.run_seconds'', ''timeout.step_seconds'']"

text \<open>
  The constructor: retry and timeout values that are given count as explicit unless the caller lists the explicit
  settings itself, and a validating run writes nothing.  \<open>base\<close> carries the arguments that are stored unchanged;
  that extensions are valid metadata is not part of the model.
\<close>

definition new_request :: "run_request \<Rightarrow> retry_policy option \<Rightarrow> timeout_policy option \<Rightarrow> string list option \<Rightarrow>
    policy_error + run_request" where
  "new_request base retry timeout explicit_settings =
     (let explicit = (case explicit_settings of
          None \<Rightarrow> (if retry \<noteq> None then retry_settings else []) @ (if timeout \<noteq> None then timeout_settings else [])
        | Some es \<Rightarrow> es);
        unknown = filter (\<lambda>k. k \<notin> set (retry_settings @ timeout_settings)) explicit in
      if unknown \<noteq> [] then Inl (Unknown_explicit (sort (remdups unknown)))
      else Inr (base\<lparr>
        rq_retry := (case retry of None \<Rightarrow> default_retry | Some r \<Rightarrow> r),
        rq_timeout := (case timeout of None \<Rightarrow> default_timeout | Some t \<Rightarrow> t),
        rq_no_write := rq_intent base = Validate \<or> rq_no_write base,
        rq_explicit := explicit\<rparr>))"

definition request_ok :: "run_request \<Rightarrow> bool" where
  "request_ok r \<longleftrightarrow> set (rq_explicit r) \<subseteq> set (retry_settings @ timeout_settings)
     \<and> (rq_intent r = Validate \<longrightarrow> rq_no_write r)"

lemma new_request_ok: "new_request base retry timeout es = Inr r \<Longrightarrow> request_ok r"
  by (auto simp: new_request_def request_ok_def Let_def filter_empty_conv split: if_splits)

subsection \<open>Profile defaults\<close>

definition profile_value :: "(string, setting) pydict \<Rightarrow> (string, setting) pydict \<Rightarrow> string \<Rightarrow> string \<Rightarrow> setting" where
  "profile_value settings grp setting_key intent_key =
     (if setting_at settings setting_key \<noteq> Absent then setting_at settings setting_key
      else if setting_at grp intent_key \<noteq> Absent then setting_at grp intent_key else Absent)"

text \<open>One field: explicit, inherited through a conversion, or the value the request has anyway.\<close>

definition choose_setting :: "bool \<Rightarrow> setting \<Rightarrow> (setting \<Rightarrow> policy_error + 'a) \<Rightarrow> 'a \<Rightarrow> policy_error + 'a" where
  "choose_setting explicit dflt convert own = (if explicit \<or> dflt = Absent then Inr own else convert dflt)"

definition effective_attempts :: "(string \<Rightarrow> int option) \<Rightarrow> run_request \<Rightarrow> (string, setting) pydict \<Rightarrow>
    (string, setting) pydict \<Rightarrow> policy_error + int" where
  "effective_attempts whole r settings intents = choose_setting (''retry.max_attempts'' \<in> set (rq_explicit r))
     (profile_value settings (setting_group intents ''retry'') ''retry_max_attempts'' ''max_attempts'')
     (\<lambda>v. case py_int whole v of Inl e \<Rightarrow> Inl e | Inr n \<Rightarrow> Inr (max 1 n)) (rp_max_attempts (rq_retry r))"

definition effective_backoff :: "(string \<Rightarrow> int option) \<Rightarrow> run_request \<Rightarrow> (string, setting) pydict \<Rightarrow>
    (string, setting) pydict \<Rightarrow> policy_error + int" where
  "effective_backoff real r settings intents = choose_setting (''retry.backoff_seconds'' \<in> set (rq_explicit r))
     (profile_value settings (setting_group intents ''retry'') ''retry_backoff_seconds'' ''backoff_seconds'')
     (py_float real) (rp_backoff (rq_retry r))"

definition effective_retry_on :: "run_request \<Rightarrow> (string, setting) pydict \<Rightarrow> policy_error + string list" where
  "effective_retry_on r intents = choose_setting (''retry.retry_on'' \<in> set (rq_explicit r))
     (setting_at (setting_group intents ''retry'') ''retry_on'') string_values (rp_retry_on (rq_retry r))"

definition optional_seconds :: "(string \<Rightarrow> int option) \<Rightarrow> setting \<Rightarrow> policy_error + int option" where
  "optional_seconds real v = (case py_float real v of Inl e \<Rightarrow> Inl e | Inr q \<Rightarrow> Inr (Some q))"

definition effective_run_seconds :: "(string \<Rightarrow> int option) \<Rightarrow> run_request \<Rightarrow> (string, setting) pydict \<Rightarrow>
    (string, setting) pydict \<Rightarrow> policy_error + int option" where
  "effective_run_seconds real r settings intents = choose_setting (''timeout.run_seconds'' \<in> set (rq_explicit r))
     (profile_value settings (setting_group intents ''timeout'') ''timeout_seconds'' ''seconds'')
     (optional_seconds real) (to_run (rq_timeout r))"

definition effective_step_seconds :: "(string \<Rightarrow> int option) \<Rightarrow> run_request \<Rightarrow> (string, setting) pydict \<Rightarrow>
    (string, setting) pydict \<Rightarrow> policy_error + int option" where
  "effective_step_seconds real r settings intents = choose_setting (''timeout.step_seconds'' \<in> set (rq_explicit r))
     (profile_value settings (setting_group intents ''timeout'') ''step_timeout_seconds'' ''step_seconds'')
     (optional_seconds real) (to_step (rq_timeout r))"

definition resolve_request_policies :: "(string \<Rightarrow> int option) \<Rightarrow> (string \<Rightarrow> int option) \<Rightarrow> run_request \<Rightarrow>
    (string, setting) pydict \<Rightarrow> (string, setting) pydict \<Rightarrow> policy_error + run_request" where
  "resolve_request_policies whole real r settings intents =
     (case effective_attempts whole r settings intents of
        Inl e \<Rightarrow> Inl e
      | Inr n \<Rightarrow> (case effective_backoff real r settings intents of
          Inl e \<Rightarrow> Inl e
        | Inr backoff \<Rightarrow> (case effective_retry_on r intents of
            Inl e \<Rightarrow> Inl e
          | Inr retry_on \<Rightarrow> (case effective_run_seconds real r settings intents of
              Inl e \<Rightarrow> Inl e
            | Inr run \<Rightarrow> (case effective_step_seconds real r settings intents of
                Inl e \<Rightarrow> Inl e
              | Inr step \<Rightarrow> new_request r
                  (Some \<lparr>rp_max_attempts = n, rp_backoff = backoff, rp_retry_on = retry_on\<rparr>)
                  (Some \<lparr>to_run = run, to_step = step\<rparr>) (Some (rq_explicit r)))))))"

subsection \<open>Provenance\<close>

definition inherited :: "(string, setting) pydict \<Rightarrow> (string, setting) pydict \<Rightarrow> string \<Rightarrow> setting \<Rightarrow> string \<Rightarrow> bool" where
  "inherited settings intents setting_key nested legacy \<longleftrightarrow>
     setting_at settings setting_key \<noteq> Absent \<or> nested \<noteq> Absent \<or> setting_at intents legacy \<noteq> Absent"

definition provenance_defaults :: "(string, setting) pydict \<Rightarrow> (string, setting) pydict \<Rightarrow> (string \<times> bool) list" where
  "provenance_defaults settings intents =
     (let retry_intent = setting_group intents ''retry''; timeout_intent = setting_group intents ''timeout'' in
     [(''retry.max_attempts'', inherited settings intents ''retry_max_attempts''
         (setting_at retry_intent ''max_attempts'') ''retry_max_attempts''),
      (''retry.backoff_seconds'', inherited settings intents ''retry_backoff_seconds''
         (setting_at retry_intent ''backoff_seconds'') ''retry_backoff_seconds''),
      (''retry.retry_on'', setting_at retry_intent ''retry_on'' \<noteq> Absent \<or> setting_at intents ''retry_on'' \<noteq> Absent),
      (''timeout.run_seconds'', inherited settings intents ''timeout_seconds''
         (setting_at timeout_intent ''seconds'') ''timeout_seconds''),
      (''timeout.step_seconds'', inherited settings intents ''step_timeout_seconds''
         (setting_at timeout_intent ''step_seconds'') ''step_timeout_seconds'')])"

definition request_or_default :: "bool \<Rightarrow> string" where
  "request_or_default changed = (if changed then ''request'' else ''runtime.default'')"

definition field_provenance :: "run_request \<Rightarrow> (string, setting) pydict \<Rightarrow> string \<Rightarrow> (string, setting) pydict \<Rightarrow>
    (string \<times> string) list" where
  "field_provenance r settings profile_name intents =
     map (\<lambda>(k, b). (''request.'' @ k, if k \<in> set (rq_explicit r) then ''request''
         else if b then ''profile:'' @ profile_name else ''runtime.default''))
       (provenance_defaults settings intents)"

definition other_provenance :: "run_request \<Rightarrow> (string \<times> string) list" where
  "other_provenance r =
     [(''request.selection'', request_or_default (rq_selection r \<noteq> selection ''all'')),
      (''request.intent'', request_or_default (rq_intent r \<noteq> Standard)),
      (''request.materialization'', request_or_default (rq_materialization r \<noteq> Mat_default)),
      (''request.cancellation'', request_or_default (rq_cancellation r \<noteq> default_cancellation)),
      (''request.parameter_overrides'', request_or_default (rq_parameters r \<noteq> [])),
      (''request.asset_overrides'', request_or_default (rq_assets r \<noteq> [])),
      (''request.implementation_overrides'', request_or_default (rq_implementations r \<noteq> [])),
      (''request.invalidation'', request_or_default (rq_invalidation r \<noteq> Inv_none)),
      (''request.no_write'', request_or_default (rq_no_write r)),
      (''request.metadata'', request_or_default (rq_metadata r \<noteq> [])),
      (''request.extensions'', request_or_default (rq_extensions r \<noteq> []))]"

text \<open>Provenance of every effective setting, written in this order and sorted by key.\<close>

definition request_setting_provenance :: "run_request \<Rightarrow> (string, setting) pydict \<Rightarrow> string \<Rightarrow>
    (string, setting) pydict \<Rightarrow> (string, string) pydict" where
  "request_setting_provenance r settings profile_name intents =
     sort_key fst (dict_of (map (\<lambda>k. (''execution_settings.'' @ k, ''profile:'' @ profile_name)) (sort (map fst settings))
       @ field_provenance r settings profile_name intents @ other_provenance r))"

subsection \<open>Write modes\<close>

datatype write_mode = W_append | W_overwrite | W_merge | W_upsert | W_skip_if_exists | W_no_write

definition write_mode_named :: "string \<Rightarrow> write_mode option" where
  "write_mode_named s = map_of [(''append'', W_append), (''overwrite'', W_overwrite), (''merge'', W_merge),
     (''upsert'', W_upsert), (''skip_if_exists'', W_skip_if_exists), (''no_write'', W_no_write)] s"

definition write_mode_for_request :: "run_request \<Rightarrow> write_mode option \<Rightarrow> write_mode" where
  "write_mode_for_request r declared =
     (if rq_no_write r \<or> rq_intent r = Validate then W_no_write
      else case declared of
        Some m \<Rightarrow> if m \<noteq> W_no_write then m
          else if rq_intent r \<in> {Initialize, Refresh} then W_overwrite
          else if rq_intent r = Incremental then W_append else W_overwrite
      | None \<Rightarrow> if rq_intent r \<in> {Initialize, Refresh} then W_overwrite
          else if rq_intent r = Incremental then W_append else W_overwrite)"

text \<open>Python's truth value of a setting, and \<open>WriteMode(str(v))\<close>: only a string spells a mode.\<close>

definition setting_truthy :: "setting \<Rightarrow> bool" where
  "setting_truthy v = (case v of Absent \<Rightarrow> False | Flag b \<Rightarrow> b | Whole i \<Rightarrow> i \<noteq> 0 | Real q \<Rightarrow> q \<noteq> 0
     | Txt s \<Rightarrow> s \<noteq> [] | Items vs \<Rightarrow> vs \<noteq> [] | Table t \<Rightarrow> t \<noteq> [] | Other \<Rightarrow> True)"

definition mode_of :: "setting \<Rightarrow> write_mode option" where
  "mode_of v = (case v of Txt s \<Rightarrow> write_mode_named s | _ \<Rightarrow> None)"

definition or_setting :: "setting \<Rightarrow> setting \<Rightarrow> setting" where
  "or_setting a b = (if setting_truthy a then a else b)"

fun intent_mode :: "(string, setting) pydict \<Rightarrow> string list \<Rightarrow> write_mode option" where
  "intent_mode intents [] = None"
| "intent_mode intents (k # ks) = (if k = [] then intent_mode intents ks
     else case dget intents k of
       None \<Rightarrow> intent_mode intents ks
     | Some e \<Rightarrow> (let mode = (case e of Table t \<Rightarrow> or_setting (setting_at t ''mode'') (setting_at t ''intent'') | _ \<Rightarrow> e) in
         if setting_truthy mode then mode_of mode else intent_mode intents ks))"

definition resolve_declared_write_mode :: "(string, setting) pydict \<Rightarrow> (string, setting) pydict \<Rightarrow> string \<Rightarrow>
    string option \<Rightarrow> write_mode option" where
  "resolve_declared_write_mode meta intents node_name binding_name =
     (let raw = or_setting (setting_at meta ''write_mode'') (setting_at meta ''write_intent'') in
      if setting_truthy raw then mode_of raw
      else intent_mode intents [node_name, of_opt binding_name, node_name @ ''.result''])"

definition effective_write_mode :: "run_request \<Rightarrow> (string, setting) pydict option \<Rightarrow> (string, setting) pydict \<Rightarrow>
    string \<Rightarrow> string option \<Rightarrow> string option \<Rightarrow> write_mode" where
  "effective_write_mode r descriptor plan_intents node_name node_binding binding_name =
     write_mode_for_request r (resolve_declared_write_mode (case descriptor of None \<Rightarrow> [] | Some m \<Rightarrow> m)
       (setting_group plan_intents ''write_intents'') node_name (or_opt binding_name node_binding))"

datatype lifecycle_action = Act_preserve | Act_refresh | Act_publish | Act_validate | Act_increment | Act_initialize

record lifecycle_policy =
  lp_subject :: string
  lp_default_action :: lifecycle_action
  lp_write_mode :: write_mode

definition resolve_lifecycle_action :: "run_intent \<Rightarrow> lifecycle_policy option \<Rightarrow> lifecycle_action" where
  "resolve_lifecycle_action i p = (case i of
     Validate \<Rightarrow> Act_validate
   | Initialize \<Rightarrow> Act_initialize
   | Refresh \<Rightarrow> Act_refresh
   | Incremental \<Rightarrow> Act_increment
   | _ \<Rightarrow> (case p of Some pol \<Rightarrow> lp_default_action pol | None \<Rightarrow> Act_publish))"

definition write_mode_for_lifecycle :: "lifecycle_action \<Rightarrow> lifecycle_policy option \<Rightarrow> write_mode" where
  "write_mode_for_lifecycle a p = (case a of
     Act_validate \<Rightarrow> W_no_write
   | Act_preserve \<Rightarrow> W_append
   | Act_increment \<Rightarrow> W_append
   | Act_refresh \<Rightarrow> W_overwrite
   | Act_initialize \<Rightarrow> W_overwrite
   | _ \<Rightarrow> (case p of Some pol \<Rightarrow> lp_write_mode pol | None \<Rightarrow> W_overwrite))"

definition may_advance_state :: "run_intent \<Rightarrow> bool \<Rightarrow> bool \<Rightarrow> bool" where
  "may_advance_state i no_write succeeded = (if \<not> succeeded then False else \<not> (no_write \<or> i = Validate))"

subsection \<open>Reliability checks\<close>

record freshness =
  fr_max_age :: "int option"
  fr_grace :: int

text \<open>Whether the data is fresh enough, and its age when it is known.\<close>

definition check_freshness :: "freshness \<Rightarrow> instant option \<Rightarrow> instant \<Rightarrow> bool \<times> int option" where
  "check_freshness f observed_at now = (case fr_max_age f of
     None \<Rightarrow> (True, None)
   | Some limit \<Rightarrow> (case observed_at of
       None \<Rightarrow> (False, None)
     | Some t \<Rightarrow> (now - t \<le> limit + fr_grace f, Some (now - t))))"

datatype partition_report = Too_few nat int | Missing_partitions "string list"

definition check_partition_completeness :: "int option \<Rightarrow> string list \<Rightarrow> string list option \<Rightarrow> partition_report option" where
  "check_partition_completeness minimum_count observed expected =
     (if minimum_count \<noteq> None \<and> int (length (remdups observed)) < the minimum_count
      then Some (Too_few (length (remdups observed)) (the minimum_count))
      else case expected of
        None \<Rightarrow> None
      | Some es \<Rightarrow> (let missing = filter (\<lambda>p. p \<notin> set observed) (remdups es) in
          if missing \<noteq> [] then Some (Missing_partitions (sort missing)) else None))"

record retry_safety =
  rs_safe :: bool
  rs_max_attempts :: "int option"

datatype retry_refusal = PMEXEC501 | PMEXEC502

definition assert_retry_safe :: "retry_safety option \<Rightarrow> int \<Rightarrow> retry_refusal option" where
  "assert_retry_safe declaration attempt = (case declaration of
     None \<Rightarrow> None
   | Some d \<Rightarrow> if \<not> rs_safe d \<and> attempt > 1 then Some PMEXEC501
       else (case rs_max_attempts d of
         None \<Rightarrow> None
       | Some m \<Rightarrow> if attempt > m then Some PMEXEC502 else None))"

subsection \<open>Resolution\<close>

lemma dget_sort_key:
  assumes "distinct (map fst d)"
  shows "dget (sort_key fst d) k = dget d k"
proof -
  have "distinct (map fst (sort_key fst d))" using assms by (simp add: distinct_map)
  then have "dget (sort_key fst d) k = Some v \<longleftrightarrow> dget d k = Some v" for v
    using assms by (simp add: dget_eq_iff_mem)
  then show ?thesis by (metis not_None_eq)
qed

text \<open>What the five choices of a resolution are.\<close>

lemma resolvedE:
  assumes "resolve_request_policies whole real r settings intents = Inr r'"
  obtains n backoff retry_on run step where
    "effective_attempts whole r settings intents = Inr n" "effective_backoff real r settings intents = Inr backoff"
    "effective_retry_on r intents = Inr retry_on" "effective_run_seconds real r settings intents = Inr run"
    "effective_step_seconds real r settings intents = Inr step"
    "filter (\<lambda>k. k \<notin> set (retry_settings @ timeout_settings)) (rq_explicit r) = []"
    "r' = r\<lparr>rq_retry := \<lparr>rp_max_attempts = n, rp_backoff = backoff, rp_retry_on = retry_on\<rparr>,
       rq_timeout := \<lparr>to_run = run, to_step = step\<rparr>, rq_no_write := rq_intent r = Validate \<or> rq_no_write r\<rparr>"
  using assms
  by (auto simp: resolve_request_policies_def Let_def new_request_def split: sum.splits if_splits)

lemmas effective_defs = effective_attempts_def effective_backoff_def effective_retry_on_def
  effective_run_seconds_def effective_step_seconds_def

lemma choose_own: "choose_setting b v convert own = Inr x \<Longrightarrow> b \<or> v = Absent \<Longrightarrow> x = own"
  by (auto simp: choose_setting_def)

definition field_source :: "run_request \<Rightarrow> (string, setting) pydict \<Rightarrow> string \<Rightarrow> (string, setting) pydict \<Rightarrow>
    string \<Rightarrow> string option" where
  "field_source r settings profile intents k =
     dget (request_setting_provenance r settings profile intents) (''request.'' @ k)"

lemma dget_dict_rev: "dget (dict_of kvs) k = map_of (rev kvs) k"
  by (simp add: dict_of_def dget_fold_dput split: option.splits)

lemma provenance_field:
  assumes "(k, b) \<in> set (provenance_defaults settings intents)"
  shows "field_source r settings profile intents k = Some (if k \<in> set (rq_explicit r) then ''request''
     else if b then ''profile:'' @ profile else ''runtime.default'')"
proof -
  have k: "k \<in> {''retry.max_attempts'', ''retry.backoff_seconds'', ''retry.retry_on'', ''timeout.run_seconds'',
      ''timeout.step_seconds''}"
    using assms by (auto simp: provenance_defaults_def Let_def)
  then have other: "map_of (rev (other_provenance r)) (''request.'' @ k) = None"
    by (elim insertE emptyE) (simp_all add: other_provenance_def)
  let ?fields = "field_provenance r settings profile intents"
  have "map fst ?fields = [''request.retry.max_attempts'', ''request.retry.backoff_seconds'',
      ''request.retry.retry_on'', ''request.timeout.run_seconds'', ''request.timeout.step_seconds'']"
    by (simp add: field_provenance_def provenance_defaults_def Let_def)
  then have "distinct (map fst (rev ?fields))" by (simp only: rev_map[symmetric] distinct_rev) simp
  moreover have "(''request.'' @ k, if k \<in> set (rq_explicit r) then ''request''
      else if b then ''profile:'' @ profile else ''runtime.default'') \<in> set (rev ?fields)"
    using assms by (force simp only: set_rev field_provenance_def set_map image_iff prod.case)
  ultimately have "map_of (rev ?fields) (''request.'' @ k)
      = Some (if k \<in> set (rq_explicit r) then ''request'' else if b then ''profile:'' @ profile else ''runtime.default'')"
    by (simp only: map_of_eq_Some_iff)
  then show ?thesis unfolding field_source_def request_setting_provenance_def
    by (simp only: dget_sort_key distinct_dict_of dget_dict_rev rev_append map_of_append map_add_def other
        option.case)
qed

lemma not_inherited:
  "\<not> inherited settings intents key (setting_at grp nested) legacy \<Longrightarrow> profile_value settings grp key nested = Absent"
  by (simp add: inherited_def profile_value_def)

lemma source_own:
  assumes "field_source r settings profile intents k \<in> {Some ''request'', Some ''runtime.default''}"
    and "(k, b) \<in> set (provenance_defaults settings intents)"
  shows "k \<in> set (rq_explicit r) \<or> \<not> b"
  using assms provenance_field[OF assms(2), of r profile] by (auto split: if_splits)

lemma defaults_of:
  "(''retry.max_attempts'', inherited settings intents ''retry_max_attempts''
      (setting_at (setting_group intents ''retry'') ''max_attempts'') ''retry_max_attempts'')
    \<in> set (provenance_defaults settings intents)"
  "(''retry.backoff_seconds'', inherited settings intents ''retry_backoff_seconds''
      (setting_at (setting_group intents ''retry'') ''backoff_seconds'') ''retry_backoff_seconds'')
    \<in> set (provenance_defaults settings intents)"
  "(''retry.retry_on'', setting_at (setting_group intents ''retry'') ''retry_on'' \<noteq> Absent
      \<or> setting_at intents ''retry_on'' \<noteq> Absent) \<in> set (provenance_defaults settings intents)"
  "(''timeout.run_seconds'', inherited settings intents ''timeout_seconds''
      (setting_at (setting_group intents ''timeout'') ''seconds'') ''timeout_seconds'')
    \<in> set (provenance_defaults settings intents)"
  "(''timeout.step_seconds'', inherited settings intents ''step_timeout_seconds''
      (setting_at (setting_group intents ''timeout'') ''step_seconds'') ''step_timeout_seconds'')
    \<in> set (provenance_defaults settings intents)"
  unfolding provenance_defaults_def Let_def by (simp_all only: list.set insert_iff simp_thms)

text \<open>
  C36: Provenance tells the truth about what the plan did not decide.  The two computations are separate: one resolves the
  retry and timeout settings of a request against the plan, the other reports where each setting came from.
  Whenever the report attributes a setting to the request (which is so for every setting given explicitly) or
  to the runtime's defaults, the effective request carries the request's own value, whatever the plan says.
\<close>

theorem provenance_truthful:
  assumes "resolve_request_policies whole real r settings intents = Inr r'"
    and "k \<in> {''retry.max_attempts'', ''retry.backoff_seconds'', ''retry.retry_on'', ''timeout.run_seconds'',
      ''timeout.step_seconds''}"
    and "field_source r settings profile intents k \<in> {Some ''request'', Some ''runtime.default''}"
  shows "(k = ''retry.max_attempts'' \<longrightarrow> rp_max_attempts (rq_retry r') = rp_max_attempts (rq_retry r))
    \<and> (k = ''retry.backoff_seconds'' \<longrightarrow> rp_backoff (rq_retry r') = rp_backoff (rq_retry r))
    \<and> (k = ''retry.retry_on'' \<longrightarrow> rp_retry_on (rq_retry r') = rp_retry_on (rq_retry r))
    \<and> (k = ''timeout.run_seconds'' \<longrightarrow> to_run (rq_timeout r') = to_run (rq_timeout r))
    \<and> (k = ''timeout.step_seconds'' \<longrightarrow> to_step (rq_timeout r') = to_step (rq_timeout r))"
  using assms(1)
proof (rule resolvedE)
  fix n backoff retry_on run step
  assume c: "effective_attempts whole r settings intents = Inr n" "effective_backoff real r settings intents = Inr backoff"
    "effective_retry_on r intents = Inr retry_on" "effective_run_seconds real r settings intents = Inr run"
    "effective_step_seconds real r settings intents = Inr step"
    and r': "r' = r\<lparr>rq_retry := \<lparr>rp_max_attempts = n, rp_backoff = backoff, rp_retry_on = retry_on\<rparr>,
       rq_timeout := \<lparr>to_run = run, to_step = step\<rparr>, rq_no_write := rq_intent r = Validate \<or> rq_no_write r\<rparr>"
  have own: "(k, b) \<in> set (provenance_defaults settings intents) \<Longrightarrow> k \<in> set (rq_explicit r) \<or> \<not> b" for b
    using source_own[OF assms(3)] .
  have "n = rp_max_attempts (rq_retry r)" if "k = ''retry.max_attempts''"
    using own[unfolded that, OF defaults_of(1)] c(1)[unfolded effective_attempts_def]
    by (blast intro: choose_own not_inherited)
  moreover have "backoff = rp_backoff (rq_retry r)" if "k = ''retry.backoff_seconds''"
    using own[unfolded that, OF defaults_of(2)] c(2)[unfolded effective_backoff_def]
    by (blast intro: choose_own not_inherited)
  moreover have "retry_on = rp_retry_on (rq_retry r)" if "k = ''retry.retry_on''"
    using own[unfolded that, OF defaults_of(3)] c(3)[unfolded effective_retry_on_def]
    by (blast intro: choose_own)
  moreover have "run = to_run (rq_timeout r)" if "k = ''timeout.run_seconds''"
    using own[unfolded that, OF defaults_of(4)] c(4)[unfolded effective_run_seconds_def]
    by (blast intro: choose_own not_inherited)
  moreover have "step = to_step (rq_timeout r)" if "k = ''timeout.step_seconds''"
    using own[unfolded that, OF defaults_of(5)] c(5)[unfolded effective_step_seconds_def]
    by (blast intro: choose_own not_inherited)
  ultimately show ?thesis by (simp add: r')
qed

text \<open>
  The converse fails for top-level intents: \<open>request_setting_provenance\<close> also looks for the setting as a plain
  intent, which \<open>resolve_request_policies\<close> never reads.  The provenance then names the profile for a value that
  came from the request's defaults.
\<close>

theorem provenance_of_plain_intent:
  assumes "resolve_request_policies whole real r settings intents = Inr r'"
    and "''retry.max_attempts'' \<notin> set (rq_explicit r)" "setting_at settings ''retry_max_attempts'' = Absent"
    and "setting_at (setting_group intents ''retry'') ''max_attempts'' = Absent"
    and "setting_at intents ''retry_max_attempts'' \<noteq> Absent"
  shows "field_source r settings profile intents ''retry.max_attempts'' = Some (''profile:'' @ profile)
    \<and> rp_max_attempts (rq_retry r') = rp_max_attempts (rq_retry r)"
proof -
  have "field_source r settings profile intents ''retry.max_attempts'' = Some (''profile:'' @ profile)"
    using provenance_field[OF defaults_of(1), of r settings profile intents] assms(2-) by (simp add: inherited_def)
  moreover obtain n where "effective_attempts whole r settings intents = Inr n" "rp_max_attempts (rq_retry r') = n"
    using assms(1) by (auto elim: resolvedE)
  moreover have "profile_value settings (setting_group intents ''retry'') ''retry_max_attempts'' ''max_attempts'' = Absent"
    using assms(3,4) by (simp add: profile_value_def)
  ultimately show ?thesis by (auto simp: effective_attempts_def choose_setting_def)
qed

subsection \<open>Writes and incremental state\<close>

lemma write_mode_no_write: "write_mode_for_request r d = W_no_write \<longleftrightarrow> rq_no_write r \<or> rq_intent r = Validate"
  by (auto simp: write_mode_for_request_def split: option.splits)

text \<open>
  A run advances incremental state exactly when it succeeds and its sinks write: whatever a binding or the plan
  declares, the effective write mode of a sink is ``no write'' exactly for a run that may not advance state.
\<close>

theorem state_advances_with_writes:
  "may_advance_state (rq_intent r) (rq_no_write r \<or> write_mode_for_request r None = W_no_write) succeeded
   = (succeeded \<and> effective_write_mode r descriptor plan_intents n b binding \<noteq> W_no_write)"
  by (auto simp: may_advance_state_def effective_write_mode_def write_mode_no_write)

text \<open>
  A sink that is declared \<open>no_write\<close>, on its binding or in the plan, is written: the declaration is dropped and the
  mode is the default of the intent, which overwrites except for incremental runs.
\<close>

theorem declared_no_write_dropped:
  assumes "rq_intent r \<noteq> Validate" "\<not> rq_no_write r" "rq_intent r \<noteq> Incremental"
    and "setting_at meta ''write_mode'' = Txt ''no_write''"
  shows "effective_write_mode r (Some meta) plan_intents n b binding = W_overwrite"
proof -
  have "resolve_declared_write_mode meta (setting_group plan_intents ''write_intents'') n (or_opt binding b)
      = Some W_no_write"
    using assms(4)
    by (simp add: resolve_declared_write_mode_def Let_def or_setting_def setting_truthy_def mode_of_def write_mode_named_def)
  then show ?thesis using assms(1-3) by (simp add: effective_write_mode_def write_mode_for_request_def)
qed

text \<open>
  The lifecycle route to a write mode agrees with the request route: without a declaration, a policy or a no-write flag both
  give the same mode for every intent.
\<close>

theorem lifecycle_write_mode_agrees:
  "\<not> rq_no_write r \<Longrightarrow>
   write_mode_for_lifecycle (resolve_lifecycle_action (rq_intent r) None) None = write_mode_for_request r None"
  by (cases "rq_intent r")
     (simp_all add: write_mode_for_lifecycle_def resolve_lifecycle_action_def write_mode_for_request_def)

subsection \<open>A sample\<close>

definition sample_request :: run_request where
  "sample_request = \<lparr>rq_selection = selection ''all'', rq_intent = Standard, rq_materialization = Mat_default,
     rq_retry = default_retry, rq_timeout = default_timeout, rq_cancellation = default_cancellation,
     rq_parameters = [], rq_assets = [], rq_implementations = [], rq_invalidation = Inv_none, rq_no_write = False,
     rq_metadata = [], rq_extensions = [], rq_explicit = [''timeout.run_seconds'']\<rparr>"

definition sample_settings :: "(string, setting) pydict" where
  "sample_settings = [(''retry_max_attempts'', Whole 0), (''timeout_seconds'', Whole 30)]"

definition sample_intents :: "(string, setting) pydict" where
  "sample_intents = [(''retry'', Table [(''max_attempts'', Whole 4), (''retry_on'', Items [Txt ''timeout''])])]"

abbreviation no_number :: "string \<Rightarrow> int option" where
  "no_number \<equiv> \<lambda>_. None"

lemma sample_resolved:
  "resolve_request_policies no_number no_number sample_request sample_settings sample_intents
   = Inr (sample_request\<lparr>rq_retry := \<lparr>rp_max_attempts = 1, rp_backoff = 0, rp_retry_on = [''timeout'']\<rparr>\<rparr>)"
  by code_simp

lemma sample_legacy:
  "resolve_request_policies no_number no_number sample_request [] [(''retry_max_attempts'', Whole 3)] = Inr sample_request"
  by code_simp

theorem provenance_truthful_witness:
  "to_run (rq_timeout (sample_request\<lparr>rq_retry := \<lparr>rp_max_attempts = 1, rp_backoff = 0, rp_retry_on = [''timeout'']\<rparr>\<rparr>))
   = to_run (rq_timeout sample_request)"
proof -
  have src: "field_source sample_request sample_settings ''dev'' sample_intents ''timeout.run_seconds''
      \<in> {Some ''request'', Some ''runtime.default''}"
    by (simp add: provenance_field[OF defaults_of(4)] sample_request_def)
  have known: "''timeout.run_seconds'' \<in> {''retry.max_attempts'', ''retry.backoff_seconds'', ''retry.retry_on'',
      ''timeout.run_seconds'', ''timeout.step_seconds''}"
    by simp
  show ?thesis
    using provenance_truthful[OF sample_resolved known src, THEN conjunct2, THEN conjunct2, THEN conjunct2, THEN conjunct1]
    by (rule mp) (rule refl)
qed

theorem provenance_of_plain_intent_witness:
  "field_source sample_request [] ''dev'' [(''retry_max_attempts'', Whole 3)] ''retry.max_attempts'' = Some ''profile:dev''
   \<and> rp_max_attempts (rq_retry sample_request) = 1"
proof -
  have "''retry.max_attempts'' \<notin> set (rq_explicit sample_request)" "setting_at [] ''retry_max_attempts'' = Absent"
    "setting_at (setting_group [(''retry_max_attempts'', Whole 3)] ''retry'') ''max_attempts'' = Absent"
    "setting_at [(''retry_max_attempts'', Whole 3)] ''retry_max_attempts'' \<noteq> Absent"
    by code_simp+
  from provenance_of_plain_intent[OF sample_legacy this, of "''dev''"]
  show ?thesis by (simp add: sample_request_def default_retry_def)
qed

theorem declared_no_write_dropped_witness:
  "effective_write_mode sample_request (Some [(''write_mode'', Txt ''no_write'')]) [] ''sink'' None None = W_overwrite"
  by (rule declared_no_write_dropped) (simp_all add: sample_request_def setting_at_def)

end
