(* ===== verification/Incremental_State.thy ===== *)
theory Incremental_State
  imports Run_Policies Civil_Time
begin

text \<open>
  Incremental cursors (\<open>runtime/incremental.py\<close>): the memory store and the JSON file store.  The contract both promise to
  a run, that a commit of several cursors happens as a whole and that staging changes nothing that is committed, is the
  locale \<open>state_store\<close>; both stores are interpretations of it, and the same calls make them agree.
  The file is modelled by what its text parses to; writing it sorts every object by key.
\<close>

subsection \<open>Cursors and updates\<close>

record cursor =
  cu_subject :: string
  cu_value :: json
  cu_updated_at :: "instant option"
  cu_metadata :: json

record transition =
  tr_subject :: string
  tr_from :: json
  tr_to :: string
  tr_at :: instant
  tr_reason :: string

datatype state_error = Empty_update | Blank_subject | File_unreadable | File_invalid | Bad_metadata

text \<open>A commit: for each subject the new value and a reason.\<close>

type_synonym updates = "(string, string option \<times> string option) pydict"

definition validate_state_updates :: "updates \<Rightarrow> state_error option" where
  "validate_state_updates u = (if u = [] then Some Empty_update
     else if list_ex (\<lambda>(k, _). blank k) u then Some Blank_subject else None)"

definition transition_for :: "json \<Rightarrow> instant \<Rightarrow> string \<Rightarrow> string option \<times> string option \<Rightarrow> transition" where
  "transition_for previous now k vr = \<lparr>tr_subject = k, tr_from = previous, tr_to = of_opt (fst vr), tr_at = now,
     tr_reason = (case snd vr of None \<Rightarrow> ''commit'' | Some r \<Rightarrow> if r = [] then ''commit'' else r)\<rparr>"

subsection \<open>The memory store\<close>

record memory_state =
  ms_committed :: "(string, cursor) pydict"
  ms_proposed :: "(string, cursor) pydict"

definition new_memory_state :: memory_state where
  "new_memory_state = \<lparr>ms_committed = [], ms_proposed = []\<rparr>"

definition fresh_cursor :: "string \<Rightarrow> string option \<Rightarrow> instant \<Rightarrow> cursor" where
  "fresh_cursor k v now = \<lparr>cu_subject = k, cu_value = opt_json v, cu_updated_at = Some now, cu_metadata = JMap []\<rparr>"

definition memory_get :: "memory_state \<Rightarrow> string \<Rightarrow> cursor option" where
  "memory_get s k = dget (ms_committed s) k"

definition memory_propose :: "string \<Rightarrow> string option \<Rightarrow> instant \<Rightarrow> memory_state \<Rightarrow> memory_state" where
  "memory_propose k v now s = s\<lparr>ms_proposed := dput k (fresh_cursor k v now) (ms_proposed s)\<rparr>"

definition memory_previous :: "memory_state \<Rightarrow> string \<Rightarrow> json" where
  "memory_previous s k = (case dget (ms_committed s) k of
     None \<Rightarrow> JStr [] | Some c \<Rightarrow> if cu_value c \<noteq> JNull then cu_value c else JStr [])"

definition memory_commit_many :: "updates \<Rightarrow> instant \<Rightarrow> memory_state \<Rightarrow> (state_error + transition list) \<times> memory_state" where
  "memory_commit_many u now s = (case validate_state_updates u of
     Some e \<Rightarrow> (Inl e, s)
   | None \<Rightarrow> (Inr (map (\<lambda>(k, vr). transition_for (memory_previous s k) now k vr) (sort_key fst u)),
       fold (\<lambda>(k, v, _) s. s\<lparr>ms_committed := dput k (fresh_cursor k v now) (ms_committed s),
           ms_proposed := dpop k (ms_proposed s)\<rparr>) u s))"

definition memory_commit :: "string \<Rightarrow> string option \<Rightarrow> string option \<Rightarrow> instant \<Rightarrow> memory_state \<Rightarrow>
    (state_error + transition) \<times> memory_state" where
  "memory_commit k v reason now s = (case memory_commit_many [(k, v, reason)] now s of
     (Inl e, s') \<Rightarrow> (Inl e, s') | (Inr ts, s') \<Rightarrow> (Inr (hd ts), s'))"

definition memory_rollback :: "string \<Rightarrow> memory_state \<Rightarrow> memory_state" where
  "memory_rollback k s = s\<lparr>ms_proposed := dpop k (ms_proposed s)\<rparr>"

subsection \<open>The file store\<close>

datatype state_file = Unreadable | Parsed json

record file_state =
  fs_file :: state_file
  fs_proposed :: "(string, cursor) pydict"

text \<open>Opening a store creates an empty object when the path does not exist.\<close>

definition open_file_state :: "state_file option \<Rightarrow> file_state" where
  "open_file_state file = \<lparr>fs_file = (case file of None \<Rightarrow> Parsed (JMap []) | Some f \<Rightarrow> f), fs_proposed = []\<rparr>"

definition file_load :: "file_state \<Rightarrow> state_error + (string, json) pydict" where
  "file_load s = (case fs_file s of
     Unreadable \<Rightarrow> Inl File_unreadable
   | Parsed (JMap m) \<Rightarrow> Inr m
   | Parsed _ \<Rightarrow> Inl File_invalid)"

text \<open>\<open>read_modify_write_json_safe\<close> on an existing file: anything but an object reads as empty.\<close>

definition rewrite_file :: "((string, json) pydict \<Rightarrow> (string, json) pydict) \<Rightarrow> state_file \<Rightarrow> state_error + state_file" where
  "rewrite_file f file = (case file of
     Unreadable \<Rightarrow> Inl File_unreadable
   | Parsed (JMap m) \<Rightarrow> Inr (Parsed (materialize_wire (JMap (f m))))
   | Parsed _ \<Rightarrow> Inr (Parsed (materialize_wire (JMap (f [])))))"

definition json_field :: "json \<Rightarrow> string \<Rightarrow> json" where
  "json_field v k = (case v of JMap m \<Rightarrow> (case dget m k of None \<Rightarrow> JNull | Some w \<Rightarrow> w) | _ \<Rightarrow> JNull)"

text \<open>\<open>dict(raw.get("metadata") or {})\<close>; a list of pairs, which the store never writes, is not modelled.\<close>

definition metadata_of :: "json \<Rightarrow> state_error + json" where
  "metadata_of v = (case v of
     JMap m \<Rightarrow> Inr (JMap m)
   | JNull \<Rightarrow> Inr (JMap [])
   | JBool b \<Rightarrow> if b then Inl Bad_metadata else Inr (JMap [])
   | JInt i \<Rightarrow> if i = 0 then Inr (JMap []) else Inl Bad_metadata
   | JStr t \<Rightarrow> if t = [] then Inr (JMap []) else Inl Bad_metadata
   | JList vs \<Rightarrow> if vs = [] then Inr (JMap []) else Inl Bad_metadata)"

definition file_get :: "(string \<Rightarrow> instant option) \<Rightarrow> file_state \<Rightarrow> string \<Rightarrow> state_error + cursor option" where
  "file_get parse s k = (case file_load s of
     Inl e \<Rightarrow> Inl e
   | Inr data \<Rightarrow> (case dget data k of
       Some (JMap raw) \<Rightarrow> (case metadata_of (json_field (JMap raw) ''metadata'') of
           Inl e \<Rightarrow> Inl e
         | Inr meta \<Rightarrow> Inr (Some \<lparr>cu_subject = k, cu_value = json_field (JMap raw) ''value'',
             cu_updated_at = (case json_field (JMap raw) ''updated_at'' of
                 JStr t \<Rightarrow> if t = [] then None else parse t | _ \<Rightarrow> None),
             cu_metadata = meta\<rparr>))
     | _ \<Rightarrow> Inr None))"

definition file_propose :: "string \<Rightarrow> string option \<Rightarrow> instant \<Rightarrow> file_state \<Rightarrow> file_state" where
  "file_propose k v now s = s\<lparr>fs_proposed := dput k (fresh_cursor k v now) (fs_proposed s)\<rparr>"

definition stored_cursor :: "string option \<Rightarrow> instant \<Rightarrow> json" where
  "stored_cursor v now = JMap [(''value'', opt_json v), (''updated_at'', JStr (iso_offset now)), (''metadata'', JMap [])]"

definition merge_updates :: "updates \<Rightarrow> instant \<Rightarrow> (string, json) pydict \<Rightarrow> (string, json) pydict" where
  "merge_updates u now data = fold (\<lambda>(k, v, _) d. dput k (stored_cursor v now) d) (sort_key fst u) data"

text \<open>The value before the merge; \<open>or ""\<close> replaces a false one.\<close>

definition file_previous :: "(string, json) pydict \<Rightarrow> string \<Rightarrow> json" where
  "file_previous data k = (case dget data k of
     Some (JMap raw) \<Rightarrow> (case json_field (JMap raw) ''value'' of
         JNull \<Rightarrow> JStr [] | JBool False \<Rightarrow> JStr [] | JInt i \<Rightarrow> if i = 0 then JStr [] else JInt i
       | JList [] \<Rightarrow> JStr [] | JMap [] \<Rightarrow> JStr [] | v \<Rightarrow> v)
   | _ \<Rightarrow> JStr [])"

definition file_commit_many :: "updates \<Rightarrow> instant \<Rightarrow> file_state \<Rightarrow> (state_error + transition list) \<times> file_state" where
  "file_commit_many u now s = (case validate_state_updates u of
     Some e \<Rightarrow> (Inl e, s)
   | None \<Rightarrow> (case rewrite_file (merge_updates u now) (fs_file s) of
       Inl e \<Rightarrow> (Inl e, s)
     | Inr f \<Rightarrow> (let before = (case fs_file s of Parsed (JMap m) \<Rightarrow> m | _ \<Rightarrow> []) in
         (Inr (map (\<lambda>(k, vr). transition_for (file_previous before k) now k vr) (sort_key fst u)),
          s\<lparr>fs_file := f, fs_proposed := fold (\<lambda>(k, _) p. dpop k p) u (fs_proposed s)\<rparr>))))"

definition file_commit :: "string \<Rightarrow> string option \<Rightarrow> string option \<Rightarrow> instant \<Rightarrow> file_state \<Rightarrow>
    (state_error + transition) \<times> file_state" where
  "file_commit k v reason now s = (case file_commit_many [(k, v, reason)] now s of
     (Inl e, s') \<Rightarrow> (Inl e, s') | (Inr ts, s') \<Rightarrow> (Inr (hd ts), s'))"

definition file_rollback :: "string \<Rightarrow> file_state \<Rightarrow> file_state" where
  "file_rollback k s = s\<lparr>fs_proposed := dpop k (fs_proposed s)\<rparr>"

subsection \<open>The contract\<close>

datatype state_op =
    Op_propose string "string option" instant
  | Op_commit updates instant
  | Op_rollback string

datatype op_outcome = Staged cursor | Committed "state_error + transition list" | Rolled_back

text \<open>What a store promises, on the committed values alone.\<close>

definition shown :: "json option \<Rightarrow> json" where
  "shown v = (case v of None \<Rightarrow> JStr [] | Some w \<Rightarrow> if w = JNull then JStr [] else w)"

fun spec_step :: "state_op \<Rightarrow> (string \<Rightarrow> json option) \<Rightarrow> op_outcome \<times> (string \<Rightarrow> json option)" where
  "spec_step (Op_propose k v now) f = (Staged (fresh_cursor k v now), f)"
| "spec_step (Op_commit u now) f = (case validate_state_updates u of
     Some e \<Rightarrow> (Committed (Inl e), f)
   | None \<Rightarrow> (Committed (Inr (map (\<lambda>(k, vr). transition_for (shown (f k)) now k vr) (sort_key fst u))),
       \<lambda>k. case dget u k of None \<Rightarrow> f k | Some (v, _) \<Rightarrow> Some (opt_json v)))"
| "spec_step (Op_rollback k) f = (Rolled_back, f)"

fun op_ok :: "state_op \<Rightarrow> bool" where
  "op_ok (Op_commit u now) = distinct (map fst u)"
| "op_ok _ = True"

fun run_ops :: "(state_op \<Rightarrow> 's \<Rightarrow> op_outcome \<times> 's) \<Rightarrow> state_op list \<Rightarrow> 's \<Rightarrow> op_outcome list \<times> 's" where
  "run_ops step [] s = ([], s)"
| "run_ops step (op # ops) s = (case step op s of (out, s') \<Rightarrow>
     (case run_ops step ops s' of (outs, s'') \<Rightarrow> (out # outs, s'')))"

locale state_store =
  fixes step :: "state_op \<Rightarrow> 's \<Rightarrow> op_outcome \<times> 's"
    and committed :: "'s \<Rightarrow> string \<Rightarrow> json option"
    and ok :: "'s \<Rightarrow> bool"
  assumes implements: "ok s \<Longrightarrow> op_ok op \<Longrightarrow>
      spec_step op (committed s) = (fst (step op s), committed (snd (step op s)))"
    and keeps_ok: "ok s \<Longrightarrow> op_ok op \<Longrightarrow> ok (snd (step op s))"
begin

lemma run_implements:
  "ok s \<Longrightarrow> list_all op_ok ops \<Longrightarrow>
   run_ops spec_step ops (committed s) = (fst (run_ops step ops s), committed (snd (run_ops step ops s)))
   \<and> ok (snd (run_ops step ops s))"
proof (induction ops arbitrary: s)
  case (Cons op ops)
  then show ?case using implements[of s op] keeps_ok[of s op] Cons.IH[of "snd (step op s)"]
    by (simp add: case_prod_unfold)
qed simp

text \<open>A commit happens as a whole or not at all.\<close>

lemma commit_whole:
  assumes "ok s" "distinct (map fst u)"
  shows "(\<exists>e. fst (step (Op_commit u now) s) = Committed (Inl e) \<and> committed (snd (step (Op_commit u now) s)) = committed s)
    \<or> (\<forall>k. committed (snd (step (Op_commit u now) s)) k
        = (case dget u k of None \<Rightarrow> committed s k | Some (v, _) \<Rightarrow> Some (opt_json v)))"
proof (cases "validate_state_updates u")
  case None
  then have "committed (snd (step (Op_commit u now) s))
      = (\<lambda>k. case dget u k of None \<Rightarrow> committed s k | Some (v, _) \<Rightarrow> Some (opt_json v))"
    using implements[of s "Op_commit u now"] assms by simp
  then show ?thesis by (auto simp only:)
next
  case (Some e)
  then have "fst (step (Op_commit u now) s) = Committed (Inl e)" "committed (snd (step (Op_commit u now) s)) = committed s"
    using implements[of s "Op_commit u now"] assms by simp_all
  then show ?thesis by blast
qed

end

subsection \<open>The memory store implements it\<close>

fun memory_step :: "state_op \<Rightarrow> memory_state \<Rightarrow> op_outcome \<times> memory_state" where
  "memory_step (Op_propose k v now) s = (Staged (fresh_cursor k v now), memory_propose k v now s)"
| "memory_step (Op_commit u now) s = (case memory_commit_many u now s of (r, s') \<Rightarrow> (Committed r, s'))"
| "memory_step (Op_rollback k) s = (Rolled_back, memory_rollback k s)"

definition memory_value :: "memory_state \<Rightarrow> string \<Rightarrow> json option" where
  "memory_value s k = map_option cu_value (memory_get s k)"

lemma memory_previous_shown: "memory_previous s k = shown (memory_value s k)"
  by (auto simp: memory_previous_def shown_def memory_value_def memory_get_def split: option.splits)

lemma memory_merge_value:
  "distinct (map fst u) \<Longrightarrow>
   memory_value (fold (\<lambda>(k, v, _) s. s\<lparr>ms_committed := dput k (fresh_cursor k v now) (ms_committed s),
       ms_proposed := dpop k (ms_proposed s)\<rparr>) u s) k
   = (case dget u k of None \<Rightarrow> memory_value s k | Some (v, _) \<Rightarrow> Some (opt_json v))"
proof (induction u arbitrary: s)
  case (Cons p u)
  obtain j v r where p: "p = (j, v, r)" by (cases p)
  have "dget u j = None" using Cons.prems p by (simp add: dget_None_iff)
  then show ?case using Cons by (auto simp: p memory_value_def memory_get_def fresh_cursor_def split: option.splits)
qed simp

interpretation in_memory: state_store memory_step memory_value "\<lambda>_. True"
proof
  fix s op assume "op_ok op"
  then show "spec_step op (memory_value s) = (fst (memory_step op s), memory_value (snd (memory_step op s)))"
    by (cases op) (auto simp: memory_propose_def memory_rollback_def memory_value_def[of "_\<lparr>ms_proposed := _\<rparr>"]
        memory_value_def[of s] memory_get_def memory_commit_many_def memory_previous_shown memory_merge_value
        split: option.splits)
qed simp

subsection \<open>The file store implements it\<close>

fun file_step :: "state_op \<Rightarrow> file_state \<Rightarrow> op_outcome \<times> file_state" where
  "file_step (Op_propose k v now) s = (Staged (fresh_cursor k v now), file_propose k v now s)"
| "file_step (Op_commit u now) s = (case file_commit_many u now s of (r, s') \<Rightarrow> (Committed r, s'))"
| "file_step (Op_rollback k) s = (Rolled_back, file_rollback k s)"

definition entry_value :: "json option \<Rightarrow> json option" where
  "entry_value e = (case e of Some (JMap raw) \<Rightarrow> Some (json_field (JMap raw) ''value'') | _ \<Rightarrow> None)"

definition file_rows :: "file_state \<Rightarrow> (string, json) pydict" where
  "file_rows s = (case fs_file s of Parsed (JMap m) \<Rightarrow> m | _ \<Rightarrow> [])"

definition file_value :: "file_state \<Rightarrow> string \<Rightarrow> json option" where
  "file_value s k = entry_value (dget (file_rows s) k)"

text \<open>The rows the store writes.\<close>

definition cursor_row :: "json \<Rightarrow> bool" where
  "cursor_row v \<longleftrightarrow> (\<exists>raw. v = JMap raw \<and> distinct (map fst raw)) \<and> json_field v ''metadata'' = JMap []
     \<and> (json_field v ''value'' = JNull \<or> (\<exists>t. json_field v ''value'' = JStr t))"

definition rows_ok :: "(string, json) pydict \<Rightarrow> bool" where
  "rows_ok m \<longleftrightarrow> distinct (map fst m) \<and> (\<forall>k v. dget m k = Some v \<longrightarrow> cursor_row v)"

definition file_ok :: "file_state \<Rightarrow> bool" where
  "file_ok s \<longleftrightarrow> fs_file s = Parsed (JMap (file_rows s)) \<and> rows_ok (file_rows s)"

definition wire_rows :: "(string, json) pydict \<Rightarrow> (string, json) pydict" where
  "wire_rows m = sort_key fst (dmap (\<lambda>_. materialize_wire) m)"

lemma materialize_rows: "materialize_wire (JMap m) = JMap (wire_rows m)"
  by (simp add: wire_rows_def dmap_def)

lemma dget_wire: "distinct (map fst m) \<Longrightarrow> dget (wire_rows m) k = map_option materialize_wire (dget m k)"
  by (simp add: wire_rows_def dget_sort_key)

lemma distinct_wire: "distinct (map fst m) \<Longrightarrow> distinct (map fst (wire_rows m))"
  by (simp add: wire_rows_def distinct_map[of fst "sort_key _ _"]) (simp add: distinct_map[symmetric])

lemma field_wire:
  assumes "cursor_row v"
  shows "json_field (materialize_wire v) k = materialize_wire (json_field v k)"
proof -
  obtain raw where raw: "v = JMap raw" "distinct (map fst raw)" using assms by (auto simp: cursor_row_def)
  show ?thesis using raw
    by (simp add: materialize_rows json_field_def dget_wire del: materialize_wire.simps(1) split: option.splits)
qed

lemma cursor_row_wire:
  assumes "cursor_row v" shows "cursor_row (materialize_wire v)"
proof -
  obtain raw where raw: "v = JMap raw" "distinct (map fst raw)" using assms by (auto simp: cursor_row_def)
  have "materialize_wire v = JMap (wire_rows raw) \<and> distinct (map fst (wire_rows raw))"
    using raw by (simp add: materialize_rows distinct_wire del: materialize_wire.simps(1))
  then show ?thesis using assms field_wire[OF assms] by (auto simp: cursor_row_def)
qed

lemma value_wire: "cursor_row v \<Longrightarrow> entry_value (Some (materialize_wire v)) = entry_value (Some v)"
  using field_wire[of v "''value''"] by (auto simp: cursor_row_def entry_value_def materialize_rows)

lemma stored_row: "cursor_row (stored_cursor v now)"
  by (auto simp: cursor_row_def stored_cursor_def json_field_def opt_json_def split: option.splits)

lemma stored_value: "entry_value (Some (stored_cursor v now)) = Some (opt_json v)"
  by (simp add: entry_value_def stored_cursor_def json_field_def)

lemma rows_ok_wire: "rows_ok m \<Longrightarrow> rows_ok (wire_rows m)"
  by (auto simp: rows_ok_def distinct_wire dget_wire intro: cursor_row_wire)

lemma dget_merge_fold:
  "distinct (map fst u) \<Longrightarrow> dget (fold (\<lambda>(k, v, _) d. dput k (stored_cursor v now) d) u m) k
   = (case dget u k of None \<Rightarrow> dget m k | Some (v, _) \<Rightarrow> Some (stored_cursor v now))"
proof (induction u arbitrary: m)
  case (Cons p u)
  obtain j v r where p: "p = (j, v, r)" by (cases p)
  have "dget u j = None" using Cons.prems p by (simp add: dget_None_iff)
  then show ?case using Cons by (auto simp: p split: option.splits)
qed simp

lemma dget_merge:
  assumes "distinct (map fst u)"
  shows "dget (merge_updates u now m) k = (case dget u k of None \<Rightarrow> dget m k | Some (v, _) \<Rightarrow> Some (stored_cursor v now))"
proof -
  have "distinct (map fst (sort_key fst u))" using assms by (simp add: distinct_map)
  then show ?thesis by (simp add: merge_updates_def dget_merge_fold dget_sort_key[OF assms])
qed

lemma distinct_merge_fold:
  "distinct (map fst m) \<Longrightarrow> distinct (map fst (fold (\<lambda>(k, v, _) d. dput k (stored_cursor v now) d) u m))"
  by (induction u arbitrary: m) (auto simp: distinct_dput)

lemma distinct_merge: "distinct (map fst m) \<Longrightarrow> distinct (map fst (merge_updates u now m))"
  unfolding merge_updates_def by (rule distinct_merge_fold)

lemma rows_ok_merge: "rows_ok m \<Longrightarrow> distinct (map fst u) \<Longrightarrow> rows_ok (merge_updates u now m)"
  by (auto simp: rows_ok_def distinct_merge dget_merge stored_row split: option.splits)

lemma file_previous_shown: "rows_ok m \<Longrightarrow> file_previous m k = shown (entry_value (dget m k))"
proof (cases "dget m k")
  case (Some v)
  assume "rows_ok m"
  then have "cursor_row v" using Some by (auto simp: rows_ok_def)
  then obtain raw where raw: "v = JMap raw" and
    val: "json_field (JMap raw) ''value'' = JNull \<or> (\<exists>t. json_field (JMap raw) ''value'' = JStr t)"
    by (auto simp: cursor_row_def)
  then show ?thesis using Some by (elim disjE exE) (simp_all add: file_previous_def shown_def entry_value_def)
qed (simp add: file_previous_def shown_def entry_value_def)

lemma file_commit_rows:
  assumes "file_ok s" "distinct (map fst u)" "validate_state_updates u = None"
  shows "file_commit_many u now s = (Inr (map (\<lambda>(k, vr). transition_for (shown (file_value s k)) now k vr) (sort_key fst u)),
      s\<lparr>fs_file := Parsed (JMap (wire_rows (merge_updates u now (file_rows s)))),
        fs_proposed := fold (\<lambda>(k, _) p. dpop k p) u (fs_proposed s)\<rparr>)"
proof -
  have f: "fs_file s = Parsed (JMap (file_rows s))" and ok: "rows_ok (file_rows s)" using assms by (auto simp: file_ok_def)
  have "rewrite_file (merge_updates u now) (fs_file s) = Inr (Parsed (JMap (wire_rows (merge_updates u now (file_rows s)))))"
    by (subst f) (simp add: rewrite_file_def materialize_rows del: materialize_wire.simps(1))
  then show ?thesis using assms(3) f
    by (simp add: file_commit_many_def file_previous_shown[OF ok] file_value_def file_rows_def[symmetric])
qed

lemma file_commit_value:
  assumes "file_ok s" "distinct (map fst u)" "validate_state_updates u = None"
  shows "file_ok (snd (file_commit_many u now s))"
    and "file_value (snd (file_commit_many u now s)) k
      = (case dget u k of None \<Rightarrow> file_value s k | Some (v, _) \<Rightarrow> Some (opt_json v))"
proof -
  let ?m = "merge_updates u now (file_rows s)"
  have rows: "rows_ok (file_rows s)" "rows_ok ?m" using assms by (auto simp: file_ok_def rows_ok_merge)
  have after: "file_rows (snd (file_commit_many u now s)) = wire_rows ?m"
    by (simp add: file_commit_rows[OF assms] file_rows_def)
  show "file_ok (snd (file_commit_many u now s))"
    using rows_ok_wire[OF rows(2)] after by (simp add: file_ok_def file_commit_rows[OF assms] file_rows_def)
  have "file_value (snd (file_commit_many u now s)) k = entry_value (map_option materialize_wire (dget ?m k))"
    using rows(2) by (simp add: file_value_def after dget_wire rows_ok_def)
  also have "\<dots> = entry_value (dget ?m k)"
    using rows(2) by (cases "dget ?m k") (simp_all add: rows_ok_def value_wire)
  also have "\<dots> = (case dget u k of None \<Rightarrow> file_value s k | Some (v, _) \<Rightarrow> Some (opt_json v))"
    by (auto simp: dget_merge[OF assms(2)] file_value_def stored_value split: option.splits)
  finally show "file_value (snd (file_commit_many u now s)) k
      = (case dget u k of None \<Rightarrow> file_value s k | Some (v, _) \<Rightarrow> Some (opt_json v))" .
qed

lemma file_rows_proposed [simp]:
  "file_rows (s\<lparr>fs_proposed := p\<rparr>) = file_rows s" "file_ok (s\<lparr>fs_proposed := p\<rparr>) = file_ok s"
  "file_value (s\<lparr>fs_proposed := p\<rparr>) = file_value s"
  by (auto simp: file_rows_def file_ok_def file_value_def)

lemma file_commit_invalid: "validate_state_updates u = Some e \<Longrightarrow> file_commit_many u now s = (Inl e, s)"
  by (simp add: file_commit_many_def)

interpretation on_file: state_store file_step file_value file_ok
proof
  fix s op assume ok: "file_ok s" "op_ok op"
  show "spec_step op (file_value s) = (fst (file_step op s), file_value (snd (file_step op s)))"
  proof (cases op)
    case (Op_commit u now)
    show ?thesis
    proof (cases "validate_state_updates u")
      case None
      have "fst (file_commit_many u now s)
          = Inr (map (\<lambda>(k, vr). transition_for (shown (file_value s k)) now k vr) (sort_key fst u))"
        using file_commit_rows[of s u now] ok None Op_commit by simp
      then show ?thesis using file_commit_value(2)[of s u now] ok None Op_commit by (auto simp: case_prod_unfold)
    qed (simp add: Op_commit file_commit_invalid)
  qed (simp_all add: file_propose_def file_rollback_def)
  show "file_ok (snd (file_step op s))"
  proof (cases op)
    case (Op_commit u now)
    then show ?thesis using ok file_commit_value(1)[of s u now]
      by (cases "validate_state_updates u") (auto simp: file_commit_invalid case_prod_unfold)
  qed (use ok in \<open>simp_all add: file_propose_def file_rollback_def\<close>)
qed

text \<open>What \<open>get\<close> returns of the file.\<close>

lemma file_get_value:
  assumes "file_ok s"
  shows "\<exists>c. file_get parse s k = Inr c \<and> map_option cu_value c = file_value s k"
proof -
  have load: "file_load s = Inr (file_rows s)" using assms by (cases "fs_file s") (auto simp: file_ok_def file_load_def)
  show ?thesis
  proof (cases "dget (file_rows s) k")
    case None
    then show ?thesis by (simp add: file_get_def load file_value_def entry_value_def)
  next
    case (Some v)
    then have "cursor_row v" using assms by (auto simp: file_ok_def rows_ok_def)
    then obtain raw where "v = JMap raw" "json_field (JMap raw) ''metadata'' = JMap []" by (auto simp: cursor_row_def)
    then show ?thesis using Some by (simp add: file_get_def load file_value_def entry_value_def metadata_of_def)
  qed
qed

lemma fresh_stores: "file_ok (open_file_state None)" "file_value (open_file_state None) = memory_value new_memory_state"
  by (auto simp: file_ok_def file_rows_def open_file_state_def rows_ok_def file_value_def entry_value_def
      memory_value_def memory_get_def new_memory_state_def)

text \<open>
  C37: The durable file store refines the memory store: the same calls, on a fresh store of each kind, give the same outcomes,
  with the same transitions of every commit and the same refusals, and afterwards both return the same committed value of
  every subject.
\<close>

theorem file_store_refines_memory:
  assumes "list_all op_ok ops"
    and "run_ops memory_step ops new_memory_state = (outs, m)"
  shows "\<exists>f. run_ops file_step ops (open_file_state None) = (outs, f)
    \<and> (\<forall>k. \<exists>c. file_get parse f k = Inr c \<and> map_option cu_value c = map_option cu_value (memory_get m k))"
proof -
  obtain outs' f where f: "run_ops file_step ops (open_file_state None) = (outs', f)" by fastforce
  have "outs' = outs" "file_value f = memory_value m" "file_ok f"
    using in_memory.run_implements[where s = new_memory_state and ops = ops] on_file.run_implements[where s = "open_file_state None" and ops = ops] assms f
    by (simp_all add: fresh_stores)
  then show ?thesis using f file_get_value[of f parse] by (auto simp: memory_value_def fun_eq_iff)
qed

text \<open>
  A file that is not an object fails closed when it is read, but a commit replaces it: what the file held is gone and the
  store reads normally again.
\<close>

theorem commit_replaces_invalid_file:
  assumes "fs_file s = Parsed v" "\<forall>m. v \<noteq> JMap m" "validate_state_updates u = None"
  shows "file_load s = Inl File_invalid
    \<and> (\<exists>ts. fst (file_commit_many u now s) = Inr ts)
    \<and> file_load (snd (file_commit_many u now s)) = Inr (wire_rows (merge_updates u now []))"
proof -
  have "rewrite_file (merge_updates u now) (fs_file s) = Inr (Parsed (JMap (wire_rows (merge_updates u now []))))"
    using assms(1,2) by (cases v) (simp_all add: rewrite_file_def materialize_rows del: materialize_wire.simps(1))
  then have "snd (file_commit_many u now s) = s\<lparr>fs_file := Parsed (JMap (wire_rows (merge_updates u now []))),
      fs_proposed := fold (\<lambda>(k, _) p. dpop k p) u (fs_proposed s)\<rparr>" "\<exists>ts. fst (file_commit_many u now s) = Inr ts"
    using assms(3) by (simp_all add: file_commit_many_def)
  moreover have "file_load s = Inl File_invalid" using assms(1,2) by (cases v) (simp_all add: file_load_def)
  ultimately show ?thesis by (simp add: file_load_def)
qed

definition sample_ops :: "state_op list" where
  "sample_ops = [Op_propose ''orders'' (Some ''7'') 5, Op_commit [(''orders'', Some ''7'', None)] 6,
     Op_commit [] 7, Op_rollback ''orders'']"

theorem file_store_refines_memory_witness:
  "\<exists>f. run_ops file_step sample_ops (open_file_state None)
      = (fst (run_ops memory_step sample_ops new_memory_state), f)
    \<and> (\<forall>k. \<exists>c. file_get (\<lambda>_. None) f k = Inr c \<and> map_option cu_value c
        = map_option cu_value (memory_get (snd (run_ops memory_step sample_ops new_memory_state)) k))"
proof (rule file_store_refines_memory)
  show "list_all op_ok sample_ops" by code_simp
qed simp

theorem commit_replaces_invalid_file_witness:
  "file_load (snd (file_commit_many [(''orders'', Some ''7'', None)] 6 (open_file_state (Some (Parsed (JList []))))))
   = Inr (wire_rows (merge_updates [(''orders'', Some ''7'', None)] 6 []))"
proof -
  have "fs_file (open_file_state (Some (Parsed (JList [])))) = Parsed (JList [])" by (simp add: open_file_state_def)
  moreover have "validate_state_updates [(''orders'', Some ''7'', None)] = None" by code_simp
  ultimately show ?thesis using commit_replaces_invalid_file by blast
qed

end
