(* ===== verification/Expansion.thy ===== *)
theory Expansion
  imports Json_Text
begin

text \<open>
  Dynamic expansion (\<open>streaming/control.py\<close>): the hard limits of a map or reduce node, and the children it expands into,
  whose identities are digests of the plan, the parent, the map key and the input snapshot.  A sequence of keys may
  answer \<open>len\<close> with one number and iterate over another; both are arguments of \<open>expand_children\<close>.
  Durations are in microseconds.
\<close>

subsection \<open>Bounds and children\<close>

datatype node_kind = K_source | K_step | K_sink | K_subpipeline | K_map | K_reduce | K_conditional | K_failure | K_compensation

definition is_control_kind :: "node_kind \<Rightarrow> bool" where
  "is_control_kind k \<longleftrightarrow> k \<in> {K_map, K_reduce, K_conditional, K_failure, K_compensation}"

record expansion_bounds =
  eb_max_children :: int
  eb_max_depth :: int
  eb_max_concurrency :: int
  eb_max_metadata_bytes :: int
  eb_max_duration :: "int option"

definition default_bounds :: expansion_bounds where
  "default_bounds = \<lparr>eb_max_children = 1024, eb_max_depth = 8, eb_max_concurrency = 32,
     eb_max_metadata_bytes = 65536, eb_max_duration = None\<rparr>"

record expansion_spec =
  es_parent_id :: string
  es_collection :: string
  es_bounds :: expansion_bounds
  es_evidence :: "(string, string) pydict"
  es_required_extras :: "string list"

record child_expansion =
  ce_identity :: string
  ce_parent_id :: string
  ce_map_key :: string
  ce_snapshot :: string
  ce_depth :: int

definition identity_payload :: "string \<Rightarrow> string \<Rightarrow> string \<Rightarrow> string \<Rightarrow> json" where
  "identity_payload plan_id parent_id map_key snapshot =
     JMap [(''plan_id'', JStr plan_id), (''parent_id'', JStr parent_id), (''map_key'', JStr map_key),
       (''input_snapshot_id'', JStr snapshot)]"

definition child_identity :: "(string \<Rightarrow> string) \<Rightarrow> string \<Rightarrow> string \<Rightarrow> string \<Rightarrow> string \<Rightarrow> string" where
  "child_identity sha256 plan_id parent_id map_key snapshot =
     sha256 (compact_json (identity_payload plan_id parent_id map_key snapshot))"

text \<open>The escaped text is ASCII, so its bytes are its characters.\<close>

definition metadata_size :: "(string, string) pydict \<Rightarrow> int" where
  "metadata_size evidence = int (length (compact_json (JMap (map (\<lambda>(k, v). (k, JStr v)) evidence))))"

datatype expansion_problem =
    Too_many_children
  | Too_deep
  | Too_much_metadata
  | Too_concurrent
  | No_duration
  | Unbounded_expansion

datatype expansion_error =
    Bounds_exhausted "expansion_problem list"
  | Keys_changed
  | Duplicate_keys

definition expansion_problems :: "expansion_spec \<Rightarrow> int \<Rightarrow> int \<Rightarrow> expansion_problem list" where
  "expansion_problems spec n depth = (let b = es_bounds spec in
     (if n > eb_max_children b then [Too_many_children] else [])
     @ (if depth > eb_max_depth b then [Too_deep] else [])
     @ (if metadata_size (es_evidence spec) > eb_max_metadata_bytes b then [Too_much_metadata] else [])
     @ (if n > eb_max_concurrency b then [Too_concurrent] else [])
     @ (case eb_max_duration b of Some d \<Rightarrow> if d \<le> 0 then [No_duration] else [] | None \<Rightarrow> [])
     @ (if n = 0 then [Unbounded_expansion] else []))"

definition expand_children :: "(string \<Rightarrow> string) \<Rightarrow> expansion_spec \<Rightarrow> nat \<Rightarrow> string list \<Rightarrow> string \<Rightarrow> string \<Rightarrow> int \<Rightarrow>
    expansion_error + child_expansion list" where
  "expand_children sha256 spec declared observed plan_id snapshot depth =
     (let problems = expansion_problems spec (int declared) depth in
      if problems \<noteq> [] then Inl (Bounds_exhausted problems)
      else (let keys = take (declared + 1) observed in
        if length keys \<noteq> declared then Inl Keys_changed
        else if length (remdups keys) \<noteq> length keys then Inl Duplicate_keys
        else Inr (map (\<lambda>key. \<lparr>ce_identity = child_identity sha256 plan_id (es_parent_id spec) key snapshot,
               ce_parent_id = es_parent_id spec, ce_map_key = key, ce_snapshot = snapshot, ce_depth = depth\<rparr>) keys)))"

subsection \<open>What an expansion yields\<close>

lemma identity_payload_inj:
  "compact_json (identity_payload a b c d) = compact_json (identity_payload a' b' c' d')
   \<longleftrightarrow> a = a' \<and> b = b' \<and> c = c' \<and> d = d'"
  by (auto simp: compact_json_inj identity_payload_def)

text \<open>
  C38: Expansion is bounded and its children are distinct: when it succeeds it has at least one child and no more than either
  limit allows, at an allowed depth and with bounded evidence; the children are those of the observed keys in order, one
  for each, and two children share an identity only if two different texts collide under SHA-256.
\<close>

theorem expansion_bounded:
  assumes "expand_children sha256 spec declared observed plan_id snapshot depth = Inr children"
  shows "0 < length children \<and> int (length children) \<le> eb_max_children (es_bounds spec)
    \<and> int (length children) \<le> eb_max_concurrency (es_bounds spec) \<and> depth \<le> eb_max_depth (es_bounds spec)
    \<and> metadata_size (es_evidence spec) \<le> eb_max_metadata_bytes (es_bounds spec)
    \<and> map ce_map_key children = observed \<and> distinct (map ce_map_key children)
    \<and> (distinct (map ce_identity children)
      \<or> (\<exists>k \<in> set observed. \<exists>k' \<in> set observed. k \<noteq> k'
          \<and> sha256 (compact_json (identity_payload plan_id (es_parent_id spec) k snapshot))
            = sha256 (compact_json (identity_payload plan_id (es_parent_id spec) k' snapshot))))"
proof -
  have p: "expansion_problems spec (int declared) depth = []" and len: "length (take (declared + 1) observed) = declared"
    and d: "distinct (take (declared + 1) observed)"
    and ch: "children = map (\<lambda>key. \<lparr>ce_identity = child_identity sha256 plan_id (es_parent_id spec) key snapshot,
        ce_parent_id = es_parent_id spec, ce_map_key = key, ce_snapshot = snapshot, ce_depth = depth\<rparr>)
        (take (declared + 1) observed)"
    using assms
    by (auto simp: expand_children_def Let_def length_remdups_card_conv card_distinct split: if_splits)
  have all: "take (declared + 1) observed = observed" "length observed = declared" using len by auto
  have keys: "map ce_map_key children = observed" using ch all by (simp add: comp_def)
  have ids: "map ce_identity children = map (\<lambda>k. child_identity sha256 plan_id (es_parent_id spec) k snapshot) observed"
    using ch all by simp
  have "distinct (map ce_identity children) \<or> (\<exists>k \<in> set observed. \<exists>k' \<in> set observed. k \<noteq> k'
      \<and> child_identity sha256 plan_id (es_parent_id spec) k snapshot
        = child_identity sha256 plan_id (es_parent_id spec) k' snapshot)"
    using d all unfolding ids by (auto simp: distinct_map inj_on_def)
  then show ?thesis using p keys d all ch
    by (auto simp: expansion_problems_def Let_def child_identity_def split: if_splits option.splits)
qed

text \<open>An identity determines the plan, the parent, the key and the snapshot, up to a collision.\<close>

theorem child_identity_binds:
  assumes "child_identity sha256 a b c d = child_identity sha256 a' b' c' d'"
  shows "(a = a' \<and> b = b' \<and> c = c' \<and> d = d')
    \<or> (\<exists>x y. x \<noteq> y \<and> sha256 x = sha256 y)"
  using assms identity_payload_inj[of a b c d a' b' c' d'] unfolding child_identity_def by blast

subsection \<open>A sample\<close>

definition sample_spec :: expansion_spec where
  "sample_spec = \<lparr>es_parent_id = ''fan'', es_collection = ''files'', es_bounds = default_bounds\<lparr>eb_max_concurrency := 2\<rparr>,
     es_evidence = [(''source'', ''listing'')], es_required_extras = [''control.expansion'']\<rparr>"

definition sample_child :: "string \<Rightarrow> child_expansion" where
  "sample_child key = \<lparr>ce_identity = child_identity id ''p'' ''fan'' key ''s'', ce_parent_id = ''fan'', ce_map_key = key,
     ce_snapshot = ''s'', ce_depth = 1\<rparr>"

lemma sample_expanded:
  "expand_children id sample_spec 2 [''a'', ''b''] ''p'' ''s'' 1 = Inr [sample_child ''a'', sample_child ''b'']"
  by code_simp

theorem expansion_bounded_witness:
  "distinct (map ce_map_key [sample_child ''a'', sample_child ''b''])
   \<and> int (length [sample_child ''a'', sample_child ''b'']) \<le> eb_max_concurrency (es_bounds sample_spec)
   \<and> expand_children id sample_spec 3 [''a'', ''b'', ''c''] ''p'' ''s'' 1 = Inl (Bounds_exhausted [Too_concurrent])"
proof -
  have "expand_children id sample_spec 3 [''a'', ''b'', ''c''] ''p'' ''s'' 1 = Inl (Bounds_exhausted [Too_concurrent])"
    by code_simp
  then show ?thesis using expansion_bounded[OF sample_expanded] by blast
qed

theorem child_identity_binds_witness:
  "(''a'' = ''a'' \<and> ''b'' = ''b'' \<and> ''c'' = ''c'' \<and> ''d'' = ''d'') \<or> (\<exists>x y :: string. x \<noteq> y \<and> id x = id y)"
  by (rule child_identity_binds) (rule refl)

end
