(* ===== verification/Scalar_Expr.thy ===== *)
theory Scalar_Expr
  imports Canonical_Json
begin

text \<open>
  The scalar evaluator of portable transformations (\<open>transform/evaluation.py\<close>).  Nulls, the missing and
  invalid states, booleans, integers and strings are modelled; every other Python value (floats, decimals, dates, bytes,
  collections) is an element of the type \<open>'o\<close>, and what Python's operators and functions do with those is the record
  \<open>host\<close>, whose functions return \<open>None\<close> where Python raises one of the exceptions that the evaluator catches.
  Strings range over Latin-1; upper-casing leaves that range, so it is a function of the host as well.
\<close>

subsection \<open>Values, expressions and outcomes\<close>

datatype 'o scalar =
    V_null
  | V_missing
  | V_invalid
  | V_bool bool
  | V_int int
  | V_str string
  | V_other 'o

record 'o host =
  h_binary :: "string \<Rightarrow> 'o scalar \<Rightarrow> 'o scalar \<Rightarrow> 'o scalar option"
  h_member :: "'o scalar \<Rightarrow> 'o \<Rightarrow> bool option"
  h_equal :: "'o scalar \<Rightarrow> 'o scalar \<Rightarrow> bool"
  h_call :: "string \<Rightarrow> 'o scalar list \<Rightarrow> 'o scalar option"
  h_coerce :: "string \<Rightarrow> 'o scalar \<Rightarrow> 'o scalar option"
  h_literal :: "string \<Rightarrow> 'o scalar \<Rightarrow> 'o scalar option"
  h_text :: "'o \<Rightarrow> string"
  h_true :: "'o \<Rightarrow> bool"
  h_integer :: "'o scalar \<Rightarrow> int option"

datatype 'o literal = L_plain "'o scalar" | L_typed string "'o scalar"

datatype 'o expr =
    E_value "'o scalar"
  | E_field bool string
  | E_literal "'o literal"
  | E_binary string "'o expr" "'o expr"
  | E_unary string "'o expr"
  | E_call string "'o expr list"
  | E_unknown string

text \<open>An issue names what failed: a conversion, an operator or function at run time, or something unsupported.\<close>

datatype issue = Conversion string | Runtime string | Unsupported string

text \<open>
  A computation reports issues in order and ends with a value or, when no handler is given, with the issue it raises.
\<close>

type_synonym 'a ev = "issue list \<times> (issue + 'a)"

definition give :: "'a \<Rightarrow> 'a ev" where
  "give v = ([], Inr v)"

definition then_do :: "'a ev \<Rightarrow> ('a \<Rightarrow> 'b ev) \<Rightarrow> 'b ev" where
  "then_do m f = (case m of
     (is, Inl e) \<Rightarrow> (is, Inl e)
   | (is, Inr v) \<Rightarrow> (case f v of (js, r) \<Rightarrow> (is @ js, r)))"

definition raise_issue :: "bool \<Rightarrow> issue \<Rightarrow> 'o scalar ev" where
  "raise_issue handler i = (if handler then ([i], Inr V_null) else ([], Inl i))"

definition caught :: "bool \<Rightarrow> issue \<Rightarrow> 'o scalar option \<Rightarrow> 'o scalar ev" where
  "caught handler i r = (case r of None \<Rightarrow> raise_issue handler i | Some v \<Rightarrow> give v)"

subsection \<open>Python's operators on these values\<close>

definition operator_aliases :: "(string \<times> string) list" where
  "operator_aliases = [(''neq'', ''not_eq''), (''sub'', ''subtract''), (''mul'', ''multiply''), (''div'', ''divide''),
     (''mod'', ''modulo''), (''neg'', ''negate'')]"

definition normalize_operator :: "string \<Rightarrow> string" where
  "normalize_operator op = (case map_of operator_aliases op of None \<Rightarrow> op | Some o' \<Rightarrow> o')"

definition as_number :: "'o scalar \<Rightarrow> int option" where
  "as_number v = (case v of V_int i \<Rightarrow> Some i | V_bool b \<Rightarrow> Some (if b then 1 else 0) | _ \<Rightarrow> None)"

definition absent :: "'o scalar \<Rightarrow> bool" where
  "absent v \<longleftrightarrow> v = V_null \<or> v = V_missing \<or> v = V_invalid"

definition is_other :: "'o scalar \<Rightarrow> bool" where
  "is_other v = (case v of V_other _ \<Rightarrow> True | _ \<Rightarrow> False)"

definition integer_min :: int where "integer_min = - (2 ^ 63)"
definition integer_max :: int where "integer_max = 2 ^ 63 - 1"

definition fits_64 :: "int \<Rightarrow> bool" where
  "fits_64 i \<longleftrightarrow> integer_min \<le> i \<and> i \<le> integer_max"

definition checked_integer_result :: "'o scalar \<Rightarrow> 'o scalar option" where
  "checked_integer_result v = (case v of V_int i \<Rightarrow> if fits_64 i then Some v else None | _ \<Rightarrow> Some v)"

definition py_equal :: "'o host \<Rightarrow> 'o scalar \<Rightarrow> 'o scalar \<Rightarrow> bool" where
  "py_equal h a b = (if is_other a \<or> is_other b then h_equal h a b
     else case (as_number a, as_number b) of (Some i, Some j) \<Rightarrow> i = j | _ \<Rightarrow> a = b)"

definition py_compare :: "'o host \<Rightarrow> string \<Rightarrow> (int \<Rightarrow> int \<Rightarrow> bool) \<Rightarrow> (string \<Rightarrow> string \<Rightarrow> bool) \<Rightarrow>
    'o scalar \<Rightarrow> 'o scalar \<Rightarrow> 'o scalar option" where
  "py_compare h op cmp scmp a b = (if is_other a \<or> is_other b then h_binary h op a b
     else case (as_number a, as_number b) of
       (Some i, Some j) \<Rightarrow> Some (V_bool (cmp i j))
     | _ \<Rightarrow> (case (a, b) of (V_str s, V_str t) \<Rightarrow> Some (V_bool (scmp s t)) | _ \<Rightarrow> None))"

definition py_arith :: "'o host \<Rightarrow> string \<Rightarrow> (int \<Rightarrow> int \<Rightarrow> int option) \<Rightarrow> 'o scalar \<Rightarrow> 'o scalar \<Rightarrow> 'o scalar option" where
  "py_arith h op f a b = (if is_other a \<or> is_other b then h_binary h op a b
     else case (as_number a, as_number b) of
       (Some i, Some j) \<Rightarrow> map_option V_int (f i j)
     | _ \<Rightarrow> None)"

text \<open>Formatting with \<open>%\<close> and division, whose results are strings and floats, are the host's.\<close>

definition operate :: "'o host \<Rightarrow> string \<Rightarrow> 'o scalar \<Rightarrow> 'o scalar \<Rightarrow> 'o scalar option" where
  "operate h op a b =
     (if op = ''add'' then (case (a, b) of (V_str s, V_str t) \<Rightarrow> Some (V_str (s @ t))
        | _ \<Rightarrow> py_arith h op (\<lambda>i j. Some (i + j)) a b)
      else if op = ''subtract'' then py_arith h op (\<lambda>i j. Some (i - j)) a b
      else if op = ''multiply'' then
        (case (a, b) of
           (V_str s, V_int n) \<Rightarrow> Some (V_str (concat (replicate (nat n) s)))
         | (V_str s, V_bool n) \<Rightarrow> Some (V_str (if n then s else []))
         | (V_int n, V_str s) \<Rightarrow> Some (V_str (concat (replicate (nat n) s)))
         | (V_bool n, V_str s) \<Rightarrow> Some (V_str (if n then s else []))
         | _ \<Rightarrow> py_arith h op (\<lambda>i j. Some (i * j)) a b)
      else if op = ''divide'' then h_binary h op a b
      else if op = ''modulo'' then (case a of V_str s \<Rightarrow> h_binary h op a b
        | _ \<Rightarrow> py_arith h op (\<lambda>i j. if j = 0 then None else Some (i mod j)) a b)
      else if op = ''eq'' then Some (V_bool (py_equal h a b))
      else if op = ''not_eq'' then Some (V_bool (\<not> py_equal h a b))
      else if op = ''lt'' then py_compare h op (<) (<) a b
      else if op = ''lte'' then py_compare h op (\<le>) (\<le>) a b
      else if op = ''gt'' then py_compare h op (>) (>) a b
      else if op = ''gte'' then py_compare h op (\<ge>) (\<ge>) a b
      else None)"

definition binary_operators :: "string list" where
  "binary_operators = [''add'', ''subtract'', ''multiply'', ''divide'', ''modulo'', ''eq'', ''not_eq'', ''lt'', ''lte'', ''gt'', ''gte'']"

definition checked_operators :: "string list" where
  "checked_operators = [''add'', ''subtract'', ''multiply'', ''modulo'']"

subsection \<open>Three-valued logic\<close>

definition boolean_or_null :: "'o scalar \<Rightarrow> bool" where
  "boolean_or_null v = (case v of V_null \<Rightarrow> True | V_bool _ \<Rightarrow> True | _ \<Rightarrow> False)"

definition sql_and :: "'o scalar \<Rightarrow> 'o scalar \<Rightarrow> 'o scalar option" where
  "sql_and a b = (if \<not> boolean_or_null a \<or> \<not> boolean_or_null b then None
     else if a = V_bool False \<or> b = V_bool False then Some (V_bool False)
     else if a = V_null \<or> b = V_null then Some V_null else Some b)"

definition sql_or :: "'o scalar \<Rightarrow> 'o scalar \<Rightarrow> 'o scalar option" where
  "sql_or a b = (if \<not> boolean_or_null a \<or> \<not> boolean_or_null b then None
     else if a = V_bool True \<or> b = V_bool True then Some (V_bool True)
     else if a = V_null \<or> b = V_null then Some V_null else Some b)"

definition apply_binary :: "bool \<Rightarrow> 'o host \<Rightarrow> string \<Rightarrow> 'o scalar \<Rightarrow> 'o scalar \<Rightarrow> 'o scalar ev" where
  "apply_binary handler h raw_op a b = (let op = normalize_operator raw_op in
     if op = ''null_safe_eq'' then give (V_bool (py_equal h a b))
     else if op = ''and'' then caught handler (Runtime op) (sql_and a b)
     else if op = ''or'' then caught handler (Runtime op) (sql_or a b)
     else if op \<noteq> ''in'' \<and> op \<notin> set binary_operators then raise_issue handler (Unsupported op)
     else if absent a \<or> absent b then give V_null
     else if op = ''in'' then (case b of
         V_other xs \<Rightarrow> (case h_member h a xs of Some r \<Rightarrow> give (V_bool r) | None \<Rightarrow> give (V_bool False))
       | _ \<Rightarrow> give (V_bool False))
     else caught handler (Runtime op) (case operate h op a b of
         None \<Rightarrow> None
       | Some v \<Rightarrow> if op \<in> set checked_operators then checked_integer_result v else Some v))"

definition apply_unary :: "bool \<Rightarrow> 'o host \<Rightarrow> string \<Rightarrow> 'o scalar \<Rightarrow> 'o scalar ev" where
  "apply_unary handler h raw_op v = (let op = normalize_operator raw_op in
     if op = ''not'' then
       (if absent v then give V_null
        else case v of V_bool b \<Rightarrow> give (V_bool (\<not> b)) | _ \<Rightarrow> raise_issue handler (Runtime op))
     else if op = ''negate'' then
       (if absent v then give V_null
        else caught handler (Runtime op) (case as_number v of
            Some i \<Rightarrow> checked_integer_result (V_int (- i))
          | None \<Rightarrow> if is_other v then (case h_call h op [v] of None \<Rightarrow> None | Some w \<Rightarrow> checked_integer_result w) else None))
     else raise_issue handler (Unsupported op))"

subsection \<open>Conversions\<close>

text \<open>\<open>str(v)\<close>.\<close>

definition py_text :: "'o host \<Rightarrow> 'o scalar \<Rightarrow> string" where
  "py_text h v = (case v of
     V_null \<Rightarrow> ''None'' | V_missing \<Rightarrow> ''MISSING'' | V_invalid \<Rightarrow> ''INVALID''
   | V_bool b \<Rightarrow> if b then ''True'' else ''False'' | V_int i \<Rightarrow> int_text i | V_str s \<Rightarrow> s | V_other x \<Rightarrow> h_text h x)"

definition trim :: "string \<Rightarrow> string" where
  "trim s = rev (dropWhile is_space (rev (dropWhile is_space s)))"

definition boolean_spelling :: "string \<Rightarrow> bool option" where
  "boolean_spelling s = (let t = map lower_char (trim s) in
     if t \<in> {''true'', ''1'', ''yes''} then Some True
     else if t \<in> {''false'', ''0'', ''no''} then Some False else None)"

definition py_true :: "'o host \<Rightarrow> 'o scalar \<Rightarrow> bool" where
  "py_true h v = (case v of V_null \<Rightarrow> False | V_bool b \<Rightarrow> b | V_int i \<Rightarrow> i \<noteq> 0 | V_str s \<Rightarrow> s \<noteq> []
     | V_missing \<Rightarrow> True | V_invalid \<Rightarrow> True | V_other x \<Rightarrow> h_true h x)"

text \<open>\<open>int(v)\<close>; the spelling of integers in strings is the host's.\<close>

definition py_integer :: "'o host \<Rightarrow> 'o scalar \<Rightarrow> int option" where
  "py_integer h v = (case v of
     V_int i \<Rightarrow> Some i | V_bool b \<Rightarrow> Some (if b then 1 else 0)
   | V_str _ \<Rightarrow> h_integer h v | V_other _ \<Rightarrow> h_integer h v | _ \<Rightarrow> None)"

definition to_integer :: "'o host \<Rightarrow> 'o scalar \<Rightarrow> 'o scalar option" where
  "to_integer h v = (case v of
     V_bool _ \<Rightarrow> None
   | V_other _ \<Rightarrow> (case h_coerce h ''integer'' v of
       Some (V_int i) \<Rightarrow> if fits_64 i then Some (V_int i) else None
     | _ \<Rightarrow> None)
   | _ \<Rightarrow> (case py_integer h v of Some i \<Rightarrow> if fits_64 i then Some (V_int i) else None | None \<Rightarrow> None))"

definition to_boolean :: "'o host \<Rightarrow> 'o scalar \<Rightarrow> 'o scalar option" where
  "to_boolean h v = (case v of V_str s \<Rightarrow> map_option V_bool (boolean_spelling s) | _ \<Rightarrow> Some (V_bool (py_true h v)))"

definition coerce_value :: "'o host \<Rightarrow> string \<Rightarrow> 'o scalar \<Rightarrow> 'o scalar option" where
  "coerce_value h t v =
     (if t = ''integer'' then to_integer h v
      else if t = ''boolean'' then to_boolean h v
      else if t = ''string'' then Some (V_str (py_text h v))
      else if t \<in> {''number'', ''decimal'', ''binary'', ''date'', ''datetime''} then h_coerce h t v
      else None)"

definition literal_value :: "bool \<Rightarrow> 'o host \<Rightarrow> 'o literal \<Rightarrow> 'o scalar ev" where
  "literal_value handler h l = (case l of
     L_plain v \<Rightarrow> give v
   | L_typed typ raw \<Rightarrow> (let t = map lower_char typ in
       if t = ''missing'' then give V_missing
       else if t = ''invalid'' then give V_invalid
       else if raw = V_null then give V_null
       else if t \<in> {''int'', ''integer'', ''long''} then caught handler (Conversion t) (to_integer h raw)
       else if t \<in> {''bool'', ''boolean''} then caught handler (Conversion t) (to_boolean h raw)
       else if t \<in> {''float'', ''number'', ''double'', ''decimal'', ''numeric'', ''date'', ''datetime'', ''binary'', ''bytes''}
         then caught handler (Conversion t) (h_literal h t raw)
       else if t \<in> {''null'', ''none''} then give V_null
       else give raw))"

subsection \<open>Functions\<close>

definition scalar_functions :: "string list" where
  "scalar_functions = [''coalesce'', ''if_null'', ''is_null'', ''is_not_null'', ''is_missing'', ''is_invalid'', ''null_if'',
     ''case_when'', ''cast'', ''try_cast'', ''to_integer'', ''to_decimal'', ''to_string'', ''lower'', ''upper'', ''concat'',
     ''concat_ws'', ''substr'', ''substring'', ''replace'', ''contains'', ''in'', ''starts_with'', ''ends_with'',
     ''regex_extract'', ''regex_replace'', ''trim'', ''ltrim'', ''rtrim'', ''normalize_whitespace'', ''length'', ''abs'',
     ''round'', ''floor'', ''ceil'', ''power'', ''sqrt'', ''least'', ''greatest'', ''current_date'', ''current_timestamp'']"

definition null_aware :: "string list" where
  "null_aware = [''coalesce'', ''if_null'', ''is_null'', ''is_not_null'', ''case_when'', ''null_if'', ''is_missing'',
     ''is_invalid'', ''concat_ws'', ''in'']"

definition cast_types :: "string list" where
  "cast_types = [''integer'', ''number'', ''decimal'', ''binary'', ''boolean'', ''string'', ''date'', ''datetime'']"

definition cast_aliases :: "(string \<times> string) list" where
  "cast_aliases = [(''int'', ''integer''), (''int64'', ''integer''), (''long'', ''integer''), (''float'', ''number''),
     (''float64'', ''number''), (''double'', ''number''), (''numeric'', ''decimal''), (''bool'', ''boolean''),
     (''str'', ''string''), (''utf8'', ''string''), (''bytes'', ''binary''), (''timestamp'', ''datetime'')]"

definition cast_target :: "'o host \<Rightarrow> 'o scalar list \<Rightarrow> string" where
  "cast_target h args = (let t = map lower_char (if length args > 1 then py_text h (args ! 1) else ''string'') in
     case map_of cast_aliases t of Some u \<Rightarrow> u | None \<Rightarrow> t)"

definition remove_prefix :: "string \<Rightarrow> string \<Rightarrow> string" where
  "remove_prefix p s = (if starts_with p s then drop (length p) s else s)"

text \<open>The conditions and branches of \<open>case_when\<close>; \<open>None\<close> is a condition that is neither boolean nor null.\<close>

fun first_match :: "'o scalar \<Rightarrow> 'o scalar list \<Rightarrow> 'o scalar option" where
  "first_match final (c # v # rest) = (if c = V_null then first_match final rest
     else case c of V_bool b \<Rightarrow> if b then Some v else first_match final rest | _ \<Rightarrow> None)"
| "first_match final _ = Some final"

definition slice_bound :: "nat \<Rightarrow> int \<Rightarrow> nat" where
  "slice_bound n i = (if i < 0 then nat (i + int n) else min (nat i) n)"

definition py_slice :: "string \<Rightarrow> int \<Rightarrow> int option \<Rightarrow> string" where
  "py_slice s i j = (let a = slice_bound (length s) i;
       b = (case j of None \<Rightarrow> length s | Some k \<Rightarrow> slice_bound (length s) k) in
     take (b - a) (drop a s))"

definition substring :: "'o host \<Rightarrow> 'o scalar list \<Rightarrow> 'o scalar option" where
  "substring h args = (case (if length args > 1 then py_integer h (args ! 1) else Some 0) of
     None \<Rightarrow> None
   | Some i \<Rightarrow> (if length args > 2
       then (case py_integer h (args ! 2) of
           None \<Rightarrow> None | Some n \<Rightarrow> Some (V_str (py_slice (py_text h (hd args)) i (Some (i + n)))))
       else Some (V_str (py_slice (py_text h (hd args)) i None))))"

text \<open>\<open>str.replace\<close>; an empty pattern matches between all characters.\<close>

function (sequential) replace_all :: "string \<Rightarrow> string \<Rightarrow> string \<Rightarrow> string" where
  "replace_all old new [] = (if old = [] then new else [])"
| "replace_all old new (c # s) = (if old = [] then new @ c # replace_all old new s
     else if starts_with old (c # s) then new @ replace_all old new (drop (length old - 1) s)
     else c # replace_all old new s)"
  by pat_completeness auto
termination by (relation "measure (\<lambda>(_, _, s). length s)") auto

fun split_words :: "string \<Rightarrow> string list" where
  "split_words [] = []"
| "split_words (c # s) = (if is_space c then split_words s
     else (case split_words s of
       [] \<Rightarrow> [[c]]
     | w # ws \<Rightarrow> (case s of [] \<Rightarrow> [[c]] | d # _ \<Rightarrow> if is_space d then [c] # w # ws else (c # w) # ws)))"

definition strip_call :: "string \<Rightarrow> string \<Rightarrow> string" where
  "strip_call name s = (if name = ''ltrim'' then dropWhile is_space s
     else if name = ''rtrim'' then rev (dropWhile is_space (rev s))
     else if name = ''normalize_whitespace'' then joined '' '' (split_words s)
     else trim s)"

definition one_of :: "'o host \<Rightarrow> 'o scalar \<Rightarrow> 'o scalar list \<Rightarrow> 'o scalar" where
  "one_of h v candidates = (if absent v then V_null
     else if list_ex (\<lambda>c. \<not> absent c \<and> py_equal h v c) candidates then V_bool True
     else if list_ex absent candidates then V_null else V_bool False)"

fun pick :: "('a \<Rightarrow> 'o scalar \<Rightarrow> 'a option) \<Rightarrow> 'a \<Rightarrow> 'o scalar list \<Rightarrow> 'a option" where
  "pick f best [] = Some best"
| "pick f best (v # vs) = (case f best v of None \<Rightarrow> None | Some b \<Rightarrow> pick f b vs)"

text \<open>\<open>min\<close> and \<open>max\<close> keep the first of equal values; values of different sorts cannot be compared.\<close>

definition better :: "bool \<Rightarrow> 'o scalar \<Rightarrow> 'o scalar \<Rightarrow> 'o scalar option" where
  "better least best v = (case (as_number best, as_number v) of
     (Some i, Some j) \<Rightarrow> Some (if (if least then j < i else j > i) then v else best)
   | _ \<Rightarrow> (case (best, v) of
       (V_str s, V_str t) \<Rightarrow> Some (if (if least then t < s else t > s) then v else best)
     | _ \<Rightarrow> None))"

definition extreme :: "'o host \<Rightarrow> string \<Rightarrow> 'o scalar list \<Rightarrow> 'o scalar option" where
  "extreme h name args = (if length args > 1 \<and> list_ex is_other args then h_call h name args
     else pick (better (name = ''least'')) (hd args) (tl args))"

definition checked :: "'o scalar option \<Rightarrow> 'o scalar option" where
  "checked r = (case r of None \<Rightarrow> None | Some v \<Rightarrow> checked_integer_result v)"

text \<open>A function of one number: integers are computed, other values are left to the host or refused.\<close>

definition numeric :: "'o host \<Rightarrow> string \<Rightarrow> (int \<Rightarrow> int) \<Rightarrow> 'o scalar list \<Rightarrow> 'o scalar option" where
  "numeric h name f args = checked (case as_number (hd args) of
     Some i \<Rightarrow> Some (V_int (f i))
   | None \<Rightarrow> if is_other (hd args) then h_call h name args else None)"

definition round_call :: "'o host \<Rightarrow> 'o scalar list \<Rightarrow> 'o scalar option" where
  "round_call h args = checked (case (if length args > 1 then py_integer h (args ! 1) else Some 0) of
     None \<Rightarrow> None
   | Some n \<Rightarrow> (case as_number (hd args) of
       Some i \<Rightarrow> if 0 \<le> n then Some (V_int i) else h_call h ''round'' args
     | None \<Rightarrow> if is_other (hd args) then h_call h ''round'' args else None))"

definition power_call :: "'o host \<Rightarrow> 'o scalar list \<Rightarrow> 'o scalar option" where
  "power_call h args = checked (case (as_number (args ! 0), as_number (args ! 1)) of
     (Some i, Some j) \<Rightarrow> if 0 \<le> j then Some (V_int (i ^ nat j)) else h_call h ''power'' args
   | _ \<Rightarrow> if is_other (args ! 0) \<or> is_other (args ! 1) then h_call h ''power'' args else None)"

definition contains_call :: "'o host \<Rightarrow> 'o scalar list \<Rightarrow> 'o scalar option" where
  "contains_call h args = (case (args ! 0, args ! 1) of
     (V_str s, V_str t) \<Rightarrow> Some (V_bool (contains t s))
   | (V_other _, _) \<Rightarrow> h_call h ''contains'' args
   | _ \<Rightarrow> None)"

definition length_call :: "'o host \<Rightarrow> 'o scalar list \<Rightarrow> 'o scalar option" where
  "length_call h args = (case hd args of
     V_str s \<Rightarrow> Some (V_int (int (length s)))
   | V_other _ \<Rightarrow> h_call h ''length'' args
   | _ \<Rightarrow> None)"

text \<open>The branches of a known function; \<open>None\<close> is the error for arguments that no branch accepts.\<close>

definition conversion_call :: "bool \<Rightarrow> 'o host \<Rightarrow> string \<Rightarrow> 'o scalar list \<Rightarrow> 'o scalar ev option" where
  "conversion_call handler h name args =
     (if name \<in> {''cast'', ''try_cast''} \<and> args \<noteq> [] then
        (let t = cast_target h args in
         case coerce_value h t (hd args) of
           Some v \<Rightarrow> Some (give v)
         | None \<Rightarrow> Some (if name = ''try_cast'' then give V_null else raise_issue handler (Conversion t)))
      else if name \<in> {''to_integer'', ''to_decimal'', ''to_string''} \<and> args \<noteq> [] then
        (let t = (if name = ''to_integer'' then ''integer'' else if name = ''to_decimal'' then ''decimal'' else ''string'') in
         Some (caught handler (Conversion t) (coerce_value h t (hd args))))
      else None)"

definition null_call :: "bool \<Rightarrow> 'o host \<Rightarrow> string \<Rightarrow> 'o scalar list \<Rightarrow> 'o scalar ev option" where
  "null_call handler h name args =
     (if name = ''is_null'' \<and> args \<noteq> [] then Some (give (V_bool (hd args = V_null)))
      else if name = ''is_not_null'' \<and> args \<noteq> [] then Some (give (V_bool (hd args \<noteq> V_null)))
      else if name = ''is_missing'' \<and> args \<noteq> [] then Some (give (V_bool (hd args = V_missing)))
      else if name = ''is_invalid'' \<and> args \<noteq> [] then Some (give (V_bool (hd args = V_invalid)))
      else if name = ''coalesce'' \<and> args \<noteq> [] then
        Some (give (case filter (\<lambda>v. v \<noteq> V_null) args of [] \<Rightarrow> V_null | v # _ \<Rightarrow> v))
      else if name = ''if_null'' \<and> length args \<ge> 2 then Some (give (if args ! 0 = V_null then args ! 1 else args ! 0))
      else if name = ''null_if'' \<and> length args \<ge> 2 then
        Some (give (if py_equal h (args ! 0) (args ! 1) then V_null else args ! 0))
      else if name = ''case_when'' \<and> args \<noteq> [] then
        Some (caught handler (Runtime ''case_when'') (first_match (last args) args))
      else if name = ''in'' \<and> args \<noteq> [] then Some (give (one_of h (hd args) (tl args)))
      else None)"

definition text_call :: "'o host \<Rightarrow> string \<Rightarrow> 'o scalar list \<Rightarrow> 'o scalar option option" where
  "text_call h name args =
     (if name = ''lower'' \<and> args \<noteq> [] then Some (Some (V_str (map lower_char (py_text h (hd args)))))
      else if name = ''upper'' \<and> args \<noteq> [] then Some (h_call h name [V_str (py_text h (hd args))])
      else if name = ''concat'' then Some (Some (V_str (concat (map (py_text h) args))))
      else if name = ''concat_ws'' \<and> args \<noteq> [] then
        Some (Some (if hd args = V_null then V_null
          else V_str (joined (py_text h (hd args)) (map (py_text h) (filter (\<lambda>v. v \<noteq> V_null) (tl args))))))
      else if name \<in> {''substr'', ''substring''} \<and> args \<noteq> [] then Some (substring h args)
      else if name = ''replace'' \<and> length args \<ge> 3 then
        Some (Some (V_str (replace_all (py_text h (args ! 1)) (py_text h (args ! 2)) (py_text h (args ! 0)))))
      else if name = ''contains'' \<and> length args \<ge> 2 then Some (contains_call h args)
      else if name = ''starts_with'' \<and> length args \<ge> 2 then
        Some (Some (V_bool (starts_with (py_text h (args ! 1)) (py_text h (args ! 0)))))
      else if name = ''ends_with'' \<and> length args \<ge> 2 then
        Some (Some (V_bool (starts_with (rev (py_text h (args ! 1))) (rev (py_text h (args ! 0))))))
      else if name = ''regex_extract'' \<and> length args \<ge> 2 then Some (h_call h name args)
      else if name = ''regex_replace'' \<and> length args \<ge> 3 then Some (h_call h name args)
      else if name \<in> {''trim'', ''ltrim'', ''rtrim'', ''normalize_whitespace''} \<and> args \<noteq> [] then
        Some (Some (V_str (strip_call name (py_text h (hd args)))))
      else if name = ''length'' \<and> args \<noteq> [] then Some (length_call h args)
      else None)"

definition number_call :: "'o host \<Rightarrow> string \<Rightarrow> 'o scalar list \<Rightarrow> 'o scalar option option" where
  "number_call h name args =
     (if name = ''abs'' \<and> args \<noteq> [] then Some (numeric h name abs args)
      else if name = ''round'' \<and> args \<noteq> [] then Some (round_call h args)
      else if name \<in> {''floor'', ''ceil''} \<and> args \<noteq> [] then Some (numeric h name (\<lambda>i. i) args)
      else if name = ''power'' \<and> length args \<ge> 2 then Some (power_call h args)
      else if name = ''sqrt'' \<and> args \<noteq> [] then Some (h_call h name args)
      else if name \<in> {''least'', ''greatest''} \<and> args \<noteq> [] then Some (checked (extreme h name args))
      else if name \<in> {''current_date'', ''current_timestamp''} then Some (h_call h name [])
      else None)"

definition dispatch_call :: "bool \<Rightarrow> 'o host \<Rightarrow> string \<Rightarrow> string \<Rightarrow> 'o scalar list \<Rightarrow> 'o scalar ev" where
  "dispatch_call handler h callee name args = (case null_call handler h name args of
     Some r \<Rightarrow> r
   | None \<Rightarrow> (case conversion_call handler h name args of
       Some r \<Rightarrow> r
     | None \<Rightarrow> (case text_call h name args of
         Some r \<Rightarrow> caught handler (Runtime callee) r
       | None \<Rightarrow> (case number_call h name args of
           Some r \<Rightarrow> caught handler (Runtime callee) r
         | None \<Rightarrow> raise_issue handler (Unsupported callee)))))"

definition apply_call :: "bool \<Rightarrow> 'o host \<Rightarrow> string \<Rightarrow> 'o scalar list \<Rightarrow> 'o scalar ev" where
  "apply_call handler h callee args = (let name = remove_prefix ''dtcs:'' callee in
     if name \<notin> set scalar_functions then raise_issue handler (Unsupported callee)
     else if name \<in> {''cast'', ''try_cast''} \<and> cast_target h args \<notin> set cast_types
       then raise_issue handler (Unsupported (cast_target h args))
     else if name \<notin> set null_aware \<and> V_null \<in> set args then give V_null
     else dispatch_call handler h callee name args)"

subsection \<open>Evaluation\<close>

type_synonym 'o row = "(string, 'o scalar) pydict"

definition lookup_field :: "'o row \<Rightarrow> string \<Rightarrow> 'o scalar" where
  "lookup_field d k = (case dget d k of None \<Rightarrow> V_null | Some v \<Rightarrow> v)"

fun evaluate_expression :: "bool \<Rightarrow> 'o host \<Rightarrow> 'o row \<Rightarrow> 'o row \<Rightarrow> 'o expr \<Rightarrow> 'o scalar ev"
  and evaluate_args :: "bool \<Rightarrow> 'o host \<Rightarrow> 'o row \<Rightarrow> 'o row \<Rightarrow> 'o expr list \<Rightarrow> 'o scalar list ev" where
  "evaluate_expression handler h row params (E_value v) = give v"
| "evaluate_expression handler h row params (E_field parameter target) =
     give (if parameter then lookup_field params target else lookup_field row target)"
| "evaluate_expression handler h row params (E_literal l) = literal_value handler h l"
| "evaluate_expression handler h row params (E_binary op l r) =
     then_do (evaluate_expression handler h row params l) (\<lambda>a.
       then_do (evaluate_expression handler h row params r) (\<lambda>b. apply_binary handler h op a b))"
| "evaluate_expression handler h row params (E_unary op e) =
     then_do (evaluate_expression handler h row params e) (apply_unary handler h op)"
| "evaluate_expression handler h row params (E_call callee args) =
     then_do (evaluate_args handler h row params args) (apply_call handler h callee)"
| "evaluate_expression handler h row params (E_unknown kind) = raise_issue handler (Unsupported kind)"
| "evaluate_args handler h row params [] = give []"
| "evaluate_args handler h row params (e # es) =
     then_do (evaluate_expression handler h row params e) (\<lambda>v.
       then_do (evaluate_args handler h row params es) (\<lambda>vs. give (v # vs)))"

end
