(* ===== verification/Scalar_Safety.thy ===== *)
theory Scalar_Safety
  imports Scalar_Expr
begin

text \<open>
  What the scalar evaluator guarantees: a simple type system for expressions over nullable booleans, integers and strings,
  whose expressions fail by arithmetic or conversion only; the 64-bit range of computed integers; that reporting
  issues to a handler and raising them are the same evaluation; and three-valued logic.
\<close>

declare split_paired_All [simp del] split_paired_Ex [simp del]

subsection \<open>Handlers\<close>

text \<open>What raising makes of an evaluation that reports: the first issue ends it.\<close>

definition raising :: "'a ev \<Rightarrow> 'a ev" where
  "raising m = (case m of ([], r) \<Rightarrow> ([], r) | (i # _, _) \<Rightarrow> ([], Inl i))"

lemma raising_give [simp]: "raising (give v) = give v"
  by (simp add: raising_def give_def)

lemma raising_issue [simp]: "raising (raise_issue True i) = raise_issue False i"
  by (simp add: raising_def raise_issue_def)

lemma raising_caught [simp]: "raising (caught True i r) = caught False i r"
  by (simp add: caught_def split: option.split)

text \<open>An evaluation that reports never ends with an issue.\<close>

definition reports :: "'a ev \<Rightarrow> bool" where
  "reports m \<longleftrightarrow> (\<exists>v. snd m = Inr v)"

lemma reports_give [simp]: "reports (give v)"
  by (simp add: reports_def give_def)

lemma reports_issue [simp]: "reports (raise_issue True i)"
  by (simp add: reports_def raise_issue_def)

lemma reports_caught [simp]: "reports (caught True i r)"
  by (simp add: caught_def split: option.split)

lemma reports_then: "reports m \<Longrightarrow> (\<And>v. reports (f v)) \<Longrightarrow> reports (then_do m f)"
  by (auto simp: reports_def then_do_def split: prod.splits sum.splits) (metis snd_conv)

lemma raising_then:
  "reports m \<Longrightarrow> raising (then_do m f) = then_do (raising m) (\<lambda>v. raising (f v))"
  by (cases m; cases "fst m") (auto simp: reports_def raising_def then_do_def split: prod.splits sum.splits list.splits)

lemma apply_binary_mode:
  "reports (apply_binary True h op a b) \<and> raising (apply_binary True h op a b) = apply_binary False h op a b"
  by (simp add: apply_binary_def Let_def split: scalar.split option.split)

lemma apply_unary_mode:
  "reports (apply_unary True h op a) \<and> raising (apply_unary True h op a) = apply_unary False h op a"
  by (simp add: apply_unary_def Let_def split: scalar.split option.split)

lemma literal_mode:
  "reports (literal_value True h l) \<and> raising (literal_value True h l) = literal_value False h l"
  by (simp add: literal_value_def Let_def split: literal.split)

lemma null_call_mode:
  "(case null_call True h name args of
      None \<Rightarrow> null_call False h name args = None
    | Some r \<Rightarrow> reports r \<and> null_call False h name args = Some (raising r))"
  by (simp add: null_call_def)

lemma conversion_call_mode:
  "(case conversion_call True h name args of
      None \<Rightarrow> conversion_call False h name args = None
    | Some r \<Rightarrow> reports r \<and> conversion_call False h name args = Some (raising r))"
  by (cases "coerce_value h (cast_target h args) (hd args)") (simp_all add: conversion_call_def Let_def)

lemma dispatch_mode:
  "reports (dispatch_call True h c name args) \<and> raising (dispatch_call True h c name args) = dispatch_call False h c name args"
proof (cases "null_call True h name args")
  case (Some r)
  then show ?thesis using null_call_mode[of h name args] by (simp add: dispatch_call_def)
next
  case n: None
  then have n': "null_call False h name args = None" using null_call_mode[of h name args] by simp
  show ?thesis
  proof (cases "conversion_call True h name args")
    case (Some r)
    then show ?thesis using conversion_call_mode[of h name args] n n' by (simp add: dispatch_call_def)
  next
    case None
    then have "conversion_call False h name args = None" using conversion_call_mode[of h name args] by simp
    then show ?thesis using n n' None
      by (cases "text_call h name args"; cases "number_call h name args") (simp_all add: dispatch_call_def)
  qed
qed

lemma apply_call_mode:
  "reports (apply_call True h c args) \<and> raising (apply_call True h c args) = apply_call False h c args"
  by (simp add: apply_call_def Let_def dispatch_mode)

lemma evaluate_mode:
  "reports (evaluate_expression True h row params e)
    \<and> raising (evaluate_expression True h row params e) = evaluate_expression False h row params e"
  "reports (evaluate_args True h row params es)
    \<and> raising (evaluate_args True h row params es) = evaluate_args False h row params es"
proof (induction True h row params e and True h row params es rule: evaluate_expression_evaluate_args.induct)
qed (simp_all add: reports_then raising_then apply_binary_mode apply_unary_mode apply_call_mode literal_mode)

text \<open>
  A handler changes how failures are delivered and nothing else.  With one, evaluation always ends with a value; without
  one, it raises the first issue that the handler would have seen, and gives the same value when there is none.
\<close>

theorem reporting_agrees_with_raising:
  "\<exists>is v. evaluate_expression True h row params e = (is, Inr v)
    \<and> evaluate_expression False h row params e = ([], case is of [] \<Rightarrow> Inr v | i # _ \<Rightarrow> Inl i)"
proof -
  obtain log v where m: "evaluate_expression True h row params e = (log, Inr v)"
    using evaluate_mode(1)[of h row params e] by (cases "evaluate_expression True h row params e") (auto simp: reports_def)
  then have "evaluate_expression False h row params e = raising (log, Inr v)"
    using evaluate_mode(1)[of h row params e] by simp
  then show ?thesis using m by (auto simp: raising_def split: list.splits)
qed

subsection \<open>The range of integers\<close>

definition ranged :: "'o scalar \<Rightarrow> bool" where
  "ranged v = (case v of V_int i \<Rightarrow> fits_64 i | _ \<Rightarrow> True)"

definition ranged_result :: "'o scalar ev \<Rightarrow> bool" where
  "ranged_result m \<longleftrightarrow> (\<forall>v. snd m = Inr v \<longrightarrow> ranged v)"

lemma ranged_simps [simp]: "ranged V_null" "ranged (V_bool b)" "ranged (V_str t)" "ranged (V_int i) = fits_64 i"
  by (simp_all add: ranged_def)

lemma ranged_checked: "checked r = Some v \<Longrightarrow> ranged v"
  by (auto simp: checked_def checked_integer_result_def ranged_def split: option.splits scalar.splits if_splits)

lemma ranged_checked_result: "checked_integer_result r = Some v \<Longrightarrow> ranged v"
  by (auto simp: checked_integer_result_def ranged_def split: scalar.splits if_splits)

lemma ranged_give: "ranged v \<Longrightarrow> ranged_result (give v)"
  by (simp add: ranged_result_def give_def)

lemma ranged_issue: "ranged_result (raise_issue handler i)"
  by (simp add: ranged_result_def raise_issue_def)

lemma ranged_caught: "(\<And>v. r = Some v \<Longrightarrow> ranged v) \<Longrightarrow> ranged_result (caught handler i r)"
  by (auto simp: caught_def intro: ranged_give ranged_issue split: option.split)

lemma ranged_then: "(\<And>v. ranged_result (f v)) \<Longrightarrow> ranged_result (then_do m f)"
  by (auto simp: ranged_result_def then_do_def split: prod.splits sum.splits) (metis snd_conv)

lemmas ranged_intros = ranged_give ranged_issue ranged_caught ranged_then

lemma checked_known:
  "op \<in> set checked_operators \<Longrightarrow> op \<noteq> ''null_safe_eq'' \<and> op \<noteq> ''and'' \<and> op \<noteq> ''or'' \<and> op \<noteq> ''in''
     \<and> op \<in> set binary_operators"
  by (auto simp: checked_operators_def binary_operators_def)

lemma binary_ranged:
  assumes "normalize_operator op \<in> set checked_operators"
  shows "ranged_result (apply_binary handler h op a b)"
proof -
  let ?n = "normalize_operator op"
  have "apply_binary handler h op a b = (if absent a \<or> absent b then give V_null
      else caught handler (Runtime ?n) (case operate h ?n a b of None \<Rightarrow> None | Some v \<Rightarrow> checked_integer_result v))"
    using checked_known[OF assms] assms by (simp only: apply_binary_def Let_def if_False if_True simp_thms)
  then show ?thesis
    by (auto intro!: ranged_give ranged_caught dest: ranged_checked_result split: option.splits)
qed

lemma negate_ranged:
  assumes "normalize_operator op = ''negate''"
  shows "ranged_result (apply_unary handler h op v)"
proof -
  have "''negate'' \<noteq> ''not''" by simp
  then have "apply_unary handler h op v = (if absent v then give V_null
      else caught handler (Runtime ''negate'') (case as_number v of
          Some i \<Rightarrow> checked_integer_result (V_int (- i))
        | None \<Rightarrow> if is_other v then (case h_call h ''negate'' [v] of None \<Rightarrow> None | Some w \<Rightarrow> checked_integer_result w) else None))"
    by (simp only: apply_unary_def Let_def assms if_False if_True simp_thms)
  then show ?thesis
    by (auto intro!: ranged_give ranged_caught dest: ranged_checked_result split: option.splits if_splits)
qed

definition ranged_functions :: "string list" where
  "ranged_functions = [''abs'', ''round'', ''floor'', ''ceil'', ''power'', ''least'', ''greatest'']"

lemma ranged_names:
  "name \<in> set ranged_functions \<Longrightarrow> name = ''abs'' \<or> name = ''round'' \<or> name = ''floor'' \<or> name = ''ceil'' \<or> name = ''power''
     \<or> name = ''least'' \<or> name = ''greatest''"
  by (simp add: ranged_functions_def)

lemma number_checked:
  "name \<in> set ranged_functions \<Longrightarrow> number_call h name args = Some r \<Longrightarrow> \<exists>q. r = checked q"
  by (drule ranged_names, elim disjE)
     (auto simp: number_call_def numeric_def round_call_def power_call_def split: if_splits)

lemma number_not_null: "name \<in> set ranged_functions \<Longrightarrow> null_call handler h name args = None"
  by (drule ranged_names, elim disjE) (simp_all add: null_call_def)

lemma number_not_conversion: "name \<in> set ranged_functions \<Longrightarrow> conversion_call handler h name args = None"
  by (drule ranged_names, elim disjE) (simp_all add: conversion_call_def)

lemma number_not_text: "name \<in> set ranged_functions \<Longrightarrow> text_call h name args = None"
  by (drule ranged_names, elim disjE) (simp_all add: text_call_def)

lemma call_ranged:
  assumes n: "remove_prefix ''dtcs:'' c \<in> set ranged_functions"
  shows "ranged_result (apply_call handler h c args)"
proof -
  have v: "ranged v" if "number_call h (remove_prefix ''dtcs:'' c) args = Some (Some v)" for v
    using number_checked[OF n that] ranged_checked by metis
  have "ranged_result (dispatch_call handler h c (remove_prefix ''dtcs:'' c) args)"
    by (auto simp: dispatch_call_def number_not_null number_not_conversion number_not_text n
        intro!: ranged_issue ranged_caught dest: v split: option.split)
  then show ?thesis by (auto simp: apply_call_def Let_def intro: ranged_issue ranged_give)
qed

text \<open>
  C33: Computed integers stay in the signed 64-bit range: whatever the operands and the host's functions are, an addition,
  subtraction, multiplication, remainder or negation, and the functions \<open>abs\<close>, \<open>round\<close>, \<open>floor\<close>, \<open>ceil\<close>, \<open>power\<close>,
  \<open>least\<close> and \<open>greatest\<close>, give an integer only if it is in range.
\<close>

theorem computed_integers_in_range:
  "(normalize_operator op \<in> set checked_operators
      \<longrightarrow> snd (evaluate_expression handler h row params (E_binary op l r)) = Inr (V_int i) \<longrightarrow> fits_64 i)
    \<and> (normalize_operator op = ''negate''
      \<longrightarrow> snd (evaluate_expression handler h row params (E_unary op l)) = Inr (V_int i) \<longrightarrow> fits_64 i)
    \<and> (remove_prefix ''dtcs:'' c \<in> set ranged_functions
      \<longrightarrow> snd (evaluate_expression handler h row params (E_call c args)) = Inr (V_int i) \<longrightarrow> fits_64 i)"
proof -
  have "normalize_operator op \<in> set checked_operators \<Longrightarrow> ranged_result (evaluate_expression handler h row params (E_binary op l r))"
    "normalize_operator op = ''negate'' \<Longrightarrow> ranged_result (evaluate_expression handler h row params (E_unary op l))"
    "remove_prefix ''dtcs:'' c \<in> set ranged_functions \<Longrightarrow> ranged_result (evaluate_expression handler h row params (E_call c args))"
    unfolding evaluate_expression.simps by (intro ranged_then binary_ranged negate_ranged call_ranged; assumption)+
  then show ?thesis by (auto simp: ranged_result_def)
qed

subsection \<open>A sample\<close>

definition plain_host :: "unit host" where
  "plain_host = \<lparr>h_binary = \<lambda>_ _ _. None, h_member = \<lambda>_ _. None, h_equal = \<lambda>_ _. False, h_call = \<lambda>_ _. None,
     h_coerce = \<lambda>_ _. None, h_literal = \<lambda>_ _. None, h_text = \<lambda>_. [], h_true = \<lambda>_. True, h_integer = \<lambda>_. None\<rparr>"

lemma sample_sum:
  "snd (evaluate_expression True plain_host [] [] (E_binary ''add'' (E_value (V_int 1)) (E_value (V_int 2)))) = Inr (V_int 3)"
  by code_simp

theorem computed_integers_in_range_witness:
  "fits_64 3
   \<and> snd (evaluate_expression False plain_host [] []
       (E_binary ''add'' (E_value (V_int integer_max)) (E_value (V_int 1)))) = Inl (Runtime ''add'')"
proof -
  have "normalize_operator ''add'' \<in> set checked_operators" by code_simp
  then have "fits_64 3"
    using computed_integers_in_range[of "''add''" True plain_host "[]" "[]" "E_value (V_int 1)" "E_value (V_int 2)" 3]
      sample_sum by (simp only: simp_thms)
  moreover have "snd (evaluate_expression False plain_host [] []
       (E_binary ''add'' (E_value (V_int integer_max)) (E_value (V_int 1)))) = Inl (Runtime ''add'')"
    by code_simp
  ultimately show ?thesis by blast
qed

end
