(* ===== verification/Scalar_Types.thy ===== *)
theory Scalar_Types
  imports Scalar_Safety
begin

text \<open>
  Types for scalar expressions.  An expression is typed when its operators and functions are applied to nullable
  booleans, integers and strings as the portable functions document; evaluating a typed expression on a row of the
  declared types gives a value of its type, and the only issues are those of integer arithmetic and of conversions.
\<close>

datatype ty = T_bool | T_int | T_str

definition value_type :: "'o scalar \<Rightarrow> ty \<Rightarrow> bool" where
  "value_type v t = (case v of V_null \<Rightarrow> True | V_bool _ \<Rightarrow> t = T_bool | V_int _ \<Rightarrow> t = T_int | V_str _ \<Rightarrow> t = T_str
     | _ \<Rightarrow> False)"

lemma value_type_simps [simp]:
  "value_type V_null t" "value_type (V_bool b) t \<longleftrightarrow> t = T_bool" "value_type (V_int i) t \<longleftrightarrow> t = T_int"
  "value_type (V_str s) t \<longleftrightarrow> t = T_str" "\<not> value_type V_missing t" "\<not> value_type V_invalid t" "\<not> value_type (V_other x) t"
  by (simp_all add: value_type_def)

text \<open>The types of the operators.\<close>

definition binary_type :: "string \<Rightarrow> ty \<Rightarrow> ty \<Rightarrow> ty \<Rightarrow> bool" where
  "binary_type op a b t \<longleftrightarrow>
     op \<in> {''null_safe_eq'', ''eq'', ''not_eq'', ''lt'', ''lte'', ''gt'', ''gte''} \<and> a = b \<and> t = T_bool
   \<or> op \<in> {''and'', ''or''} \<and> a = T_bool \<and> b = T_bool \<and> t = T_bool
   \<or> op = ''add'' \<and> a = b \<and> t = a \<and> a \<noteq> T_bool
   \<or> op \<in> {''subtract'', ''multiply'', ''modulo''} \<and> a = T_int \<and> b = T_int \<and> t = T_int"

fun case_type :: "ty list \<Rightarrow> ty \<Rightarrow> bool" where
  "case_type [a] t \<longleftrightarrow> a = t"
| "case_type (c # a # as) t \<longleftrightarrow> c = T_bool \<and> a = t \<and> case_type as t"
| "case_type [] t \<longleftrightarrow> False"

definition call_type :: "string \<Rightarrow> ty list \<Rightarrow> ty \<Rightarrow> bool" where
  "call_type name ts t \<longleftrightarrow>
     name \<in> {''coalesce'', ''least'', ''greatest''} \<and> ts \<noteq> [] \<and> set ts \<subseteq> {t}
   \<or> name \<in> {''if_null'', ''null_if''} \<and> ts = [t, t]
   \<or> name \<in> {''is_null'', ''is_not_null'', ''is_missing'', ''is_invalid''} \<and> length ts = 1 \<and> t = T_bool
   \<or> name = ''in'' \<and> ts \<noteq> [] \<and> t = T_bool
   \<or> name = ''case_when'' \<and> case_type ts t
   \<or> name \<in> {''lower'', ''trim'', ''ltrim'', ''rtrim'', ''normalize_whitespace''} \<and> length ts = 1 \<and> t = T_str
   \<or> name = ''concat'' \<and> t = T_str
   \<or> name = ''replace'' \<and> length ts = 3 \<and> t = T_str
   \<or> name \<in> {''starts_with'', ''ends_with''} \<and> length ts = 2 \<and> t = T_bool
   \<or> name = ''contains'' \<and> ts = [T_str, T_str] \<and> t = T_bool
   \<or> name = ''length'' \<and> ts = [T_str] \<and> t = T_int
   \<or> name \<in> {''abs'', ''floor'', ''ceil'', ''round''} \<and> ts = [T_int] \<and> t = T_int
   \<or> name = ''to_string'' \<and> length ts = 1 \<and> t = T_str
   \<or> name = ''to_integer'' \<and> length ts = 1 \<and> t = T_int"

definition literal_type :: "'o literal \<Rightarrow> ty \<Rightarrow> bool" where
  "literal_type l t = (case l of
     L_plain v \<Rightarrow> value_type v t
   | L_typed n _ \<Rightarrow> (let k = map lower_char n in
       k \<in> {''int'', ''integer'', ''long''} \<and> t = T_int \<or> k \<in> {''bool'', ''boolean''} \<and> t = T_bool))"

type_synonym schema = "string \<Rightarrow> ty option"

inductive typed :: "schema \<Rightarrow> schema \<Rightarrow> 'o expr \<Rightarrow> ty \<Rightarrow> bool" for fs ps where
  typed_value: "value_type v t \<Longrightarrow> typed fs ps (E_value v) t"
| typed_field: "(if parameter then ps k else fs k) = Some t \<Longrightarrow> typed fs ps (E_field parameter k) t"
| typed_literal: "literal_type l t \<Longrightarrow> typed fs ps (E_literal l) t"
| typed_binary: "typed fs ps l a \<Longrightarrow> typed fs ps r b \<Longrightarrow> binary_type (normalize_operator op) a b t \<Longrightarrow>
    typed fs ps (E_binary op l r) t"
| typed_not: "normalize_operator op = ''not'' \<Longrightarrow> typed fs ps e T_bool \<Longrightarrow> typed fs ps (E_unary op e) T_bool"
| typed_negate: "normalize_operator op = ''negate'' \<Longrightarrow> typed fs ps e T_int \<Longrightarrow> typed fs ps (E_unary op e) T_int"
| typed_call: "list_all2 (typed fs ps) es ts \<Longrightarrow> call_type (remove_prefix ''dtcs:'' c) ts t \<Longrightarrow>
    typed fs ps (E_call c es) t"
  monos list_all2_mono

inductive_cases typed_valueE: "typed fs ps (E_value v) t"

definition row_typed :: "schema \<Rightarrow> 'o row \<Rightarrow> bool" where
  "row_typed s row \<longleftrightarrow> (\<forall>k t. s k = Some t \<longrightarrow> value_type (lookup_field row k) t)"

subsection \<open>Sound evaluations\<close>

text \<open>The issues of arithmetic: overflow, division by zero, or a failed conversion.\<close>

definition arithmetic_issue :: "issue \<Rightarrow> bool" where
  "arithmetic_issue i = (case i of
     Conversion _ \<Rightarrow> True
   | Runtime c \<Rightarrow> remove_prefix ''dtcs:'' c \<in> set checked_operators \<union> {''negate''} \<union> set ranged_functions
   | Unsupported _ \<Rightarrow> False)"

definition sound :: "ty \<Rightarrow> 'o scalar ev \<Rightarrow> bool" where
  "sound t m \<longleftrightarrow> (\<exists>v. snd m = Inr v \<and> value_type v t) \<and> list_all arithmetic_issue (fst m)"

definition sound_args :: "ty list \<Rightarrow> 'o scalar list ev \<Rightarrow> bool" where
  "sound_args ts m \<longleftrightarrow> (\<exists>vs. snd m = Inr vs \<and> list_all2 value_type vs ts) \<and> list_all arithmetic_issue (fst m)"

lemma sound_give [intro]: "value_type v t \<Longrightarrow> sound t (give v)"
  by (simp add: sound_def give_def)

lemma sound_caught:
  "arithmetic_issue i \<or> r \<noteq> None \<Longrightarrow> (\<And>v. r = Some v \<Longrightarrow> value_type v t) \<Longrightarrow> sound t (caught True i r)"
  by (auto simp: caught_def sound_def raise_issue_def give_def split: option.split)

lemma sound_then: "sound t m \<Longrightarrow> (\<And>v. value_type v t \<Longrightarrow> sound u (f v)) \<Longrightarrow> sound u (then_do m f)"
  by (cases m) (fastforce simp: sound_def then_do_def split: prod.splits)

lemma sound_then_args: "sound_args ts m \<Longrightarrow> (\<And>vs. list_all2 value_type vs ts \<Longrightarrow> sound u (f vs)) \<Longrightarrow> sound u (then_do m f)"
  by (cases m) (fastforce simp: sound_def sound_args_def then_do_def split: prod.splits)

lemma sound_args_Cons: "sound t m \<Longrightarrow> sound_args ts n \<Longrightarrow>
    sound_args (t # ts) (then_do m (\<lambda>v. then_do n (\<lambda>vs. give (v # vs))))"
  by (cases m; cases n) (auto simp: sound_def sound_args_def then_do_def give_def)

lemma to_boolean_type: "to_boolean h v = Some w \<Longrightarrow> value_type w T_bool"
  by (auto simp: to_boolean_def split: scalar.splits)

lemma to_integer_type: "to_integer h v = Some w \<Longrightarrow> value_type w T_int"
  by (auto simp: to_integer_def split: scalar.splits option.splits if_splits)

lemma literal_sound: "literal_type l t \<Longrightarrow> sound t (literal_value True h l)"
  by (auto simp: literal_type_def literal_value_def Let_def arithmetic_issue_def to_boolean_type to_integer_type
      intro!: sound_give sound_caught split: literal.splits)

lemma checked_type: "value_type v t \<Longrightarrow> checked_integer_result v = Some w \<Longrightarrow> value_type w t"
  by (auto simp: checked_integer_result_def split: scalar.splits if_splits)

lemma checked_int: "checked_integer_result (V_int i) = Some w \<Longrightarrow> value_type w T_int"
  by (rule checked_type) simp_all

lemma typed_shape:
  "value_type x t \<Longrightarrow> x = V_null \<or> (t = T_bool \<and> (\<exists>b. x = V_bool b)) \<or> (t = T_int \<and> (\<exists>i. x = V_int i)) \<or> (t = T_str \<and> (\<exists>s. x = V_str s))"
  by (cases x) auto

lemma typed_not_other: "value_type x t \<Longrightarrow> \<not> is_other x"
  by (cases x) (auto simp: is_other_def)

lemma typed_absent: "value_type x t \<Longrightarrow> absent x \<longleftrightarrow> x = V_null"
  by (cases x) (auto simp: absent_def)

lemma compare_type:
  "value_type x a \<Longrightarrow> value_type y a \<Longrightarrow> x \<noteq> V_null \<Longrightarrow> y \<noteq> V_null \<Longrightarrow>
   \<exists>r. py_compare h op c d x y = Some (V_bool r)"
  by (cases x; cases y) (auto simp: py_compare_def is_other_def as_number_def)

lemma arith_type:
  "value_type x T_int \<Longrightarrow> value_type y T_int \<Longrightarrow> x \<noteq> V_null \<Longrightarrow> y \<noteq> V_null \<Longrightarrow>
   py_arith h op f x y = Some v \<Longrightarrow> value_type v T_int"
  by (cases x; cases y) (auto simp: py_arith_def is_other_def as_number_def)

subsection \<open>Operators\<close>

lemma logic_sound:
  assumes "op \<in> {''and'', ''or''}" "value_type x T_bool" "value_type y T_bool"
  shows "sound T_bool (caught True i (if op = ''and'' then sql_and x y else sql_or x y))"
  using typed_shape[OF assms(2)] typed_shape[OF assms(3)]
  by (intro sound_caught) (auto simp: sql_and_def sql_or_def boolean_or_null_def split: if_splits)

lemma compare_sound:
  assumes "op \<in> {''eq'', ''not_eq'', ''lt'', ''lte'', ''gt'', ''gte''}" "value_type x a" "value_type y a"
    "x \<noteq> V_null" "y \<noteq> V_null"
  shows "\<exists>r. operate h op x y = Some (V_bool r)"
  using assms(1) by (elim insertE emptyE) (simp_all add: operate_def compare_type[OF assms(2-5)])

lemma add_sound:
  assumes "value_type x a" "value_type y a" "x \<noteq> V_null" "y \<noteq> V_null" "a \<noteq> T_bool" "operate h ''add'' x y = Some v"
  shows "value_type v a"
  using assms by (cases x; cases y) (auto simp: operate_def py_arith_def is_other_def as_number_def)

lemma arith_sound:
  assumes "op \<in> {''subtract'', ''multiply'', ''modulo''}" "value_type x T_int" "value_type y T_int"
    "x \<noteq> V_null" "y \<noteq> V_null" "operate h op x y = Some v"
  shows "value_type v T_int"
proof -
  obtain i j where "x = V_int i" "y = V_int j" using typed_shape[OF assms(2)] typed_shape[OF assms(3)] assms(4,5) by auto
  then show ?thesis using assms(1,6)
    by (elim insertE emptyE) (simp_all add: operate_def arith_type[of "V_int i" "V_int j"])
qed

lemma binary_sound:
  assumes ty: "binary_type (normalize_operator op) a b t" and x: "value_type x a" and y: "value_type y b"
  shows "sound t (apply_binary True h op x y)"
proof -
  let ?n = "normalize_operator op"
  note ab = typed_absent[OF x] typed_absent[OF y]
  consider (null_eq) "?n = ''null_safe_eq''" "t = T_bool"
    | (logic) "?n \<in> {''and'', ''or''}" "a = T_bool" "b = T_bool" "t = T_bool"
    | (compare) "?n \<in> {''eq'', ''not_eq'', ''lt'', ''lte'', ''gt'', ''gte''}" "a = b" "t = T_bool"
    | (add) "?n = ''add''" "a = b" "t = a" "a \<noteq> T_bool"
    | (arith) "?n \<in> {''subtract'', ''multiply'', ''modulo''}" "a = T_int" "b = T_int" "t = T_int"
    using ty unfolding binary_type_def by blast
  then show ?thesis
  proof cases
    case null_eq
    then show ?thesis by (simp add: apply_binary_def sound_give)
  next
    case logic
    have "''or'' \<noteq> ''and''" by simp
    then have "apply_binary True h op x y = caught True (Runtime ?n) (if ?n = ''and'' then sql_and x y else sql_or x y)"
      using logic(1) by (elim insertE emptyE) (simp_all add: apply_binary_def)
    then show ?thesis using logic_sound[OF logic(1) x[unfolded logic(2)] y[unfolded logic(3)]] by (simp only: logic(4))
  next
    case compare
    have eq: "apply_binary True h op x y = (if x = V_null \<or> y = V_null then give V_null
        else caught True (Runtime ?n) (operate h ?n x y))"
      using compare(1) ab by (elim insertE emptyE)
        (simp_all add: apply_binary_def binary_operators_def checked_operators_def Let_def split: option.split)
    show ?thesis
    proof (cases "x = V_null \<or> y = V_null")
      case True
      then show ?thesis unfolding eq by (simp add: sound_give)
    next
      case False
      then obtain r where "operate h ?n x y = Some (V_bool r)"
        using compare_sound[OF compare(1) x y[folded compare(2)]] by blast
      then show ?thesis unfolding eq using False compare(3) by (simp add: caught_def sound_give)
    qed
  next
    case add
    have "apply_binary True h op x y = (if x = V_null \<or> y = V_null then give V_null
        else caught True (Runtime ?n) (case operate h ?n x y of None \<Rightarrow> None | Some v \<Rightarrow> checked_integer_result v))"
      using add(1) ab
      by (simp add: apply_binary_def binary_operators_def checked_operators_def Let_def cong: option.case_cong)
    moreover have "arithmetic_issue (Runtime ?n)" using add(1) by (simp add: arithmetic_issue_def checked_operators_def remove_prefix_def starts_with_def)
    ultimately show ?thesis using add_sound[of x a y h] x y add
      by (auto intro!: sound_give sound_caught intro: checked_type split: option.splits)
  next
    case arith
    have "apply_binary True h op x y = (if x = V_null \<or> y = V_null then give V_null
        else caught True (Runtime ?n) (case operate h ?n x y of None \<Rightarrow> None | Some v \<Rightarrow> checked_integer_result v))"
      using arith(1) ab
      by (elim insertE emptyE)
        (simp_all add: apply_binary_def binary_operators_def checked_operators_def Let_def cong: option.case_cong)
    moreover have "arithmetic_issue (Runtime ?n)" using arith(1)
      by (elim insertE emptyE) (simp_all add: arithmetic_issue_def checked_operators_def remove_prefix_def starts_with_def)
    ultimately show ?thesis using arith_sound[OF arith(1), of x y h] x y arith
      by (auto intro!: sound_give sound_caught intro: checked_type split: option.splits)
  qed
qed

lemma not_sound:
  assumes "normalize_operator op = ''not''" "value_type x T_bool"
  shows "sound T_bool (apply_unary True h op x)"
  using typed_shape[OF assms(2)] assms(1) by (auto simp: apply_unary_def absent_def intro!: sound_give)

lemma negate_sound:
  assumes "normalize_operator op = ''negate''" "value_type x T_int"
  shows "sound T_int (apply_unary True h op x)"
proof -
  have "arithmetic_issue (Runtime ''negate'')" by (simp add: arithmetic_issue_def remove_prefix_def starts_with_def)
  then show ?thesis using typed_shape[OF assms(2)] assms(1)
    by (auto simp: apply_unary_def absent_def as_number_def intro!: sound_give sound_caught
        dest: checked_int)
qed

subsection \<open>Functions\<close>

lemma args_typed: "list_all2 value_type vs ts \<Longrightarrow> set ts \<subseteq> {t} \<Longrightarrow> v \<in> set vs \<Longrightarrow> value_type v t"
  by (induction rule: list_all2_induct) auto

lemma args_nonempty: "list_all2 value_type vs ts \<Longrightarrow> ts \<noteq> [] \<Longrightarrow> vs \<noteq> []"
  by auto

lemma args_one: "list_all2 value_type vs ts \<Longrightarrow> length ts = 1 \<Longrightarrow> \<exists>v. vs = [v]"
  by (auto simp: list_all2_Cons2 length_Suc_conv)

lemma coalesce_type:
  "list_all2 value_type vs ts \<Longrightarrow> set ts \<subseteq> {t} \<Longrightarrow>
   value_type (case filter (\<lambda>v. v \<noteq> V_null) vs of [] \<Rightarrow> V_null | v # _ \<Rightarrow> v) t"
proof (cases "filter (\<lambda>v. v \<noteq> V_null) vs")
  case (Cons a as)
  assume t: "list_all2 value_type vs ts" "set ts \<subseteq> {t}"
  have "a \<in> set (filter (\<lambda>v. v \<noteq> V_null) vs)" by (simp add: Cons)
  then have "value_type a t" using args_typed[OF t] by simp
  then show ?thesis by (simp add: Cons)
qed simp

lemma first_match_type:
  "list_all2 value_type vs ts \<Longrightarrow> case_type ts t \<Longrightarrow> \<exists>v. first_match (last vs) vs = Some v \<and> value_type v t"
proof (induction ts t arbitrary: vs rule: case_type.induct)
  case (1 a t)
  then show ?case by (auto simp: list_all2_Cons2)
next
  case (2 c a as t)
  then obtain x v rest where vs: "vs = x # v # rest" "value_type x T_bool" "value_type v t" "list_all2 value_type rest as"
    by (auto simp: list_all2_Cons2)
  have "as \<noteq> []" using 2(3) by (cases as) auto
  then have "rest \<noteq> []" using vs(4) by auto
  then have l: "last vs = last rest" using vs(1) by simp
  have IH: "\<exists>w. first_match (last rest) rest = Some w \<and> value_type w t" using 2 vs(4) by auto
  show ?case using typed_shape[OF vs(2)] IH vs(3) l by (auto simp: vs(1))
qed simp

lemma better_type:
  "value_type x t \<Longrightarrow> value_type y t \<Longrightarrow> x \<noteq> V_null \<Longrightarrow> y \<noteq> V_null \<Longrightarrow>
   \<exists>z. better least x y = Some z \<and> z \<in> {x, y}"
  by (cases x; cases y) (auto simp: better_def as_number_def)

lemma pick_type:
  "value_type x t \<Longrightarrow> x \<noteq> V_null \<Longrightarrow> \<forall>y \<in> set ys. value_type y t \<and> y \<noteq> V_null \<Longrightarrow>
   \<exists>z. pick (better least) x ys = Some z \<and> value_type z t"
proof (induction ys arbitrary: x)
  case (Cons y ys)
  then obtain z where "better least x y = Some z" "z \<in> {x, y}" using better_type[of x t y least] by auto
  then show ?case using Cons by auto
qed simp

lemma extreme_type:
  assumes "list_all2 value_type vs ts" "set ts \<subseteq> {t}" "vs \<noteq> []" "V_null \<notin> set vs"
  shows "\<exists>z. extreme h name vs = Some z \<and> value_type z t"
proof -
  have v: "\<forall>v \<in> set vs. value_type v t \<and> v \<noteq> V_null" using assms(2,4) args_typed[OF assms(1)] by blast
  then have "\<not> list_ex is_other vs" using typed_not_other by (force simp: list_ex_iff)
  moreover have "\<forall>y \<in> set (tl vs). value_type y t \<and> y \<noteq> V_null" "value_type (hd vs) t" "hd vs \<noteq> V_null"
    using v assms(3) by (auto dest: list.set_sel(2))
  ultimately show ?thesis using pick_type[of "hd vs" t "tl vs"] by (auto simp: extreme_def)
qed

lemma dispatch_null: "null_call True h name vs = Some r \<Longrightarrow> dispatch_call True h c name vs = r"
  by (simp add: dispatch_call_def)

lemma dispatch_text:
  "null_call True h name vs = None \<Longrightarrow> conversion_call True h name vs = None \<Longrightarrow> text_call h name vs = Some r \<Longrightarrow>
   dispatch_call True h c name vs = caught True (Runtime c) r"
  by (simp add: dispatch_call_def)

lemma dispatch_number:
  "name \<in> set ranged_functions \<Longrightarrow> number_call h name vs = Some r \<Longrightarrow>
   dispatch_call True h c name vs = caught True (Runtime c) r"
  by (simp add: dispatch_call_def number_not_null number_not_conversion number_not_text)

lemma null_functions_sound:
  assumes "call_type name ts t" "list_all2 value_type vs ts"
    and "name \<in> {''coalesce'', ''if_null'', ''null_if'', ''is_null'', ''is_not_null'', ''is_missing'', ''is_invalid'', ''in'', ''case_when''}"
  shows "sound t (dispatch_call True h c name vs)"
proof -
  consider (coalesce) "name = ''coalesce''" "ts \<noteq> []" "set ts \<subseteq> {t}"
    | (pair) "name \<in> {''if_null'', ''null_if''}" "ts = [t, t]"
    | (state) "name \<in> {''is_null'', ''is_not_null'', ''is_missing'', ''is_invalid''}" "length ts = 1" "t = T_bool"
    | (member) "name = ''in''" "ts \<noteq> []" "t = T_bool"
    | (case_when) "name = ''case_when''" "case_type ts t"
    using assms(1,3) by (elim insertE emptyE) (simp_all add: call_type_def)
  then show ?thesis
  proof cases
    case coalesce
    have "vs \<noteq> []" using assms(2) coalesce by auto
    then have "dispatch_call True h c name vs = give (case filter (\<lambda>v. v \<noteq> V_null) vs of [] \<Rightarrow> V_null | v # _ \<Rightarrow> v)"
      using coalesce(1) by (intro dispatch_null) (simp add: null_call_def)
    then show ?thesis using coalesce_type[OF assms(2) coalesce(3)] by (simp add: sound_give)
  next
    case pair
    then obtain x y where vs: "vs = [x, y]" "value_type x t" "value_type y t" using assms(2) by (auto simp: list_all2_Cons2)
    have "dispatch_call True h c name vs = give (if name = ''if_null'' then (if x = V_null then y else x)
        else (if py_equal h x y then V_null else x))"
      using pair(1) by (intro dispatch_null, elim insertE emptyE) (simp_all add: null_call_def vs(1))
    then show ?thesis using vs by (simp add: sound_give)
  next
    case state
    then obtain v where "vs = [v]" using args_one[OF assms(2)] by auto
    then have "\<exists>b. dispatch_call True h c name vs = give (V_bool b)"
      using state(1) by (elim insertE emptyE) (auto simp: dispatch_call_def null_call_def)
    then obtain b where "dispatch_call True h c name vs = give (V_bool b)" by blast
    then show ?thesis using state(3) by (simp add: sound_give)
  next
    case member
    then have "vs \<noteq> []" using assms(2) by auto
    then have "dispatch_call True h c name vs = give (one_of h (hd vs) (tl vs))"
      using member(1) by (intro dispatch_null) (simp add: null_call_def)
    then show ?thesis using member(3) by (simp add: one_of_def sound_give)
  next
    case case_when
    then have "vs \<noteq> []" using assms(2) by (cases ts) auto
    then have "dispatch_call True h c name vs = caught True (Runtime ''case_when'') (first_match (last vs) vs)"
      using case_when(1) by (intro dispatch_null) (simp add: null_call_def)
    then show ?thesis using first_match_type[OF assms(2) case_when(2)] by (auto intro: sound_caught)
  qed
qed

lemma text_functions_sound:
  assumes "call_type name ts t" "list_all2 value_type vs ts" "V_null \<notin> set vs"
    and "name \<in> {''lower'', ''trim'', ''ltrim'', ''rtrim'', ''normalize_whitespace'', ''concat'', ''replace'',
      ''starts_with'', ''ends_with'', ''contains'', ''length''}"
  shows "sound t (dispatch_call True h c name vs)"
proof -
  have len: "length vs = length ts" using assms(2) by (rule list_all2_lengthD)
  have none: "null_call True h name vs = None" "conversion_call True h name vs = None"
    using assms(4) by (elim insertE emptyE; simp add: null_call_def conversion_call_def)+
  have "\<exists>v. text_call h name vs = Some (Some v) \<and> value_type v t"
  proof -
    consider (one) "name \<in> {''lower'', ''trim'', ''ltrim'', ''rtrim'', ''normalize_whitespace''}" "length ts = 1" "t = T_str"
      | (concat) "name = ''concat''" "t = T_str"
      | (replace) "name = ''replace''" "length ts = 3" "t = T_str"
      | (ends) "name \<in> {''starts_with'', ''ends_with''}" "length ts = 2" "t = T_bool"
      | (contains) "name = ''contains''" "ts = [T_str, T_str]" "t = T_bool"
      | (length) "name = ''length''" "ts = [T_str]" "t = T_int"
      using assms(1,4) by (elim insertE emptyE) (simp_all add: call_type_def)
    then show ?thesis
    proof cases
      case one
      then have "vs \<noteq> []" using len by auto
      then show ?thesis using one(1,3) by (elim insertE emptyE) (simp_all add: text_call_def)
    next
      case contains
      then obtain x y where vs: "vs = [V_str x, V_str y]"
        using assms(2,3) by (auto simp: list_all2_Cons2 dest!: typed_shape)
      then show ?thesis using contains(1,3) by (simp add: text_call_def contains_call_def)
    next
      case length
      then obtain x where vs: "vs = [V_str x]" using assms(2,3) by (auto simp: list_all2_Cons2 dest!: typed_shape)
      then show ?thesis using length(1,3) by (simp add: text_call_def length_call_def)
    next
      case ends
      then show ?thesis using len by (elim insertE emptyE) (simp_all add: text_call_def)
    qed (simp_all add: text_call_def len)
  qed
  then obtain v where "text_call h name vs = Some (Some v)" "value_type v t" by blast
  then show ?thesis by (simp add: dispatch_text[OF none] caught_def sound_give)
qed

lemma number_functions_sound:
  assumes "call_type name ts t" "list_all2 value_type vs ts" "V_null \<notin> set vs"
    and "name \<in> {''abs'', ''floor'', ''ceil'', ''round'', ''least'', ''greatest''}" "remove_prefix ''dtcs:'' c = name"
  shows "sound t (dispatch_call True h c name vs)"
proof -
  have n: "name \<in> set ranged_functions" using assms(4) by (auto simp: ranged_functions_def)
  then have i: "arithmetic_issue (Runtime c)" using assms(5) by (simp add: arithmetic_issue_def)
  have "\<exists>r. number_call h name vs = Some r \<and> (\<forall>v. r = Some v \<longrightarrow> value_type v t)"
  proof (cases "name \<in> {''least'', ''greatest''}")
    case True
    then have ty: "ts \<noteq> []" "set ts \<subseteq> {t}" using assms(1) by (auto simp: call_type_def)
    then have ne: "vs \<noteq> []" using assms(2) by auto
    then have "number_call h name vs = Some (checked (extreme h name vs))"
      using True by (auto simp: number_call_def)
    then show ?thesis using extreme_type[OF assms(2) ty(2) ne assms(3), of h name] by (auto simp: checked_def intro: checked_type)
  next
    case False
    then have ty: "ts = [T_int]" "t = T_int" using assms(1,4) by (auto simp: call_type_def)
    then obtain i where vs: "vs = [V_int i]" using assms(2,3) by (auto simp: list_all2_Cons2 dest!: typed_shape)
    have "name = ''abs'' \<or> name = ''floor'' \<or> name = ''ceil'' \<or> name = ''round''" using assms(4) False by blast
    then have "\<exists>j. number_call h name vs = Some (checked_integer_result (V_int j))"
      by (elim disjE) (simp_all add: number_call_def numeric_def round_call_def vs as_number_def checked_def, blast+)
    then show ?thesis using ty(2) by (auto dest: checked_int)
  qed
  then show ?thesis using i by (auto simp: dispatch_number[OF n] intro!: sound_caught)
qed

lemma conversion_functions_sound:
  assumes "call_type name ts t" "list_all2 value_type vs ts" "name \<in> {''to_string'', ''to_integer''}"
  shows "sound t (dispatch_call True h c name vs)"
proof -
  consider "name = ''to_string''" "length ts = 1" "t = T_str" | "name = ''to_integer''" "length ts = 1" "t = T_int"
    using assms(1,3) by (elim insertE emptyE) (simp_all add: call_type_def)
  moreover obtain v where "length ts = 1 \<Longrightarrow> vs = [v]" using args_one[OF assms(2)] by blast
  ultimately show ?thesis
    by cases (auto simp: dispatch_call_def null_call_def conversion_call_def coerce_value_def arithmetic_issue_def
        to_integer_type intro!: sound_caught)
qed

lemma call_sound:
  assumes ty: "call_type (remove_prefix ''dtcs:'' c) ts t" and vs: "list_all2 value_type vs ts"
  shows "sound t (apply_call True h c vs)"
proof -
  let ?n = "remove_prefix ''dtcs:'' c"
  have known: "?n \<in> set scalar_functions" "?n \<notin> {''cast'', ''try_cast''}" using ty
    by (auto simp: call_type_def scalar_functions_def)
  have "sound t (dispatch_call True h c ?n vs)" if n: "?n \<in> set null_aware \<or> V_null \<notin> set vs"
  proof -
    consider "?n \<in> {''coalesce'', ''if_null'', ''null_if'', ''is_null'', ''is_not_null'', ''is_missing'', ''is_invalid'', ''in'', ''case_when''}"
      | "?n \<in> {''lower'', ''trim'', ''ltrim'', ''rtrim'', ''normalize_whitespace'', ''concat'', ''replace'', ''starts_with'',
          ''ends_with'', ''contains'', ''length''}" "?n \<notin> set null_aware"
      | "?n \<in> {''abs'', ''floor'', ''ceil'', ''round'', ''least'', ''greatest''}" "?n \<notin> set null_aware"
      | "?n \<in> {''to_string'', ''to_integer''}"
      using ty unfolding call_type_def null_aware_def by (elim disjE conjE insertE emptyE) simp_all
    then show ?thesis
      by cases (use n null_functions_sound[OF ty vs] text_functions_sound[OF ty vs] number_functions_sound[OF ty vs _ _ refl]
          conversion_functions_sound[OF ty vs] in blast)+
  qed
  then show ?thesis using known by (auto simp: apply_call_def Let_def intro!: sound_give)
qed

subsection \<open>Typed expressions\<close>

lemma sound_evaluate_args:
  "list_all2 (\<lambda>e t. sound t (evaluate_expression True h row params e)) es ts \<Longrightarrow>
   sound_args ts (evaluate_args True h row params es)"
  by (induction rule: list_all2_induct) (simp_all add: sound_args_Cons, simp add: sound_args_def give_def)

lemma typed_sound:
  assumes "row_typed fs row" "row_typed ps params"
  shows "typed fs ps e t \<Longrightarrow> sound t (evaluate_expression True h row params e)"
proof (induction rule: typed.induct)
  case (typed_field parameter k t)
  then show ?case using assms by (auto simp: row_typed_def intro!: sound_give split: if_splits)
next
  case (typed_binary l a r b op t)
  then show ?case by (auto intro!: sound_then binary_sound)
next
  case (typed_call es ts c t)
  have "list_all2 (\<lambda>e t. sound t (evaluate_expression True h row params e)) es ts"
    using typed_call.IH by (auto elim: list_all2_mono)
  then show ?case by (auto intro!: sound_then_args sound_evaluate_args call_sound[OF typed_call.hyps])
qed (auto intro!: sound_give literal_sound sound_then not_sound negate_sound)

text \<open>
  C32: Typed expressions are safe: on a row and parameters of the declared types, a typed expression evaluates to null or
  to a value of its type, and every issue on the way is an integer operation out of range, a division by zero or a failed
  conversion; no operand is ever of a wrong type and nothing is unsupported.
\<close>

theorem typed_expressions_safe:
  assumes "row_typed fs row" "row_typed ps params" "typed fs ps e t"
  shows "\<exists>log v. evaluate_expression True h row params e = (log, Inr v) \<and> value_type v t \<and> list_all arithmetic_issue log"
  using typed_sound[OF assms(1-3), of h] by (cases "evaluate_expression True h row params e") (auto simp: sound_def)

subsection \<open>Three-valued logic\<close>

text \<open>
  Negation distributes over the connectives of three-valued logic, failures included: both sides evaluate the operands in
  the same order and report the same issues.
\<close>

theorem de_morgan:
  assumes "typed fs ps l T_bool" "typed fs ps r T_bool" "row_typed fs row" "row_typed ps params"
  shows "evaluate_expression True h row params (E_unary ''not'' (E_binary ''and'' l r))
       = evaluate_expression True h row params (E_binary ''or'' (E_unary ''not'' l) (E_unary ''not'' r))"
proof -
  obtain il a where l: "evaluate_expression True h row params l = (il, Inr a)" "value_type a T_bool"
    using typed_sound[OF assms(3,4,1), of h] by (cases "evaluate_expression True h row params l") (auto simp: sound_def)
  obtain ir b where r: "evaluate_expression True h row params r = (ir, Inr b)" "value_type b T_bool"
    using typed_sound[OF assms(3,4,2), of h] by (cases "evaluate_expression True h row params r") (auto simp: sound_def)
  show ?thesis using typed_shape[OF l(2)] typed_shape[OF r(2)]
    by (auto simp: l r then_do_def apply_binary_def apply_unary_def normalize_operator_def operator_aliases_def
        sql_and_def sql_or_def boolean_or_null_def caught_def give_def absent_def Let_def)
qed

subsection \<open>Missing values\<close>

text \<open>
  Missing values are not handled as the documentation of the portable functions says: \<open>coalesce\<close> and \<open>if_null\<close> do not
  replace them, and a conversion turns the missing state into the text \<open>MISSING\<close> or into true.
\<close>

theorem missing_leaks:
  assumes "fst (evaluate_expression True h row params e) = []"
    and "snd (evaluate_expression True h row params e) = Inr V_missing"
  shows "snd (evaluate_expression True h row params (E_call ''dtcs:coalesce'' [e, E_value v])) = Inr V_missing
    \<and> snd (evaluate_expression True h row params (E_call ''dtcs:if_null'' [e, E_value v])) = Inr V_missing
    \<and> snd (evaluate_expression True h row params (E_call ''dtcs:to_string'' [e])) = Inr (V_str ''MISSING'')
    \<and> snd (evaluate_expression True h row params (E_call ''dtcs:cast'' [e, E_value (V_str ''boolean'')])) = Inr (V_bool True)"
proof -
  have e: "evaluate_expression True h row params e = ([], Inr V_missing)" using assms by (simp add: prod_eq_iff)
  have n: "remove_prefix ''dtcs:'' ''dtcs:coalesce'' = ''coalesce''" "remove_prefix ''dtcs:'' ''dtcs:if_null'' = ''if_null''"
    "remove_prefix ''dtcs:'' ''dtcs:to_string'' = ''to_string''" "remove_prefix ''dtcs:'' ''dtcs:cast'' = ''cast''"
    by (simp_all add: remove_prefix_def starts_with_def)
  have t: "cast_target h [V_missing, V_str ''boolean''] = ''boolean''"
    by (simp add: cast_target_def py_text_def cast_aliases_def lower_char_def)
  show ?thesis
    by (simp add: e n t then_do_def give_def apply_call_def dispatch_call_def scalar_functions_def null_aware_def
        null_call_def conversion_call_def coerce_value_def py_text_def to_boolean_def py_true_def caught_def cast_types_def)
qed

subsection \<open>A sample\<close>

definition amount_row :: "unit row" where
  "amount_row = [(''amount'', V_int integer_max)]"

definition positive :: "unit expr" where
  "positive = E_binary ''gt'' (E_field False ''amount'') (E_value (V_int 0))"

definition sample_schema :: schema where
  "sample_schema k = (if k = ''amount'' then Some T_int else None)"

lemma sample_row_typed: "row_typed sample_schema amount_row" "row_typed (\<lambda>_. None) []"
  by (auto simp: row_typed_def sample_schema_def amount_row_def lookup_field_def split: if_splits)

lemma amount_typed: "typed sample_schema (\<lambda>_. None) (E_field False ''amount'') T_int"
  by (rule typed_field) (simp add: sample_schema_def)

lemma positive_typed: "typed sample_schema (\<lambda>_. None) positive T_bool"
  unfolding positive_def
  by (rule typed_binary[OF amount_typed typed_value[of _ T_int]]) (simp_all add: binary_type_def normalize_operator_def operator_aliases_def)

lemma increment_typed: "typed sample_schema (\<lambda>_. None) (E_binary ''add'' (E_field False ''amount'') (E_value (V_int 1))) T_int"
  by (rule typed_binary[OF amount_typed typed_value[of _ T_int]]) (simp_all add: binary_type_def normalize_operator_def operator_aliases_def)

theorem typed_expressions_safe_witness:
  "(\<exists>log v. evaluate_expression True plain_host amount_row [] (E_binary ''add'' (E_field False ''amount'') (E_value (V_int 1)))
      = (log, Inr v) \<and> value_type v T_int \<and> list_all arithmetic_issue log)
   \<and> evaluate_expression True plain_host amount_row [] (E_binary ''add'' (E_field False ''amount'') (E_value (V_int 1)))
      = ([Runtime ''add''], Inr V_null)"
proof -
  have "evaluate_expression True plain_host amount_row [] (E_binary ''add'' (E_field False ''amount'') (E_value (V_int 1)))
      = ([Runtime ''add''], Inr V_null)"
    by code_simp
  then show ?thesis using typed_expressions_safe[OF sample_row_typed increment_typed] by blast
qed

theorem de_morgan_witness:
  "evaluate_expression True plain_host amount_row [] (E_unary ''not'' (E_binary ''and'' positive positive))
   = evaluate_expression True plain_host amount_row [] (E_binary ''or'' (E_unary ''not'' positive) (E_unary ''not'' positive))"
  by (rule de_morgan[OF positive_typed positive_typed sample_row_typed])

theorem missing_leaks_witness:
  "snd (evaluate_expression True plain_host [] [] (E_call ''dtcs:coalesce'' [E_literal (L_typed ''missing'' V_null), E_value (V_int 0)]))
   = Inr V_missing"
proof -
  have "evaluate_expression True plain_host [] [] (E_literal (L_typed ''missing'' V_null)) = ([], Inr V_missing)"
    by code_simp
  then show ?thesis using missing_leaks[of plain_host "[]" "[]" "E_literal (L_typed ''missing'' V_null)"] by simp
qed

end
