(* ===== verification/Relational.thy ===== *)
theory Relational
  imports Scalar_Expr Adaptive_Model
begin

text \<open>
  The relational actions of the local engine (\<open>_apply\<close> and \<open>execute\<close> in \<open>transform/local_compiler.py\<close>).  A relation is a
  list of rows, a row a dictionary from field names to values, and an action is what its parameters decode to.
  Expressions are evaluated without a handler, so the first issue raises.  The arguments besides the host of
  the evaluator are \<open>it\<close>, the iteration order of a set of names, and in \<open>engine\<close> the \<open>repr\<close> and the NaN test of host values.
\<close>

record 'o engine =
  en_host :: "'o host"
  en_repr :: "'o \<Rightarrow> string"
  en_nan :: "'o \<Rightarrow> bool"
  en_order :: "string list \<Rightarrow> string list"

datatype rel_error =
    Bad_expression issue
  | Not_a_number
  | Not_orderable
  | Missing_not_supported
  | Field_counts
  | Incompatible_fields
  | Unsupported_join string
  | Unsupported_collision
  | Key_arity
  | Field_collision "string list"
  | Aggregate_type
  | Unsupported_action string
  | Unresolved_output string

type_synonym 'a rel = "rel_error + 'a"

text \<open>A loop that computes something for every element and stops at the first error.\<close>

fun collect :: "('a \<Rightarrow> 'b rel) \<Rightarrow> 'a list \<Rightarrow> 'b list rel" where
  "collect f [] = Inr []"
| "collect f (x # xs) = (case f x of
     Inl e \<Rightarrow> Inl e
   | Inr y \<Rightarrow> (case collect f xs of Inl e \<Rightarrow> Inl e | Inr ys \<Rightarrow> Inr (y # ys)))"

definition eval_in :: "'o engine \<Rightarrow> 'o row \<Rightarrow> 'o row \<Rightarrow> 'o expr \<Rightarrow> 'o scalar rel" where
  "eval_in en params row e = (case snd (evaluate_expression False (en_host en) row params e) of
     Inl i \<Rightarrow> Inl (Bad_expression i) | Inr v \<Rightarrow> Inr v)"

subsection \<open>Row-wise actions\<close>

definition merge_rows :: "'o row \<Rightarrow> 'o row \<Rightarrow> 'o row" where
  "merge_rows l r = fold (\<lambda>(k, v) d. dput k v d) r l"

definition filter_rows :: "'o engine \<Rightarrow> 'o row \<Rightarrow> 'o expr \<Rightarrow> 'o row list \<Rightarrow> 'o row list rel" where
  "filter_rows en params p rows =
     (case collect (\<lambda>r. case eval_in en params r p of Inl e \<Rightarrow> Inl e | Inr v \<Rightarrow> Inr (r, v)) rows of
        Inl e \<Rightarrow> Inl e | Inr rvs \<Rightarrow> Inr (map fst (filter (\<lambda>(r, v). v = V_bool True) rvs)))"

text \<open>A projected field is a name or a name with an expression.\<close>

datatype 'o field = Plain string | Computed string "'o expr"

definition project_field :: "'o engine \<Rightarrow> 'o row \<Rightarrow> 'o row \<Rightarrow> 'o field \<Rightarrow> (string \<times> 'o scalar) rel" where
  "project_field en params row f = (case f of
     Plain n \<Rightarrow> Inr (n, lookup_field row n)
   | Computed n e \<Rightarrow> (case eval_in en params row e of Inl x \<Rightarrow> Inl x | Inr v \<Rightarrow> Inr (n, v)))"

definition project_row :: "'o engine \<Rightarrow> 'o row \<Rightarrow> 'o field list \<Rightarrow> 'o row \<Rightarrow> 'o row rel" where
  "project_row en params fs row = (case collect (project_field en params row) fs of
     Inl e \<Rightarrow> Inl e | Inr kvs \<Rightarrow> Inr (dict_of kvs))"

definition with_fields_row :: "'o engine \<Rightarrow> 'o row \<Rightarrow> (string \<times> 'o expr) list \<Rightarrow> 'o row \<Rightarrow> 'o row rel" where
  "with_fields_row en params assignments row =
     (case collect (\<lambda>(n, e). project_field en params row (Computed n e)) assignments of
        Inl e \<Rightarrow> Inl e | Inr kvs \<Rightarrow> Inr (merge_rows row (dict_of kvs)))"

definition drop_row :: "string list \<Rightarrow> 'o row \<Rightarrow> 'o row" where
  "drop_row names row = filter (\<lambda>(k, v). k \<notin> set names) row"

definition rename_row :: "(string, string) pydict \<Rightarrow> 'o row \<Rightarrow> 'o row" where
  "rename_row m row = dict_of (map (\<lambda>(k, v). (case dget m k of None \<Rightarrow> k | Some n \<Rightarrow> n, v)) row)"

definition limit_rows :: "int \<Rightarrow> 'o row list \<Rightarrow> 'o row list" where
  "limit_rows n rows = take (slice_bound (length rows) n) rows"

subsection \<open>Distinct rows\<close>

text \<open>\<open>repr\<close> tells apart all modelled values; host values are told apart by their own.\<close>

definition repr_of :: "'o engine \<Rightarrow> 'o scalar \<Rightarrow> unit scalar + string" where
  "repr_of en v = (case v of
     V_null \<Rightarrow> Inl V_null | V_missing \<Rightarrow> Inl V_missing | V_invalid \<Rightarrow> Inl V_invalid | V_bool b \<Rightarrow> Inl (V_bool b)
   | V_int i \<Rightarrow> Inl (V_int i) | V_str s \<Rightarrow> Inl (V_str s) | V_other x \<Rightarrow> Inr (en_repr en x))"

definition row_key :: "'o engine \<Rightarrow> string list \<Rightarrow> 'o row \<Rightarrow> (string \<times> (unit scalar + string)) list" where
  "row_key en keys row = (if keys \<noteq> [] then map (\<lambda>k. (k, repr_of en (lookup_field row k))) keys
     else map (\<lambda>(k, v). (k, repr_of en v)) (sort_key fst row))"

definition distinct_rows :: "'o engine \<Rightarrow> string list \<Rightarrow> 'o row list \<Rightarrow> 'o row list" where
  "distinct_rows en keys rows = fst (fold (\<lambda>r (out, seen). let k = row_key en keys r in
     if k \<in> set seen then (out, seen) else (out @ [r], k # seen)) rows ([], []))"

subsection \<open>Sorting\<close>

record 'o sort_spec =
  so_expression :: "'o expr"
  so_descending :: bool
  so_nulls :: string

text \<open>The comparison of two values under one key; \<open>None\<close> where Python raises.\<close>

definition compare_values :: "'o engine \<Rightarrow> bool \<Rightarrow> string \<Rightarrow> 'o scalar \<Rightarrow> 'o scalar \<Rightarrow> int option" where
  "compare_values en descending nulls a b =
     (if a = V_null \<or> b = V_null then
        (if a = b then Some 0
         else Some (let r = (if a = V_null then -1 else 1) in if nulls = ''last'' then - r else r))
      else (case (py_compare (en_host en) ''gt'' (>) (>) a b, py_compare (en_host en) ''lt'' (<) (<) a b) of
        (Some g, Some l) \<Rightarrow> (let greater = py_true (en_host en) g; less = py_true (en_host en) l in
          if greater \<and> less then None
          else if greater then Some (if descending then -1 else 1)
          else if less then Some (if descending then 1 else -1)
          else if py_equal (en_host en) a b then Some 0 else None)
      | _ \<Rightarrow> None))"

fun compare_keys :: "'o engine \<Rightarrow> 'o sort_spec list \<Rightarrow> 'o scalar list \<Rightarrow> 'o scalar list \<Rightarrow> int option" where
  "compare_keys en (k # ks) (a # as) (b # bs) = (case compare_values en (so_descending k) (so_nulls k) a b of
     None \<Rightarrow> None
   | Some r \<Rightarrow> if r \<noteq> 0 then Some r else compare_keys en ks as bs)"
| "compare_keys en _ _ _ = Some 0"

text \<open>Stable insertion from the right: an element goes before the equal ones that follow it.\<close>

fun insert_stable :: "('a \<Rightarrow> 'a \<Rightarrow> bool) \<Rightarrow> 'a \<Rightarrow> 'a list \<Rightarrow> 'a list" where
  "insert_stable le x [] = [x]"
| "insert_stable le x (y # ys) = (if le x y then x # y # ys else y # insert_stable le x ys)"

definition sort_stable :: "('a \<Rightarrow> 'a \<Rightarrow> bool) \<Rightarrow> 'a list \<Rightarrow> 'a list" where
  "sort_stable le xs = foldr (insert_stable le) xs []"

fun all_pairs :: "('a \<Rightarrow> 'a \<Rightarrow> bool) \<Rightarrow> 'a list \<Rightarrow> bool" where
  "all_pairs P [] \<longleftrightarrow> True"
| "all_pairs P (x # xs) \<longleftrightarrow> list_all (P x) xs \<and> all_pairs P xs"

text \<open>
  \<open>sorted\<close> with a comparison that raises: every comparison sort compares the neighbours of its result, so two rows that cannot
  be ordered make it raise.
\<close>

definition sort_rows :: "'o engine \<Rightarrow> 'o row \<Rightarrow> 'o sort_spec list \<Rightarrow> 'o row list \<Rightarrow> 'o row list rel" where
  "sort_rows en params keys rows =
     (case collect (\<lambda>r. case collect (\<lambda>k. eval_in en params r (so_expression k)) keys of
          Inl e \<Rightarrow> Inl e
        | Inr vs \<Rightarrow> if list_ex (\<lambda>v. case v of V_other x \<Rightarrow> en_nan en x | _ \<Rightarrow> False) vs then Inl Not_a_number
            else Inr (r, vs)) rows of
        Inl e \<Rightarrow> Inl e
      | Inr values \<Rightarrow> (if \<not> all_pairs (\<lambda>x y. compare_keys en keys (snd x) (snd y) \<noteq> None) values then Inl Not_orderable
          else Inr (map fst (sort_stable (\<lambda>x y. case compare_keys en keys (snd x) (snd y) of Some r \<Rightarrow> r \<le> 0 | None \<Rightarrow> False)
            values))))"

subsection \<open>Unions\<close>

text \<open>\<open>dict.fromkeys\<close> keeps the first occurrence of every name.\<close>

definition field_names :: "'o row list \<Rightarrow> string list" where
  "field_names rows = rev (remdups (rev (concat (map (map fst) rows))))"

definition union_by_position :: "bool \<Rightarrow> 'o row list \<Rightarrow> 'o row list \<Rightarrow> 'o row list rel" where
  "union_by_position allow_missing rows right =
     (let ln = field_names rows; rn = field_names right; names = (if ln \<noteq> [] then ln else rn) in
      if allow_missing then Inl Missing_not_supported
      else if ln \<noteq> [] \<and> rn \<noteq> [] \<and> length ln \<noteq> length rn then Inl Field_counts
      else if list_ex (\<lambda>r. length r \<noteq> length names) (rows @ right) then Inl Field_counts
      else Inr (rows @ map (\<lambda>r. dict_of (zip names (map snd r))) right))"

definition union_by_name :: "bool \<Rightarrow> 'o row list \<Rightarrow> 'o row list \<Rightarrow> 'o row list rel" where
  "union_by_name allow_missing rows right =
     (let ln = field_names rows; rn = field_names right; names = ln @ filter (\<lambda>n. n \<notin> set ln) rn in
      if \<not> allow_missing \<and> rows \<noteq> [] \<and> right \<noteq> [] \<and> set ln \<noteq> set rn then Inl Incompatible_fields
      else Inr (map (\<lambda>r. map (\<lambda>n. (n, lookup_field r n)) names) (rows @ right)))"

definition union_rows :: "string \<Rightarrow> bool \<Rightarrow> 'o row list \<Rightarrow> 'o row list \<Rightarrow> 'o row list rel" where
  "union_rows mode allow_missing rows right =
     (if map lower_char mode = ''byposition'' then union_by_position allow_missing rows right
      else union_by_name allow_missing rows right)"

subsection \<open>Joins\<close>

record join_spec =
  jo_type :: string
  jo_left_keys :: "string list"
  jo_right_keys :: "string list"
  jo_null_safe :: bool
  jo_collision :: string

definition join_types :: "string list" where
  "join_types = [''inner'', ''left'', ''right'', ''full'', ''semi'', ''anti'', ''cross'']"

definition join_type :: "join_spec \<Rightarrow> string" where
  "join_type j = (let how = map lower_char (jo_type j) in if how = ''outer'' then ''full'' else how)"

definition keys_equal :: "'o engine \<Rightarrow> bool \<Rightarrow> 'o scalar \<Rightarrow> 'o scalar \<Rightarrow> bool" where
  "keys_equal en null_safe a b = (if a = V_null \<or> b = V_null then null_safe \<and> a = V_null \<and> b = V_null
     else py_equal (en_host en) a b)"

definition row_matches :: "'o engine \<Rightarrow> join_spec \<Rightarrow> 'o row \<Rightarrow> 'o row \<Rightarrow> bool" where
  "row_matches en j l r \<longleftrightarrow> join_type j = ''cross'' \<or>
     list_all (\<lambda>(lk, rk). keys_equal en (jo_null_safe j) (lookup_field l lk) (lookup_field r rk))
       (zip (jo_left_keys j) (jo_right_keys j))"

definition shared_keys :: "join_spec \<Rightarrow> string list" where
  "shared_keys j = map fst (filter (\<lambda>(lk, rk). lk = rk) (zip (jo_left_keys j) (jo_right_keys j)))"

definition null_fields :: "'o engine \<Rightarrow> string list \<Rightarrow> 'o row" where
  "null_fields en ns = map (\<lambda>n. (n, V_null)) (en_order en ns)"

definition indexed :: "'a list \<Rightarrow> (nat \<times> 'a) list" where
  "indexed xs = zip [0..<length xs] xs"

text \<open>The rows that one left row contributes, with the right rows it has matched so far.\<close>

definition join_left_row :: "'o engine \<Rightarrow> join_spec \<Rightarrow> string list \<Rightarrow> 'o row list \<Rightarrow> 'o row \<Rightarrow>
    'o row list \<times> nat list \<Rightarrow> 'o row list \<times> nat list" where
  "join_left_row en j right_only right l st = (case st of (out, matched) \<Rightarrow>
     (let how = join_type j; ms = filter (\<lambda>(i, r). row_matches en j l r) (indexed right) in
      if how = ''semi'' \<and> ms \<noteq> [] \<or> how = ''anti'' \<and> ms = [] then (out @ [l], matched)
      else if how = ''semi'' \<or> how = ''anti'' then (out, matched)
      else (out @ map (\<lambda>(i, r). merge_rows l r) ms
              @ (if (how = ''left'' \<or> how = ''full'') \<and> ms = [] then [merge_rows l (null_fields en right_only)] else []),
            map fst ms @ matched)))"

definition join_rows :: "'o engine \<Rightarrow> join_spec \<Rightarrow> 'o row list \<Rightarrow> 'o row list \<Rightarrow> 'o row list rel" where
  "join_rows en j rows right =
     (let how = join_type j; lf = field_names rows; rf = field_names right;
        collisions = filter (\<lambda>n. n \<in> set rf \<and> n \<notin> set (shared_keys j)) lf in
      if how \<notin> set join_types then Inl (Unsupported_join how)
      else if map lower_char (jo_collision j) \<noteq> ''fail'' then Inl Unsupported_collision
      else if length (jo_left_keys j) \<noteq> length (jo_right_keys j) then Inl Key_arity
      else if collisions \<noteq> [] \<and> how \<noteq> ''semi'' \<and> how \<noteq> ''anti'' then Inl (Field_collision (sort collisions))
      else (case fold (join_left_row en j (filter (\<lambda>n. n \<notin> set lf) rf) right) rows ([], []) of (out, matched) \<Rightarrow>
        Inr (out @ (if how = ''right'' \<or> how = ''full''
          then map (\<lambda>(i, r). merge_rows (null_fields en (filter (\<lambda>n. n \<notin> set rf) lf)) r)
                 (filter (\<lambda>(i, r). i \<notin> set matched) (indexed right))
          else []))))"

subsection \<open>Aggregates\<close>

text \<open>What an aggregate reads of the members of a group: an expression, a field, or the whole rows.\<close>

datatype 'o agg_input = From_expr "'o expr" | From_field string | From_rows

record 'o aggregate =
  ag_function :: string
  ag_input :: "'o agg_input"
  ag_name :: string

definition group_key :: "string list \<Rightarrow> 'o row \<Rightarrow> 'o scalar list" where
  "group_key groups row = map (lookup_field row) groups"

text \<open>Buckets in the order of their first row; keys are compared with \<open>==\<close>, as in a dictionary.\<close>

fun add_to_bucket :: "'o engine \<Rightarrow> 'o scalar list \<Rightarrow> 'o row \<Rightarrow> ('o scalar list \<times> 'o row list) list \<Rightarrow>
    ('o scalar list \<times> 'o row list) list" where
  "add_to_bucket en k r [] = [(k, [r])]"
| "add_to_bucket en k r ((k', rs) # bs) = (if list_all2 (py_equal (en_host en)) k' k then (k', rs @ [r]) # bs
     else (k', rs) # add_to_bucket en k r bs)"

definition buckets :: "'o engine \<Rightarrow> string list \<Rightarrow> 'o row list \<Rightarrow> ('o scalar list \<times> 'o row list) list" where
  "buckets en groups rows = (let bs = fold (\<lambda>r bs. add_to_bucket en (group_key groups r) r bs) rows [] in
     if bs = [] \<and> groups = [] then [([], [])] else bs)"

definition input_values :: "'o engine \<Rightarrow> 'o row \<Rightarrow> 'o agg_input \<Rightarrow> 'o row list \<Rightarrow> 'o scalar list rel" where
  "input_values en params inp members = (case inp of
     From_expr e \<Rightarrow> (case collect (\<lambda>m. eval_in en params m e) members of
       Inl x \<Rightarrow> Inl x | Inr vs \<Rightarrow> Inr (filter (\<lambda>v. v \<noteq> V_null) vs))
   | From_field f \<Rightarrow> Inr (filter (\<lambda>v. v \<noteq> V_null) (map (\<lambda>m. lookup_field m f) members))
   | From_rows \<Rightarrow> Inr [])"

definition py_sum :: "'o engine \<Rightarrow> 'o scalar list \<Rightarrow> 'o scalar option" where
  "py_sum en vs = fold (\<lambda>v acc. case acc of None \<Rightarrow> None | Some a \<Rightarrow> operate (en_host en) ''add'' a v) vs (Some (V_int 0))"

definition rel_of_opt :: "'o scalar option \<Rightarrow> 'o scalar rel" where
  "rel_of_opt r = (case r of None \<Rightarrow> Inl Aggregate_type | Some v \<Rightarrow> Inr v)"

text \<open>
  One aggregate of a group.  Whole rows can only be counted: adding or comparing dictionaries raises, except that \<open>min\<close>
  and \<open>max\<close> of a single row would return the row, which is no value of a column.
\<close>

definition aggregate_value :: "'o engine \<Rightarrow> string \<Rightarrow> 'o agg_input \<Rightarrow> 'o row list \<Rightarrow> 'o scalar list \<Rightarrow> 'o scalar rel" where
  "aggregate_value en f inp members vs =
     (if f = ''dtcs:count_all'' then Inr (V_int (int (length members)))
      else if f = ''dtcs:count'' then Inr (V_int (int (length (if inp = From_rows then map (\<lambda>_. V_null) members else vs))))
      else if f = ''dtcs:count_distinct'' then Inr (V_int (int (if inp = From_rows
          then length (remdups (map (map (\<lambda>(k, v). (k, repr_of en v))) members))
          else length (remdups (map (repr_of en) vs)))))
      else if inp = From_rows \<and> f \<in> {''dtcs:sum'', ''dtcs:average'', ''dtcs:min'', ''dtcs:max''} \<and> members \<noteq> []
        then Inl Aggregate_type
      else if f = ''dtcs:sum'' then rel_of_opt (py_sum en vs)
      else if f = ''dtcs:average'' then (if vs = [] then Inr V_null
        else (case py_sum en vs of None \<Rightarrow> Inl Aggregate_type
          | Some s \<Rightarrow> rel_of_opt (operate (en_host en) ''divide'' s (V_int (int (length vs))))))
      else if f = ''dtcs:min'' then (if vs = [] then Inr V_null else rel_of_opt (extreme (en_host en) ''least'' vs))
      else if f = ''dtcs:max'' then (if vs = [] then Inr V_null else rel_of_opt (extreme (en_host en) ''greatest'' vs))
      else Inr V_null)"

definition aggregate_field :: "'o engine \<Rightarrow> 'o row \<Rightarrow> 'o row list \<Rightarrow> 'o aggregate \<Rightarrow> (string \<times> 'o scalar) rel" where
  "aggregate_field en params members a = (case input_values en params (ag_input a) members of
     Inl e \<Rightarrow> Inl e
   | Inr vs \<Rightarrow> (case aggregate_value en (ag_function a) (ag_input a) members vs of
       Inl e \<Rightarrow> Inl e | Inr v \<Rightarrow> Inr (ag_name a, v)))"

definition aggregate_bucket :: "'o engine \<Rightarrow> 'o row \<Rightarrow> string list \<Rightarrow> 'o aggregate list \<Rightarrow>
    'o scalar list \<times> 'o row list \<Rightarrow> 'o row rel" where
  "aggregate_bucket en params groups aggs b = (case b of (k, members) \<Rightarrow>
     (case collect (aggregate_field en params members) aggs of
        Inl e \<Rightarrow> Inl e | Inr kvs \<Rightarrow> Inr (merge_rows (dict_of (zip groups k)) kvs)))"

definition aggregate_rows :: "'o engine \<Rightarrow> 'o row \<Rightarrow> string list \<Rightarrow> 'o aggregate list \<Rightarrow> 'o row list \<Rightarrow> 'o row list rel" where
  "aggregate_rows en params groups aggs rows = collect (aggregate_bucket en params groups aggs) (buckets en groups rows)"

subsection \<open>Actions and plans\<close>

datatype 'o action =
    Act_filter "'o expr"
  | Act_project "'o field list"
  | Act_with_fields "(string \<times> 'o expr) list"
  | Act_drop "string list"
  | Act_rename "(string, string) pydict"
  | Act_limit int
  | Act_distinct "string list"
  | Act_sort "'o sort_spec list"
  | Act_union string string bool
  | Act_join string join_spec
  | Act_aggregate "string list" "'o aggregate list"
  | Act_unknown string

type_synonym 'o relations = "(string, 'o row list) pydict"

definition relation_named :: "'o relations \<Rightarrow> string \<Rightarrow> 'o row list" where
  "relation_named rels n = (case dget rels n of None \<Rightarrow> [] | Some rows \<Rightarrow> rows)"

definition apply_action :: "'o engine \<Rightarrow> 'o row \<Rightarrow> 'o relations \<Rightarrow> 'o action \<Rightarrow> 'o row list \<Rightarrow> 'o row list rel" where
  "apply_action en params rels a rows = (case a of
     Act_filter p \<Rightarrow> filter_rows en params p rows
   | Act_project fs \<Rightarrow> collect (project_row en params fs) rows
   | Act_with_fields as \<Rightarrow> collect (with_fields_row en params as) rows
   | Act_drop ns \<Rightarrow> Inr (map (drop_row ns) rows)
   | Act_rename m \<Rightarrow> Inr (map (rename_row m) rows)
   | Act_limit n \<Rightarrow> Inr (limit_rows n rows)
   | Act_distinct ks \<Rightarrow> Inr (distinct_rows en ks rows)
   | Act_sort ks \<Rightarrow> sort_rows en params ks rows
   | Act_union other mode allow_missing \<Rightarrow> union_rows mode allow_missing rows (relation_named rels other)
   | Act_join right j \<Rightarrow> join_rows en j rows (relation_named rels right)
   | Act_aggregate groups aggs \<Rightarrow> aggregate_rows en params groups aggs rows
   | Act_unknown n \<Rightarrow> Inl (Unsupported_action n))"

record 'o step =
  st_target :: string
  st_action :: "'o action"
  st_id :: string

definition source_of :: "'o relations \<Rightarrow> string \<Rightarrow> 'o row list" where
  "source_of rels target = (if target \<noteq> [] then relation_named rels target
     else (case rels of [] \<Rightarrow> [] | (_, rows) # _ \<Rightarrow> rows))"

fun run_steps :: "'o engine \<Rightarrow> 'o row \<Rightarrow> 'o step list \<Rightarrow> 'o relations \<Rightarrow> 'o relations rel" where
  "run_steps en params [] rels = Inr rels"
| "run_steps en params (s # ss) rels =
     (case apply_action en params rels (st_action s) (source_of rels (st_target s)) of
        Inl e \<Rightarrow> Inl e | Inr out \<Rightarrow> run_steps en params ss (dput (st_id s) out rels))"

record 'o local_plan =
  lp_inputs :: "string list"
  lp_steps :: "'o step list"
  lp_dependencies :: "(string \<times> string) list"
  lp_ports :: "string list"

definition bind_inputs :: "string list \<Rightarrow> 'o relations \<Rightarrow> 'o relations" where
  "bind_inputs ids rels = (case (rels, ids) of
     ([(_, rows)], i # _) \<Rightarrow> if dget rels i = None then dput i rows rels else rels
   | _ \<Rightarrow> rels)"

definition fallback_relation :: "'o local_plan \<Rightarrow> 'o relations \<Rightarrow> string" where
  "fallback_relation p rels = (if lp_steps p \<noteq> [] \<and> st_id (last (lp_steps p)) \<noteq> [] then st_id (last (lp_steps p))
     else case lp_inputs p of i # _ \<Rightarrow> i | [] \<Rightarrow> (case rels of (n, _) # _ \<Rightarrow> n | [] \<Rightarrow> []))"

definition port_relation :: "'o local_plan \<Rightarrow> 'o relations \<Rightarrow> string \<Rightarrow> string" where
  "port_relation p rels port = (case filter (\<lambda>(from, to). to = port) (lp_dependencies p) of
     (from, _) # _ \<Rightarrow> from | [] \<Rightarrow> fallback_relation p rels)"

definition execute_plan :: "'o engine \<Rightarrow> 'o row \<Rightarrow> 'o local_plan \<Rightarrow> 'o relations \<Rightarrow> (string, 'o row list) pydict rel" where
  "execute_plan en params p inputs = (case run_steps en params (lp_steps p) (bind_inputs (lp_inputs p) inputs) of
     Inl e \<Rightarrow> Inl e
   | Inr rels \<Rightarrow> (case collect (\<lambda>port. let n = port_relation p rels port in
         case dget rels n of None \<Rightarrow> Inl (Unresolved_output n) | Some rows \<Rightarrow> Inr (port, rows)) (lp_ports p) of
       Inl e \<Rightarrow> Inl e | Inr kvs \<Rightarrow> Inr (dict_of kvs)))"

end
