(* ===== verification/Relational_Laws.thy ===== *)
theory Relational_Laws
  imports Relational
begin

text \<open>
  The relational meaning of the local engine's actions: joins against a reference without indices, stable sorting
  by a total preorder of rows, and the partition that grouping makes.
\<close>

declare split_paired_All [simp del] split_paired_Ex [simp del]

subsection \<open>Samples\<close>

text \<open>An engine without host values, and two small relations.\<close>

definition plain_engine :: "unit engine" where
  "plain_engine = \<lparr>en_host = \<lparr>h_binary = \<lambda>_ _ _. None, h_member = \<lambda>_ _. None, h_equal = \<lambda>_ _. False, h_call = \<lambda>_ _. None,
     h_coerce = \<lambda>_ _. None, h_literal = \<lambda>_ _. None, h_text = \<lambda>_. [], h_true = \<lambda>_. True, h_integer = \<lambda>_. None\<rparr>,
   en_repr = \<lambda>_. [], en_nan = \<lambda>_. False, en_order = \<lambda>ns. ns\<rparr>"

definition sample_left :: "unit row list" where
  "sample_left = [[(''k'', V_int 2), (''a'', V_str ''x'')], [(''k'', V_null), (''a'', V_str ''y'')], [(''k'', V_int 1), (''a'', V_str ''z'')],
     [(''k'', V_bool True), (''a'', V_str ''w'')]]"

definition sample_right :: "unit row list" where
  "sample_right = [[(''k'', V_int 1), (''b'', V_int 10)], [(''k'', V_int 3), (''b'', V_int 30)]]"

definition sample_join :: join_spec where
  "sample_join = \<lparr>jo_type = ''outer'', jo_left_keys = [''k''], jo_right_keys = [''k''], jo_null_safe = False, jo_collision = ''fail''\<rparr>"

definition sample_sort :: "unit sort_spec list" where
  "sample_sort = [\<lparr>so_expression = E_field False ''k'', so_descending = False, so_nulls = ''last''\<rparr>]"

subsection \<open>Joins\<close>

lemma map_snd_indexed: "map snd (indexed xs) = xs"
  by (simp add: indexed_def)

lemma filter_indexed: "map snd (filter (\<lambda>(i, r). P r) (indexed xs)) = filter P xs"
proof -
  have "map snd (filter (\<lambda>x. P (snd x)) (indexed xs)) = filter P (map snd (indexed xs))"
    by (simp add: filter_map comp_def)
  then show ?thesis by (simp add: map_snd_indexed case_prod_unfold)
qed

lemma indexed_nth: "(i, r) \<in> set (indexed xs) \<longleftrightarrow> i < length xs \<and> r = xs ! i"
  by (auto simp: indexed_def in_set_zip intro!: exI[of _ i])

lemma filter_indexed_empty: "filter (\<lambda>(i, r). P r) (indexed xs) = [] \<longleftrightarrow> (\<forall>r \<in> set xs. \<not> P r)"
proof -
  have "filter (\<lambda>(i, r). P r) (indexed xs) = [] \<longleftrightarrow> map snd (filter (\<lambda>(i, r). P r) (indexed xs)) = []" by simp
  also have "\<dots> \<longleftrightarrow> (\<forall>r \<in> set xs. \<not> P r)" by (simp only: filter_indexed filter_empty_conv)
  finally show ?thesis .
qed

text \<open>What one left row contributes to a join.\<close>

definition joined_row :: "'o engine \<Rightarrow> join_spec \<Rightarrow> string list \<Rightarrow> 'o row list \<Rightarrow> 'o row \<Rightarrow> 'o row list" where
  "joined_row en j right_only right l = (let how = join_type j; ms = filter (row_matches en j l) right in
     if how = ''semi'' then (if ms \<noteq> [] then [l] else [])
     else if how = ''anti'' then (if ms = [] then [l] else [])
     else if ms = [] then (if how = ''left'' \<or> how = ''full'' then [merge_rows l (null_fields en right_only)] else [])
     else map (merge_rows l) ms)"

definition matched_indices :: "'o engine \<Rightarrow> join_spec \<Rightarrow> 'o row list \<Rightarrow> 'o row \<Rightarrow> nat set" where
  "matched_indices en j right l = (if join_type j = ''semi'' \<or> join_type j = ''anti'' then {}
     else {i. i < length right \<and> row_matches en j l (right ! i)})"

lemma join_left_row_eq:
  "fst (join_left_row en j right_only right l (out, matched)) = out @ joined_row en j right_only right l
   \<and> set (snd (join_left_row en j right_only right l (out, matched))) = matched_indices en j right l \<union> set matched"
proof -
  let ?ms = "filter (\<lambda>(i, r). row_matches en j l r) (indexed right)"
  have e: "?ms = [] \<longleftrightarrow> filter (row_matches en j l) right = []"
    by (rule trans[OF filter_indexed_empty]) (simp add: filter_empty_conv)
  have m: "map (\<lambda>(i, r). merge_rows l r) ?ms = map (merge_rows l) (filter (row_matches en j l) right)"
  proof -
    have "map (\<lambda>(i, r). merge_rows l r) ?ms = map (merge_rows l) (map snd ?ms)" by (simp add: case_prod_unfold)
    also have "map snd ?ms = filter (row_matches en j l) right" by (rule filter_indexed)
    finally show ?thesis .
  qed
  have i: "set (map fst ?ms) = {i. i < length right \<and> row_matches en j l (right ! i)}"
    by (force simp: indexed_nth)
  have d: "''semi'' \<noteq> ''anti''" by simp
  show ?thesis
    using d by (cases "?ms = []")
      (auto simp only: join_left_row_def joined_row_def matched_indices_def Let_def prod.case e m i fst_conv snd_conv
        simp_thms if_True if_False append_Nil2 set_append append_Nil list.map list.set set_empty split: if_split)
qed

lemma join_fold_eq:
  "fst (fold (join_left_row en j ro right) rows st) = fst st @ concat (map (joined_row en j ro right) rows)
   \<and> set (snd (fold (join_left_row en j ro right) rows st)) = (\<Union>l \<in> set rows. matched_indices en j right l) \<union> set (snd st)"
proof (induction rows arbitrary: st)
  case (Cons l rows)
  obtain out matched where st: "st = (out, matched)" by (cases st)
  show ?case using Cons.IH[of "join_left_row en j ro right l st"] join_left_row_eq[of en j ro right l out matched]
    by (simp add: st Un_ac)
qed simp

text \<open>
  C39: Joins mean what their names say.  When a join succeeds, its result is the concatenation over the left rows of what each
  contributes (the merged pairs for every right row that matches; the row itself for a semi join with a match or an
  anti join without; a row padded with nulls for an unmatched row of a left or full join), followed, for right and full
  joins, by every right row that no left row matches, padded with nulls.
\<close>

theorem join_exact:
  assumes "join_rows en j rows right = Inr out"
  shows "out = concat (map (joined_row en j (filter (\<lambda>n. n \<notin> set (field_names rows)) (field_names right)) right) rows)
    @ (if join_type j = ''right'' \<or> join_type j = ''full''
       then map (merge_rows (null_fields en (filter (\<lambda>n. n \<notin> set (field_names right)) (field_names rows))))
         (filter (\<lambda>r. \<forall>l \<in> set rows. \<not> row_matches en j l r) right)
       else [])"
proof -
  let ?ro = "filter (\<lambda>n. n \<notin> set (field_names rows)) (field_names right)"
  let ?lo = "filter (\<lambda>n. n \<notin> set (field_names right)) (field_names rows)"
  obtain o1 m where f: "fold (join_left_row en j ?ro right) rows ([], []) = (o1, m)" by fastforce
  have o1: "o1 = concat (map (joined_row en j ?ro right) rows)" and m: "set m = (\<Union>l \<in> set rows. matched_indices en j right l)"
    using join_fold_eq[of en j ?ro right rows "([], [])"] by (simp_all add: f)
  have out: "out = o1 @ (if join_type j = ''right'' \<or> join_type j = ''full''
      then map (\<lambda>(i, r). merge_rows (null_fields en ?lo) r) (filter (\<lambda>(i, r). i \<notin> set m) (indexed right)) else [])"
    using assms f by (auto simp: join_rows_def Let_def split: if_splits)
  have tail: "map (\<lambda>(i, r). merge_rows (null_fields en ?lo) r) (filter (\<lambda>(i, r). i \<notin> set m) (indexed right))
      = map (merge_rows (null_fields en ?lo)) (filter (\<lambda>r. \<forall>l \<in> set rows. \<not> row_matches en j l r) right)"
    if "join_type j = ''right'' \<or> join_type j = ''full''"
  proof -
    have "join_type j \<noteq> ''semi''" "join_type j \<noteq> ''anti''" using that by auto
    then have "filter (\<lambda>(i, r). i \<notin> set m) (indexed right)
        = filter (\<lambda>(i, r). \<forall>l \<in> set rows. \<not> row_matches en j l r) (indexed right)"
      by (intro filter_cong) (auto simp: indexed_nth m matched_indices_def)
    then have "map (\<lambda>(i, r). merge_rows (null_fields en ?lo) r) (filter (\<lambda>(i, r). i \<notin> set m) (indexed right))
        = map (merge_rows (null_fields en ?lo))
            (map snd (filter (\<lambda>(i, r). \<forall>l \<in> set rows. \<not> row_matches en j l r) (indexed right)))"
      by (simp add: case_prod_unfold)
    then show ?thesis unfolding filter_indexed .
  qed
  show ?thesis using tail by (simp only: out o1 split: if_split) blast
qed

theorem join_exact_witness:
  "\<exists>out. join_rows plain_engine sample_join sample_left sample_right = Inr out \<and> length out = 5
     \<and> out = concat (map (joined_row plain_engine sample_join
         (filter (\<lambda>n. n \<notin> set (field_names sample_left)) (field_names sample_right)) sample_right) sample_left)
       @ map (merge_rows (null_fields plain_engine (filter (\<lambda>n. n \<notin> set (field_names sample_right)) (field_names sample_left))))
           (filter (\<lambda>r. \<forall>l \<in> set sample_left. \<not> row_matches plain_engine sample_join l r) sample_right)"
proof -
  have "case join_rows plain_engine sample_join sample_left sample_right of Inr out \<Rightarrow> length out = 5 | Inl _ \<Rightarrow> False"
    by code_simp
  then obtain out where out: "join_rows plain_engine sample_join sample_left sample_right = Inr out" "length out = 5"
    by (auto split: sum.splits)
  have "join_type sample_join = ''full''" by code_simp
  then show ?thesis using join_exact[OF out(1)] out by (intro exI[of _ out]) simp
qed

subsection \<open>Sorting\<close>

lemma set_insert_stable [simp]: "set (insert_stable le x ys) = insert x (set ys)"
  by (induction ys) auto

lemma count_insert_stable: "count_list (insert_stable le x ys) z = count_list (x # ys) z"
  by (induction ys) auto

lemma sorted_insert_stable:
  assumes le: "\<And>a b c. a \<in> A \<Longrightarrow> b \<in> A \<Longrightarrow> c \<in> A \<Longrightarrow> le a b \<Longrightarrow> le b c \<Longrightarrow> le a c"
    and x: "x \<in> A"
  shows "set ys \<subseteq> A \<Longrightarrow> sorted_wrt le ys \<Longrightarrow> (\<And>y. y \<in> set ys \<Longrightarrow> le x y \<or> le y x) \<Longrightarrow>
    sorted_wrt le (insert_stable le x ys)"
proof (induction ys)
  case (Cons y ys)
  show ?case
  proof (cases "le x y")
    case True
    have "le x z" if "z \<in> set ys" for z
      using le[OF x _ _ True, of z] Cons.prems(1,2) that by auto
    then show ?thesis using Cons.prems(2) True by simp
  next
    case False
    have "sorted_wrt le (insert_stable le x ys)" using Cons.prems by (intro Cons.IH) simp_all
    moreover have "le y x" using Cons.prems(3)[of y] False by simp
    ultimately show ?thesis using Cons.prems(2) False by simp
  qed
qed simp

lemma filter_insert_stable:
  "\<forall>y \<in> set ys. Q x \<and> Q y \<longrightarrow> le x y \<Longrightarrow> filter Q (insert_stable le x ys) = filter Q (x # ys)"
  by (induction ys) auto

lemma sort_stable_Cons: "sort_stable le (x # xs) = insert_stable le x (sort_stable le xs)"
  by (simp add: sort_stable_def)

lemma set_sort_stable [simp]: "set (sort_stable le xs) = set xs"
  by (induction xs) (simp_all add: sort_stable_def)

lemma count_sort_stable: "count_list (sort_stable le xs) z = count_list xs z"
  by (induction xs) (simp add: sort_stable_def, simp add: sort_stable_Cons count_insert_stable)

lemma sorted_sort_stable:
  assumes le: "\<And>a b c. a \<in> A \<Longrightarrow> b \<in> A \<Longrightarrow> c \<in> A \<Longrightarrow> le a b \<Longrightarrow> le b c \<Longrightarrow> le a c"
    and total: "\<And>a b. a \<in> A \<Longrightarrow> b \<in> A \<Longrightarrow> le a b \<or> le b a"
  shows "set xs \<subseteq> A \<Longrightarrow> sorted_wrt le (sort_stable le xs)"
proof (induction xs)
  case (Cons x xs)
  have "sorted_wrt le (sort_stable le xs)" "x \<in> A" "set (sort_stable le xs) \<subseteq> A" using Cons by auto
  then show ?case unfolding sort_stable_Cons using total by (intro sorted_insert_stable[of A le, OF le]) auto
qed (simp add: sort_stable_def)

lemma filter_sort_stable:
  "\<forall>x \<in> set xs. \<forall>y \<in> set xs. Q x \<and> Q y \<longrightarrow> le x y \<Longrightarrow> filter Q (sort_stable le xs) = filter Q xs"
proof (induction xs)
  case (Cons x xs)
  then have "filter Q (sort_stable le xs) = filter Q xs" by auto
  then show ?case unfolding sort_stable_Cons using Cons.prems by (subst filter_insert_stable) auto
qed (simp add: sort_stable_def)

lemma insert_stable_map: "insert_stable le (f x) (map f ys) = map f (insert_stable (\<lambda>a b. le (f a) (f b)) x ys)"
  by (induction ys) auto

lemma sort_stable_map: "sort_stable le (map f xs) = map f (sort_stable (\<lambda>a b. le (f a) (f b)) xs)"
  by (induction xs) (simp add: sort_stable_def, simp add: sort_stable_Cons insert_stable_map)

subsection \<open>The order of rows\<close>

text \<open>The values that Python orders by itself.\<close>

definition native :: "'o scalar \<Rightarrow> bool" where
  "native v = (case v of V_null \<Rightarrow> True | V_bool _ \<Rightarrow> True | V_int _ \<Rightarrow> True | V_str _ \<Rightarrow> True | _ \<Rightarrow> False)"

lemma native_cases:
  "native v \<Longrightarrow> v = V_null \<or> (v \<noteq> V_null \<and> \<not> is_other v \<and> (\<exists>i. as_number v = Some i)) \<or> (\<exists>s. v = V_str s)"
  by (cases v) (auto simp: native_def as_number_def is_other_def)

definition flip :: "bool \<Rightarrow> int \<Rightarrow> int" where
  "flip d r = (if d then - r else r)"

lemma compare_numbers:
  "as_number a = Some i \<Longrightarrow> as_number b = Some j \<Longrightarrow>
   compare_values en d n a b = Some (flip d (if i > j then 1 else if i < j then -1 else 0))"
  by (cases a; cases b) (auto simp: as_number_def compare_values_def py_compare_def is_other_def py_true_def py_equal_def
      flip_def Let_def split: if_splits)

lemma compare_texts:
  "compare_values en d n (V_str s) (V_str t) = Some (flip d (if s > t then 1 else if s < t then -1 else 0))"
  by (auto simp: as_number_def compare_values_def py_compare_def is_other_def py_true_def py_equal_def flip_def Let_def)

lemma compare_mixed:
  "as_number a = Some i \<Longrightarrow> compare_values en d n a (V_str t) = None \<and> compare_values en d n (V_str t) a = None"
  by (cases a) (auto simp: as_number_def compare_values_def py_compare_def is_other_def)

lemma compare_null:
  "compare_values en d n V_null b = (if b = V_null then Some 0 else Some (if n = ''last'' then 1 else -1))"
  "compare_values en d n a V_null = (if a = V_null then Some 0 else Some (if n = ''last'' then -1 else 1))"
  by (auto simp: compare_values_def Let_def)

lemma compare_values_swap:
  assumes "native a" "native b"
  shows "compare_values en d n b a = map_option uminus (compare_values en d n a b)"
  using native_cases[OF assms(1)] native_cases[OF assms(2)]
  by (elim disjE conjE exE) (auto simp: compare_null compare_numbers compare_texts compare_mixed flip_def)

lemma compare_values_refl:
  assumes "native a"
  shows "compare_values en d n a a = Some 0"
  using native_cases[OF assms] by (elim disjE conjE exE) (auto simp: compare_null compare_numbers compare_texts flip_def)

lemma compare_values_trans:
  assumes "native a" "native b" "native c"
    and "compare_values en d n a b = Some r" "compare_values en d n b c = Some s" "compare_values en d n a c = Some t"
    and "r \<le> 0" "s \<le> 0"
  shows "t \<le> 0 \<and> (t = 0 \<longleftrightarrow> r = 0 \<and> s = 0)"
  using native_cases[OF assms(1)] native_cases[OF assms(2)] native_cases[OF assms(3)] assms(4-)
  by (elim disjE conjE exE)
    (auto simp: compare_null compare_numbers compare_texts compare_mixed flip_def split: if_splits)

lemma compare_keys_swap:
  "list_all native as \<Longrightarrow> list_all native bs \<Longrightarrow> compare_keys en ks bs as = map_option uminus (compare_keys en ks as bs)"
proof (induction en ks as bs rule: compare_keys.induct)
  case (1 en k ks a as b bs)
  then show ?case
    by (auto simp: compare_values_swap[of a b] split: option.split)
qed simp_all

lemma compare_keys_refl: "list_all native as \<Longrightarrow> compare_keys en ks as as = Some 0"
proof (induction as arbitrary: ks)
  case (Cons a as)
  then show ?case by (cases ks) (simp_all add: compare_values_refl)
qed simp

lemma compare_keys_trans:
  "list_all native as \<Longrightarrow> list_all native bs \<Longrightarrow> list_all native cs \<Longrightarrow>
   length as = length ks \<Longrightarrow> length bs = length ks \<Longrightarrow> length cs = length ks \<Longrightarrow>
   compare_keys en ks as bs = Some r \<Longrightarrow> compare_keys en ks bs cs = Some s \<Longrightarrow> compare_keys en ks as cs = Some t \<Longrightarrow>
   r \<le> 0 \<Longrightarrow> s \<le> 0 \<Longrightarrow> t \<le> 0 \<and> (t = 0 \<longleftrightarrow> r = 0 \<and> s = 0)"
proof (induction ks arbitrary: as bs cs r s t)
  case (Cons k ks)
  obtain a as' b bs' c cs' where l: "as = a # as'" "bs = b # bs'" "cs = c # cs'"
    using Cons.prems(4-6) by (auto simp: length_Suc_conv)
  obtain x y z where v: "compare_values en (so_descending k) (so_nulls k) a b = Some x"
    "compare_values en (so_descending k) (so_nulls k) b c = Some y" "compare_values en (so_descending k) (so_nulls k) a c = Some z"
    using Cons.prems(7-9) by (auto simp: l split: option.splits)
  have n: "native a" "native b" "native c" "list_all native as'" "list_all native bs'" "list_all native cs'"
    using Cons.prems(1-3) by (simp_all add: l)
  have "x \<le> 0" "y \<le> 0" using Cons.prems(7,8,10,11) by (auto simp: l v split: if_splits)
  then have z: "z \<le> 0" "z = 0 \<longleftrightarrow> x = 0 \<and> y = 0" using compare_values_trans[OF n(1-3) v] by simp_all
  show ?case
  proof (cases "x = 0 \<and> y = 0")
    case True
    then show ?thesis using Cons.IH[OF n(4-6)] Cons.prems(4-) z by (simp add: l v)
  next
    case False
    then have "t = z" "r = 0 \<and> s = 0 \<Longrightarrow> x = 0 \<and> y = 0"
      using Cons.prems(7-9) z by (auto simp: l v split: if_splits)
    then show ?thesis using False z by auto
  qed
qed simp

lemma all_pairs_ball:
  assumes "\<And>x y. x \<in> A \<Longrightarrow> y \<in> A \<Longrightarrow> P x y \<Longrightarrow> P y x" and "\<And>x. x \<in> A \<Longrightarrow> P x x"
  shows "all_pairs P xs \<Longrightarrow> set xs \<subseteq> A \<Longrightarrow> \<forall>x \<in> set xs. \<forall>y \<in> set xs. P x y"
proof (induction xs)
  case (Cons a xs)
  then show ?case using assms by (auto simp: list_all_iff)
qed simp

text \<open>The sort key of a row, and the comparison of two rows by it.\<close>

definition sort_values :: "'o engine \<Rightarrow> 'o row \<Rightarrow> 'o sort_spec list \<Rightarrow> 'o row \<Rightarrow> 'o scalar list" where
  "sort_values en params keys r = map (\<lambda>k. case eval_in en params r (so_expression k) of Inr v \<Rightarrow> v | Inl _ \<Rightarrow> V_invalid) keys"

definition row_order :: "'o engine \<Rightarrow> 'o row \<Rightarrow> 'o sort_spec list \<Rightarrow> 'o row \<Rightarrow> 'o row \<Rightarrow> int option" where
  "row_order en params keys x y = compare_keys en keys (sort_values en params keys x) (sort_values en params keys y)"

lemma collect_Inr: "collect f xs = Inr ys \<longleftrightarrow> map f xs = map Inr ys"
proof (induction xs arbitrary: ys)
  case (Cons x xs)
  show ?case
  proof (cases ys)
    case (Cons y ys')
    then show ?thesis using Cons.IH[of ys'] by (auto split: sum.splits)
  qed (auto split: sum.splits)
qed auto

lemma collect_eval:
  "collect (\<lambda>k. eval_in en params r (so_expression k)) keys = Inr vs \<Longrightarrow> vs = sort_values en params keys r"
  unfolding collect_Inr sort_values_def
  by (induction keys arbitrary: vs) (auto simp: Cons_eq_map_conv)

lemma length_sort_values [simp]: "length (sort_values en params keys r) = length keys"
  by (simp add: sort_values_def)

text \<open>What a successful sort computed.\<close>

lemma sort_rows_Inr:
  assumes "sort_rows en params keys rows = Inr out"
  shows "all_pairs (\<lambda>x y. row_order en params keys x y \<noteq> None) rows
    \<and> out = sort_stable (\<lambda>x y. case row_order en params keys x y of Some r \<Rightarrow> r \<le> 0 | None \<Rightarrow> False) rows"
proof -
  let ?f = "\<lambda>r. (r, sort_values en params keys r)"
  obtain vals where c: "collect (\<lambda>r. case collect (\<lambda>k. eval_in en params r (so_expression k)) keys of
          Inl e \<Rightarrow> Inl e
        | Inr vs \<Rightarrow> if list_ex (\<lambda>v. case v of V_other x \<Rightarrow> en_nan en x | _ \<Rightarrow> False) vs then Inl Not_a_number
            else Inr (r, vs)) rows = Inr vals"
    and a: "all_pairs (\<lambda>x y. compare_keys en keys (snd x) (snd y) \<noteq> None) vals"
    and o: "out = map fst (sort_stable (\<lambda>x y. case compare_keys en keys (snd x) (snd y) of Some r \<Rightarrow> r \<le> 0 | None \<Rightarrow> False) vals)"
    using assms unfolding sort_rows_def by (auto split: sum.splits if_splits)
  have v: "vals = map ?f rows" using c unfolding collect_Inr
  proof (induction rows arbitrary: vals)
    case (Cons r rows)
    then show ?case by (auto simp: Cons_eq_map_conv map_eq_Cons_conv dest!: collect_eval split: sum.splits if_splits)
  qed simp
  have "all_pairs (\<lambda>x y. compare_keys en keys (snd x) (snd y) \<noteq> None) (map ?f xs)
      = all_pairs (\<lambda>x y. row_order en params keys x y \<noteq> None) xs" for xs
    by (induction xs) (auto simp: list_all_iff row_order_def)
  then show ?thesis using a by (simp add: v o sort_stable_map comp_def row_order_def)
qed

text \<open>
  C40: A sort returns a sorted, stable rearrangement of its rows.  When sorting by keys whose values are null, booleans, integers or
  strings succeeds, the result has every row as often as the input, no row comes after one that orders strictly later,
  and rows that order the same keep the order they came in.
\<close>

theorem sort_exact:
  assumes sorted: "sort_rows en params keys rows = Inr out"
    and native: "\<forall>r \<in> set rows. list_all native (sort_values en params keys r)"
  shows "(\<forall>r. count_list out r = count_list rows r)
    \<and> sorted_wrt (\<lambda>x y. \<exists>c. row_order en params keys x y = Some c \<and> c \<le> 0) out
    \<and> (\<forall>r \<in> set rows. filter (\<lambda>x. row_order en params keys r x = Some 0) out = filter (\<lambda>x. row_order en params keys r x = Some 0) rows)"
proof -
  let ?le = "\<lambda>x y. case row_order en params keys x y of Some r \<Rightarrow> r \<le> 0 | None \<Rightarrow> False"
  have le: "?le = (\<lambda>x y. \<exists>c. row_order en params keys x y = Some c \<and> c \<le> 0)"
    by (auto simp: fun_eq_iff split: option.split)
  have out: "out = sort_stable ?le rows" and ap: "all_pairs (\<lambda>x y. row_order en params keys x y \<noteq> None) rows"
    using sort_rows_Inr[OF sorted] by simp_all
  have swap: "row_order en params keys y x = map_option uminus (row_order en params keys x y)"
    if "x \<in> set rows" "y \<in> set rows" for x y
    unfolding row_order_def by (rule compare_keys_swap) (use native that in auto)
  have refl: "row_order en params keys x x = Some 0" if "x \<in> set rows" for x
    unfolding row_order_def by (rule compare_keys_refl) (use native that in auto)
  have "\<forall>x \<in> set rows. \<forall>y \<in> set rows. row_order en params keys x y \<noteq> None"
  proof (rule all_pairs_ball[OF _ _ ap subset_refl])
    fix x y assume "x \<in> set rows" "y \<in> set rows" "row_order en params keys x y \<noteq> None"
    then show "row_order en params keys y x \<noteq> None" by (simp only: swap[of x y] option.map_disc_iff) simp
  qed (simp add: refl)
  then have def: "\<exists>r. row_order en params keys x y = Some r" if "x \<in> set rows" "y \<in> set rows" for x y
    using that by auto
  have trans: "t \<le> 0 \<and> (t = 0 \<longleftrightarrow> r = 0 \<and> s = 0)"
    if "x \<in> set rows" "y \<in> set rows" "z \<in> set rows" "row_order en params keys x y = Some r"
      "row_order en params keys y z = Some s" "row_order en params keys x z = Some t" "r \<le> 0" "s \<le> 0" for x y z r s t
    by (rule compare_keys_trans[OF _ _ _ _ _ _ that(4-6)[unfolded row_order_def] that(7,8)]) (use native that(1-3) in auto)
  have "sorted_wrt ?le (sort_stable ?le rows)"
  proof (rule sorted_sort_stable[OF _ _ subset_refl])
    fix a b c assume m: "a \<in> set rows" "b \<in> set rows" "c \<in> set rows" and "?le a b" "?le b c"
    then obtain r s where "row_order en params keys a b = Some r" "r \<le> 0" "row_order en params keys b c = Some s" "s \<le> 0"
      by (auto split: option.splits)
    then show "?le a c" using def[OF m(1,3)] trans[OF m] by fastforce
  next
    fix a b assume m: "a \<in> set rows" "b \<in> set rows"
    then show "?le a b \<or> ?le b a" using def[OF m] swap[OF m] by fastforce
  qed
  moreover have "filter (\<lambda>x. row_order en params keys q x = Some 0) (sort_stable ?le rows)
      = filter (\<lambda>x. row_order en params keys q x = Some 0) rows" if q: "q \<in> set rows" for q
  proof (rule filter_sort_stable, intro ballI impI)
    fix x y assume m: "x \<in> set rows" "y \<in> set rows"
      and e: "row_order en params keys q x = Some 0 \<and> row_order en params keys q y = Some 0"
    obtain t where "row_order en params keys x y = Some t" using def[OF m] by blast
    then show "?le x y" using trans[OF m(1) q m(2), of 0 0 t] swap[OF q m(1)] e by simp
  qed
  ultimately show ?thesis unfolding out by (simp add: count_sort_stable le)
qed

theorem sort_exact_witness:
  "\<exists>out. sort_rows plain_engine [] sample_sort sample_left = Inr out
     \<and> map (\<lambda>r. lookup_field r ''a'') out = [V_str ''z'', V_str ''w'', V_str ''x'', V_str ''y'']
     \<and> sorted_wrt (\<lambda>x y. \<exists>c. row_order plain_engine [] sample_sort x y = Some c \<and> c \<le> 0) out"
proof -
  have "case sort_rows plain_engine [] sample_sort sample_left of
      Inr out \<Rightarrow> map (\<lambda>r. lookup_field r ''a'') out = [V_str ''z'', V_str ''w'', V_str ''x'', V_str ''y''] | Inl _ \<Rightarrow> False"
    by code_simp
  then obtain out where out: "sort_rows plain_engine [] sample_sort sample_left = Inr out"
    "map (\<lambda>r. lookup_field r ''a'') out = [V_str ''z'', V_str ''w'', V_str ''x'', V_str ''y'']"
    by (auto split: sum.splits)
  have n: "\<forall>r \<in> set sample_left. list_all native (sort_values plain_engine [] sample_sort r)" by code_simp
  show ?thesis by (rule exI[of _ out], intro conjI out) (rule sort_exact[OF out(1) n, THEN conjunct2, THEN conjunct1])
qed

subsection \<open>Grouping\<close>

text \<open>Python's equality of native values is equality up to the identification of booleans with 0 and 1.\<close>

definition norm_key :: "'o scalar \<Rightarrow> 'o scalar" where
  "norm_key v = (case as_number v of Some i \<Rightarrow> V_int i | None \<Rightarrow> v)"

lemma py_equal_native: "native a \<Longrightarrow> native b \<Longrightarrow> py_equal h a b \<longleftrightarrow> norm_key a = norm_key b"
  by (cases a; cases b) (auto simp: native_def norm_key_def py_equal_def as_number_def is_other_def)

lemma keys_equal_native:
  "list_all native xs \<Longrightarrow> list_all native ys \<Longrightarrow> list_all2 (py_equal h) xs ys \<longleftrightarrow> map norm_key xs = map norm_key ys"
proof (induction xs arbitrary: ys)
  case (Cons x xs)
  then show ?case by (cases ys) (auto simp: py_equal_native)
qed auto

definition key_of :: "string list \<Rightarrow> 'o row \<Rightarrow> 'o scalar list" where
  "key_of groups r = map norm_key (group_key groups r)"

text \<open>Buckets that group exactly the rows seen so far.\<close>

definition grouping :: "string list \<Rightarrow> 'o row list \<Rightarrow> ('o scalar list \<times> 'o row list) list \<Rightarrow> bool" where
  "grouping groups rows bs \<longleftrightarrow> list_all (\<lambda>b. list_all native (fst b)) bs
     \<and> distinct (map (map norm_key \<circ> fst) bs)
     \<and> (\<forall>b \<in> set bs. snd b = filter (\<lambda>r. key_of groups r = map norm_key (fst b)) rows)
     \<and> (\<forall>r \<in> set rows. key_of groups r \<in> set (map (map norm_key \<circ> fst) bs))"

lemma add_to_bucket_new:
  assumes "list_all native k" "list_all (\<lambda>b. list_all native (fst b)) bs"
  shows "map norm_key k \<notin> set (map (map norm_key \<circ> fst) bs) \<Longrightarrow> add_to_bucket en k r bs = bs @ [(k, [r])]"
  using assms(2)
proof (induction bs)
  case (Cons b bs)
  then show ?case using assms(1) by (cases b) (auto simp: keys_equal_native)
qed simp

lemma add_to_bucket_old:
  assumes "list_all native k" "list_all (\<lambda>b. list_all native (fst b)) bs"
  shows "map norm_key k \<in> set (map (map norm_key \<circ> fst) bs) \<Longrightarrow> distinct (map (map norm_key \<circ> fst) bs) \<Longrightarrow>
    add_to_bucket en k r bs = map (\<lambda>b. if map norm_key (fst b) = map norm_key k then (fst b, snd b @ [r]) else b) bs"
  using assms(2)
proof (induction bs)
  case (Cons b bs)
  obtain k' rs where b: "b = (k', rs)" by (cases b)
  show ?case
  proof (cases "map norm_key k' = map norm_key k")
    case True
    then have "map (\<lambda>b. if map norm_key (fst b) = map norm_key k then (fst b, snd b @ [r]) else b) bs = bs"
      using Cons.prems(2) by (intro map_idI) (force simp: b)
    then show ?thesis using True Cons.prems assms(1) by (simp add: b keys_equal_native)
  next
    case False
    then show ?thesis using Cons.prems assms(1) by (auto simp: b keys_equal_native Cons.IH)
  qed
qed simp

lemma grouping_step:
  assumes g: "grouping groups rows bs" and n: "list_all native (group_key groups r)"
  shows "grouping groups (rows @ [r]) (add_to_bucket en (group_key groups r) r bs)"
proof -
  let ?k = "group_key groups r"
  have nb: "list_all (\<lambda>b. list_all native (fst b)) bs" and d: "distinct (map (map norm_key \<circ> fst) bs)"
    and m: "\<And>b. b \<in> set bs \<Longrightarrow> snd b = filter (\<lambda>r. key_of groups r = map norm_key (fst b)) rows"
    and c: "\<And>r. r \<in> set rows \<Longrightarrow> key_of groups r \<in> set (map (map norm_key \<circ> fst) bs)"
    using g by (simp_all add: grouping_def)
  show ?thesis
  proof (cases "key_of groups r \<in> set (map (map norm_key \<circ> fst) bs)")
    case True
    let ?f = "\<lambda>b. if map norm_key (fst b) = map norm_key ?k then (fst b, snd b @ [r]) else b"
    have a: "add_to_bucket en ?k r bs = map ?f bs"
      using True d by (intro add_to_bucket_old n nb) (simp_all add: key_of_def)
    have k: "map (map norm_key \<circ> fst) (map ?f bs) = map (map norm_key \<circ> fst) bs" by simp
    have "snd b = filter (\<lambda>r. key_of groups r = map norm_key (fst b)) (rows @ [r])" if "b \<in> set (map ?f bs)" for b
      using that m by (auto simp: key_of_def split: if_splits)
    moreover have "list_all (\<lambda>b. list_all native (fst b)) (map ?f bs)" using nb by (auto simp: list_all_iff)
    moreover have "\<forall>x \<in> set (rows @ [r]). key_of groups x \<in> set (map (map norm_key \<circ> fst) bs)"
      using c True by (simp only: set_append list.set Un_iff) blast
    ultimately show ?thesis unfolding grouping_def a k using d by (simp only: simp_thms) blast
  next
    case False
    have a: "add_to_bucket en ?k r bs = bs @ [(?k, [r])]"
      using False by (intro add_to_bucket_new n nb) (simp add: key_of_def)
    have "filter (\<lambda>x. key_of groups x = key_of groups r) rows = []"
    proof -
      have "key_of groups x \<noteq> key_of groups r" if "x \<in> set rows" for x using c[OF that] False by metis
      then show ?thesis by (simp add: filter_empty_conv)
    qed
    then have new: "[r] = filter (\<lambda>x. key_of groups x = map norm_key ?k) (rows @ [r])"
      by (simp add: key_of_def)
    have old: "snd b = filter (\<lambda>r. key_of groups r = map norm_key (fst b)) (rows @ [r])" if b: "b \<in> set bs" for b
    proof -
      have "key_of groups r \<noteq> map norm_key (fst b)" using False b by force
      then show ?thesis using m[OF b] by simp
    qed
    have k: "map (map norm_key \<circ> fst) (bs @ [(?k, [r])]) = map (map norm_key \<circ> fst) bs @ [key_of groups r]"
      by (simp add: key_of_def)
    have "\<forall>x \<in> set (rows @ [r]). key_of groups x \<in> set (map (map norm_key \<circ> fst) bs @ [key_of groups r])"
      using c by simp
    moreover have "\<forall>b \<in> set (bs @ [(?k, [r])]). snd b = filter (\<lambda>r. key_of groups r = map norm_key (fst b)) (rows @ [r])"
    proof
      fix b assume "b \<in> set (bs @ [(?k, [r])])"
      then consider "b \<in> set bs" | "b = (?k, [r])" by auto
      then show "snd b = filter (\<lambda>r. key_of groups r = map norm_key (fst b)) (rows @ [r])"
        by cases (rule old, assumption, use new in \<open>simp only: fst_conv snd_conv\<close>)
    qed
    moreover have "distinct (map (map norm_key \<circ> fst) bs @ [key_of groups r])" using d False by simp
    ultimately show ?thesis unfolding grouping_def a k using nb n by simp
  qed
qed

lemma grouping_fold:
  "\<forall>r \<in> set rows. list_all native (group_key groups r) \<Longrightarrow>
   grouping groups rows (fold (\<lambda>r bs. add_to_bucket en (group_key groups r) r bs) rows [])"
proof (induction rows rule: rev_induct)
  case (snoc r rows)
  then show ?case by (simp add: grouping_step)
qed (simp add: grouping_def)

text \<open>
  Grouping partitions the rows.  When the grouping fields of all rows hold nulls, booleans, integers or strings, the
  buckets of an aggregate have pairwise different keys (True and 1 are the same key, as in a dictionary), each bucket
  holds exactly the rows with its key, in their order, and every row is in a bucket.
\<close>

theorem groups_partition_rows:
  assumes "\<forall>r \<in> set rows. list_all native (group_key groups r)"
  shows "distinct (map (map norm_key \<circ> fst) (buckets en groups rows))
    \<and> (\<forall>(k, members) \<in> set (buckets en groups rows). members = filter (\<lambda>r. key_of groups r = map norm_key k) rows)
    \<and> (\<forall>r \<in> set rows. \<exists>(k, members) \<in> set (buckets en groups rows). r \<in> set members)"
proof -
  let ?bs = "fold (\<lambda>r bs. add_to_bucket en (group_key groups r) r bs) rows []"
  have g: "grouping groups rows ?bs" by (rule grouping_fold[OF assms])
  have mem: "r \<in> set (filter (\<lambda>x. key_of groups x = map norm_key (fst b)) rows)"
    if "r \<in> set rows" "key_of groups r = map norm_key (fst b)" for r b using that by simp
  have part: "distinct (map (map norm_key \<circ> fst) ?bs)
    \<and> (\<forall>(k, members) \<in> set ?bs. members = filter (\<lambda>r. key_of groups r = map norm_key k) rows)
    \<and> (\<forall>r \<in> set rows. \<exists>(k, members) \<in> set ?bs. r \<in> set members)"
    using g unfolding grouping_def by (fastforce simp: case_prod_unfold)
  show ?thesis
  proof (cases "?bs = [] \<and> groups = []")
    case True
    with g have "grouping groups rows []" by argo
    then have "set rows = {}" unfolding grouping_def by simp
    then have "rows = []" by simp
    then show ?thesis using True by (simp add: buckets_def)
  next
    case False
    then have "buckets en groups rows = ?bs" unfolding buckets_def Let_def by argo
    then show ?thesis using part by simp
  qed
qed

theorem groups_partition_rows_witness:
  "map (length \<circ> snd) (buckets plain_engine [''k''] sample_left) = [1, 1, 2]
   \<and> distinct (map (map norm_key \<circ> fst) (buckets plain_engine [''k''] sample_left))"
proof -
  have n: "\<forall>r \<in> set sample_left. list_all native (group_key [''k''] r)" by code_simp
  have "map (length \<circ> snd) (buckets plain_engine [''k''] sample_left) = [1, 1, 2]" by code_simp
  then show ?thesis using groups_partition_rows[OF n, of plain_engine, THEN conjunct1] by blast
qed

end
