(* ===== verification/Adaptive_Solver.thy ===== *)
theory Adaptive_Solver
  imports Adaptive_Model
begin

text \<open>
  The adaptive solver and its oracle (\<open>_solve\<close>, \<open>_check_oracle\<close> and the functions nested in them in
  \<open>planning/adaptive.py\<close>): a depth-first branch and bound over the eligible candidates of each node,
  and an exhaustive enumeration that cross-checks small plans.  Both charge the transient budget
  for every frame of the search and for the incumbent.
\<close>

definition max_solver_expansions :: int where
  "max_solver_expansions = 1000000"

definition oracle_max_nodes :: nat where "oracle_max_nodes = 8"

definition oracle_max_targets :: nat where "oracle_max_targets = 4"

definition oracle_max_assignments :: int where "oracle_max_assignments = 65536"

subsection \<open>The state of a search\<close>

record search_state = budget +
  ss_best :: "(score \<times> decision list) option"
  ss_incumbent :: "int option"

record solver_state = search_state +
  so_expansions :: int

text \<open>What the nested functions read of their surroundings.\<close>

record problem =
  pr_sha256 :: "string \<Rightarrow> string"
  pr_context :: planning_context
  pr_graph :: graph
  pr_candidates :: "candidate list"
  pr_targets :: "slot list"

definition pr_inventory :: "problem \<Rightarrow> inventory" where
  "pr_inventory p = inventory_model (pr_sha256 p) (pr_targets p)"

definition priority :: "problem \<Rightarrow> (string, int) pydict" where
  "priority p = priorities_of (map sl_id (pr_targets p))"

definition candidate_key :: "(string, int) pydict \<Rightarrow> candidate \<Rightarrow> (int \<times> string \<times> string)" where
  "candidate_key prio c =
     (case dget prio (cd_target c) of None \<Rightarrow> 0 | Some i \<Rightarrow> i, cd_target c, cd_id c)"

definition sorted_options :: "problem \<Rightarrow> string \<Rightarrow> plan_error + candidate list" where
  "sorted_options p name = (let cs = eligible (pr_candidates p) name in
     if list_all (\<lambda>c. dget (priority p) (cd_target c) \<noteq> None) cs
     then Inr (sort_key (candidate_key (priority p)) cs) else Inl Missing_key)"

text \<open>The dictionary \<open>by_node\<close>.\<close>

definition options_by_node :: "problem \<Rightarrow> plan_error + (string, candidate list) pydict" where
  "options_by_node p = and_then (each (\<lambda>name. and_then (sorted_options p name)
     (\<lambda>cs. Inr (name, cs))) (node_names (pr_graph p))) (\<lambda>kvs. Inr (dict_of kvs))"

subsection \<open>The bound\<close>

definition open_options :: "(string, candidate list) pydict \<Rightarrow> (string, candidate) pydict \<Rightarrow> string
    \<Rightarrow> plan_error + candidate list" where
  "open_options by fixed name =
     (case dget fixed name of Some c \<Rightarrow> Inr [c] | None \<Rightarrow> subscript by name)"

definition best_fact :: "(string, candidate list) pydict \<Rightarrow> (string, candidate) pydict \<Rightarrow> string
    \<Rightarrow> string \<Rightarrow> plan_error + int" where
  "best_fact by fixed fact_name name =
     and_then (open_options by fixed name) (\<lambda>cs. largest (map (objective_fact fact_name) cs))"

definition least_fact :: "(string, candidate list) pydict \<Rightarrow> (string, candidate) pydict \<Rightarrow> string
    \<Rightarrow> string \<Rightarrow> plan_error + int" where
  "least_fact by fixed fact_name name =
     and_then (open_options by fixed name) (\<lambda>cs. least (map (objective_fact fact_name) cs))"

definition same_target_pairs :: "candidate list \<Rightarrow> candidate list \<Rightarrow> (candidate \<times> candidate) list" where
  "same_target_pairs ps cs =
     concat (map (\<lambda>p. map (\<lambda>c. (p, c)) (filter (\<lambda>c. cd_target p = cd_target c) cs)) ps)"

text \<open>The share of an edge in the number of crossings and in the number of fusible edges.\<close>

definition edge_bound :: "(string, candidate list) pydict \<Rightarrow> (string, candidate) pydict \<Rightarrow> edge
    \<Rightarrow> plan_error + int \<times> int" where
  "edge_bound by fixed e =
     and_then (open_options by fixed (ed_producer e)) (\<lambda>ps.
     and_then (open_options by fixed (ed_consumer e)) (\<lambda>cs.
       (let pairs = same_target_pairs ps cs in
        if pairs = [] then Inr (1, 0)
        else and_then (largest (map (\<lambda>(p, c). min (objective_fact ''safely_fusible_logical_edges'' p)
               (objective_fact ''safely_fusible_logical_edges'' c)) pairs)) (\<lambda>m. Inr (0, m)))))"

definition lower_bound :: "problem \<Rightarrow> (string, candidate list) pydict \<Rightarrow> candidate list
    \<Rightarrow> plan_error + score" where
  "lower_bound p by chosen = (let names = node_names (pr_graph p);
       fixed = dict_of (zip names chosen);
       identity = dict_of (iv_targets (pr_inventory p)) in
     and_then (sum_each (best_fact by fixed ''proven_local_io_nodes'') names) (\<lambda>local_io.
     and_then (sum_each (best_fact by fixed ''proven_pushdown_actions'') names) (\<lambda>pushdown.
     and_then (sum_each (least_fact by fixed ''durable_materialization_units'') names) (\<lambda>durable.
     and_then (each (edge_bound by fixed) (gr_edges (pr_graph p))) (\<lambda>shares.
     and_then (each (\<lambda>name. and_then (open_options by fixed name) (\<lambda>cs.
       and_then (each (\<lambda>c. subscript (priority p) (cd_target c)) cs) least)) names) (\<lambda>priorities.
     and_then (each (\<lambda>name. and_then (open_options by fixed name) (\<lambda>cs.
       and_then (each (\<lambda>c. subscript identity (cd_target c)) cs) least)) names) (\<lambda>identities.
       Inr ([- local_io, - pushdown, sum_list (map fst shares), 0, durable,
             - sum_list (map snd shares)] @ priorities, identities))))))))"

subsection \<open>Charging the search\<close>

definition score_json :: "score \<Rightarrow> json list" where
  "score_json s = map JInt (fst s) @ map JStr (snd s)"

definition search_payload :: "candidate list \<Rightarrow> json list \<Rightarrow> json list \<Rightarrow> json" where
  "search_payload chosen partial bound = JMap
     [(''node_index'', JInt (int (length chosen))),
      (''candidate_identities'', JList (map (\<lambda>c. JStr (cd_id c)) chosen)),
      (''partial_objective'', JList partial),
      (''lower_bound'', JList bound)]"

fun for_each :: "('a \<Rightarrow> 's \<Rightarrow> ('s, unit) planned) \<Rightarrow> 'a list \<Rightarrow> 's \<Rightarrow> ('s, unit) planned" where
  "for_each f [] s = (Inr (), s)"
| "for_each f (x # xs) s =
     (case f x s of (Inl e, s') \<Rightarrow> (Inl e, s') | (Inr _, s') \<Rightarrow> for_each f xs s')"

definition decide :: "string list \<Rightarrow> candidate list \<Rightarrow> decision list" where
  "decide names chosen = map (\<lambda>(name, c). \<lparr>de_node = name, de_candidate = cd_id c,
     de_target = cd_target c\<rparr>) (zip names chosen)"

text \<open>
  A complete assignment: it is dropped when a handoff lacks evidence; otherwise, when it beats the
  incumbent, its record is reserved before the record of the incumbent is released.
\<close>

definition install :: "string \<Rightarrow> candidate list \<Rightarrow> score \<Rightarrow> decision list \<Rightarrow> 'z search_state_scheme
    \<Rightarrow> ('z search_state_scheme, unit) planned" where
  "install category chosen score ds st =
     (case reserve (canonical_size (search_payload chosen (score_json score) (score_json score)) + 128)
        category st of
        (Inl e, st') \<Rightarrow> (Inl e, st')
      | (Inr token, st') \<Rightarrow>
          (case (case ss_incumbent st' of None \<Rightarrow> (Inr (), st') | Some old \<Rightarrow> release old st') of
             (Inl e, st'') \<Rightarrow> (Inl e, st'')
           | (Inr _, st'') \<Rightarrow> (Inr (), st''\<lparr>ss_incumbent := Some token, ss_best := Some (score, ds)\<rparr>)))"

definition offer :: "string \<Rightarrow> (score \<Rightarrow> decision list \<Rightarrow> (score \<times> decision list) option \<Rightarrow> bool)
    \<Rightarrow> problem \<Rightarrow> candidate list \<Rightarrow> 'z search_state_scheme
    \<Rightarrow> ('z search_state_scheme, unit) planned" where
  "offer category better p chosen st = (let ds = decide (node_names (pr_graph p)) chosen in
     case assignment_handoffs (pr_sha256 p) (pr_context p) (pr_graph p) ds (pr_targets p) of
       Inl e \<Rightarrow> (Inl e, st)
     | Inr None \<Rightarrow> (Inr (), st)
     | Inr (Some _) \<Rightarrow>
         (case objective (pr_graph p) ds (pr_candidates p) (pr_inventory p) of
            Inl e \<Rightarrow> (Inl e, st)
          | Inr score \<Rightarrow> if better score ds (ss_best st) then install category chosen score ds st
                         else (Inr (), st)))"

subsection \<open>The solver\<close>

definition expansion_error :: plan_error where
  "expansion_error = Diagnosed ''PMADP304'' ''Adaptive solver expansion limit exceeded.''"

definition check_expansion_limit :: "int \<Rightarrow> plan_error + unit" where
  "check_expansion_limit prospective =
     (if max_solver_expansions < prospective then Inl expansion_error else Inr ())"

definition pruned :: "score \<Rightarrow> (score \<times> decision list) option \<Rightarrow> bool" where
  "pruned bound best = (case best of None \<Rightarrow> False | Some (s, _) \<Rightarrow> s \<le> bound)"

definition improves :: "score \<Rightarrow> decision list \<Rightarrow> (score \<times> decision list) option \<Rightarrow> bool" where
  "improves score ds best = (case best of None \<Rightarrow> True | Some (s, _) \<Rightarrow> score < s)"

text \<open>The head of \<open>visit\<close> and the pruning at the head of \<open>visit_body\<close>.\<close>

definition enter :: "problem \<Rightarrow> (string, candidate list) pydict \<Rightarrow> candidate list
    \<Rightarrow> (solver_state \<Rightarrow> (solver_state, unit) planned) \<Rightarrow> solver_state
    \<Rightarrow> (solver_state, unit) planned" where
  "enter p by chosen body st = (case check_expansion_limit (so_expansions st + 1) of
     Inl e \<Rightarrow> (Inl e, st)
   | Inr _ \<Rightarrow> (let st1 = st\<lparr>so_expansions := so_expansions st + 1\<rparr> in
       case lower_bound p by chosen of
         Inl e \<Rightarrow> (Inl e, st1)
       | Inr bound \<Rightarrow>
           allocation (search_payload chosen (take 6 (score_json bound)) (score_json bound))
             ''solver-frontier'' 128
             (\<lambda>st2. if pruned bound (ss_best st2) then (Inr (), st2) else body st2) st1))"

fun visit :: "problem \<Rightarrow> (string, candidate list) pydict \<Rightarrow> string list \<Rightarrow> candidate list
    \<Rightarrow> solver_state \<Rightarrow> (solver_state, unit) planned" where
  "visit p by [] chosen st = enter p by chosen (offer ''solver-incumbent'' improves p chosen) st"
| "visit p by (name # names) chosen st = enter p by chosen (\<lambda>st.
     case subscript by name of
       Inl e \<Rightarrow> (Inl e, st)
     | Inr cs \<Rightarrow> for_each (\<lambda>c. visit p by names (chosen @ [c])) cs st) st"

definition no_assignment :: plan_error where
  "no_assignment = Diagnosed ''PMADP320''
     ''No viable adaptive assignment satisfies directional handoff and security policy.''"

definition start_solver :: "budget \<Rightarrow> solver_state" where
  "start_solver b = \<lparr>bu_limit = bu_limit b, bu_live = bu_live b, bu_peak = bu_peak b,
     bu_charges = bu_charges b, bu_objects = bu_objects b, bu_categories = bu_categories b,
     bu_next = bu_next b, ss_best = None, ss_incumbent = None, so_expansions = 0\<rparr>"

text \<open>
  The ledger handed to the solver is the one in which the inventory's records have been admitted.
\<close>

definition solve :: "problem \<Rightarrow> budget \<Rightarrow> (budget, decision list) planned" where
  "solve p b = (case options_by_node p of
     Inl e \<Rightarrow> (Inl e, b)
   | Inr by \<Rightarrow>
       (case visit p by (node_names (pr_graph p)) [] (start_solver b) of
          (Inl e, st) \<Rightarrow> (Inl e, budget.truncate st)
        | (Inr _, st) \<Rightarrow> (case ss_best st of
              None \<Rightarrow> (Inl no_assignment, budget.truncate st)
            | Some (_, ds) \<Rightarrow> (Inr ds, budget.truncate st))))"

text \<open>The planner runs the solver in a frame of its budget.\<close>

definition framed_solve :: "problem \<Rightarrow> budget \<Rightarrow> (budget, decision list) planned" where
  "framed_solve p = frame (solve p)"

subsection \<open>The fallback after the solver\<close>

fun solver_fallback_allowed :: "plan_error \<Rightarrow> bool" where
  "solver_fallback_allowed (Diagnosed code message) =
     (\<not> (contains ''handoff'' (map lower_char message) \<or> contains ''security'' (map lower_char message)))"
| "solver_fallback_allowed _ = True"

text \<open>
  Whether an error of the solver leads to the explicit fallback: only a \<open>PipelineValidationError\<close> is
  caught.
\<close>

definition falls_back :: "string \<Rightarrow> plan_error \<Rightarrow> bool" where
  "falls_back adaptive_fallback e = (case e of
     Diagnosed code message \<Rightarrow> adaptive_fallback = ''explicit'' \<and> code = ''PMADP320''
       \<and> solver_fallback_allowed e
   | _ \<Rightarrow> False)"

definition fallback_allowed :: "candidate list \<Rightarrow> bool" where
  "fallback_allowed cs = (\<not> list_ex (\<lambda>code. code \<in> set
     [''PMADP101'', ''PMADP102'', ''PMADP124'', ''PMADP125'', ''PMADP200''])
     (concat (map cd_reason_codes cs)))"

subsection \<open>The oracle\<close>

definition beats :: "score \<Rightarrow> decision list \<Rightarrow> (score \<times> decision list) option \<Rightarrow> bool" where
  "beats score ds best = (case best of None \<Rightarrow> True
     | Some (s, ds') \<Rightarrow> (score, map de_candidate ds) < (s, map de_candidate ds'))"

definition plain_options :: "problem \<Rightarrow> (string, candidate list) pydict" where
  "plain_options p = dict_of (map (\<lambda>name. (name, eligible (pr_candidates p) name))
     (node_names (pr_graph p)))"

fun enumerate_assignments :: "problem \<Rightarrow> string list \<Rightarrow> candidate list \<Rightarrow> search_state
    \<Rightarrow> (search_state, unit) planned" where
  "enumerate_assignments p [] chosen st =
     allocation (search_payload chosen [] []) ''oracle-frontier'' 128
       (offer ''oracle-incumbent'' beats p chosen) st"
| "enumerate_assignments p (name # names) chosen st =
     allocation (search_payload chosen [] []) ''oracle-frontier'' 128 (\<lambda>st.
       case subscript (plain_options p) name of
         Inl e \<Rightarrow> (Inl e, st)
       | Inr cs \<Rightarrow> for_each (\<lambda>c. enumerate_assignments p names (chosen @ [c])) (sort_key cd_id cs) st) st"

definition assignment_count :: "problem \<Rightarrow> int" where
  "assignment_count p = fold (\<lambda>name n. n * int (length (eligible (pr_candidates p) name)))
     (node_names (pr_graph p)) 1"

definition oracle_applies :: "problem \<Rightarrow> bool" where
  "oracle_applies p \<longleftrightarrow> length (gr_nodes (pr_graph p)) \<le> oracle_max_nodes
     \<and> length (pr_targets p) \<le> oracle_max_targets \<and> assignment_count p \<le> oracle_max_assignments"

definition oracle_error :: plan_error where
  "oracle_error = Diagnosed ''PMADP306'' ''Adaptive solver disagrees with exhaustive oracle.''"

definition start_oracle :: "budget \<Rightarrow> search_state" where
  "start_oracle b = \<lparr>bu_limit = bu_limit b, bu_live = bu_live b, bu_peak = bu_peak b,
     bu_charges = bu_charges b, bu_objects = bu_objects b, bu_categories = bu_categories b,
     bu_next = bu_next b, ss_best = None, ss_incumbent = None\<rparr>"

definition check_oracle :: "problem \<Rightarrow> decision list \<Rightarrow> budget \<Rightarrow> (budget, unit) planned" where
  "check_oracle p selected b = (if \<not> oracle_applies p then (Inr (), b) else
     case enumerate_assignments p (node_names (pr_graph p)) [] (start_oracle b) of
       (Inl e, st) \<Rightarrow> (Inl e, budget.truncate st)
     | (Inr _, st) \<Rightarrow> (case ss_best st of
           None \<Rightarrow> (Inr (), budget.truncate st)
         | Some (best_score, best) \<Rightarrow>
             (case objective (pr_graph p) selected (pr_candidates p) (pr_inventory p) of
                Inl e \<Rightarrow> (Inl e, budget.truncate st)
              | Inr selected_score \<Rightarrow>
                  if selected_score \<noteq> best_score \<or> map de_candidate selected \<noteq> map de_candidate best
                  then (Inl oracle_error, budget.truncate st) else (Inr (), budget.truncate st))))"

definition framed_check_oracle :: "problem \<Rightarrow> decision list \<Rightarrow> budget \<Rightarrow> (budget, unit) planned" where
  "framed_check_oracle p selected = frame (check_oracle p selected)"

end
