(* ===== verification/Adaptive_Search.thy ===== *)
theory Adaptive_Search
  imports Adaptive_Solver
begin

text \<open>
  The search of the solver and of the oracle as pure functions of the incumbent: what every frame
  of the monadic search does to the ledger and to the incumbent, the generic branch and bound it
  refines, and, under the contract of an optimistic bound, that pruning changes nothing.
\<close>

subsection \<open>Branch and bound\<close>

definition weigh :: "('c list \<Rightarrow> bool) \<Rightarrow> ('c list \<Rightarrow> 'd) \<Rightarrow> ('d \<Rightarrow> 'd option \<Rightarrow> bool) \<Rightarrow> 'c list
    \<Rightarrow> 'd option \<Rightarrow> 'd option" where
  "weigh viable entry better cs best =
     (if viable cs \<and> better (entry cs) best then Some (entry cs) else best)"

fun branch :: "('c list \<Rightarrow> 'd option \<Rightarrow> bool) \<Rightarrow> ('c list \<Rightarrow> 'd option \<Rightarrow> 'd option) \<Rightarrow> 'c list list
    \<Rightarrow> 'c list \<Rightarrow> 'd option \<Rightarrow> 'd option" where
  "branch prune leaf [] chosen best = (if prune chosen best then best else leaf chosen best)"
| "branch prune leaf (cs # css) chosen best = (if prune chosen best then best
     else fold (\<lambda>c. branch prune leaf css (chosen @ [c])) cs best)"

lemma fold_product:
  "fold (\<lambda>rest. leaf (chosen @ rest)) (product_lists (cs # css)) best
   = fold (\<lambda>c. fold (\<lambda>rest. leaf ((chosen @ [c]) @ rest)) (product_lists css)) cs best"
proof -
  have "fold f (concat (map (\<lambda>c. map (Cons c) xs) cs)) best
      = fold (\<lambda>c. fold (\<lambda>rest. f (c # rest)) xs) cs best" for f xs
    by (induction cs arbitrary: best) (simp_all add: fold_map comp_def)
  from this[of "\<lambda>rest. leaf (chosen @ rest)" "product_lists css"] show ?thesis by simp
qed

lemma fold_unchanged: "(\<And>x. x \<in> set xs \<Longrightarrow> f x b = b) \<Longrightarrow> fold f xs b = b"
  by (induction xs) auto

text \<open>Without a prune the search visits every assignment in the order of the options.\<close>

lemma branch_no_cut:
  "branch (\<lambda>_ _. False) leaf css chosen best
   = fold (\<lambda>rest. leaf (chosen @ rest)) (product_lists css) best"
proof (induction css arbitrary: chosen best)
  case (Cons cs css)
  have "branch (\<lambda>_ _. False) leaf css ch = fold (\<lambda>rest. leaf (ch @ rest)) (product_lists css)" for ch
    by (rule ext) (rule Cons)
  then show ?case by (simp only: branch.simps if_False fold_product)
qed simp

text \<open>
  The contract between an objective and its bound: on a valid problem the bound of a choice is at
  most the score of each of its completions.
\<close>

locale optimistic_bound =
  fixes valid :: "'p \<Rightarrow> bool"
    and options :: "'p \<Rightarrow> 'c list list"
    and score :: "'p \<Rightarrow> 'c list \<Rightarrow> 'o :: linorder"
    and bound :: "'p \<Rightarrow> 'c list \<Rightarrow> 'o"
  assumes bound_le: "valid p \<Longrightarrow> chosen @ rest \<in> set (product_lists (options p))
    \<Longrightarrow> bound p chosen \<le> score p (chosen @ rest)"
begin

lemma pruning_sound:
  assumes valid: "valid p" and leaf: "\<And>cs best. leaf cs best = (case best of
      None \<Rightarrow> if viable cs then Some (score p cs, out cs) else None
    | Some (s, d) \<Rightarrow> if viable cs \<and> score p cs < s then Some (score p cs, out cs) else Some (s, d))"
    and prune: "\<And>cs best. prune cs best = (case best of None \<Rightarrow> False | Some (s, d) \<Rightarrow> s \<le> bound p cs)"
  shows "options p = pre @ css \<Longrightarrow> chosen \<in> set (product_lists pre) \<Longrightarrow>
    branch prune leaf css chosen best = fold (\<lambda>rest. leaf (chosen @ rest)) (product_lists css) best"
proof (induction css arbitrary: pre chosen best)
  case (Cons cs css)
  show ?case
  proof (cases "prune chosen best")
    case True
    then obtain s d where best: "best = Some (s, d)" "s \<le> bound p chosen"
      by (auto simp: prune split: option.splits)
    have "leaf (chosen @ rest) best = best" if "rest \<in> set (product_lists (cs # css))" for rest
    proof -
      have "chosen @ rest \<in> set (product_lists (options p))"
        using that Cons.prems by (simp add: product_lists_set list_all2_appendI del: product_lists.simps)
      then have "s \<le> score p (chosen @ rest)" using bound_le[OF valid] best(2) by force
      then show ?thesis by (auto simp: leaf best(1))
    qed
    then have "fold (\<lambda>rest. leaf (chosen @ rest)) (product_lists (cs # css)) best = best"
      by (rule fold_unchanged)
    then show ?thesis using True by (simp del: product_lists.simps)
  next
    case False
    have "branch prune leaf css (chosen @ [c])
        = fold (\<lambda>rest. leaf ((chosen @ [c]) @ rest)) (product_lists css)" if "c \<in> set cs" for c
      using Cons.prems that
      by (intro ext Cons.IH[of "pre @ [cs]"]) (simp_all add: product_lists_set list_all2_appendI)
    then show ?thesis using False unfolding fold_product
      by (simp only: branch.simps if_False cong: fold_cong)
  qed
next
  case Nil
  show ?case
  proof (cases "prune chosen best")
    case True
    then obtain s d where best: "best = Some (s, d)" "s \<le> bound p chosen"
      by (auto simp: prune split: option.splits)
    have "s \<le> score p (chosen @ [])" using bound_le[OF valid, of chosen "[]"] best(2) Nil.prems by force
    then show ?thesis using True by (auto simp: leaf best(1))
  qed simp
qed

end

subsection \<open>What a search does to its state\<close>

definition search_ok :: "'z search_state_scheme \<Rightarrow> bool" where
  "search_ok st \<longleftrightarrow> budget_ok st
     \<and> (\<forall>t. ss_incumbent st = Some t \<longrightarrow> dget (bu_charges st) t \<noteq> None)"

text \<open>
  A step of the search keeps every charge but the incumbent's, and an incumbent that it installs
  has a new token.
\<close>

definition progress :: "'z search_state_scheme \<Rightarrow> 'z search_state_scheme \<Rightarrow> bool" where
  "progress st st' \<longleftrightarrow> search_ok st' \<and> bu_limit st' = bu_limit st \<and> bu_next st \<le> bu_next st'
     \<and> (\<forall>t v. dget (bu_charges st) t = Some v \<and> ss_incumbent st \<noteq> Some t
           \<longrightarrow> dget (bu_charges st') t = Some v)
     \<and> (ss_incumbent st' = ss_incumbent st \<or> (\<exists>t. ss_incumbent st' = Some t \<and> bu_next st < t))"

definition memory_error :: "plan_error \<Rightarrow> bool" where
  "memory_error e \<longleftrightarrow> (\<exists>category. e = over_budget category)"

definition resource_error :: "plan_error \<Rightarrow> bool" where
  "resource_error e \<longleftrightarrow> e = expansion_error \<or> memory_error e"

lemma over_budget_error [simp]: "memory_error (over_budget c)" "resource_error (over_budget c)"
  by (auto simp: memory_error_def resource_error_def)

text \<open>A computation that updates the incumbent by a function, unless it runs out of a resource.\<close>

definition refines :: "(plan_error \<Rightarrow> bool) \<Rightarrow> ('z search_state_scheme \<Rightarrow> ('z search_state_scheme, unit) planned)
    \<Rightarrow> ((score \<times> decision list) option \<Rightarrow> (score \<times> decision list) option) \<Rightarrow> bool" where
  "refines E f upd \<longleftrightarrow> (\<forall>st r st'. search_ok st \<longrightarrow> f st = (r, st') \<longrightarrow> progress st st'
     \<and> (r = Inr () \<longrightarrow> ss_best st' = upd (ss_best st)) \<and> (\<forall>e. r = Inl e \<longrightarrow> E e))"

lemma refinesI:
  "(\<And>st r st'. search_ok st \<Longrightarrow> f st = (r, st') \<Longrightarrow> progress st st'
     \<and> (r = Inr () \<longrightarrow> ss_best st' = upd (ss_best st)) \<and> (\<forall>e. r = Inl e \<longrightarrow> E e)) \<Longrightarrow>
   refines E f upd"
  by (simp add: refines_def)

lemma refinesD:
  assumes "refines E f upd" "search_ok st" "f st = (r, st')"
  shows "progress st st'" "r = Inr () \<Longrightarrow> ss_best st' = upd (ss_best st)"
    "r = Inl e \<Longrightarrow> E e"
  using assms by (simp_all add: refines_def)

lemma charge_token_le: "budget_ok st \<Longrightarrow> dget (bu_charges st) t = Some v \<Longrightarrow> t \<le> bu_next st"
  by (fastforce simp: budget_ok_def dest: dget_in_set)

lemma incumbent_le: "search_ok st \<Longrightarrow> ss_incumbent st = Some t \<Longrightarrow> t \<le> bu_next st"
  using charge_token_le by (fastforce simp: search_ok_def)

lemma progress_ok: "progress st st' \<Longrightarrow> search_ok st'"
  by (simp add: progress_def)

lemma progress_refl: "search_ok st \<Longrightarrow> progress st st"
  by (simp add: progress_def)

lemma progress_trans:
  assumes "search_ok a" "progress a b" "progress b c"
  shows "progress a c"
proof -
  have keep: "dget (bu_charges c) t = Some v"
    if "dget (bu_charges a) t = Some v" "ss_incumbent a \<noteq> Some t" for t v
  proof -
    have "dget (bu_charges b) t = Some v" using that assms(2) by (cases v) (simp add: progress_def)
    moreover have "t \<le> bu_next a"
      using charge_token_le[OF _ that(1)] assms(1) by (simp add: search_ok_def)
    then have "ss_incumbent b \<noteq> Some t" using assms(2) that(2) by (auto simp: progress_def)
    ultimately show ?thesis using assms(3) by (cases v) (simp add: progress_def)
  qed
  have "ss_incumbent c = ss_incumbent a \<or> (\<exists>t. ss_incumbent c = Some t \<and> bu_next a < t)"
    using assms(2,3) unfolding progress_def by (metis order_le_less_trans)
  then show ?thesis using assms keep by (auto simp: progress_def)
qed

lemma canonical_size_nonneg: "0 \<le> canonical_size v"
  unfolding canonical_size_def by (rule sum_list_nonneg) auto

lemma refines_for_each:
  "(\<And>c. c \<in> set cs \<Longrightarrow> refines E (f c) (upd c)) \<Longrightarrow> refines E (for_each f cs) (fold upd cs)"
proof (induction cs)
  case Nil
  then show ?case by (simp add: refines_def progress_refl)
next
  case (Cons c cs)
  have rest: "refines E (for_each f cs) (fold upd cs)" using Cons by simp
  show ?case
  proof (rule refinesI)
    fix st r st' assume ok: "search_ok st" and run: "for_each f (c # cs) st = (r, st')"
    obtain q s where q: "f c st = (q, s)" by (cases "f c st")
    note first = refinesD[OF Cons.prems[OF list.set_intros(1)] ok q]
    show "progress st st' \<and> (r = Inr () \<longrightarrow> ss_best st' = fold upd (c # cs) (ss_best st))
        \<and> (\<forall>e. r = Inl e \<longrightarrow> E e)"
    proof (cases q)
      case (Inl e)
      then show ?thesis using run q first by auto
    next
      case (Inr u)
      then have "for_each f cs s = (r, st')" using run q by simp
      note then_rest = refinesD[OF rest progress_ok[OF first(1)] this]
      show ?thesis using then_rest first Inr progress_trans[OF ok first(1) then_rest(1)] by auto
    qed
  qed
qed

text \<open>The bytes charged for the incumbent, and the live bytes besides them.\<close>

definition incumbent_bytes :: "'z search_state_scheme \<Rightarrow> int" where
  "incumbent_bytes st = (case ss_incumbent st of None \<Rightarrow> 0
     | Some t \<Rightarrow> (case dget (bu_charges st) t of None \<Rightarrow> 0 | Some v \<Rightarrow> fst v))"

definition base_bytes :: "'z search_state_scheme \<Rightarrow> int" where
  "base_bytes st = bu_live st - incumbent_bytes st"

text \<open>A step of the search inside an allocation: the state it starts in and the state it leaves.\<close>

lemma allocation_search:
  assumes body: "refines E body upd" and ok: "search_ok st"
    and run: "allocation v category 128 body st = (r, st')"
  obtains (refused) "r = Inl (over_budget category)" "st' = st"
      "bu_limit st < bu_live st + (canonical_size v + 128)"
    | (ran) c s where "search_ok c" "body c = (r, s)" "ss_best c = ss_best st"
      "bu_limit c = bu_limit st" "incumbent_bytes c = incumbent_bytes st"
      "base_bytes c = base_bytes st + (canonical_size v + 128)"
      "ss_best st' = ss_best s" "incumbent_bytes st' = incumbent_bytes s"
      "base_bytes st' = base_bytes s - (canonical_size v + 128)" "progress st st'"
proof -
  have bok: "budget_ok st" using ok by (simp add: search_ok_def)
  from run show thesis
  proof (cases rule: allocation_runs)
    case (refused e)
    from refused(3) have "e = over_budget category" "bu_limit st < bu_live st + (canonical_size v + 128)"
      using canonical_size_nonneg[of v] by (cases rule: reserve_cases; simp)+
    then show thesis using refused that(1) by simp
  next
    case (ran c)
    let ?t = "bu_next st + 1"
    note reserved = reserve_ok[OF bok ran(1)]
    from ran(1) have c: "bu_charges c = dput ?t (canonical_size v + 128, category) (bu_charges st)"
      "bu_next c = ?t" "bu_limit c = bu_limit st" "bu_live c = bu_live st + (canonical_size v + 128)"
      by (cases rule: reserve_cases; simp)+
    have more: "ss_best c = ss_best st" "ss_incumbent c = ss_incumbent st"
      using ran(1) by (auto simp: reserve_def Let_def split: if_splits)
    have fresh: "dget (bu_charges st) ?t = None" using bok by (simp add: budget_ok_fresh)
    have inc: "ss_incumbent st \<noteq> Some ?t" using fresh ok by (auto simp: search_ok_def)
    have okc: "search_ok c"
      using reserved(1) ok fresh more by (auto simp: search_ok_def c(1))
    obtain q s where q: "body c = (q, s)" by (cases "body c")
    note inner = refinesD[OF body okc q]
    have held: "dget (bu_charges s) ?t = Some (canonical_size v + 128, category)"
      using inner(1) inc more by (simp add: progress_def c(1))
    have oks: "search_ok s" using inner(1) by (rule progress_ok)
    then have bs: "budget_ok s" by (simp add: search_ok_def)
    note rel = finally_release_ok[OF bs held ran(2)[unfolded q]]
    have sel: "ss_best st' = ss_best s" "ss_incumbent st' = ss_incumbent s"
      "bu_live st' = bu_live s - (canonical_size v + 128)"
      unfolding rel(6) by (simp_all add: release_def held)
    have incs: "ss_incumbent s \<noteq> Some ?t"
      using inner(1) inc more(2) c(2) by (auto simp: progress_def)
    have "search_ok st'"
      using oks rel(2) sel incs by (auto simp: search_ok_def rel(3))
    moreover have "dget (bu_charges st') t = Some w"
      if "dget (bu_charges st) t = Some w" "ss_incumbent st \<noteq> Some t" for t w
    proof -
      have "t \<noteq> ?t" using that(1) fresh by auto
      then have "dget (bu_charges c) t = Some w" using that(1) by (simp add: c(1))
      then have "dget (bu_charges s) t = Some w"
        using inner(1) that(2) more(2) by (cases w) (simp add: progress_def)
      then show ?thesis using \<open>t \<noteq> ?t\<close> by (simp add: rel(3))
    qed
    ultimately have prog: "progress st st'"
      using inner(1) sel more(2) c(2,3) rel(4,5) by (auto simp: progress_def)
    have bytes: "incumbent_bytes c = incumbent_bytes st" "incumbent_bytes st' = incumbent_bytes s"
      using inc incs by (auto simp: incumbent_bytes_def more(2) sel(2) c(1) rel(3) split: option.splits)
    show thesis
      using that(2)[OF okc _ more(1) c(3) bytes(1) _ sel(1) bytes(2) _ prog] q rel(1) c(4) sel(3) bytes
      by (simp add: base_bytes_def)
  qed
qed

lemma refines_allocation:
  assumes mem: "\<And>c. E (over_budget c)" and body: "refines E body upd"
  shows "refines E (allocation v category 128 body) upd"
proof (rule refinesI)
  fix st r st' assume ok: "search_ok st" and run: "allocation v category 128 body st = (r, st')"
  from body ok run show "progress st st' \<and> (r = Inr () \<longrightarrow> ss_best st' = upd (ss_best st))
      \<and> (\<forall>e. r = Inl e \<longrightarrow> E e)"
  proof (cases rule: allocation_search)
    case refused
    then show ?thesis using ok mem by (auto intro: progress_refl)
  next
    case (ran c s)
    then show ?thesis using refinesD[OF body ran(1,2)] by auto
  qed
qed

lemma refines_install:
  assumes mem: "\<And>c. E (over_budget c)"
  shows "refines E (install category chosen score ds) (\<lambda>_. Some (score, ds))"
proof (rule refinesI)
  fix st r st' assume ok: "search_ok st" and run: "install category chosen score ds st = (r, st')"
  have bok: "budget_ok st" using ok by (simp add: search_ok_def)
  let ?size = "canonical_size (search_payload chosen (score_json score) (score_json score)) + 128"
  obtain q c where q: "reserve ?size category st = (q, c)" by (cases "reserve ?size category st")
  from q show "progress st st' \<and> (r = Inr () \<longrightarrow> ss_best st' = Some (score, ds))
      \<and> (\<forall>e. r = Inl e \<longrightarrow> E e)"
  proof (cases rule: reserve_cases)
    case (refused e)
    have "e = over_budget category" using refused(3) canonical_size_nonneg by (smt (verit))
    then show ?thesis using refused run q ok
      using mem by (auto simp: install_def intro: progress_refl)
  next
    case granted
    let ?t = "bu_next st + 1"
    have more: "ss_incumbent c = ss_incumbent st"
      using q granted(1) by (auto simp: reserve_def Let_def split: if_splits)
    have okc: "budget_ok c" using reserve_ok(1)[OF bok q] .
    have fresh: "dget (bu_charges st) ?t = None" using bok by (simp add: budget_ok_fresh)
    show ?thesis
    proof (cases "ss_incumbent st")
      case None
      then have "r = Inr ()" "st' = c\<lparr>ss_incumbent := Some ?t, ss_best := Some (score, ds)\<rparr>"
        using run q granted(1) more by (auto simp: install_def)
      then show ?thesis using granted okc None fresh
        by (auto simp: progress_def search_ok_def budget_ok_def)
    next
      case (Some old)
      then obtain v where v: "dget (bu_charges st) old = Some v" using ok by (auto simp: search_ok_def)
      then have "old \<noteq> ?t" using fresh by auto
      then have held: "dget (bu_charges c) old = Some v" using v by (simp add: granted(4))
      note rel = release_ok[OF okc held]
      obtain d where d: "release old c = (Inr (), d)" using rel(1) by (metis prod.collapse)
      note rel = rel[unfolded d snd_conv]
      have "r = Inr ()" "st' = d\<lparr>ss_incumbent := Some ?t, ss_best := Some (score, ds)\<rparr>"
        using run q granted(1) more Some d by (auto simp: install_def)
      then show ?thesis using granted rel Some \<open>old \<noteq> ?t\<close> fresh
        by (auto simp: progress_def search_ok_def budget_ok_def)
    qed
  qed
qed

end
