(* ===== verification/Adaptive_Optimality.thy ===== *)
theory Adaptive_Optimality
  imports Adaptive_Search
begin

text \<open>
  The solver against its specification.  On a well-formed problem the nested functions of the
  solver never fail, the bound of a partial choice is at most the objective of each of its
  completions, and the decisions returned are those of the least assignment in the order of the
  objective and then of the candidate identities, which is the one the oracle finds.
\<close>

subsection \<open>Well-formed problems\<close>

definition cell_ok :: "problem \<Rightarrow> candidate \<Rightarrow> bool" where
  "cell_ok p c \<longleftrightarrow> cd_target c \<in> set (map sl_id (pr_targets p))
     \<and> 0 \<le> objective_fact ''collection_units'' c \<and> 0 \<le> objective_fact ''safely_fusible_logical_edges'' c"

definition problem_ok :: "problem \<Rightarrow> bool" where
  "problem_ok p \<longleftrightarrow> distinct (node_names (pr_graph p)) \<and> distinct (map cd_id (pr_candidates p))
     \<and> distinct (map sl_id (pr_targets p)) \<and> list_all (cell_ok p) (pr_candidates p)
     \<and> list_all (\<lambda>e. ed_producer e \<in> set (node_names (pr_graph p))
         \<and> ed_consumer e \<in> set (node_names (pr_graph p))) (gr_edges (pr_graph p))
     \<and> list_all (\<lambda>n. eligible (pr_candidates p) n \<noteq> []) (node_names (pr_graph p))"

abbreviation names :: "problem \<Rightarrow> string list" where
  "names p \<equiv> node_names (pr_graph p)"

definition rank :: "problem \<Rightarrow> candidate \<Rightarrow> int" where
  "rank p c = the (dget (priority p) (cd_target c))"

definition identity_of :: "problem \<Rightarrow> candidate \<Rightarrow> string" where
  "identity_of p c = the (map_of (iv_targets (pr_inventory p)) (cd_target c))"

definition node_options :: "problem \<Rightarrow> string \<Rightarrow> candidate list" where
  "node_options p n = sort_key (candidate_key (priority p)) (eligible (pr_candidates p) n)"

definition all_options :: "problem \<Rightarrow> candidate list list" where
  "all_options p = map (node_options p) (names p)"

definition pick :: "problem \<Rightarrow> candidate list \<Rightarrow> string \<Rightarrow> candidate" where
  "pick p cs n = the (map_of (zip (names p) cs) n)"

definition open_at :: "problem \<Rightarrow> candidate list \<Rightarrow> string \<Rightarrow> candidate list" where
  "open_at p chosen n = (case map_of (zip (names p) chosen) n of Some c \<Rightarrow> [c] | None \<Rightarrow> node_options p n)"

text \<open>The objective and the bound of an assignment as sums over nodes and edges.\<close>

definition edge_cross :: "problem \<Rightarrow> candidate list \<Rightarrow> edge \<Rightarrow> int" where
  "edge_cross p cs e =
     (if cd_target (pick p cs (ed_producer e)) \<noteq> cd_target (pick p cs (ed_consumer e)) then 1 else 0)"

definition edge_collect :: "problem \<Rightarrow> candidate list \<Rightarrow> edge \<Rightarrow> int" where
  "edge_collect p cs e =
     (if cd_target (pick p cs (ed_producer e)) = cd_target (pick p cs (ed_consumer e)) then 0
      else objective_fact ''collection_units'' (pick p cs (ed_consumer e)))"

definition fusible :: "candidate \<Rightarrow> int" where
  "fusible = objective_fact ''safely_fusible_logical_edges''"

definition edge_fuse :: "problem \<Rightarrow> candidate list \<Rightarrow> edge \<Rightarrow> int" where
  "edge_fuse p cs e =
     (if cd_target (pick p cs (ed_producer e)) \<noteq> cd_target (pick p cs (ed_consumer e)) then 0
      else min (fusible (pick p cs (ed_producer e))) (fusible (pick p cs (ed_consumer e))))"

definition assignment_score :: "problem \<Rightarrow> candidate list \<Rightarrow> score" where
  "assignment_score p cs = (let es = gr_edges (pr_graph p) in
     ([- sum_list (map (objective_fact ''proven_local_io_nodes'') cs),
       - sum_list (map (objective_fact ''proven_pushdown_actions'') cs),
       sum_list (map (edge_cross p cs) es),
       sum_list (map (edge_collect p cs) es),
       sum_list (map (objective_fact ''durable_materialization_units'') cs),
       - sum_list (map (edge_fuse p cs) es)] @ map (rank p) cs,
      map (identity_of p) cs))"

definition pairs_at :: "problem \<Rightarrow> candidate list \<Rightarrow> edge \<Rightarrow> (candidate \<times> candidate) list" where
  "pairs_at p chosen e =
     same_target_pairs (open_at p chosen (ed_producer e)) (open_at p chosen (ed_consumer e))"

definition edge_share :: "problem \<Rightarrow> candidate list \<Rightarrow> edge \<Rightarrow> int \<times> int" where
  "edge_share p chosen e = (if pairs_at p chosen e = [] then (1, 0)
     else (0, Max (set (map (\<lambda>(a, b). min (fusible a) (fusible b)) (pairs_at p chosen e)))))"

definition choice_bound :: "problem \<Rightarrow> candidate list \<Rightarrow> score" where
  "choice_bound p chosen = (let es = gr_edges (pr_graph p) in
     ([- sum_list (map (\<lambda>n. Max (set (map (objective_fact ''proven_local_io_nodes'') (open_at p chosen n)))) (names p)),
       - sum_list (map (\<lambda>n. Max (set (map (objective_fact ''proven_pushdown_actions'') (open_at p chosen n)))) (names p)),
       sum_list (map (\<lambda>e. fst (edge_share p chosen e)) es),
       0,
       sum_list (map (\<lambda>n. Min (set (map (objective_fact ''durable_materialization_units'') (open_at p chosen n)))) (names p)),
       - sum_list (map (\<lambda>e. snd (edge_share p chosen e)) es)]
      @ map (\<lambda>n. Min (set (map (rank p) (open_at p chosen n)))) (names p),
      map (\<lambda>n. Min (set (map (identity_of p) (open_at p chosen n)))) (names p)))"

subsection \<open>Dictionaries and aggregates\<close>

lemma largest_Max: "xs \<noteq> [] \<Longrightarrow> largest xs = Inr (Max (set xs))"
  by (cases xs) (simp_all only: largest.simps Max.set_eq_fold)

lemma least_Min: "xs \<noteq> [] \<Longrightarrow> least xs = Inr (Min (set xs))"
  by (cases xs) (simp_all only: least.simps Min.set_eq_fold)

lemma sum_each_pure:
  "(\<And>x. x \<in> set xs \<Longrightarrow> f x = Inr (g x)) \<Longrightarrow> sum_each f xs = Inr (sum_list (map g xs))"
  by (simp add: sum_each_def each_pure[of xs f g])

lemma index_of_nth: "distinct xs \<Longrightarrow> i < length xs \<Longrightarrow> index_of xs (xs ! i) = Inr (int i)"
proof (induction xs arbitrary: i)
  case (Cons x xs)
  then show ?case by (cases i) auto
qed simp

lemma priorities_nth:
  "distinct ids \<Longrightarrow> i < length ids \<Longrightarrow> dget (priorities_of ids) (ids ! i) = Some (int i)"
  unfolding priorities_of_def by (subst dget_dict_of) (simp_all add: map_of_zip_nth)

lemma index_of_priority:
  assumes "distinct ids" "x \<in> set ids"
  shows "index_of ids x = Inr (the (dget (priorities_of ids) x))" "dget (priorities_of ids) x \<noteq> None"
proof -
  obtain i where "i < length ids" "ids ! i = x" using assms(2) by (auto simp: in_set_conv_nth)
  then show "index_of ids x = Inr (the (dget (priorities_of ids) x))" "dget (priorities_of ids) x \<noteq> None"
    using assms(1) index_of_nth priorities_nth by fastforce+
qed

lemma priority_inj:
  assumes "distinct ids" "x \<in> set ids" "y \<in> set ids"
    and "the (dget (priorities_of ids) x) = the (dget (priorities_of ids) y)"
  shows "x = y"
proof -
  obtain i j where "i < length ids" "ids ! i = x" "j < length ids" "ids ! j = y"
    using assms(2,3) by (auto simp: in_set_conv_nth)
  then show ?thesis using assms priorities_nth by fastforce
qed

subsection \<open>Choices\<close>

text \<open>The choices of the solver: for the first nodes, an eligible candidate of each.\<close>

definition choice :: "problem \<Rightarrow> candidate list \<Rightarrow> bool" where
  "choice p cs \<longleftrightarrow> length cs \<le> length (names p)
     \<and> list_all2 (\<lambda>c n. c \<in> set (eligible (pr_candidates p) n)) cs (take (length cs) (names p))"

definition assignment :: "problem \<Rightarrow> candidate list \<Rightarrow> bool" where
  "assignment p cs \<longleftrightarrow> choice p cs \<and> length cs = length (names p)"

lemma set_node_options [simp]: "set (node_options p n) = set (eligible (pr_candidates p) n)"
  by (simp add: node_options_def)

lemma assignment_iff: "assignment p cs \<longleftrightarrow> cs \<in> set (product_lists (all_options p))"
  by (auto simp: assignment_def choice_def product_lists_set all_options_def list_all2_conv_all_nth)

lemma choice_nth:
  assumes "choice p cs" "i < length cs"
  shows "cs ! i \<in> set (eligible (pr_candidates p) (names p ! i))" "i < length (names p)"
  using assms by (auto simp: choice_def list_all2_conv_all_nth)

lemma choice_prefix: "assignment p (chosen @ rest) \<Longrightarrow> choice p chosen"
  by (auto simp: assignment_def choice_def list_all2_append1)

lemma zip_take: "length cs \<le> length ns \<Longrightarrow> zip ns cs = zip (take (length cs) ns) cs"
  by (induction ns arbitrary: cs) (auto simp: zip_Cons1 split: list.splits)

lemma map_of_zip_prefix:
  assumes "distinct ns" "length cs \<le> length ns" "i < length ns"
  shows "map_of (zip ns cs) (ns ! i) = (if i < length cs then Some (cs ! i) else None)"
proof (cases "i < length cs")
  case True
  have "map_of (zip (take (length cs) ns) cs) (take (length cs) ns ! i) = Some (cs ! i)"
    using assms True by (intro map_of_zip_nth) simp_all
  then show ?thesis using zip_take[OF assms(2)] True by simp
next
  case False
  have "ns ! i \<notin> set (take (length cs) ns)"
    using assms False by (auto simp: in_set_conv_nth distinct_conv_nth)
  then have "map_of (zip (take (length cs) ns) cs) (ns ! i) = None"
    using assms(2) by (simp add: map_of_zip_is_None)
  then show ?thesis using zip_take[OF assms(2)] False by simp
qed

lemma pick_nth:
  "problem_ok p \<Longrightarrow> assignment p cs \<Longrightarrow> i < length (names p) \<Longrightarrow> pick p cs (names p ! i) = cs ! i"
  by (simp add: pick_def problem_ok_def assignment_def map_of_zip_prefix)

lemma map_pick: "problem_ok p \<Longrightarrow> assignment p cs \<Longrightarrow> map (\<lambda>n. f (pick p cs n)) (names p) = map f cs"
  by (rule nth_equalityI) (simp_all add: pick_nth assignment_def)

lemma pick_eligible:
  "problem_ok p \<Longrightarrow> assignment p cs \<Longrightarrow> n \<in> set (names p) \<Longrightarrow>
   pick p cs n \<in> set (eligible (pr_candidates p) n)"
  unfolding in_set_conv_nth[of n] by (auto simp: pick_nth) (auto simp: assignment_def dest: choice_nth)

lemma eligible_cell: "problem_ok p \<Longrightarrow> c \<in> set (eligible (pr_candidates p) n) \<Longrightarrow>
  cell_ok p c \<and> c \<in> set (pr_candidates p)"
  by (auto simp: problem_ok_def eligible_def list_all_iff)

lemma pick_open:
  assumes "problem_ok p" "assignment p (chosen @ rest)" "n \<in> set (names p)"
  shows "pick p (chosen @ rest) n \<in> set (open_at p chosen n)"
proof -
  obtain i where i: "i < length (names p)" "n = names p ! i"
    using assms(3) by (auto simp: in_set_conv_nth)
  have len: "length chosen \<le> length (names p)" using assms(2) by (simp add: assignment_def)
  show ?thesis
  proof (cases "i < length chosen")
    case True
    then show ?thesis using assms(1,2) i len
      by (simp add: open_at_def map_of_zip_prefix problem_ok_def pick_nth nth_append)
  next
    case False
    then have "open_at p chosen n = node_options p n"
      using assms(1) i len by (simp add: open_at_def map_of_zip_prefix problem_ok_def)
    then show ?thesis using pick_eligible[OF assms] by simp
  qed
qed

lemma open_subset:
  assumes "problem_ok p" "choice p chosen" "n \<in> set (names p)"
  shows "set (open_at p chosen n) \<subseteq> set (eligible (pr_candidates p) n)" "open_at p chosen n \<noteq> []"
proof -
  obtain i where i: "i < length (names p)" "n = names p ! i"
    using assms(3) by (auto simp: in_set_conv_nth)
  have len: "length chosen \<le> length (names p)" using assms(2) by (simp add: choice_def)
  have "map_of (zip (names p) chosen) n = (if i < length chosen then Some (chosen ! i) else None)"
    using assms(1) i len by (simp add: map_of_zip_prefix problem_ok_def)
  moreover have "node_options p n \<noteq> []"
    using assms(1,3) by (simp add: problem_ok_def list_all_iff flip: set_empty)
  ultimately show "set (open_at p chosen n) \<subseteq> set (eligible (pr_candidates p) n)" "open_at p chosen n \<noteq> []"
    using choice_nth[OF assms(2), of i] i by (auto simp: open_at_def)
qed

subsection \<open>The objective never fails\<close>

lemma candidate_map:
  "problem_ok p \<Longrightarrow> c \<in> set (pr_candidates p) \<Longrightarrow>
   dget (dict_of (map (\<lambda>c. (cd_id c, c)) (pr_candidates p))) (cd_id c) = Some c"
  by (subst dget_dict_of) (auto simp: problem_ok_def comp_def map_of_eq_Some_iff)

lemma edge_ends:
  assumes "problem_ok p" "e \<in> set (gr_edges (pr_graph p))"
  shows "ed_producer e \<in> set (names p)" "ed_consumer e \<in> set (names p)"
  using assms by (auto simp: problem_ok_def list_all_iff)

lemma decision_map_pick:
  assumes "problem_ok p" "assignment p cs" "n \<in> set (names p)"
  shows "dget (decision_map (decide (names p) cs)) n
       = Some \<lparr>de_node = n, de_candidate = cd_id (pick p cs n), de_target = cd_target (pick p cs n)\<rparr>"
proof -
  obtain i where i: "i < length (names p)" "n = names p ! i"
    using assms(3) by (auto simp: in_set_conv_nth)
  have len: "length cs = length (names p)" using assms(2) by (simp add: assignment_def)
  let ?row = "\<lambda>(n, c). (n, \<lparr>de_node = n, de_candidate = cd_id c, de_target = cd_target c\<rparr>)"
  have rows: "map (\<lambda>d. (de_node d, d)) (decide (names p) cs) = map ?row (zip (names p) cs)"
    by (auto simp: decide_def)
  have keys: "map fst (map ?row (zip (names p) cs)) = names p"
    using len by (simp add: comp_def case_prod_unfold)
  have dist: "distinct (map fst (map ?row (zip (names p) cs)))"
    unfolding keys using assms(1) by (simp add: problem_ok_def)
  have "(n, pick p cs n) \<in> set (zip (names p) cs)"
    using i len pick_nth[OF assms(1,2) i(1)] by (auto simp: in_set_zip)
  then have "?row (n, pick p cs n) \<in> set (map ?row (zip (names p) cs))" by (simp only: set_map imageI)
  then show ?thesis
    unfolding decision_map_def rows dget_dict_of[OF dist] using dist by (simp add: map_of_eq_Some_iff)
qed

lemma ends_pick:
  assumes "problem_ok p" "assignment p cs" "e \<in> set (gr_edges (pr_graph p))"
  shows "ends (decision_map (decide (names p) cs)) e f
    = f \<lparr>de_node = ed_producer e, de_candidate = cd_id (pick p cs (ed_producer e)),
          de_target = cd_target (pick p cs (ed_producer e))\<rparr>
        \<lparr>de_node = ed_consumer e, de_candidate = cd_id (pick p cs (ed_consumer e)),
          de_target = cd_target (pick p cs (ed_consumer e))\<rparr>"
  using assms by (simp add: ends_def decision_map_pick problem_ok_def list_all_iff)

lemma decide_facts:
  assumes "length cs = length ns"
  shows "map f (decide ns cs) = map (\<lambda>(n, c). f \<lparr>de_node = n, de_candidate = cd_id c, de_target = cd_target c\<rparr>) (zip ns cs)"
  by (auto simp: decide_def)

lemma each_decide:
  assumes "length cs = length ns"
    and "\<And>n c. c \<in> set cs \<Longrightarrow> f \<lparr>de_node = n, de_candidate = cd_id c, de_target = cd_target c\<rparr> = Inr (g c)"
  shows "each f (decide ns cs) = Inr (map g cs)"
  using assms
proof (induction ns cs rule: list_induct2')
  case (4 n ns c cs)
  then show ?case by (simp add: decide_def)
qed (simp_all add: decide_def)

lemma assignment_candidates:
  assumes "problem_ok p" "assignment p cs" "c \<in> set cs"
  shows "c \<in> set (pr_candidates p)" "cell_ok p c"
proof -
  obtain i where "i < length cs" "c = cs ! i" using assms(3) by (auto simp: in_set_conv_nth)
  then have "c \<in> set (eligible (pr_candidates p) (names p ! i))"
    using assms(2) by (auto simp: assignment_def dest: choice_nth)
  then show "c \<in> set (pr_candidates p)" "cell_ok p c" using eligible_cell[OF assms(1)] by blast+
qed

lemma first_identity_of:
  assumes "cell_ok p c"
  shows "first_identity (iv_targets (pr_inventory p)) (cd_target c) = Inr (identity_of p c)"
    "map_of (iv_targets (pr_inventory p)) (cd_target c) = Some (identity_of p c)"
proof -
  have "cd_target c \<in> fst ` set (iv_targets (pr_inventory p))"
    using assms by (auto simp: cell_ok_def pr_inventory_def inventory_model_def image_comp comp_def)
  then obtain i where "map_of (iv_targets (pr_inventory p)) (cd_target c) = Some i"
    by (metis map_of_eq_None_iff not_None_eq)
  then show "first_identity (iv_targets (pr_inventory p)) (cd_target c) = Inr (identity_of p c)"
    "map_of (iv_targets (pr_inventory p)) (cd_target c) = Some (identity_of p c)"
    by (simp_all add: first_identity_def identity_of_def)
qed

lemma rank_of:
  assumes "problem_ok p" "cell_ok p c"
  shows "index_of (iv_order (pr_inventory p)) (cd_target c) = Inr (rank p c)"
    "dget (priority p) (cd_target c) = Some (rank p c)"
  using assms index_of_priority[of "map sl_id (pr_targets p)" "cd_target c"]
  by (auto simp: rank_def priority_def pr_inventory_def inventory_model_def problem_ok_def cell_ok_def)

lemma objective_assignment:
  assumes ok: "problem_ok p" and cs: "assignment p cs"
  shows "objective (pr_graph p) (decide (names p) cs) (pr_candidates p) (pr_inventory p)
       = Inr (assignment_score p cs)"
proof -
  let ?cm = "dict_of (map (\<lambda>c. (cd_id c, c)) (pr_candidates p))"
  let ?ds = "decide (names p) cs"
  have len: "length cs = length (names p)" using cs by (simp add: assignment_def)
  note cand = assignment_candidates[OF ok cs]
  have facts: "sum_each (fact_of name ?cm) ?ds = Inr (sum_list (map (objective_fact name) cs))" for name
    using cand(1) by (simp add: sum_each_def each_decide[OF len, of _ "objective_fact name"] fact_of_def candidate_map[OF ok])
  have end_cand: "pick p cs (ed_producer e) \<in> set (pr_candidates p)"
    "pick p cs (ed_consumer e) \<in> set (pr_candidates p)"
    if "e \<in> set (gr_edges (pr_graph p))" for e
    using pick_eligible[OF ok cs] eligible_cell[OF ok] edge_ends[OF ok that] by blast+
  have "sum_each (crossing (decision_map ?ds)) (gr_edges (pr_graph p))
      = Inr (sum_list (map (edge_cross p cs) (gr_edges (pr_graph p))))"
    by (rule sum_each_pure) (simp add: crossing_def ends_pick[OF ok cs] edge_cross_def)
  moreover have "sum_each (collected ?cm (decision_map ?ds)) (gr_edges (pr_graph p))
      = Inr (sum_list (map (edge_collect p cs) (gr_edges (pr_graph p))))"
    by (rule sum_each_pure)
       (simp add: collected_def ends_pick[OF ok cs] edge_collect_def candidate_map[OF ok] end_cand)
  moreover have "sum_each (fused ?cm (decision_map ?ds)) (gr_edges (pr_graph p))
      = Inr (sum_list (map (edge_fuse p cs) (gr_edges (pr_graph p))))"
    by (rule sum_each_pure)
       (simp add: fused_def ends_pick[OF ok cs] edge_fuse_def candidate_map[OF ok] end_cand fusible_def)
  moreover have "each (\<lambda>d. index_of (iv_order (pr_inventory p)) (de_target d)) ?ds = Inr (map (rank p) cs)"
    by (rule each_decide[OF len]) (simp add: rank_of[OF ok] cand(2))
  moreover have "each (\<lambda>d. first_identity (iv_targets (pr_inventory p)) (de_target d)) ?ds
      = Inr (map (identity_of p) cs)"
    by (rule each_decide[OF len]) (simp add: first_identity_of cand(2))
  ultimately show ?thesis
    by (simp add: objective_def facts assignment_score_def Let_def)
qed

lemma handoff_scan_total:
  assumes "\<And>e. e \<in> set es \<Longrightarrow> \<exists>d. dget dm (ed_producer e) = Some d \<and> dget tm (de_target d) \<noteq> None"
    and "\<And>e. e \<in> set es \<Longrightarrow> \<exists>d. dget dm (ed_consumer e) = Some d \<and> dget tm (de_target d) \<noteq> None"
  shows "\<exists>h. handoff_scan sha256 cx tm dm es found = Inr h"
  using assms
proof (induction es arbitrary: found)
  case (Cons e es)
  from Cons.prems(1)[of e] obtain d s where d: "dget dm (ed_producer e) = Some d"
    "dget tm (de_target d) = Some s" by auto
  from Cons.prems(2)[of e] obtain d' s' where d': "dget dm (ed_consumer e) = Some d'"
    "dget tm (de_target d') = Some s'" by auto
  have "\<exists>h. handoff_scan sha256 cx tm dm es found' = Inr h" for found'
    using Cons.prems by (intro Cons.IH) auto
  then show ?case using d d' by (simp add: Let_def)
qed simp

lemma handoffs_assignment:
  assumes ok: "problem_ok p" and cs: "assignment p cs"
  shows "\<exists>h. assignment_handoffs (pr_sha256 p) (pr_context p) (pr_graph p) (decide (names p) cs)
    (pr_targets p) = Inr h"
proof -
  have "dget (target_map (pr_targets p)) (cd_target (pick p cs n)) \<noteq> None" if "n \<in> set (names p)" for n
  proof -
    have "cd_target (pick p cs n) \<in> set (map sl_id (pr_targets p))"
      using eligible_cell[OF ok pick_eligible[OF ok cs that]] by (simp add: cell_ok_def)
    moreover have "distinct (map fst (map (\<lambda>s. (sl_id s, s)) (pr_targets p)))"
      using ok by (simp add: problem_ok_def comp_def)
    ultimately show ?thesis
      unfolding target_map_def by (subst dget_dict_of) (auto simp: map_of_eq_None_iff image_comp comp_def)
  qed
  then show ?thesis unfolding assignment_handoffs_def
    using ok by (intro handoff_scan_total) (auto simp: decision_map_pick[OF ok cs] problem_ok_def list_all_iff)
qed

subsection \<open>The bound never fails\<close>

lemma options_by_node_ok:
  assumes ok: "problem_ok p"
  obtains "by" where "options_by_node p = Inr by"
    "\<And>n. n \<in> set (names p) \<Longrightarrow> dget by n = Some (node_options p n)"
proof -
  have one: "sorted_options p n = Inr (node_options p n)" for n
  proof -
    have "list_all (\<lambda>c. dget (priority p) (cd_target c) \<noteq> None) (eligible (pr_candidates p) n)"
      using rank_of(2)[OF ok] eligible_cell[OF ok] by (auto simp: list_all_iff)
    then show ?thesis by (simp add: sorted_options_def node_options_def Let_def)
  qed
  let ?by = "dict_of (map (\<lambda>n. (n, node_options p n)) (names p))"
  have "options_by_node p = Inr ?by"
    by (simp add: options_by_node_def one each_pure[where g = "\<lambda>n. (n, node_options p n)"])
  moreover have "dget ?by n = Some (node_options p n)" if "n \<in> set (names p)" for n
    using that ok by (subst dget_dict_of) (auto simp: problem_ok_def comp_def map_of_eq_Some_iff)
  ultimately show thesis by (rule that)
qed

lemma dget_fixed:
  assumes ok: "problem_ok p" and ch: "choice p chosen"
  shows "dget (dict_of (zip (names p) chosen)) n = map_of (zip (names p) chosen) n"
proof -
  have "map fst (zip (names p) chosen) = take (length chosen) (names p)"
    using ch by (simp add: choice_def map_fst_zip_take min_def)
  then show ?thesis using ok by (intro dget_dict_of) (simp add: problem_ok_def)
qed

lemma open_options_ok:
  assumes "problem_ok p" "choice p chosen" "n \<in> set (names p)"
    and "dget by n = Some (node_options p n)"
  shows "open_options by (dict_of (zip (names p) chosen)) n = Inr (open_at p chosen n)"
  using assms by (auto simp: open_options_def open_at_def dget_fixed split: option.splits)

lemma lower_bound_ok:
  assumes ok: "problem_ok p" and ch: "choice p chosen"
    and "by": "\<And>n. n \<in> set (names p) \<Longrightarrow> dget by n = Some (node_options p n)"
  shows "lower_bound p by chosen = Inr (choice_bound p chosen)"
proof -
  let ?fixed = "dict_of (zip (names p) chosen)"
  note opts = open_options_ok[OF ok ch _ "by"]
  note sub = open_subset[OF ok ch]
  have cell: "cell_ok p c" if "c \<in> set (open_at p chosen n)" "n \<in> set (names p)" for c n
    using that sub(1) eligible_cell[OF ok] by blast
  have big: "sum_each (best_fact by ?fixed name) (names p)
      = Inr (sum_list (map (\<lambda>n. Max (set (map (objective_fact name) (open_at p chosen n)))) (names p)))" for name
    by (rule sum_each_pure) (simp add: best_fact_def opts largest_Max sub(2))
  have small: "sum_each (least_fact by ?fixed name) (names p)
      = Inr (sum_list (map (\<lambda>n. Min (set (map (objective_fact name) (open_at p chosen n)))) (names p)))" for name
    by (rule sum_each_pure) (simp add: least_fact_def opts least_Min sub(2))
  have shares: "each (edge_bound by ?fixed) (gr_edges (pr_graph p))
      = Inr (map (edge_share p chosen) (gr_edges (pr_graph p)))"
    using ok by (intro each_pure)
      (simp add: problem_ok_def list_all_iff edge_bound_def opts edge_share_def pairs_at_def Let_def
        largest_Max fusible_def)
  have ranks: "each (\<lambda>n. and_then (open_options by ?fixed n) (\<lambda>cs.
        and_then (each (\<lambda>c. subscript (priority p) (cd_target c)) cs) least)) (names p)
      = Inr (map (\<lambda>n. Min (set (map (rank p) (open_at p chosen n)))) (names p))"
  proof (rule each_pure)
    fix n assume n: "n \<in> set (names p)"
    have "each (\<lambda>c. subscript (priority p) (cd_target c)) (open_at p chosen n)
        = Inr (map (rank p) (open_at p chosen n))"
      using rank_of(2)[OF ok] cell n by (intro each_pure) simp
    then show "and_then (open_options by ?fixed n) (\<lambda>cs.
        and_then (each (\<lambda>c. subscript (priority p) (cd_target c)) cs) least)
      = Inr (Min (set (map (rank p) (open_at p chosen n))))"
      using n by (simp add: opts least_Min sub(2))
  qed
  have keys: "distinct (map fst (iv_targets (pr_inventory p)))"
    using ok by (simp add: problem_ok_def pr_inventory_def inventory_model_def comp_def)
  have idents: "each (\<lambda>n. and_then (open_options by ?fixed n) (\<lambda>cs.
        and_then (each (\<lambda>c. subscript (dict_of (iv_targets (pr_inventory p))) (cd_target c)) cs) least)) (names p)
      = Inr (map (\<lambda>n. Min (set (map (identity_of p) (open_at p chosen n)))) (names p))"
  proof (rule each_pure)
    fix n assume n: "n \<in> set (names p)"
    have "each (\<lambda>c. subscript (dict_of (iv_targets (pr_inventory p))) (cd_target c)) (open_at p chosen n)
        = Inr (map (identity_of p) (open_at p chosen n))"
      using first_identity_of(2) cell n by (intro each_pure) (simp add: dget_dict_of[OF keys])
    then show "and_then (open_options by ?fixed n) (\<lambda>cs.
        and_then (each (\<lambda>c. subscript (dict_of (iv_targets (pr_inventory p))) (cd_target c)) cs) least)
      = Inr (Min (set (map (identity_of p) (open_at p chosen n))))"
      using n by (simp add: opts least_Min sub(2))
  qed
  show ?thesis
    by (simp add: lower_bound_def Let_def big small shares ranks idents choice_bound_def comp_def)
qed

subsection \<open>The bound is optimistic\<close>

lemma list_le_pointwise: "list_all2 (\<le>) xs ys \<Longrightarrow> xs \<le> ys"
  for xs :: "'a :: linorder list"
  by (induction xs ys rule: list_all2_induct) auto

lemma choice_bound_le:
  assumes ok: "problem_ok p" and cs: "assignment p (chosen @ rest)"
  shows "choice_bound p chosen \<le> assignment_score p (chosen @ rest)"
proof -
  let ?cs = "chosen @ rest"
  note mem = pick_open[OF ok cs]
  have picked: "map f ?cs = map (\<lambda>n. f (pick p ?cs n)) (names p)" for f :: "candidate \<Rightarrow> 'b"
    by (rule map_pick[OF ok cs, symmetric])
  have upper: "sum_list (map f ?cs) \<le> sum_list (map (\<lambda>n. Max (set (map f (open_at p chosen n)))) (names p))"
    for f :: "candidate \<Rightarrow> int"
    unfolding picked using mem by (intro sum_list_mono) simp
  have lower: "sum_list (map (\<lambda>n. Min (set (map f (open_at p chosen n)))) (names p)) \<le> sum_list (map f ?cs)"
    for f :: "candidate \<Rightarrow> int"
    unfolding picked using mem by (intro sum_list_mono) simp
  have cell: "cell_ok p (pick p ?cs n)" if "n \<in> set (names p)" for n
    using eligible_cell[OF ok pick_eligible[OF ok cs that]] by simp
  have pair: "(pick p ?cs (ed_producer e), pick p ?cs (ed_consumer e)) \<in> set (pairs_at p chosen e)"
    if "e \<in> set (gr_edges (pr_graph p))"
      "cd_target (pick p ?cs (ed_producer e)) = cd_target (pick p ?cs (ed_consumer e))" for e
    using mem edge_ends[OF ok that(1)] that(2) by (auto simp: pairs_at_def same_target_pairs_def)
  have cross: "sum_list (map (\<lambda>e. fst (edge_share p chosen e)) (gr_edges (pr_graph p)))
      \<le> sum_list (map (edge_cross p ?cs) (gr_edges (pr_graph p)))"
    using pair by (intro sum_list_mono) (force simp: edge_share_def edge_cross_def)
  have collect: "0 \<le> sum_list (map (edge_collect p ?cs) (gr_edges (pr_graph p)))"
    using cell edge_ends[OF ok] by (intro sum_list_nonneg) (auto simp: edge_collect_def cell_ok_def)
  have fuse: "edge_fuse p ?cs e \<le> snd (edge_share p chosen e)" if e: "e \<in> set (gr_edges (pr_graph p))" for e
  proof (cases "cd_target (pick p ?cs (ed_producer e)) = cd_target (pick p ?cs (ed_consumer e))")
    case True
    let ?S = "set (map (\<lambda>(a, b). min (fusible a) (fusible b)) (pairs_at p chosen e))"
    have "edge_fuse p ?cs e \<in> ?S" using pair[OF e True] True by (force simp: edge_fuse_def)
    then have "edge_fuse p ?cs e \<le> Max ?S" by (intro Max_ge) auto
    then show ?thesis using pair[OF e True] by (auto simp: edge_share_def)
  next
    case False
    have "0 \<le> snd (edge_share p chosen e)"
    proof (cases "pairs_at p chosen e = []")
      case ne: False
      let ?S = "set (map (\<lambda>(a, b). min (fusible a) (fusible b)) (pairs_at p chosen e))"
      have "Max ?S \<in> ?S" using ne by (intro Max_in) auto
      then obtain a b where ab: "(a, b) \<in> set (pairs_at p chosen e)" "Max ?S = min (fusible a) (fusible b)"
        by auto
      then have "a \<in> set (open_at p chosen (ed_producer e))" "b \<in> set (open_at p chosen (ed_consumer e))"
        by (auto simp: pairs_at_def same_target_pairs_def)
      then have "cell_ok p a" "cell_ok p b"
        using open_subset(1)[OF ok choice_prefix[OF cs]] eligible_cell[OF ok] edge_ends[OF ok e] by blast+
      then show ?thesis using ne ab(2) by (simp add: edge_share_def cell_ok_def fusible_def)
    qed (simp add: edge_share_def)
    then show ?thesis using False by (simp add: edge_fuse_def)
  qed
  have fuse_sum: "sum_list (map (edge_fuse p ?cs) (gr_edges (pr_graph p)))
      \<le> sum_list (map (\<lambda>e. snd (edge_share p chosen e)) (gr_edges (pr_graph p)))"
    by (rule sum_list_mono) (rule fuse)
  have ranks: "list_all2 (\<le>) (map (\<lambda>n. Min (set (map (rank p) (open_at p chosen n)))) (names p))
      (map (rank p) ?cs)"
    unfolding picked using mem by (simp add: list.rel_map list_all2_same)
  have idents: "list_all2 (\<le>) (map (\<lambda>n. Min (set (map (identity_of p) (open_at p chosen n)))) (names p))
      (map (identity_of p) ?cs)"
    unfolding picked using mem by (simp add: list.rel_map list_all2_same)
  have "fst (choice_bound p chosen) \<le> fst (assignment_score p ?cs)"
    unfolding choice_bound_def assignment_score_def Let_def fst_conv
    using upper[of "objective_fact ''proven_local_io_nodes''"]
      upper[of "objective_fact ''proven_pushdown_actions''"] lower cross collect fuse_sum ranks
    by (intro list_le_pointwise list_all2_appendI) simp_all
  moreover have "snd (choice_bound p chosen) \<le> snd (assignment_score p ?cs)"
    unfolding choice_bound_def assignment_score_def Let_def snd_conv
    using idents by (rule list_le_pointwise)
  ultimately show ?thesis by (simp add: less_eq_prod_def order_le_less)
qed

interpretation placement: optimistic_bound problem_ok all_options assignment_score choice_bound
  by unfold_locales (simp add: choice_bound_le flip: assignment_iff)

end
