(* ===== verification/Adaptive_Correctness.thy ===== *)
theory Adaptive_Correctness
  imports Adaptive_Optimality
begin

text \<open>
  The refinement of the monadic solver and oracle by the pure searches, the least assignment both
  find, the limits within which the solver returns, and the properties of the planner's placement.
\<close>

subsection \<open>The specification\<close>

definition viable :: "problem \<Rightarrow> candidate list \<Rightarrow> bool" where
  "viable p cs \<longleftrightarrow> (\<exists>h. assignment_handoffs (pr_sha256 p) (pr_context p) (pr_graph p)
     (decide (names p) cs) (pr_targets p) = Inr (Some h))"

definition assignment_key :: "problem \<Rightarrow> candidate list \<Rightarrow> score \<times> string list" where
  "assignment_key p cs = (assignment_score p cs, map cd_id cs)"

definition placement :: "problem \<Rightarrow> candidate list \<Rightarrow> bool" where
  "placement p cs \<longleftrightarrow> assignment p cs \<and> viable p cs"

definition best_placement :: "problem \<Rightarrow> candidate list \<Rightarrow> bool" where
  "best_placement p cs \<longleftrightarrow> placement p cs
     \<and> (\<forall>cs'. placement p cs' \<longrightarrow> assignment_key p cs \<le> assignment_key p cs')"

subsection \<open>From the monadic search to the pure one\<close>

definition entry :: "problem \<Rightarrow> candidate list \<Rightarrow> score \<times> decision list" where
  "entry p cs = (assignment_score p cs, decide (names p) cs)"

definition leaf_of :: "(score \<Rightarrow> decision list \<Rightarrow> (score \<times> decision list) option \<Rightarrow> bool) \<Rightarrow> problem
    \<Rightarrow> candidate list \<Rightarrow> (score \<times> decision list) option \<Rightarrow> (score \<times> decision list) option" where
  "leaf_of better p = weigh (viable p) (entry p) (\<lambda>(s, d). better s d)"

definition prune_of :: "problem \<Rightarrow> candidate list \<Rightarrow> (score \<times> decision list) option \<Rightarrow> bool" where
  "prune_of p chosen best = pruned (choice_bound p chosen) best"

lemma refines_offer:
  assumes mem: "\<And>c. E (over_budget c)" and ok: "problem_ok p" and cs: "assignment p cs"
  shows "refines E (offer category better p cs) (leaf_of better p cs)"
proof (rule refinesI)
  fix st r st' assume sok: "search_ok st" and run: "offer category better p cs st = (r, st')"
  obtain h where h: "assignment_handoffs (pr_sha256 p) (pr_context p) (pr_graph p)
      (decide (names p) cs) (pr_targets p) = Inr h"
    using handoffs_assignment[OF ok cs] by blast
  note obj = objective_assignment[OF ok cs]
  show "progress st st' \<and> (r = Inr () \<longrightarrow> ss_best st' = leaf_of better p cs (ss_best st))
      \<and> (\<forall>e. r = Inl e \<longrightarrow> E e)"
  proof (cases "h \<noteq> None \<and> better (assignment_score p cs) (decide (names p) cs) (ss_best st)")
    case True
    then have "install category cs (assignment_score p cs) (decide (names p) cs) st = (r, st')"
      using run h obj by (auto simp: offer_def Let_def)
    note out = refinesD[OF refines_install[of E, OF mem] sok this]
    have "leaf_of better p cs (ss_best st) = Some (assignment_score p cs, decide (names p) cs)"
      using True h by (auto simp: leaf_of_def weigh_def viable_def entry_def)
    then show ?thesis using out by auto
  next
    case False
    then have "r = Inr ()" "st' = st" using run h obj by (auto simp: offer_def Let_def split: option.splits)
    moreover have "leaf_of better p cs (ss_best st) = ss_best st"
      using False h by (auto simp: leaf_of_def weigh_def viable_def entry_def)
    ultimately show ?thesis using sok by (simp add: progress_refl)
  qed
qed

lemma refines_enter:
  assumes bound: "lower_bound p by chosen = Inr bound" and body: "refines resource_error body upd"
  shows "refines resource_error (enter p by chosen body) (\<lambda>best. if pruned bound best then best else upd best)"
proof (rule refinesI)
  fix st r st' assume ok: "search_ok st" and run: "enter p by chosen body st = (r, st')"
  let ?st = "st\<lparr>so_expansions := so_expansions st + 1\<rparr>"
  let ?body = "\<lambda>st2. if pruned bound (ss_best st2) then (Inr (), st2) else body st2"
  let ?upd = "\<lambda>best. if pruned bound best then best else upd best"
  have "refines resource_error ?body ?upd"
    using body by (auto simp: refines_def progress_refl split: if_splits)
  note alloc = refines_allocation[of resource_error, OF over_budget_error(2) this]
  have ok': "search_ok ?st" using ok by (simp add: search_ok_def budget_ok_def)
  show "progress st st' \<and> (r = Inr () \<longrightarrow> ss_best st' = ?upd (ss_best st))
      \<and> (\<forall>e. r = Inl e \<longrightarrow> resource_error e)"
  proof (cases "max_solver_expansions < so_expansions st + 1")
    case True
    then have "r = Inl expansion_error" "st' = st"
      using run by (auto simp: enter_def check_expansion_limit_def)
    then show ?thesis using ok by (simp add: progress_refl resource_error_def)
  next
    case False
    then have "allocation (search_payload chosen (take 6 (score_json bound)) (score_json bound))
        ''solver-frontier'' 128 ?body ?st = (r, st')"
      using run bound by (simp add: enter_def check_expansion_limit_def Let_def)
    note out = refinesD[OF alloc ok' this]
    have "progress st st'" using out(1) by (simp add: progress_def)
    then show ?thesis using out by auto
  qed
qed

lemma choice_snoc:
  assumes "names p = pre @ n # ns" "choice p chosen" "length chosen = length pre"
    and "c \<in> set (eligible (pr_candidates p) n)"
  shows "choice p (chosen @ [c])"
  using assms by (simp add: choice_def list_all2_appendI)

lemma refines_visit:
  assumes ok: "problem_ok p"
    and "by": "\<And>n. n \<in> set (names p) \<Longrightarrow> dget by n = Some (node_options p n)"
  shows "names p = pre @ ns \<Longrightarrow> choice p chosen \<Longrightarrow> length chosen = length pre \<Longrightarrow>
    refines resource_error (visit p by ns chosen)
      (branch (prune_of p) (leaf_of improves p) (map (node_options p) ns) chosen)"
proof (induction ns arbitrary: pre chosen)
  case Nil
  have "assignment p chosen" using Nil by (simp add: assignment_def)
  note leaf = refines_offer[of resource_error, OF over_budget_error(2) ok this]
  note bound = lower_bound_ok[OF ok Nil.prems(2) "by"]
  show ?case
    using refines_enter[OF bound leaf] by (simp flip: prune_of_def)
next
  case (Cons n ns)
  note bound = lower_bound_ok[OF ok Cons.prems(2) "by"]
  have "refines resource_error (visit p by ns (chosen @ [c]))
      (branch (prune_of p) (leaf_of improves p) (map (node_options p) ns) (chosen @ [c]))"
    if "c \<in> set (node_options p n)" for c
    using Cons.prems that choice_snoc[OF Cons.prems] by (intro Cons.IH[of "pre @ [n]"]) simp_all
  then have loop: "refines resource_error (for_each (\<lambda>c. visit p by ns (chosen @ [c])) (node_options p n))
      (fold (\<lambda>c. branch (prune_of p) (leaf_of improves p) (map (node_options p) ns) (chosen @ [c]))
        (node_options p n))"
    by (rule refines_for_each)
  have "dget by n = Some (node_options p n)" using Cons.prems(1) by (intro "by") simp
  then have "refines resource_error (\<lambda>st. case subscript by n of Inl e \<Rightarrow> (Inl e, st)
        | Inr cs \<Rightarrow> for_each (\<lambda>c. visit p by ns (chosen @ [c])) cs st)
      (fold (\<lambda>c. branch (prune_of p) (leaf_of improves p) (map (node_options p) ns) (chosen @ [c]))
        (node_options p n))"
    using loop by simp
  from refines_enter[OF bound this] show ?case by (simp flip: prune_of_def)
qed

definition id_options :: "problem \<Rightarrow> string \<Rightarrow> candidate list" where
  "id_options p n = sort_key cd_id (eligible (pr_candidates p) n)"

lemma refines_enumerate:
  assumes ok: "problem_ok p"
  shows "names p = pre @ ns \<Longrightarrow> choice p chosen \<Longrightarrow> length chosen = length pre \<Longrightarrow>
    refines memory_error (enumerate_assignments p ns chosen)
      (branch (\<lambda>_ _. False) (leaf_of beats p) (map (id_options p) ns) chosen)"
proof (induction ns arbitrary: pre chosen)
  case Nil
  have "assignment p chosen" using Nil by (simp add: assignment_def)
  note leaf = refines_offer[of memory_error, OF over_budget_error(1) ok this]
  show ?case using refines_allocation[of memory_error, OF over_budget_error(1) leaf] by simp
next
  case (Cons n ns)
  have "refines memory_error (enumerate_assignments p ns (chosen @ [c]))
      (branch (\<lambda>_ _. False) (leaf_of beats p) (map (id_options p) ns) (chosen @ [c]))"
    if "c \<in> set (id_options p n)" for c
    using Cons.prems that choice_snoc[OF Cons.prems]
    by (intro Cons.IH[of "pre @ [n]"]) (simp_all add: id_options_def)
  then have loop: "refines memory_error (for_each (\<lambda>c. enumerate_assignments p ns (chosen @ [c])) (id_options p n))
      (fold (\<lambda>c. branch (\<lambda>_ _. False) (leaf_of beats p) (map (id_options p) ns) (chosen @ [c]))
        (id_options p n))"
    by (rule refines_for_each)
  have n: "n \<in> set (names p)" using Cons.prems(1) by simp
  have "dget (plain_options p) n = Some (eligible (pr_candidates p) n)"
    unfolding plain_options_def using ok n
    by (subst dget_dict_of) (auto simp: problem_ok_def comp_def map_of_eq_Some_iff)
  then have "refines memory_error (\<lambda>st. case subscript (plain_options p) n of Inl e \<Rightarrow> (Inl e, st)
        | Inr cs \<Rightarrow> for_each (\<lambda>c. enumerate_assignments p ns (chosen @ [c])) (sort_key cd_id cs) st)
      (fold (\<lambda>c. branch (\<lambda>_ _. False) (leaf_of beats p) (map (id_options p) ns) (chosen @ [c]))
        (id_options p n))"
    using loop by (simp add: id_options_def)
  from refines_allocation[of memory_error, OF over_budget_error(1) this] show ?case by simp
qed

subsection \<open>The minimum of a fold\<close>

lemma fold_weigh_min:
  fixes m :: "'d \<Rightarrow> 'k :: linorder"
  assumes less: "\<And>d d'. better d (Some d') \<longleftrightarrow> m d < m d'" and first: "\<And>d. better d None"
  shows "case fold (weigh V E better) xs None of
      None \<Rightarrow> \<forall>x \<in> set xs. \<not> V x
    | Some d \<Rightarrow> \<exists>ys y zs. xs = ys @ y # zs \<and> V y \<and> d = E y
        \<and> (\<forall>x \<in> set ys. V x \<longrightarrow> m (E y) < m (E x))
        \<and> (\<forall>x \<in> set zs. V x \<longrightarrow> m (E y) \<le> m (E x))"
proof (induction xs rule: rev_induct)
  case (snoc x xs)
  let ?b = "fold (weigh V E better) xs None"
  have step: "fold (weigh V E better) (xs @ [x]) None
      = (if V x \<and> better (E x) ?b then Some (E x) else ?b)"
    by (simp add: weigh_def)
  show ?case
  proof (cases ?b)
    case None
    then have none: "\<forall>y \<in> set xs. \<not> V y" using snoc by simp
    show ?thesis
    proof (cases "V x")
      case True
      then have "fold (weigh V E better) (xs @ [x]) None = Some (E x)" unfolding step using None by (simp add: first)
      then show ?thesis using True none by (simp only: option.case) (rule exI[of _ xs], rule exI[of _ x], rule exI[of _ "[]"], simp)
    next
      case False
      then have "fold (weigh V E better) (xs @ [x]) None = None" unfolding step using None by (simp add: first)
      then show ?thesis using False none by simp
    qed
  next
    case (Some d)
    then obtain ys y zs where split: "xs = ys @ y # zs" "V y" "d = E y"
      "\<forall>x \<in> set ys. V x \<longrightarrow> m (E y) < m (E x)"
      "\<forall>x \<in> set zs. V x \<longrightarrow> m (E y) \<le> m (E x)"
      using snoc by auto
    show ?thesis
    proof (cases "V x \<and> m (E x) < m d")
      case True
      then have "fold (weigh V E better) (xs @ [x]) None = Some (E x)" unfolding step using Some by (simp add: less)
      moreover have "\<forall>z \<in> set xs. V z \<longrightarrow> m (E x) < m (E z)"
        using True split by (auto dest: less_trans less_le_trans)
      ultimately show ?thesis using True by (simp only: option.case) (rule exI[of _ xs], rule exI[of _ x], rule exI[of _ "[]"], simp)
    next
      case False
      then have "fold (weigh V E better) (xs @ [x]) None = Some d"
        unfolding step using Some by (auto simp: less)
      moreover have "xs @ [x] = ys @ y # (zs @ [x])" using split(1) by simp
      moreover have "\<forall>z \<in> set (zs @ [x]). V z \<longrightarrow> m (E y) \<le> m (E z)"
        using split False by auto
      ultimately show ?thesis using split(2-4) by (simp only: option.case) blast
    qed
  qed
qed simp

subsection \<open>Order of the assignments\<close>

lemma sorted_product_lists:
  fixes key :: "'a \<Rightarrow> 'k :: linorder"
  assumes "\<And>xs. xs \<in> set xss \<Longrightarrow> sorted_wrt (\<lambda>x y. key x < key y) xs"
  shows "sorted_wrt (\<lambda>a b. map key a < map key b) (product_lists xss)"
  using assms
proof (induction xss)
  case (Cons xs xss)
  let ?R = "\<lambda>a b. map key a < map key b"
  have rest: "sorted_wrt ?R (product_lists xss)" using Cons by simp
  have "sorted_wrt ?R (concat (map (\<lambda>x. map (Cons x) (product_lists xss)) ys))"
    if "sorted_wrt (\<lambda>x y. key x < key y) ys" for ys
    using that
  proof (induction ys)
    case (Cons y ys)
    have "sorted_wrt ?R (map (Cons y) (product_lists xss))"
      using rest by (simp add: sorted_wrt_map)
    then show ?case using Cons by (auto simp: sorted_wrt_append)
  qed simp
  then show ?case using Cons.prems[of xs] by simp
qed simp

lemma sort_key_strict:
  assumes "distinct (map key xs)"
  shows "sorted_wrt (\<lambda>x y. key x < key y) (sort_key key xs)"
proof -
  have "sorted (map key (sort_key key xs))" by simp
  moreover have "distinct (map key (sort_key key xs))"
    using assms by (simp add: distinct_map)
  ultimately have "sorted_wrt (<) (map key (sort_key key xs))"
    by (simp only: strict_sorted_iff)
  then show ?thesis by (simp add: sorted_wrt_map)
qed

lemma eligible_ids: "problem_ok p \<Longrightarrow> distinct (map cd_id (eligible (pr_candidates p) n))"
  by (simp add: problem_ok_def eligible_def distinct_map_filter)

lemma options_strict:
  assumes "problem_ok p" "xs \<in> set (all_options p)"
  shows "sorted_wrt (\<lambda>x y. candidate_key (priority p) x < candidate_key (priority p) y) xs"
proof -
  obtain n where n: "xs = node_options p n" using assms(2) by (auto simp: all_options_def)
  have "distinct (map (candidate_key (priority p)) (eligible (pr_candidates p) n))"
    using eligible_ids[OF assms(1), of n] by (auto simp: distinct_map inj_on_def candidate_key_def)
  then show ?thesis unfolding n node_options_def by (rule sort_key_strict)
qed

text \<open>Among assignments of equal score the keys of the solver order like the identities.\<close>

lemma equal_score_order:
  assumes ok: "problem_ok p" and a: "assignment p a" and b: "assignment p b"
    and score: "assignment_score p a = assignment_score p b"
    and less: "map (candidate_key (priority p)) a < map (candidate_key (priority p)) b"
  shows "map cd_id a < map cd_id b"
proof -
  have ranks: "map (rank p) a = map (rank p) b" using score by (simp add: assignment_score_def Let_def)
  have cells: "\<forall>c \<in> set a. cell_ok p c" "\<forall>c \<in> set b. cell_ok p c"
    using assignment_candidates[OF ok a] assignment_candidates[OF ok b] by auto
  have same: "cd_target c = cd_target d" if "rank p c = rank p d" "cell_ok p c" "cell_ok p d" for c d
    using that ok priority_inj[of "map sl_id (pr_targets p)" "cd_target c" "cd_target d"]
    by (simp add: rank_def priority_def problem_ok_def cell_ok_def)
  have key: "candidate_key (priority p) c = (rank p c, cd_target c, cd_id c)" if "cell_ok p c" for c
    using rank_of(2)[OF ok that] by (simp add: candidate_key_def)
  have "length a = length b" using a b by (simp add: assignment_def)
  then show ?thesis using ranks cells less
  proof (induction a b rule: list_induct2)
    case (Cons x xs y ys)
    let ?k = "candidate_key (priority p)"
    have "rank p x = rank p y" "cd_target x = cd_target y"
      using Cons.prems(1-3) same[of x y] by simp_all
    then have kx: "?k x = (rank p y, cd_target y, cd_id x)" "?k y = (rank p y, cd_target y, cd_id y)"
      using key[of x] key[of y] Cons.prems(2,3) by simp_all
    have "?k x < ?k y \<longleftrightarrow> cd_id x < cd_id y" "?k x = ?k y \<longleftrightarrow> cd_id x = cd_id y"
      unfolding kx by (simp_all add: less_prod_def)
    moreover have "map cd_id xs < map cd_id ys" if "map ?k xs < map ?k ys"
      using Cons.IH Cons.prems that by simp
    ultimately show ?case using Cons.prems(4) by auto
  qed simp
qed

subsection \<open>The decisions of the solver\<close>

definition solver_fold :: "problem \<Rightarrow> (score \<times> decision list) option" where
  "solver_fold p = fold (leaf_of improves p) (product_lists (all_options p)) None"

lemma solver_fold_best:
  assumes ok: "problem_ok p"
  shows "case solver_fold p of
      None \<Rightarrow> \<forall>cs. \<not> placement p cs
    | Some d \<Rightarrow> \<exists>cs. best_placement p cs \<and> d = entry p cs"
proof -
  let ?L = "product_lists (all_options p)"
  have min: "case fold (weigh (viable p) (entry p) (\<lambda>(s, d). improves s d)) ?L None of
      None \<Rightarrow> \<forall>x \<in> set ?L. \<not> viable p x
    | Some d \<Rightarrow> \<exists>ys y zs. ?L = ys @ y # zs \<and> viable p y \<and> d = entry p y
        \<and> (\<forall>x \<in> set ys. viable p x \<longrightarrow> fst (entry p y) < fst (entry p x))
        \<and> (\<forall>x \<in> set zs. viable p x \<longrightarrow> fst (entry p y) \<le> fst (entry p x))"
    by (rule fold_weigh_min) (auto simp: improves_def)
  have sorted: "sorted_wrt (\<lambda>a b. map (candidate_key (priority p)) a < map (candidate_key (priority p)) b) ?L"
    by (rule sorted_product_lists) (rule options_strict[OF ok])
  show ?thesis
  proof (cases "solver_fold p")
    case None
    then show ?thesis using min by (auto simp: solver_fold_def leaf_of_def placement_def assignment_iff)
  next
    case (Some d)
    then obtain ys y zs where split: "?L = ys @ y # zs" "viable p y" "d = entry p y"
      "\<forall>x \<in> set ys. viable p x \<longrightarrow> assignment_score p y < assignment_score p x"
      "\<forall>x \<in> set zs. viable p x \<longrightarrow> assignment_score p y \<le> assignment_score p x"
      using min by (auto simp: solver_fold_def leaf_of_def entry_def)
    have y: "assignment p y" using split(1) by (simp add: assignment_iff)
    have "assignment_key p y \<le> assignment_key p x" if x: "placement p x" for x
    proof -
      have xa: "assignment p x" "viable p x" using x by (simp_all add: placement_def)
      then have "x \<in> set ys \<or> x = y \<or> x \<in> set zs" using split(1) by (auto simp: assignment_iff)
      then show ?thesis
      proof (elim disjE)
        assume "x \<in> set ys"
        then show ?thesis using split(4) xa(2) by (auto simp: assignment_key_def less_eq_prod_def)
      next
        assume "x \<in> set zs"
        then have "map (candidate_key (priority p)) y < map (candidate_key (priority p)) x"
          using sorted split(1) by (simp add: sorted_wrt_append)
        then have "assignment_score p y = assignment_score p x \<Longrightarrow> map cd_id y < map cd_id x"
          using equal_score_order[OF ok y xa(1)] by simp
        moreover have "assignment_score p y \<le> assignment_score p x"
          using \<open>x \<in> set zs\<close> split(5) xa(2) by blast
        ultimately show ?thesis
          by (cases "assignment_score p y = assignment_score p x")
             (simp_all add: assignment_key_def less_eq_prod_def[of "(assignment_score p y, _)"]
               order_le_neq_trans)
      qed simp
    qed
    then have "best_placement p y" using y split(2) by (simp add: best_placement_def placement_def)
    then show ?thesis using Some split(3) by auto
  qed
qed

lemma solver_search:
  assumes ok: "problem_ok p" and "by": "\<forall>n \<in> set (names p). dget by n = Some (node_options p n)"
    and sok: "search_ok st" "ss_best st = None" and run: "visit p by (names p) [] st = (r, st')"
  shows "progress st st'" "r = Inr () \<Longrightarrow> ss_best st' = solver_fold p"
    "r = Inl e \<Longrightarrow> resource_error e"
proof -
  have "refines resource_error (visit p by (names p) [])
      (branch (prune_of p) (leaf_of improves p) (map (node_options p) (names p)) [])"
    using "by" by (intro refines_visit[OF ok, of _ "[]"]) (simp_all add: choice_def)
  note out = refinesD[OF this sok(1) run]
  have leaf: "leaf_of improves p cs best = (case best of
      None \<Rightarrow> if viable p cs then Some (assignment_score p cs, decide (names p) cs) else None
    | Some (s, d) \<Rightarrow> if viable p cs \<and> assignment_score p cs < s
        then Some (assignment_score p cs, decide (names p) cs) else Some (s, d))" for cs best
    by (auto simp: leaf_of_def weigh_def entry_def improves_def split: option.splits)
  have "branch (prune_of p) (leaf_of improves p) (all_options p) [] None
      = fold (\<lambda>rest. leaf_of improves p ([] @ rest)) (product_lists (all_options p)) None"
    by (rule placement.pruning_sound[OF ok leaf, where pre = "[]"])
       (auto simp: prune_of_def pruned_def split: option.splits)
  then show "r = Inr () \<Longrightarrow> ss_best st' = solver_fold p"
    using out(2) sok(2) by (simp add: solver_fold_def all_options_def)
  show "progress st st'" "r = Inl e \<Longrightarrow> resource_error e" using out by auto
qed

subsection \<open>The ledger around a search\<close>

lemma start_ok: "budget_ok b \<Longrightarrow> search_ok (start_solver b)"
  "budget_ok b \<Longrightarrow> search_ok (start_oracle b)"
  by (simp_all add: search_ok_def start_solver_def start_oracle_def budget_ok_def)

lemma truncate_sel [simp]:
  "bu_limit (budget.truncate st) = bu_limit st" "bu_live (budget.truncate st) = bu_live st"
  "bu_peak (budget.truncate st) = bu_peak st" "bu_charges (budget.truncate st) = bu_charges st"
  "bu_next (budget.truncate st) = bu_next st"
  by (simp_all add: budget.truncate_def)

lemma truncate_ok: "search_ok st \<Longrightarrow> budget_ok (budget.truncate st)"
  by (simp add: search_ok_def budget_ok_def)

lemma truncate_own:
  assumes "progress st st'" "ss_incumbent st = None" "bu_charges st = bu_charges b"
    and "dget (bu_charges b) t = Some v"
  shows "dget (bu_charges (budget.truncate st')) t = Some v"
  using assms by (cases v) (simp add: progress_def)

text \<open>What a frame around a search leaves behind.\<close>

lemma frame_search:
  assumes ok: "budget_ok b" and run: "frame body b = (r, b')"
    and body: "body b = (q, budget.truncate st)" "progress st0 st" "ss_incumbent st0 = None"
      "bu_charges st0 = bu_charges b"
  shows "r = q" "budget_ok b'" "dget (bu_charges b') = dget (bu_charges b)" "bu_live b' = bu_live b"
proof -
  note restored = frame_restores[OF ok body(1) truncate_ok[OF progress_ok[OF body(2)]]
      truncate_own[OF body(2-4)] run]
  show "r = q" "budget_ok b'" "dget (bu_charges b') = dget (bu_charges b)" using restored by auto
  then show "bu_live b' = bu_live b" using live_same ok by blast
qed

lemma solve_outcome:
  assumes ok: "problem_ok p" and b: "budget_ok b"
  shows "\<exists>r st. solve p b = (r, budget.truncate st) \<and> progress (start_solver b) st
    \<and> (case r of Inr ds \<Rightarrow> \<exists>s. solver_fold p = Some (s, ds)
       | Inl e \<Rightarrow> resource_error e \<or> e = no_assignment \<and> solver_fold p = None)"
proof -
  obtain "by" where "by": "options_by_node p = Inr by"
    "\<forall>n \<in> set (names p). dget by n = Some (node_options p n)"
    using options_by_node_ok[OF ok] by metis
  obtain q st where run: "visit p by (names p) [] (start_solver b) = (q, st)"
    by (cases "visit p by (names p) [] (start_solver b)")
  have "ss_best (start_solver b) = None" by (simp add: start_solver_def)
  note out = solver_search[OF ok "by"(2) start_ok(1)[OF b] this run]
  show ?thesis
  proof (cases q)
    case (Inl e)
    then have "solve p b = (Inl e, budget.truncate st)" using "by"(1) run by (simp add: solve_def)
    then show ?thesis using out(1) out(3)[OF Inl] by auto
  next
    case (Inr u)
    then have best: "ss_best st = solver_fold p" using out(2) by simp
    show ?thesis
    proof (cases "solver_fold p")
      case None
      then have "solve p b = (Inl no_assignment, budget.truncate st)"
        using "by"(1) run Inr best by (simp add: solve_def)
      then show ?thesis using out(1) None by auto
    next
      case (Some d)
      then have "solve p b = (Inr (snd d), budget.truncate st)"
        using "by"(1) run Inr best by (simp add: solve_def split: prod.splits)
      then show ?thesis using out(1) Some by (cases d) auto
    qed
  qed
qed

subsection \<open>The oracle\<close>

lemma decide_ids: "length cs = length ns \<Longrightarrow> map de_candidate (decide ns cs) = map cd_id cs"
  by (induction ns cs rule: list_induct2') (simp_all add: decide_def)

lemma entry_key:
  "assignment p cs \<Longrightarrow> (fst (entry p cs), map de_candidate (snd (entry p cs))) = assignment_key p cs"
  by (simp add: entry_def assignment_key_def decide_ids assignment_def)

lemma assignment_id_iff: "assignment p cs \<longleftrightarrow> cs \<in> set (product_lists (map (id_options p) (names p)))"
  by (auto simp: assignment_iff product_lists_set all_options_def id_options_def list_all2_conv_all_nth)

definition oracle_fold :: "problem \<Rightarrow> (score \<times> decision list) option" where
  "oracle_fold p = fold (leaf_of beats p) (product_lists (map (id_options p) (names p))) None"

lemma oracle_fold_best:
  "case oracle_fold p of
     None \<Rightarrow> \<forall>cs. \<not> placement p cs
   | Some d \<Rightarrow> \<exists>cs. best_placement p cs \<and> d = entry p cs"
proof -
  let ?L = "product_lists (map (id_options p) (names p))"
  let ?m = "\<lambda>d :: score \<times> decision list. (fst d, map de_candidate (snd d))"
  have min: "case fold (weigh (viable p) (entry p) (\<lambda>(s, d). beats s d)) ?L None of
      None \<Rightarrow> \<forall>x \<in> set ?L. \<not> viable p x
    | Some d \<Rightarrow> \<exists>ys y zs. ?L = ys @ y # zs \<and> viable p y \<and> d = entry p y
        \<and> (\<forall>x \<in> set ys. viable p x \<longrightarrow> ?m (entry p y) < ?m (entry p x))
        \<and> (\<forall>x \<in> set zs. viable p x \<longrightarrow> ?m (entry p y) \<le> ?m (entry p x))"
    by (rule fold_weigh_min) (auto simp: beats_def)
  show ?thesis
  proof (cases "oracle_fold p")
    case None
    then show ?thesis using min by (auto simp: oracle_fold_def leaf_of_def placement_def assignment_id_iff)
  next
    case (Some d)
    then obtain ys y zs where split: "?L = ys @ y # zs" "viable p y" "d = entry p y"
      "\<forall>x \<in> set ys. viable p x \<longrightarrow> ?m (entry p y) < ?m (entry p x)"
      "\<forall>x \<in> set zs. viable p x \<longrightarrow> ?m (entry p y) \<le> ?m (entry p x)"
      using min by (auto simp: oracle_fold_def leaf_of_def)
    have y: "assignment p y" using split(1) by (simp add: assignment_id_iff)
    have "assignment_key p y \<le> assignment_key p x" if x: "placement p x" for x
    proof -
      have xa: "assignment p x" "viable p x" using x by (simp_all add: placement_def)
      then have "x \<in> set ys \<or> x = y \<or> x \<in> set zs" using split(1) by (auto simp: assignment_id_iff)
      then have "?m (entry p y) \<le> ?m (entry p x)" using split(4,5) xa(2) by (metis order_le_less)
      then show ?thesis by (simp only: entry_key[OF y] entry_key[OF xa(1)])
    qed
    then have "best_placement p y" using y split(2) by (simp add: best_placement_def placement_def)
    then show ?thesis using Some split(3) by auto
  qed
qed

lemma best_placement_unique:
  "best_placement p a \<Longrightarrow> best_placement p b \<Longrightarrow> assignment_key p a = assignment_key p b"
  by (meson best_placement_def order_antisym)

lemma oracle_search:
  assumes ok: "problem_ok p" and b: "budget_ok b"
    and run: "enumerate_assignments p (names p) [] (start_oracle b) = (r, st)"
  shows "r = Inr () \<Longrightarrow> ss_best st = oracle_fold p" "r = Inl e \<Longrightarrow> memory_error e"
    "progress (start_oracle b) st"
proof -
  have "refines memory_error (enumerate_assignments p (names p) [])
      (branch (\<lambda>_ _. False) (leaf_of beats p) (map (id_options p) (names p)) [])"
    by (rule refines_enumerate[OF ok, of "[]"]) (simp_all add: choice_def)
  note out = refinesD[OF this start_ok(2)[OF b] run]
  show "r = Inr () \<Longrightarrow> ss_best st = oracle_fold p"
    using out(2) by (simp add: branch_no_cut oracle_fold_def start_oracle_def)
  show "r = Inl e \<Longrightarrow> memory_error e" "progress (start_oracle b) st" using out by auto
qed

lemma check_outcome:
  assumes ok: "problem_ok p" and b: "budget_ok b" and best: "best_placement p cs"
  shows "\<exists>r st. check_oracle p (decide (names p) cs) b = (r, budget.truncate st)
    \<and> progress (start_oracle b) st \<and> (\<forall>e. r = Inl e \<longrightarrow> memory_error e)"
proof -
  have same: "budget.truncate (start_oracle b) = b"
    by (simp add: start_oracle_def budget.truncate_def)
  obtain q st where run: "enumerate_assignments p (names p) [] (start_oracle b) = (q, st)"
    by (cases "enumerate_assignments p (names p) [] (start_oracle b)")
  note out = oracle_search[OF ok b run]
  show ?thesis
  proof (cases "oracle_applies p")
    case False
    then have "check_oracle p (decide (names p) cs) b = (Inr (), budget.truncate (start_oracle b))"
      by (simp add: check_oracle_def same)
    then show ?thesis using start_ok(2)[OF b] by (auto intro: progress_refl)
  next
    case applies: True
    show ?thesis
    proof (cases q)
      case (Inl e)
      then show ?thesis using applies run out by (auto simp: check_oracle_def)
    next
      case (Inr u)
      have cs: "assignment p cs" using best by (simp add: best_placement_def placement_def)
      have "oracle_fold p \<noteq> None"
        using best oracle_fold_best[of p] by (cases "oracle_fold p") (auto simp: best_placement_def)
      then obtain cs' where cs': "oracle_fold p = Some (entry p cs')" "best_placement p cs'"
        using oracle_fold_best[of p] by auto
      have a': "assignment p cs'" using cs'(2) by (simp add: best_placement_def placement_def)
      have key: "assignment_key p cs = assignment_key p cs'" by (rule best_placement_unique[OF best cs'(2)])
      then have "map de_candidate (decide (names p) cs) = map de_candidate (decide (names p) cs')"
        using cs a' by (simp add: assignment_key_def decide_ids assignment_def)
      then have "check_oracle p (decide (names p) cs) b = (Inr (), budget.truncate st)"
        using applies run Inr out(1) cs'(1) key objective_assignment[OF ok cs]
        by (simp add: check_oracle_def entry_def assignment_key_def)
      then show ?thesis using out(3) by auto
    qed
  qed
qed

lemma framed_outcome:
  assumes "problem_ok p" "budget_ok b" "framed_solve p b = (r, b')"
  shows "dget (bu_charges b') = dget (bu_charges b)" "bu_live b' = bu_live b"
    "case r of Inr ds \<Rightarrow> \<exists>s. solver_fold p = Some (s, ds)
     | Inl e \<Rightarrow> resource_error e \<or> e = no_assignment \<and> solver_fold p = None"
proof -
  obtain q st where out: "solve p b = (q, budget.truncate st)" "progress (start_solver b) st"
    "case q of Inr ds \<Rightarrow> \<exists>s. solver_fold p = Some (s, ds)
       | Inl e \<Rightarrow> resource_error e \<or> e = no_assignment \<and> solver_fold p = None"
    using solve_outcome[OF assms(1,2)] by blast
  note frame = frame_search[OF assms(2) assms(3)[unfolded framed_solve_def] out(1,2)]
  show "dget (bu_charges b') = dget (bu_charges b)" "bu_live b' = bu_live b"
    "case r of Inr ds \<Rightarrow> \<exists>s. solver_fold p = Some (s, ds)
     | Inl e \<Rightarrow> resource_error e \<or> e = no_assignment \<and> solver_fold p = None"
    using frame out(3) by (simp_all add: start_solver_def)
qed

end
