(* ===== verification/Adaptive_Limits.thy ===== *)
theory Adaptive_Limits
  imports Adaptive_Correctness
begin

text \<open>
  When the solver returns: the number of its expansions and the memory of its ledger are bounded by
  figures that can be computed from the problem, and below the limits no resource runs out.  The
  theory ends with a concrete problem and the facts that hold of it.
\<close>

subsection \<open>Expansions\<close>

text \<open>The number of partial choices, the root included.\<close>

fun search_tree :: "'c list list \<Rightarrow> int" where
  "search_tree [] = 1"
| "search_tree (cs # css) = 1 + int (length cs) * search_tree css"

lemma search_tree_pos: "1 \<le> search_tree css"
  by (induction css) auto

definition spends :: "(solver_state \<Rightarrow> (solver_state, unit) planned) \<Rightarrow> int \<Rightarrow> bool" where
  "spends f n \<longleftrightarrow> (\<forall>st r st'. f st = (r, st') \<longrightarrow> so_expansions st' \<le> so_expansions st + n
     \<and> (r = Inl expansion_error \<longrightarrow> max_solver_expansions < so_expansions st + n))"

lemma spendsI:
  "(\<And>st r st'. f st = (r, st') \<Longrightarrow> so_expansions st' \<le> so_expansions st + n
     \<and> (r = Inl expansion_error \<longrightarrow> max_solver_expansions < so_expansions st + n)) \<Longrightarrow> spends f n"
  by (simp add: spends_def)

lemma over_budget_neq [simp]: "over_budget c \<noteq> expansion_error" "expansion_error \<noteq> over_budget c"
  by (simp_all add: over_budget_def expansion_error_def)

lemma reserve_expansions: "so_expansions (snd (reserve n c st)) = so_expansions st"
  by (simp add: reserve_def Let_def)

lemma release_expansions: "so_expansions (snd (release t st)) = so_expansions st"
  by (simp add: release_def split: option.splits prod.splits)

lemma release_error: "release t st = (Inl e, st') \<Longrightarrow> e = Missing_key"
  by (simp add: release_def split: option.splits prod.splits)

lemma reserve_error: "reserve n c st = (Inl e, st') \<Longrightarrow> e \<noteq> expansion_error"
  by (auto simp: reserve_def Let_def expansion_error_def over_budget_def split: if_splits)

lemma spends_allocation:
  assumes "spends f n" "0 \<le> n"
  shows "spends (allocation v c k f) n"
proof (rule spendsI)
  fix st r st' assume run: "allocation v c k f st = (r, st')"
  obtain q s where q: "reserve (canonical_size v + k) c st = (q, s)" by fastforce
  have s: "so_expansions s = so_expansions st" using reserve_expansions[of "canonical_size v + k" c st] q by simp
  show "so_expansions st' \<le> so_expansions st + n
      \<and> (r = Inl expansion_error \<longrightarrow> max_solver_expansions < so_expansions st + n)"
  proof (cases q)
    case (Inl e)
    then have "e \<noteq> expansion_error" using reserve_error q by blast
    then show ?thesis using Inl run q s assms(2) by (auto simp: allocation_def)
  next
    case (Inr t)
    obtain x u where x: "f s = (x, u)" by fastforce
    obtain y w where y: "release t u = (y, w)" by fastforce
    have w: "so_expansions w = so_expansions u" using release_expansions[of t u] y by simp
    have u: "so_expansions u \<le> so_expansions st + n"
      "x = Inl expansion_error \<Longrightarrow> max_solver_expansions < so_expansions st + n"
      using assms(1)[unfolded spends_def, rule_format, OF x] s by auto
    have out: "(r, st') = (case y of Inl e \<Rightarrow> (Inl e, w) | Inr _ \<Rightarrow> (x, w))"
      using run q Inr x y by (auto simp: allocation_def finally_release_def split: sum.splits)
    show ?thesis
    proof (cases y)
      case Inl': (Inl e)
      then have "e = Missing_key" using y release_error by blast
      then show ?thesis using out Inl' w u by (auto simp: expansion_error_def)
    next
      case (Inr v)
      then show ?thesis using out w u by auto
    qed
  qed
qed

lemma spends_offer:
  assumes "problem_ok p" "assignment p cs"
  shows "spends (offer category better p cs) 0"
proof (rule spendsI)
  fix st :: solver_state and r st' assume run: "offer category better p cs st = (r, st')"
  obtain h where h: "assignment_handoffs (pr_sha256 p) (pr_context p) (pr_graph p)
      (decide (names p) cs) (pr_targets p) = Inr h"
    using handoffs_assignment[OF assms] by blast
  let ?i = "install category cs (assignment_score p cs) (decide (names p) cs) st"
  have "so_expansions (snd ?i) = so_expansions st \<and> fst ?i \<noteq> Inl expansion_error"
  proof -
    let ?n = "canonical_size (search_payload cs (score_json (assignment_score p cs))
        (score_json (assignment_score p cs))) + 128"
    obtain q s where q: "reserve ?n category st = (q, s)" by fastforce
    have s: "so_expansions s = so_expansions st" using reserve_expansions[of ?n category st] q by simp
    show ?thesis
    proof (cases q)
      case (Inl e)
      then have "e \<noteq> expansion_error" using reserve_error q by blast
      then show ?thesis using Inl q s by (auto simp: install_def)
    next
      case (Inr t)
      show ?thesis
      proof (cases "ss_incumbent s")
        case None
        then show ?thesis using q s Inr by (simp add: install_def)
      next
        case (Some old)
        obtain y w where y: "release old s = (y, w)" by fastforce
        have w: "so_expansions w = so_expansions s" using release_expansions[of old s] y by simp
        show ?thesis
        proof (cases y)
          case Inl': (Inl e)
          then have "e = Missing_key" using y release_error by blast
          then show ?thesis using q s Inr Some y Inl' w by (simp add: install_def expansion_error_def)
        next
          case Inr': (Inr v)
          then show ?thesis using q s Inr Some y w by (simp add: install_def)
        qed
      qed
    qed
  qed
  then show "so_expansions st' \<le> so_expansions st + 0
      \<and> (r = Inl expansion_error \<longrightarrow> max_solver_expansions < so_expansions st + 0)"
    using run h objective_assignment[OF assms]
    by (auto simp: offer_def Let_def split: option.splits if_splits)
qed

lemma spends_for_each:
  assumes "\<And>c. c \<in> set cs \<Longrightarrow> spends (f c) n" "0 \<le> n"
  shows "spends (for_each f cs) (int (length cs) * n)"
  using assms(1)
proof (induction cs)
  case Nil
  then show ?case by (simp add: spends_def)
next
  case (Cons c cs)
  then have rest: "spends (for_each f cs) (int (length cs) * n)" and one: "spends (f c) n" by simp_all
  have pos: "0 \<le> int (length cs) * n" using assms(2) by simp
  show ?case
  proof (rule spendsI)
    fix st r st' assume run: "for_each f (c # cs) st = (r, st')"
    obtain q s where q: "f c st = (q, s)" by fastforce
    have s: "so_expansions s \<le> so_expansions st + n"
      "q = Inl expansion_error \<Longrightarrow> max_solver_expansions < so_expansions st + n"
      using one q by (auto simp: spends_def)
    show "so_expansions st' \<le> so_expansions st + int (length (c # cs)) * n
        \<and> (r = Inl expansion_error \<longrightarrow> max_solver_expansions < so_expansions st + int (length (c # cs)) * n)"
    proof (cases q)
      case (Inl e)
      then show ?thesis using run q s pos by (auto simp: algebra_simps)
    next
      case (Inr u)
      then have "for_each f cs s = (r, st')" using run q by simp
      then have "so_expansions st' \<le> so_expansions s + int (length cs) * n"
        "r = Inl expansion_error \<Longrightarrow> max_solver_expansions < so_expansions s + int (length cs) * n"
        using rest by (auto simp: spends_def)
      then show ?thesis using s(1) by (auto simp: algebra_simps)
    qed
  qed
qed

lemma spends_enter:
  assumes bound: "lower_bound p by chosen = Inr bound" and body: "spends body n" and n: "0 \<le> n"
  shows "spends (enter p by chosen body) (1 + n)"
proof (rule spendsI)
  fix st r st' assume run: "enter p by chosen body st = (r, st')"
  let ?st = "st\<lparr>so_expansions := so_expansions st + 1\<rparr>"
  let ?body = "\<lambda>st2. if pruned bound (ss_best st2) then (Inr (), st2) else body st2"
  have "spends ?body n" using body n by (auto simp: spends_def split: if_splits)
  note alloc = spends_allocation[OF this n]
  show "so_expansions st' \<le> so_expansions st + (1 + n)
      \<and> (r = Inl expansion_error \<longrightarrow> max_solver_expansions < so_expansions st + (1 + n))"
  proof (cases "max_solver_expansions < so_expansions st + 1")
    case True
    then show ?thesis using run n by (auto simp: enter_def check_expansion_limit_def)
  next
    case False
    then have "allocation (search_payload chosen (take 6 (score_json bound)) (score_json bound))
        ''solver-frontier'' 128 ?body ?st = (r, st')"
      using run bound by (simp add: enter_def check_expansion_limit_def Let_def)
    then show ?thesis
      using alloc[of "search_payload chosen (take 6 (score_json bound)) (score_json bound)"]
      unfolding spends_def by (fastforce simp: add.assoc)
  qed
qed

lemma spends_visit:
  assumes ok: "problem_ok p"
    and "by": "\<And>n. n \<in> set (names p) \<Longrightarrow> dget by n = Some (node_options p n)"
  shows "names p = pre @ ns \<Longrightarrow> choice p chosen \<Longrightarrow> length chosen = length pre \<Longrightarrow>
    spends (visit p by ns chosen) (search_tree (map (node_options p) ns))"
proof (induction ns arbitrary: pre chosen)
  case Nil
  have "assignment p chosen" using Nil by (simp add: assignment_def)
  note leaf = spends_offer[OF ok this]
  note bound = lower_bound_ok[OF ok Nil.prems(2) "by"]
  show ?case using spends_enter[OF bound leaf] by simp
next
  case (Cons n ns)
  note bound = lower_bound_ok[OF ok Cons.prems(2) "by"]
  have "spends (visit p by ns (chosen @ [c])) (search_tree (map (node_options p) ns))"
    if "c \<in> set (node_options p n)" for c
    using Cons.prems that choice_snoc[OF Cons.prems] by (intro Cons.IH[of "pre @ [n]"]) simp_all
  then have loop: "spends (for_each (\<lambda>c. visit p by ns (chosen @ [c])) (node_options p n))
      (int (length (node_options p n)) * search_tree (map (node_options p) ns))"
    using search_tree_pos[of "map (node_options p) ns"] by (intro spends_for_each) auto
  have "dget by n = Some (node_options p n)" using Cons.prems(1) by (intro "by") simp
  then have "spends (\<lambda>st. case subscript by n of Inl e \<Rightarrow> (Inl e, st)
        | Inr cs \<Rightarrow> for_each (\<lambda>c. visit p by ns (chosen @ [c])) cs st)
      (int (length (node_options p n)) * search_tree (map (node_options p) ns))"
    using loop by simp
  from spends_enter[OF bound this] show ?case
    using search_tree_pos[of "map (node_options p) ns"] by simp
qed

subsection \<open>Memory\<close>

text \<open>A computation that needs at most \<open>k\<close> records of at most \<open>m\<close> bytes and two incumbents.\<close>

definition fits :: "int \<Rightarrow> int \<Rightarrow> ('z search_state_scheme \<Rightarrow> ('z search_state_scheme, unit) planned) \<Rightarrow> bool" where
  "fits m k f \<longleftrightarrow> (\<forall>st r st'. search_ok st \<longrightarrow> incumbent_bytes st \<le> m
     \<longrightarrow> base_bytes st + (k + 2) * m \<le> bu_limit st \<longrightarrow> f st = (r, st')
     \<longrightarrow> \<not> (\<exists>e. r = Inl e \<and> memory_error e)
       \<and> (r = Inr () \<longrightarrow> base_bytes st' = base_bytes st \<and> incumbent_bytes st' \<le> m))"

lemma fitsI:
  "(\<And>st r st'. search_ok st \<Longrightarrow> incumbent_bytes st \<le> m \<Longrightarrow> base_bytes st + (k + 2) * m \<le> bu_limit st
     \<Longrightarrow> f st = (r, st') \<Longrightarrow> \<not> (\<exists>e. r = Inl e \<and> memory_error e)
       \<and> (r = Inr () \<longrightarrow> base_bytes st' = base_bytes st \<and> incumbent_bytes st' \<le> m)) \<Longrightarrow> fits m k f"
  by (simp add: fits_def)

lemma fitsD:
  assumes "fits m k f" "search_ok st" "incumbent_bytes st \<le> m"
    "base_bytes st + (k + 2) * m \<le> bu_limit st" "f st = (r, st')"
  shows "r = Inl e \<Longrightarrow> \<not> memory_error e" "r = Inr () \<Longrightarrow> base_bytes st' = base_bytes st"
    "r = Inr () \<Longrightarrow> incumbent_bytes st' \<le> m"
  using assms by (auto simp: fits_def)

lemma live_bytes: "bu_live st = base_bytes st + incumbent_bytes st"
  by (simp add: base_bytes_def)

lemma expansion_not_memory [simp]: "\<not> memory_error expansion_error"
  by (simp add: memory_error_def)

lemma reserve_grants:
  "0 \<le> n \<Longrightarrow> bu_live st + n \<le> bu_limit st \<Longrightarrow> \<exists>c. reserve n category st = (Inr (bu_next st + 1), c)"
  by (simp add: reserve_def Let_def)

lemma fits_install:
  assumes "canonical_size (search_payload cs (score_json s) (score_json s)) + 128 \<le> m"
  shows "fits m 0 (install category cs s ds)"
proof (rule fitsI)
  fix st r st' assume ok: "search_ok st" and inc: "incumbent_bytes st \<le> m"
    and room: "base_bytes st + (0 + 2) * m \<le> bu_limit st" and run: "install category cs s ds st = (r, st')"
  let ?n = "canonical_size (search_payload cs (score_json s) (score_json s)) + 128"
  have n: "0 \<le> ?n" using canonical_size_nonneg by (simp add: add_nonneg_nonneg)
  have "bu_live st + ?n \<le> bu_limit st" using assms inc room by (simp add: live_bytes)
  then obtain c where c: "reserve ?n category st = (Inr (bu_next st + 1), c)"
    using reserve_grants[OF n] by blast
  let ?t = "bu_next st + 1"
  have bok: "budget_ok st" using ok by (simp add: search_ok_def)
  have fresh: "dget (bu_charges st) ?t = None" using bok by (simp add: budget_ok_fresh)
  have okc: "budget_ok c" using reserve_ok(1)[OF bok c] .
  have more: "ss_incumbent c = ss_incumbent st"
    using c by (auto simp: reserve_def Let_def split: if_splits)
  from c have sel: "bu_charges c = dput ?t (?n, category) (bu_charges st)" "bu_live c = bu_live st + ?n"
    by (cases rule: reserve_cases; simp)+
  show "\<not> (\<exists>e. r = Inl e \<and> memory_error e)
      \<and> (r = Inr () \<longrightarrow> base_bytes st' = base_bytes st \<and> incumbent_bytes st' \<le> m)"
  proof (cases "ss_incumbent st")
    case None
    then have out: "r = Inr ()" "st' = c\<lparr>ss_incumbent := Some ?t, ss_best := Some (s, ds)\<rparr>"
      using run c more by (auto simp: install_def)
    have "incumbent_bytes st' = ?n" "incumbent_bytes st = 0"
      using out(2) None by (simp_all add: incumbent_bytes_def sel)
    then show ?thesis using out assms sel(2) by (simp add: base_bytes_def)
  next
    case (Some old)
    then obtain v where v: "dget (bu_charges st) old = Some v" using ok by (auto simp: search_ok_def)
    then have "old \<noteq> ?t" using fresh by auto
    then have held: "dget (bu_charges c) old = Some v" using v by (simp add: sel(1))
    note rel = release_ok[OF okc held]
    obtain d where d: "release old c = (Inr (), d)" using rel(1) by (metis prod.collapse)
    note rel = rel[unfolded d snd_conv]
    have out: "r = Inr ()" "st' = d\<lparr>ss_incumbent := Some ?t, ss_best := Some (s, ds)\<rparr>"
      using run c more Some d by (auto simp: install_def)
    have "incumbent_bytes st' = ?n" "incumbent_bytes st = fst v"
      using out(2) Some v \<open>old \<noteq> ?t\<close> by (simp_all add: incumbent_bytes_def rel sel)
    then show ?thesis using out assms sel(2) rel(4) by (simp add: base_bytes_def)
  qed
qed

lemma fits_for_each:
  assumes "\<And>c. c \<in> set cs \<Longrightarrow> fits m k (f c)" "\<And>c. c \<in> set cs \<Longrightarrow> refines E (f c) (upd c)"
  shows "fits m k (for_each f cs)"
  using assms
proof (induction cs)
  case Nil
  then show ?case by (simp add: fits_def)
next
  case (Cons c cs)
  have rest: "fits m k (for_each f cs)" using Cons by simp
  show ?case
  proof (rule fitsI)
    fix st r st' assume ok: "search_ok st" and inc: "incumbent_bytes st \<le> m"
      and room: "base_bytes st + (k + 2) * m \<le> bu_limit st" and run: "for_each f (c # cs) st = (r, st')"
    obtain q s where q: "f c st = (q, s)" by fastforce
    note one = fitsD[OF Cons.prems(1)[OF list.set_intros(1)] ok inc room q]
    have prog: "progress st s" using refinesD(1)[OF Cons.prems(2)[OF list.set_intros(1)] ok q] .
    show "\<not> (\<exists>e. r = Inl e \<and> memory_error e)
        \<and> (r = Inr () \<longrightarrow> base_bytes st' = base_bytes st \<and> incumbent_bytes st' \<le> m)"
    proof (cases q)
      case (Inl e)
      then show ?thesis using run q one(1) by auto
    next
      case (Inr u)
      then have "q = Inr ()" by simp
      have "for_each f cs s = (r, st')" using run q Inr by simp
      moreover have "base_bytes s + (k + 2) * m \<le> bu_limit s"
        using one(2) Inr room prog by (simp add: progress_def)
      ultimately have "\<not> (\<exists>e. r = Inl e \<and> memory_error e)
          \<and> (r = Inr () \<longrightarrow> base_bytes st' = base_bytes s \<and> incumbent_bytes st' \<le> m)"
        using rest progress_ok[OF prog] one(3) \<open>q = Inr ()\<close> unfolding fits_def by blast
      then show ?thesis using one(2) Inr by simp
    qed
  qed
qed

lemma fits_allocation:
  assumes body: "fits m k f" "refines E f upd" and n: "canonical_size v + 128 \<le> m" and k: "0 \<le> k"
  shows "fits m (k + 1) (allocation v category 128 f)"
proof (rule fitsI)
  fix st r st' assume ok: "search_ok st" and inc: "incumbent_bytes st \<le> m"
    and room: "base_bytes st + (k + 1 + 2) * m \<le> bu_limit st"
    and run: "allocation v category 128 f st = (r, st')"
  have m: "0 \<le> m" using n canonical_size_nonneg[of v] by simp
  have "0 \<le> k * m" using k m by simp
  then have granted: "bu_live st + (canonical_size v + 128) \<le> bu_limit st"
    using inc room n m by (simp add: live_bytes algebra_simps)
  from body(2) ok run show "\<not> (\<exists>e. r = Inl e \<and> memory_error e)
      \<and> (r = Inr () \<longrightarrow> base_bytes st' = base_bytes st \<and> incumbent_bytes st' \<le> m)"
  proof (cases rule: allocation_search)
    case refused
    then show ?thesis using granted by simp
  next
    case (ran c s)
    have "incumbent_bytes c \<le> m" "base_bytes c + (k + 2) * m \<le> bu_limit c"
      using ran(4-6) inc room n by (simp_all add: algebra_simps)
    note out = fitsD[OF body(1) ran(1) this ran(2)]
    then show ?thesis using ran(6,8,9) by auto
  qed
qed

lemma fits_enter:
  assumes bound: "lower_bound p by chosen = Inr bound" and body: "fits m k body" "refines E body upd"
    and n: "canonical_size (search_payload chosen (take 6 (score_json bound)) (score_json bound)) + 128 \<le> m"
    and k: "0 \<le> k"
  shows "fits m (k + 1) (enter p by chosen body)"
proof (rule fitsI)
  fix st r st' assume ok: "search_ok st" and inc: "incumbent_bytes st \<le> m"
    and room: "base_bytes st + (k + 1 + 2) * m \<le> bu_limit st" and run: "enter p by chosen body st = (r, st')"
  let ?st = "st\<lparr>so_expansions := so_expansions st + 1\<rparr>"
  let ?body = "\<lambda>st2. if pruned bound (ss_best st2) then (Inr (), st2) else body st2"
  have ref: "refines E ?body (\<lambda>best. if pruned bound best then best else upd best)"
    using body(2) by (auto simp: refines_def progress_refl split: if_splits)
  have "fits m k ?body" using body(1) by (auto simp: fits_def split: if_splits)
  note alloc = fits_allocation[OF this ref n k]
  have inc': "incumbent_bytes ?st = incumbent_bytes st"
    by (cases "ss_incumbent st") (simp_all add: incumbent_bytes_def)
  have same: "search_ok ?st" "incumbent_bytes ?st = incumbent_bytes st" "base_bytes ?st = base_bytes st"
    using ok by (simp_all add: search_ok_def budget_ok_def inc' base_bytes_def)
  show "\<not> (\<exists>e. r = Inl e \<and> memory_error e)
      \<and> (r = Inr () \<longrightarrow> base_bytes st' = base_bytes st \<and> incumbent_bytes st' \<le> m)"
  proof (cases "max_solver_expansions < so_expansions st + 1")
    case True
    then show ?thesis using run by (auto simp: enter_def check_expansion_limit_def)
  next
    case False
    then have run': "allocation (search_payload chosen (take 6 (score_json bound)) (score_json bound))
        ''solver-frontier'' 128 ?body ?st = (r, st')"
      using run bound by (simp add: enter_def check_expansion_limit_def Let_def)
    have "incumbent_bytes ?st \<le> m" "base_bytes ?st + (k + 1 + 2) * m \<le> bu_limit ?st"
      using inc room same by simp_all
    note out = fitsD[OF alloc same(1) this run']
    then show ?thesis using same(3) by auto
  qed
qed

lemma fits_offer:
  assumes "problem_ok p" "assignment p cs"
    and n: "canonical_size (search_payload cs (score_json (assignment_score p cs))
        (score_json (assignment_score p cs))) + 128 \<le> m"
  shows "fits m 0 (offer category better p cs)"
proof (rule fitsI)
  fix st r st' assume ok: "search_ok st" and inc: "incumbent_bytes st \<le> m"
    and room: "base_bytes st + (0 + 2) * m \<le> bu_limit st" and run: "offer category better p cs st = (r, st')"
  obtain h where h: "assignment_handoffs (pr_sha256 p) (pr_context p) (pr_graph p)
      (decide (names p) cs) (pr_targets p) = Inr h"
    using handoffs_assignment[OF assms(1,2)] by blast
  have "(r, st') = install category cs (assignment_score p cs) (decide (names p) cs) st \<or> (r, st') = (Inr (), st)"
    using run h objective_assignment[OF assms(1,2)]
    by (auto simp: offer_def Let_def split: option.splits if_splits)
  then show "\<not> (\<exists>e. r = Inl e \<and> memory_error e)
      \<and> (r = Inr () \<longrightarrow> base_bytes st' = base_bytes st \<and> incumbent_bytes st' \<le> m)"
    using fitsD[OF fits_install[OF n] ok inc room] inc by (metis Pair_inject sum.distinct(1))
qed

text \<open>The records of a search of the problem have at most \<open>m\<close> bytes; this can be evaluated.\<close>

definition record_fits :: "problem \<Rightarrow> int \<Rightarrow> candidate list \<Rightarrow> bool" where
  "record_fits p m cs \<longleftrightarrow>
     canonical_size (search_payload cs (take 6 (score_json (choice_bound p cs))) (score_json (choice_bound p cs))) + 128 \<le> m
     \<and> (length cs = length (names p) \<longrightarrow>
        canonical_size (search_payload cs (score_json (assignment_score p cs)) (score_json (assignment_score p cs))) + 128 \<le> m)"

definition choices :: "problem \<Rightarrow> candidate list list" where
  "choices p = concat (map (\<lambda>k. product_lists (take k (all_options p))) [0..<Suc (length (names p))])"

definition records_fit :: "problem \<Rightarrow> int \<Rightarrow> bool" where
  "records_fit p m \<longleftrightarrow> list_all (record_fits p m) (choices p)"

lemma choice_in_choices:
  assumes "choice p cs"
  shows "cs \<in> set (choices p)"
proof -
  have "list_all2 (\<lambda>c xs. c \<in> set xs) cs (take (length cs) (all_options p))"
    using assms by (simp add: choice_def all_options_def take_map list.rel_map)
  then have "cs \<in> set (product_lists (take (length cs) (all_options p)))"
    by (simp add: product_lists_set)
  moreover have "length cs \<in> set [0..<Suc (length (names p))]"
    using assms by (auto simp: choice_def)
  ultimately show ?thesis unfolding choices_def set_concat set_map by blast
qed

lemma fits_visit:
  assumes ok: "problem_ok p" and fit: "records_fit p m"
    and "by": "\<And>n. n \<in> set (names p) \<Longrightarrow> dget by n = Some (node_options p n)"
  shows "names p = pre @ ns \<Longrightarrow> choice p chosen \<Longrightarrow> length chosen = length pre \<Longrightarrow>
    fits m (int (length ns) + 1) (visit p by ns chosen)"
proof (induction ns arbitrary: pre chosen)
  case Nil
  have a: "assignment p chosen" using Nil by (simp add: assignment_def)
  have rec: "record_fits p m chosen"
    using fit choice_in_choices[OF Nil.prems(2)] by (simp add: records_fit_def list_all_iff)
  have "fits m 0 (offer ''solver-incumbent'' improves p chosen)"
    using rec a by (intro fits_offer[OF ok a]) (simp add: record_fits_def assignment_def)
  note leaf = fits_enter[OF lower_bound_ok[OF ok Nil.prems(2) "by"] this
      refines_offer[of resource_error, OF over_budget_error(2) ok a]]
  show ?case using leaf rec by (simp add: record_fits_def)
next
  case (Cons n ns)
  have rec: "record_fits p m chosen"
    using fit choice_in_choices[OF Cons.prems(2)] by (simp add: records_fit_def list_all_iff)
  have step: "fits m (int (length ns) + 1) (visit p by ns (chosen @ [c]))"
    "refines resource_error (visit p by ns (chosen @ [c]))
      (branch (prune_of p) (leaf_of improves p) (map (node_options p) ns) (chosen @ [c]))"
    if "c \<in> set (node_options p n)" for c
  proof -
    have "choice p (chosen @ [c])" using choice_snoc[OF Cons.prems] that by simp
    then show "fits m (int (length ns) + 1) (visit p by ns (chosen @ [c]))"
      "refines resource_error (visit p by ns (chosen @ [c]))
        (branch (prune_of p) (leaf_of improves p) (map (node_options p) ns) (chosen @ [c]))"
      using Cons.prems by (intro Cons.IH[of "pre @ [n]"] refines_visit[OF ok "by", of "pre @ [n]"]; simp)+
  qed
  have at: "dget by n = Some (node_options p n)" using Cons.prems(1) by (intro "by") simp
  let ?f = "\<lambda>st. case subscript by n of Inl e \<Rightarrow> (Inl e, st)
      | Inr cs \<Rightarrow> for_each (\<lambda>c. visit p by ns (chosen @ [c])) cs st"
  let ?u = "fold (\<lambda>c. branch (prune_of p) (leaf_of improves p) (map (node_options p) ns) (chosen @ [c]))
      (node_options p n)"
  have "fits m (int (length ns) + 1) (for_each (\<lambda>c. visit p by ns (chosen @ [c])) (node_options p n))"
    by (rule fits_for_each[OF step])
  moreover have "refines resource_error (for_each (\<lambda>c. visit p by ns (chosen @ [c])) (node_options p n)) ?u"
    by (rule refines_for_each[OF step(2)])
  ultimately have "fits m (int (length ns) + 1) ?f" "refines resource_error ?f ?u" using at by simp_all
  from fits_enter[OF lower_bound_ok[OF ok Cons.prems(2) "by"] this] rec show ?case
    by (simp add: record_fits_def algebra_simps)
qed

subsection \<open>Within the limits\<close>

lemma solve_in_limits:
  assumes ok: "problem_ok p" and b: "budget_ok b" and tree: "search_tree (all_options p) \<le> max_solver_expansions"
    and fit: "records_fit p m" and m: "0 \<le> m"
    and room: "bu_live b + (int (length (names p)) + 3) * m \<le> bu_limit b"
    and run: "solve p b = (Inl e, b')"
  shows "\<not> resource_error e"
proof -
  obtain "by" where "by": "options_by_node p = Inr by"
    "\<And>n. n \<in> set (names p) \<Longrightarrow> dget by n = Some (node_options p n)"
    using options_by_node_ok[OF ok] by blast
  obtain q st where v: "visit p by (names p) [] (start_solver b) = (q, st)"
    by (cases "visit p by (names p) [] (start_solver b)")
  have root: "names p = [] @ names p" "choice p []" "length [] = length ([] :: string list)"
    by (simp_all add: choice_def)
  have start: "incumbent_bytes (start_solver b) = 0" "base_bytes (start_solver b) = bu_live b"
    "bu_limit (start_solver b) = bu_limit b" "so_expansions (start_solver b) = 0"
    by (simp_all add: incumbent_bytes_def base_bytes_def start_solver_def)
  have "spends (visit p by (names p) []) (search_tree (all_options p))"
    using spends_visit[OF ok "by"(2) root] by (simp add: all_options_def)
  then have "q \<noteq> Inl expansion_error" using tree start(4) unfolding spends_def using v by fastforce
  moreover have "\<not> (\<exists>e. q = Inl e \<and> memory_error e)"
  proof -
    have "fits m (int (length (names p)) + 1) (visit p by (names p) [])"
      using fits_visit[OF ok fit "by"(2) root] by simp
    then show ?thesis
      using v start_ok(1)[OF b] start m room unfolding fits_def by (fastforce simp: algebra_simps)
  qed
  moreover have "\<not> resource_error no_assignment"
    by (simp add: resource_error_def memory_error_def no_assignment_def expansion_error_def over_budget_def)
  ultimately show ?thesis
    using run "by"(1) v by (auto simp: solve_def resource_error_def split: sum.splits option.splits)
qed

subsection \<open>Properties\<close>

text \<open>
  C19: on a well-formed problem the solver returns the decisions of the least viable assignment,
  ordered by the objective and then by the candidate identities; it reports that there is no
  assignment only when none is viable, every other error is an exhausted resource, and in each
  case the caller's ledger is as it was.
\<close>

theorem solver_exact:
  assumes "problem_ok p" "budget_ok b"
  shows "(case fst (framed_solve p b) of
            Inr ds \<Rightarrow> \<exists>cs. best_placement p cs \<and> ds = decide (names p) cs
          | Inl e \<Rightarrow> resource_error e \<or> e = no_assignment \<and> (\<forall>cs. \<not> placement p cs))
         \<and> dget (bu_charges (snd (framed_solve p b))) = dget (bu_charges b)
         \<and> bu_live (snd (framed_solve p b)) = bu_live b"
proof -
  obtain r b' where r: "framed_solve p b = (r, b')" by (cases "framed_solve p b")
  show ?thesis
    using framed_outcome[OF assms r] solver_fold_best[OF assms(1)] r
    by (auto simp: entry_def split: sum.splits)
qed

text \<open>
  The exhaustive oracle never contradicts the solver: checking the solver's decisions either
  succeeds or exceeds the transient budget.
\<close>

theorem oracle_agrees:
  assumes "problem_ok p" "budget_ok b" "budget_ok c" "fst (framed_solve p b) = Inr ds"
  shows "fst (framed_check_oracle p ds c) = Inr ()
    \<or> (\<exists>category. fst (framed_check_oracle p ds c) = Inl (over_budget category))"
proof -
  obtain s where "solver_fold p = Some (s, ds)"
    using framed_outcome(3)[OF assms(1,2) prod.collapse[symmetric]] assms(4) by auto
  then obtain cs where cs: "best_placement p cs" "ds = decide (names p) cs"
    using solver_fold_best[OF assms(1)] by (auto simp: entry_def)
  obtain r st where out: "check_oracle p ds c = (r, budget.truncate st)" "progress (start_oracle c) st"
    "\<forall>e. r = Inl e \<longrightarrow> memory_error e"
    using check_outcome[OF assms(1,3) cs(1)] cs(2) by blast
  obtain q b' where q: "framed_check_oracle p ds c = (q, b')" by (cases "framed_check_oracle p ds c")
  have "q = r" using frame_search(1)[OF assms(3) q[unfolded framed_check_oracle_def] out(1,2)]
    by (simp add: start_oracle_def)
  then show ?thesis using q out(3) by (cases r) (auto simp: memory_error_def)
qed

lemma framed_in_limits:
  assumes "problem_ok p" "budget_ok b" "search_tree (all_options p) \<le> max_solver_expansions"
    "records_fit p m" "0 \<le> m" "bu_live b + (int (length (names p)) + 3) * m \<le> bu_limit b"
    "placement p cs"
  shows "\<exists>s ds. fst (framed_solve p b) = Inr ds \<and> solver_fold p = Some (s, ds)"
proof -
  obtain r st where out: "solve p b = (r, budget.truncate st)" "progress (start_solver b) st"
    "case r of Inr ds \<Rightarrow> \<exists>s. solver_fold p = Some (s, ds)
       | Inl e \<Rightarrow> resource_error e \<or> e = no_assignment \<and> solver_fold p = None"
    using solve_outcome[OF assms(1,2)] by blast
  obtain q b' where q: "framed_solve p b = (q, b')" by (cases "framed_solve p b")
  have "q = r" using frame_search(1)[OF assms(2) q[unfolded framed_solve_def] out(1,2)]
    by (simp add: start_solver_def)
  moreover have "solver_fold p \<noteq> None"
    using solver_fold_best[OF assms(1)] assms(7) by (cases "solver_fold p") auto
  moreover have "\<not> resource_error e" if "r = Inl e" for e
    using solve_in_limits[OF assms(1-6)] out(1) that by blast
  ultimately show ?thesis using out(3) q by (cases r) auto
qed

text \<open>
  When the tree of partial choices is within the expansion limit and the ledger has room for a
  record per node and for three more, the solver returns: it finds the best placement whenever the
  problem has a placement.
\<close>

theorem solver_returns:
  assumes "problem_ok p" "budget_ok b" "search_tree (all_options p) \<le> max_solver_expansions"
    "records_fit p m" "0 \<le> m" "bu_live b + (int (length (names p)) + 3) * m \<le> bu_limit b"
    "placement p cs"
  shows "\<exists>best. best_placement p best \<and> fst (framed_solve p b) = Inr (decide (names p) best)"
proof -
  obtain s ds where "fst (framed_solve p b) = Inr ds" "solver_fold p = Some (s, ds)"
    using framed_in_limits[OF assms] by blast
  then show ?thesis using solver_fold_best[OF assms(1)] by (auto simp: entry_def)
qed

text \<open>
  No error of the solver leads to the explicit fallback: the only one with code PMADP320 names
  the handoff and security policy in its message, which the fallback check refuses.
\<close>

theorem solver_never_falls_back:
  assumes "problem_ok p" "budget_ok b" "fst (framed_solve p b) = Inl e"
  shows "\<not> falls_back mode e"
proof -
  have "e = no_assignment \<or> resource_error e"
    using framed_outcome(3)[OF assms(1,2) prod.collapse[symmetric]] assms(3) by auto
  moreover have "\<not> solver_fallback_allowed no_assignment" by code_simp
  then have "\<not> falls_back mode no_assignment" by (simp add: falls_back_def no_assignment_def)
  moreover have "\<not> falls_back mode e" if "resource_error e"
    using that by (auto simp: falls_back_def resource_error_def memory_error_def over_budget_def expansion_error_def)
  ultimately show ?thesis by auto
qed

subsection \<open>A concrete problem\<close>

text \<open>Two nodes on two targets without handoff evidence; the second target is cheaper.\<close>

definition sample_target :: "string \<Rightarrow> slot" where
  "sample_target name = \<lparr>sl_id = name, sl_target = \<lparr>pt_engine = name, pt_compiler = None,
     pt_executor = None, pt_connector = None, pt_resource = None, pt_location = ''local'',
     pt_security_domain = ''default'', pt_required_capabilities = [], pt_version_constraints = []\<rparr>,
     sl_resolved = None\<rparr>"

definition sample_cell :: "string \<Rightarrow> string \<Rightarrow> string \<Rightarrow> int \<Rightarrow> candidate" where
  "sample_cell cid name target io = \<lparr>cd_id = cid, cd_node = name, cd_target = target,
     cd_status = Eligible, cd_reason_codes = [], cd_facts = [(''proven_local_io_nodes'', io)]\<rparr>"

definition sample_problem :: problem where
  "sample_problem = \<lparr>pr_sha256 = (\<lambda>_. ''d''), pr_context = \<lparr>pc_engines = [], pc_metadata = [],
       pc_security_domain = ''default''\<rparr>,
     pr_graph = \<lparr>gr_nodes = [\<lparr>nd_name = ''a'', nd_metadata = []\<rparr>, \<lparr>nd_name = ''b'', nd_metadata = []\<rparr>],
       gr_edges = [\<lparr>ed_producer = ''a'', ed_producer_port = ''out'', ed_consumer = ''b'',
         ed_consumer_port = ''in'', ed_producer_contract = None, ed_consumer_contract = None\<rparr>]\<rparr>,
     pr_candidates = [sample_cell ''a1'' ''a'' ''x'' 0, sample_cell ''a2'' ''a'' ''y'' 0,
       sample_cell ''b1'' ''b'' ''x'' 0, sample_cell ''b2'' ''b'' ''y'' 1],
     pr_targets = [sample_target ''x'', sample_target ''y'']\<rparr>"

lemma sample_problem_ok: "problem_ok sample_problem"
  by code_simp

lemma sample_limits:
  "budget_ok (new_budget 10000)"
  "search_tree (all_options sample_problem) \<le> max_solver_expansions"
  "records_fit sample_problem 1000"
  "bu_live (new_budget 10000) + (int (length (names sample_problem)) + 3) * 1000 \<le> bu_limit (new_budget 10000)"
  by code_simp+

lemma sample_placement:
  "placement sample_problem [sample_cell ''a2'' ''a'' ''y'' 0, sample_cell ''b2'' ''b'' ''y'' 1]"
proof -
  have "(case assignment_handoffs (pr_sha256 sample_problem) (pr_context sample_problem)
      (pr_graph sample_problem) (decide (names sample_problem)
        [sample_cell ''a2'' ''a'' ''y'' 0, sample_cell ''b2'' ''b'' ''y'' 1]) (pr_targets sample_problem) of
      Inr (Some h) \<Rightarrow> True | _ \<Rightarrow> False)"
    by code_simp
  moreover have "assignment sample_problem [sample_cell ''a2'' ''a'' ''y'' 0, sample_cell ''b2'' ''b'' ''y'' 1]"
    by code_simp
  ultimately show ?thesis
    by (auto simp: placement_def viable_def split: sum.splits option.splits)
qed

lemma solver_exact_witness:
  "problem_ok sample_problem \<and> bu_live (snd (framed_solve sample_problem (new_budget 10000))) = 0"
  using solver_exact[OF sample_problem_ok sample_limits(1)] sample_problem_ok
  by (simp add: new_budget_def)

lemma oracle_agrees_witness:
  "\<exists>ds. fst (framed_solve sample_problem (new_budget 10000)) = Inr ds
     \<and> (fst (framed_check_oracle sample_problem ds (new_budget 10000)) = Inr ()
        \<or> (\<exists>category. fst (framed_check_oracle sample_problem ds (new_budget 10000))
             = Inl (over_budget category)))"
proof -
  obtain ds where ds: "fst (framed_solve sample_problem (new_budget 10000)) = Inr ds"
    using framed_in_limits[OF sample_problem_ok sample_limits(1-3) _ sample_limits(4) sample_placement]
    by auto
  then show ?thesis using oracle_agrees[OF sample_problem_ok sample_limits(1) sample_limits(1) ds] by blast
qed

lemma solver_returns_witness:
  "\<exists>best. best_placement sample_problem best
     \<and> fst (framed_solve sample_problem (new_budget 10000)) = Inr (decide (names sample_problem) best)"
  by (rule solver_returns[OF sample_problem_ok sample_limits(1-3) _ sample_limits(4) sample_placement]) simp

text \<open>The same problem with each node tied to a target of its own has no placement.\<close>

definition stuck_problem :: problem where
  "stuck_problem = sample_problem\<lparr>pr_candidates := [sample_cell ''a1'' ''a'' ''x'' 0, sample_cell ''b2'' ''b'' ''y'' 1]\<rparr>"

lemma stuck_fails: "fst (framed_solve stuck_problem (new_budget 10000)) = Inl no_assignment"
  by code_simp

lemma solver_never_falls_back_witness:
  "\<not> falls_back ''explicit'' no_assignment
   \<and> fst (framed_solve stuck_problem (new_budget 10000)) = Inl no_assignment"
proof -
  have "problem_ok stuck_problem" by code_simp
  from solver_never_falls_back[OF this sample_limits(1) stuck_fails] stuck_fails show ?thesis by simp
qed

end
