(* ===== verification/Adaptive_Regions.thy ===== *)
theory Adaptive_Regions
  imports Adaptive_Model
begin

text \<open>
  The regions of an adaptive plan (\<open>_regions\<close> and \<open>_is_hard_boundary\<close> in \<open>planning/adaptive.py\<close>): a
  union-find over the nodes, with path halving, that joins the ends of every edge which stays on one
  target and crosses no declared boundary, the groups it yields, and the dependencies between them.
\<close>

subsection \<open>Boundaries\<close>

definition boundary_keys :: "string list" where
  "boundary_keys = [''etlantic.selection_boundary'', ''etlantic.security_boundary'',
     ''etlantic.effect_boundary'', ''etlantic.retry_boundary'', ''etlantic.checkpoint_boundary'',
     ''etlantic.validation_required'', ''etlantic.materialization_required'',
     ''etlantic.publication_required'', ''etlantic.handoff_required'']"

definition security_domain_of :: "planning_context \<Rightarrow> node \<Rightarrow> json" where
  "security_domain_of cx n = (case dget (nd_metadata n) ''etlantic.security_domain'' of
     None \<Rightarrow> JStr (pc_security_domain cx) | Some v \<Rightarrow> v)"

text \<open>
  Python's \<open>==\<close> on JSON values: a boolean equals the integer it stands for, and the order of the keys of a
  dictionary does not matter.
\<close>

fun unboxed :: "json \<Rightarrow> json" where
  "unboxed (JBool b) = JInt (if b then 1 else 0)"
| "unboxed (JList vs) = JList (map unboxed vs)"
| "unboxed (JMap m) = JMap (map (\<lambda>(k, v). (k, unboxed v)) m)"
| "unboxed v = v"

definition json_equal :: "json \<Rightarrow> json \<Rightarrow> bool" where
  "json_equal a b \<longleftrightarrow> unboxed (materialize_wire a) = unboxed (materialize_wire b)"

definition is_hard_boundary :: "planning_context \<Rightarrow> node \<Rightarrow> node \<Rightarrow> bool" where
  "is_hard_boundary cx producer consumer =
     (\<not> json_equal (security_domain_of cx producer) (security_domain_of cx consumer)
      \<or> list_ex (\<lambda>n. list_ex (\<lambda>k. truthy (get_or_null (nd_metadata n) k)) boundary_keys)
          [producer, consumer])"

subsection \<open>Union-find\<close>

type_synonym parents = "(string, string) pydict"

text \<open>
  \<open>find\<close> loops until it reaches a root and points every other node on its way to its grandparent; it
  is \<open>None\<close> where the loop would not end.
\<close>

partial_function (option) find_root :: "string \<Rightarrow> parents \<Rightarrow> (parents, string) planned option" where
  "find_root name d = (case dget d name of
     None \<Rightarrow> Some (Inl Missing_key, d)
   | Some up \<Rightarrow> if up = name then Some (Inr name, d)
       else (case dget d up of
          None \<Rightarrow> Some (Inl Missing_key, d)
        | Some upper \<Rightarrow> find_root upper (dput name upper d)))"

declare find_root.simps [code]

definition union_roots :: "string \<Rightarrow> string \<Rightarrow> parents \<Rightarrow> (parents, unit) planned option" where
  "union_roots l r d = (case find_root l d of
     None \<Rightarrow> None
   | Some (Inl e, d') \<Rightarrow> Some (Inl e, d')
   | Some (Inr a, d') \<Rightarrow> (case find_root r d' of
        None \<Rightarrow> None
      | Some (Inl e, d'') \<Rightarrow> Some (Inl e, d'')
      | Some (Inr b, d'') \<Rightarrow> Some (Inr (), if a = b then d'' else dput b a d'')))"

text \<open>Whether the ends of an edge are joined.\<close>

definition joins :: "planning_context \<Rightarrow> (string, node) pydict \<Rightarrow> (string, string) pydict \<Rightarrow> edge
    \<Rightarrow> plan_error + bool" where
  "joins cx nodes target_of e =
     and_then (subscript nodes (ed_producer e)) (\<lambda>producer.
     and_then (subscript nodes (ed_consumer e)) (\<lambda>consumer.
     and_then (subscript target_of (ed_producer e)) (\<lambda>t.
     and_then (subscript target_of (ed_consumer e)) (\<lambda>u.
       Inr (t = u \<and> \<not> is_hard_boundary cx producer consumer)))))"

fun join_edges :: "planning_context \<Rightarrow> (string, node) pydict \<Rightarrow> (string, string) pydict \<Rightarrow> edge list
    \<Rightarrow> parents \<Rightarrow> (parents, unit) planned option" where
  "join_edges cx nodes target_of [] d = Some (Inr (), d)"
| "join_edges cx nodes target_of (e # es) d = (case joins cx nodes target_of e of
     Inl err \<Rightarrow> Some (Inl err, d)
   | Inr False \<Rightarrow> join_edges cx nodes target_of es d
   | Inr True \<Rightarrow> (case union_roots (ed_producer e) (ed_consumer e) d of
        None \<Rightarrow> None
      | Some (Inl err, d') \<Rightarrow> Some (Inl err, d')
      | Some (Inr _, d') \<Rightarrow> join_edges cx nodes target_of es d'))"

text \<open>\<open>groups.setdefault(find(name), []).append(name)\<close> for every name.\<close>

fun group_names :: "string list \<Rightarrow> parents \<Rightarrow> (string, string list) pydict
    \<Rightarrow> (plan_error + (string, string list) pydict) option" where
  "group_names [] d groups = Some (Inr groups)"
| "group_names (name # names) d groups = (case find_root name d of
     None \<Rightarrow> None
   | Some (Inl e, d') \<Rightarrow> Some (Inl e)
   | Some (Inr root, d') \<Rightarrow> group_names names d'
       (dput root ((case dget groups root of None \<Rightarrow> [] | Some members \<Rightarrow> members) @ [name]) groups))"

definition position_in :: "string list \<Rightarrow> string \<Rightarrow> nat" where
  "position_in names n = length (takeWhile (\<lambda>m. m \<noteq> n) names)"

definition ordered_groups :: "string list \<Rightarrow> (string, string list) pydict \<Rightarrow> string list list" where
  "ordered_groups names groups =
     map (sort_key (position_in names))
       (sort_key (\<lambda>members. Min (set (map (position_in names) members))) (map snd groups))"

definition target_by_node :: "decision list \<Rightarrow> (string, string) pydict" where
  "target_by_node ds = dict_of (map (\<lambda>d. (de_node d, de_target d)) ds)"

definition region_groups :: "planning_context \<Rightarrow> graph \<Rightarrow> decision list
    \<Rightarrow> (plan_error + string list list) option" where
  "region_groups cx g ds = (let names = node_names g in
     case join_edges cx (node_map g) (target_by_node ds) (gr_edges g) (dict_of (map (\<lambda>n. (n, n)) names)) of
       None \<Rightarrow> None
     | Some (Inl e, d) \<Rightarrow> Some (Inl e)
     | Some (Inr _, d) \<Rightarrow> (case group_names names d [] of
          None \<Rightarrow> None
        | Some (Inl e) \<Rightarrow> Some (Inl e)
        | Some (Inr groups) \<Rightarrow> Some (Inr (ordered_groups names groups))))"

subsection \<open>Regions\<close>

record region =
  rg_identity :: string
  rg_target :: string
  rg_nodes :: "string list"
  rg_fused :: bool
  rg_security_domain :: string
  rg_dependencies :: "string list"

text \<open>A proof that a chain of nodes may be fused: its nodes and its fingerprint.\<close>

record fusion_proof =
  fu_nodes :: "string list"
  fu_fingerprint :: string

definition boundary_facts :: "(string \<Rightarrow> string) \<Rightarrow> slot \<Rightarrow> string list \<Rightarrow> bool \<Rightarrow> fusion_proof option
    \<Rightarrow> json" where
  "boundary_facts sha256 target members executable fusion =
     (let fused = (case fusion of None \<Rightarrow> False | Some f \<Rightarrow> members = fu_nodes f) in JMap
     [(''target'', JStr (target_identity sha256 target)),
      (''nodes'', JList (map JStr members)),
      (''security'', JStr (pt_security_domain (sl_target target))),
      (''execution'', JStr (if executable then ''local-static-batch/1'' else ''planning-only'')),
      (''policy'', JStr ''conservative''),
      (''fused'', JBool fused),
      (''fusion_evidence'', JStr (case fusion of Some f \<Rightarrow> if fused then fu_fingerprint f else ''none''
                                  | None \<Rightarrow> ''none'')),
      (''planner'', JStr (if executable then ''0.53'' else ''0.52''))])"

definition make_region :: "(string \<Rightarrow> string) \<Rightarrow> (string, slot) pydict \<Rightarrow> (string, string) pydict \<Rightarrow> bool
    \<Rightarrow> fusion_proof option \<Rightarrow> string list \<Rightarrow> plan_error + region" where
  "make_region sha256 targets target_of executable fusion members =
     and_then (if members = [] then Inl Exhausted else subscript target_of (hd members)) (\<lambda>target_id.
     and_then (subscript targets target_id) (\<lambda>target.
       Inr \<lparr>rg_identity = ''region:'' @ take 24 (digest sha256
              (boundary_facts sha256 target members executable fusion)),
            rg_target = target_id, rg_nodes = members,
            rg_fused = (case fusion of None \<Rightarrow> False | Some f \<Rightarrow> members = fu_nodes f),
            rg_security_domain = pt_security_domain (sl_target target), rg_dependencies = []\<rparr>))"

definition region_of_node :: "region list \<Rightarrow> (string, string) pydict" where
  "region_of_node rs = dict_of (concat (map (\<lambda>r. map (\<lambda>n. (n, rg_identity r)) (rg_nodes r)) rs))"

definition dependencies_of :: "(string, string) pydict \<Rightarrow> edge list \<Rightarrow> string
    \<Rightarrow> plan_error + string list" where
  "dependencies_of region_of es identity = and_then (each (\<lambda>e.
     and_then (subscript region_of (ed_producer e)) (\<lambda>l.
     and_then (subscript region_of (ed_consumer e)) (\<lambda>r.
       Inr (if l \<noteq> r \<and> r = identity then [l] else [])))) es) (\<lambda>ls.
     Inr (sort (remdups (concat ls))))"

definition regions :: "(string \<Rightarrow> string) \<Rightarrow> planning_context \<Rightarrow> graph \<Rightarrow> decision list \<Rightarrow> slot list \<Rightarrow> bool
    \<Rightarrow> fusion_proof option \<Rightarrow> (plan_error + region list) option" where
  "regions sha256 cx g ds targets executable fusion = (case region_groups cx g ds of
     None \<Rightarrow> None
   | Some (Inl e) \<Rightarrow> Some (Inl e)
   | Some (Inr groups) \<Rightarrow> Some (
       and_then (each (make_region sha256 (target_map targets) (target_by_node ds) executable fusion) groups)
       (\<lambda>rs. each (\<lambda>r. and_then (dependencies_of (region_of_node rs) (gr_edges g) (rg_identity r))
          (\<lambda>deps. Inr (r\<lparr>rg_dependencies := deps\<rparr>))) rs)))"

subsection \<open>What a parent table represents\<close>

text \<open>
  A table represents a map \<open>rho\<close> from the names to their roots when every name has a parent with the
  same root, the roots are their own parents, and a rank falls strictly on the way to the root.
\<close>

definition represents :: "parents \<Rightarrow> string set \<Rightarrow> (string \<Rightarrow> string) \<Rightarrow> (string \<Rightarrow> nat) \<Rightarrow> bool" where
  "represents d N rho rank \<longleftrightarrow> (\<forall>n. dget d n \<noteq> None \<longleftrightarrow> n \<in> N)
     \<and> (\<forall>n u. dget d n = Some u \<longrightarrow> u \<in> N \<and> rho u = rho n \<and> (u = n \<longrightarrow> rho n = n) \<and> (u \<noteq> n \<longrightarrow> rank u < rank n))
     \<and> (\<forall>n \<in> N. rho n \<in> N \<and> dget d (rho n) = Some (rho n))"

lemma representsI:
  assumes "\<And>n. dget d n \<noteq> None \<longleftrightarrow> n \<in> N"
    and "\<And>n u. dget d n = Some u \<Longrightarrow>
      u \<in> N \<and> rho u = rho n \<and> (u = n \<longrightarrow> rho n = n) \<and> (u \<noteq> n \<longrightarrow> rank u < rank n)"
    and "\<And>n. n \<in> N \<Longrightarrow> rho n \<in> N \<and> dget d (rho n) = Some (rho n)"
  shows "represents d N rho rank"
  using assms unfolding represents_def by blast

lemma representsD:
  assumes "represents d N rho rank"
  shows "dget d n = Some u \<Longrightarrow> n \<in> N" "dget d n = Some u \<Longrightarrow> u \<in> N" "dget d n = Some u \<Longrightarrow> rho u = rho n"
    "dget d n = Some u \<Longrightarrow> u = n \<Longrightarrow> rho n = n" "dget d n = Some u \<Longrightarrow> u \<noteq> n \<Longrightarrow> rank u < rank n"
    "n \<in> N \<Longrightarrow> rho n \<in> N" "n \<in> N \<Longrightarrow> dget d (rho n) = Some (rho n)" "n \<in> N \<Longrightarrow> dget d n \<noteq> None"
  using assms unfolding represents_def by blast+

lemma represents_halve:
  assumes rep: "represents d N rho rank" and up: "dget d n = Some u" "u \<noteq> n" "dget d u = Some w"
  shows "represents (dput n w d) N rho rank" "rank w < rank n" "w \<noteq> n" "w \<in> N" "rho w = rho n"
proof -
  note D = representsD[OF rep]
  have "rank u < rank n" using D(5)[OF up(1,2)] .
  moreover have "rank w \<le> rank u" using D(5)[OF up(3)] by (cases "w = u") auto
  ultimately show less: "rank w < rank n" by simp
  then show ne: "w \<noteq> n" by auto
  show w: "w \<in> N" "rho w = rho n" using D(2,3)[OF up(3)] D(3)[OF up(1)] by simp_all
  have root: "n \<noteq> rho m" if "m \<in> N" for m
    using D(7)[OF that] up(1,2) by auto
  show "represents (dput n w d) N rho rank"
  proof (rule representsI)
    show "dget (dput n w d) m \<noteq> None \<longleftrightarrow> m \<in> N" for m
      using rep D(1)[OF up(1)] by (simp add: represents_def)
    show "v \<in> N \<and> rho v = rho m \<and> (v = m \<longrightarrow> rho m = m) \<and> (v \<noteq> m \<longrightarrow> rank v < rank m)"
      if "dget (dput n w d) m = Some v" for m v
    proof (cases "m = n")
      case True
      then show ?thesis using that w less ne by simp
    next
      case False
      then have "dget d m = Some v" using that by simp
      then show ?thesis using D(2-5) by blast
    qed
    show "rho m \<in> N \<and> dget (dput n w d) (rho m) = Some (rho m)" if "m \<in> N" for m
      using root[OF that] D(6,7)[OF that] by simp
  qed
qed

text \<open>The loop of \<open>find\<close> ends at the root and keeps what the table represents.\<close>

lemma find_root_correct:
  "represents d N rho rank \<Longrightarrow> n \<in> N \<Longrightarrow>
   \<exists>d'. find_root n d = Some (Inr (rho n), d') \<and> represents d' N rho rank"
proof (induction "rank n" arbitrary: n d rule: less_induct)
  case less
  obtain u where u: "dget d n = Some u" using less.prems by (meson representsD(8) not_None_eq)
  show ?case
  proof (cases "u = n")
    case True
    then show ?thesis using u less.prems representsD(4)[OF less.prems(1) u True]
      by (subst find_root.simps) simp
  next
    case False
    obtain w where w: "dget d u = Some w"
      using representsD(2)[OF less.prems(1) u] representsD(8)[OF less.prems(1)] by blast
    note halve = represents_halve[OF less.prems(1) u False w]
    then obtain d' where "find_root w (dput n w d) = Some (Inr (rho w), d')" "represents d' N rho rank"
      using less.hyps by blast
    then show ?thesis using u w False halve(5) by (subst find_root.simps) simp
  qed
qed

lemma represents_union:
  assumes rep: "represents d N rho rank" and ab: "a = rho l" "b = rho r" "l \<in> N" "r \<in> N" "a \<noteq> b"
  shows "represents (dput b a d) N (\<lambda>n. if rho n = b then a else rho n)
    (\<lambda>n. if rho n = b then rank n + rank a + 1 else rank n)"
proof -
  note D = representsD[OF rep]
  have N: "a \<in> N" "b \<in> N" and root: "dget d a = Some a" "dget d b = Some b"
    using D(6,7)[OF ab(3)] D(6,7)[OF ab(4)] ab(1,2) by simp_all
  then have rho: "rho a = a" "rho b = b" using D(4) by blast+
  let ?rho = "\<lambda>n. if rho n = b then a else rho n"
  show ?thesis
  proof (rule representsI)
    show "dget (dput b a d) m \<noteq> None \<longleftrightarrow> m \<in> N" for m
      using rep N by (simp add: represents_def)
    show "v \<in> N \<and> ?rho v = ?rho m \<and> (v = m \<longrightarrow> ?rho m = m) \<and> (v \<noteq> m \<longrightarrow>
        (if rho v = b then rank v + rank a + 1 else rank v) < (if rho m = b then rank m + rank a + 1 else rank m))"
      if "dget (dput b a d) m = Some v" for m v
    proof (cases "m = b")
      case True
      then show ?thesis using that N rho ab(5) by simp
    next
      case False
      then have v: "dget d m = Some v" using that by simp
      have "rho m = b \<Longrightarrow> v \<noteq> m" using D(4)[OF v] False by auto
      then show ?thesis using D(2-5)[OF v] by auto
    qed
    show "?rho m \<in> N \<and> dget (dput b a d) (?rho m) = Some (?rho m)" if "m \<in> N" for m
      using N root ab(5) D(6,7)[OF that] by simp
  qed
qed

subsection \<open>Joining the edges\<close>

definition graph_ok :: "graph \<Rightarrow> decision list \<Rightarrow> bool" where
  "graph_ok g ds \<longleftrightarrow> distinct (node_names g)
     \<and> list_all (\<lambda>e. ed_producer e \<in> set (node_names g) \<and> ed_consumer e \<in> set (node_names g)) (gr_edges g)
     \<and> list_all (\<lambda>n. dget (target_by_node ds) n \<noteq> None) (node_names g)"

definition link :: "planning_context \<Rightarrow> graph \<Rightarrow> decision list \<Rightarrow> edge list \<Rightarrow> (string \<times> string) set" where
  "link cx g ds es = {(ed_producer e, ed_consumer e) | e.
     e \<in> set es \<and> joins cx (node_map g) (target_by_node ds) e = Inr True}"

definition connected :: "planning_context \<Rightarrow> graph \<Rightarrow> decision list \<Rightarrow> (string \<times> string) set" where
  "connected cx g ds = (link cx g ds (gr_edges g) \<union> (link cx g ds (gr_edges g))\<inverse>)\<^sup>*"

lemma closure_union:
  assumes E: "\<And>n m. rho n = rho m \<longleftrightarrow> (n, m) \<in> E\<^sup>*"
  shows "(if rho n = rho r then rho l else rho n) = (if rho m = rho r then rho l else rho m)
    \<longleftrightarrow> (n, m) \<in> (E \<union> {(l, r), (r, l)})\<^sup>*" (is "?rho n = ?rho m \<longleftrightarrow> _ \<in> ?E\<^sup>*")
proof
  have sub: "E\<^sup>* \<subseteq> ?E\<^sup>*" by (rule rtrancl_mono) auto
  have lr: "(l, r) \<in> ?E\<^sup>*" "(r, l) \<in> ?E\<^sup>*" by auto
  have same: "(x, y) \<in> ?E\<^sup>*" if "rho x = rho y" for x y
    using that E sub by auto
  assume eq: "?rho n = ?rho m"
  show "(n, m) \<in> ?E\<^sup>*"
  proof (cases "rho n = rho m")
    case False
    then consider "rho n = rho r" "rho m = rho l" | "rho m = rho r" "rho n = rho l"
      using eq by (auto split: if_splits)
    then show ?thesis
    proof cases
      case 1
      then have "(n, r) \<in> ?E\<^sup>*" "(l, m) \<in> ?E\<^sup>*" using same by simp_all
      then show ?thesis using lr(2) by (meson rtrancl_trans)
    next
      case 2
      then have "(n, l) \<in> ?E\<^sup>*" "(r, m) \<in> ?E\<^sup>*" using same by simp_all
      then show ?thesis using lr(1) by (meson rtrancl_trans)
    qed
  qed (rule same)
next
  assume "(n, m) \<in> ?E\<^sup>*"
  then show "?rho n = ?rho m"
  proof (induction rule: rtrancl_induct)
    case (step y z)
    have "?rho y = ?rho z"
    proof (cases "(y, z) \<in> E")
      case True
      then show ?thesis using E[of y z] by auto
    next
      case False
      then show ?thesis using step(2) by auto
    qed
    then show ?case using step by simp
  qed simp
qed

lemma union_roots_correct:
  assumes rep: "represents d N rho rank" and lr: "l \<in> N" "r \<in> N"
  shows "\<exists>d' rank'. union_roots l r d = Some (Inr (), d')
    \<and> represents d' N (\<lambda>n. if rho n = rho r then rho l else rho n) rank'"
proof -
  obtain d1 where d1: "find_root l d = Some (Inr (rho l), d1)" "represents d1 N rho rank"
    using find_root_correct[OF rep lr(1)] by blast
  obtain d2 where d2: "find_root r d1 = Some (Inr (rho r), d2)" "represents d2 N rho rank"
    using find_root_correct[OF d1(2) lr(2)] by blast
  show ?thesis
  proof (cases "rho l = rho r")
    case True
    then have "(\<lambda>n. if rho n = rho r then rho l else rho n) = rho" by auto
    then show ?thesis using d1(1) d2 True by (auto simp: union_roots_def)
  next
    case False
    then show ?thesis using d1(1) d2(1) represents_union[OF d2(2) refl refl lr False]
      by (auto simp: union_roots_def)
  qed
qed

lemma join_edges_correct:
  assumes "represents d N rho rank" "\<And>n m. rho n = rho m \<longleftrightarrow> (n, m) \<in> E\<^sup>*"
    and "\<And>e. e \<in> set es \<Longrightarrow> ed_producer e \<in> N \<and> ed_consumer e \<in> N \<and>
      (\<exists>b. joins cx (node_map g) (target_by_node ds) e = Inr b)"
  shows "\<exists>d' rho' rank'. join_edges cx (node_map g) (target_by_node ds) es d = Some (Inr (), d')
    \<and> represents d' N rho' rank'
    \<and> (\<forall>n m. rho' n = rho' m \<longleftrightarrow> (n, m) \<in> (E \<union> (link cx g ds es \<union> (link cx g ds es)\<inverse>))\<^sup>*)"
  using assms
proof (induction es arbitrary: d rho rank E)
  case Nil
  then show ?case by (auto simp: link_def)
next
  case (Cons e es)
  then obtain b where b: "joins cx (node_map g) (target_by_node ds) e = Inr b" by force
  have rest: "\<And>e. e \<in> set es \<Longrightarrow> ed_producer e \<in> N \<and> ed_consumer e \<in> N \<and>
      (\<exists>b. joins cx (node_map g) (target_by_node ds) e = Inr b)"
    using Cons.prems(3) by simp
  show ?case
  proof (cases b)
    case False
    then have "link cx g ds (e # es) = link cx g ds es" using b by (auto simp: link_def)
    then show ?thesis using Cons.IH[OF Cons.prems(1,2) rest] b False by simp
  next
    case True
    let ?l = "ed_producer e" and ?r = "ed_consumer e"
    have ends: "?l \<in> N" "?r \<in> N" using Cons.prems(3) by auto
    let ?rho = "\<lambda>n. if rho n = rho ?r then rho ?l else rho n"
    obtain d1 rank1 where d1: "union_roots ?l ?r d = Some (Inr (), d1)" "represents d1 N ?rho rank1"
      using union_roots_correct[OF Cons.prems(1) ends] by blast
    obtain d' rho' rank' where out: "join_edges cx (node_map g) (target_by_node ds) es d1 = Some (Inr (), d')"
      "represents d' N rho' rank'"
      "\<forall>n m. rho' n = rho' m \<longleftrightarrow> (n, m) \<in> ((E \<union> {(?l, ?r), (?r, ?l)}) \<union> (link cx g ds es \<union> (link cx g ds es)\<inverse>))\<^sup>*"
      using Cons.IH[OF d1(2) closure_union[OF Cons.prems(2)] rest] by blast
    have "link cx g ds (e # es) = insert (?l, ?r) (link cx g ds es)"
      using b True by (auto simp: link_def)
    then have "(E \<union> {(?l, ?r), (?r, ?l)}) \<union> (link cx g ds es \<union> (link cx g ds es)\<inverse>)
        = E \<union> (link cx g ds (e # es) \<union> (link cx g ds (e # es))\<inverse>)"
      by auto
    then show ?thesis using out b True d1(1) by auto
  qed
qed

subsection \<open>Grouping the names\<close>

definition groups_of :: "(string \<Rightarrow> string) \<Rightarrow> string list \<Rightarrow> (string, string list) pydict \<Rightarrow> bool" where
  "groups_of rho ns groups \<longleftrightarrow> distinct (map fst groups)
     \<and> (\<forall>root. dget groups root = (if root \<in> rho ` set ns then Some (filter (\<lambda>n. rho n = root) ns) else None))"

lemma groups_of_snoc:
  assumes "groups_of rho ns groups"
  shows "groups_of rho (ns @ [n])
    (dput (rho n) ((case dget groups (rho n) of None \<Rightarrow> [] | Some members \<Rightarrow> members) @ [n]) groups)"
proof -
  have "filter (\<lambda>m. rho m = rho n) ns = []" if "rho n \<notin> rho ` set ns"
    using that by (metis (mono_tags, lifting) filter_empty_conv image_eqI)
  then show ?thesis using assms by (auto simp: groups_of_def distinct_dput)
qed

lemma group_names_correct:
  "represents d N rho rank \<Longrightarrow> set ns \<subseteq> N \<Longrightarrow> groups_of rho seen groups \<Longrightarrow>
   \<exists>groups'. group_names ns d groups = Some (Inr groups') \<and> groups_of rho (seen @ ns) groups'"
proof (induction ns arbitrary: d seen groups)
  case (Cons n ns)
  then obtain d' where d': "find_root n d = Some (Inr (rho n), d')" "represents d' N rho rank"
    using find_root_correct[OF Cons.prems(1), of n] Cons.prems(2) by auto
  have "set ns \<subseteq> N" using Cons.prems(2) by simp
  from Cons.IH[OF d'(2) this groups_of_snoc[OF Cons.prems(3), of n]] show ?case
    using d'(1) by simp
qed simp

lemma position_in_names: "distinct ns \<Longrightarrow> map (position_in ns) ns = [0..<length ns]"
proof (rule nth_equalityI)
  fix i assume d: "distinct ns" and i: "i < length (map (position_in ns) ns)"
  have "takeWhile (\<lambda>m. m \<noteq> ns ! i) ns = take i ns"
    using d i by (intro takeWhile_eq_take_P_nth) (auto simp: nth_eq_iff_index_eq)
  then show "map (position_in ns) ns ! i = [0..<length ns] ! i"
    using i by (simp add: position_in_def)
qed simp

lemma sort_members:
  assumes "distinct ns"
  shows "sort_key (position_in ns) (filter P ns) = filter P ns"
proof (rule sort_key_id_if_sorted)
  have "sorted (map (position_in ns) ns)" using assms by (simp add: position_in_names)
  then have "sorted_wrt (\<lambda>a b. position_in ns a \<le> position_in ns b) ns" by (simp add: sorted_map)
  then have "sorted_wrt (\<lambda>a b. position_in ns a \<le> position_in ns b) (filter P ns)"
    by (rule sorted_wrt_filter)
  then show "sorted (map (position_in ns) (filter P ns))" by (simp add: sorted_map)
qed

lemma ordered_groups_of:
  assumes ok: "distinct ns" and groups: "groups_of rho ns groups"
  shows "distinct (ordered_groups ns groups)"
    "set (ordered_groups ns groups) = (\<lambda>r. filter (\<lambda>n. rho n = r) ns) ` (rho ` set ns)"
proof -
  have dist: "distinct (map fst groups)" and rows: "\<And>root. dget groups root
      = (if root \<in> rho ` set ns then Some (filter (\<lambda>n. rho n = root) ns) else None)"
    using groups by (auto simp: groups_of_def)
  have members: "snd row = filter (\<lambda>n. rho n = fst row) ns" "fst row \<in> rho ` set ns" if "row \<in> set groups" for row
  proof -
    have "dget groups (fst row) = Some (snd row)" using that dist by (simp add: dget_eq_iff_mem)
    then show "snd row = filter (\<lambda>n. rho n = fst row) ns" "fst row \<in> rho ` set ns"
      using rows[of "fst row"] by (auto split: if_splits)
  qed
  have keys: "fst ` set groups = rho ` set ns"
  proof
    show "fst ` set groups \<subseteq> rho ` set ns" using members(2) by auto
    show "rho ` set ns \<subseteq> fst ` set groups"
    proof
      fix root assume "root \<in> rho ` set ns"
      then have "dget groups root \<noteq> None" using rows by simp
      then show "root \<in> fst ` set groups" by (simp add: dget_None_iff)
    qed
  qed
  have snds: "map snd groups = map (\<lambda>r. filter (\<lambda>n. rho n = r) ns) (map fst groups)"
    using members(1) by simp
  have sorted: "map (sort_key (position_in ns)) xs = xs" if "set xs \<subseteq> set (map snd groups)" for xs
    using that unfolding snds by (intro map_idI) (auto simp: sort_members[OF ok])
  have eq: "ordered_groups ns groups = sort_key (\<lambda>members. Min (set (map (position_in ns) members))) (map snd groups)"
    unfolding ordered_groups_def by (rule sorted) simp
  have "inj_on (\<lambda>r. filter (\<lambda>n. rho n = r) ns) (rho ` set ns)"
  proof (rule inj_onI)
    fix r q assume r: "r \<in> rho ` set ns" and same: "filter (\<lambda>n. rho n = r) ns = filter (\<lambda>n. rho n = q) ns"
    then obtain n where "n \<in> set ns" "rho n = r" by auto
    then have "n \<in> set (filter (\<lambda>n. rho n = q) ns)" using same by (metis (mono_tags, lifting) mem_Collect_eq set_filter)
    then show "r = q" using \<open>rho n = r\<close> by simp
  qed
  then have "distinct (map snd groups)" unfolding snds
    using dist keys by (subst distinct_map) simp
  then show "distinct (ordered_groups ns groups)" by (simp add: eq)
  show "set (ordered_groups ns groups) = (\<lambda>r. filter (\<lambda>n. rho n = r) ns) ` (rho ` set ns)"
    unfolding eq set_sort snds set_map keys ..
qed

lemma connected_target:
  assumes "(n, m) \<in> connected cx g ds"
  shows "dget (target_by_node ds) n = dget (target_by_node ds) m"
  using assms unfolding connected_def
proof (induction rule: rtrancl_induct)
  case (step y z)
  have "dget (target_by_node ds) y = dget (target_by_node ds) z"
    using step(2) by (auto simp: link_def joins_def subscript_def and_then_Inr split: option.splits)
  then show ?case using step by simp
qed simp

text \<open>
  C20: on a well-formed graph the union-find ends, and the regions are exactly the connected
  components of the edges that stay on one target and cross no hard boundary: the groups are
  distinct, cover all nodes, list the nodes connected to each of their members in graph order, and
  all nodes of a group are placed on one target.
\<close>

theorem regions_exact:
  assumes "graph_ok g ds"
  shows "\<exists>gs. region_groups cx g ds = Some (Inr gs) \<and> distinct gs \<and> [] \<notin> set gs
    \<and> set (concat gs) = set (node_names g)
    \<and> (\<forall>ms \<in> set gs. \<forall>n \<in> set ms. ms = filter (\<lambda>m. (n, m) \<in> connected cx g ds) (node_names g))
    \<and> (\<forall>ms \<in> set gs. \<forall>n \<in> set ms. \<forall>m \<in> set ms.
        dget (target_by_node ds) n = dget (target_by_node ds) m)"
proof -
  let ?ns = "node_names g"
  have dist: "distinct ?ns" using assms by (simp add: graph_ok_def)
  have start: "dget (dict_of (map (\<lambda>n. (n, n)) ?ns)) n = (if n \<in> set ?ns then Some n else None)" for n
    using dist by (subst dget_dict_of) (auto simp: comp_def map_of_eq_None_iff map_of_eq_Some_iff)
  then have rep: "represents (dict_of (map (\<lambda>n. (n, n)) ?ns)) (set ?ns) (\<lambda>n. n) (\<lambda>_. 0)"
    by (intro representsI) (auto split: if_splits)
  have total: "ed_producer e \<in> set ?ns \<and> ed_consumer e \<in> set ?ns \<and>
      (\<exists>b. joins cx (node_map g) (target_by_node ds) e = Inr b)" if "e \<in> set (gr_edges g)" for e
  proof -
    have ends: "ed_producer e \<in> set ?ns" "ed_consumer e \<in> set ?ns"
      using assms that by (auto simp: graph_ok_def list_all_iff)
    have "dget (node_map g) n \<noteq> None" if "n \<in> set ?ns" for n
      unfolding node_map_def using that dist
      by (subst dget_dict_of) (auto simp: node_names_def comp_def map_of_eq_None_iff image_image)
    moreover have "dget (target_by_node ds) n \<noteq> None" if "n \<in> set ?ns" for n
      using assms that by (auto simp: graph_ok_def list_all_iff)
    ultimately obtain p c t u where "dget (node_map g) (ed_producer e) = Some p"
      "dget (node_map g) (ed_consumer e) = Some c" "dget (target_by_node ds) (ed_producer e) = Some t"
      "dget (target_by_node ds) (ed_consumer e) = Some u"
      using ends by (metis option.exhaust)
    then show ?thesis using ends by (simp add: joins_def)
  qed
  obtain d rho rank where d: "join_edges cx (node_map g) (target_by_node ds) (gr_edges g)
        (dict_of (map (\<lambda>n. (n, n)) ?ns)) = Some (Inr (), d)" "represents d (set ?ns) rho rank"
    and rho: "\<And>n m. rho n = rho m \<longleftrightarrow> (n, m) \<in> connected cx g ds"
    using join_edges_correct[of _ _ _ _ "{}" "gr_edges g" cx g ds, OF rep _ total]
    unfolding connected_def by auto
  have "groups_of rho [] []" by (simp add: groups_of_def)
  then obtain groups where groups: "group_names ?ns d [] = Some (Inr groups)" "groups_of rho ?ns groups"
    using group_names_correct[OF d(2)] by fastforce
  let ?gs = "ordered_groups ?ns groups"
  have run: "region_groups cx g ds = Some (Inr ?gs)"
    using d(1) groups(1) by (simp add: region_groups_def)
  note gs = ordered_groups_of[OF dist groups(2)]
  have cover: "[] \<notin> set ?gs" "set (concat ?gs) = set ?ns"
    unfolding gs(2) set_concat by (force simp: filter_empty_conv dest: sym[of "[]"])+
  have exact: "ms = filter (\<lambda>m. (n, m) \<in> connected cx g ds) ?ns" if "ms \<in> set ?gs" "n \<in> set ms" for ms n
    using that unfolding gs(2) by (auto simp: rho[symmetric] intro!: filter_cong)
  have "dget (target_by_node ds) n = dget (target_by_node ds) m"
    if "ms \<in> set ?gs" "n \<in> set ms" "m \<in> set ms" for ms n m
  proof (rule connected_target)
    show "(n, m) \<in> connected cx g ds" using exact[OF that(1,2)] that(3) by auto
  qed
  then show ?thesis using run gs(1) cover exact by blast
qed

text \<open>A boundary between the second and the third of three nodes on one target.\<close>

definition sample_graph :: graph where
  "sample_graph = \<lparr>gr_nodes = [\<lparr>nd_name = ''a'', nd_metadata = []\<rparr>, \<lparr>nd_name = ''b'', nd_metadata = []\<rparr>,
       \<lparr>nd_name = ''c'', nd_metadata = [(''etlantic.retry_boundary'', JBool True)]\<rparr>],
     gr_edges = [\<lparr>ed_producer = ''a'', ed_producer_port = ''out'', ed_consumer = ''b'',
         ed_consumer_port = ''in'', ed_producer_contract = None, ed_consumer_contract = None\<rparr>,
       \<lparr>ed_producer = ''b'', ed_producer_port = ''out'', ed_consumer = ''c'',
         ed_consumer_port = ''in'', ed_producer_contract = None, ed_consumer_contract = None\<rparr>]\<rparr>"

definition sample_decisions :: "decision list" where
  "sample_decisions = map (\<lambda>n. \<lparr>de_node = n, de_candidate = n, de_target = ''x''\<rparr>) [''a'', ''b'', ''c'']"

definition sample_context :: planning_context where
  "sample_context = \<lparr>pc_engines = [], pc_metadata = [], pc_security_domain = ''default''\<rparr>"

lemma regions_exact_witness:
  "\<exists>gs. region_groups sample_context sample_graph sample_decisions = Some (Inr gs)
     \<and> gs = [[''a'', ''b''], [''c'']] \<and> set (concat gs) = set (node_names sample_graph)"
proof -
  have "graph_ok sample_graph sample_decisions" by code_simp
  from regions_exact[OF this, of sample_context] obtain gs where
    "region_groups sample_context sample_graph sample_decisions = Some (Inr gs)"
    "set (concat gs) = set (node_names sample_graph)"
    by blast
  moreover have "region_groups sample_context sample_graph sample_decisions = Some (Inr [[''a'', ''b''], [''c'']])"
    by code_simp
  ultimately show ?thesis by simp
qed

end
