(* ===== verification/Physical_Dag.thy ===== *)
theory Physical_Dag
  imports Adaptive_Model
begin

text \<open>
  The physical topology of an adaptive plan: the layered topological order the planner computes
  (\<open>_topological_units\<close> in \<open>planning/adaptive.py\<close>), the checks of \<open>PhysicalUnit\<close> and \<open>PhysicalDAG\<close> and
  the realisation of logical edges by data paths (\<open>plan/physical.py\<close>).  A \<open>ValueError\<close> is the pair
  of its code and message.
\<close>

subsection \<open>Units\<close>

datatype unit_kind =
  Compute | Transfer | Collection | Validation | Materialization | Reuse | Publication

datatype dependency_kind = Data_dep | Control_dep | Lifecycle_dep

record dependency =
  dp_unit :: string
  dp_kind :: dependency_kind

record phys_unit =
  pu_identity :: string
  pu_kind :: unit_kind
  pu_dependencies :: "dependency list"
  pu_target :: string
  pu_nodes :: "string list"
  pu_metadata :: "(string, json) pydict"

type_synonym problem_report = "string \<times> string"

fun first_problem :: "(bool \<times> problem_report) list \<Rightarrow> problem_report option" where
  "first_problem [] = None"
| "first_problem ((b, e) # gs) = (if b then Some e else first_problem gs)"

lemma first_problem_None: "first_problem gs = None \<longleftrightarrow> (\<forall>(b, e) \<in> set gs. \<not> b)"
  by (induction gs rule: first_problem.induct) auto

definition dependency_ids :: "phys_unit \<Rightarrow> string list" where
  "dependency_ids u = map dp_unit (pu_dependencies u)"

definition unit_problem :: "phys_unit \<Rightarrow> problem_report option" where
  "unit_problem u = first_problem
     [(blank (pu_identity u), (''PMADP400'', ''physical unit identity must be non-blank'')),
      (blank (pu_target u), (''PMADP201'', ''physical unit target identity is required'')),
      (list_ex blank (pu_nodes u), (''PMADP403'', ''physical unit logical_nodes must be non-blank'')),
      (\<not> distinct (pu_nodes u), (''PMADP403'', ''physical unit logical_nodes must be unique'')),
      (pu_identity u \<in> set (dependency_ids u), (''PMADP402'', ''physical unit cannot depend on itself'')),
      (\<not> distinct (dependency_ids u), (''PMADP402'', ''physical unit dependencies must be unique''))]"

subsection \<open>The topological order of the planner\<close>

type_synonym unit_map = "(string, phys_unit) pydict"

definition unit_map :: "phys_unit list \<Rightarrow> unit_map" where
  "unit_map us = dict_of (map (\<lambda>u. (pu_identity u, u)) us)"

definition deps_in :: "unit_map \<Rightarrow> string \<Rightarrow> string list" where
  "deps_in um uid = (case dget um uid of None \<Rightarrow> [] | Some u \<Rightarrow> dependency_ids u)"

definition ready_units :: "unit_map \<Rightarrow> string list \<Rightarrow> string list" where
  "ready_units um remaining =
     sort (filter (\<lambda>uid. list_all (\<lambda>d. d \<notin> set remaining) (deps_in um uid)) remaining)"

function layers :: "unit_map \<Rightarrow> string list \<Rightarrow> string list option" where
  "layers um remaining = (if remaining = [] then Some []
     else (let ready = ready_units um remaining in
       if ready = [] then None
       else map_option (\<lambda>out. ready @ out) (layers um (filter (\<lambda>uid. uid \<notin> set ready) remaining))))"
  by auto
termination
proof (relation "measure (\<lambda>(um, remaining). length remaining)")
  fix um remaining x
  assume "remaining \<noteq> []" and x: "x = ready_units um remaining" "x \<noteq> []"
  have "hd x \<in> set x" using x(2) by simp
  moreover have "set x \<subseteq> set remaining" unfolding x(1) by (auto simp: ready_units_def)
  ultimately have "length (filter (\<lambda>uid. uid \<notin> set x) remaining) < length remaining"
    by (intro length_filter_less[of "hd x"]) auto
  then show "((um, filter (\<lambda>uid. uid \<notin> set x) remaining), um, remaining)
      \<in> measure (\<lambda>(um, remaining). length remaining)"
    by simp
qed simp

declare layers.simps [simp del]

definition cycle_error :: plan_error where
  "cycle_error = Diagnosed ''PMADP402'' ''Physical DAG contains a cycle.''"

definition topological_units :: "phys_unit list \<Rightarrow> plan_error + string list" where
  "topological_units us = (let um = unit_map us in
     case layers um (map fst um) of None \<Rightarrow> Inl cycle_error | Some order \<Rightarrow> Inr order)"

subsection \<open>The checks of the DAG\<close>

record dag =
  dg_units :: "phys_unit list"
  dg_mapping :: "(string, string) pydict"
  dg_order :: "string list"

abbreviation dag_ids :: "dag \<Rightarrow> string list" where
  "dag_ids g \<equiv> map pu_identity (dg_units g)"

definition position_of :: "string list \<Rightarrow> string \<Rightarrow> nat" where
  "position_of order uid = length (takeWhile (\<lambda>v. v \<noteq> uid) order)"

definition unit_at :: "dag \<Rightarrow> string \<Rightarrow> phys_unit option" where
  "unit_at g = dget (unit_map (dg_units g))"

definition mapped_units :: "dag \<Rightarrow> (phys_unit \<Rightarrow> string \<Rightarrow> bool) \<Rightarrow> bool" where
  "mapped_units g P = list_all (\<lambda>(node, uid). case unit_at g uid of None \<Rightarrow> False | Some u \<Rightarrow> P u node)
     (dg_mapping g)"

definition structure_problem :: "dag \<Rightarrow> problem_report option" where
  "structure_problem g = first_problem
     [(\<not> distinct (dag_ids g), (''PMADP402'', ''physical unit identities must be unique'')),
      (list_ex (\<lambda>u. list_ex (\<lambda>d. d \<notin> set (dag_ids g)) (dependency_ids u)) (dg_units g),
        (''PMADP402'', ''physical DAG has dangling dependency'')),
      (list_ex blank (dg_order g), (''PMADP402'', ''physical topological order must contain unit ids'')),
      (set (dg_order g) \<noteq> set (dag_ids g) \<or> length (dg_order g) \<noteq> length (dag_ids g),
        (''PMADP402'', ''physical topological order must cover every unit'')),
      (list_ex (\<lambda>u. list_ex (\<lambda>d. position_of (dg_order g) (pu_identity u) \<le> position_of (dg_order g) d)
          (dependency_ids u)) (dg_units g),
        (''PMADP402'', ''physical DAG topological order is invalid'')),
      (list_ex (\<lambda>(node, uid). blank node) (dg_mapping g),
        (''PMADP403'', ''logical_to_physical node names must be non-blank'')),
      (list_ex (\<lambda>(node, uid). blank uid) (dg_mapping g),
        (''PMADP403'', ''logical_to_physical unit ids must be non-blank strings'')),
      (list_ex (\<lambda>(node, uid). uid \<notin> set (dag_ids g)) (dg_mapping g),
        (''PMADP403'', ''logical_to_physical references an unknown unit'')),
      (list_ex (\<lambda>u. list_ex (\<lambda>node. dget (dg_mapping g) node = None) (pu_nodes u)) (dg_units g),
        (''PMADP403'', ''physical attribution is missing a primary mapping'')),
      (\<not> mapped_units g (\<lambda>u node. node \<in> set (pu_nodes u)),
        (''PMADP403'', ''logical_to_physical must match unit logical attribution'')),
      (\<not> mapped_units g (\<lambda>u node. pu_kind u = Compute),
        (''PMADP403'', ''logical_to_physical must reference compute units''))]"

text \<open>
  The search for a physical path to a declared predecessor: a stack of units whose top is taken
  first.  An unknown unit would be a failed subscript.
\<close>

function reaches :: "unit_map \<Rightarrow> string \<Rightarrow> string list \<Rightarrow> string list \<Rightarrow> bool option" where
  "reaches um expected seen frontier = (if frontier = [] then Some False
     else (let uid = last frontier; rest = butlast frontier in
       if uid \<in> set seen then reaches um expected seen rest
       else if uid = expected then Some True
       else (case dget um uid of
          None \<Rightarrow> None
        | Some u \<Rightarrow> reaches um expected (uid # seen) (rest @ dependency_ids u))))"
  by auto
termination
proof (relation "measures [\<lambda>(um, expected, seen, frontier). card (fst ` set um - set seen),
      \<lambda>(um, expected, seen, frontier). length frontier]")
  fix um :: unit_map and expected :: string and seen frontier :: "string list" and x xa x2
  assume "frontier \<noteq> []" "x = last frontier" "xa = butlast frontier" "x \<notin> set seen" "x \<noteq> expected"
    and u: "dget um x = Some x2"
  have "x \<in> fst ` set um" using u by (rule dget_in_keys)
  then have "fst ` set um - set (x # seen) \<subset> fst ` set um - set seen" using \<open>x \<notin> set seen\<close> by auto
  then have "card (fst ` set um - set (x # seen)) < card (fst ` set um - set seen)"
    by (intro psubset_card_mono) auto
  then show "((um, expected, x # seen, xa @ dependency_ids x2), um, expected, seen, frontier)
      \<in> measures [\<lambda>(um, expected, seen, frontier). card (fst ` set um - set seen),
          \<lambda>(um, expected, seen, frontier). length frontier]"
    by simp
qed auto

declare reaches.simps [simp del]

definition declared_predecessors :: "phys_unit \<Rightarrow> json" where
  "declared_predecessors u = (case dget (pu_metadata u) ''etlantic.logical_predecessors'' of
     None \<Rightarrow> JList [] | Some v \<Rightarrow> v)"

fun predecessors_problem :: "dag \<Rightarrow> phys_unit \<Rightarrow> json list \<Rightarrow> problem_report option" where
  "predecessors_problem g consumer [] = None"
| "predecessors_problem g consumer (v # vs) =
     (case (case v of JStr name \<Rightarrow> dget (dg_mapping g) name | _ \<Rightarrow> None) of
        None \<Rightarrow> Some (''PMADP403'', ''logical predecessor is not mapped to a physical unit'')
      | Some expected \<Rightarrow>
          (case reaches (unit_map (dg_units g)) expected [] (dependency_ids consumer) of
             Some True \<Rightarrow> predecessors_problem g consumer vs
           | _ \<Rightarrow> Some (''PMADP403'', ''logical edge has no physical dependency path'')))"

fun mapping_problem :: "dag \<Rightarrow> (string \<times> string) list \<Rightarrow> problem_report option" where
  "mapping_problem g [] = None"
| "mapping_problem g ((node, uid) # rows) =
     (case unit_at g uid of
        None \<Rightarrow> Some (''PMADP403'', ''logical_to_physical references an unknown unit'')
      | Some consumer \<Rightarrow>
          (case declared_predecessors consumer of
             JList vs \<Rightarrow> (case predecessors_problem g consumer vs of
                 Some e \<Rightarrow> Some e | None \<Rightarrow> mapping_problem g rows)
           | _ \<Rightarrow> Some (''PMADP403'', ''logical predecessor metadata must be an array'')))"

definition dag_problem :: "dag \<Rightarrow> problem_report option" where
  "dag_problem g = (case structure_problem g of Some e \<Rightarrow> Some e | None \<Rightarrow> mapping_problem g (dg_mapping g))"

subsection \<open>The realisation of logical edges\<close>

text \<open>
  A logical edge is the tuple of its producer, its consumer and, in the long form, its two ports.
\<close>

type_synonym logical_edge = "string list"

definition port_mismatch :: "logical_edge \<Rightarrow> phys_unit \<Rightarrow> bool" where
  "port_mismatch e u = (length e = 4 \<and> (case get_or_null (pu_metadata u) ''etlantic.edge_ports'' of
     JNull \<Rightarrow> False | JList vs \<Rightarrow> vs \<noteq> map JStr e | _ \<Rightarrow> True))"

definition unknown_port_edge :: "dag \<Rightarrow> logical_edge list \<Rightarrow> bool" where
  "unknown_port_edge g es = (let ports = filter (\<lambda>e. length e = 4) es in ports \<noteq> [] \<and>
     list_ex (\<lambda>u. case get_or_null (pu_metadata u) ''etlantic.edge_ports'' of
        JNull \<Rightarrow> False
      | JList vs \<Rightarrow> \<not> list_ex (\<lambda>e. vs = map JStr e) ports
      | _ \<Rightarrow> True) (dg_units g))"

text \<open>
  The number of data paths from the producer's unit, saturated at two and computed along the
  topological order; other compute units and routes of other edges are not passed.
\<close>

definition passes :: "logical_edge \<Rightarrow> string \<Rightarrow> phys_unit \<Rightarrow> bool" where
  "passes e consumer_id u \<longleftrightarrow>
     \<not> port_mismatch e u \<and> \<not> (pu_kind u = Compute \<and> pu_identity u \<noteq> consumer_id)"

definition data_dependencies :: "phys_unit \<Rightarrow> string list" where
  "data_dependencies u = map dp_unit (filter (\<lambda>d. dp_kind d = Data_dep) (pu_dependencies u))"

definition count_at :: "(string, int) pydict \<Rightarrow> string \<Rightarrow> int" where
  "count_at paths uid = (case dget paths uid of None \<Rightarrow> 0 | Some n \<Rightarrow> n)"

fun path_counts :: "dag \<Rightarrow> logical_edge \<Rightarrow> string \<Rightarrow> string \<Rightarrow> string list \<Rightarrow> (string, int) pydict
    \<Rightarrow> (string, int) pydict option" where
  "path_counts g e producer_id consumer_id [] paths = Some paths"
| "path_counts g e producer_id consumer_id (uid # uids) paths =
     (if uid = producer_id then path_counts g e producer_id consumer_id uids paths
      else (case unit_at g uid of
         None \<Rightarrow> None
       | Some u \<Rightarrow> path_counts g e producer_id consumer_id uids
           (dput uid (if passes e consumer_id u
              then min 2 (sum_list (map (count_at paths) (data_dependencies u))) else 0) paths)))"

text \<open>
  The check of one edge whose ends are realised by different units; the routes inside a fused unit
  are checked by the fusion descriptor.
\<close>

definition edge_problem :: "dag \<Rightarrow> logical_edge \<Rightarrow> problem_report option" where
  "edge_problem g e =
     (case (dget (dg_mapping g) (e ! 0), dget (dg_mapping g) (e ! 1)) of
        (Some producer_id, Some consumer_id) \<Rightarrow>
          if producer_id = consumer_id then None
          else (case path_counts g e producer_id consumer_id (dg_order g) [(producer_id, 1)] of
              None \<Rightarrow> Some (''PMADP403'', ''unknown physical unit'')
            | Some paths \<Rightarrow> (let n = count_at paths consumer_id in
                if n = 0 then Some (''PMADP403'', ''logical edge has no physical dependency path'')
                else if 1 < n then Some (''PMADP403'', ''logical edge has multiple physical dependency paths'')
                else None))
      | _ \<Rightarrow> Some (''PMADP403'', ''logical edge references an unmapped logical node''))"

subsection \<open>The layers are a topological order\<close>

definition dep_rel :: "unit_map \<Rightarrow> string set \<Rightarrow> (string \<times> string) set" where
  "dep_rel um S = {(d, u). d \<in> S \<and> u \<in> S \<and> d \<in> set (deps_in um u)}"

text \<open>Every dependency within the list stands before its unit.\<close>

definition topological :: "unit_map \<Rightarrow> string list \<Rightarrow> bool" where
  "topological um order \<longleftrightarrow> (\<forall>u \<in> set order. \<forall>d \<in> set (deps_in um u) \<inter> set order.
     position_of order d < position_of order u)"

lemma position_less: "x \<in> set xs \<Longrightarrow> position_of xs x < length xs"
  unfolding position_of_def by (induction xs) auto

lemma position_append:
  "position_of (xs @ ys) x = (if x \<in> set xs then position_of xs x else length xs + position_of ys x)"
  unfolding position_of_def by (induction xs) auto

lemma topological_acyclic: "topological um order \<Longrightarrow> acyclic (dep_rel um (set order))"
proof -
  assume "topological um order"
  then have "dep_rel um (set order) \<subseteq> measure (position_of order)"
    by (auto simp: dep_rel_def topological_def)
  then show ?thesis using wf_subset wf_measure wf_acyclic by blast
qed

lemma ready_set: "set (ready_units um remaining)
   = {u \<in> set remaining. \<forall>d \<in> set (deps_in um u). d \<notin> set remaining}"
  by (auto simp: ready_units_def list_all_iff)

lemma layers_Some:
  "layers um remaining = Some order \<Longrightarrow> distinct remaining \<Longrightarrow>
   distinct order \<and> set order = set remaining \<and> topological um order"
proof (induction um remaining arbitrary: order rule: layers.induct)
  case (1 um remaining)
  show ?case
  proof (cases "remaining = []")
    case True
    then show ?thesis using 1(2) by (simp add: layers.simps topological_def)
  next
    case False
    let ?r = "ready_units um remaining"
    let ?rest = "filter (\<lambda>uid. uid \<notin> set ?r) remaining"
    obtain out where out: "?r \<noteq> []" "layers um ?rest = Some out" "order = ?r @ out"
      using 1(2) False by (subst (asm) layers.simps) (auto simp: Let_def split: if_splits)
    have ih: "distinct out" "set out = set ?rest" "topological um out"
      using 1(1)[OF False refl out(1,2)] 1(3) by auto
    have r: "set ?r \<subseteq> set remaining" "distinct ?r" using 1(3) by (auto simp: ready_units_def)
    have free: "d \<notin> set (deps_in um u)" if "u \<in> set ?r" "d \<in> set remaining" for u d
      using that unfolding ready_set by auto
    have "topological um order" unfolding topological_def
    proof (intro ballI)
      fix u d assume u: "u \<in> set order" and d: "d \<in> set (deps_in um u) \<inter> set order"
      have dr: "d \<in> set remaining" using d out(3) ih(2) r(1) by auto
      have nu: "u \<notin> set ?r" using free dr d by auto
      then have uo: "u \<in> set out" using u out(3) by auto
      show "position_of order d < position_of order u"
      proof (cases "d \<in> set ?r")
        case True
        then show ?thesis using nu position_less[OF True] by (simp add: out(3) position_append)
      next
        case False
        then have "d \<in> set out" using d out(3) by auto
        then show ?thesis using False nu uo ih(3) d by (simp add: out(3) position_append topological_def)
      qed
    qed
    moreover have "set order = set remaining" using out(3) ih(2) r(1) by auto
    moreover have "distinct order" using out(3) ih(1,2) r(2) by auto
    ultimately show ?thesis by blast
  qed
qed

lemma layers_acyclic:
  "acyclic (dep_rel um (set remaining)) \<Longrightarrow> layers um remaining \<noteq> None"
proof (induction um remaining rule: layers.induct)
  case (1 um remaining)
  show ?case
  proof (cases "remaining = []")
    case True
    then show ?thesis by (simp add: layers.simps)
  next
    case False
    let ?r = "ready_units um remaining"
    let ?rest = "filter (\<lambda>uid. uid \<notin> set ?r) remaining"
    have "finite (dep_rel um (set remaining))"
      by (rule finite_subset[of _ "set remaining \<times> set remaining"]) (auto simp: dep_rel_def)
    then have wf: "wf (dep_rel um (set remaining))" using 1(2) by (rule finite_acyclic_wf)
    obtain u where u: "u \<in> set remaining" "\<forall>d. (d, u) \<in> dep_rel um (set remaining) \<longrightarrow> d \<notin> set remaining"
      using wf_eq_minimal[THEN iffD1, OF wf, rule_format, of "hd remaining" "set remaining"] False by auto
    then have "u \<in> set ?r" unfolding ready_set dep_rel_def by blast
    then have ne: "?r \<noteq> []" by auto
    have "dep_rel um (set ?rest) \<subseteq> dep_rel um (set remaining)" by (auto simp: dep_rel_def)
    then have "acyclic (dep_rel um (set ?rest))" using 1(2) acyclic_subset by blast
    then show ?thesis using 1(1)[OF False refl ne] False ne
      by (subst layers.simps) (simp add: Let_def)
  qed
qed

lemma unit_map_keys:
  "set (map fst (unit_map us)) = pu_identity ` set us" "distinct (map fst (unit_map us))"
  unfolding unit_map_def keys_dict_of by (simp_all add: distinct_dict_of image_image)

text \<open>
  C22: the planner's layering ends; it returns an order of all units in which every dependency stands
  before its unit exactly when the dependencies are acyclic, and reports a cycle otherwise.
\<close>

theorem topological_exact:
  "(acyclic (dep_rel (unit_map us) (pu_identity ` set us))
      \<and> (\<exists>order. topological_units us = Inr order \<and> distinct order \<and> set order = pu_identity ` set us
           \<and> topological (unit_map us) order))
   \<or> (\<not> acyclic (dep_rel (unit_map us) (pu_identity ` set us)) \<and> topological_units us = Inl cycle_error)"
proof (cases "layers (unit_map us) (map fst (unit_map us))")
  case None
  then have "\<not> acyclic (dep_rel (unit_map us) (set (map fst (unit_map us))))" using layers_acyclic by blast
  then show ?thesis using None unfolding unit_map_keys by (simp add: topological_units_def Let_def)
next
  case (Some order)
  note out = layers_Some[OF Some unit_map_keys(2)]
  have "acyclic (dep_rel (unit_map us) (set order))" using out topological_acyclic by blast
  then show ?thesis using Some out unfolding unit_map_keys by (auto simp: topological_units_def Let_def)
qed

subsection \<open>Accepted DAGs\<close>

definition depends :: "dag \<Rightarrow> (string \<times> string) set" where
  "depends g = {(d, u). d \<in> set (deps_in (unit_map (dg_units g)) u)}"

lemma reaches_sound:
  "reaches um expected seen frontier = Some True \<Longrightarrow>
   \<exists>f \<in> set frontier. (expected, f) \<in> {(d, u). d \<in> set (deps_in um u)}\<^sup>*"
proof (induction um expected seen frontier rule: reaches.induct)
  case (1 um expected seen frontier)
  let ?f = "last frontier" and ?D = "{(d, u). d \<in> set (deps_in um u)}"
  have ne: "frontier \<noteq> []" using 1(3) by (subst (asm) reaches.simps) (auto split: if_splits)
  have butlast: "set (butlast frontier) \<subseteq> set frontier" by (meson in_set_butlastD subsetI)
  show ?case
  proof (cases "?f \<in> set seen")
    case True
    then have "reaches um expected seen (butlast frontier) = Some True"
      using 1(3) ne by (subst (asm) reaches.simps) simp
    then show ?thesis using 1(1)[OF ne refl refl True] butlast by auto
  next
    case False
    show ?thesis
    proof (cases "?f = expected")
      case True
      then show ?thesis using ne by (metis last_in_set rtrancl.rtrancl_refl)
    next
      case other: False
      obtain u where u: "dget um ?f = Some u"
        "reaches um expected (?f # seen) (butlast frontier @ dependency_ids u) = Some True"
        using 1(3) ne False other
        by (subst (asm) reaches.simps) (auto simp: Let_def split: option.splits)
      obtain x where x: "x \<in> set (butlast frontier @ dependency_ids u)" "(expected, x) \<in> ?D\<^sup>*"
        using 1(2)[OF ne refl refl False other u] by blast
      show ?thesis
      proof (cases "x \<in> set (butlast frontier)")
        case True
        then show ?thesis using x(2) butlast by auto
      next
        case False
        then have "(x, ?f) \<in> ?D" using x(1) u(1) by (simp add: deps_in_def)
        then have "(expected, ?f) \<in> ?D\<^sup>*" using x(2) by (rule rtrancl_into_rtrancl[rotated])
        then show ?thesis using ne last_in_set by blast
      qed
    qed
  qed
qed

lemma predecessors_sound:
  assumes "predecessors_problem g consumer vs = None" "unit_at g uid = Some consumer" "v \<in> set vs"
  shows "\<exists>name expected. v = JStr name \<and> dget (dg_mapping g) name = Some expected
    \<and> (expected, uid) \<in> (depends g)\<^sup>+"
  using assms
proof (induction vs)
  case (Cons w ws)
  obtain name expected where w: "w = JStr name" "dget (dg_mapping g) name = Some expected"
    "reaches (unit_map (dg_units g)) expected [] (dependency_ids consumer) = Some True"
    "predecessors_problem g consumer ws = None"
    using Cons.prems(1) by (auto split: json.splits option.splits bool.splits)
  obtain f where f: "f \<in> set (dependency_ids consumer)" "(expected, f) \<in> (depends g)\<^sup>*"
    using reaches_sound[OF w(3)] by (auto simp: depends_def)
  have "(f, uid) \<in> depends g"
    using f(1) Cons.prems(2) by (simp add: depends_def deps_in_def unit_at_def)
  then have "(expected, uid) \<in> (depends g)\<^sup>+" using f(2) by (rule rtrancl_into_trancl1[rotated])
  then show ?case using Cons w by auto
qed simp

lemma mapping_sound:
  assumes "mapping_problem g rows = None" "(node, uid) \<in> set rows"
  shows "\<exists>u vs. unit_at g uid = Some u \<and> declared_predecessors u = JList vs
    \<and> predecessors_problem g u vs = None"
  using assms by (induction g rows rule: mapping_problem.induct) (auto split: option.splits json.splits)

lemma structureD:
  assumes "structure_problem g = None"
  shows "distinct (dag_ids g)" "set (dg_order g) = set (dag_ids g)" "distinct (dg_order g)"
    "\<And>u d. u \<in> set (dg_units g) \<Longrightarrow> d \<in> set (dependency_ids u) \<Longrightarrow>
       d \<in> set (dag_ids g) \<and> position_of (dg_order g) d < position_of (dg_order g) (pu_identity u)"
    "\<And>node uid. (node, uid) \<in> set (dg_mapping g) \<Longrightarrow>
       \<exists>u. unit_at g uid = Some u \<and> node \<in> set (pu_nodes u) \<and> pu_kind u = Compute"
    "\<And>u node. u \<in> set (dg_units g) \<Longrightarrow> node \<in> set (pu_nodes u) \<Longrightarrow> dget (dg_mapping g) node \<noteq> None"
proof -
  note guards = assms[unfolded structure_problem_def first_problem_None]
  show ids: "distinct (dag_ids g)" and order: "set (dg_order g) = set (dag_ids g)"
    using guards by auto
  have "length (dg_order g) = length (dag_ids g)" using guards by auto
  then show "distinct (dg_order g)" using ids order by (metis card_distinct distinct_card)
  show "d \<in> set (dag_ids g) \<and> position_of (dg_order g) d < position_of (dg_order g) (pu_identity u)"
    if "u \<in> set (dg_units g)" "d \<in> set (dependency_ids u)" for u d
    using guards that by (force simp: list_ex_iff)
  show "\<exists>u. unit_at g uid = Some u \<and> node \<in> set (pu_nodes u) \<and> pu_kind u = Compute"
    if "(node, uid) \<in> set (dg_mapping g)" for node uid
  proof -
    have "mapped_units g (\<lambda>u node. node \<in> set (pu_nodes u))" "mapped_units g (\<lambda>u node. pu_kind u = Compute)"
      using guards by auto
    then show ?thesis using that
      by (cases "unit_at g uid") (fastforce simp: mapped_units_def list_all_iff)+
  qed
  show "dget (dg_mapping g) node \<noteq> None" if "u \<in> set (dg_units g)" "node \<in> set (pu_nodes u)" for u node
    using guards that by (auto simp: list_ex_iff)
qed

lemma unit_at_mem:
  assumes "structure_problem g = None"
  shows "unit_at g uid = Some u \<longleftrightarrow> u \<in> set (dg_units g) \<and> pu_identity u = uid"
proof -
  have "distinct (map fst (map (\<lambda>u. (pu_identity u, u)) (dg_units g)))"
    using structureD(1)[OF assms] by (simp add: comp_def)
  then show ?thesis
    unfolding unit_at_def unit_map_def by (subst dget_dict_of) (auto simp: comp_def map_of_eq_Some_iff)
qed

lemma accepted_topological:
  assumes "structure_problem g = None"
  shows "topological (unit_map (dg_units g)) (dg_order g)"
  unfolding topological_def
proof (intro ballI)
  fix u d assume "u \<in> set (dg_order g)" and d: "d \<in> set (deps_in (unit_map (dg_units g)) u) \<inter> set (dg_order g)"
  then obtain w where w: "dget (unit_map (dg_units g)) u = Some w" "d \<in> set (dependency_ids w)"
    by (cases "dget (unit_map (dg_units g)) u") (auto simp: deps_in_def)
  then have "w \<in> set (dg_units g)" "pu_identity w = u"
    using unit_at_mem[OF assms] by (simp_all add: unit_at_def)
  then show "position_of (dg_order g) d < position_of (dg_order g) u"
    using structureD(4)[OF assms _ w(2)] by auto
qed

text \<open>
  A DAG that passes the checks is acyclic, its order is a topological order of exactly its
  units, each mapped node belongs to a compute unit, and every declared predecessor of a node is
  mapped to a unit from which the node's unit is reached along dependencies.
\<close>

theorem accepted_dag:
  assumes "dag_problem g = None"
  shows "acyclic (dep_rel (unit_map (dg_units g)) (set (dag_ids g)))
    \<and> distinct (dg_order g) \<and> set (dg_order g) = set (dag_ids g)
    \<and> topological (unit_map (dg_units g)) (dg_order g)
    \<and> (\<forall>(node, uid) \<in> set (dg_mapping g). \<exists>u vs. unit_at g uid = Some u \<and> pu_kind u = Compute
         \<and> node \<in> set (pu_nodes u) \<and> declared_predecessors u = JList vs
         \<and> (\<forall>v \<in> set vs. \<exists>name expected. v = JStr name \<and> dget (dg_mapping g) name = Some expected
              \<and> (expected, uid) \<in> (depends g)\<^sup>+))"
proof -
  have ok: "structure_problem g = None" "mapping_problem g (dg_mapping g) = None"
    using assms by (auto simp: dag_problem_def split: option.splits)
  note top = accepted_topological[OF ok(1)]
  have "acyclic (dep_rel (unit_map (dg_units g)) (set (dag_ids g)))"
    using topological_acyclic[OF top] structureD(2)[OF ok(1)] by simp
  moreover have "\<exists>u vs. unit_at g uid = Some u \<and> pu_kind u = Compute
         \<and> node \<in> set (pu_nodes u) \<and> declared_predecessors u = JList vs
         \<and> (\<forall>v \<in> set vs. \<exists>name expected. v = JStr name \<and> dget (dg_mapping g) name = Some expected
              \<and> (expected, uid) \<in> (depends g)\<^sup>+)" if "(node, uid) \<in> set (dg_mapping g)" for node uid
    using structureD(5)[OF ok(1) that] mapping_sound[OF ok(2) that] predecessors_sound by fastforce
  ultimately show ?thesis using structureD(2,3)[OF ok(1)] top by auto
qed

subsection \<open>Counting the realisations of an edge\<close>

definition hop :: "dag \<Rightarrow> logical_edge \<Rightarrow> string \<Rightarrow> string \<Rightarrow> string \<Rightarrow> bool" where
  "hop g e cid a b \<longleftrightarrow> (\<exists>u. unit_at g b = Some u \<and> a \<in> set (data_dependencies u) \<and> passes e cid u)"

definition realisations :: "dag \<Rightarrow> logical_edge \<Rightarrow> string \<Rightarrow> string \<Rightarrow> string \<Rightarrow> string list set" where
  "realisations g e pid cid uid =
     {xs. xs \<noteq> [] \<and> hd xs = pid \<and> last xs = uid \<and> successively (hop g e cid) xs \<and> pid \<notin> set (tl xs)}"

lemma realisations_start: "realisations g e pid cid pid = {[pid]}"
proof -
  have "xs = [pid]" if "xs \<noteq> []" "hd xs = pid" "last xs = pid" "pid \<notin> set (tl xs)" for xs
    using that by (cases xs) (auto split: if_splits dest: last_in_set)
  then show ?thesis by (auto simp: realisations_def)
qed

lemma realisations_step:
  assumes "uid \<noteq> pid" "unit_at g uid = Some u"
  shows "realisations g e pid cid uid = (if passes e cid u
    then (\<Union>a \<in> set (data_dependencies u). (\<lambda>xs. xs @ [uid]) ` realisations g e pid cid a) else {})"
proof -
  have split: "xs \<in> realisations g e pid cid uid \<longleftrightarrow>
      (\<exists>ys. xs = ys @ [uid] \<and> ys \<in> realisations g e pid cid (last ys) \<and> hop g e cid (last ys) uid)" for xs
  proof (cases xs rule: rev_cases)
    case (snoc ys y)
    have "successively (hop g e cid) (ys @ [uid])
        \<longleftrightarrow> successively (hop g e cid) ys \<and> (ys \<noteq> [] \<longrightarrow> hop g e cid (last ys) uid)"
      by (auto simp: successively_append_iff)
    moreover have "ys \<noteq> [] \<Longrightarrow> hd (ys @ [y]) = hd ys \<and> tl (ys @ [y]) = tl ys @ [y]" by simp
    ultimately show ?thesis using assms(1) snoc
      by (cases "ys = []") (auto simp: realisations_def)
  qed (simp add: realisations_def)
  show ?thesis
    by (auto simp: split hop_def assms(2)) (auto simp: realisations_def image_iff)
qed

lemma min_two_sum:
  "(\<And>x. x \<in> set xs \<Longrightarrow> 0 \<le> c x) \<Longrightarrow>
   min 2 (sum_list (map (\<lambda>x. min 2 (c x)) xs)) = min 2 (sum_list (map c xs))" for c :: "'a \<Rightarrow> int"
proof (induction xs)
  case (Cons x xs)
  have arith: "min 2 (min 2 a + s) = min 2 (a + t)" if "min 2 s = min 2 t" "0 \<le> a" "0 \<le> s" "0 \<le> t" for a s t :: int
    using that by (auto simp: min_def split: if_splits)
  have "min 2 (sum_list (map (\<lambda>x. min 2 (c x)) xs)) = min 2 (sum_list (map c xs))"
    using Cons by simp
  moreover have "0 \<le> sum_list (map c xs)" using Cons.prems by (intro sum_list_nonneg) auto
  moreover have "0 \<le> sum_list (map (\<lambda>x. min 2 (c x)) xs)" using Cons.prems by (intro sum_list_nonneg) auto
  ultimately show ?case using arith Cons.prems[of x] by simp
qed simp

lemma realisations_card:
  assumes "uid \<noteq> pid" "unit_at g uid = Some u" "distinct (data_dependencies u)"
    and fin: "\<And>a. a \<in> set (data_dependencies u) \<Longrightarrow> finite (realisations g e pid cid a)"
  shows "finite (realisations g e pid cid uid)"
    "int (card (realisations g e pid cid uid)) = (if passes e cid u
       then sum_list (map (\<lambda>a. int (card (realisations g e pid cid a))) (data_dependencies u)) else 0)"
proof -
  let ?R = "realisations g e pid cid"
  show "finite (?R uid)" using fin by (simp add: realisations_step[OF assms(1,2)])
  have "card (\<Union>a \<in> set (data_dependencies u). (\<lambda>xs. xs @ [uid]) ` ?R a)
      = (\<Sum>a \<in> set (data_dependencies u). card ((\<lambda>xs. xs @ [uid]) ` ?R a))"
    using fin by (intro card_UN_disjoint) (auto simp: realisations_def)
  also have "\<dots> = (\<Sum>a \<in> set (data_dependencies u). card (?R a))"
    by (intro sum.cong card_image refl) (simp add: inj_on_def)
  also have "\<dots> = sum_list (map (\<lambda>a. card (?R a)) (data_dependencies u))"
    using assms(3) by (simp add: sum_list_distinct_conv_sum_set)
  finally show "int (card (?R uid)) = (if passes e cid u
       then sum_list (map (\<lambda>a. int (card (?R a))) (data_dependencies u)) else 0)"
    by (simp add: realisations_step[OF assms(1,2)]) (simp add: comp_def flip: sum_list_of_nat)
qed

text \<open>What the counting loop knows after a part of the order.\<close>

definition counted :: "dag \<Rightarrow> logical_edge \<Rightarrow> string \<Rightarrow> string \<Rightarrow> string set \<Rightarrow> (string, int) pydict \<Rightarrow> bool" where
  "counted g e pid cid seen paths \<longleftrightarrow> (\<forall>x \<in> insert pid seen. finite (realisations g e pid cid x)
     \<and> count_at paths x = min 2 (int (card (realisations g e pid cid x))))"

lemma count_dput: "count_at (dput k n paths) x = (if x = k then n else count_at paths x)"
  by (simp add: count_at_def)

lemma path_counts_correct:
  assumes ok: "structure_problem g = None" "\<And>u. u \<in> set (dg_units g) \<Longrightarrow> unit_problem u = None"
  shows "dg_order g = seen @ uids \<Longrightarrow> counted g e pid cid (set seen) paths \<Longrightarrow>
    \<exists>paths'. path_counts g e pid cid uids paths = Some paths' \<and> counted g e pid cid (set (dg_order g)) paths'"
proof (induction uids arbitrary: seen paths)
  case Nil
  then show ?case by simp
next
  case (Cons uid uids)
  have order: "dg_order g = (seen @ [uid]) @ uids" using Cons.prems(1) by simp
  show ?case
  proof (cases "uid = pid")
    case True
    then have "counted g e pid cid (set (seen @ [uid])) paths" using Cons.prems(2) by (simp add: counted_def)
    then show ?thesis using Cons.IH[OF order] True by simp
  next
    case False
    have "uid \<in> set (dag_ids g)" using structureD(2)[OF ok(1)] Cons.prems(1) by auto
    then obtain u where u: "unit_at g uid = Some u" "u \<in> set (dg_units g)" "pu_identity u = uid"
      using unit_at_mem[OF ok(1)] by auto
    have dist: "distinct (data_dependencies u)"
      using ok(2)[OF u(2)] unfolding unit_problem_def first_problem_None
      by (auto simp: data_dependencies_def dependency_ids_def distinct_map_filter)
    have known: "a \<in> set seen" if "a \<in> set (data_dependencies u)" for a
    proof -
      have "a \<in> set (dependency_ids u)" using that by (auto simp: data_dependencies_def dependency_ids_def)
      then have a: "a \<in> set (dg_order g)" "position_of (dg_order g) a < position_of (dg_order g) uid"
        using structureD(2,4)[OF ok(1)] u by auto
      have "uid \<notin> set seen" using structureD(3)[OF ok(1)] Cons.prems(1) by auto
      then have "position_of (dg_order g) uid = length seen"
        unfolding Cons.prems(1) position_append by (simp add: position_of_def)
      then show ?thesis using a(2) unfolding Cons.prems(1) position_append by (auto split: if_splits)
    qed
    let ?R = "realisations g e pid cid"
    have fin: "finite (?R a)" and count: "count_at paths a = min 2 (int (card (?R a)))"
      if "a \<in> set (data_dependencies u)" for a
      using known[OF that] Cons.prems(2) by (auto simp: counted_def)
    note card = realisations_card[OF False u(1) dist fin]
    have counts: "map (count_at paths) (data_dependencies u) = map (\<lambda>a. min 2 (int (card (?R a)))) (data_dependencies u)"
      using count by simp
    have "min 2 (sum_list (map (count_at paths) (data_dependencies u)))
        = min 2 (sum_list (map (\<lambda>a. int (card (?R a))) (data_dependencies u)))"
      unfolding counts by (rule min_two_sum) simp
    then have "counted g e pid cid (set (seen @ [uid])) (dput uid (if passes e cid u
        then min 2 (sum_list (map (count_at paths) (data_dependencies u))) else 0) paths)"
      using Cons.prems(2) card False by (auto simp: counted_def count_dput)
    then show ?thesis using Cons.IH[OF order] False u(1) by simp
  qed
qed

text \<open>
  On a valid DAG the saturated count along the topological order is exact: the check accepts a
  logical edge between different units exactly when one data path, through no other compute unit
  and no other edge's route, leads from the producer's unit to the consumer's.
\<close>

theorem edge_realised_once:
  assumes "structure_problem g = None" "\<And>u. u \<in> set (dg_units g) \<Longrightarrow> unit_problem u = None"
    "dget (dg_mapping g) (e ! 0) = Some pid" "dget (dg_mapping g) (e ! 1) = Some cid" "pid \<noteq> cid"
  shows "finite (realisations g e pid cid cid)
    \<and> (edge_problem g e = None \<longleftrightarrow> card (realisations g e pid cid cid) = 1)"
proof -
  have "counted g e pid cid {} [(pid, 1)]" by (simp add: counted_def realisations_start count_at_def)
  then obtain paths where paths: "path_counts g e pid cid (dg_order g) [(pid, 1)] = Some paths"
    "counted g e pid cid (set (dg_order g)) paths"
    using path_counts_correct[OF assms(1,2), of "[]" "dg_order g" e pid cid "[(pid, 1)]"] by auto
  have "cid \<in> set (dg_order g)"
    using structureD(2,5)[OF assms(1)] unit_at_mem[OF assms(1)] dget_in_set[OF assms(4)] by fastforce
  then have "finite (realisations g e pid cid cid)"
    "count_at paths cid = min 2 (int (card (realisations g e pid cid cid)))"
    using paths(2) by (auto simp: counted_def)
  moreover have "edge_problem g e = None \<longleftrightarrow> count_at paths cid \<noteq> 0 \<and> \<not> 1 < count_at paths cid"
    using assms(3-5) paths(1) by (simp add: edge_problem_def Let_def)
  moreover have "n = 1 \<longleftrightarrow> min 2 (int n) \<noteq> 0 \<and> \<not> 1 < min 2 (int n)" for n
    by linarith
  ultimately show ?thesis by simp
qed

text \<open>A source unit, a transfer and the consuming unit.\<close>

definition sample_unit :: "string \<Rightarrow> unit_kind \<Rightarrow> string list \<Rightarrow> string list \<Rightarrow> json list \<Rightarrow> phys_unit" where
  "sample_unit uid kind deps nodes preds = \<lparr>pu_identity = uid, pu_kind = kind,
     pu_dependencies = map (\<lambda>d. \<lparr>dp_unit = d, dp_kind = Data_dep\<rparr>) deps, pu_target = ''t'', pu_nodes = nodes,
     pu_metadata = [(''etlantic.logical_predecessors'', JList preds)]\<rparr>"

definition sample_dag :: dag where
  "sample_dag = \<lparr>dg_units = [sample_unit ''u1'' Compute [] [''a''] [],
       sample_unit ''x'' Transfer [''u1''] [] [], sample_unit ''u2'' Compute [''x''] [''b''] [JStr ''a'']],
     dg_mapping = [(''a'', ''u1''), (''b'', ''u2'')], dg_order = [''u1'', ''x'', ''u2'']\<rparr>"

lemma accepted_dag_witness:
  "dag_problem sample_dag = None \<and> acyclic (dep_rel (unit_map (dg_units sample_dag)) (set (dag_ids sample_dag)))"
proof -
  have "dag_problem sample_dag = None" by code_simp
  then show ?thesis using accepted_dag[of sample_dag] by blast
qed

lemma edge_realised_once_witness:
  "edge_problem sample_dag [''a'', ''b''] = None
   \<and> card (realisations sample_dag [''a'', ''b''] ''u1'' ''u2'' ''u2'') = 1"
proof -
  have ok: "structure_problem sample_dag = None" "edge_problem sample_dag [''a'', ''b''] = None"
    "list_all (\<lambda>u. unit_problem u = None) (dg_units sample_dag)"
    "dget (dg_mapping sample_dag) ([''a'', ''b''] ! 0) = Some ''u1''"
    "dget (dg_mapping sample_dag) ([''a'', ''b''] ! 1) = Some ''u2''"
    by code_simp+
  have units: "\<And>u. u \<in> set (dg_units sample_dag) \<Longrightarrow> unit_problem u = None"
    using ok(3) by (simp add: list_all_iff)
  from edge_realised_once[OF ok(1) units ok(4,5)] ok(2) show ?thesis by auto
qed

end
