(* ===== verification/Spec2Isabelle.thy ===== *)
theory Spec2Isabelle
  imports Durable_Recovery Durable_Safety Durable_Delivery Durable_Lifecycle Action_Histories
    Schedule_Safety Quota_Reservations Quota_Fairness Gate_Safety Erasure Registry_Safety
    Incremental_State Expansion Scalar_Types Relational_Laws
    Adaptive_Limits Adaptive_Regions Graph_Cycles Physical_Dag
begin

text \<open>
  A verification library for \<^verbatim>\<open>etlantic\<close>, a Python framework for data pipelines.  It models the
  parts of \<^verbatim>\<open>src/src/etlantic\<close> that decide something by themselves: the reference stores of the
  control plane, which accept, lease, schedule and account for work, and the algorithms of the planner,
  which place a pipeline on engines and lay out its physical graph.

  \<^bold>\<open>The parts and how they interact.\<close>  A client asks the control plane to run a pipeline.  The quota
  provider (\<^verbatim>\<open>control_plane/quota_memory.py\<close>) admits the request; the durable work store
  (\<^verbatim>\<open>control_plane/durable_memory.py\<close>) accepts it once as a submission with an outbox row; an execution
  host takes the submission's lease and runs attempts under its fencing token, or a dispatcher hands it to
  a remote backend and links the remote run; cancellations, effects, checkpoints, publications, baselines,
  previews and action jobs are rows of the same store.  The schedule store
  (\<^verbatim>\<open>control_plane/schedule_memory.py\<close>) holds schedules, whose occurrences the clock
  (\<^verbatim>\<open>control_plane/schedule_clock.py\<close>) computes; the leader of a scope claims an occurrence, prepares it
  and links it with a submission of the durable store.  The planner (\<^verbatim>\<open>planning/adaptive.py\<close>) assigns
  nodes to execution targets under a memory ledger (\<^verbatim>\<open>planning/adaptive_budget.py\<close>), groups them into
  regions and orders the physical units (\<^verbatim>\<open>plan/physical.py\<close>); the validator
  (\<^verbatim>\<open>validation/__init__.py\<close>) reports cycles.

  \<^bold>\<open>The library.\<close>  \<open>Etl_Prelude\<close> holds errors, outcomes, dictionaries (association lists with Python's
  insertion order) and string helpers; \<open>Etl_Evolution\<close> the relation \<open>evolves\<close> between a table and a later
  state of it, from which every statement about ``every later store'' follows.

  \<^bold>\<open>Durable work store.\<close>  \<open>Durable_Records\<close> has the rows as records and the store as one record of
  dictionaries; \<open>Durable_Submissions\<close>, \<open>Durable_Execution\<close>, \<open>Durable_Routes\<close>, \<open>Durable_Dispatch\<close>,
  \<open>Action_Jobs\<close> and \<open>Durable_Previews\<close> have one definition for each method of
  \<^verbatim>\<open>MemoryDurableWorkStore\<close>, in the form \<open>store \<Rightarrow> (error + result) \<times> store\<close>.  \<open>Durable_System\<close> collects
  the calls in one step relation and its reachable stores; \<open>Durable_Frames\<close>, \<open>Durable_Histories\<close>,
  \<open>Durable_Evolution\<close> and \<open>Durable_Invariants\<close> prove for each operation which tables it leaves alone, that
  it keeps \<open>store_ok\<close> and how rows may change.  \<open>Durable_Contracts\<close> states the interfaces as locales:
  \<open>fenced_claim\<close> (leases, dispatches, action jobs and, in \<open>Schedule_Invariants\<close>, scheduler leaders are
  interpretations) and \<open>versioned_cell\<close> (checkpoints and baselines).  The properties are in
  \<open>Durable_Safety\<close>, \<open>Durable_Recovery\<close>, \<open>Durable_Delivery\<close>, \<open>Durable_Lifecycle\<close> and \<open>Action_Histories\<close>.

  \<^bold>\<open>Quota provider.\<close>  \<open>Quota\<close> has \<^verbatim>\<open>MemoryQuotaProvider\<close>; \<open>Quota_Invariants\<close> the reachable providers of a
  client discipline and the bound of usage, \<open>Quota_Reservations\<close> that usage is the sum of the open
  reservations, \<open>Quota_Fairness\<close> the weighted round robin: a bound of the wait of a lone client, and two
  clients that starve each other.

  \<^bold>\<open>Governance.\<close>  \<open>Policy\<close> has the constraints, decisions and fingerprints of \<^verbatim>\<open>policy_memory.py\<close> and
  \<^verbatim>\<open>governance_models.py\<close>; \<open>Approvals\<close> the approval store with its separation of duties and
  \<open>Approval_Safety\<close> the life of a request; \<open>Attestations\<close> the signed attestations; \<open>Json_Text\<close> that compact
  JSON with sorted keys is injective, on which the fingerprints and \<open>Audit_Chain\<close> (the hash-linked audit
  evidence) rest; \<open>Redaction\<close> the recursive redaction.  \<open>Policy_Gates\<close> composes them with the quota provider
  as \<^verbatim>\<open>policy_gates.py\<close> does, and \<open>Gate_Safety\<close> shows what passes, that a refusal holds nothing and that
  decisions are recorded.  \<open>Erasure\<close> has the erasure requests, plans and reports with their legal holds;
  \<open>Registry\<close> the directories and the append-only revisions of \<^verbatim>\<open>registry_memory.py\<close>, and \<open>Registry_Safety\<close>
  that revisions are immutable, heads only move forward and suspended scopes fail closed.

  \<^bold>\<open>Schedules.\<close>  \<open>Schedule_Clock\<close> has the cron parser and \<^verbatim>\<open>next_fire_after\<close>, \<open>Schedule_Store\<close> and
  \<open>Schedule_Firings\<close> the methods of \<^verbatim>\<open>MemoryScheduleStore\<close>; \<open>Schedule_System\<close> the histories of this store
  and the durable store together, and the state machine of an occurrence with the lemma of each operation
  that it makes steps of that machine only; \<open>Schedule_Invariants\<close> the joint invariant; \<open>Schedule_Safety\<close>
  the properties.

  \<^bold>\<open>Planner.\<close>  \<open>Canonical_Json\<close> and \<open>Transient_Budget\<close> have the streaming JSON writer, its size predictor
  and the memory ledger with its scopes; \<open>Adaptive_Model\<close> the inventory, handoff evidence and objective;
  \<open>Adaptive_Solver\<close> the branch-and-bound search and the exhaustive oracle; \<open>Adaptive_Search\<close>,
  \<open>Adaptive_Correctness\<close>, \<open>Adaptive_Optimality\<close> and \<open>Adaptive_Limits\<close> that the search returns the least
  viable assignment (locale \<open>optimistic_bound\<close>: a bound that never exceeds the objective of a completion);
  \<open>Adaptive_Regions\<close> that the regions are the connected components; \<open>Graph_Cycles\<close> and \<open>Physical_Dag\<close> the
  cycle detection, the layering and the checks of the physical graph.

  \<^bold>\<open>Runs and expressions.\<close>  \<open>Run_Selection\<close> has the slices of \<^verbatim>\<open>plan/slicing.py\<close>, the selections of
  \<^verbatim>\<open>runtime/request.py\<close> and the repair and invalidation loops, and shows that each computes reachability in
  the logical graph; \<open>Run_Policies\<close> the run request, its policy defaults and their provenance, and the write
  modes; \<open>Incremental_State\<close> the memory and file stores of cursors, both interpretations of the locale
  \<open>state_store\<close>.  \<open>Expansion\<close> has the bounded expansion of \<^verbatim>\<open>streaming/control.py\<close>.  \<open>Scalar_Expr\<close> is the
  scalar evaluator of \<^verbatim>\<open>transform/evaluation.py\<close>; \<open>Scalar_Safety\<close> shows that a handler only changes how
  failures are delivered and that computed integers stay in 64 bits, \<open>Scalar_Types\<close> that well-typed
  expressions are safe.  \<open>Relational\<close> has the relational actions of the local engine (\<^verbatim>\<open>transform/local_compiler.py\<close>)
  and \<open>Relational_Laws\<close> shows what joins, sorts and groupings return.

  \<^bold>\<open>Bounds and fuel.\<close>  The depth-first search of \<open>Graph_Cycles\<close> runs with the fuel \<open>fuel_for\<close>, one more
  than the nodes and twice the edges, and \<open>cycles_detected\<close> shows it suffices; \<open>find_root\<close> of the regions is a
  \<open>partial_function\<close> and shown to return; \<open>next_fire_after\<close> probes 366 days of minutes as the code does; the
  solver's expansion limit is the code's.  The stack loops of \<open>Run_Selection\<close> need no fuel: their termination
  proofs count the names not yet seen.

  \<^bold>\<open>Parameters.\<close>  The record \<open>externals\<close> stands for SHA-256, redaction and the readers of envelopes and
  reports, \<open>digests\<close> and the argument \<open>mac\<close> for SHA-256, HMAC and the regular expressions of the
  redaction in the governance stores; \<open>zones\<close> for the offsets of the time-zone database; \<open>it\<close> in \<open>Run_Selection\<close> for the iteration order of sets; \<open>host\<close>
  in \<open>Scalar_Expr\<close> for Python's operations on floats, decimals, dates and collections; \<open>engine\<close> in \<open>Relational\<close> for their \<^verbatim>\<open>repr\<close> and NaN test.  Instants are microseconds since 1970; an ISO
  text is the text the code writes for one, so a caller's other spelling of the same instant is outside the
  model.  Each method holds the store's lock for its whole body, so a call is one step and histories are
  sequences of calls; the identifiers that \<^verbatim>\<open>uuid4\<close> generates are arguments, new to the store where a
  property needs it (\<open>fresh_ids\<close>, \<open>fresh_claim\<close>).  Deep copies are values.  Payloads hold no floats,
  strings are lists of characters up to code point 255, and dates do not overflow.

  \<^bold>\<open>Not modelled.\<close>  Snapshots (\<^verbatim>\<open>dump\<close>, \<^verbatim>\<open>load\<close>) and readers of older JSON rows; the run-time orchestrator,
  execution hosts and scheduler loop, which drive plugins, threads and files around the modelled calls; the
  candidate matrix of the planner, inference and the compilers of transformations, which inspect Python
  objects and data frames; the wire form of run requests; the history and objective stores; JSON schemas; HTTP routes, database stores,
  engine and cloud plugins, command line and documentation tooling, which call code outside the repository.
\<close>

end
